(* ===== verification/Prelude.thy ===== *)
theory Prelude
  imports Main "HOL-Library.Word" "HOL-Library.Multiset" "HOL-Library.Sublist"
begin

text \<open>
  What the components share: names for the Rust types they use, the saturating machine arithmetic
  of the standard library, the ordered map (\<open>BTreeMap\<close>) as a sorted association list behind a
  locale of its laws, and the generic part of every state-machine argument, which is reachability
  over an initial predicate and a step relation with locales for invariants and simulations.
\<close>

unbundle bit_operations_syntax

section \<open>Types of the Rust sources\<close>

text \<open>
  A \<open>Uuid\<close> is its 128 bits. A \<open>Duration\<close> and an \<open>Instant\<close> are counted in nanoseconds; a
  \<open>Duration\<close> holds at most \<open>u64::MAX\<close> seconds and 999999999 nanoseconds. A \<open>Result<T, E>\<close> is the
  sum \<open>'e + 'a\<close> with the error on the left.
\<close>

type_synonym uuid = "128 word"
type_synonym u32 = "32 word"
type_synonym u64 = "64 word"
type_synonym duration = nat
type_synonym instant = nat
type_synonym ('a, 'e) result = "'e + 'a"

abbreviation Ok :: "'a \<Rightarrow> ('a, 'e) result" where
  "Ok x \<equiv> Inr x"

abbreviation Err :: "'e \<Rightarrow> ('a, 'e) result" where
  "Err e \<equiv> Inl e"

named_theorems run_simps \<open>equations that unfold the operations of a component\<close>
named_theorems frame_simps \<open>what an operation leaves unchanged\<close>

section \<open>Saturating arithmetic\<close>

definition u32_max :: u32 where
  "u32_max = - 1"

definition u32_saturating_add :: "u32 \<Rightarrow> u32 \<Rightarrow> u32" where
  "u32_saturating_add a b = (if unat a + unat b < 2 ^ 32 then a + b else u32_max)"

definition u32_saturating_pow :: "u32 \<Rightarrow> u32 \<Rightarrow> u32" where
  "u32_saturating_pow b e =
     (if unat b ^ unat e < 2 ^ 32 then of_nat (unat b ^ unat e) else u32_max)"

definition duration_max :: duration where
  "duration_max = 2 ^ 64 * 10 ^ 9 - 1"

definition duration_saturating_mul :: "duration \<Rightarrow> u32 \<Rightarrow> duration" where
  "duration_saturating_mul d f = min (d * unat f) duration_max"

lemma unat_u32_max [simp]: "unat u32_max = 2 ^ 32 - 1"
  by (simp add: u32_max_def unsigned_minus_1_eq_mask mask_eq_exp_minus_1)

lemma unat_u32_saturating_add: "unat (u32_saturating_add a b) = min (unat a + unat b) (2 ^ 32 - 1)"
  by (auto simp: u32_saturating_add_def unat_word_ariths min_def)

lemma unat_u32_saturating_pow: "unat (u32_saturating_pow b e) = min (unat b ^ unat e) (2 ^ 32 - 1)"
proof (cases "unat b ^ unat e < 2 ^ 32")
  case True
  then have "unat (of_nat (unat b ^ unat e) :: u32) = unat b ^ unat e"
    by (subst unat_of_nat) simp
  with True show ?thesis by (simp add: u32_saturating_pow_def del: of_nat_power)
next
  case False
  then show ?thesis by (simp add: u32_saturating_pow_def)
qed

section \<open>Ordered maps\<close>

text \<open>
  The interface of an ordered map: lookup after an insertion and after a removal, and the
  entries in the order of their keys.
\<close>

locale ordered_map =
  fixes insert_at :: "'k::linorder \<Rightarrow> 'v \<Rightarrow> 'm \<Rightarrow> 'm"
    and remove_at :: "'k \<Rightarrow> 'm \<Rightarrow> 'm"
    and get_at :: "'m \<Rightarrow> 'k \<Rightarrow> 'v option"
    and entries :: "'m \<Rightarrow> ('k \<times> 'v) list"
    and ordered :: "'m \<Rightarrow> bool"
  assumes get_insert: "ordered m \<Longrightarrow> get_at (insert_at k v m) k' = (if k' = k then Some v else get_at m k')"
    and get_remove: "ordered m \<Longrightarrow> get_at (remove_at k m) k' = (if k' = k then None else get_at m k')"
    and get_entries: "ordered m \<Longrightarrow> get_at m k = map_of (entries m) k"
    and ordered_insert: "ordered m \<Longrightarrow> ordered (insert_at k v m)"
    and ordered_remove: "ordered m \<Longrightarrow> ordered (remove_at k m)"
    and ordered_entries: "ordered m \<Longrightarrow> sorted_wrt (<) (map fst (entries m))"
begin

lemma distinct_entries: "ordered m \<Longrightarrow> distinct (map fst (entries m))"
  using ordered_entries strict_sorted_iff by blast

lemma keys_eq: "ordered m \<Longrightarrow> set (map fst (entries m)) = {k. get_at m k \<noteq> None}"
  by (auto simp: get_entries map_of_eq_None_iff)

lemma keys_insert: "ordered m \<Longrightarrow> set (map fst (entries (insert_at k v m))) = insert k (set (map fst (entries m)))"
  by (simp only: keys_eq ordered_insert get_insert) auto

lemma keys_remove: "ordered m \<Longrightarrow> set (map fst (entries (remove_at k m))) = set (map fst (entries m)) - {k}"
  by (simp only: keys_eq ordered_remove get_remove) auto

lemma first_least: "ordered m \<Longrightarrow> entries m = e # es \<Longrightarrow> k \<in> set (map fst (entries m)) \<Longrightarrow> fst e \<le> k"
  using ordered_entries [of m] by auto

end

fun bt_insert :: "'k::linorder \<Rightarrow> 'v \<Rightarrow> ('k \<times> 'v) list \<Rightarrow> ('k \<times> 'v) list" where
  "bt_insert k v [] = [(k, v)]"
| "bt_insert k v ((k', v') # xs) =
     (if k < k' then (k, v) # (k', v') # xs
      else if k = k' then (k, v) # xs
      else (k', v') # bt_insert k v xs)"

definition bt_remove :: "'k \<Rightarrow> ('k \<times> 'v) list \<Rightarrow> ('k \<times> 'v) list" where
  "bt_remove k xs = filter (\<lambda>e. fst e \<noteq> k) xs"

definition bt_ordered :: "('k::linorder \<times> 'v) list \<Rightarrow> bool" where
  "bt_ordered xs \<longleftrightarrow> sorted_wrt (<) (map fst xs)"

lemma set_bt_insert: "set (map fst (bt_insert k v xs)) = insert k (set (map fst xs))"
  by (induction k v xs rule: bt_insert.induct) auto

lemma bt_ordered_insert: "bt_ordered xs \<Longrightarrow> bt_ordered (bt_insert k v xs)"
proof (induction k v xs rule: bt_insert.induct)
  case (1 k v)
  then show ?case by (simp add: bt_ordered_def)
next
  case (2 k v k' v' xs)
  then show ?case
    using set_bt_insert [of k v xs] by (auto simp: bt_ordered_def)
qed

lemma map_of_bt_insert: "map_of (bt_insert k v xs) k' = (if k' = k then Some v else map_of xs k')"
  if "bt_ordered xs"
  using that by (induction k v xs rule: bt_insert.induct) (auto simp: bt_ordered_def)

lemma map_of_bt_remove: "map_of (bt_remove k xs) k' = (if k' = k then None else map_of xs k')"
  by (induction xs) (auto simp: bt_remove_def)

lemma bt_ordered_remove: "bt_ordered xs \<Longrightarrow> bt_ordered (bt_remove k xs)"
  by (induction xs) (auto simp: bt_remove_def bt_ordered_def)

lemma bt_ordered_Nil [simp]: "bt_ordered []"
  by (simp add: bt_ordered_def)

interpretation bt: ordered_map bt_insert bt_remove map_of "\<lambda>m. m" bt_ordered
  by unfold_locales
    (simp_all add: map_of_bt_insert map_of_bt_remove bt_ordered_insert bt_ordered_remove,
      simp add: bt_ordered_def)

lemma bt_insert_above:
  "(\<And>k'. k' \<in> set (map fst xs) \<Longrightarrow> k' < k) \<Longrightarrow> bt_insert k v xs = xs @ [(k, v)]"
proof (induction xs)
  case Nil
  then show ?case by simp
next
  case (Cons e xs)
  obtain k' v' where e: "e = (k', v')" by (cases e)
  from Cons.prems have "k' < k" by (simp add: e)
  moreover from Cons have "bt_insert k v xs = xs @ [(k, v)]" by simp
  ultimately show ?case by (auto simp: e)
qed

lemma mset_bt_insert: "k \<notin> set (map fst xs) \<Longrightarrow> mset (bt_insert k v xs) = add_mset (k, v) (mset xs)"
  by (induction k v xs rule: bt_insert.induct) auto

lemma mset_bt_remove:
  "bt_ordered xs \<Longrightarrow> (k, v) \<in> set xs \<Longrightarrow> mset xs = add_mset (k, v) (mset (bt_remove k xs))"
proof (induction xs)
  case (Cons e xs)
  have "bt_remove k xs = xs" if "fst e = k"
    using Cons.prems(1) that by (auto simp: bt_remove_def bt_ordered_def filter_id_conv)
  then show ?case
    using Cons by (cases "e = (k, v)") (auto simp: bt_remove_def bt_ordered_def image_iff)
qed simp

section \<open>Reachable states, invariants and simulations\<close>

text \<open>
  A component that reacts to events is a predicate on its initial states and a step relation that
  names the event of each step.
\<close>

inductive reach :: "('s \<Rightarrow> bool) \<Rightarrow> ('s \<Rightarrow> 'e \<Rightarrow> 's \<Rightarrow> bool) \<Rightarrow> 's \<Rightarrow> bool" for init step where
  reach_init: "init s \<Longrightarrow> reach init step s"
| reach_step: "reach init step s \<Longrightarrow> step s e t \<Longrightarrow> reach init step t"

locale invariant_system =
  fixes init :: "'s \<Rightarrow> bool"
    and step :: "'s \<Rightarrow> 'e \<Rightarrow> 's \<Rightarrow> bool"
    and inv :: "'s \<Rightarrow> bool"
  assumes inv_init: "init s \<Longrightarrow> inv s"
    and inv_step: "step s e t \<Longrightarrow> inv s \<Longrightarrow> inv t"
begin

lemma inv_reach: "reach init step s \<Longrightarrow> inv s"
  by (induction rule: reach.induct) (auto intro: inv_init inv_step)

end

locale simulation =
  fixes init :: "'s \<Rightarrow> bool"
    and step :: "'s \<Rightarrow> 'e \<Rightarrow> 's \<Rightarrow> bool"
    and ainit :: "'a \<Rightarrow> bool"
    and astep :: "'a \<Rightarrow> 'e \<Rightarrow> 'a \<Rightarrow> bool"
    and abs :: "'s \<Rightarrow> 'a"
    and inv :: "'s \<Rightarrow> bool"
  assumes sim_inv_init: "init s \<Longrightarrow> inv s"
    and sim_inv_step: "step s e t \<Longrightarrow> inv s \<Longrightarrow> inv t"
    and sim_init: "init s \<Longrightarrow> ainit (abs s)"
    and sim_step: "step s e t \<Longrightarrow> inv s \<Longrightarrow> astep (abs s) e (abs t)"
begin

lemma sim_reach: "reach init step s \<Longrightarrow> inv s \<and> reach ainit astep (abs s)"
  by (induction rule: reach.induct)
    (auto intro: sim_inv_init sim_inv_step sim_init sim_step reach.intros)

end

text \<open>The run of a deterministic operation over a list of events, and what every step keeps.\<close>

lemma fold_invariant:
  assumes "P s" and "\<And>x s. x \<in> set xs \<Longrightarrow> P s \<Longrightarrow> P (f x s)"
  shows "P (fold f xs s)"
  using assms by (induction xs arbitrary: s) auto

section \<open>Lists of keyed results\<close>

lemma distinct_snoc [simp]: "distinct (xs @ [x]) \<longleftrightarrow> x \<notin> set xs \<and> distinct xs"
  by auto

lemma subseq_set: "subseq xs ys \<Longrightarrow> set xs \<subseteq> set ys"
  by (induction rule: list_emb.induct) auto

lemma subseq_pair_prefix:
  assumes "subseq [a, b] (xs @ ys)" and "b \<notin> set ys"
  shows "a \<in> set xs"
proof -
  from assms(1) obtain us vs where uv: "[a, b] = us @ vs" "subseq us xs" "subseq vs ys"
    by (auto simp: subseq_append_iff)
  from subseq_set [OF uv(3)] assms(2) have "b \<notin> set vs" by auto
  with uv(1) have "us = [a, b]" by (cases vs rule: rev_cases) auto
  with subseq_set [OF uv(2)] show ?thesis by simp
qed

lemma subseq_insert_middle: "subseq us (xs @ ys) \<Longrightarrow> subseq us (xs @ zs @ ys)"
  by (rule subseq_order.trans, assumption, intro list_emb_append_mono) auto

lemma sorted_key_filter_snoc:
  "sorted_wrt (<) (xs @ [x]) \<longleftrightarrow> sorted_wrt (<) xs \<and> (\<forall>y\<in>set xs. y < x)"
  by (auto simp: sorted_wrt_append)

end
