(* ===== verification/Backoff.thy ===== *)
theory Backoff
  imports Prelude
begin

text \<open>
  The exponential backoff of \<open>br-jobs-runner-core\<close> (\<open>backoff.rs\<close>): its configuration check, the
  delay it gives on each attempt and the reset. \<open>attempts\<close> is a \<open>u32\<close> and both the power and the
  product saturate, as in the source.
\<close>

datatype BackoffConfigError = ZeroBase | CapBelowBase

record Backoff =
  base :: duration
  cap :: duration
  attempts :: u32

definition backoff_new :: "duration \<Rightarrow> duration \<Rightarrow> (Backoff, BackoffConfigError) result" where
  "backoff_new b c =
     (if b = 0 then Err ZeroBase
      else if c < b then Err CapBelowBase
      else Ok \<lparr>base = b, cap = c, attempts = 0\<rparr>)"

definition next_delay :: "Backoff \<Rightarrow> duration \<times> Backoff" where
  "next_delay s =
     (let factor = u32_saturating_pow 2 (attempts s);
          s' = s\<lparr>attempts := u32_saturating_add (attempts s) 1\<rparr>
      in (min (duration_saturating_mul (base s') factor) (cap s'), s'))"

definition backoff_reset :: "Backoff \<Rightarrow> Backoff" where
  "backoff_reset s = s\<lparr>attempts := 0\<rparr>"

text \<open>The delays of \<open>n\<close> consecutive calls, and the state after them.\<close>

fun delays :: "nat \<Rightarrow> Backoff \<Rightarrow> duration list \<times> Backoff" where
  "delays 0 s = ([], s)"
| "delays (Suc n) s =
     (let (d, s') = next_delay s; (ds, s'') = delays n s' in (d # ds, s''))"

definition backoff_ok :: "Backoff \<Rightarrow> bool" where
  "backoff_ok s \<longleftrightarrow> 0 < base s \<and> base s \<le> cap s \<and> cap s \<le> duration_max"

text \<open>The delay of the attempt number \<open>k\<close> (from 0), as a closed formula.\<close>

definition delay_at :: "Backoff \<Rightarrow> nat \<Rightarrow> duration" where
  "delay_at s k = min (base s * min (2 ^ k) (2 ^ 32 - 1)) (cap s)"

lemma backoff_new_ok: "backoff_new b c = Ok s \<Longrightarrow> c \<le> duration_max \<Longrightarrow> backoff_ok s"
  by (auto simp: backoff_new_def backoff_ok_def split: if_splits)

lemma next_delay_frame [frame_simps]:
  "base (snd (next_delay s)) = base s" "cap (snd (next_delay s)) = cap s"
  "unat (attempts (snd (next_delay s))) = min (unat (attempts s) + 1) (2 ^ 32 - 1)"
  by (simp_all add: next_delay_def Let_def unat_u32_saturating_add)

lemma next_delay_ok: "backoff_ok s \<Longrightarrow> backoff_ok (snd (next_delay s))"
  by (simp add: backoff_ok_def frame_simps)

lemma next_delay_value: "backoff_ok s \<Longrightarrow> fst (next_delay s) = delay_at s (unat (attempts s))"
  by (simp add: next_delay_def delay_at_def Let_def duration_saturating_mul_def
      unat_u32_saturating_pow backoff_ok_def min.assoc min_absorb2)

lemma power_cap_mono: "min (2 ^ i) C \<le> min (2 ^ j) (C :: nat)" if "i \<le> j"
  using power_increasing [OF that, of "2::nat"] by (auto simp: min_le_iff_disj)

lemma power_cap_saturates: "min (2 ^ min k M) C = min (2 ^ k) (C :: nat)" if "C \<le> 2 ^ M"
proof (cases "k \<le> M")
  case False
  then have "(2::nat) ^ M \<le> 2 ^ k" by (intro power_increasing) auto
  with that have "C \<le> 2 ^ k" by (rule order_trans)
  with that False show ?thesis by (simp add: min_absorb2)
qed (simp add: min_absorb1)

lemma delay_at_mono: "i \<le> j \<Longrightarrow> delay_at s i \<le> delay_at s j"
  unfolding delay_at_def by (intro min.mono mult_le_mono power_cap_mono) auto

lemma delay_at_bounds: "backoff_ok s \<Longrightarrow> base s \<le> delay_at s k \<and> delay_at s k \<le> cap s"
proof -
  assume ok: "backoff_ok s"
  have "1 \<le> min (2 ^ k) (2 ^ 32 - 1 :: nat)" by simp
  then have "base s * 1 \<le> base s * min (2 ^ k) (2 ^ 32 - 1)" by (intro mult_le_mono) auto
  with ok show ?thesis by (simp add: delay_at_def backoff_ok_def)
qed

lemma u32_power_bound: "(2 ^ 32 - 1 :: nat) \<le> 2 ^ (2 ^ 32 - 1)"
proof -
  have "(2 ^ 32 - 1 :: nat) \<le> 2 ^ 32" by simp
  also have "(2 ^ 32 :: nat) \<le> 2 ^ (2 ^ 32 - 1)" by (rule power_increasing) auto
  finally show ?thesis .
qed

lemma delay_at_attempts_cap: "delay_at s (min k (2 ^ 32 - 1)) = delay_at s k"
  unfolding delay_at_def power_cap_saturates [OF u32_power_bound] ..

lemma delay_at_frame: "delay_at (snd (next_delay s)) = delay_at s"
  by (simp add: fun_eq_iff delay_at_def frame_simps)

lemma delays_closed:
  "backoff_ok s \<Longrightarrow> fst (delays n s) = map (\<lambda>i. delay_at s (unat (attempts s) + i)) [0..<n]"
proof (induction n arbitrary: s)
  case 0
  then show ?case by simp
next
  case (Suc n)
  let ?s' = "snd (next_delay s)"
  have "delay_at s (unat (attempts ?s') + i) = delay_at s (unat (attempts s) + Suc i)" for i
    using delay_at_attempts_cap [of s "unat (attempts ?s') + i"]
      delay_at_attempts_cap [of s "unat (attempts s) + Suc i"]
    by (simp add: frame_simps min_def split: if_splits)
  then have "fst (delays n ?s') = map (\<lambda>i. delay_at s (unat (attempts s) + Suc i)) [0..<n]"
    using Suc.IH [OF next_delay_ok [OF Suc.prems]] by (simp add: delay_at_frame)
  then show ?case
    using next_delay_value [OF Suc.prems]
    by (simp add: Let_def split_beta map_upt_Suc del: upt_Suc)
qed

text \<open>
  A backoff that was made from a base and a cap gives, on its consecutive calls, delays that
  double from the base up to the cap for the first 32 calls, never fall, and always lie between
  the base and the cap, however many calls are made (the \<open>u32\<close> power, the counter and the
  product saturate instead of wrapping).
\<close>
theorem backoff_delays:
  assumes "backoff_new b c = Ok s" and "c \<le> duration_max"
  shows "(length (fst (delays n s)) = n) \<and>
    (\<forall>i < n. i < 32 \<longrightarrow> fst (delays n s) ! i = min (b * 2 ^ i) c) \<and>
    (sorted (fst (delays n s))) \<and>
    (\<forall>d \<in> set (fst (delays n s)). b \<le> d \<and> d \<le> c)"
proof -
  from assms have ok: "backoff_ok s" by (rule backoff_new_ok)
  from assms(1) have s: "base s = b" "cap s = c" "attempts s = 0"
    by (auto simp: backoff_new_def split: if_splits)
  note closed = delays_closed [OF ok, of n, unfolded s(3), simplified]
  have p1: "length (fst (delays n s)) = n" by (simp add: closed)
  have "(2::nat) ^ i \<le> 2 ^ 32 - 1" if "i < 32" for i
    using power_increasing [of i 31 "2::nat"] that by simp
  then have p2: "\<forall>i < n. i < 32 \<longrightarrow> fst (delays n s) ! i = min (b * 2 ^ i) c"
    by (auto simp: closed delay_at_def s min_absorb1)
  have p3: "sorted (fst (delays n s))"
    by (auto simp: closed sorted_iff_nth_mono intro: delay_at_mono)
  have p4: "\<forall>d \<in> set (fst (delays n s)). b \<le> d \<and> d \<le> c"
    using delay_at_bounds [OF ok] by (auto simp: closed s)
  show ?thesis using p1 p2 p3 p4 by blast
qed

theorem backoff_delays_witness:
  "backoff_new 1000000000 30000000000 = Ok \<lparr>base = 1000000000, cap = 30000000000, attempts = 0\<rparr> \<and>
   fst (delays 6 \<lparr>base = 1000000000, cap = 30000000000, attempts = 0\<rparr>) ! 5 = 30000000000"
proof -
  let ?s = "\<lparr>base = 1000000000, cap = 30000000000, attempts = 0\<rparr>"
  have n: "backoff_new 1000000000 30000000000 = Ok ?s" by (simp add: backoff_new_def)
  have c: "(30000000000::nat) \<le> duration_max" by (simp add: duration_max_def)
  show ?thesis using n backoff_delays [OF n c, of 6] by simp
qed

lemma backoff_reset_restarts: "delays n (backoff_reset (snd (delays m s))) = delays n (backoff_reset s)"
proof -
  have "base (snd (delays m s)) = base s \<and> cap (snd (delays m s)) = cap s"
    by (induction m arbitrary: s) (simp_all add: Let_def split_beta frame_simps)
  then have "backoff_reset (snd (delays m s)) = backoff_reset s"
    by (simp add: backoff_reset_def)
  then show ?thesis by simp
qed

end
