(* ===== verification/Slot_Pool.thy ===== *)
theory Slot_Pool
  imports Prelude
begin

text \<open>
  The slots of \<open>br-jobs-runner-core\<close> (\<open>slots.rs\<close>): a claim of a Run takes a free slot unless the
  pool drains, holds the Run already or is full. \<open>capacity\<close> is a \<open>NonZeroUsize\<close>.
\<close>

datatype ClaimDecision = Claimed | AtCapacity | PoolDraining | AlreadyInFlight

record SlotPool =
  capacity :: nat
  in_flight :: "uuid set"
  draining :: bool

definition slot_pool_new :: "nat \<Rightarrow> SlotPool" where
  "slot_pool_new c = \<lparr>capacity = c, in_flight = {}, draining = False\<rparr>"

definition try_claim :: "uuid \<Rightarrow> SlotPool \<Rightarrow> ClaimDecision \<times> SlotPool" where
  "try_claim run p =
     (if draining p then (PoolDraining, p)
      else if run \<in> in_flight p then (AlreadyInFlight, p)
      else if card (in_flight p) \<ge> capacity p then (AtCapacity, p)
      else (Claimed, p\<lparr>in_flight := insert run (in_flight p)\<rparr>))"

definition slot_release :: "uuid \<Rightarrow> SlotPool \<Rightarrow> bool \<times> SlotPool" where
  "slot_release run p = (run \<in> in_flight p, p\<lparr>in_flight := in_flight p - {run}\<rparr>)"

definition slots_begin_drain :: "SlotPool \<Rightarrow> SlotPool" where
  "slots_begin_drain p = p\<lparr>draining := True\<rparr>"

definition has_free_slot :: "SlotPool \<Rightarrow> bool" where
  "has_free_slot p \<longleftrightarrow> \<not> draining p \<and> card (in_flight p) < capacity p"

definition in_flight_count :: "SlotPool \<Rightarrow> nat" where
  "in_flight_count p = card (in_flight p)"

definition is_idle :: "SlotPool \<Rightarrow> bool" where
  "is_idle p \<longleftrightarrow> in_flight p = {}"

lemmas slot_pool_defs = slot_pool_new_def try_claim_def slot_release_def slots_begin_drain_def
  has_free_slot_def in_flight_count_def is_idle_def

datatype slot_op = TryClaim uuid ClaimDecision | Release uuid bool | BeginDrain

text \<open>A step of the pool, labelled by the call and by what it answered.\<close>

fun slot_step :: "SlotPool \<Rightarrow> slot_op \<Rightarrow> SlotPool \<Rightarrow> bool" where
  "slot_step p (TryClaim run d) p' \<longleftrightarrow> (d, p') = try_claim run p"
| "slot_step p (Release run b) p' \<longleftrightarrow> (b, p') = slot_release run p"
| "slot_step p BeginDrain p' \<longleftrightarrow> p' = slots_begin_drain p"

definition slot_inv :: "nat \<Rightarrow> SlotPool \<Rightarrow> bool" where
  "slot_inv c p \<longleftrightarrow> capacity p = c \<and> finite (in_flight p) \<and> card (in_flight p) \<le> c"

lemma slot_step_inv: "slot_step p op p' \<Longrightarrow> slot_inv c p \<Longrightarrow> slot_inv c p'"
  by (cases op) (auto simp: slot_inv_def slot_pool_defs card_insert_if card_Diff_singleton_if split: if_splits)

interpretation slots: invariant_system "\<lambda>p. p = slot_pool_new c" slot_step "slot_inv c" for c
  by unfold_locales (simp add: slot_inv_def slot_pool_new_def, rule slot_step_inv)

text \<open>
  In every reachable state of a pool, whatever calls were made, at most \<open>capacity\<close> Runs are in
  flight; a claim is answered \<open>Claimed\<close> exactly when the pool shows a free slot and the Run is not
  in flight, and then it holds exactly one Run more; a pool that drains never claims; and a Run
  that was released can be claimed again when the pool does not drain.
\<close>
theorem slot_pool_capacity:
  assumes "reach (\<lambda>p. p = slot_pool_new c) slot_step p"
  shows "(in_flight_count p \<le> c) \<and>
    (fst (try_claim run p) = Claimed \<longleftrightarrow> has_free_slot p \<and> run \<notin> in_flight p) \<and>
    (fst (try_claim run p) = Claimed \<longrightarrow>
           in_flight_count (snd (try_claim run p)) = in_flight_count p + 1) \<and>
    (fst (try_claim run p) \<noteq> Claimed \<longrightarrow> snd (try_claim run p) = p) \<and>
    (fst (slot_release run p) \<longrightarrow> \<not> draining p \<longrightarrow>
           fst (try_claim run' (snd (slot_release run p))) \<in> {Claimed, AlreadyInFlight})"
proof -
  from assms have inv: "slot_inv c p" by (rule slots.inv_reach)
  then have p1: "in_flight_count p \<le> c" by (simp add: slot_inv_def in_flight_count_def)
  have p2: "fst (try_claim run p) = Claimed \<longleftrightarrow> has_free_slot p \<and> run \<notin> in_flight p"
    by (auto simp: slot_pool_defs)
  have p3: "in_flight_count (snd (try_claim run p)) = in_flight_count p + 1"
    if "fst (try_claim run p) = Claimed"
    using that inv by (auto simp: slot_pool_defs slot_inv_def split: if_splits)
  have p4: "snd (try_claim run p) = p" if "fst (try_claim run p) \<noteq> Claimed"
    using that by (auto simp: try_claim_def split: if_splits)
  have p5: "fst (try_claim run' (snd (slot_release run p))) \<in> {Claimed, AlreadyInFlight}"
    if "fst (slot_release run p)" and "\<not> draining p"
  proof -
    from that(1) have "run \<in> in_flight p" by (simp add: slot_release_def)
    then have "card (in_flight p - {run}) < card (in_flight p)" by (intro card_Diff1_less) auto
    with inv have "card (in_flight p - {run}) < capacity p" by (simp add: slot_inv_def)
    with that show ?thesis by (simp add: try_claim_def slot_release_def)
  qed
  show ?thesis using p1 p2 p3 p4 p5 by blast
qed

theorem slot_pool_capacity_witness:
  "reach (\<lambda>p. p = slot_pool_new 1) slot_step (snd (try_claim 7 (slot_pool_new 1))) \<and>
   fst (slot_release 7 (snd (try_claim 7 (slot_pool_new 1)))) \<and>
   fst (try_claim 8 (snd (slot_release 7 (snd (try_claim 7 (slot_pool_new 1)))))) \<in> {Claimed, AlreadyInFlight}"
proof -
  let ?p = "snd (try_claim 7 (slot_pool_new 1))"
  have "slot_step (slot_pool_new 1) (TryClaim 7 (fst (try_claim 7 (slot_pool_new 1)))) ?p" by simp
  then have r: "reach (\<lambda>p. p = slot_pool_new 1) slot_step ?p"
    by (rule reach_step [OF reach_init, rotated]) simp
  have f: "fst (slot_release 7 ?p)" "\<not> draining ?p" by (simp_all add: slot_pool_defs)
  show ?thesis using r f(1) f(2) slot_pool_capacity [OF r, of 7 8] by blast
qed

end
