(* ===== verification/Presence_Session.thy ===== *)
theory Presence_Session
  imports Prelude
begin

text \<open>
  The presence session of \<open>br-jobs-runner-core\<close> (\<open>presence.rs\<close>): it decides when the runner
  publishes its presence, with which status, and when it deletes it. An \<open>Instant\<close> is a number of
  nanoseconds.
\<close>

datatype PresenceAction = PublishReady | PublishDraining | DeletePresence

datatype NextDue = Now | At instant | Never

datatype PresenceConfigError = ZeroInterval | IntervalNotBelowTtl

datatype Phase = Ready | Draining | Closed

record PresenceSession =
  interval :: duration
  phase :: Phase
  last_publish :: "instant option"

definition presence_new :: "duration \<Rightarrow> duration \<Rightarrow> (PresenceSession, PresenceConfigError) result" where
  "presence_new ttl heartbeat_interval =
     (if heartbeat_interval = 0 then Err ZeroInterval
      else if heartbeat_interval \<ge> ttl then Err IntervalNotBelowTtl
      else Ok \<lparr>interval = heartbeat_interval, phase = Ready, last_publish = None\<rparr>)"

definition next_due :: "PresenceSession \<Rightarrow> NextDue" where
  "next_due s =
     (if phase s = Closed then Never
      else case last_publish s of None \<Rightarrow> Now | Some at \<Rightarrow> At (at + interval s))"

definition poll :: "instant \<Rightarrow> PresenceSession \<Rightarrow> PresenceAction option \<times> PresenceSession" where
  "poll now s =
     (case phase s of
        Closed \<Rightarrow> (None, s)
      | ph \<Rightarrow>
          (let action = (if ph = Ready then PublishReady else PublishDraining) in
           case next_due s of
             Now \<Rightarrow> (Some action, s\<lparr>last_publish := Some now\<rparr>)
           | At due \<Rightarrow>
               if now \<ge> due then (Some action, s\<lparr>last_publish := Some now\<rparr>) else (None, s)
           | Never \<Rightarrow> (None, s)))"

definition presence_begin_drain :: "PresenceSession \<Rightarrow> PresenceSession" where
  "presence_begin_drain s =
     (if phase s = Ready then s\<lparr>phase := Draining, last_publish := None\<rparr> else s)"

definition is_draining :: "PresenceSession \<Rightarrow> bool" where
  "is_draining s \<longleftrightarrow> phase s = Draining"

definition presence_close :: "PresenceSession \<Rightarrow> PresenceAction option \<times> PresenceSession" where
  "presence_close s =
     (if phase s = Closed then (None, s) else (Some DeletePresence, s\<lparr>phase := Closed\<rparr>))"

lemmas presence_defs = presence_new_def next_due_def poll_def presence_begin_drain_def
  is_draining_def presence_close_def

datatype presence_op = Poll instant | StartDrain | Close

fun presence_step :: "presence_op \<Rightarrow> PresenceSession \<Rightarrow> PresenceAction option \<times> PresenceSession" where
  "presence_step (Poll now) s = poll now s"
| "presence_step StartDrain s = (None, presence_begin_drain s)"
| "presence_step Close s = presence_close s"

text \<open>The actions that a list of calls asks for, in order.\<close>

fun presence_run :: "presence_op list \<Rightarrow> PresenceSession \<Rightarrow> PresenceAction list" where
  "presence_run [] s = []"
| "presence_run (op # ops) s =
     (case presence_step op s of (a, s') \<Rightarrow>
        (case a of Some x \<Rightarrow> [x] | None \<Rightarrow> []) @ presence_run ops s')"

lemma closed_run: "phase s = Closed \<Longrightarrow> presence_run ops s = []"
  by (induction ops arbitrary: s)
    (auto simp: presence_defs split: presence_op.splits prod.splits elim!: presence_step.elims)

lemma draining_run:
  "phase s = Draining \<Longrightarrow> \<exists>n. presence_run ops s \<in> {replicate n PublishDraining, replicate n PublishDraining @ [DeletePresence]}"
proof (induction ops arbitrary: s)
  case Nil
  then show ?case by (auto intro: exI [of _ 0])
next
  case (Cons op ops)
  show ?case
  proof (cases op)
    case (Poll now)
    let ?s' = "snd (poll now s)"
    have "phase ?s' = Draining" and a: "fst (poll now s) \<in> {None, Some PublishDraining}"
      using Cons.prems by (auto simp: presence_defs split: option.splits)
    then obtain n where n: "presence_run ops ?s' \<in> {replicate n PublishDraining, replicate n PublishDraining @ [DeletePresence]}"
      using Cons.IH by blast
    from a n show ?thesis
      by (auto simp: Poll split_beta intro: exI [of _ n] exI [of _ "Suc n"])
  next
    case StartDrain
    then show ?thesis using Cons by (simp add: presence_begin_drain_def)
  next
    case Close
    then show ?thesis using Cons.prems
      by (auto simp: presence_close_def closed_run intro: exI [of _ 0])
  qed
qed

text \<open>The actions of a whole session have the shape ready*, draining*, delete?.\<close>

definition session_shape :: "PresenceAction list \<Rightarrow> bool" where
  "session_shape xs \<longleftrightarrow>
     (\<exists>n m. xs = replicate n PublishReady @ replicate m PublishDraining \<or>
            xs = replicate n PublishReady @ replicate m PublishDraining @ [DeletePresence])"

lemma session_shape_ready: "session_shape xs \<Longrightarrow> session_shape (PublishReady # xs)"
  unfolding session_shape_def by (metis append_Cons replicate_Suc)

lemma session_shape_draining: "phase s = Draining \<Longrightarrow> session_shape (presence_run ops s)"
  using draining_run [of s ops] unfolding session_shape_def
  by (metis append_Nil insert_iff replicate_0 singletonD)

lemma ready_run: "phase s = Ready \<Longrightarrow> session_shape (presence_run ops s)"
proof (induction ops arbitrary: s)
  case Nil
  then show ?case by (auto simp: session_shape_def)
next
  case (Cons op ops)
  show ?case
  proof (cases op)
    case (Poll now)
    have r: "phase (snd (poll now s)) = Ready" and "fst (poll now s) \<in> {None, Some PublishReady}"
      using Cons.prems by (auto simp: presence_defs split: option.splits)
    with Cons.IH [OF r] show ?thesis by (auto simp: Poll split_beta intro: session_shape_ready)
  next
    case StartDrain
    with Cons.prems show ?thesis
      by (simp add: presence_begin_drain_def session_shape_draining)
  next
    case Close
    have "session_shape [DeletePresence]"
      unfolding session_shape_def by (rule exI [of _ 0], rule exI [of _ 0]) simp
    with Close Cons.prems show ?thesis by (simp add: presence_close_def closed_run)
  qed
qed

text \<open>
  A presence session that was made asks for its actions in the order ready, draining, delete:
  after the drain began no ready is published again, the delete is asked for at most once, and
  nothing is asked for after it.
\<close>
theorem presence_session_order:
  assumes "presence_new ttl i = Ok s"
  shows "session_shape (presence_run ops s)"
  using assms by (intro ready_run) (auto simp: presence_new_def split: if_splits)

theorem presence_session_order_witness:
  "presence_new 30 10 = Ok \<lparr>interval = 10, phase = Ready, last_publish = None\<rparr> \<and>
   session_shape (presence_run [Poll 0, Poll 5, StartDrain, Poll 6, Close, Poll 99]
     \<lparr>interval = 10, phase = Ready, last_publish = None\<rparr>)"
proof -
  have n: "presence_new 30 10 = Ok \<lparr>interval = 10, phase = Ready, last_publish = None\<rparr>"
    by (simp add: presence_new_def)
  show ?thesis using n presence_session_order [OF n] by blast
qed

text \<open>
  The heartbeat of a session: a fresh session and a session whose drain just began publish at
  the next poll; after a publication at \<open>t\<close> a poll publishes again exactly from \<open>t\<close> plus the
  interval on, and the interval is below the time to live, so a session that is polled when it is
  due publishes again before the presence expires.
\<close>
theorem presence_heartbeat:
  assumes "presence_new ttl i = Ok s0" and "interval s = interval s0" and "phase s \<noteq> Closed"
  shows "(last_publish s = None \<longrightarrow> fst (poll now s) \<noteq> None) \<and>
    (phase s = Ready \<longrightarrow> last_publish (presence_begin_drain s) = None \<and>
           fst (poll now (presence_begin_drain s)) = Some PublishDraining) \<and>
    (fst (poll t s) \<noteq> None \<longrightarrow>
           (fst (poll now (snd (poll t s))) \<noteq> None \<longleftrightarrow> t + i \<le> now) \<and>
           next_due (snd (poll t s)) = At (t + i) \<and> t + i < t + ttl)"
proof -
  from assms(1) have i: "interval s0 = i" "0 < i" "i < ttl"
    by (auto simp: presence_new_def split: if_splits)
  have p1: "fst (poll now s) \<noteq> None" if "last_publish s = None"
    using that assms(3) by (auto simp: presence_defs split: Phase.splits)
  have p2: "last_publish (presence_begin_drain s) = None \<and>
        fst (poll now (presence_begin_drain s)) = Some PublishDraining" if "phase s = Ready"
    using that by (simp add: presence_defs)
  have p3: "(fst (poll now (snd (poll t s))) \<noteq> None \<longleftrightarrow> t + i \<le> now) \<and>
        next_due (snd (poll t s)) = At (t + i) \<and> t + i < t + ttl" if "fst (poll t s) \<noteq> None"
    using that assms(2,3) i
    by (cases "phase s"; cases "last_publish s") (auto simp: presence_defs split: if_splits)
  show ?thesis using p1 p2 p3 by blast
qed

theorem presence_heartbeat_witness:
  "presence_new 30 10 = Ok \<lparr>interval = 10, phase = Ready, last_publish = None\<rparr> \<and>
   next_due (snd (poll 3 \<lparr>interval = 10, phase = Ready, last_publish = None\<rparr>)) = At 13"
proof -
  let ?s = "\<lparr>interval = 10, phase = Ready, last_publish = None\<rparr>"
  have n: "presence_new 30 10 = Ok ?s" by (simp add: presence_new_def)
  have f: "fst (poll 3 ?s) \<noteq> None" by (simp add: presence_defs)
  show ?thesis using n presence_heartbeat [OF n, of ?s _ 3] f by simp
qed

end
