(* ===== verification/Jobs_Error.thy ===== *)
theory Jobs_Error
  imports Prelude
begin

text \<open>
  The errors of \<open>br-runner-jobs\<close> (\<open>reason.rs\<close>, \<open>error.rs\<close>): the typed refusal reasons with the
  words of the wire they stand for, and the error type that every call of the crate returns.
  A word that is not one of the wire's is kept as \<open>Unknown\<close>; the source keeps the text of an
  \<open>Unknown\<close> private, so every value it can build satisfies \<open>reason_made\<close>.
\<close>

section \<open>Refusal reasons\<close>

datatype RefusalReason =
    InstanceUnknown | NotClaimMode | InstanceDraining | RunnerTypeRetired | ClaimSpent |
    MalformedClaim | Busy | RunUnknown | RunNotStarted | RunEnded | RunRemoved |
    InstanceMismatch | AgentIdInOtherTree | AgentIdNotFinished | ItemNotYours | Malformed |
    RunHeld | RunReservedElsewhere | RunNotPending | NotRequester | RunnerNotWorkingTheJob |
    ActingRunMissing | ActingRunNotLive | JobUnknown | JobTerminal | PassportRequired |
    PassportUserMismatch | PassportParentMismatch | InitialJobMismatch | ParentTerminal |
    ParentJobUnknown | InvalidPriority | PayloadTooLarge | PayloadNotUploaded |
    PayloadUploaderMismatch | ModeRequired | CallerAddressNotHeld | CallerAddressNotOfRun |
    MaxAttemptsAboveCeiling | IdReuse | DuplicateActiveEntity | MalformedPayload |
    MailNotYours | Unknown string

fun as_str :: "RefusalReason \<Rightarrow> string" where
  "as_str InstanceUnknown = ''instance_unknown''"
| "as_str NotClaimMode = ''not_claim_mode''"
| "as_str InstanceDraining = ''instance_draining''"
| "as_str RunnerTypeRetired = ''runner_type_retired''"
| "as_str ClaimSpent = ''claim_spent''"
| "as_str MalformedClaim = ''malformed_claim''"
| "as_str Busy = ''busy''"
| "as_str RunUnknown = ''run_unknown''"
| "as_str RunNotStarted = ''run_not_started''"
| "as_str RunEnded = ''run_ended''"
| "as_str RunRemoved = ''run_removed''"
| "as_str InstanceMismatch = ''instance_mismatch''"
| "as_str AgentIdInOtherTree = ''agent_id_in_other_tree''"
| "as_str AgentIdNotFinished = ''agent_id_not_finished''"
| "as_str ItemNotYours = ''item_not_yours''"
| "as_str Malformed = ''malformed''"
| "as_str RunHeld = ''run_held''"
| "as_str RunReservedElsewhere = ''run_reserved_elsewhere''"
| "as_str RunNotPending = ''run_not_pending''"
| "as_str NotRequester = ''not_requester''"
| "as_str RunnerNotWorkingTheJob = ''runner_not_working_the_job''"
| "as_str ActingRunMissing = ''acting_run_missing''"
| "as_str ActingRunNotLive = ''acting_run_not_live''"
| "as_str JobUnknown = ''job_unknown''"
| "as_str JobTerminal = ''job_terminal''"
| "as_str PassportRequired = ''passport_required''"
| "as_str PassportUserMismatch = ''passport_user_mismatch''"
| "as_str PassportParentMismatch = ''passport_parent_mismatch''"
| "as_str InitialJobMismatch = ''initial_job_mismatch''"
| "as_str ParentTerminal = ''parent_terminal''"
| "as_str ParentJobUnknown = ''parent_job_unknown''"
| "as_str InvalidPriority = ''invalid_priority''"
| "as_str PayloadTooLarge = ''payload_too_large''"
| "as_str PayloadNotUploaded = ''payload_not_uploaded''"
| "as_str PayloadUploaderMismatch = ''payload_uploader_mismatch''"
| "as_str ModeRequired = ''mode_required''"
| "as_str CallerAddressNotHeld = ''caller_address_not_held''"
| "as_str CallerAddressNotOfRun = ''caller_address_not_of_run''"
| "as_str MaxAttemptsAboveCeiling = ''max_attempts_above_ceiling''"
| "as_str IdReuse = ''id_reuse''"
| "as_str DuplicateActiveEntity = ''duplicate_active_entity''"
| "as_str MalformedPayload = ''malformed_payload''"
| "as_str MailNotYours = ''mail_not_yours''"
| "as_str (Unknown w) = w"

definition reason_words :: "(string \<times> RefusalReason) list" where
  "reason_words =
     [(''instance_unknown'', InstanceUnknown),
      (''not_claim_mode'', NotClaimMode),
      (''instance_draining'', InstanceDraining),
      (''runner_type_retired'', RunnerTypeRetired),
      (''claim_spent'', ClaimSpent),
      (''malformed_claim'', MalformedClaim),
      (''busy'', Busy),
      (''run_unknown'', RunUnknown),
      (''run_not_started'', RunNotStarted),
      (''run_ended'', RunEnded),
      (''run_removed'', RunRemoved),
      (''instance_mismatch'', InstanceMismatch),
      (''agent_id_in_other_tree'', AgentIdInOtherTree),
      (''agent_id_not_finished'', AgentIdNotFinished),
      (''item_not_yours'', ItemNotYours),
      (''malformed'', Malformed),
      (''run_held'', RunHeld),
      (''run_reserved_elsewhere'', RunReservedElsewhere),
      (''run_not_pending'', RunNotPending),
      (''not_requester'', NotRequester),
      (''runner_not_working_the_job'', RunnerNotWorkingTheJob),
      (''acting_run_missing'', ActingRunMissing),
      (''acting_run_not_live'', ActingRunNotLive),
      (''job_unknown'', JobUnknown),
      (''job_terminal'', JobTerminal),
      (''passport_required'', PassportRequired),
      (''passport_user_mismatch'', PassportUserMismatch),
      (''passport_parent_mismatch'', PassportParentMismatch),
      (''initial_job_mismatch'', InitialJobMismatch),
      (''parent_terminal'', ParentTerminal),
      (''parent_job_unknown'', ParentJobUnknown),
      (''invalid_priority'', InvalidPriority),
      (''payload_too_large'', PayloadTooLarge),
      (''payload_not_uploaded'', PayloadNotUploaded),
      (''payload_uploader_mismatch'', PayloadUploaderMismatch),
      (''mode_required'', ModeRequired),
      (''caller_address_not_held'', CallerAddressNotHeld),
      (''caller_address_not_of_run'', CallerAddressNotOfRun),
      (''max_attempts_above_ceiling'', MaxAttemptsAboveCeiling),
      (''id_reuse'', IdReuse),
      (''duplicate_active_entity'', DuplicateActiveEntity),
      (''malformed_payload'', MalformedPayload),
      (''mail_not_yours'', MailNotYours)]"

definition from_word :: "string \<Rightarrow> RefusalReason" where
  "from_word word = (case map_of reason_words word of Some r \<Rightarrow> r | None \<Rightarrow> Unknown word)"

text \<open>\<open>PartialEq\<close> compares the words, not the variants.\<close>

definition reason_eq :: "RefusalReason \<Rightarrow> RefusalReason \<Rightarrow> bool" where
  "reason_eq a b \<longleftrightarrow> as_str a = as_str b"

definition reason_made :: "RefusalReason \<Rightarrow> bool" where
  "reason_made r \<longleftrightarrow> (\<exists>w. r = from_word w)"

lemma as_str_words: "(w, r) \<in> set reason_words \<Longrightarrow> as_str r = w"
  unfolding reason_words_def by auto

lemma from_word_as_str: "as_str (from_word w) = w"
  by (auto simp: from_word_def split: option.split dest: map_of_SomeD as_str_words)

lemma from_word_typed: "(\<And>w. r \<noteq> Unknown w) \<Longrightarrow> from_word (as_str r) = r"
  by (cases r) (simp_all add: from_word_def reason_words_def)

lemma reason_made_iff: "reason_made r \<longleftrightarrow> from_word (as_str r) = r"
  by (auto simp: reason_made_def from_word_as_str) metis

text \<open>
  The wire words round-trip. Every word becomes a reason that shows the same word again; a
  typed reason comes back as itself, so no two typed reasons share a word; and on the reasons the
  crate can build the comparison by words is equality of the reasons (no \<open>Unknown\<close> holds the word
  of a typed reason).
\<close>
theorem refusal_reason_roundtrip:
  "as_str (from_word w) = w \<and> ((\<forall>u. r \<noteq> Unknown u) \<longrightarrow> from_word (as_str r) = r) \<and>
   (reason_made a \<and> reason_made b \<longrightarrow> (reason_eq a b \<longleftrightarrow> a = b))"
proof (intro conjI impI)
  show "as_str (from_word w) = w" by (rule from_word_as_str)
  show "from_word (as_str r) = r" if "\<forall>u. r \<noteq> Unknown u" using that by (intro from_word_typed) simp
  show "reason_eq a b \<longleftrightarrow> a = b" if "reason_made a \<and> reason_made b"
    using that unfolding reason_made_iff reason_eq_def by metis
qed

theorem refusal_reason_roundtrip_witness:
  "from_word (as_str Busy) = Busy \<and> (reason_eq (from_word ''busy'') (from_word ''new_word'') \<longleftrightarrow>
     from_word ''busy'' = from_word ''new_word'')"
proof -
  have "reason_made (from_word ''busy'')" "reason_made (from_word ''new_word'')"
    by (auto simp: reason_made_def)
  then show ?thesis
    using refusal_reason_roundtrip [of "[]" Busy "from_word ''busy''" "from_word ''new_word''"] by blast
qed

section \<open>Errors\<close>

datatype Cause = WaitFired | Transport | NoListener

record Failure =
  failure_cause :: Cause
  failure_text :: string

definition failure_wait :: "string \<Rightarrow> Failure" where
  "failure_wait text = \<lparr>failure_cause = WaitFired, failure_text = text\<rparr>"

definition failure_transport :: "string \<Rightarrow> Failure" where
  "failure_transport text = \<lparr>failure_cause = Transport, failure_text = text\<rparr>"

definition failure_display :: "Failure \<Rightarrow> string" where
  "failure_display f =
     (case failure_cause f of
        WaitFired \<Rightarrow> ''the wait fired''
      | Transport \<Rightarrow> ''the transport failed''
      | NoListener \<Rightarrow> ''no listener'') @ '': '' @ failure_text f"

datatype CredentialKind = NoUsable | FetchFailed

record CredentialFailure =
  credential_kind :: CredentialKind
  credential_text :: string

definition credential_display :: "CredentialFailure \<Rightarrow> string" where
  "credential_display c =
     (case credential_kind c of
        NoUsable \<Rightarrow> ''no usable credential''
      | FetchFailed \<Rightarrow> ''credential fetch failed'') @ '': '' @ credential_text c"

datatype Operation =
    Claim | StartedFact | CreateOp | FinishOp | CancelOp | MailOp | RegistrationOp | ReadMarkerOp | AgentList | UploadOp | PayloadOp | ResultOp | SavedStateOp | AttachmentOp | ReadOp | SizeOp

fun operation_as_str :: "Operation \<Rightarrow> string" where
  "operation_as_str Claim = ''claim''"
| "operation_as_str StartedFact = ''started fact''"
| "operation_as_str CreateOp = ''create''"
| "operation_as_str FinishOp = ''finish''"
| "operation_as_str CancelOp = ''cancel''"
| "operation_as_str MailOp = ''mail''"
| "operation_as_str RegistrationOp = ''registration''"
| "operation_as_str ReadMarkerOp = ''read marker''"
| "operation_as_str AgentList = ''agent list''"
| "operation_as_str UploadOp = ''upload''"
| "operation_as_str PayloadOp = ''payload''"
| "operation_as_str ResultOp = ''result''"
| "operation_as_str SavedStateOp = ''saved state''"
| "operation_as_str AttachmentOp = ''attachment''"
| "operation_as_str ReadOp = ''read''"
| "operation_as_str SizeOp = ''size''"

record Refusal =
  operation :: Operation
  reason :: RefusalReason
  message :: string
  retry_after_ms :: "u64 option"

definition refusal_new :: "Operation \<Rightarrow> RefusalReason \<Rightarrow> string \<Rightarrow> Refusal" where
  "refusal_new op r m = \<lparr>operation = op, reason = r, message = m, retry_after_ms = None\<rparr>"

definition with_retry_after_ms :: "Refusal \<Rightarrow> u64 \<Rightarrow> Refusal" where
  "with_retry_after_ms r delay = r\<lparr>retry_after_ms := Some delay\<rparr>"

datatype Error =
    InvalidInput string
  | Credential CredentialFailure
  | Unauthenticated
  | Unavailable Failure
  | Lost Failure
  | Refused Refusal
  | InfraMissing string
  | Unreadable string
  | BookDropped

definition error_unavailable :: "string \<Rightarrow> Error" where
  "error_unavailable text = Unavailable (failure_transport text)"

definition error_lost :: "string \<Rightarrow> Error" where
  "error_lost text = Lost (failure_transport text)"

definition error_wait_fired :: "string \<Rightarrow> Error" where
  "error_wait_fired text = Lost (failure_wait text)"

definition error_refused :: "Operation \<Rightarrow> RefusalReason \<Rightarrow> string \<Rightarrow> Error" where
  "error_refused op r m = Refused (refusal_new op r m)"

definition is_refusal :: "Error \<Rightarrow> bool" where
  "is_refusal e \<longleftrightarrow> (case e of Refused _ \<Rightarrow> True | _ \<Rightarrow> False)"

fun error_display :: "Error \<Rightarrow> string" where
  "error_display (InvalidInput t) = ''invalid input: '' @ t"
| "error_display (Credential c) = credential_display c"
| "error_display Unauthenticated = ''unauthenticated''"
| "error_display (Unavailable f) = ''unavailable, '' @ failure_display f"
| "error_display (Lost f) = ''lost, '' @ failure_display f"
| "error_display (Refused r) =
     ''refused: '' @ operation_as_str (operation r) @ '': '' @ as_str (reason r) @ '': '' @ message r"
| "error_display (InfraMissing t) = ''infra missing: '' @ t"
| "error_display (Unreadable t) = ''unreadable: '' @ t"
| "error_display BookDropped = ''the agent book was dropped''"

end
