(* ===== verification/Jobs_Model.thy ===== *)
theory Jobs_Model
  imports Jobs_Error
begin

text \<open>
  The data of \<open>br-runner-jobs\<close>: the types of \<open>model/mod.rs\<close> and \<open>model/outgoing.rs\<close>, and the facts,
  log records and child commands of \<open>backend.rs\<close>. A JSON value has the variants of
  \<open>serde_json::Value\<close>; the crate never computes with a number, so a number is its literal. A
  \<open>DateTime<Utc>\<close> is a count of nanoseconds.
\<close>

section \<open>Values the contract libraries define\<close>

datatype json =
    JNull
  | JBool bool
  | JNumber string
  | JString string
  | JArray "json list"
  | JObject "(string \<times> json) list"

type_synonym datetime = int

datatype RunnerType = RunnerType string

section \<open>Contents, calls and failures\<close>

record ContentAttachment =
  att_name :: string
  att_content_type :: string
  att_content :: string

record Content =
  content_message :: string
  content_attachments :: "ContentAttachment list"

datatype PayloadForm = Inline Content | Kept | Reference string string

datatype CallMode = Sync | Background uuid

record Restart =
  restart_of_run_id :: uuid

datatype FailureKind = Transient | Permanent

record Failed =
  failed_kind :: FailureKind
  failed_reason_code :: string
  failed_params :: json
  failed_diagnostic :: json
  failed_retry_after_seconds :: "int option"

datatype LogLevel = Info | Warning | LogError

fun log_level_as_str :: "LogLevel \<Rightarrow> string" where
  "log_level_as_str Info = ''INFO''"
| "log_level_as_str Warning = ''WARNING''"
| "log_level_as_str LogError = ''ERROR''"

section \<open>Presence, dispatch and arrival events\<close>

datatype PresenceStatus = StatusReady | StatusDraining

text \<open>A \<open>Capacity\<close> keeps its \<open>u32\<close> private and is made by \<open>capacity_new\<close> only.\<close>

datatype Capacity = Capacity u32

definition capacity_new :: "u32 \<Rightarrow> (Capacity, Error) result" where
  "capacity_new value =
     (if value = 0 then Err (InvalidInput ''a capacity below 1'') else Ok (Capacity value))"

fun capacity_get :: "Capacity \<Rightarrow> u32" where
  "capacity_get (Capacity v) = v"

datatype DispatchMode = PushMode | ClaimMode

datatype ModeEvent = ModeEntry DispatchMode | NoModeEntry

datatype CancelEvent = OrderMade uuid | OrderDeleted uuid | ReplayComplete

datatype ItemKind = DirectMailItem | CcNoticeItem | CallNoticeItem | MailNoticeItem | UnknownItem

record ItemArrived =
  arrived_address :: "uuid option"
  arrived_item_id :: uuid
  arrived_kind :: ItemKind

datatype CallNoticeKind =
    Accepted | QueuePosition | RunStarted | RunCompleted | JobFailed | JobCancelled
  | NoticeRefused | UnknownNotice

section \<open>Ends of sync calls and unread items\<close>

record FailureReportView =
  report_kind :: "FailureKind option"
  report_reason_code :: string
  report_params :: json
  report_diagnostic :: json

datatype ResultRef = ResultRef uuid

datatype SyncEnd =
    SyncCompleted "Content option" "ResultRef option"
  | SyncFailed "FailureReportView option" string
  | SyncCancelled string

record MailAttachment =
  mail_att_id :: uuid
  mail_att_name :: string
  mail_att_content_type :: "string option"
  mail_att_size :: "u64 option"

record Mail =
  mail_id :: uuid
  mail_from :: uuid
  mail_author :: string
  mail_source_conversation :: "uuid option"
  mail_subject :: string
  mail_body :: string
  mail_to :: "uuid list"
  mail_cc :: "uuid list"
  mail_attachments :: "MailAttachment list"

record CallNotice =
  notice_item_id :: uuid
  notice_address :: "uuid option"
  notice_kind :: CallNoticeKind
  notice_type :: "string option"
  notice_child_job_id :: "uuid option"
  notice_position :: "int option"
  notice_message :: "string option"
  notice_report :: "FailureReportView option"
  notice_inline :: "Content option"
  notice_result_ref :: "ResultRef option"

datatype UnreadItem =
    UDirectMail uuid "uuid option" Mail
  | UCcNotice uuid "uuid option" uuid string
  | UCallNotice CallNotice
  | UMailNotice uuid "uuid option" "uuid option" string
  | UUnknown uuid "uuid option" string "string option"

fun item_id :: "UnreadItem \<Rightarrow> uuid" where
  "item_id (UDirectMail i _ _) = i"
| "item_id (UCcNotice i _ _ _) = i"
| "item_id (UMailNotice i _ _ _) = i"
| "item_id (UUnknown i _ _ _) = i"
| "item_id (UCallNotice n) = notice_item_id n"

fun item_address :: "UnreadItem \<Rightarrow> uuid option" where
  "item_address (UDirectMail _ a _) = a"
| "item_address (UCcNotice _ a _ _) = a"
| "item_address (UMailNotice _ a _ _) = a"
| "item_address (UUnknown _ a _ _) = a"
| "item_address (UCallNotice n) = notice_address n"

section \<open>What the runner sends\<close>

record NewMailAttachment =
  new_att_id :: uuid
  new_att_name :: string
  new_att_content_type :: string
  new_att_content :: string

record NewMailInput =
  new_mail_id :: uuid
  from_address :: uuid
  new_author :: string
  new_source_conversation :: uuid
  new_subject :: string
  new_body :: string
  new_to :: "uuid list"
  new_cc :: "uuid list"
  new_attachments :: "NewMailAttachment list"

record ListedAgent =
  listed_agent_id :: uuid
  listed_run_id :: uuid
  listed_runner_type :: RunnerType
  listed_running :: bool
  listed_has_inbox :: bool
  listed_mail_address :: "uuid option"
  listed_restartable_now :: "bool option"

record AgentDeclaration =
  decl_agent_id :: uuid
  decl_has_inbox :: bool
  decl_can_restart :: bool

record SavedState =
  saved_state :: json
  saved_agent_ids :: "uuid list"
  saved_mail_addresses :: "uuid list"

section \<open>Facts and child commands (\<open>backend.rs\<close>)\<close>

datatype Fact =
    FPlan uuid "string list" "uuid option"
  | FStep uuid u32 string datetime
  | FCompleted uuid
  | FFailed uuid Failed

record LogRecord =
  log_id :: "uuid option"
  log_run_id :: uuid
  log_step_index :: "u32 option"
  log_level :: LogLevel
  log_message :: string
  logged_at :: datetime

record CreateChild =
  create_command_id :: uuid
  create_job_id :: uuid
  create_runner_type :: RunnerType
  create_mode :: CallMode
  create_config :: "json option"
  create_payload :: PayloadForm
  create_passport :: json
  create_parent_job_id :: uuid
  create_initial_job_id :: uuid
  create_run_id :: uuid
  create_max_attempts :: "int option"

text \<open>The ids of a finish and of a cancel: command, Job, Run.\<close>

datatype ChildCommand =
    CmdCreate CreateChild
  | CmdFinish uuid uuid uuid
  | CmdCancel uuid uuid uuid

end
