(* ===== verification/Queue_Write.thy ===== *)
theory Queue_Write
  imports Jobs_Model
begin

text \<open>
  The writes of the delivery queue (\<open>queue/write.rs\<close>), what they depend on (\<open>queue/deps.rs\<close>) and
  what the queue reports of them (\<open>queue/report.rs\<close>).
\<close>

section \<open>Writes and their names\<close>

datatype WriteKind =
    KStarted | KRegistration | KMail | KReadMarker | KUpload | KCreate | KFinish | KCancel
  | KAnswer | KSavedState | KPlanDeclared | KStepStarted | KCompleted | KFailed

record WriteName =
  name_kind :: WriteKind
  name_ids :: "uuid list"

text \<open>
  The fields of a write, in the source's order: the Run and the start id of the started fact; the
  Run and the agent of a registration; the Run, item, agent and entry of a read marker; the Run,
  Job and command of a finish and of a cancel; the fact and its message id.
\<close>

datatype Write =
    WStarted uuid uuid
  | WRegistration uuid AgentDeclaration
  | WMail NewMailInput
  | WMarker uuid uuid uuid uuid
  | WUpload uuid Content
  | WCreate CreateChild
  | WFinish uuid uuid uuid
  | WCancel uuid uuid uuid
  | WAnswer Content
  | WSavedState json
  | WFact Fact uuid

fun fact_name :: "Fact \<Rightarrow> WriteKind \<times> uuid list" where
  "fact_name (FPlan run _ _) = (KPlanDeclared, [run])"
| "fact_name (FStep run _ _ _) = (KStepStarted, [run])"
| "fact_name (FCompleted run) = (KCompleted, [run])"
| "fact_name (FFailed run _) = (KFailed, [run])"

fun kind_and_ids :: "Write \<Rightarrow> WriteKind \<times> uuid list" where
  "kind_and_ids (WStarted run start) = (KStarted, [run, start])"
| "kind_and_ids (WRegistration _ agent) = (KRegistration, [decl_agent_id agent])"
| "kind_and_ids (WMail m) = (KMail, [new_mail_id m, from_address m])"
| "kind_and_ids (WMarker _ item agent _) = (KReadMarker, [item, agent])"
| "kind_and_ids (WUpload job _) = (KUpload, [job])"
| "kind_and_ids (WCreate c) = (KCreate, [create_job_id c, create_command_id c])"
| "kind_and_ids (WFinish _ job command) = (KFinish, [job, command])"
| "kind_and_ids (WCancel _ job command) = (KCancel, [job, command])"
| "kind_and_ids (WAnswer _) = (KAnswer, [])"
| "kind_and_ids (WSavedState _) = (KSavedState, [])"
| "kind_and_ids (WFact f _) = fact_name f"

definition write_name :: "Write \<Rightarrow> WriteName" where
  "write_name w = (case kind_and_ids w of (kind, ids) \<Rightarrow> \<lparr>name_kind = kind, name_ids = ids\<rparr>)"

section \<open>Results\<close>

datatype Removal = RRefused Error | RFailed Error | DependsOnRemoved | LeftUnsent

fun into_error :: "Removal \<Rightarrow> Error option" where
  "into_error (RRefused e) = Some e"
| "into_error (RFailed e) = Some e"
| "into_error DependsOnRemoved = None"
| "into_error LeftUnsent = None"

type_synonym WriteResult = "(unit, Removal) result"

text \<open>
  The end of a write is the receiver of a oneshot channel: the channel of an entry that was queued
  is named by the sequence number of the entry; a write that was not queued gives a channel that
  holds its result already.
\<close>

datatype WriteEnd = EndOf nat | EndedWith WriteResult

datatype 'a oneshot = Open | Sent_value 'a | Sender_dropped

fun write_end_poll :: "(nat \<Rightarrow> WriteResult oneshot) \<Rightarrow> WriteEnd \<Rightarrow> WriteResult option" where
  "write_end_poll chan (EndedWith r) = Some r"
| "write_end_poll chan (EndOf n) =
     (case chan n of Sent_value r \<Rightarrow> Some r | Sender_dropped \<Rightarrow> Some (Err LeftUnsent) | Open \<Rightarrow> None)"

section \<open>Dependencies\<close>

datatype DepKey = DStarted | DRegistration uuid | DUpload uuid | DCreate uuid | DAnswer | DSavedState

datatype Ended = EDelivered | ERefused Error | EFailed | EDepends | EUnsent

fun ended_of :: "WriteResult \<Rightarrow> Ended" where
  "ended_of (Inr _) = EDelivered"
| "ended_of (Inl (RRefused e)) = ERefused e"
| "ended_of (Inl (RFailed _)) = EFailed"
| "ended_of (Inl DependsOnRemoved) = EDepends"
| "ended_of (Inl LeftUnsent) = EUnsent"

fun own_key :: "Write \<Rightarrow> DepKey option" where
  "own_key (WStarted _ _) = Some DStarted"
| "own_key (WRegistration _ agent) = Some (DRegistration (decl_agent_id agent))"
| "own_key (WUpload job _) = Some (DUpload job)"
| "own_key (WCreate c) = Some (DCreate (create_job_id c))"
| "own_key (WAnswer _) = Some DAnswer"
| "own_key (WSavedState _) = Some DSavedState"
| "own_key _ = None"

definition is_started :: "Write \<Rightarrow> bool" where
  "is_started w \<longleftrightarrow> (case w of WStarted _ _ \<Rightarrow> True | _ \<Rightarrow> False)"

fun special_deps :: "Write \<Rightarrow> DepKey list" where
  "special_deps (WMail m) = [DRegistration (from_address m)]"
| "special_deps (WMarker _ _ agent _) = [DRegistration agent]"
| "special_deps (WCreate c) =
     DUpload (create_job_id c) #
     (case create_mode c of Background caller \<Rightarrow> [DRegistration caller] | Sync \<Rightarrow> [])"
| "special_deps (WFinish _ job _) = [DCreate job]"
| "special_deps (WCancel _ job _) = [DCreate job]"
| "special_deps (WFact (FCompleted _) _) = [DAnswer, DSavedState]"
| "special_deps _ = []"

definition depends_on :: "Write \<Rightarrow> DepKey list" where
  "depends_on w = (if is_started w then [] else [DStarted]) @ special_deps w"

fun is_create :: "Write \<Rightarrow> bool" where
  "is_create (WCreate _) = True"
| "is_create _ = False"

fun is_upload_key :: "DepKey \<Rightarrow> bool" where
  "is_upload_key (DUpload _) = True"
| "is_upload_key _ = False"

text \<open>The loop of \<open>blocked\<close>: the first dependency that ended without being delivered decides.\<close>

fun blocked_by :: "Write \<Rightarrow> (DepKey \<rightharpoonup> Ended) \<Rightarrow> DepKey list \<Rightarrow> Removal option" where
  "blocked_by w ended [] = None"
| "blocked_by w ended (key # keys) =
     (case ended key of
        None \<Rightarrow> blocked_by w ended keys
      | Some EDelivered \<Rightarrow> blocked_by w ended keys
      | Some (ERefused e) \<Rightarrow>
          if is_create w \<and> is_upload_key key then Some (RRefused e) else Some DependsOnRemoved
      | Some _ \<Rightarrow> Some DependsOnRemoved)"

definition blocked :: "Write \<Rightarrow> (DepKey \<rightharpoonup> Ended) \<Rightarrow> Removal option" where
  "blocked w ended = blocked_by w ended (depends_on w)"

definition dep_free :: "(DepKey \<rightharpoonup> Ended) \<Rightarrow> DepKey \<Rightarrow> bool" where
  "dep_free ended key \<longleftrightarrow> ended key = None \<or> ended key = Some EDelivered"

lemma blocked_by_None: "blocked_by w ended keys = None \<longleftrightarrow> (\<forall>k \<in> set keys. dep_free ended k)"
  by (induction w ended keys rule: blocked_by.induct)
    (auto simp: dep_free_def split: option.splits Ended.splits if_splits)

lemma blocked_None: "blocked w ended = None \<longleftrightarrow> (\<forall>k \<in> set (depends_on w). dep_free ended k)"
  by (simp add: blocked_def blocked_by_None)

lemma blocked_by_first:
  "blocked_by w ended (xs @ k # ys) = blocked_by w ended [k]"
  if "\<forall>x \<in> set xs. dep_free ended x" and "\<not> dep_free ended k"
  using that
  by (induction xs) (auto simp: dep_free_def split: option.splits Ended.splits)

lemma ended_of_delivered [simp]: "ended_of r = EDelivered \<longleftrightarrow> r = Ok ()"
  by (cases r rule: ended_of.cases) auto

text \<open>The rank of a key: a write waits only for keys below the one it gives.\<close>

fun dep_rank :: "DepKey \<Rightarrow> nat" where
  "dep_rank DStarted = 0"
| "dep_rank (DCreate _) = 2"
| "dep_rank _ = 1"

text \<open>
  The dependencies of the writes of a queue. Every write but the started fact waits for the
  started fact; a write is blocked exactly when one of its dependencies ended without being
  delivered; the first of them decides the cause, which is \<open>DependsOnRemoved\<close> unless the write is
  a create whose upload was refused, and then it is that refusal; and the dependencies cannot
  wait for each other in a cycle, because a write waits only for keys of a lower rank than its own.
\<close>
theorem blocked_characterised:
  "(\<not> is_started w \<longrightarrow> hd (depends_on w) = DStarted) \<and>
   (blocked w ended \<noteq> None \<longleftrightarrow> (\<exists>k \<in> set (depends_on w). ended k \<notin> {None, Some EDelivered})) \<and>
   (depends_on w = xs @ k # ys \<and> (\<forall>x \<in> set xs. ended x \<in> {None, Some EDelivered}) \<and>
      ended k = Some d \<and> d \<noteq> EDelivered \<longrightarrow>
      blocked w ended =
        Some (case (w, k, d) of (WCreate _, DUpload _, ERefused e) \<Rightarrow> RRefused e | _ \<Rightarrow> DependsOnRemoved)) \<and>
   (\<forall>key. own_key w = Some key \<longrightarrow> (\<forall>k' \<in> set (depends_on w). dep_rank k' < dep_rank key))"
proof (intro conjI impI)
  show "hd (depends_on w) = DStarted" if "\<not> is_started w" using that by (simp add: depends_on_def)
  show "blocked w ended \<noteq> None \<longleftrightarrow> (\<exists>k \<in> set (depends_on w). ended k \<notin> {None, Some EDelivered})"
    by (auto simp: blocked_None dep_free_def)
  show "blocked w ended =
       Some (case (w, k, d) of (WCreate _, DUpload _, ERefused e) \<Rightarrow> RRefused e | _ \<Rightarrow> DependsOnRemoved)"
    if a: "depends_on w = xs @ k # ys \<and> (\<forall>x \<in> set xs. ended x \<in> {None, Some EDelivered}) \<and>
      ended k = Some d \<and> d \<noteq> EDelivered"
  proof -
    from a have "blocked w ended = blocked_by w ended [k]"
      unfolding blocked_def conjunct1 [OF a] by (intro blocked_by_first) (auto simp: dep_free_def)
    with a show ?thesis by (cases w; cases k; cases d) auto
  qed
  show "\<forall>key. own_key w = Some key \<longrightarrow> (\<forall>k' \<in> set (depends_on w). dep_rank k' < dep_rank key)"
    by (cases w) (auto simp: depends_on_def is_started_def split: CallMode.splits)
qed

theorem blocked_characterised_witness:
  "\<not> is_started (WFinish 1 2 3) \<and> hd (depends_on (WFinish 1 2 3)) = DStarted \<and>
   blocked (WFinish 1 2 3) [DCreate 2 \<mapsto> EFailed] = Some DependsOnRemoved"
proof -
  have n: "\<not> is_started (WFinish 1 2 3)" by (simp add: is_started_def)
  have d: "depends_on (WFinish 1 2 3) = [DStarted] @ DCreate 2 # []"
    by (simp add: depends_on_def is_started_def)
  show ?thesis
    using n d blocked_characterised [of "WFinish 1 2 3" "[DCreate 2 \<mapsto> EFailed]" "[DStarted]" "DCreate 2" "[]" EFailed]
    by simp
qed

section \<open>Reports and settings\<close>

datatype QueueReport =
    Retrying WriteName Error
  | Removed WriteName Removal
  | Delivered WriteName

record LastFailure =
  lf_write :: WriteName
  lf_error :: Error

record QueueState =
  waiting :: "WriteName list"
  oldest_handed_over :: "instant option"
  qs_last_failure :: "LastFailure option"

record QueueSettings =
  start_id :: uuid
  outcome_wait :: duration
  retry_wait :: duration

definition result_report :: "WriteName \<Rightarrow> WriteResult \<Rightarrow> QueueReport" where
  "result_report name r = (case r of Inr _ \<Rightarrow> Delivered name | Inl removal \<Rightarrow> Removed name removal)"

end
