(* ===== verification/Queue_Shared.thy ===== *)
theory Queue_Shared
  imports Queue_Write
begin

text \<open>
  The shared state of a delivery queue (\<open>queue/shared.rs\<close>) and its operations. The state under
  the mutex is the first group of fields; the second group is what the operations do to the rest
  of the world: the permit of \<open>wake\<close>, the counter of \<open>progress\<close>, the cancelled \<open>stop\<close> token, the
  reports the observer was given and the results sent on the channels of the entries, in order.
  The channel of an entry is named by its sequence number. \<open>next_seq\<close> and \<open>progress\<close> are \<open>u64\<close> in
  the source and natural numbers here: a Run does not hand over 2^64 writes. \<open>Instant::now()\<close> is an
  argument.
\<close>

datatype Gate = Stored | Dropped

record Entry =
  seq :: nat
  e_write :: Write

record Held =
  held_entry :: Entry
  follow :: "Write option"

record Pending =
  p_name :: WriteName
  handed_over :: instant

record Shared =
  fifo :: "Entry list"
  new_held :: "Held list"
  pending :: "(nat \<times> Pending) list"
  ended :: "DepKey \<rightharpoonup> Ended"
  next_seq :: nat
  stopped :: bool
  last_failure :: "(nat \<times> LastFailure) option"
  wake :: bool
  progress :: nat
  stop :: bool
  reports :: "QueueReport list"
  ends :: "(nat \<times> WriteResult) list"

definition shared_new :: Shared where
  "shared_new = \<lparr>fifo = [], new_held = [], pending = [], ended = Map.empty, next_seq = 0,
     stopped = False, last_failure = None, wake = False, progress = 0, stop = False,
     reports = [], ends = []\<rparr>"

definition report :: "QueueReport \<Rightarrow> Shared \<Rightarrow> Shared" where
  "report r s = s\<lparr>reports := reports s @ [r]\<rparr>"

definition progressed :: "Shared \<Rightarrow> Shared" where
  "progressed s = s\<lparr>progress := progress s + 1\<rparr>"

definition notify_one :: "Shared \<Rightarrow> Shared" where
  "notify_one s = s\<lparr>wake := True\<rparr>"

definition register :: "Write \<Rightarrow> instant \<Rightarrow> Shared \<Rightarrow> nat \<times> Shared" where
  "register w now s =
     (let q = next_seq s in
      (q, s\<lparr>next_seq := q + 1,
            pending := bt_insert q \<lparr>p_name = write_name w, handed_over = now\<rparr> (pending s)\<rparr>))"

definition insert_ended :: "Write \<Rightarrow> WriteResult \<Rightarrow> Shared \<Rightarrow> Shared" where
  "insert_ended w r s =
     (case own_key w of
        Some key \<Rightarrow> s\<lparr>ended := (ended s)(key \<mapsto> ended_of r)\<rparr>
      | None \<Rightarrow> s)"

definition finish_unqueued :: "Write \<Rightarrow> Removal \<Rightarrow> Shared \<Rightarrow> WriteEnd \<times> QueueReport option \<times> Shared" where
  "finish_unqueued w removal s =
     (EndedWith (Err removal), Some (Removed (write_name w) removal), insert_ended w (Err removal) s)"

definition enqueue :: "Write \<Rightarrow> instant \<Rightarrow> Shared \<Rightarrow> WriteEnd \<times> QueueReport option \<times> Shared" where
  "enqueue w now s =
     (if stopped s then finish_unqueued w LeftUnsent s
      else case blocked w (ended s) of
        Some removal \<Rightarrow> finish_unqueued w removal s
      | None \<Rightarrow>
          (let (q, s1) = register w now s;
               s2 = s1\<lparr>fifo := fifo s1 @ [\<lparr>seq = q, e_write = w\<rparr>]\<rparr>
           in (EndOf q, None, notify_one s2)))"

definition hand_over :: "Write \<Rightarrow> instant \<Rightarrow> Shared \<Rightarrow> WriteEnd \<times> Shared" where
  "hand_over w now s =
     (case enqueue w now s of
        (e, Some r, s') \<Rightarrow> (e, report r s')
      | (e, None, s') \<Rightarrow> (e, s'))"

definition finish_reported :: "Write \<Rightarrow> Removal \<Rightarrow> Shared \<Rightarrow> WriteEnd \<times> Shared" where
  "finish_reported w removal s =
     (case finish_unqueued w removal s of
        (e, Some r, s') \<Rightarrow> (e, report r s')
      | (e, None, s') \<Rightarrow> (e, s'))"

definition hold :: "Write \<Rightarrow> Write option \<Rightarrow> instant \<Rightarrow> Shared \<Rightarrow> WriteEnd \<times> Shared" where
  "hold w f now s =
     (if stopped s then finish_reported w LeftUnsent s
      else
        (let (q, s1) = register w now s;
             s2 = s1\<lparr>new_held := new_held s1 @ [\<lparr>held_entry = \<lparr>seq = q, e_write = w\<rparr>, follow = f\<rparr>]\<rparr>
         in (EndOf q, notify_one s2)))"

definition forget_failure :: "nat \<Rightarrow> Shared \<Rightarrow> Shared" where
  "forget_failure q s =
     (case last_failure s of
        Some (q', _) \<Rightarrow> if q' = q then s\<lparr>last_failure := None\<rparr> else s
      | None \<Rightarrow> s)"

definition send_end :: "nat \<Rightarrow> WriteResult \<Rightarrow> Shared \<Rightarrow> Shared" where
  "send_end q r s = s\<lparr>ends := ends s @ [(q, r)]\<rparr>"

definition complete :: "Entry \<Rightarrow> WriteResult \<Rightarrow> Shared \<Rightarrow> Shared" where
  "complete e r s =
     (let s1 = report (result_report (write_name (e_write e)) r) s;
          s2 = s1\<lparr>pending := bt_remove (seq e) (pending s1)\<rparr>;
          s3 = insert_ended (e_write e) r s2;
          s4 = forget_failure (seq e) s3;
          s5 = send_end (seq e) r s4
      in progressed s5)"

definition record_failure :: "nat \<Rightarrow> WriteName \<Rightarrow> Error \<Rightarrow> Shared \<Rightarrow> Shared" where
  "record_failure q name e s =
     report (Retrying name e) (s\<lparr>last_failure := Some (q, \<lparr>lf_write = name, lf_error = e\<rparr>)\<rparr>)"

definition min_instant :: "instant list \<Rightarrow> instant option" where
  "min_instant ts = (case ts of [] \<Rightarrow> None | t # ts' \<Rightarrow> Some (fold min ts' t))"

definition snapshot :: "Shared \<Rightarrow> QueueState" where
  "snapshot s =
     \<lparr>waiting = map (\<lambda>(_, p). p_name p) (pending s),
      oldest_handed_over = min_instant (map (\<lambda>(_, p). handed_over p) (pending s)),
      qs_last_failure = map_option snd (last_failure s)\<rparr>"

definition stop_now :: "Shared \<Rightarrow> Shared" where
  "stop_now s = s\<lparr>stopped := True, stop := True\<rparr>"

text \<open>
  \<open>drained\<close> reads \<open>next_seq\<close> once and then looks, after every change of \<open>progress\<close>, whether the
  first pending entry is below it: \<open>drained_look limit s\<close> is one look, \<open>None\<close> when it waits on.
\<close>

definition drained_look :: "nat \<Rightarrow> Shared \<Rightarrow> QueueState option" where
  "drained_look limit s =
     (if (case pending s of [] \<Rightarrow> False | (first, _) # _ \<Rightarrow> first < limit) then None
      else Some (snapshot s))"

section \<open>What the operations change\<close>

lemmas shared_defs [run_simps] = report_def progressed_def notify_one_def register_def insert_ended_def
  finish_unqueued_def forget_failure_def send_end_def record_failure_def stop_now_def

lemma report_frame [frame_simps, simp]:
  "fifo (report r s) = fifo s" "new_held (report r s) = new_held s" "pending (report r s) = pending s"
  "ended (report r s) = ended s" "next_seq (report r s) = next_seq s" "stopped (report r s) = stopped s"
  "stop (report r s) = stop s" "last_failure (report r s) = last_failure s" "ends (report r s) = ends s"
  by (simp_all add: report_def)

lemma insert_ended_frame [frame_simps, simp]:
  "fifo (insert_ended w r s) = fifo s" "new_held (insert_ended w r s) = new_held s"
  "pending (insert_ended w r s) = pending s" "next_seq (insert_ended w r s) = next_seq s"
  "stopped (insert_ended w r s) = stopped s" "stop (insert_ended w r s) = stop s"
  "last_failure (insert_ended w r s) = last_failure s" "ends (insert_ended w r s) = ends s"
  "reports (insert_ended w r s) = reports s"
  by (simp_all add: insert_ended_def split: option.split)

lemma ended_insert_ended:
  "ended (insert_ended w r s) k = (if own_key w = Some k then Some (ended_of r) else ended s k)"
  by (simp add: insert_ended_def split: option.split)

lemma forget_failure_frame [frame_simps, simp]:
  "fifo (forget_failure q s) = fifo s" "new_held (forget_failure q s) = new_held s"
  "pending (forget_failure q s) = pending s" "next_seq (forget_failure q s) = next_seq s"
  "stopped (forget_failure q s) = stopped s" "stop (forget_failure q s) = stop s"
  "ended (forget_failure q s) = ended s" "ends (forget_failure q s) = ends s"
  "reports (forget_failure q s) = reports s"
  "last_failure (forget_failure q s) =
     (case last_failure s of Some (q', f) \<Rightarrow> if q' = q then None else Some (q', f) | None \<Rightarrow> None)"
  by (auto simp: forget_failure_def split: option.split)

lemma complete_frame [frame_simps, simp]:
  "fifo (complete e r s) = fifo s" "new_held (complete e r s) = new_held s"
  "next_seq (complete e r s) = next_seq s" "stopped (complete e r s) = stopped s"
  "stop (complete e r s) = stop s"
  "pending (complete e r s) = bt_remove (seq e) (pending s)"
  "ends (complete e r s) = ends s @ [(seq e, r)]"
  "ended (complete e r s) = ended (insert_ended (e_write e) r s)"
  "last_failure (complete e r s) =
     (case last_failure s of Some (q, f) \<Rightarrow> if q = seq e then None else Some (q, f) | None \<Rightarrow> None)"
  "reports (complete e r s) = reports s @ [result_report (write_name (e_write e)) r]"
  by (simp_all add: complete_def Let_def report_def progressed_def send_end_def fun_eq_iff
      ended_insert_ended)

lemma hand_over_cases:
  "hand_over w now s =
     (if stopped s then
        (EndedWith (Err LeftUnsent), report (Removed (write_name w) LeftUnsent) (insert_ended w (Err LeftUnsent) s))
      else case blocked w (ended s) of
        Some removal \<Rightarrow>
          (EndedWith (Err removal), report (Removed (write_name w) removal) (insert_ended w (Err removal) s))
      | None \<Rightarrow>
          (EndOf (next_seq s),
           s\<lparr>next_seq := next_seq s + 1,
             pending := bt_insert (next_seq s) \<lparr>p_name = write_name w, handed_over = now\<rparr> (pending s),
             fifo := fifo s @ [\<lparr>seq = next_seq s, e_write = w\<rparr>],
             wake := True\<rparr>))"
  by (simp add: hand_over_def enqueue_def finish_unqueued_def register_def notify_one_def Let_def
      split: option.split)

lemma hold_cases:
  "hold w f now s =
     (if stopped s then
        (EndedWith (Err LeftUnsent), report (Removed (write_name w) LeftUnsent) (insert_ended w (Err LeftUnsent) s))
      else
        (EndOf (next_seq s),
         s\<lparr>next_seq := next_seq s + 1,
           pending := bt_insert (next_seq s) \<lparr>p_name = write_name w, handed_over = now\<rparr> (pending s),
           new_held := new_held s @ [\<lparr>held_entry = \<lparr>seq = next_seq s, e_write = w\<rparr>, follow = f\<rparr>],
           wake := True\<rparr>))"
  by (simp add: hold_def finish_reported_def finish_unqueued_def register_def notify_one_def Let_def)

lemma drained_look_Some:
  assumes "bt_ordered (pending s)"
  shows "drained_look limit s = Some q \<longleftrightarrow> (\<forall>k \<in> set (map fst (pending s)). limit \<le> k) \<and> q = snapshot s"
proof (cases "pending s")
  case Nil
  then show ?thesis by (auto simp: drained_look_def)
next
  case (Cons e es)
  obtain k p where e: "e = (k, p)" by (cases e)
  have "k \<le> k'" if "k' \<in> set (map fst (pending s))" for k'
    using bt.first_least [OF assms Cons that] by (simp add: e)
  then have "(\<forall>k' \<in> set (map fst (pending s)). limit \<le> k') \<longleftrightarrow> limit \<le> k"
    using Cons e by (auto intro: order_trans)
  then show ?thesis by (auto simp: drained_look_def Cons e)
qed

lemma fold_min_least: "fold min ts t = Min (insert t (set ts))" for t :: "'a::linorder"
proof (induction ts arbitrary: t)
  case (Cons u ts)
  have "fold min (u # ts) t = Min (insert (min u t) (set ts))" by (simp add: Cons.IH)
  also have "\<dots> = Min (insert t (insert u (set ts)))"
    by (cases "ts = []") (simp_all add: min.left_commute min.assoc min.commute)
  finally show ?case by simp
qed simp

lemma snapshot_oldest:
  assumes "oldest_handed_over (snapshot s) = Some t"
  shows "t \<in> handed_over ` snd ` set (pending s) \<and> (\<forall>p \<in> snd ` set (pending s). t \<le> handed_over p)"
proof -
  let ?ts = "map (\<lambda>(_, p). handed_over p) (pending s)"
  from assms have "?ts \<noteq> []" and "t = Min (set ?ts)"
    by (auto simp: snapshot_def min_instant_def fold_min_least split: list.splits)
  then have "t \<in> set ?ts" and "\<forall>u \<in> set ?ts. t \<le> u" by (auto intro: Min_in Min_le simp del: set_map)
  then show ?thesis by (auto simp: split_beta image_image)
qed

end
