(* ===== verification/Queue_Task.thy ===== *)
theory Queue_Task
  imports Queue_Shared
begin

text \<open>
  The task that sends the writes of a delivery queue (\<open>queue/task.rs\<close>): the attempts of one write,
  the choice of the next head, the end of a gate, the state of the task, the branches of its loop
  and what its drop does. What the sender answers to an attempt is an input.
\<close>

section \<open>Attempts\<close>

definition resendable :: "Write \<Rightarrow> Error \<Rightarrow> bool" where
  "resendable w e =
     (case e of
        Unavailable _ \<Rightarrow> True
      | Lost _ \<Rightarrow> True
      | Unreadable _ \<Rightarrow> True
      | Credential failure \<Rightarrow> credential_kind failure = FetchFailed
      | Refused refusal \<Rightarrow> is_started w \<and> reason_eq (reason refusal) InstanceUnknown
      | _ \<Rightarrow> False)"

text \<open>What one \<open>timeout(outcome_wait, session.send())\<close> gives.\<close>

datatype SendOutcome = Answered "(unit, Error) result" | TimedOut

fun sent_error :: "SendOutcome \<Rightarrow> Error option" where
  "sent_error (Answered (Inr _)) = None"
| "sent_error (Answered (Inl e)) = Some e"
| "sent_error TimedOut = Some (error_wait_fired ''no outcome within the outcome wait'')"

definition final_removal :: "Error \<Rightarrow> Removal" where
  "final_removal e = (case e of Refused _ \<Rightarrow> RRefused e | other \<Rightarrow> RFailed other)"

text \<open>One round of the loop: a result, or \<open>None\<close> when the write is sent again after the wait.\<close>

definition attempt_round :: "nat \<Rightarrow> Write \<Rightarrow> SendOutcome \<Rightarrow> Shared \<Rightarrow> WriteResult option \<times> Shared" where
  "attempt_round q w sent s =
     (case sent_error sent of
        None \<Rightarrow> (Some (Ok ()), s)
      | Some e \<Rightarrow>
          if resendable w e then (None, record_failure q (write_name w) e s)
          else (Some (Err (final_removal e)), s))"

text \<open>The loop over the answers of the sender; \<open>None\<close> while it has not returned.\<close>

fun attempts_loop :: "nat \<Rightarrow> Write \<Rightarrow> SendOutcome list \<Rightarrow> Shared \<Rightarrow> WriteResult option \<times> Shared" where
  "attempts_loop q w [] s = (None, s)"
| "attempts_loop q w (sent # outs) s =
     (case attempt_round q w sent s of
        (Some r, s') \<Rightarrow> (Some r, s')
      | (None, s') \<Rightarrow> attempts_loop q w outs s')"

definition passing :: "Write \<Rightarrow> SendOutcome \<Rightarrow> bool" where
  "passing w sent \<longleftrightarrow> (\<exists>e. sent_error sent = Some e \<and> resendable w e)"

lemma attempt_round_simps:
  "passing w sent \<Longrightarrow> fst (attempt_round q w sent s) = None"
  "\<not> passing w sent \<Longrightarrow> snd (attempt_round q w sent s) = s"
  "\<not> passing w sent \<Longrightarrow> fst (attempt_round q w sent s) =
     Some (case sent_error sent of None \<Rightarrow> Ok () | Some e \<Rightarrow> Err (final_removal e))"
  by (auto simp: attempt_round_def passing_def split: option.splits)

lemma attempts_loop_append:
  "\<forall>x \<in> set xs. passing w x \<Longrightarrow>
   attempts_loop q w (xs @ ys) s = attempts_loop q w ys (snd (attempts_loop q w xs s))"
proof (induction xs arbitrary: s)
  case (Cons x xs)
  obtain s' where "attempt_round q w x s = (None, s')"
    using attempt_round_simps(1) [of w x q s] Cons.prems by (cases "attempt_round q w x s") auto
  with Cons show ?case by simp
qed simp

lemma attempts_loop_passing: "\<forall>x \<in> set xs. passing w x \<Longrightarrow> fst (attempts_loop q w xs s) = None"
  using attempts_loop_append [of xs w q "[]" s] by (simp add: prod_eq_iff)

lemma attempts_loop_reports:
  "\<forall>x \<in> set xs. passing w x \<Longrightarrow>
   reports (snd (attempts_loop q w xs s)) =
     reports s @ map (\<lambda>x. Retrying (write_name w) (the (sent_error x))) xs"
proof (induction xs arbitrary: s)
  case (Cons x xs)
  then obtain e where e: "sent_error x = Some e" "resendable w e" by (auto simp: passing_def)
  then have "attempt_round q w x s = (None, record_failure q (write_name w) e s)"
    by (simp add: attempt_round_def)
  with Cons e show ?case by (simp add: record_failure_def report_def)
qed simp

text \<open>
  A write is sent again exactly while its attempts fail for a reason that can pass. After any
  number of such failures the queue has told its observer of each of them, in order, and the
  write is still not ended; the first other answer ends it, delivered for an acceptance and
  removed with the refusal or the failure otherwise. A refusal passes only for the started fact
  and only when jobs does not know the instance.
\<close>
theorem attempts_until_final:
  assumes "\<forall>x \<in> set xs. passing w x" and "\<not> passing w y"
  shows "(fst (attempts_loop q w xs s) = None) \<and>
    (fst (attempts_loop q w (xs @ y # ys) s) =
           Some (case sent_error y of None \<Rightarrow> Ok () | Some e \<Rightarrow> Err (final_removal e))) \<and>
    (reports (snd (attempts_loop q w (xs @ y # ys) s)) =
           reports s @ map (\<lambda>x. Retrying (write_name w) (the (sent_error x))) xs) \<and>
    (passing w (Answered (Err (Refused r))) \<longleftrightarrow> is_started w \<and> reason_eq (reason r) InstanceUnknown)"
proof -
  let ?s = "snd (attempts_loop q w xs s)"
  have p1: "fst (attempts_loop q w xs s) = None" using assms(1) by (rule attempts_loop_passing)
  have "attempts_loop q w (xs @ y # ys) s = attempts_loop q w (y # ys) ?s"
    using assms(1) by (rule attempts_loop_append)
  moreover have "attempt_round q w y ?s =
      (Some (case sent_error y of None \<Rightarrow> Ok () | Some e \<Rightarrow> Err (final_removal e)), ?s)"
    using attempt_round_simps(2,3) [OF assms(2)] by (simp add: prod_eq_iff)
  ultimately have *: "attempts_loop q w (xs @ y # ys) s =
      (Some (case sent_error y of None \<Rightarrow> Ok () | Some e \<Rightarrow> Err (final_removal e)), ?s)"
    by simp
  from * have p2: "fst (attempts_loop q w (xs @ y # ys) s) =
      Some (case sent_error y of None \<Rightarrow> Ok () | Some e \<Rightarrow> Err (final_removal e))" by simp
  from * have p3: "reports (snd (attempts_loop q w (xs @ y # ys) s)) =
      reports s @ map (\<lambda>x. Retrying (write_name w) (the (sent_error x))) xs"
    using attempts_loop_reports [OF assms(1)] by simp
  have p4: "passing w (Answered (Err (Refused r))) \<longleftrightarrow> is_started w \<and> reason_eq (reason r) InstanceUnknown"
    by (simp add: passing_def resendable_def)
  show ?thesis using p1 p2 p3 p4 by blast
qed

theorem attempts_until_final_witness:
  "list_all (passing (WSavedState JNull)) [TimedOut, TimedOut] \<and>
   fst (attempts_loop 3 (WSavedState JNull) ([TimedOut, TimedOut] @ Answered (Ok ()) # []) shared_new) = Some (Ok ())"
proof -
  have h: "\<forall>x \<in> set [TimedOut, TimedOut]. passing (WSavedState JNull) x"
    "\<not> passing (WSavedState JNull) (Answered (Ok ()))"
    by (simp_all add: passing_def resendable_def error_wait_fired_def)
  show ?thesis using h(1) attempts_until_final [OF h, of 3 shared_new "[]"] by simp
qed

section \<open>The next head\<close>

function next_head :: "Shared \<Rightarrow> Entry option \<times> Shared" where
  "next_head s =
     (if stopped s then (None, s)
      else case fifo s of
        [] \<Rightarrow> (None, s)
      | head # rest \<Rightarrow>
          (let s1 = s\<lparr>fifo := rest\<rparr> in
           case blocked (e_write head) (ended s1) of
             Some removal \<Rightarrow> next_head (complete head (Err removal) s1)
           | None \<Rightarrow> (Some head, s1)))"
  by pat_completeness auto
termination
  by (relation "measure (\<lambda>s. length (fifo s))") auto

declare next_head.simps [simp del]

section \<open>The end of a gate\<close>

definition push_follow :: "Write \<Rightarrow> instant \<Rightarrow> Shared \<Rightarrow> Shared" where
  "push_follow w now s =
     (let q = next_seq s in
      s\<lparr>next_seq := q + 1,
        pending := bt_insert q \<lparr>p_name = write_name w, handed_over = now\<rparr> (pending s),
        fifo := fifo s @ [\<lparr>seq = q, e_write = w\<rparr>]\<rparr>)"

definition gate_ended :: "Entry \<Rightarrow> Write option \<Rightarrow> Gate \<Rightarrow> instant \<Rightarrow> Shared \<Rightarrow> Shared" where
  "gate_ended e f gate now s =
     (case gate of
        Stored \<Rightarrow>
          if stopped s then complete e (Err LeftUnsent) s
          else
            (let s1 = (case f of Some w \<Rightarrow> push_follow w now s | None \<Rightarrow> s);
                 s2 = s1\<lparr>fifo := fifo s1 @ [e]\<rparr>
             in notify_one s2)
      | Dropped \<Rightarrow> complete e (Err DependsOnRemoved) s)"

section \<open>The task\<close>

text \<open>
  An attempt is either sending (inside the outcome wait) or waiting before the next send. The gate
  futures are named by the sequence numbers of their entries.
\<close>

datatype AttemptPhase = Sending | RetryWait

record Task =
  gates :: "nat list"
  held :: "(nat \<times> Entry \<times> Write option) list"
  entry :: "Entry option"
  attempt :: "AttemptPhase option"

definition task_new :: Task where
  "task_new = \<lparr>gates = [], held = [], entry = None, attempt = None\<rparr>"

definition take_one_held :: "Held \<Rightarrow> Task \<Rightarrow> Task" where
  "take_one_held h t =
     t\<lparr>gates := gates t @ [seq (held_entry h)],
       held := bt_insert (seq (held_entry h)) (held_entry h, follow h) (held t)\<rparr>"

definition take_new_held :: "Shared \<Rightarrow> Task \<Rightarrow> Shared \<times> Task" where
  "take_new_held s t = (s\<lparr>new_held := []\<rparr>, fold take_one_held (new_held s) t)"

definition take_head :: "Shared \<Rightarrow> Task \<Rightarrow> Shared \<times> Task" where
  "take_head s t =
     (case entry t of
        Some _ \<Rightarrow> (s, t)
      | None \<Rightarrow>
          (case next_head s of
             (Some e, s') \<Rightarrow> (s', t\<lparr>entry := Some e, attempt := Some Sending\<rparr>)
           | (None, s') \<Rightarrow> (s', t)))"

text \<open>The branches of the \<open>select!\<close> of \<open>Task::run\<close>.\<close>

definition on_gate :: "nat \<Rightarrow> Gate \<Rightarrow> instant \<Rightarrow> Shared \<Rightarrow> Task \<Rightarrow> Shared \<times> Task" where
  "on_gate q gate now s t =
     (let t1 = t\<lparr>gates := remove1 q (gates t)\<rparr> in
      case map_of (held t1) q of
        Some (e, f) \<Rightarrow> (gate_ended e f gate now s, t1\<lparr>held := bt_remove q (held t1)\<rparr>)
      | None \<Rightarrow> (s, t1))"

definition on_attempt_done :: "WriteResult \<Rightarrow> Shared \<Rightarrow> Task \<Rightarrow> Shared \<times> Task" where
  "on_attempt_done r s t =
     (let t1 = t\<lparr>attempt := None\<rparr> in
      case entry t1 of
        Some e \<Rightarrow> (complete e r s, t1\<lparr>entry := None\<rparr>)
      | None \<Rightarrow> (s, t1))"

definition on_wake :: "Shared \<Rightarrow> Shared" where
  "on_wake s = s\<lparr>wake := False\<rparr>"

text \<open>
  The drop of the task: every entry it still knows is completed as \<open>LeftUnsent\<close>, in the order of
  the sequence numbers. The order in which the map \<open>held\<close> is drained does not show, because the
  entries are sorted before they are completed.
\<close>

definition left_entries :: "Shared \<Rightarrow> Task \<Rightarrow> Entry list" where
  "left_entries s t =
     sort_key seq
       ((case entry t of Some e \<Rightarrow> [e] | None \<Rightarrow> []) @ map (\<lambda>(_, e, _). e) (held t)
        @ fifo s @ map held_entry (new_held s))"

definition task_drop :: "Shared \<Rightarrow> Task \<Rightarrow> Shared \<times> Task" where
  "task_drop s t =
     (let s1 = s\<lparr>stopped := True, fifo := [], new_held := []\<rparr> in
      (fold (\<lambda>e. complete e (Err LeftUnsent)) (left_entries s t) s1, task_new))"

section \<open>What the task's operations change\<close>

lemma next_head_stopped: "stopped s \<Longrightarrow> next_head s = (None, s)"
  by (simp add: next_head.simps)

lemma next_head_Nil: "\<not> stopped s \<Longrightarrow> fifo s = [] \<Longrightarrow> next_head s = (None, s)"
  by (simp add: next_head.simps)

lemma next_head_blocked:
  "\<not> stopped s \<Longrightarrow> fifo s = e # es \<Longrightarrow> blocked (e_write e) (ended s) = Some removal \<Longrightarrow>
   next_head s = next_head (complete e (Err removal) (s\<lparr>fifo := es\<rparr>))"
  by (subst next_head.simps) simp

lemma next_head_free:
  "\<not> stopped s \<Longrightarrow> fifo s = e # es \<Longrightarrow> blocked (e_write e) (ended s) = None \<Longrightarrow>
   next_head s = (Some e, s\<lparr>fifo := es\<rparr>)"
  by (subst next_head.simps) simp

text \<open>
  An induction rule for what \<open>next_head\<close> does: it keeps removing blocked heads, and it stops at a
  stopped or empty queue or at a free head.
\<close>

lemma next_head_induct [case_names stopped empty free blocked]:
  assumes "\<And>s. stopped s \<Longrightarrow> P s (None, s)"
    and "\<And>s. \<not> stopped s \<Longrightarrow> fifo s = [] \<Longrightarrow> P s (None, s)"
    and "\<And>s e es. \<not> stopped s \<Longrightarrow> fifo s = e # es \<Longrightarrow> blocked (e_write e) (ended s) = None \<Longrightarrow>
           P s (Some e, s\<lparr>fifo := es\<rparr>)"
    and "\<And>s e es removal t. \<not> stopped s \<Longrightarrow> fifo s = e # es \<Longrightarrow>
           blocked (e_write e) (ended s) = Some removal \<Longrightarrow>
           next_head (complete e (Err removal) (s\<lparr>fifo := es\<rparr>)) = t \<Longrightarrow>
           P (complete e (Err removal) (s\<lparr>fifo := es\<rparr>)) t \<Longrightarrow> P s t"
  shows "P s (next_head s)"
proof (induction "length (fifo s)" arbitrary: s)
  case 0
  then show ?case using assms(1,2) by (cases "stopped s") (simp_all add: next_head_stopped next_head_Nil)
next
  case (Suc n)
  then obtain e es where f: "fifo s = e # es" by (cases "fifo s") auto
  show ?case
  proof (cases "stopped s")
    case True
    then show ?thesis by (simp add: assms(1) next_head_stopped)
  next
    case False
    show ?thesis
    proof (cases "blocked (e_write e) (ended s)")
      case None
      with False f assms(3) show ?thesis by (simp add: next_head_free)
    next
      case (Some removal)
      have "P (complete e (Err removal) (s\<lparr>fifo := es\<rparr>)) (next_head (complete e (Err removal) (s\<lparr>fifo := es\<rparr>)))"
        using Suc f by simp
      from assms(4) [OF False f Some refl this] show ?thesis
        by (simp add: next_head_blocked [OF False f Some])
    qed
  qed
qed

lemma next_head_frame:
  "new_held (snd (next_head s)) = new_held s \<and> next_seq (snd (next_head s)) = next_seq s \<and>
   stopped (snd (next_head s)) = stopped s \<and> stop (snd (next_head s)) = stop s"
  by (induction s rule: next_head_induct) simp_all

lemma next_head_taken_free:
  "next_head s = (Some e, s') \<Longrightarrow> blocked (e_write e) (ended s') = None \<and> \<not> stopped s'"
proof -
  have "fst (next_head s) = Some e \<longrightarrow> blocked (e_write e) (ended (snd (next_head s))) = None \<and> \<not> stopped (snd (next_head s))"
    by (induction s rule: next_head_induct) auto
  then show "next_head s = (Some e, s') \<Longrightarrow> blocked (e_write e) (ended s') = None \<and> \<not> stopped s'" by simp
qed

end
