(* ===== verification/Queue_System.thy ===== *)
theory Queue_System
  imports Queue_Task
begin

text \<open>
  The delivery queue as a whole (\<open>queue/mod.rs\<close> over \<open>queue/shared.rs\<close> and \<open>queue/task.rs\<close>): its
  public operations, and the step relation of a queue whose clients, whose sending task and whose
  gates run concurrently. Each call that takes the lock is one step. The task runs its loop in
  the order of \<open>Task::run\<close>: it takes the new held entries, then a head, then waits in the
  \<open>select!\<close>, whose first branch is the stop token.
\<close>

section \<open>The public operations\<close>

definition queue_check :: "QueueSettings \<Rightarrow> bool \<Rightarrow> (unit, Error) result" where
  "queue_check settings runtime =
     (if outcome_wait settings = 0 then Err (InvalidInput ''the outcome wait is zero'')
      else if retry_wait settings = 0 then Err (InvalidInput ''the wait between attempts is zero'')
      else if \<not> runtime then Err (InvalidInput ''the delivery queue needs an async runtime'')
      else Ok ())"

definition queue_start :: "QueueSettings \<Rightarrow> bool \<Rightarrow> uuid \<Rightarrow> instant \<Rightarrow> (WriteEnd \<times> Shared, Error) result" where
  "queue_start settings runtime run now =
     (case queue_check settings runtime of
        Inl e \<Rightarrow> Err e
      | Inr _ \<Rightarrow> Ok (hand_over (WStarted run (start_id settings)) now shared_new))"

definition queue_fact :: "Fact \<Rightarrow> uuid \<Rightarrow> instant \<Rightarrow> Shared \<Rightarrow> WriteEnd \<times> Shared" where
  "queue_fact f message_id now s = hand_over (WFact f message_id) now s"

definition queue_answer :: "Content \<Rightarrow> instant \<Rightarrow> Shared \<Rightarrow> WriteEnd \<times> Shared" where
  "queue_answer answer now s = hand_over (WAnswer answer) now s"

definition queue_saved_state :: "json \<Rightarrow> instant \<Rightarrow> Shared \<Rightarrow> WriteEnd \<times> Shared" where
  "queue_saved_state state now s = hand_over (WSavedState state) now s"

definition plan_declared ::
  "uuid \<Rightarrow> string list \<Rightarrow> uuid option \<Rightarrow> uuid \<Rightarrow> instant \<Rightarrow> Shared \<Rightarrow> (WriteEnd \<times> Shared, Error) result" where
  "plan_declared run steps declaration_id message_id now s =
     (if steps = [] then Err (InvalidInput ''a plan declares at least one step'')
      else Ok (queue_fact (FPlan run steps declaration_id) message_id now s))"

definition step_started ::
  "uuid \<Rightarrow> u32 \<Rightarrow> string \<Rightarrow> datetime \<Rightarrow> uuid \<Rightarrow> instant \<Rightarrow> Shared \<Rightarrow> WriteEnd \<times> Shared" where
  "step_started run index label started_at message_id now s =
     queue_fact (FStep run index label started_at) message_id now s"

definition queue_completed :: "uuid \<Rightarrow> uuid \<Rightarrow> instant \<Rightarrow> Shared \<Rightarrow> WriteEnd \<times> Shared" where
  "queue_completed run message_id now s = queue_fact (FCompleted run) message_id now s"

definition queue_failed :: "uuid \<Rightarrow> Failed \<Rightarrow> uuid \<Rightarrow> instant \<Rightarrow> Shared \<Rightarrow> WriteEnd \<times> Shared" where
  "queue_failed run failed message_id now s = queue_fact (FFailed run failed) message_id now s"

definition queue_drop :: "Shared \<Rightarrow> Shared" where
  "queue_drop s = stop_now s"

section \<open>The steps of a queue\<close>

datatype TaskPc = AtHeld | AtHead | AtSelect

text \<open>
  \<open>h_gated\<close> and \<open>h_follows\<close> are history variables that no step reads: the sequence numbers of
  the entries that a gate held or brought in, and the pairs of a held entry and its follow.
\<close>

record Sys =
  shared :: Shared
  task :: Task
  alive :: bool
  pc :: TaskPc
  h_gated :: "nat set"
  h_follows :: "(nat \<times> nat) set"

datatype QEvent =
    EvHandOver Write instant
  | EvHold Write "Write option" instant
  | EvStop
  | EvTakeHeld
  | EvTakeHead
  | EvGate nat Gate instant
  | EvSent SendOutcome
  | EvRetry
  | EvWake
  | EvDropTask

text \<open>The follow that the end of the gate \<open>q\<close> brings in.\<close>

definition gate_follow :: "nat \<Rightarrow> Gate \<Rightarrow> Sys \<Rightarrow> bool" where
  "gate_follow q gate s \<longleftrightarrow>
     gate = Stored \<and> \<not> stopped (shared s) \<and>
     (case map_of (held (task s)) q of Some (_, Some _) \<Rightarrow> True | _ \<Rightarrow> False)"

definition gated_hold :: "Sys \<Rightarrow> nat set" where
  "gated_hold s = (if stopped (shared s) then h_gated s else insert (next_seq (shared s)) (h_gated s))"

definition gated_after :: "nat \<Rightarrow> Gate \<Rightarrow> Sys \<Rightarrow> nat set" where
  "gated_after q gate s =
     (if gate_follow q gate s then insert (next_seq (shared s)) (h_gated s) else h_gated s)"

definition follows_after :: "nat \<Rightarrow> Gate \<Rightarrow> Sys \<Rightarrow> (nat \<times> nat) set" where
  "follows_after q gate s =
     (if gate_follow q gate s then insert (q, next_seq (shared s)) (h_follows s) else h_follows s)"

definition at_select :: "Sys \<Rightarrow> bool" where
  "at_select s \<longleftrightarrow> alive s \<and> pc s = AtSelect \<and> \<not> stop (shared s)"

text \<open>
  A client never hands over a started fact: \<open>Write::Started\<close> is private to the crate and only
  \<open>DeliveryQueue::start\<close> builds one.
\<close>

inductive qstep :: "Sys \<Rightarrow> QEvent \<Rightarrow> Sys \<Rightarrow> bool" where
  q_hand_over: "\<not> is_started w \<Longrightarrow>
    qstep s (EvHandOver w now) (s\<lparr>shared := snd (hand_over w now (shared s))\<rparr>)"
| q_hold: "\<not> is_started w \<Longrightarrow> (\<And>v. f = Some v \<Longrightarrow> \<not> is_started v) \<Longrightarrow>
    qstep s (EvHold w f now)
      (s\<lparr>shared := snd (hold w f now (shared s)), h_gated := gated_hold s\<rparr>)"
| q_stop: "qstep s EvStop (s\<lparr>shared := queue_drop (shared s)\<rparr>)"
| q_take_held: "alive s \<Longrightarrow> pc s = AtHeld \<Longrightarrow> take_new_held (shared s) (task s) = (sh, t) \<Longrightarrow>
    qstep s EvTakeHeld (s\<lparr>shared := sh, task := t, pc := AtHead\<rparr>)"
| q_take_head: "alive s \<Longrightarrow> pc s = AtHead \<Longrightarrow> take_head (shared s) (task s) = (sh, t) \<Longrightarrow>
    qstep s EvTakeHead (s\<lparr>shared := sh, task := t, pc := AtSelect\<rparr>)"
| q_gate: "at_select s \<Longrightarrow> q \<in> set (gates (task s)) \<Longrightarrow>
    on_gate q gate now (shared s) (task s) = (sh, t) \<Longrightarrow>
    qstep s (EvGate q gate now)
      (s\<lparr>shared := sh, task := t, pc := AtHeld,
         h_gated := gated_after q gate s, h_follows := follows_after q gate s\<rparr>)"
| q_sent_again: "at_select s \<Longrightarrow> entry (task s) = Some e \<Longrightarrow> attempt (task s) = Some Sending \<Longrightarrow>
    attempt_round (seq e) (e_write e) sent (shared s) = (None, sh) \<Longrightarrow>
    qstep s (EvSent sent) (s\<lparr>shared := sh, task := (task s)\<lparr>attempt := Some RetryWait\<rparr>\<rparr>)"
| q_sent_done: "at_select s \<Longrightarrow> entry (task s) = Some e \<Longrightarrow> attempt (task s) = Some Sending \<Longrightarrow>
    attempt_round (seq e) (e_write e) sent (shared s) = (Some r, sh) \<Longrightarrow>
    on_attempt_done r sh (task s) = (sh', t) \<Longrightarrow>
    qstep s (EvSent sent) (s\<lparr>shared := sh', task := t, pc := AtHeld\<rparr>)"
| q_retry: "at_select s \<Longrightarrow> attempt (task s) = Some RetryWait \<Longrightarrow>
    qstep s EvRetry (s\<lparr>task := (task s)\<lparr>attempt := Some Sending\<rparr>\<rparr>)"
| q_wake: "at_select s \<Longrightarrow> wake (shared s) \<Longrightarrow>
    qstep s EvWake (s\<lparr>shared := on_wake (shared s), pc := AtHeld\<rparr>)"
| q_drop: "alive s \<Longrightarrow> task_drop (shared s) (task s) = (sh, t) \<Longrightarrow>
    qstep s EvDropTask (s\<lparr>shared := sh, task := t, alive := False\<rparr>)"

definition sys_start :: "uuid \<Rightarrow> uuid \<Rightarrow> instant \<Rightarrow> Sys" where
  "sys_start run start now =
     \<lparr>shared = snd (hand_over (WStarted run start) now shared_new), task = task_new,
      alive = True, pc = AtHeld, h_gated = {}, h_follows = {}\<rparr>"

text \<open>The queue as \<open>queue_start\<close> makes it, with its task just spawned.\<close>

definition queue_init :: "Sys \<Rightarrow> bool" where
  "queue_init s \<longleftrightarrow>
     (\<exists>settings runtime run now e sh. queue_start settings runtime run now = Ok (e, sh) \<and>
        s = \<lparr>shared = sh, task = task_new, alive = True, pc = AtHeld, h_gated = {}, h_follows = {}\<rparr>)"

abbreviation queue_reach :: "Sys \<Rightarrow> bool" where
  "queue_reach \<equiv> reach queue_init qstep"

lemma queue_init_start: "queue_init s \<Longrightarrow> \<exists>run start now. s = sys_start run start now"
proof -
  assume "queue_init s"
  then obtain settings runtime run now e sh where
    "queue_start settings runtime run now = Ok (e, sh)" and
    s: "s = \<lparr>shared = sh, task = task_new, alive = True, pc = AtHeld, h_gated = {}, h_follows = {}\<rparr>"
    by (auto simp: queue_init_def)
  then have "sh = snd (hand_over (WStarted run (start_id settings)) now shared_new)"
    by (auto simp: queue_start_def split: sum.splits dest: sym)
  with s show ?thesis by (auto simp: sys_start_def)
qed

lemma sys_start_init: "queue_init (sys_start run start now)"
  unfolding queue_init_def
  by (intro exI [of _ "\<lparr>start_id = start, outcome_wait = 1, retry_wait = 1\<rparr>"] exI [of _ True]
      exI [of _ run] exI [of _ now]
      exI [of _ "fst (hand_over (WStarted run start) now shared_new)"]
      exI [of _ "snd (hand_over (WStarted run start) now shared_new)"])
    (simp add: queue_start_def queue_check_def sys_start_def)

section \<open>Conservation: every write is in one place\<close>

text \<open>
  \<open>conserved rest sh\<close>: the pending entries of \<open>sh\<close> are, with their names, those of its FIFO, of its
  new held entries and of \<open>rest\<close> (the entries the task holds), and every sequence number given so
  far is either pending or has one result.
\<close>

definition tag :: "Entry \<Rightarrow> nat \<times> WriteName" where
  "tag e = (seq e, write_name (e_write e))"

definition pending_tags :: "Shared \<Rightarrow> (nat \<times> WriteName) multiset" where
  "pending_tags sh = mset (map (\<lambda>(q, p). (q, p_name p)) (pending sh))"

definition conserved :: "(nat \<times> WriteName) multiset \<Rightarrow> Shared \<Rightarrow> bool" where
  "conserved rest sh \<longleftrightarrow>
     bt_ordered (pending sh) \<and>
     pending_tags sh = mset (map tag (fifo sh)) + mset (map (\<lambda>h. tag (held_entry h)) (new_held sh)) + rest \<and>
     mset (map fst (pending sh)) + mset (map fst (ends sh)) = mset_set {..<next_seq sh}"

lemma conserved_keys:
  assumes "conserved rest sh"
  shows "k \<in> set (map fst (pending sh)) \<Longrightarrow> k < next_seq sh"
    and "k \<in> set (map fst (ends sh)) \<Longrightarrow> k < next_seq sh"
    and "next_seq sh \<notin> set (map fst (pending sh))"
    and "distinct (map fst (ends sh))"
    and "set (map fst (pending sh)) \<inter> set (map fst (ends sh)) = {}"
    and "set (map fst (pending sh)) \<union> set (map fst (ends sh)) = {..<next_seq sh}"
proof -
  let ?p = "map fst (pending sh)" and ?e = "map fst (ends sh)"
  from assms have m: "mset (?p @ ?e) = mset [0..<next_seq sh]"
    by (simp add: conserved_def lessThan_atLeast0)
  then have "distinct (?p @ ?e)" and s: "set (?p @ ?e) = {..<next_seq sh}"
    using mset_eq_imp_distinct_iff [OF m] mset_eq_setD [OF m] by (auto simp: lessThan_atLeast0)
  then show "distinct ?e" and "set ?p \<inter> set ?e = {}" and "set ?p \<union> set ?e = {..<next_seq sh}" by auto
  with s show "next_seq sh \<notin> set ?p" and "k \<in> set ?p \<Longrightarrow> k < next_seq sh" and "k \<in> set ?e \<Longrightarrow> k < next_seq sh"
    by auto
qed

lemma conserved_tag_key:
  assumes "conserved rest sh" and "(q, n) \<in># pending_tags sh"
  shows "\<exists>p. (q, p) \<in> set (pending sh) \<and> p_name p = n"
  using assms(2) by (auto simp: pending_tags_def)

lemma complete_conserved:
  assumes "conserved (add_mset (tag e) rest) sh"
  shows "conserved rest (complete e r sh)"
proof -
  from assms have "tag e \<in># pending_tags sh" by (simp add: conserved_def)
  then obtain p where p: "(seq e, p) \<in> set (pending sh)" "p_name p = write_name (e_write e)"
    using conserved_tag_key [OF assms] by (auto simp: tag_def)
  from assms have o: "bt_ordered (pending sh)" by (simp add: conserved_def)
  have "mset (pending sh) = add_mset (seq e, p) (mset (bt_remove (seq e) (pending sh)))"
    using o p(1) by (rule mset_bt_remove)
  moreover have "bt_ordered (bt_remove (seq e) (pending sh))" using o by (rule bt_ordered_remove)
  ultimately show ?thesis
    using assms p(2) by (simp add: conserved_def pending_tags_def tag_def)
qed

lemma conserved_new_entry:
  assumes "conserved rest sh"
  shows "bt_ordered (bt_insert (next_seq sh) p (pending sh))"
    and "mset (bt_insert (next_seq sh) p (pending sh)) = add_mset (next_seq sh, p) (mset (pending sh))"
  using assms conserved_keys(3) [OF assms]
  by (simp_all add: conserved_def bt_ordered_insert mset_bt_insert)

lemma mset_set_Suc: "mset_set {..<Suc n} = add_mset n (mset_set {..<n})"
  by (simp add: lessThan_Suc)

lemma conserved_unqueued [simp]:
  "conserved rest (report r sh) = conserved rest sh"
  "conserved rest (insert_ended w res sh) = conserved rest sh"
  "conserved rest (notify_one sh) = conserved rest sh"
  "conserved rest (stop_now sh) = conserved rest sh"
  "conserved rest (on_wake sh) = conserved rest sh"
  "conserved rest (record_failure q n e sh) = conserved rest sh"
  by (simp_all add: conserved_def pending_tags_def report_def notify_one_def stop_now_def on_wake_def
      record_failure_def)

lemma hand_over_conserved: "conserved rest sh \<Longrightarrow> conserved rest (snd (hand_over w now sh))"
  using conserved_new_entry [of rest sh "\<lparr>p_name = write_name w, handed_over = now\<rparr>"]
  by (auto simp: hand_over_cases conserved_def pending_tags_def tag_def mset_set_Suc split: option.split)

lemma hold_conserved: "conserved rest sh \<Longrightarrow> conserved rest (snd (hold w f now sh))"
  using conserved_new_entry [of rest sh "\<lparr>p_name = write_name w, handed_over = now\<rparr>"]
  by (auto simp: hold_cases conserved_def pending_tags_def tag_def mset_set_Suc)

lemma pop_conserved:
  "conserved rest sh \<Longrightarrow> fifo sh = e # es \<Longrightarrow> conserved (add_mset (tag e) rest) (sh\<lparr>fifo := es\<rparr>)"
  by (simp add: conserved_def pending_tags_def)

lemma push_conserved:
  "conserved (add_mset (tag e) rest) sh \<Longrightarrow> conserved rest (sh\<lparr>fifo := fifo sh @ [e]\<rparr>)"
  by (simp add: conserved_def pending_tags_def)

lemma push_follow_conserved: "conserved rest sh \<Longrightarrow> conserved rest (push_follow w now sh)"
  using conserved_new_entry [of rest sh "\<lparr>p_name = write_name w, handed_over = now\<rparr>"]
  by (auto simp: push_follow_def Let_def conserved_def pending_tags_def tag_def mset_set_Suc)

lemma gate_ended_conserved:
  "conserved (add_mset (tag e) rest) sh \<Longrightarrow> conserved rest (gate_ended e f gate now sh)"
  by (auto simp: gate_ended_def Let_def complete_conserved push_conserved push_follow_conserved
      split: Gate.split option.split)

lemma next_head_conserved:
  "conserved rest sh \<Longrightarrow>
   (case next_head sh of (Some e, sh') \<Rightarrow> conserved (add_mset (tag e) rest) sh' | (None, sh') \<Rightarrow> conserved rest sh')"
proof (induction sh rule: next_head_induct)
  case (free s e es)
  then show ?case by (simp add: pop_conserved)
next
  case (blocked s e es removal t)
  then show ?case by (simp add: complete_conserved pop_conserved)
qed simp_all

lemma take_held_conserved:
  "conserved rest sh \<Longrightarrow>
   conserved (mset (map (\<lambda>h. tag (held_entry h)) (new_held sh)) + rest) (sh\<lparr>new_held := []\<rparr>)"
  by (simp add: conserved_def pending_tags_def ac_simps)

lemma fold_complete_conserved:
  "conserved (mset (map tag es) + rest) sh \<Longrightarrow> conserved rest (fold (\<lambda>e. complete e r) es sh)"
  by (induction es arbitrary: sh) (auto simp: complete_conserved)

section \<open>The invariant of the system\<close>

definition entry_list :: "Task \<Rightarrow> Entry list" where
  "entry_list t = (case entry t of Some e \<Rightarrow> [e] | None \<Rightarrow> [])"

definition held_entries :: "Task \<Rightarrow> Entry list" where
  "held_entries t = map (\<lambda>(_, e, _). e) (held t)"

definition task_tags :: "Task \<Rightarrow> (nat \<times> WriteName) multiset" where
  "task_tags t = mset (map tag (entry_list t)) + mset (map tag (held_entries t))"

definition task_ok :: "Task \<Rightarrow> bool" where
  "task_ok t \<longleftrightarrow>
     bt_ordered (held t) \<and> (\<forall>(q, e, _) \<in> set (held t). seq e = q) \<and>
     mset (gates t) = mset (map fst (held t)) \<and> (attempt t = None \<longleftrightarrow> entry t = None)"

definition sys_inv :: "Sys \<Rightarrow> bool" where
  "sys_inv s \<longleftrightarrow>
     conserved (task_tags (task s)) (shared s) \<and> task_ok (task s) \<and>
     (stop (shared s) \<longrightarrow> stopped (shared s)) \<and>
     (\<not> alive s \<longrightarrow>
        stopped (shared s) \<and> fifo (shared s) = [] \<and> new_held (shared s) = [] \<and> task s = task_new)"

lemma task_tags_new [simp]: "task_tags task_new = {#}" "task_ok task_new"
  by (simp_all add: task_tags_def task_ok_def task_new_def entry_list_def held_entries_def)

lemma sys_inv_start: "sys_inv (sys_start run start now)"
proof -
  have "conserved {#} shared_new" by (simp add: conserved_def pending_tags_def shared_new_def)
  then have "conserved {#} (snd (hand_over (WStarted run start) now shared_new))"
    by (rule hand_over_conserved)
  moreover have "\<not> stop (snd (hand_over (WStarted run start) now shared_new))"
    by (simp add: hand_over_cases shared_new_def split: option.split)
  ultimately show ?thesis by (simp add: sys_inv_def sys_start_def)
qed

lemma hand_over_frame:
  "stop (snd (hand_over w now s)) = stop s" "stopped (snd (hand_over w now s)) = stopped s"
  "new_held (snd (hand_over w now s)) = new_held s"
  "stopped s \<Longrightarrow> fifo (snd (hand_over w now s)) = fifo s"
  by (simp_all add: hand_over_cases split: option.split)

lemma hold_frame:
  "stop (snd (hold w f now s)) = stop s" "stopped (snd (hold w f now s)) = stopped s"
  "fifo (snd (hold w f now s)) = fifo s"
  "stopped s \<Longrightarrow> new_held (snd (hold w f now s)) = new_held s"
  by (simp_all add: hold_cases)

lemma take_one_held_ok:
  assumes "task_ok t" and "seq (held_entry h) \<notin> set (map fst (held t))"
  shows "task_ok (take_one_held h t)"
    and "task_tags (take_one_held h t) = add_mset (tag (held_entry h)) (task_tags t)"
proof -
  have m: "mset (held (take_one_held h t)) =
      add_mset (seq (held_entry h), held_entry h, follow h) (mset (held t))"
    using assms(2) by (simp add: take_one_held_def mset_bt_insert)
  have "(\<forall>x \<in> set (held (take_one_held h t)). case x of (q, e, _) \<Rightarrow> seq e = q)"
    using assms(1) mset_eq_setD [of "held (take_one_held h t)" "(seq (held_entry h), held_entry h, follow h) # held t"] m
    by (auto simp: task_ok_def)
  with assms(1) m show "task_ok (take_one_held h t)"
    by (simp add: task_ok_def take_one_held_def bt_ordered_insert)
  from m show "task_tags (take_one_held h t) = add_mset (tag (held_entry h)) (task_tags t)"
    by (simp add: task_tags_def held_entries_def entry_list_def) (simp add: take_one_held_def)
qed

lemma fold_take_held_ok:
  assumes "task_ok t" and "distinct (map (\<lambda>h. seq (held_entry h)) hs @ map fst (held t))"
  shows "task_ok (fold take_one_held hs t) \<and>
    task_tags (fold take_one_held hs t) = mset (map (\<lambda>h. tag (held_entry h)) hs) + task_tags t"
  using assms
proof (induction hs arbitrary: t)
  case (Cons h hs)
  from Cons.prems have n: "seq (held_entry h) \<notin> set (map fst (held t))" by simp
  note one = take_one_held_ok [OF Cons.prems(1) n]
  have "set (map fst (held (take_one_held h t))) = insert (seq (held_entry h)) (set (map fst (held t)))"
    by (simp add: take_one_held_def set_bt_insert del: set_map)
  moreover have "distinct (map fst (held (take_one_held h t)))"
    using one(1) by (intro bt.distinct_entries) (simp add: task_ok_def)
  ultimately have "distinct (map (\<lambda>h. seq (held_entry h)) hs @ map fst (held (take_one_held h t)))"
    using Cons.prems(2) by auto
  from Cons.IH [OF one(1) this] one(2) show ?case by simp
qed simp

text \<open>The sequence numbers of all live entries are those of the pending entries, each once.\<close>

lemma conserved_seqs:
  assumes "conserved (mset (map tag es)) sh"
  shows "mset (map seq (fifo sh @ map held_entry (new_held sh) @ es)) = mset (map fst (pending sh))"
    and "distinct (map seq (fifo sh @ map held_entry (new_held sh) @ es))"
proof -
  let ?L = "fifo sh @ map held_entry (new_held sh) @ es"
  have "fst \<circ> tag = seq" by (auto simp: tag_def)
  then have "mset (map seq ?L) = image_mset fst (image_mset tag (mset ?L))"
    by (simp only: multiset.map_comp mset_map)
  also have "image_mset tag (mset ?L) = pending_tags sh"
    using assms by (simp add: conserved_def multiset.map_comp comp_def)
  also have "image_mset fst (pending_tags sh) = mset (map fst (pending sh))"
    by (simp add: pending_tags_def multiset.map_comp comp_def split_beta)
  finally show *: "mset (map seq ?L) = mset (map fst (pending sh))" .
  have "distinct (map fst (pending sh))" using assms by (intro bt.distinct_entries) (simp add: conserved_def)
  then show "distinct (map seq (fifo sh @ map held_entry (new_held sh) @ es))"
    using mset_eq_imp_distinct_iff [OF *] by simp
qed

lemma task_tags_entries: "task_tags t = mset (map tag (entry_list t @ held_entries t))"
  by (simp add: task_tags_def)

lemma held_entries_seqs: "task_ok t \<Longrightarrow> map seq (held_entries t) = map fst (held t)"
  by (auto simp: task_ok_def held_entries_def)

lemma take_new_held_inv:
  assumes "conserved (task_tags t) sh" and "task_ok t" and "take_new_held sh t = (sh', t')"
  shows "conserved (task_tags t') sh'" and "task_ok t'"
proof -
  have eq: "map (\<lambda>h. seq (held_entry h)) (new_held sh) = map seq (map held_entry (new_held sh))" by simp
  have "distinct (map seq (fifo sh @ map held_entry (new_held sh) @ entry_list t @ held_entries t))"
    using assms(1) unfolding task_tags_entries by (rule conserved_seqs(2))
  then have "distinct (map (\<lambda>h. seq (held_entry h)) (new_held sh) @ map fst (held t))"
    unfolding eq held_entries_seqs [OF assms(2), symmetric]
    by (simp only: map_append distinct_append set_append) blast
  from fold_take_held_ok [OF assms(2) this] assms(3) take_held_conserved [OF assms(1)]
  show "conserved (task_tags t') sh'" and "task_ok t'" by (auto simp: take_new_held_def)
qed

lemma take_head_inv:
  assumes "conserved (task_tags t) sh" and "task_ok t" and "take_head sh t = (sh', t')"
  shows "conserved (task_tags t') sh'" and "task_ok t'"
proof -
  obtain eo sh1 where n: "next_head sh = (eo, sh1)" by (cases "next_head sh")
  show "conserved (task_tags t') sh'" and "task_ok t'"
    using assms n next_head_conserved [OF assms(1)]
    by (cases "entry t"; cases eo;
        auto simp: take_head_def task_tags_def entry_list_def held_entries_def task_ok_def)+
qed

lemma on_gate_inv:
  assumes "conserved (task_tags t) sh" and "task_ok t" and "q \<in> set (gates t)"
    and "on_gate q gate now sh t = (sh', t')"
  shows "conserved (task_tags t') sh'" and "task_ok t'"
    and "\<exists>e f. map_of (held t) q = Some (e, f) \<and> seq e = q \<and> sh' = gate_ended e f gate now sh"
proof -
  have o: "bt_ordered (held t)" using assms(2) by (simp add: task_ok_def)
  have "q \<in> fst ` set (held t)"
    using assms(2,3) mset_eq_setD [of "gates t" "map fst (held t)"] by (auto simp: task_ok_def)
  then obtain e f where q: "map_of (held t) q = Some (e, f)"
    by (metis map_of_eq_None_iff option.exhaust prod.exhaust)
  then have i: "(q, e, f) \<in> set (held t)" by (rule map_of_SomeD)
  then have e: "seq e = q" using assms(2) by (auto simp: task_ok_def)
  have m: "mset (held t) = add_mset (q, e, f) (mset (bt_remove q (held t)))" using o i by (rule mset_bt_remove)
  have t': "t' = t\<lparr>gates := remove1 q (gates t), held := bt_remove q (held t)\<rparr>"
    and sh': "sh' = gate_ended e f gate now sh"
    using assms(4) q by (simp_all add: on_gate_def Let_def)
  have "task_tags t = add_mset (tag e) (task_tags t')"
    by (simp add: task_tags_def held_entries_def entry_list_def t' m)
  with assms(1) show "conserved (task_tags t') sh'" by (simp add: sh' gate_ended_conserved)
  have "mset (gates t) = add_mset q (mset (map fst (bt_remove q (held t))))"
    using assms(2) by (simp add: task_ok_def m)
  then have "mset (remove1 q (gates t)) = mset (map fst (bt_remove q (held t)))" by simp
  moreover have "set (bt_remove q (held t)) \<subseteq> set (held t)" by (auto simp: bt_remove_def)
  ultimately show "task_ok t'"
    using assms(2) o by (auto simp: task_ok_def t' bt_ordered_remove simp del: mset_remove1)
  from q e sh' show "\<exists>e f. map_of (held t) q = Some (e, f) \<and> seq e = q \<and> sh' = gate_ended e f gate now sh"
    by blast
qed

lemma attempt_round_conserved:
  "attempt_round q w sent sh = (r, sh') \<Longrightarrow> conserved rest sh' = conserved rest sh"
  by (auto simp: attempt_round_def split: option.splits if_splits)

lemma attempt_round_frame:
  assumes "attempt_round q w sent sh = (r, sh')"
  shows "fifo sh' = fifo sh" "new_held sh' = new_held sh" "pending sh' = pending sh" "ended sh' = ended sh"
    "next_seq sh' = next_seq sh" "stopped sh' = stopped sh" "stop sh' = stop sh" "ends sh' = ends sh"
  using assms by (auto simp: attempt_round_def record_failure_def split: option.splits if_splits)

lemma on_attempt_done_inv:
  assumes "conserved (task_tags t) sh" and "task_ok t" and "entry t = Some e"
    and "on_attempt_done r sh t = (sh', t')"
  shows "conserved (task_tags t') sh'" and "task_ok t'" and "sh' = complete e r sh"
    and "t' = t\<lparr>attempt := None, entry := None\<rparr>"
  using assms complete_conserved [of e "task_tags t'" sh r]
  by (auto simp: on_attempt_done_def Let_def task_tags_def entry_list_def held_entries_def task_ok_def)

lemma task_drop_inv:
  assumes "conserved (task_tags t) sh" and "task_drop sh t = (sh', t')"
  shows "conserved {#} sh'" and "t' = task_new" and "fifo sh' = []" and "new_held sh' = []" and "stopped sh'"
proof -
  let ?s1 = "sh\<lparr>stopped := True, fifo := [], new_held := []\<rparr>"
  have s': "sh' = fold (\<lambda>e. complete e (Err LeftUnsent)) (left_entries sh t) ?s1" and "t' = task_new"
    using assms(2) by (simp_all add: task_drop_def Let_def)
  then show "t' = task_new" by simp
  have "conserved (mset (map tag (left_entries sh t)) + {#}) ?s1"
    using assms(1) by (simp add: conserved_def pending_tags_def left_entries_def task_tags_def
        entry_list_def held_entries_def multiset.map_comp comp_def ac_simps split: option.split)
  then show "conserved {#} sh'" unfolding s' by (rule fold_complete_conserved)
  have "fifo (fold (\<lambda>e. complete e (Err LeftUnsent)) es s) = fifo s \<and>
        new_held (fold (\<lambda>e. complete e (Err LeftUnsent)) es s) = new_held s \<and>
        stopped (fold (\<lambda>e. complete e (Err LeftUnsent)) es s) = stopped s" for es s
    by (induction es arbitrary: s) simp_all
  then show "fifo sh' = []" and "new_held sh' = []" and "stopped sh'" by (simp_all add: s')
qed

lemma gate_ended_frame [simp]:
  "stop (gate_ended e f gate now s) = stop s" "stopped (gate_ended e f gate now s) = stopped s"
  "new_held (gate_ended e f gate now s) = new_held s"
  by (simp_all add: gate_ended_def push_follow_def notify_one_def Let_def split: Gate.split option.split)

lemma qstep_inv: "qstep s e t \<Longrightarrow> sys_inv s \<Longrightarrow> sys_inv t"
proof (induction rule: qstep.induct)
  case (q_hand_over w s now)
  then show ?case by (simp add: sys_inv_def hand_over_conserved hand_over_frame)
next
  case (q_hold w f s now)
  then show ?case by (simp add: sys_inv_def hold_conserved hold_frame)
next
  case (q_stop s)
  then show ?case by (simp add: sys_inv_def queue_drop_def) (simp add: stop_now_def)
next
  case (q_take_held s sh t)
  then show ?case using take_new_held_inv [of "task s" "shared s" sh t]
    by (auto simp: sys_inv_def take_new_held_def)
next
  case (q_take_head s sh t)
  have "stop sh = stop (shared s)" "stopped sh = stopped (shared s)"
    using q_take_head.hyps(3) next_head_frame [of "shared s"]
    by (auto simp: take_head_def split: option.splits prod.splits)
  with q_take_head take_head_inv [of "task s" "shared s" sh t] show ?case by (auto simp: sys_inv_def)
next
  case (q_gate s q gate now sh t)
  from q_gate have i: "conserved (task_tags (task s)) (shared s)" "task_ok (task s)" by (simp_all add: sys_inv_def)
  note g = on_gate_inv [OF i q_gate.hyps(2,3)]
  then have "stop sh = stop (shared s)" "stopped sh = stopped (shared s)"
    by auto
  with g q_gate show ?case by (simp add: sys_inv_def at_select_def)
next
  case (q_sent_again s e sent sh)
  then show ?case using attempt_round_conserved [OF q_sent_again.hyps(4)] attempt_round_frame [OF q_sent_again.hyps(4)]
    by (auto simp: sys_inv_def at_select_def task_tags_def entry_list_def held_entries_def task_ok_def)
next
  case (q_sent_done s e sent r sh sh' t)
  note f = attempt_round_frame [OF q_sent_done.hyps(4)]
  have "conserved (task_tags (task s)) sh" "task_ok (task s)"
    using q_sent_done.prems attempt_round_conserved [OF q_sent_done.hyps(4)] by (simp_all add: sys_inv_def)
  note d = on_attempt_done_inv [OF this q_sent_done.hyps(2,5)]
  with f q_sent_done show ?case by (simp add: sys_inv_def at_select_def)
next
  case (q_retry s)
  then show ?case
    by (auto simp: sys_inv_def at_select_def task_tags_def entry_list_def held_entries_def task_ok_def)
next
  case (q_wake s)
  then show ?case by (simp add: sys_inv_def at_select_def) (simp add: on_wake_def)
next
  case (q_drop s sh t)
  then show ?case using task_drop_inv [of "task s" "shared s" sh t] by (simp add: sys_inv_def)
qed

interpretation queue: invariant_system queue_init qstep sys_inv
proof
  show "sys_inv s" if "queue_init s" for s using queue_init_start [OF that] sys_inv_start by auto
qed (rule qstep_inv)

lemma sys_inv_conserved: "sys_inv s \<Longrightarrow> conserved (mset (map tag (entry_list (task s) @ held_entries (task s)))) (shared s)"
  by (simp add: sys_inv_def task_tags_entries)

end
