(* ===== verification/Queue_Exec.thy ===== *)
theory Queue_Exec
  imports Queue_System
begin

text \<open>
  The step relation of the delivery queue as a function: an event determines the next state, or is
  not possible. Concrete runs of the queue are evaluated through it.
\<close>

fun qexec :: "QEvent \<Rightarrow> Sys \<Rightarrow> Sys option" where
  "qexec (EvHandOver w now) s =
     (if is_started w then None else Some (s\<lparr>shared := snd (hand_over w now (shared s))\<rparr>))"
| "qexec (EvHold w f now) s =
     (if is_started w \<or> (case f of Some v \<Rightarrow> is_started v | None \<Rightarrow> False) then None
      else Some (s\<lparr>shared := snd (hold w f now (shared s)), h_gated := gated_hold s\<rparr>))"
| "qexec EvStop s = Some (s\<lparr>shared := queue_drop (shared s)\<rparr>)"
| "qexec EvTakeHeld s =
     (if alive s \<and> pc s = AtHeld then
        (case take_new_held (shared s) (task s) of (sh, t) \<Rightarrow> Some (s\<lparr>shared := sh, task := t, pc := AtHead\<rparr>))
      else None)"
| "qexec EvTakeHead s =
     (if alive s \<and> pc s = AtHead then
        (case take_head (shared s) (task s) of (sh, t) \<Rightarrow> Some (s\<lparr>shared := sh, task := t, pc := AtSelect\<rparr>))
      else None)"
| "qexec (EvGate q gate now) s =
     (if at_select s \<and> q \<in> set (gates (task s)) then
        (case on_gate q gate now (shared s) (task s) of (sh, t) \<Rightarrow>
           Some (s\<lparr>shared := sh, task := t, pc := AtHeld,
             h_gated := gated_after q gate s, h_follows := follows_after q gate s\<rparr>))
      else None)"
| "qexec (EvSent sent) s =
     (if at_select s \<and> attempt (task s) = Some Sending then
        (case entry (task s) of
           None \<Rightarrow> None
         | Some e \<Rightarrow>
             (case attempt_round (seq e) (e_write e) sent (shared s) of
                (None, sh) \<Rightarrow> Some (s\<lparr>shared := sh, task := (task s)\<lparr>attempt := Some RetryWait\<rparr>\<rparr>)
              | (Some r, sh) \<Rightarrow>
                  (case on_attempt_done r sh (task s) of (sh', t) \<Rightarrow>
                     Some (s\<lparr>shared := sh', task := t, pc := AtHeld\<rparr>))))
      else None)"
| "qexec EvRetry s =
     (if at_select s \<and> attempt (task s) = Some RetryWait then Some (s\<lparr>task := (task s)\<lparr>attempt := Some Sending\<rparr>\<rparr>)
      else None)"
| "qexec EvWake s =
     (if at_select s \<and> wake (shared s) then Some (s\<lparr>shared := on_wake (shared s), pc := AtHeld\<rparr>) else None)"
| "qexec EvDropTask s =
     (if alive s then
        (case task_drop (shared s) (task s) of (sh, t) \<Rightarrow> Some (s\<lparr>shared := sh, task := t, alive := False\<rparr>))
      else None)"

fun qrun :: "QEvent list \<Rightarrow> Sys \<Rightarrow> Sys option" where
  "qrun [] s = Some s"
| "qrun (e # es) s = (case qexec e s of Some t \<Rightarrow> qrun es t | None \<Rightarrow> None)"

lemma qexec_qstep: "qexec e s = Some t \<Longrightarrow> qstep s e t"
  by (cases e)
    (auto intro: qstep.intros split: if_splits option.splits prod.splits)

lemma qstep_qexec: "qstep s e t \<Longrightarrow> qexec e s = Some t"
  by (induction rule: qstep.induct) (auto split: option.split)

text \<open>
  The step relation is exactly the function: in particular the queue is deterministic once the
  order of the events and the answers of the sender are given.
\<close>

lemma qstep_iff_qexec: "qstep s e t \<longleftrightarrow> qexec e s = Some t"
  using qexec_qstep qstep_qexec by blast

lemma qrun_reach: "queue_reach s \<Longrightarrow> qrun es s = Some t \<Longrightarrow> queue_reach t"
  by (induction es arbitrary: s) (auto split: option.splits intro: reach_step qexec_qstep)

lemma sys_start_reach: "queue_reach (sys_start run start now)"
  by (rule reach_init) (rule sys_start_init)

lemmas qrun_from_start = qrun_reach [OF sys_start_reach]

text \<open>The equations by which a concrete run is evaluated.\<close>

lemmas queue_eval =
  sys_start_def shared_new_def task_new_def hand_over_cases hold_cases blocked_def depends_on_def
  is_started_def take_new_held_def take_one_held_def take_head_def next_head.simps on_gate_def gate_ended_def
  push_follow_def notify_one_def gate_follow_def gated_hold_def gated_after_def follows_after_def at_select_def
  attempt_round_def resendable_def on_attempt_done_def complete_def report_def progressed_def send_end_def
  insert_ended_def forget_failure_def record_failure_def task_drop_def left_entries_def bt_remove_def
  queue_drop_def stop_now_def on_wake_def final_removal_def error_wait_fired_def dep_free_def

end
