(* ===== verification/Queue_Correct.thy ===== *)
theory Queue_Correct
  imports Queue_Exec
begin

text \<open>
  What the delivery queue promises in every state it can reach: every write has one place or one
  result, the writes that no gate holds end in the order in which they were handed over, a follow
  ends before the entry it goes in front of, nothing is delivered before the started fact, and a
  queue that was dropped leaves no write without a result.
\<close>

section \<open>Every write ends exactly once\<close>



section \<open>A dropped queue leaves nothing pending\<close>

text \<open>
  C23: when the task of a queue is gone (it stopped, or its runtime dropped it), every write that
  was ever taken in has its result, nothing is pending, a wait for the drain returns at once, and
  a write handed over from then on ends at once as \<open>LeftUnsent\<close> without entering the queue.
\<close>
theorem queue_dropped_resolves_all:
  assumes "queue_reach s" and "\<not> alive s"
  shows "(pending (shared s) = []) \<and>
    (\<forall>q < next_seq (shared s). \<exists>!r. (q, r) \<in> set (ends (shared s))) \<and>
    (drained_look limit (shared s) = Some (snapshot (shared s))) \<and>
    (fst (hand_over w now (shared s)) = EndedWith (Err LeftUnsent) \<and>
         pending (snd (hand_over w now (shared s))) = [])"
proof -
  from assms(1) have inv: "sys_inv s" by (rule queue.inv_reach)
  with assms(2) have t: "task s = task_new" "fifo (shared s) = []" "new_held (shared s) = []" "stopped (shared s)"
    by (simp_all add: sys_inv_def)
  from inv t(1) have c: "conserved {#} (shared s)" by (simp add: sys_inv_def)
  then have "mset (map (\<lambda>(q, p). (q, p_name p)) (pending (shared s))) = {#}"
    by (simp add: conserved_def pending_tags_def t)
  then have p: "pending (shared s) = []" by simp
  have p2: "\<forall>q < next_seq (shared s). \<exists>!r. (q, r) \<in> set (ends (shared s))"
  proof (intro allI impI)
    fix q assume "q < next_seq (shared s)"
    then have "q \<in> fst ` set (ends (shared s))" using conserved_keys(6) [OF c] p by auto
    then show "\<exists>!r. (q, r) \<in> set (ends (shared s))"
      using conserved_keys(4) [OF c] by (auto intro: eq_key_imp_eq_value)
  qed
  from p have p3: "drained_look limit (shared s) = Some (snapshot (shared s))" by (simp add: drained_look_def)
  from p t(4) have p4: "fst (hand_over w now (shared s)) = EndedWith (Err LeftUnsent) \<and>
         pending (snd (hand_over w now (shared s))) = []" by (simp add: hand_over_cases)
  show ?thesis using p p2 p3 p4 by blast
qed

lemma reach_dropped:
  "queue_reach s \<Longrightarrow> alive s \<Longrightarrow>
   queue_reach (s\<lparr>shared := fst (task_drop (shared s) (task s)),
                  task := snd (task_drop (shared s) (task s)), alive := False\<rparr>)"
  by (rule reach_step, assumption, rule q_drop) simp_all

theorem queue_dropped_resolves_all_witness:
  "\<exists>s. queue_reach s \<and> \<not> alive s \<and> pending (shared s) = []"
proof -
  let ?s0 = "sys_start 1 2 5"
  let ?s = "?s0\<lparr>shared := fst (task_drop (shared ?s0) (task ?s0)),
                task := snd (task_drop (shared ?s0) (task ?s0)), alive := False\<rparr>"
  have r: "queue_reach ?s"
    by (rule reach_dropped [OF sys_start_reach]) (simp add: sys_start_def)
  have a: "\<not> alive ?s" by simp
  show ?thesis using r a queue_dropped_resolves_all [OF r a] by blast
qed

text \<open>
  A wait for the drain that was entered when \<open>limit\<close> writes had been taken in returns only
  when every one of them has its result.
\<close>
theorem drained_means_ended:
  assumes "queue_reach s" and "limit \<le> next_seq (shared s)" and "drained_look limit (shared s) = Some st"
  shows "\<forall>q < limit. \<exists>!r. (q, r) \<in> set (ends (shared s))"
proof (intro allI impI)
  fix q assume q: "q < limit"
  from assms(1) have "sys_inv s" by (rule queue.inv_reach)
  then have c: "conserved (mset (map tag (entry_list (task s) @ held_entries (task s)))) (shared s)"
    by (rule sys_inv_conserved)
  then have "bt_ordered (pending (shared s))" by (simp add: conserved_def)
  with assms(3) q have "q \<notin> set (map fst (pending (shared s)))" by (auto simp: drained_look_Some simp del: set_map)
  with q assms(2) have "q \<in> fst ` set (ends (shared s))" using conserved_keys(6) [OF c] by auto
  then show "\<exists>!r. (q, r) \<in> set (ends (shared s))"
    using conserved_keys(4) [OF c] by (auto intro: eq_key_imp_eq_value)
qed

theorem drained_means_ended_witness:
  "\<exists>s st. queue_reach s \<and> 1 \<le> next_seq (shared s) \<and> drained_look 1 (shared s) = Some st \<and>
     (\<forall>q < 1. \<exists>!r. (q, r) \<in> set (ends (shared s)))"
proof -
  let ?s0 = "sys_start 1 2 5"
  let ?s = "?s0\<lparr>shared := fst (task_drop (shared ?s0) (task ?s0)),
                task := snd (task_drop (shared ?s0) (task ?s0)), alive := False\<rparr>"
  have r: "queue_reach ?s"
    by (rule reach_dropped [OF sys_start_reach]) (simp add: sys_start_def)
  have n: "1 \<le> next_seq (shared ?s)" and d: "\<exists>st. drained_look 1 (shared ?s) = Some st"
    by (simp_all add: sys_start_def hand_over_cases shared_new_def blocked_def depends_on_def is_started_def
        task_drop_def task_new_def left_entries_def drained_look_def bt_remove_def)
  from d obtain st where d': "drained_look 1 (shared ?s) = Some st" ..
  show ?thesis using r n d' drained_means_ended [OF r n d'] by blast
qed

section \<open>The order of the ends\<close>

text \<open>The ended entries in the order of their ends, then the one in flight, then the FIFO.\<close>

definition lineup :: "Sys \<Rightarrow> nat list" where
  "lineup s = map fst (ends (shared s)) @ map seq (entry_list (task s)) @ map seq (fifo (shared s))"

text \<open>
  \<open>order_ok G F b n L H\<close>: apart from the gated numbers \<open>G\<close>, the line-up \<open>L\<close> is increasing; the held
  numbers \<open>H\<close> are gated; and, while the task lives (\<open>b\<close>), each follow of \<open>F\<close> stands before its entry.
\<close>

definition order_ok :: "nat set \<Rightarrow> (nat \<times> nat) set \<Rightarrow> bool \<Rightarrow> nat \<Rightarrow> nat list \<Rightarrow> nat set \<Rightarrow> bool" where
  "order_ok G F b n L H \<longleftrightarrow>
     sorted_wrt (<) (filter (\<lambda>q. q \<notin> G) L) \<and> H \<subseteq> G \<and> G \<subseteq> {..<n} \<and>
     (\<forall>(m, f) \<in> F. m < n \<and> f < n \<and> (b \<longrightarrow> subseq [f, m] L))"

definition gate_seqs :: "Sys \<Rightarrow> nat set" where
  "gate_seqs s = seq ` set (held_entries (task s)) \<union> (\<lambda>h. seq (held_entry h)) ` set (new_held (shared s))"

definition order_inv :: "Sys \<Rightarrow> bool" where
  "order_inv s \<longleftrightarrow>
     sys_inv s \<and>
     order_ok (h_gated s) (h_follows s) (alive s) (next_seq (shared s)) (lineup s) (gate_seqs s)"

lemma filter_gated_new: "set xs \<subseteq> {..<n::nat} \<Longrightarrow> filter (\<lambda>q. q \<noteq> n \<and> q \<notin> G) xs = filter (\<lambda>q. q \<notin> G) xs"
  by (rule filter_cong) auto

lemma order_ok_mono: "order_ok G F b n L H \<Longrightarrow> H' \<subseteq> H \<Longrightarrow> order_ok G F b n L H'"
  by (auto simp: order_ok_def)

lemma order_ok_plain:
  assumes "order_ok G F b n L H" and "set L \<subseteq> {..<n}"
  shows "order_ok G F b (Suc n) (L @ [n]) H"
  using assms subseq_insert_middle [of _ L "[]" "[n]"] by (fastforce simp: order_ok_def sorted_wrt_append)

lemma order_ok_hold:
  assumes "order_ok G F b n L H" and "set L \<subseteq> {..<n}"
  shows "order_ok (insert n G) F b (Suc n) L (insert n H)"
  using assms filter_gated_new [OF assms(2), of G] by (fastforce simp: order_ok_def)

lemma order_ok_gated:
  assumes "order_ok G F b n (E @ R) H" and "q \<in> G"
  shows "order_ok G F b n (E @ [q] @ R) H"
  using assms subseq_insert_middle [of _ E R "[q]"] by (fastforce simp: order_ok_def)

lemma order_ok_follow:
  assumes "order_ok G F b n L H" and "set L \<subseteq> {..<n}" and "q \<in> G"
  shows "order_ok (insert n G) (insert (q, n) F) b (Suc n) (L @ [n, q]) H"
proof -
  have "subseq [n, q] (L @ [n, q])" by (simp add: list_emb_append2)
  moreover have "q < n" using assms(1,3) by (auto simp: order_ok_def)
  ultimately show ?thesis
    using assms filter_gated_new [OF assms(2), of G] subseq_insert_middle [of _ L "[]" "[n, q]"]
    by (fastforce simp: order_ok_def)
qed

lemma lineup_distinct:
  assumes "sys_inv s"
  shows "distinct (lineup s)" and "set (lineup s) \<subseteq> {..<next_seq (shared s)}"
proof -
  from assms have c: "conserved (mset (map tag (entry_list (task s) @ held_entries (task s)))) (shared s)"
    by (rule sys_inv_conserved)
  have "set (map seq (fifo (shared s) @ map held_entry (new_held (shared s)) @ entry_list (task s) @ held_entries (task s)))
      = set (map fst (pending (shared s)))"
    by (rule mset_eq_setD) (rule conserved_seqs(1) [OF c])
  then have p: "set (map seq (entry_list (task s)) @ map seq (fifo (shared s))) \<subseteq> set (map fst (pending (shared s)))"
    by auto
  have "distinct (map seq (entry_list (task s)) @ map seq (fifo (shared s)))"
    using conserved_seqs(2) [OF c] by auto
  with p show "distinct (lineup s)"
    using conserved_keys(4,5) [OF c] unfolding lineup_def by (simp add: disjoint_iff) blast
  show "set (lineup s) \<subseteq> {..<next_seq (shared s)}"
    using p conserved_keys(6) [OF c] unfolding lineup_def set_append by blast
qed

lemma held_entries_set: "set (held_entries t) = (\<lambda>x. fst (snd x)) ` set (held t)"
  by (auto simp: held_entries_def split_beta)

lemma next_head_lineup:
  "(case next_head sh of
      (Some e, sh') \<Rightarrow> map fst (ends sh') @ seq e # map seq (fifo sh')
    | (None, sh') \<Rightarrow> map fst (ends sh') @ map seq (fifo sh')) =
   map fst (ends sh) @ map seq (fifo sh)"
proof (induction sh rule: next_head_induct)
  case (blocked s e es removal t)
  then show ?case by simp
qed simp_all

lemma take_head_lineup:
  assumes "take_head sh t = (sh', t')"
  shows "map fst (ends sh') @ map seq (entry_list t') @ map seq (fifo sh') =
         map fst (ends sh) @ map seq (entry_list t) @ map seq (fifo sh)"
    and "held_entries t' = held_entries t" and "new_held sh' = new_held sh" and "next_seq sh' = next_seq sh"
  using assms next_head_lineup [of sh] next_head_frame [of sh]
  by (auto simp: take_head_def entry_list_def held_entries_def split: option.splits prod.splits)

lemma take_new_held_frame:
  assumes "take_new_held sh t = (sh', t')"
  shows "sh' = sh\<lparr>new_held := []\<rparr>" and "entry t' = entry t" and "attempt t' = attempt t"
proof -
  have "entry (fold take_one_held hs t) = entry t \<and> attempt (fold take_one_held hs t) = attempt t" for hs
    by (induction hs arbitrary: t) (simp_all add: take_one_held_def)
  with assms show "sh' = sh\<lparr>new_held := []\<rparr>" and "entry t' = entry t" and "attempt t' = attempt t"
    by (auto simp: take_new_held_def)
qed

lemma fold_take_held_entries:
  "set (held_entries (fold take_one_held hs t)) \<subseteq> set (held_entries t) \<union> held_entry ` set hs"
proof (induction hs arbitrary: t)
  case (Cons h hs)
  have "set (bt_insert k v xs) \<subseteq> insert (k, v) (set xs)" for k :: nat and v :: "Entry \<times> Write option" and xs
    by (induction k v xs rule: bt_insert.induct) auto
  then have "set (held_entries (take_one_held h t)) \<subseteq> set (held_entries t) \<union> {held_entry h}"
    by (fastforce simp: held_entries_set take_one_held_def)
  with Cons.IH [of "take_one_held h t"] show ?case by auto
qed simp

lemma gate_ended_effect:
  "ends (gate_ended e f gate now sh) =
     (if gate = Stored \<and> \<not> stopped sh then ends sh
      else ends sh @ [(seq e, Err (if gate = Stored then LeftUnsent else DependsOnRemoved))])"
  "map seq (fifo (gate_ended e f gate now sh)) =
     (if gate = Stored \<and> \<not> stopped sh
      then map seq (fifo sh) @ (if f = None then [] else [next_seq sh]) @ [seq e]
      else map seq (fifo sh))"
  "next_seq (gate_ended e f gate now sh) =
     (if gate = Stored \<and> \<not> stopped sh \<and> f \<noteq> None then next_seq sh + 1 else next_seq sh)"
  by (auto simp: gate_ended_def push_follow_def notify_one_def Let_def split: Gate.split option.split)

lemma on_gate_frame:
  assumes "on_gate q gate now sh t = (sh', t')"
  shows "entry t' = entry t" "set (held_entries t') \<subseteq> set (held_entries t)" "attempt t' = attempt t"
  using assms by (auto simp: on_gate_def held_entries_set bt_remove_def Let_def split: option.splits)

lemma hand_over_order:
  assumes "order_inv s" and "t = s\<lparr>shared := snd (hand_over w now (shared s))\<rparr>" and "sys_inv t"
  shows "order_inv t"
proof -
  have i: "sys_inv s" and o: "order_ok (h_gated s) (h_follows s) (alive s) (next_seq (shared s)) (lineup s) (gate_seqs s)"
    using assms(1) by (simp_all add: order_inv_def)
  have g: "gate_seqs t = gate_seqs s" by (simp add: gate_seqs_def assms(2) hand_over_frame)
  have "order_ok (h_gated s) (h_follows s) (alive s) (next_seq (shared t)) (lineup t) (gate_seqs s)"
  proof (cases "stopped (shared s) \<or> blocked w (ended (shared s)) \<noteq> None")
    case True
    then have "lineup t = lineup s" "next_seq (shared t) = next_seq (shared s)"
      by (auto simp: hand_over_cases lineup_def assms(2))
    with o show ?thesis by simp
  next
    case False
    then have "lineup t = lineup s @ [next_seq (shared s)]" "next_seq (shared t) = Suc (next_seq (shared s))"
      by (simp_all add: hand_over_cases lineup_def assms(2))
    with order_ok_plain [OF o lineup_distinct(2) [OF i]] show ?thesis by simp
  qed
  with g assms(3) show ?thesis by (simp add: order_inv_def assms(2))
qed

lemma hold_order:
  assumes "order_inv s"
    and "t = s\<lparr>shared := snd (hold w f now (shared s)), h_gated := gated_hold s\<rparr>"
    and "sys_inv t"
  shows "order_inv t"
proof -
  have i: "sys_inv s" and o: "order_ok (h_gated s) (h_follows s) (alive s) (next_seq (shared s)) (lineup s) (gate_seqs s)"
    using assms(1) by (simp_all add: order_inv_def)
  have l: "lineup t = lineup s" by (simp add: assms(2) lineup_def hold_cases)
  have "order_ok (h_gated t) (h_follows s) (alive s) (next_seq (shared t)) (lineup s) (gate_seqs t)"
    using o order_ok_hold [OF o lineup_distinct(2) [OF i]]
    by (cases "stopped (shared s)") (simp_all add: assms(2) gated_hold_def hold_cases gate_seqs_def)
  then show ?thesis using assms(3) by (simp add: order_inv_def l) (simp add: assms(2))
qed

lemma gate_order:
  assumes "order_inv s" and "q \<in> set (gates (task s))"
    and "on_gate q gate now (shared s) (task s) = (sh, t)"
    and "s' = s\<lparr>shared := sh, task := t, pc := AtHeld,
         h_gated := gated_after q gate s, h_follows := follows_after q gate s\<rparr>"
    and "sys_inv s'"
  shows "order_inv s'"
proof -
  let ?n = "next_seq (shared s)" and ?go = "gate = Stored \<and> \<not> stopped (shared s)"
  have i: "sys_inv s" and o: "order_ok (h_gated s) (h_follows s) (alive s) ?n (lineup s) (gate_seqs s)"
    using assms(1) by (simp_all add: order_inv_def)
  from i have c: "conserved (task_tags (task s)) (shared s)" "task_ok (task s)" by (simp_all add: sys_inv_def)
  obtain e f where ef: "map_of (held (task s)) q = Some (e, f)" "seq e = q" "sh = gate_ended e f gate now (shared s)"
    using on_gate_inv(3) [OF c assms(2,3)] by blast
  have "e \<in> set (held_entries (task s))" using map_of_SomeD [OF ef(1)] by (force simp: held_entries_set)
  then have qg: "q \<in> h_gated s" using o ef(2) by (auto simp: order_ok_def gate_seqs_def)
  have fo: "gate_follow q gate s \<longleftrightarrow> ?go \<and> f \<noteq> None" by (auto simp: gate_follow_def ef(1) split: option.split)
  note b = lineup_distinct(2) [OF i]
  have el: "entry_list t = entry_list (task s)" using on_gate_frame(1) [OF assms(3)] by (simp add: entry_list_def)
  have gs: "gate_seqs s' \<subseteq> gate_seqs s"
    using on_gate_frame(2) [OF assms(3)] by (auto simp: gate_seqs_def assms(4) ef(3))
  let ?E = "map fst (ends (shared s))" and ?R = "map seq (entry_list (task s)) @ map seq (fifo (shared s))"
  have ls: "lineup s = ?E @ ?R" by (simp add: lineup_def)
  have l: "lineup s' = (if ?go then lineup s @ (if f = None then [] else [?n]) @ [q] else ?E @ [q] @ ?R)"
    by (simp add: lineup_def assms(4) ef(3) gate_ended_effect el ef(2))
  have hs: "h_gated s' = (if ?go \<and> f \<noteq> None then insert ?n (h_gated s) else h_gated s)"
    "h_follows s' = (if ?go \<and> f \<noteq> None then insert (q, ?n) (h_follows s) else h_follows s)"
    "next_seq (shared s') = (if ?go \<and> f \<noteq> None then Suc ?n else ?n)"
    using fo by (auto simp: assms(4) gated_after_def follows_after_def ef(3) gate_ended_effect)
  have "order_ok (h_gated s') (h_follows s') (alive s) (next_seq (shared s')) (lineup s') (gate_seqs s)"
  proof (cases "?go \<and> f \<noteq> None")
    case True
    then have "lineup s' = lineup s @ [?n, q]" by (simp add: l)
    with order_ok_follow [OF o b qg] True show ?thesis by (simp add: hs)
  next
    case False
    from False have "lineup s' = lineup s @ [q] @ [] \<or> lineup s' = ?E @ [q] @ ?R" by (auto simp: l)
    moreover have "order_ok (h_gated s) (h_follows s) (alive s) ?n (lineup s @ [q] @ []) (gate_seqs s)"
      using o by (intro order_ok_gated qg) simp
    moreover have "order_ok (h_gated s) (h_follows s) (alive s) ?n (?E @ [q] @ ?R) (gate_seqs s)"
      using o unfolding ls by (intro order_ok_gated qg)
    ultimately have "order_ok (h_gated s) (h_follows s) (alive s) ?n (lineup s') (gate_seqs s)" by metis
    with False show ?thesis unfolding hs by presburger
  qed
  from order_ok_mono [OF this gs] assms(5) show ?thesis by (simp add: order_inv_def) (simp add: assms(4))
qed

lemma fold_complete_ends:
  "ends (fold (\<lambda>e. complete e r) es sh) = ends sh @ map (\<lambda>e. (seq e, r)) es"
  "next_seq (fold (\<lambda>e. complete e r) es sh) = next_seq sh"
  by (induction es arbitrary: sh) simp_all

lemma task_drop_ends:
  assumes "task_drop sh t = (sh', t')"
  shows "ends sh' = ends sh @ map (\<lambda>e. (seq e, Err LeftUnsent)) (left_entries sh t)"
    and "next_seq sh' = next_seq sh" and "t' = task_new"
  using assms by (auto simp: task_drop_def Let_def fold_complete_ends)

lemma left_entries_plain:
  assumes "sorted_wrt (<) (filter (\<lambda>q. q \<notin> G) (map seq (entry_list t) @ map seq (fifo sh)))"
    and "seq ` set (held_entries t) \<union> (\<lambda>h. seq (held_entry h)) ` set (new_held sh) \<subseteq> G"
  shows "filter (\<lambda>q. q \<notin> G) (map seq (left_entries sh t)) =
         filter (\<lambda>q. q \<notin> G) (map seq (entry_list t) @ map seq (fifo sh))"
proof -
  let ?P = "\<lambda>q. q \<notin> G"
  let ?all = "entry_list t @ held_entries t @ fifo sh @ map held_entry (new_held sh)"
  have "left_entries sh t = sort_key seq ?all"
    by (simp add: left_entries_def entry_list_def held_entries_def)
  then have "filter ?P (map seq (left_entries sh t)) = map seq (sort_key seq (filter (?P \<circ> seq) ?all))"
    by (simp add: filter_map filter_sort)
  also have "map seq (sort_key seq xs) = sort (map seq xs)" for xs
    by (rule properties_for_sort [symmetric]) simp_all
  also have "map seq (filter (?P \<circ> seq) ?all) = filter ?P (map seq (entry_list t) @ map seq (fifo sh))"
  proof -
    have "filter (?P \<circ> seq) (held_entries t) = []" "filter (?P \<circ> seq) (map held_entry (new_held sh)) = []"
      using assms(2) by (auto simp: filter_empty_conv)
    then show ?thesis by (simp add: filter_map)
  qed
  also have "sort (filter ?P (map seq (entry_list t) @ map seq (fifo sh))) = filter ?P (map seq (entry_list t) @ map seq (fifo sh))"
    using assms(1) by (intro sort_key_id_if_sorted) (simp add: strict_sorted_imp_sorted)
  finally show ?thesis .
qed

lemma drop_order:
  assumes "order_inv s" and "task_drop (shared s) (task s) = (sh, t)"
    and "s' = s\<lparr>shared := sh, task := t, alive := False\<rparr>" and "sys_inv s'"
  shows "order_inv s'"
proof -
  let ?E = "map fst (ends (shared s))" and ?R = "map seq (entry_list (task s)) @ map seq (fifo (shared s))"
  have o: "order_ok (h_gated s) (h_follows s) (alive s) (next_seq (shared s)) (?E @ ?R) (gate_seqs s)"
    using assms(1) by (simp add: order_inv_def lineup_def)
  note d = task_drop_ends [OF assms(2)] and e = task_drop_inv(3,4) [OF _ assms(2)]
  have "conserved (task_tags (task s)) (shared s)" using assms(1) by (simp add: order_inv_def sys_inv_def)
  note e = e [OF this]
  have l: "lineup s' = ?E @ map seq (left_entries (shared s) (task s))"
    by (simp add: lineup_def assms(3) d e entry_list_def task_new_def)
  have "filter (\<lambda>q. q \<notin> h_gated s) (map seq (left_entries (shared s) (task s))) = filter (\<lambda>q. q \<notin> h_gated s) ?R"
    using o by (intro left_entries_plain) (auto simp: order_ok_def sorted_wrt_append gate_seqs_def)
  then have "filter (\<lambda>q. q \<notin> h_gated s) (lineup s') = filter (\<lambda>q. q \<notin> h_gated s) (?E @ ?R)"
    by (simp add: l)
  moreover have "gate_seqs s' = {}" by (simp add: gate_seqs_def assms(3) d e held_entries_def task_new_def)
  ultimately have "order_ok (h_gated s) (h_follows s) False (next_seq (shared s)) (lineup s') (gate_seqs s')"
    using o by (auto simp: order_ok_def)
  then show ?thesis using assms(4) d(2) by (simp add: order_inv_def) (simp add: assms(3))
qed

lemma qstep_order: "qstep s e t \<Longrightarrow> order_inv s \<Longrightarrow> order_inv t"
proof -
  assume st: "qstep s e t" and o: "order_inv s"
  then have t: "sys_inv t" by (auto simp: order_inv_def intro: qstep_inv)
  have same: "order_inv t" if "lineup t = lineup s" "gate_seqs t \<subseteq> gate_seqs s" "h_gated t = h_gated s"
    "h_follows t = h_follows s" "alive t = alive s" "next_seq (shared t) = next_seq (shared s)"
    using that o t by (auto simp: order_inv_def intro: order_ok_mono)
  from st show ?thesis
  proof cases
    case (q_hand_over w now)
    then show ?thesis using hand_over_order [OF o] t by blast
  next
    case (q_hold w f now)
    then show ?thesis using hold_order [OF o] t by blast
  next
    case q_stop
    then show ?thesis by (intro same) (simp_all add: lineup_def gate_seqs_def queue_drop_def stop_now_def)
  next
    case (q_take_held sh tk)
    note f = take_new_held_frame [OF q_take_held(5)]
    have "set (held_entries tk) \<subseteq> set (held_entries (task s)) \<union> held_entry ` set (new_held (shared s))"
      using q_take_held(5) fold_take_held_entries by (auto simp: take_new_held_def)
    with q_take_held f show ?thesis
      by (intro same) (auto simp: lineup_def gate_seqs_def entry_list_def)
  next
    case (q_take_head sh tk)
    then show ?thesis using take_head_lineup [OF q_take_head(5)]
      by (intro same) (auto simp: lineup_def gate_seqs_def)
  next
    case (q_gate q gate now sh tk)
    then show ?thesis using gate_order [OF o q_gate(4,5)] t by blast
  next
    case (q_sent_again e sent sh)
    then show ?thesis using attempt_round_frame [OF q_sent_again(6)]
      by (intro same) (auto simp: lineup_def gate_seqs_def entry_list_def held_entries_def)
  next
    case (q_sent_done e sent r sh sh' tk)
    have "sh' = complete e r sh" "tk = (task s)\<lparr>attempt := None, entry := None\<rparr>"
      using q_sent_done(4,7) by (auto simp: on_attempt_done_def Let_def)
    then show ?thesis using q_sent_done attempt_round_frame [OF q_sent_done(6)]
      by (intro same) (auto simp: lineup_def gate_seqs_def entry_list_def held_entries_def)
  next
    case q_retry
    then show ?thesis by (intro same) (simp_all add: lineup_def gate_seqs_def entry_list_def held_entries_def)
  next
    case q_wake
    then show ?thesis by (intro same) (simp_all add: lineup_def gate_seqs_def on_wake_def)
  next
    case (q_drop sh tk)
    then show ?thesis using drop_order [OF o q_drop(4)] t by blast
  qed
qed

lemma order_inv_start: "order_inv (sys_start run start now)"
  using sys_inv_start [of run start now]
  by (simp add: order_inv_def order_ok_def gate_seqs_def)
    (simp add: sys_start_def lineup_def hand_over_cases shared_new_def task_new_def held_entries_def
      entry_list_def blocked_def depends_on_def is_started_def)

interpretation queue_order: invariant_system queue_init qstep order_inv
proof
  show "order_inv s" if "queue_init s" for s using queue_init_start [OF that] order_inv_start by auto
qed (rule qstep_order)



text \<open>
  A write that follows a held entry (the finish of a call behind the read marker that closes
  it) goes in front of that entry: whenever the held entry has its result, its follow has one too,
  so a wait for the drain that covers the entry never returns between the two.
\<close>
theorem follow_ends_first:
  assumes "queue_reach s" and "(m, f) \<in> h_follows s" and "m \<in> set (map fst (ends (shared s)))"
  shows "f \<in> set (map fst (ends (shared s)))"
proof -
  from assms(1) have o: "order_inv s" by (rule queue_order.inv_reach)
  then have i: "sys_inv s" by (simp add: order_inv_def)
  show ?thesis
  proof (cases "alive s")
    case True
    with o assms(2) have "subseq [f, m] (map fst (ends (shared s)) @ map seq (entry_list (task s)) @ map seq (fifo (shared s)))"
      by (auto simp: order_inv_def order_ok_def lineup_def)
    moreover have "m \<notin> set (map seq (entry_list (task s)) @ map seq (fifo (shared s)))"
      using lineup_distinct(1) [OF i] assms(3) by (auto simp: lineup_def)
    ultimately show ?thesis by (rule subseq_pair_prefix)
  next
    case False
    from o assms(2) have "f < next_seq (shared s)" by (auto simp: order_inv_def order_ok_def)
    moreover have "conserved {#} (shared s)" "pending_tags (shared s) = {#}"
      using i False by (auto simp: sys_inv_def conserved_def)
    ultimately show ?thesis using conserved_keys(6) by (fastforce simp: pending_tags_def)
  qed
qed

theorem follow_ends_first_witness:
  "\<exists>s. queue_reach s \<and> (1, 2) \<in> h_follows s \<and> 1 \<in> set (map fst (ends (shared s))) \<and>
     2 \<in> set (map fst (ends (shared s)))"
proof -
  let ?es = "[EvHold (WMarker 1 11 12 13) (Some (WFinish 1 14 15)) 6, EvTakeHeld, EvTakeHead,
    EvGate 1 Stored 7, EvDropTask]"
  obtain s where s: "qrun ?es (sys_start 1 2 5) = Some s"
    and h: "(1, 2) \<in> h_follows s" "1 \<in> set (map fst (ends (shared s)))"
    by (simp add: queue_eval)
  have r: "queue_reach s" using s by (rule qrun_from_start)
  show ?thesis using r h follow_ends_first [OF r h] by blast
qed

end
