(* ===== verification/Queue_Started.thy ===== *)
theory Queue_Started
  imports Queue_Exec
begin

text \<open>
  The started fact goes first: it is the entry 0 of the queue, every other write waits for it, and
  a queue whose started fact was removed delivers nothing.
\<close>

definition oks :: "(nat \<times> WriteResult) list \<Rightarrow> (nat \<times> WriteResult) list" where
  "oks es = filter (\<lambda>(_, r). r = Ok ()) es"

definition client_follow :: "Write option \<Rightarrow> bool" where
  "client_follow f \<longleftrightarrow> (\<forall>v. f = Some v \<longrightarrow> \<not> is_started v)"

definition started_shared :: "Shared \<Rightarrow> bool" where
  "started_shared sh \<longleftrightarrow>
     0 < next_seq sh \<and>
     (\<forall>e \<in> set (fifo sh). is_started (e_write e) \<longleftrightarrow> seq e = 0) \<and>
     (\<forall>h \<in> set (new_held sh).
        \<not> is_started (e_write (held_entry h)) \<and> seq (held_entry h) \<noteq> 0 \<and> client_follow (follow h)) \<and>
     ended sh DStarted = map_option ended_of (map_of (ends sh) 0) \<and>
     (if ended sh DStarted = Some EDelivered then oks (ends sh) \<noteq> [] \<and> fst (hd (oks (ends sh))) = 0 else oks (ends sh) = [])"

definition started_task :: "Task \<Rightarrow> bool" where
  "started_task t \<longleftrightarrow>
     (\<forall>e. entry t = Some e \<longrightarrow> (is_started (e_write e) \<longleftrightarrow> seq e = 0)) \<and>
     (\<forall>x \<in> set (held t). \<not> is_started (e_write (fst (snd x))) \<and> seq (fst (snd x)) \<noteq> 0 \<and>
        client_follow (snd (snd x)))"

text \<open>While the started fact has no result it is in flight or at the head of the FIFO.\<close>

definition started_head :: "Shared \<Rightarrow> Task \<Rightarrow> bool" where
  "started_head sh t \<longleftrightarrow>
     (ended sh DStarted = None \<longrightarrow>
        (case entry t of
           Some e \<Rightarrow> seq e = 0
         | None \<Rightarrow> (\<exists>e es. fifo sh = e # es \<and> seq e = 0)))"

definition started_flight :: "Shared \<Rightarrow> Task \<Rightarrow> bool" where
  "started_flight sh t \<longleftrightarrow>
     (ended sh DStarted \<noteq> Some EDelivered \<longrightarrow> (\<forall>e. entry t = Some e \<longrightarrow> seq e = 0))"

definition started_inv :: "Sys \<Rightarrow> bool" where
  "started_inv s \<longleftrightarrow>
     sys_inv s \<and> started_shared (shared s) \<and> started_task (task s) \<and> started_flight (shared s) (task s) \<and>
     (alive s \<longrightarrow> started_head (shared s) (task s))"

lemma own_key_started: "own_key w = Some DStarted \<longleftrightarrow> is_started w"
  by (cases w) (simp_all add: is_started_def)

lemma ended_started_insert:
  "\<not> is_started w \<Longrightarrow> ended (insert_ended w r sh) DStarted = ended sh DStarted"
  by (simp add: ended_insert_ended own_key_started)

lemma oks_snoc [simp]: "oks (es @ [(q, r)]) = (if r = Ok () then oks es @ [(q, r)] else oks es)"
  by (simp add: oks_def)

lemma started_shared_unqueued:
  "started_shared sh \<Longrightarrow> \<not> is_started w \<Longrightarrow> started_shared (report x (insert_ended w r sh))"
  by (simp add: started_shared_def ended_started_insert)

lemma complete_removed_started:
  assumes "started_shared sh" and "\<not> is_started (e_write e)" and "seq e \<noteq> 0"
  shows "started_shared (complete e (Err x) sh)"
    and "ended (complete e (Err x) sh) DStarted = ended sh DStarted"
  using assms
  by (simp_all add: started_shared_def ended_started_insert map_add_def split: option.split)

lemma next_head_started:
  assumes "started_shared sh" and "ended sh DStarted = None \<Longrightarrow> \<exists>e es. fifo sh = e # es \<and> seq e = 0"
  shows "started_shared (snd (next_head sh)) \<and>
    (case fst (next_head sh) of
       Some e \<Rightarrow> (is_started (e_write e) \<longleftrightarrow> seq e = 0) \<and>
         (ended (snd (next_head sh)) DStarted \<noteq> Some EDelivered \<longrightarrow> seq e = 0)
     | None \<Rightarrow> ended (snd (next_head sh)) DStarted = None \<longrightarrow>
         (\<exists>e es. fifo (snd (next_head sh)) = e # es \<and> seq e = 0))"
  using assms
proof (induction sh rule: next_head_induct)
  case (free s e es)
  have e: "is_started (e_write e) \<longleftrightarrow> seq e = 0"
    using free.prems(1) free.hyps(2) by (auto simp: started_shared_def)
  have "dep_free (ended s) DStarted" if "\<not> is_started (e_write e)"
    using free.hyps(3) that by (auto simp: blocked_None depends_on_def)
  then have "ended s DStarted \<noteq> Some EDelivered \<longrightarrow> seq e = 0"
    using e free.prems(2) free.hyps(2) by (auto simp: dep_free_def)
  with e free.prems(1) free.hyps(2) show ?case by (simp add: started_shared_def)
next
  case (blocked s e es removal t)
  have "\<not> is_started (e_write e)"
    using blocked.hyps(3) by (auto simp: blocked_def depends_on_def is_started_def split: Write.splits)
  then have e: "\<not> is_started (e_write e)" "seq e \<noteq> 0"
    using blocked.prems(1) blocked.hyps(2) by (auto simp: started_shared_def)
  let ?s = "complete e (Err removal) (s\<lparr>fifo := es\<rparr>)"
  have "started_shared (s\<lparr>fifo := es\<rparr>)"
    using blocked.prems(1) blocked.hyps(2) by (simp add: started_shared_def)
  note c = complete_removed_started [OF this e, of removal]
  moreover have "ended s DStarted \<noteq> None" using e(2) blocked.prems(2) blocked.hyps(2) by auto
  ultimately show ?case by (intro blocked.IH) simp_all
qed auto

lemma hand_over_started:
  assumes "started_shared sh" and "\<not> is_started w"
  shows "started_shared (snd (hand_over w now sh))"
    and "ended (snd (hand_over w now sh)) DStarted = ended sh DStarted"
    and "\<exists>es. fifo (snd (hand_over w now sh)) = fifo sh @ es"
  using assms by (auto simp: hand_over_cases started_shared_unqueued ended_started_insert split: option.split)
    (auto simp: started_shared_def)

lemma hold_started:
  assumes "started_shared sh" and "\<not> is_started w" and "client_follow f"
  shows "started_shared (snd (hold w f now sh))"
    and "ended (snd (hold w f now sh)) DStarted = ended sh DStarted"
  using assms by (auto simp: hold_cases started_shared_unqueued ended_started_insert)
    (auto simp: started_shared_def)

lemma gate_ended_started:
  assumes "started_shared sh" and "\<not> is_started (e_write e)" and "seq e \<noteq> 0" and "client_follow f"
  shows "started_shared (gate_ended e f gate now sh)"
    and "ended (gate_ended e f gate now sh) DStarted = ended sh DStarted"
    and "\<exists>es. fifo (gate_ended e f gate now sh) = fifo sh @ es"
  using assms complete_removed_started [OF assms(1-3)]
  by (auto simp: gate_ended_def push_follow_def notify_one_def Let_def split: Gate.split option.split)
    (auto simp: started_shared_def client_follow_def)

lemma started_head_append:
  "started_head sh t \<Longrightarrow> ended sh' DStarted = ended sh DStarted \<Longrightarrow> \<exists>es. fifo sh' = fifo sh @ es \<Longrightarrow>
   entry t' = entry t \<Longrightarrow> started_head sh' t'"
  by (auto simp: started_head_def split: option.splits)

text \<open>The result of the entry in flight, and the results of the entries that the drop completes.\<close>

lemma complete_flight_started:
  assumes "started_shared sh" and "is_started (e_write e) \<longleftrightarrow> seq e = 0"
    and "r = Ok () \<Longrightarrow> ended sh DStarted \<noteq> Some EDelivered \<Longrightarrow> seq e = 0"
    and "seq e \<notin> set (map fst (ends sh))"
  shows "started_shared (complete e r sh)"
    and "ended (complete e r sh) DStarted = None \<longrightarrow> ended sh DStarted = None \<and> seq e \<noteq> 0"
proof -
  have z: "map_of (ends sh) 0 = None" if "seq e = 0" using assms(4) that by (simp add: map_of_eq_None_iff)
  then have n: "ended sh DStarted = None" if "seq e = 0" using assms(1) that by (simp add: started_shared_def)
  show "started_shared (complete e r sh)"
  proof (cases "seq e = 0")
    case True
    with assms n z show ?thesis
      by (cases r) (simp_all add: started_shared_def ended_insert_ended own_key_started map_add_def)
  next
    case False
    with assms have d: "r = Ok () \<Longrightarrow> map_of (ends sh) 0 = Some (Ok ())"
      by (auto simp: started_shared_def)
    from False assms(1,2) show ?thesis
      by (cases "r = Ok ()")
        (simp_all add: d started_shared_def ended_started_insert map_add_def split: option.split)
  qed
  show "ended (complete e r sh) DStarted = None \<longrightarrow> ended sh DStarted = None \<and> seq e \<noteq> 0"
    using assms(2) by (auto simp: ended_insert_ended own_key_started)
qed

lemma fold_left_started:
  assumes "started_shared sh" and "\<forall>e \<in> set es. is_started (e_write e) \<longleftrightarrow> seq e = 0"
    and "distinct (map seq es @ map fst (ends sh))"
  shows "started_shared (fold (\<lambda>e. complete e (Err x)) es sh)"
  using assms
proof (induction es arbitrary: sh)
  case (Cons e es)
  have "started_shared (complete e (Err x) sh)"
    using Cons.prems by (intro complete_flight_started(1)) auto
  then show ?case using Cons by simp
qed simp

lemma set_bt_insert_entry: "set (bt_insert k v xs) \<subseteq> insert (k, v) (set xs)"
  by (induction k v xs rule: bt_insert.induct) auto

lemma take_held_started:
  assumes "started_task t" and "started_shared sh" and "take_new_held sh t = (sh', t')"
  shows "started_task t'" and "started_shared sh'" and "fifo sh' = fifo sh" and "ended sh' = ended sh"
    and "entry t' = entry t"
proof -
  let ?P = "\<lambda>u. started_task u \<and> entry u = entry t"
  have "?P (fold take_one_held (new_held sh) t)"
  proof (rule fold_invariant)
    fix h u assume "h \<in> set (new_held sh)" and u: "?P u"
    then have "\<not> is_started (e_write (held_entry h)) \<and> seq (held_entry h) \<noteq> 0 \<and> client_follow (follow h)"
      using assms(2) by (simp add: started_shared_def)
    then show "?P (take_one_held h u)"
      using u set_bt_insert_entry [of "seq (held_entry h)" "(held_entry h, follow h)" "held u"]
      by (fastforce simp: started_task_def take_one_held_def)
  qed (use assms(1) in simp)
  with assms(2,3) show "started_task t'" and "started_shared sh'" and "fifo sh' = fifo sh"
    and "ended sh' = ended sh" and "entry t' = entry t"
    by (auto simp: take_new_held_def started_shared_def)
qed

lemma flight_unended:
  assumes "sys_inv s" and "e \<in> set (entry_list (task s) @ held_entries (task s) @ fifo (shared s))"
  shows "seq e \<notin> set (map fst (ends (shared s)))"
proof -
  note c = sys_inv_conserved [OF assms(1)]
  have "seq e \<in> set (map fst (pending (shared s)))"
    using mset_eq_setD [OF conserved_seqs(1) [OF c]] assms(2) by auto
  then show ?thesis using conserved_keys(5) [OF c] by blast
qed

lemma drop_started:
  assumes "sys_inv s" and "started_shared (shared s)" and "started_task (task s)"
    and "task_drop (shared s) (task s) = (sh, t)"
  shows "started_shared sh"
proof -
  let ?L = "left_entries (shared s) (task s)" and ?s1 = "(shared s)\<lparr>stopped := True, fifo := [], new_held := []\<rparr>"
  note c = sys_inv_conserved [OF assms(1)]
  have m: "mset ?L = mset (fifo (shared s) @ map held_entry (new_held (shared s)) @ entry_list (task s) @ held_entries (task s))"
    by (simp add: left_entries_def entry_list_def held_entries_def ac_simps)
  have p: "mset (map seq ?L) = mset (map fst (pending (shared s)))"
    using conserved_seqs(1) [OF c] m by (simp only: mset_map)
  have "distinct (map fst (pending (shared s)))"
    using c by (intro bt.distinct_entries) (simp add: conserved_def)
  then have "distinct (map seq ?L @ map fst (ends (shared s)))"
    using conserved_keys(4,5) [OF c] mset_eq_setD [OF p] mset_eq_imp_distinct_iff [OF p]
    unfolding distinct_append by blast
  moreover have "\<forall>e \<in> set ?L. is_started (e_write e) \<longleftrightarrow> seq e = 0"
    using assms(2,3) mset_eq_setD [OF m]
    by (auto simp: started_shared_def started_task_def entry_list_def held_entries_def split: option.splits)
  moreover have "started_shared ?s1" using assms(2) by (simp add: started_shared_def)
  ultimately have "started_shared (fold (\<lambda>e. complete e (Err LeftUnsent)) ?L ?s1)"
    by (intro fold_left_started) simp_all
  with assms(4) show ?thesis by (auto simp: task_drop_def Let_def)
qed

lemma take_head_started:
  assumes "started_inv s" and "take_head (shared s) (task s) = (sh, t)" and "alive s"
  shows "started_shared sh" and "started_task t" and "started_flight sh t" and "started_head sh t"
proof -
  from assms(1,3) have a: "started_shared (shared s)" "started_task (task s)"
    "started_flight (shared s) (task s)" "started_head (shared s) (task s)"
    by (simp_all add: started_inv_def)
  have "started_shared sh \<and> started_task t \<and> started_flight sh t \<and> started_head sh t"
  proof (cases "entry (task s)")
    case (Some e)
    then show ?thesis using a assms(2) by (simp add: take_head_def)
  next
    case None
    with a(4) have "ended (shared s) DStarted = None \<Longrightarrow> \<exists>e es. fifo (shared s) = e # es \<and> seq e = 0"
      by (simp add: started_head_def)
    note n = next_head_started [OF a(1) this]
    show ?thesis using n None a(2) assms(2)
      by (cases "next_head (shared s)"; cases "fst (next_head (shared s))")
        (auto simp: take_head_def started_task_def started_flight_def started_head_def)
  qed
  then show "started_shared sh" and "started_task t" and "started_flight sh t" and "started_head sh t" by simp_all
qed

lemma sent_done_started:
  assumes "started_inv s" and "entry (task s) = Some e"
    and "attempt_round (seq e) (e_write e) sent (shared s) = (Some r, sh)"
    and "on_attempt_done r sh (task s) = (sh', t)"
  shows "started_shared sh'" and "started_task t" and "started_flight sh' t" and "started_head sh' t"
proof -
  from assms(1) have i: "sys_inv s" and a: "started_shared (shared s)" "started_task (task s)"
    "started_flight (shared s) (task s)"
    by (simp_all add: started_inv_def)
  note f = attempt_round_frame [OF assms(3)]
  have sh: "started_shared sh" using a(1) f by (simp add: started_shared_def)
  have e: "is_started (e_write e) \<longleftrightarrow> seq e = 0" using a(2) assms(2) by (simp add: started_task_def)
  have fl: "ended sh DStarted \<noteq> Some EDelivered \<Longrightarrow> seq e = 0"
    using a(3) assms(2) f by (simp add: started_flight_def)
  have "seq e \<notin> set (map fst (ends sh))"
    using flight_unended [OF i, of e] assms(2) f by (simp add: entry_list_def del: set_map)
  note c = complete_flight_started [OF sh e fl this]
  have d: "sh' = complete e r sh" "t = (task s)\<lparr>attempt := None, entry := None\<rparr>"
    using assms(2,4) by (auto simp: on_attempt_done_def Let_def)
  with c(1) a(2) show "started_shared sh'" and "started_task t" and "started_flight sh' t"
    by (simp_all add: started_task_def started_flight_def)
  show "started_head sh' t" using c(2) [of r] fl by (auto simp: started_head_def d)
qed

lemma qstep_started: "qstep s ev t \<Longrightarrow> started_inv s \<Longrightarrow> started_inv t"
proof -
  assume st: "qstep s ev t" and inv: "started_inv s"
  from inv have i: "sys_inv s" and sh: "started_shared (shared s)" and tk: "started_task (task s)"
    and fl: "started_flight (shared s) (task s)" and hd: "alive s \<Longrightarrow> started_head (shared s) (task s)"
    by (simp_all add: started_inv_def)
  have t: "sys_inv t" using st i by (rule qstep_inv)
  have append: "started_inv t" if "started_shared (shared t)" "ended (shared t) DStarted = ended (shared s) DStarted"
    "\<exists>es. fifo (shared t) = fifo (shared s) @ es" "entry (task t) = entry (task s)" "started_task (task t)"
    "alive t = alive s"
    using that t fl hd started_head_append [of "shared s" "task s" "shared t" "task t"]
    by (auto simp: started_inv_def started_flight_def)
  from st show ?thesis
  proof cases
    case (q_hand_over w now)
    then show ?thesis using hand_over_started [OF sh q_hand_over(3)] tk by (intro append) simp_all
  next
    case (q_hold w f now)
    have "client_follow f" using q_hold(4) by (simp add: client_follow_def)
    note h = hold_started [OF sh q_hold(3) this]
    from q_hold tk h show ?thesis by (intro append) (simp_all add: hold_frame)
  next
    case q_stop
    then show ?thesis using sh tk by (intro append) (simp_all add: started_shared_def queue_drop_def stop_now_def)
  next
    case (q_take_held shr tsk)
    then show ?thesis using take_held_started [OF tk sh q_take_held(5)] by (intro append) simp_all
  next
    case (q_take_head shr tsk)
    then show ?thesis using take_head_started [OF inv q_take_head(5,3)] t by (simp add: started_inv_def)
  next
    case (q_gate q gate now shr tsk)
    from i have "conserved (task_tags (task s)) (shared s)" "task_ok (task s)" by (simp_all add: sys_inv_def)
    from on_gate_inv(3) [OF this q_gate(4,5)] obtain e f where
      ef: "map_of (held (task s)) q = Some (e, f)" "shr = gate_ended e f gate now (shared s)" by blast
    from map_of_SomeD [OF ef(1)] tk have
      "\<not> is_started (e_write e)" "seq e \<noteq> 0" "client_follow f" by (auto simp: started_task_def)
    note g = gate_ended_started [OF sh this, of gate now]
    have "started_task tsk \<and> entry tsk = entry (task s)"
      using q_gate(5) tk by (auto simp: on_gate_def started_task_def bt_remove_def Let_def split: option.splits)
    with q_gate g ef(2) show ?thesis by (intro append) simp_all
  next
    case (q_sent_again e sent shr)
    then show ?thesis using attempt_round_frame [OF q_sent_again(6)] sh tk
      by (intro append) (simp_all add: started_shared_def started_task_def)
  next
    case (q_sent_done e sent r shr sh' tsk)
    then show ?thesis using sent_done_started [OF inv q_sent_done(4,6,7)] t by (simp add: started_inv_def)
  next
    case q_retry
    then show ?thesis using sh tk by (intro append) (simp_all add: started_task_def)
  next
    case q_wake
    then show ?thesis using sh tk by (intro append) (simp_all add: started_shared_def on_wake_def)
  next
    case (q_drop shr tsk)
    then show ?thesis using drop_started [OF i sh tk q_drop(4)] task_drop_inv(2) [OF _ q_drop(4)] i t
      by (simp add: started_inv_def sys_inv_def started_task_def started_flight_def task_new_def)
  qed
qed

lemma started_inv_start: "started_inv (sys_start run start now)"
  using sys_inv_start [of run start now]
  by (simp add: started_inv_def started_task_def started_flight_def started_head_def)
    (simp add: started_shared_def oks_def sys_start_def hand_over_cases shared_new_def task_new_def
      blocked_def depends_on_def is_started_def)

interpretation queue_started: invariant_system queue_init qstep started_inv
proof
  show "started_inv s" if "queue_init s" for s using queue_init_start [OF that] started_inv_start by auto
qed (rule qstep_started)

text \<open>
  C33: the started fact goes first. In every reachable state the first write that was delivered is
  the started fact, so nothing reaches jobs before it; while the started fact has no result or
  was removed, nothing is delivered and only the started fact can be in flight.
\<close>
theorem started_goes_first:
  assumes "queue_reach s"
  shows "(filter (\<lambda>(_, r). r = Ok ()) (ends (shared s)) = (q, r) # rest \<longrightarrow> q = 0) \<and>
    (map_of (ends (shared s)) 0 \<noteq> Some (Ok ()) \<longrightarrow>
           filter (\<lambda>(_, r). r = Ok ()) (ends (shared s)) = []) \<and>
    (map_of (ends (shared s)) 0 \<noteq> Some (Ok ()) \<longrightarrow> entry (task s) = Some e \<longrightarrow>
           seq e = 0 \<and> is_started (e_write e))"
proof -
  from assms have i: "started_inv s" by (rule queue_started.inv_reach)
  then have sh: "started_shared (shared s)" by (simp add: started_inv_def)
  then have d: "ended (shared s) DStarted = Some EDelivered \<longleftrightarrow> map_of (ends (shared s)) 0 = Some (Ok ())"
    by (auto simp: started_shared_def ended_of_delivered)
  from sh have p1: "q = 0" if "filter (\<lambda>(_, r). r = Ok ()) (ends (shared s)) = (q, r) # rest"
    using that by (auto simp: started_shared_def oks_def split: if_splits)
  have p2: "filter (\<lambda>(_, r). r = Ok ()) (ends (shared s)) = []"
    if "map_of (ends (shared s)) 0 \<noteq> Some (Ok ())"
    using sh that by (simp add: started_shared_def oks_def d split: if_splits)
  have p3: "seq e = 0 \<and> is_started (e_write e)"
    if "map_of (ends (shared s)) 0 \<noteq> Some (Ok ())" and "entry (task s) = Some e"
    using i that by (simp add: started_inv_def started_flight_def started_task_def d)
  show ?thesis using p1 p2 p3 by blast
qed

theorem started_goes_first_witness:
  "\<exists>s q r rest. queue_reach s \<and>
     filter (\<lambda>(_, r). r = Ok ()) (ends (shared s)) = (q, r) # rest \<and> q = 0 \<and> rest \<noteq> []"
proof -
  let ?es = "[EvHandOver (WSavedState JNull) 6, EvTakeHeld, EvTakeHead, EvSent TimedOut, EvRetry,
    EvSent (Answered (Ok ())), EvTakeHeld, EvTakeHead, EvSent (Answered (Ok ()))]"
  obtain s q r rest where s: "qrun ?es (sys_start 1 2 5) = Some s"
    and h: "filter (\<lambda>(_, r). r = Ok ()) (ends (shared s)) = (q, r) # rest" "rest \<noteq> []"
    by (simp add: queue_eval)
  have rs: "queue_reach s" using s by (rule qrun_from_start)
  show ?thesis using rs h started_goes_first [OF rs] by blast
qed

end
