(* ===== verification/Arrival_Feed.thy ===== *)
theory Arrival_Feed
  imports Jobs_Model
begin

text \<open>
  The feeds of a Run: the sticky feed of events (\<open>feed.rs\<close>), what an arrival means
  (\<open>arrival/resolve.rs\<close>) and the feed of arrivals, which replays the unread items first and reads
  them again for every notice that ends a sync call (\<open>arrival/mod.rs\<close>). The raw feed and the query
  for the unread items are jobs': they are parameters \<open>raw\<close> and \<open>unread\<close>, functions of the state of
  the world.
\<close>

section \<open>A feed of events\<close>

record 'w Feed =
  feed_source :: 'w
  feed_ended :: "Error option"

definition feed_new :: "'w \<Rightarrow> 'w Feed" where
  "feed_new src = \<lparr>feed_source = src, feed_ended = None\<rparr>"

fun is_unreadable :: "Error \<Rightarrow> bool" where
  "is_unreadable (Unreadable _) = True"
| "is_unreadable _ = False"

definition feed_next :: "('w \<Rightarrow> ('t, Error) result \<times> 'w) \<Rightarrow> 'w Feed \<Rightarrow> ('t, Error) result \<times> 'w Feed" where
  "feed_next raw f =
     (case feed_ended f of
        Some e \<Rightarrow> (Err e, f)
      | None \<Rightarrow>
          (case raw (feed_source f) of
             (Inr event, src) \<Rightarrow> (Ok event, f\<lparr>feed_source := src\<rparr>)
           | (Inl e, src) \<Rightarrow>
               (Err e, f\<lparr>feed_source := src, feed_ended := (if is_unreadable e then None else Some e)\<rparr>)))"

primrec feed_run :: "('w \<Rightarrow> ('t, Error) result \<times> 'w) \<Rightarrow> nat \<Rightarrow> 'w Feed \<Rightarrow> ('t, Error) result list \<times> 'w Feed" where
  "feed_run raw 0 f = ([], f)"
| "feed_run raw (Suc n) f =
     (let (r, f1) = feed_next raw f; (rs, f2) = feed_run raw n f1 in (r # rs, f2))"

primrec raw_run :: "('w \<Rightarrow> ('t, Error) result \<times> 'w) \<Rightarrow> nat \<Rightarrow> 'w \<Rightarrow> ('t, Error) result list \<times> 'w" where
  "raw_run raw 0 w = ([], w)"
| "raw_run raw (Suc n) w = (let (r, w1) = raw w; (rs, w2) = raw_run raw n w1 in (r # rs, w2))"

definition fatal :: "('t, Error) result \<Rightarrow> bool" where
  "fatal r \<longleftrightarrow> (case r of Inl e \<Rightarrow> \<not> is_unreadable e | Inr _ \<Rightarrow> False)"

section \<open>Arrivals\<close>

record BadItem =
  bad_item_id :: "uuid option"
  bad_child_job_id :: "uuid option"
  bad_error :: Error

datatype Read = ReadItem UnreadItem | ReadBad BadItem

datatype Arrival =
    AItem ItemArrived
  | ASyncEnd uuid SyncEnd
  | AUnreadable "uuid option" Error

fun unread_kind :: "UnreadItem \<Rightarrow> ItemKind" where
  "unread_kind (UDirectMail _ _ _) = DirectMailItem"
| "unread_kind (UCcNotice _ _ _ _) = CcNoticeItem"
| "unread_kind (UCallNotice _) = CallNoticeItem"
| "unread_kind (UMailNotice _ _ _ _) = MailNoticeItem"
| "unread_kind (UUnknown _ _ _ _) = UnknownItem"

definition item_arrived :: "UnreadItem \<Rightarrow> ItemArrived" where
  "item_arrived i = \<lparr>arrived_address = item_address i, arrived_item_id = item_id i, arrived_kind = unread_kind i\<rparr>"

definition bad_arrival :: "BadItem \<Rightarrow> Arrival" where
  "bad_arrival b = AUnreadable (bad_child_job_id b) (bad_error b)"

definition is_run_level_notice :: "ItemArrived \<Rightarrow> bool" where
  "is_run_level_notice e \<longleftrightarrow> arrived_address e = None \<and> arrived_kind e = CallNoticeItem"

definition unreadable_end :: "uuid option \<Rightarrow> string \<Rightarrow> Arrival" where
  "unreadable_end child what = AUnreadable child (Unreadable (''the end of a sync call cannot be read: '' @ what))"

definition ended_arrival :: "CallNotice \<Rightarrow> uuid \<Rightarrow> Arrival" where
  "ended_arrival n child =
     (case notice_kind n of
        RunCompleted \<Rightarrow>
          if notice_inline n = None \<and> notice_result_ref n = None then
            unreadable_end (Some child) ''a completion with no Result''
          else ASyncEnd child (SyncCompleted (notice_inline n) (notice_result_ref n))
      | JobFailed \<Rightarrow>
          (case notice_message n of
             Some m \<Rightarrow> ASyncEnd child (SyncFailed (notice_report n) m)
           | None \<Rightarrow> unreadable_end (Some child) ''a failure with no message'')
      | JobCancelled \<Rightarrow>
          (case notice_message n of
             Some m \<Rightarrow> ASyncEnd child (SyncCancelled m)
           | None \<Rightarrow> unreadable_end (Some child) ''a cancel with no message'')
      | _ \<Rightarrow> unreadable_end (Some child) ''a notice that does not end a call'')"

definition sync_end :: "UnreadItem \<Rightarrow> Arrival option" where
  "sync_end i =
     (case i of
        UCallNotice n \<Rightarrow>
          if notice_address n \<noteq> None then None
          else if notice_kind n \<notin> {RunCompleted, JobFailed, JobCancelled} then None
          else Some (case notice_child_job_id n of
                       Some child \<Rightarrow> ended_arrival n child
                     | None \<Rightarrow> unreadable_end None ''a run-level notice with no child Job'')
      | _ \<Rightarrow> None)"

definition resolved :: "Read \<Rightarrow> ItemArrived \<Rightarrow> Arrival option" where
  "resolved r event =
     (case r of
        ReadItem i \<Rightarrow> if item_id i = arrived_item_id event then sync_end i else None
      | ReadBad b \<Rightarrow>
          if (case bad_item_id b of None \<Rightarrow> True | Some i \<Rightarrow> i = arrived_item_id event) then Some (bad_arrival b)
          else None)"

fun replay :: "Read list \<Rightarrow> Arrival list \<Rightarrow> Arrival list" where
  "replay [] buffer = buffer"
| "replay (ReadItem i # reads) buffer =
     replay reads (buffer @ [AItem (item_arrived i)] @ (case sync_end i of Some a \<Rightarrow> [a] | None \<Rightarrow> []))"
| "replay (ReadBad b # reads) buffer = replay reads (buffer @ [bad_arrival b])"

section \<open>The feed of arrivals\<close>

record ArrivalSettings =
  ack_wait :: duration
  inactivity_limit :: duration

definition arrival_settings_check :: "ArrivalSettings \<Rightarrow> (unit, Error) result" where
  "arrival_settings_check s =
     (if ack_wait s = 0 then Err (InvalidInput ''the arrival acknowledgement wait is zero'')
      else if inactivity_limit s = 0 then Err (InvalidInput ''the arrival inactivity limit is zero'')
      else Ok ())"

record 'w ArrivalFeed =
  world :: 'w
  buffer :: "Arrival list"
  resolving :: "ItemArrived option"
  feed_end :: "Error option"

definition from_raw ::
  "('w \<Rightarrow> (Read list, Error) result \<times> 'w) \<Rightarrow> 'w \<Rightarrow> ('w ArrivalFeed, Error) result" where
  "from_raw unread w =
     (case unread w of
        (Inr reads, w1) \<Rightarrow> Ok \<lparr>world = w1, buffer = replay reads [], resolving = None, feed_end = None\<rparr>
      | (Inl e, w1) \<Rightarrow>
          if is_unreadable e then
            Ok \<lparr>world = w1, buffer = [AUnreadable None e], resolving = None, feed_end = None\<rparr>
          else Err e)"

definition arrival_open ::
  "('w \<Rightarrow> (unit, Error) result \<times> 'w) \<Rightarrow> ('w \<Rightarrow> (Read list, Error) result \<times> 'w) \<Rightarrow>
   ArrivalSettings \<Rightarrow> 'w \<Rightarrow> ('w ArrivalFeed, Error) result" where
  "arrival_open open_raw unread settings w =
     (case arrival_settings_check settings of
        Inl e \<Rightarrow> Err e
      | Inr _ \<Rightarrow> (case open_raw w of (Inl e, _) \<Rightarrow> Err e | (Inr _, w1) \<Rightarrow> from_raw unread w1))"

definition arrival_resolve ::
  "('w \<Rightarrow> (Read list, Error) result \<times> 'w) \<Rightarrow> ItemArrived \<Rightarrow> 'w ArrivalFeed \<Rightarrow> 'w ArrivalFeed" where
  "arrival_resolve unread event f =
     (case unread (world f) of
        (Inr reads, w1) \<Rightarrow>
          f\<lparr>world := w1, resolving := None, buffer := buffer f @ List.map_filter (\<lambda>r. resolved r event) reads\<rparr>
      | (Inl e, w1) \<Rightarrow>
          if is_unreadable e then
            f\<lparr>world := w1, resolving := None, buffer := buffer f @ [AUnreadable None e]\<rparr>
          else f\<lparr>world := w1, resolving := None, feed_end := Some e\<rparr>)"

text \<open>
  The loop of \<open>arrival_next\<close> runs at most three times: a resolution leaves nothing to resolve, an event fills the
  buffer.
\<close>

definition loop_rank :: "'w ArrivalFeed \<Rightarrow> nat" where
  "loop_rank f = (if buffer f \<noteq> [] \<or> feed_end f \<noteq> None then 0 else if resolving f \<noteq> None then 2 else 1)"

lemma arrival_resolve_resolving: "resolving (arrival_resolve unread event f) = None"
  by (simp add: arrival_resolve_def split: prod.split sum.split)

function arrival_next ::
  "('w \<Rightarrow> (ItemArrived, Error) result \<times> 'w) \<Rightarrow> ('w \<Rightarrow> (Read list, Error) result \<times> 'w) \<Rightarrow>
   'w ArrivalFeed \<Rightarrow> (Arrival, Error) result \<times> 'w ArrivalFeed" where
  "arrival_next raw unread f =
     (case buffer f of
        a # rest \<Rightarrow> (Ok a, f\<lparr>buffer := rest\<rparr>)
      | [] \<Rightarrow>
          (case feed_end f of
             Some e \<Rightarrow> (Err e, f)
           | None \<Rightarrow>
               (case resolving f of
                  Some event \<Rightarrow> arrival_next raw unread (arrival_resolve unread event f)
                | None \<Rightarrow>
                    (case raw (world f) of
                       (Inr event, w1) \<Rightarrow>
                         arrival_next raw unread
                           (f\<lparr>world := w1, buffer := [AItem event],
                              resolving := (if is_run_level_notice event then Some event else None)\<rparr>)
                     | (Inl e, w1) \<Rightarrow>
                         if is_unreadable e then (Ok (AUnreadable None e), f\<lparr>world := w1\<rparr>)
                         else (Err e, f\<lparr>world := w1, feed_end := Some e\<rparr>)))))"
  by pat_completeness auto

termination
  by (relation "measure (\<lambda>(_, _, f). loop_rank f)")
    (simp_all add: loop_rank_def arrival_resolve_resolving)

declare arrival_next.simps [simp del]

primrec arrivals ::
  "('w \<Rightarrow> (ItemArrived, Error) result \<times> 'w) \<Rightarrow> ('w \<Rightarrow> (Read list, Error) result \<times> 'w) \<Rightarrow> nat \<Rightarrow>
   'w ArrivalFeed \<Rightarrow> (Arrival, Error) result list \<times> 'w ArrivalFeed" where
  "arrivals raw unread 0 f = ([], f)"
| "arrivals raw unread (Suc n) f =
     (let (r, f1) = arrival_next raw unread f; (rs, f2) = arrivals raw unread n f1 in (r # rs, f2))"

section \<open>What a feed of events gives\<close>

lemma feed_run_ended: "feed_ended f = Some e \<Longrightarrow> feed_run raw n f = (replicate n (Err e), f)"
  by (induction n) (simp_all add: feed_next_def)

lemma length_raw_run: "length (fst (raw_run raw n w)) = n"
  by (induction n arbitrary: w) (simp_all add: split_beta Let_def)

text \<open>
  A feed passes on what its source gives, the unreadable events included, up to the first
  other error; from then on it repeats that error and does not ask the source again.
\<close>
theorem feed_sticky:
  "let rs = fst (raw_run raw n w); good = takeWhile (\<lambda>r. \<not> fatal r) rs in
   fst (feed_run raw n (feed_new w)) = good @ replicate (n - length good) (rs ! length good) \<and>
   feed_source (snd (feed_run raw n (feed_new w))) = snd (raw_run raw (min n (Suc (length good))) w)"
proof (induction n arbitrary: w)
  case 0
  then show ?case by (simp add: feed_new_def)
next
  case (Suc n)
  obtain r w1 where r: "raw w = (r, w1)" by (cases "raw w")
  show ?case
  proof (cases "fatal r")
    case True
    then obtain e where e: "r = Err e" "\<not> is_unreadable e" by (auto simp: fatal_def split: sum.splits)
    have "feed_next raw (feed_new w) = (Err e, \<lparr>feed_source = w1, feed_ended = Some e\<rparr>)"
      by (simp add: feed_next_def feed_new_def r e)
    with r e True show ?thesis by (simp add: feed_run_ended split_beta Let_def)
  next
    case False
    then have "feed_next raw (feed_new w) = (r, feed_new w1)"
      by (auto simp: feed_next_def feed_new_def r fatal_def split: sum.splits)
    with Suc.IH [of w1] r False show ?thesis by (simp add: split_beta Let_def)
  qed
qed

section \<open>What the feed of arrivals gives\<close>

text \<open>The arrivals of one raw event: the item itself, then the ends its resolution reads.\<close>

fun expected ::
  "('w \<Rightarrow> (ItemArrived, Error) result \<times> 'w) \<Rightarrow> ('w \<Rightarrow> (Read list, Error) result \<times> 'w) \<Rightarrow> nat \<Rightarrow> 'w \<Rightarrow>
   Arrival list option" where
  "expected raw unread 0 w = Some []"
| "expected raw unread (Suc k) w =
     (case raw w of
        (Inr event, w1) \<Rightarrow>
          if is_run_level_notice event then
            (case unread w1 of
               (Inr reads, w2) \<Rightarrow>
                 map_option (\<lambda>as. AItem event # List.map_filter (\<lambda>r. resolved r event) reads @ as)
                   (expected raw unread k w2)
             | _ \<Rightarrow> None)
          else map_option (\<lambda>as. AItem event # as) (expected raw unread k w1)
      | _ \<Rightarrow> None)"

definition idle :: "'w \<Rightarrow> 'w ArrivalFeed" where
  "idle w = \<lparr>world = w, buffer = [], resolving = None, feed_end = None\<rparr>"

lemma arrivals_buffer:
  "fst (arrivals raw unread (length (buffer f) + n) f) =
   map Ok (buffer f) @ fst (arrivals raw unread n (f\<lparr>buffer := []\<rparr>))"
proof (induction "buffer f" arbitrary: f)
  case Nil
  then have b: "buffer f = []" by simp
  then have eq: "f\<lparr>buffer := []\<rparr> = f" by (cases f) simp
  show ?case unfolding eq b by simp
next
  case (Cons a b)
  from Cons(2) have "arrival_next raw unread f = (Ok a, f\<lparr>buffer := b\<rparr>)"
    by (subst arrival_next.simps) (simp flip: Cons(2))
  with Cons(1) [of "f\<lparr>buffer := b\<rparr>"] show ?case by (simp flip: Cons(2) add: split_beta Let_def)
qed

lemma arrivals_loop:
  assumes "arrival_next raw unread f = arrival_next raw unread g"
  shows "fst (arrivals raw unread n f) = fst (arrivals raw unread n g)"
  using assms by (cases n) (simp_all add: Let_def split_beta)

lemma arrivals_event:
  assumes "raw w = (Inr event, w1)"
  shows "fst (arrivals raw unread (Suc n) (idle w)) =
    Ok (AItem event) # fst (arrivals raw unread n
      ((idle w1)\<lparr>resolving := (if is_run_level_notice event then Some event else None)\<rparr>))"
proof -
  let ?f = "(idle w1)\<lparr>buffer := [AItem event], resolving := (if is_run_level_notice event then Some event else None)\<rparr>"
  have "arrival_next raw unread (idle w) = arrival_next raw unread ?f"
    by (subst arrival_next.simps) (simp add: idle_def assms)
  then have "fst (arrivals raw unread (Suc n) (idle w)) = fst (arrivals raw unread (Suc n) ?f)"
    by (rule arrivals_loop)
  also have "\<dots> = Ok (AItem event) # fst (arrivals raw unread n (?f\<lparr>buffer := []\<rparr>))"
    using arrivals_buffer [of raw unread ?f n] by simp
  finally show ?thesis by (simp add: idle_def)
qed

lemma arrivals_expected:
  "expected raw unread k w = Some as \<Longrightarrow> fst (arrivals raw unread (length as) (idle w)) = map Ok as"
proof (induction k arbitrary: w as)
  case (Suc k)
  then obtain event w1 where r: "raw w = (Inr event, w1)" by (auto split: prod.splits sum.splits)
  show ?case
  proof (cases "is_run_level_notice event")
    case False
    with Suc.prems r obtain as' where "as = AItem event # as'" "expected raw unread k w1 = Some as'" by auto
    with Suc.IH False arrivals_event [of raw w event w1 unread] r show ?thesis by (simp add: idle_def)
  next
    case True
    with Suc.prems r obtain reads w2 as' where u: "unread w1 = (Inr reads, w2)"
      and as: "as = AItem event # List.map_filter (\<lambda>r. resolved r event) reads @ as'"
      and e: "expected raw unread k w2 = Some as'"
      by (auto split: prod.splits sum.splits)
    let ?b = "List.map_filter (\<lambda>r. resolved r event) reads"
    have "arrival_next raw unread ((idle w1)\<lparr>resolving := Some event\<rparr>) =
        arrival_next raw unread ((idle w2)\<lparr>buffer := ?b\<rparr>)"
      by (subst arrival_next.simps) (simp add: idle_def arrival_resolve_def u)
    then have "fst (arrivals raw unread (length ?b + length as') ((idle w1)\<lparr>resolving := Some event\<rparr>)) =
        fst (arrivals raw unread (length ?b + length as') ((idle w2)\<lparr>buffer := ?b\<rparr>))"
      by (rule arrivals_loop)
    also have "\<dots> = map Ok ?b @ fst (arrivals raw unread (length as') (idle w2))"
      using arrivals_buffer [of raw unread "(idle w2)\<lparr>buffer := ?b\<rparr>" "length as'"] by (simp add: idle_def)
    also have "\<dots> = map Ok (?b @ as')" using Suc.IH [OF e] by simp
    finally show ?thesis using True r arrivals_event [of raw w event w1 unread "length ?b + length as'"]
      by (simp add: as del: arrivals.simps)
  qed
qed simp

lemma arrival_error_sticky:
  assumes "arrival_next raw unread f = (Err e, f')"
  shows "buffer f' = [] \<and> feed_end f' = Some e"
  using assms
proof (induction raw unread f rule: arrival_next.induct)
  case (1 raw unread f)
  from "1.prems" show ?case
    by (subst (asm) arrival_next.simps)
      (auto split: list.splits option.splits prod.splits sum.splits if_splits dest: "1.IH")
qed

lemma arrivals_ended: "buffer f = [] \<Longrightarrow> feed_end f = Some e \<Longrightarrow> arrivals raw unread n f = (replicate n (Err e), f)"
  by (induction n) (simp_all add: arrival_next.simps)


text \<open>
  The unread items that end a sync call are exactly the notices of the Run's own level that
  say completed, failed or cancelled; each ends the call of the child it names with what it
  carries, and one that lacks its child, its result or its message is given as unreadable for that
  child, never dropped and never turned into an end.
\<close>
theorem sync_end_characterised:
  "(sync_end i = Some (ASyncEnd child r) \<longleftrightarrow>
     (\<exists>n. i = UCallNotice n \<and> notice_address n = None \<and> notice_child_job_id n = Some child \<and>
       ((notice_kind n = RunCompleted \<and> (notice_inline n = None \<longrightarrow> notice_result_ref n \<noteq> None) \<and>
           r = SyncCompleted (notice_inline n) (notice_result_ref n)) \<or>
        (\<exists>m. notice_message n = Some m \<and>
           (notice_kind n = JobFailed \<and> r = SyncFailed (notice_report n) m \<or>
            notice_kind n = JobCancelled \<and> r = SyncCancelled m))))) \<and>
   (sync_end i = None \<longleftrightarrow>
     (\<forall>n. i = UCallNotice n \<longrightarrow>
        notice_address n \<noteq> None \<or> notice_kind n \<notin> {RunCompleted, JobFailed, JobCancelled})) \<and>
   (\<forall>c e. sync_end i = Some (AUnreadable c e) \<longrightarrow>
      (\<exists>n. i = UCallNotice n \<and> c = notice_child_job_id n) \<and> is_unreadable e) \<and>
   (\<forall>a. sync_end i \<noteq> Some (AItem a))"
proof (cases i)
  case (UCallNotice n)
  show ?thesis
    by (cases "notice_kind n"; cases "notice_address n"; cases "notice_child_job_id n"; cases "notice_message n")
      (auto simp: UCallNotice sync_end_def ended_arrival_def unreadable_end_def)
qed (simp_all add: sync_end_def)

text \<open>
  A world for the examples: the raw results and the answers to the query that are still to come.
\<close>

type_synonym script = "(ItemArrived, Error) result list \<times> (Read list, Error) result list"

fun script_raw :: "script \<Rightarrow> (ItemArrived, Error) result \<times> script" where
  "script_raw (r # rs, us) = (r, (rs, us))"
| "script_raw ([], us) = (Err (InfraMissing ''end''), ([], us))"

fun script_unread :: "script \<Rightarrow> (Read list, Error) result \<times> script" where
  "script_unread (rs, u # us) = (u, (rs, us))"
| "script_unread (rs, []) = (Err (InfraMissing ''end''), (rs, []))"

definition demo_notice :: CallNotice where
  "demo_notice = \<lparr>notice_item_id = 5, notice_address = None, notice_kind = JobCancelled, notice_type = None,
     notice_child_job_id = Some 7, notice_position = None, notice_message = Some ''gone'', notice_report = None,
     notice_inline = None, notice_result_ref = None\<rparr>"

definition demo_event :: ItemArrived where
  "demo_event = \<lparr>arrived_address = None, arrived_item_id = 5, arrived_kind = CallNoticeItem\<rparr>"

definition demo_script :: script where
  "demo_script = ([Ok demo_event], [Ok [], Ok [ReadItem (UCallNotice demo_notice)]])"


theorem sync_end_characterised_witness:
  "sync_end (UCallNotice demo_notice) = Some (ASyncEnd 7 (SyncCancelled ''gone''))"
  using sync_end_characterised [of "UCallNotice demo_notice" 7 "SyncCancelled ''gone''"]
  by (simp add: demo_notice_def)

end
