(* ===== verification/End_Store.thy ===== *)
theory End_Store
  imports Jobs_Model
begin

text \<open>
  The ends of child jobs and the waits for them (\<open>endwait/store.rs\<close>, \<open>endwait/mod.rs\<close>). The first
  outcome of a child stays; the loss of the arrival feed ends every wait that was open when it
  happened. A writer stores under the lock and signals the change after it let the lock go, so
  the two are separate steps here; a wait reads the store, parks and is woken by the change of the
  counter it saw. \<open>generation\<close> and the counter are \<open>u64\<close> in the source and natural numbers here.
\<close>

type_synonym Outcome = "(SyncEnd, Error) result"

section \<open>The store\<close>

record EndHeld =
  outcomes :: "uuid \<rightharpoonup> Outcome"
  kept :: "Error option"
  last_loss :: "Error option"
  generation :: nat

definition end_store_new :: EndHeld where
  "end_store_new = \<lparr>outcomes = Map.empty, kept = None, last_loss = None, generation = 0\<rparr>"

text \<open>\<open>record\<close> up to the unlock: whether the change must be signalled, and the store.\<close>

definition end_record :: "uuid \<Rightarrow> Outcome \<Rightarrow> EndHeld \<Rightarrow> bool \<times> EndHeld" where
  "end_record child outcome h =
     (case outcomes h child of
        Some _ \<Rightarrow> (False, h)
      | None \<Rightarrow> (True, h\<lparr>outcomes := (outcomes h)(child \<mapsto> outcome)\<rparr>))"

definition infra_missing :: "Error \<Rightarrow> EndHeld \<Rightarrow> EndHeld" where
  "infra_missing e h = h\<lparr>generation := generation h + 1, kept := Some e, last_loss := Some e\<rparr>"

definition reopened :: "EndHeld \<Rightarrow> EndHeld" where
  "reopened h = h\<lparr>kept := None\<rparr>"

definition feed_ended_error :: Error where
  "feed_ended_error = InfraMissing ''the arrival feed ended''"

definition end_decide :: "uuid \<Rightarrow> nat \<Rightarrow> EndHeld \<Rightarrow> Outcome option" where
  "end_decide child opened h =
     (case outcomes h child of
        Some outcome \<Rightarrow> Some outcome
      | None \<Rightarrow>
          (case kept h of
             Some e \<Rightarrow> Some (Err e)
           | None \<Rightarrow>
               if generation h \<noteq> opened then
                 Some (Err (case last_loss h of Some e \<Rightarrow> e | None \<Rightarrow> feed_ended_error))
               else None))"

section \<open>The waits\<close>

text \<open>
  The points of \<open>watch_store\<close>: before the look at the store, at \<open>changes.changed().await\<close>, returned.
\<close>

datatype WaitAt = Looking | Parked | Returned Outcome

record EndWait =
  wait_child :: uuid
  wait_generation :: nat
  wait_seen :: nat
  wait_at :: WaitAt

text \<open>
  \<open>end_held = None\<close> is a store that was dropped. \<open>owed\<close> counts the signals whose store is done and
  whose \<open>send_modify\<close> is not. \<open>h_losses\<close> is a history variable: every loss of the feed, in order.
\<close>

record EndSys =
  end_held :: "EndHeld option"
  changed :: nat
  owed :: nat
  waits :: "EndWait list"
  h_losses :: "Error list"

definition end_sys_new :: EndSys where
  "end_sys_new = \<lparr>end_held = Some end_store_new, changed = 0, owed = 0, waits = [], h_losses = []\<rparr>"

definition watching_weak :: "uuid \<Rightarrow> EndSys \<Rightarrow> EndWait" where
  "watching_weak child s =
     (case end_held s of
        Some h \<Rightarrow> \<lparr>wait_child = child, wait_generation = generation h, wait_seen = changed s, wait_at = Looking\<rparr>
      | None \<Rightarrow> \<lparr>wait_child = child, wait_generation = 0, wait_seen = 0, wait_at = Returned (Err BookDropped)\<rparr>)"

text \<open>One look of \<open>watch_store\<close> and one return of \<open>changed()\<close>.\<close>

definition watch_look :: "EndSys \<Rightarrow> EndWait \<Rightarrow> EndWait" where
  "watch_look s w =
     (case end_held s of
        None \<Rightarrow> w\<lparr>wait_at := Returned (Err BookDropped)\<rparr>
      | Some h \<Rightarrow>
          (case end_decide (wait_child w) (wait_generation w) h of
             Some outcome \<Rightarrow> w\<lparr>wait_at := Returned outcome\<rparr>
           | None \<Rightarrow> w\<lparr>wait_at := Parked\<rparr>))"

definition watch_ready :: "EndSys \<Rightarrow> EndWait \<Rightarrow> bool" where
  "watch_ready s w \<longleftrightarrow> end_held s = None \<or> changed s \<noteq> wait_seen w"

definition watch_wake :: "EndSys \<Rightarrow> EndWait \<Rightarrow> EndWait" where
  "watch_wake s w =
     (if changed s \<noteq> wait_seen w then w\<lparr>wait_seen := changed s, wait_at := Looking\<rparr>
      else w\<lparr>wait_at := Returned (Err BookDropped)\<rparr>)"

datatype EndEvent =
    EvRecord uuid Outcome
  | EvLoss Error
  | EvReopened
  | EvSignal
  | EvOpen uuid
  | EvLook nat
  | EvWoken nat
  | EvDropStore

inductive end_step :: "EndSys \<Rightarrow> EndEvent \<Rightarrow> EndSys \<Rightarrow> bool" where
  e_record: "end_held s = Some h \<Longrightarrow> end_record child outcome h = (stored, h') \<Longrightarrow>
    end_step s (EvRecord child outcome) (s\<lparr>end_held := Some h', owed := owed s + (if stored then 1 else 0)\<rparr>)"
| e_loss: "end_held s = Some h \<Longrightarrow>
    end_step s (EvLoss e) (s\<lparr>end_held := Some (infra_missing e h), owed := owed s + 1, h_losses := h_losses s @ [e]\<rparr>)"
| e_reopened: "end_held s = Some h \<Longrightarrow> end_step s EvReopened (s\<lparr>end_held := Some (reopened h)\<rparr>)"
| e_signal: "0 < owed s \<Longrightarrow> end_step s EvSignal (s\<lparr>owed := owed s - 1, changed := changed s + 1\<rparr>)"
| e_open: "end_step s (EvOpen child) (s\<lparr>waits := waits s @ [watching_weak child s]\<rparr>)"
| e_look: "i < length (waits s) \<Longrightarrow> wait_at (waits s ! i) = Looking \<Longrightarrow>
    end_step s (EvLook i) (s\<lparr>waits := (waits s)[i := watch_look s (waits s ! i)]\<rparr>)"
| e_woken: "i < length (waits s) \<Longrightarrow> wait_at (waits s ! i) = Parked \<Longrightarrow> watch_ready s (waits s ! i) \<Longrightarrow>
    end_step s (EvWoken i) (s\<lparr>waits := (waits s)[i := watch_wake s (waits s ! i)]\<rparr>)"
| e_drop: "end_held s = Some h \<Longrightarrow> owed s = 0 \<Longrightarrow> end_step s EvDropStore (s\<lparr>end_held := None\<rparr>)"

text \<open>The operations as a caller sees them: the store and the signal it owes.\<close>

definition on_store :: "(EndHeld \<Rightarrow> bool \<times> EndHeld) \<Rightarrow> EndSys \<Rightarrow> EndSys" where
  "on_store f s =
     (case end_held s of
        None \<Rightarrow> s
      | Some h \<Rightarrow>
          (case f h of (stored, h') \<Rightarrow>
             s\<lparr>end_held := Some h', changed := changed s + (if stored then 1 else 0)\<rparr>))"

definition ends_record :: "uuid \<Rightarrow> Outcome \<Rightarrow> EndSys \<Rightarrow> EndSys" where
  "ends_record child outcome s = on_store (end_record child outcome) s"

definition ends_infra_missing :: "Error \<Rightarrow> EndSys \<Rightarrow> EndSys" where
  "ends_infra_missing e s =
     (if end_held s = None then s
      else (on_store (\<lambda>h. (True, infra_missing e h)) s)\<lparr>h_losses := h_losses s @ [e]\<rparr>)"

definition ends_reopened :: "EndSys \<Rightarrow> EndSys" where
  "ends_reopened s = on_store (\<lambda>h. (False, reopened h)) s"

definition ends_kept :: "EndSys \<Rightarrow> Error option" where
  "ends_kept s = (case end_held s of Some h \<Rightarrow> kept h | None \<Rightarrow> None)"

inductive_cases end_stepE: "end_step s e t"

abbreviation end_reach :: "EndSys \<Rightarrow> bool" where
  "end_reach \<equiv> reach (\<lambda>s. s = end_sys_new) end_step"

lemmas end_defs = end_record_def infra_missing_def reopened_def watching_weak_def watch_look_def watch_wake_def

section \<open>The invariant\<close>

text \<open>What the fields of the store say of the losses.\<close>

definition losses_ok :: "EndSys \<Rightarrow> bool" where
  "losses_ok s \<longleftrightarrow>
     (\<forall>h. end_held s = Some h \<longrightarrow>
        generation h = length (h_losses s) \<and>
        last_loss h = (if h_losses s = [] then None else Some (last (h_losses s))) \<and>
        (kept h = None \<or> kept h = last_loss h))"

definition wait_ok :: "EndSys \<Rightarrow> EndWait \<Rightarrow> bool" where
  "wait_ok s w \<longleftrightarrow>
     wait_seen w \<le> changed s \<and> wait_generation w \<le> length (h_losses s) \<and>
     (wait_at w = Parked \<longrightarrow>
        (\<forall>h. end_held s = Some h \<longrightarrow>
           end_decide (wait_child w) (wait_generation w) h = None \<or> wait_seen w < changed s \<or> 0 < owed s)) \<and>
     (\<forall>r. wait_at w = Returned r \<longrightarrow>
        r = Err BookDropped \<or> (\<exists>e \<in> set (h_losses s). r = Err e) \<or>
        (\<forall>h. end_held s = Some h \<longrightarrow> outcomes h (wait_child w) = Some r))"

definition end_inv :: "EndSys \<Rightarrow> bool" where
  "end_inv s \<longleftrightarrow> losses_ok s \<and> (\<forall>w \<in> set (waits s). wait_ok s w)"

lemma end_decide_None:
  "end_decide child g h = None \<longleftrightarrow> outcomes h child = None \<and> kept h = None \<and> generation h = g"
  by (auto simp: end_decide_def split: option.splits)

lemma end_decide_Some:
  assumes "losses_ok s" and "end_held s = Some h" and "g \<le> length (h_losses s)"
    and "end_decide child g h = Some r"
  shows "outcomes h child = Some r \<or> (\<exists>e \<in> set (h_losses s). r = Err e)"
  using assms by (auto simp: end_decide_def losses_ok_def split: option.splits if_splits)

text \<open>The steps that leave the waits alone keep what is known of each of them.\<close>

lemma wait_ok_later:
  assumes "wait_ok s w" and "changed s \<le> changed t" and "\<exists>es. h_losses t = h_losses s @ es"
    and "\<And>h'. end_held t = Some h' \<Longrightarrow> \<exists>h. end_held s = Some h \<and> outcomes h \<subseteq>\<^sub>m outcomes h' \<and>
           (end_decide (wait_child w) (wait_generation w) h = None \<longrightarrow>
              end_decide (wait_child w) (wait_generation w) h' = None \<or> 0 < owed t) \<and>
           (0 < owed s \<longrightarrow> changed s < changed t \<or> 0 < owed t)"
  shows "wait_ok t w"
proof -
  have "\<exists>h. end_held s = Some h \<and> outcomes h \<subseteq>\<^sub>m outcomes h'" if "end_held t = Some h'" for h'
    using assms(4) [OF that] by blast
  then have "r = Err BookDropped \<or> (\<exists>e \<in> set (h_losses t). r = Err e) \<or>
      (\<forall>h. end_held t = Some h \<longrightarrow> outcomes h (wait_child w) = Some r)" if "wait_at w = Returned r" for r
    using assms(1,3) that by (fastforce simp: wait_ok_def map_le_def dom_def)
  moreover have "end_decide (wait_child w) (wait_generation w) h' = None \<or> wait_seen w < changed t \<or> 0 < owed t"
    if "wait_at w = Parked" and "end_held t = Some h'" for h'
    using assms(1,2) assms(4) [OF that(2)] that(1) by (fastforce simp: wait_ok_def)
  moreover have "wait_seen w \<le> changed t" "wait_generation w \<le> length (h_losses t)"
    using assms(1-3) by (auto simp: wait_ok_def)
  ultimately show ?thesis by (simp add: wait_ok_def)
qed

lemma end_inv_later:
  assumes "end_inv s" and "waits t = waits s" and "losses_ok t" and "changed s \<le> changed t"
    and "\<exists>es. h_losses t = h_losses s @ es"
    and "\<And>h' (w :: EndWait). end_held t = Some h' \<Longrightarrow> \<exists>h. end_held s = Some h \<and> outcomes h \<subseteq>\<^sub>m outcomes h' \<and>
           (end_decide (wait_child w) (wait_generation w) h = None \<longrightarrow>
              end_decide (wait_child w) (wait_generation w) h' = None \<or> 0 < owed t) \<and>
           (0 < owed s \<longrightarrow> changed s < changed t \<or> 0 < owed t)"
  shows "end_inv t"
proof -
  have "wait_ok t w" if "w \<in> set (waits s)" for w
  proof (rule wait_ok_later [OF _ assms(4,5)])
    show "wait_ok s w" using assms(1) that by (simp add: end_inv_def)
  qed (rule assms(6))
  with assms(2,3) show ?thesis by (simp add: end_inv_def)
qed

lemma end_inv_waits:
  assumes "end_inv s" and "t = s\<lparr>waits := ws\<rparr>" and "\<And>w. w \<in> set ws \<Longrightarrow> w \<in> set (waits s) \<or> wait_ok s w"
  shows "end_inv t"
proof -
  have "wait_ok t w = wait_ok s w" for w by (simp add: assms(2) wait_ok_def)
  with assms show ?thesis by (auto simp: end_inv_def losses_ok_def)
qed

lemma watch_look_ok: "end_inv s \<Longrightarrow> wait_ok s w \<Longrightarrow> wait_ok s (watch_look s w)"
  using end_decide_Some [of s _ "wait_generation w" "wait_child w"]
  by (auto simp: watch_look_def end_inv_def wait_ok_def split: option.split)

lemma watch_wake_ok: "wait_ok s w \<Longrightarrow> wait_ok s (watch_wake s w)"
  by (simp add: watch_wake_def wait_ok_def)

lemma watching_weak_ok: "end_inv s \<Longrightarrow> wait_ok s (watching_weak child s)"
  by (auto simp: watching_weak_def wait_ok_def end_inv_def losses_ok_def split: option.split)

lemma end_step_inv: "end_step s e t \<Longrightarrow> end_inv s \<Longrightarrow> end_inv t"
proof -
  assume st: "end_step s e t" and i: "end_inv s"
  from i have l: "losses_ok s" by (simp add: end_inv_def)
  from st show ?thesis
  proof cases
    case (e_record h child outcome stored h')
    with l have "losses_ok t" by (auto simp: losses_ok_def end_record_def split: option.splits)
    with i e_record show ?thesis
      by (intro end_inv_later [OF i])
        (auto simp: end_record_def map_le_def split: option.splits if_splits)
  next
    case (e_loss h e)
    with l have "losses_ok t" by (auto simp: losses_ok_def infra_missing_def)
    with i e_loss show ?thesis by (intro end_inv_later [OF i]) (auto simp: infra_missing_def)
  next
    case (e_reopened h)
    with l have "losses_ok t" by (auto simp: losses_ok_def reopened_def)
    with i e_reopened show ?thesis
      by (intro end_inv_later [OF i]) (auto simp: reopened_def end_decide_None)
  next
    case e_signal
    with l have "losses_ok t" by (auto simp: losses_ok_def)
    with i e_signal show ?thesis by (intro end_inv_later [OF i]) auto
  next
    case (e_open child)
    then show ?thesis by (intro end_inv_waits [OF i]) (auto simp: watching_weak_ok [OF i])
  next
    case (e_look j)
    then have "wait_ok s (waits s ! j)" using i by (simp add: end_inv_def)
    from watch_look_ok [OF i this] e_look show ?thesis
      by (intro end_inv_waits [OF i e_look(2)]) (auto dest: set_update_subset_insert [THEN subsetD])
  next
    case (e_woken j)
    then have "wait_ok s (waits s ! j)" using i by (simp add: end_inv_def)
    from watch_wake_ok [OF this] e_woken show ?thesis
      by (intro end_inv_waits [OF i e_woken(2)]) (auto dest: set_update_subset_insert [THEN subsetD])
  next
    case (e_drop h)
    with l have "losses_ok t" by (auto simp: losses_ok_def)
    with i e_drop show ?thesis by (intro end_inv_later [OF i]) auto
  qed
qed

interpretation end_store: invariant_system "\<lambda>s. s = end_sys_new" end_step end_inv
proof
  show "end_inv s" if "s = end_sys_new" for s
    using that by (simp add: end_inv_def losses_ok_def end_sys_new_def end_store_new_def)
qed (rule end_step_inv)

text \<open>A caller's operation is a run of the steps, so what every reachable state promises holds after it.\<close>

lemma signalled_reach:
  assumes "end_reach s" and "end_step s e (t\<lparr>owed := owed s + 1\<rparr>)" and "changed t = changed s" and "owed t = owed s"
  shows "end_reach (t\<lparr>changed := changed s + 1\<rparr>)"
proof -
  let ?u = "t\<lparr>owed := owed s + 1\<rparr>"
  have "end_step ?u EvSignal (?u\<lparr>owed := owed ?u - 1, changed := changed ?u + 1\<rparr>)" by (rule e_signal) simp
  moreover have "?u\<lparr>owed := owed ?u - 1, changed := changed ?u + 1\<rparr> = t\<lparr>changed := changed s + 1\<rparr>"
    using assms(3,4) by (cases t) simp
  ultimately show ?thesis using reach_step [OF assms(1,2)] by (auto intro: reach_step)
qed

lemma ends_record_reach: "end_reach s \<Longrightarrow> end_reach (ends_record child outcome s)"
proof (cases "end_held s")
  case (Some h)
  assume r: "end_reach s"
  obtain stored h' where e: "end_record child outcome h = (stored, h')" by (cases "end_record child outcome h")
  note st = e_record [OF Some e]
  show ?thesis
  proof (cases stored)
    case True
    with st have "end_step s (EvRecord child outcome) (s\<lparr>end_held := Some h', owed := owed s + 1\<rparr>)" by simp
    then have "end_step s (EvRecord child outcome) ((s\<lparr>end_held := Some h'\<rparr>)\<lparr>owed := owed s + 1\<rparr>)" by simp
    from signalled_reach [OF r this] True e Some show ?thesis by (simp add: ends_record_def on_store_def)
  next
    case False
    with st r e Some show ?thesis using reach_step [OF r st] by (simp add: ends_record_def on_store_def)
  qed
qed (simp add: ends_record_def on_store_def)

lemma ends_infra_missing_reach: "end_reach s \<Longrightarrow> end_reach (ends_infra_missing e s)"
proof (cases "end_held s")
  case (Some h)
  assume r: "end_reach s"
  let ?t = "s\<lparr>end_held := Some (infra_missing e h), h_losses := h_losses s @ [e]\<rparr>"
  have "?t\<lparr>owed := owed s + 1\<rparr> =
      s\<lparr>end_held := Some (infra_missing e h), owed := owed s + 1, h_losses := h_losses s @ [e]\<rparr>"
    by (cases s) simp
  with e_loss [OF Some, of e] have "end_step s (EvLoss e) (?t\<lparr>owed := owed s + 1\<rparr>)" by (simp only:)
  from signalled_reach [OF r this] have "end_reach (?t\<lparr>changed := changed s + 1\<rparr>)" by simp
  moreover have "ends_infra_missing e s = ?t\<lparr>changed := changed s + 1\<rparr>"
    using Some by (cases s) (simp add: ends_infra_missing_def on_store_def)
  ultimately show ?thesis by (simp only:)
qed (simp add: ends_infra_missing_def)

lemma ends_reopened_reach: "end_reach s \<Longrightarrow> end_reach (ends_reopened s)"
proof (cases "end_held s")
  case (Some h)
  assume "end_reach s"
  from reach_step [of _ end_step, OF this e_reopened [OF Some]] Some show ?thesis
    by (simp add: ends_reopened_def on_store_def)
qed (simp add: ends_reopened_def on_store_def)

section \<open>What the waits promise\<close>

lemma outcome_stays_step:
  "end_step s e t \<Longrightarrow> end_held s = Some h \<Longrightarrow> outcomes h child = Some r \<Longrightarrow> end_held t = Some h' \<Longrightarrow>
   outcomes h' child = Some r"
  by (auto elim!: end_stepE simp: end_record_def infra_missing_def reopened_def split: option.splits)

text \<open>
  C24: no wake-up is lost. In every reachable state, whatever the interleaving of the writers that
  store and signal, of the losses and reopenings of the feed and of the waits, a wait that is
  parked although the store could now answer it is going to be woken: the counter has moved since
  the wait saw it, or a signal is still owed and will move it. When it then looks and the store
  still answers, it returns that answer.
\<close>
theorem end_wait_no_lost_wakeup:
  assumes "end_reach s" and "w \<in> set (waits s)" and "wait_at w = Parked" and "end_held s = Some h"
    and "end_decide (wait_child w) (wait_generation w) h = Some r"
  shows "(wait_seen w < changed s \<or> 0 < owed s) \<and>
    (wait_seen w < changed s \<longrightarrow> watch_ready s w \<and> wait_at (watch_look s (watch_wake s w)) = Returned r)"
proof -
  from assms(1) have "end_inv s" by (rule end_store.inv_reach)
  with assms(2) have "wait_ok s w" by (simp add: end_inv_def)
  with assms(3-5) have "wait_seen w < changed s \<or> 0 < owed s" by (auto simp: wait_ok_def)
  moreover have "watch_ready s w \<and> wait_at (watch_look s (watch_wake s w)) = Returned r"
    if "wait_seen w < changed s"
    using that assms(4,5) by (simp add: watch_ready_def watch_wake_def watch_look_def)
  ultimately show ?thesis by auto
qed

text \<open>
  A wait returns what really happened. In every reachable state a wait that returned gave
  the first outcome that was recorded for its child (which is still the recorded one, so two waits
  on a child never disagree), a loss of the feed that was really reported, or, when the store is
  gone, \<open>BookDropped\<close>; the made-up text for an unknown loss is never given.
\<close>
theorem end_wait_result:
  assumes "end_reach s" and "w \<in> set (waits s)" and "wait_at w = Returned r" and "end_held s = Some h"
  shows "outcomes h (wait_child w) = Some r \<or> (\<exists>e \<in> set (h_losses s). r = Err e) \<or> r = Err BookDropped"
proof -
  from assms(1) have "end_inv s" by (rule end_store.inv_reach)
  with assms(2) have "wait_ok s w" by (simp add: end_inv_def)
  with assms(3,4) show ?thesis by (auto simp: wait_ok_def)
qed

text \<open>A run to the state in which a wait opened before a loss and an end is woken and returns.\<close>

lemma end_step_runs:
  assumes "end_reach s" and "end_step s e t"
  shows "end_reach t"
  using assms by (rule reach_step)

definition parked_demo :: EndSys where
  "parked_demo = \<lparr>end_held = Some \<lparr>outcomes = [7 \<mapsto> Err feed_ended_error], kept = None, last_loss = None, generation = 0\<rparr>,
     changed = 0, owed = 1,
     waits = [\<lparr>wait_child = 7, wait_generation = 0, wait_seen = 0, wait_at = Parked\<rparr>], h_losses = []\<rparr>"

lemma parked_demo_reach: "end_reach parked_demo"
proof -
  let ?w = "\<lparr>wait_child = 7, wait_generation = 0, wait_seen = 0, wait_at = Looking\<rparr>"
  let ?s1 = "end_sys_new\<lparr>waits := [?w]\<rparr>"
  have "end_step end_sys_new (EvOpen 7) ?s1"
    using e_open [of end_sys_new 7] by (simp add: end_sys_new_def watching_weak_def end_store_new_def)
  then have "end_reach ?s1" by (rule end_step_runs [OF reach_init, rotated]) simp
  moreover have "end_step ?s1 (EvLook 0) (?s1\<lparr>waits := [?w\<lparr>wait_at := Parked\<rparr>]\<rparr>)"
    using e_look [of 0 ?s1] by (simp add: end_sys_new_def watch_look_def end_store_new_def end_decide_def)
  ultimately have r: "end_reach (?s1\<lparr>waits := [?w\<lparr>wait_at := Parked\<rparr>]\<rparr>)" by (rule end_step_runs)
  have "end_step (?s1\<lparr>waits := [?w\<lparr>wait_at := Parked\<rparr>]\<rparr>) (EvRecord 7 (Err feed_ended_error)) parked_demo"
    using e_record [of "?s1\<lparr>waits := [?w\<lparr>wait_at := Parked\<rparr>]\<rparr>" end_store_new 7 "Err feed_ended_error" True
        "end_store_new\<lparr>outcomes := [7 \<mapsto> Err feed_ended_error]\<rparr>"]
    by (simp add: end_sys_new_def end_store_new_def end_record_def parked_demo_def)
  with r show ?thesis by (rule end_step_runs)
qed

theorem end_wait_no_lost_wakeup_witness:
  "end_reach parked_demo \<and> wait_at (hd (waits parked_demo)) = Parked \<and>
   (wait_seen (hd (waits parked_demo)) < changed parked_demo \<or> 0 < owed parked_demo)"
proof -
  let ?w = "hd (waits parked_demo)"
  let ?h = "the (end_held parked_demo)"
  have "?w \<in> set (waits parked_demo)" "wait_at ?w = Parked" "end_held parked_demo = Some ?h"
    "end_decide (wait_child ?w) (wait_generation ?w) ?h = Some (Err feed_ended_error)"
    by (simp_all add: parked_demo_def end_decide_def)
  note h = this
  show ?thesis using end_wait_no_lost_wakeup [OF parked_demo_reach h] h(2) parked_demo_reach by (intro conjI) simp_all
qed

definition returned_demo :: EndSys where
  "returned_demo = parked_demo\<lparr>owed := 0, changed := 1,
     waits := [\<lparr>wait_child = 7, wait_generation = 0, wait_seen = 1, wait_at = Returned (Err feed_ended_error)\<rparr>]\<rparr>"

lemma returned_demo_reach: "end_reach returned_demo"
proof -
  let ?w = "\<lparr>wait_child = 7, wait_generation = 0, wait_seen = 1, wait_at = Looking\<rparr>"
  let ?s1 = "parked_demo\<lparr>owed := 0, changed := 1\<rparr>" and ?s2 = "parked_demo\<lparr>owed := 0, changed := 1, waits := [?w]\<rparr>"
  have "end_step parked_demo EvSignal ?s1" using e_signal [of parked_demo] by (simp add: parked_demo_def)
  with parked_demo_reach have "end_reach ?s1" by (rule end_step_runs)
  moreover have "end_step ?s1 (EvWoken 0) ?s2"
    using e_woken [of 0 ?s1] by (simp add: parked_demo_def watch_ready_def watch_wake_def)
  ultimately have "end_reach ?s2" by (rule end_step_runs)
  moreover have "end_step ?s2 (EvLook 0) returned_demo"
    using e_look [of 0 ?s2] by (simp add: parked_demo_def returned_demo_def watch_look_def end_decide_def)
  ultimately show ?thesis by (rule end_step_runs)
qed

theorem end_wait_result_witness:
  "\<exists>h. end_held returned_demo = Some h \<and> end_reach returned_demo \<and>
     (outcomes h 7 = Some (Err feed_ended_error) \<or> (\<exists>e \<in> set (h_losses returned_demo). Err feed_ended_error = (Err e :: Outcome)) \<or>
      (Err feed_ended_error :: Outcome) = Err BookDropped)"
proof -
  let ?w = "hd (waits returned_demo)"
  let ?h = "the (end_held returned_demo)"
  have h: "?w \<in> set (waits returned_demo)" "wait_at ?w = Returned (Err feed_ended_error)" "end_held returned_demo = Some ?h"
    "wait_child ?w = 7"
    by (simp_all add: returned_demo_def parked_demo_def)
  show ?thesis using end_wait_result [OF returned_demo_reach h(1-3)] h returned_demo_reach by metis
qed

end
