(* ===== verification/Agent_Book.thy ===== *)
theory Agent_Book
  imports Queue_Shared End_Store Arrival_Feed
begin

text \<open>
  The agent book of a Work (\<open>book/agents.rs\<close>, \<open>book/inbox.rs\<close>, \<open>book/inbox_access.rs\<close>,
  \<open>book/mod.rs\<close>): the agents by key and by id, what of their inboxes was listed, taken and marked,
  the watchers of arriving items, and the ends of sync calls. Each operation runs under the locks
  it takes and is one step. The registrations go to the delivery queue, whose state is passed along.
  The uuid crate is outside: whether an id is a UUIDv7 of the RFC variant is the parameter \<open>v7\<close>, and
  \<open>Uuid::now_v7()\<close> is an argument.
\<close>

section \<open>The agents\<close>

record AgentKey =
  node :: string
  label :: string

record RestoredAgent =
  restored_key :: AgentKey
  restored_agent_id :: uuid
  restored_has_inbox :: bool

record BookedAgent =
  booked_key :: AgentKey
  booked_agent_id :: uuid
  booked_has_inbox :: bool

record BookedAgentRef =
  ref_agent_id :: uuid

record Slot =
  slot_agent_id :: uuid
  slot_has_inbox :: bool
  slot_registration :: WriteEnd

definition slot_reference :: "Slot \<Rightarrow> BookedAgentRef" where
  "slot_reference s = \<lparr>ref_agent_id = slot_agent_id s\<rparr>"

record Agents =
  agent_order :: "AgentKey list"
  by_key :: "AgentKey \<rightharpoonup> Slot"
  by_id :: "uuid \<rightharpoonup> AgentKey"
  restored_ids :: "uuid set"

definition agents_default :: Agents where
  "agents_default = \<lparr>agent_order = [], by_key = Map.empty, by_id = Map.empty, restored_ids = {}\<rparr>"

definition agents_find :: "AgentKey \<Rightarrow> Agents \<Rightarrow> BookedAgentRef option" where
  "agents_find key a = map_option slot_reference (by_key a key)"

definition agents_add :: "AgentKey \<Rightarrow> uuid \<Rightarrow> bool \<Rightarrow> WriteEnd \<Rightarrow> Agents \<Rightarrow> BookedAgentRef \<times> Agents" where
  "agents_add key agent has_inbox registration a =
     (let slot = \<lparr>slot_agent_id = agent, slot_has_inbox = has_inbox, slot_registration = registration\<rparr> in
      (slot_reference slot,
       a\<lparr>agent_order := agent_order a @ [key],
         by_id := (by_id a)(agent \<mapsto> key),
         by_key := (by_key a)(key \<mapsto> slot)\<rparr>))"

definition slot_of :: "uuid \<Rightarrow> Agents \<Rightarrow> Slot option" where
  "slot_of agent a = Option.bind (by_id a agent) (by_key a)"

definition agents_key_of :: "uuid \<Rightarrow> Agents \<Rightarrow> AgentKey option" where
  "agents_key_of agent a = by_id a agent"

definition mark_restored :: "uuid \<Rightarrow> Agents \<Rightarrow> Agents" where
  "mark_restored agent a = a\<lparr>restored_ids := insert agent (restored_ids a)\<rparr>"

definition is_restored :: "uuid \<Rightarrow> Agents \<Rightarrow> bool" where
  "is_restored agent a \<longleftrightarrow> agent \<in> restored_ids a"

definition agents_holds_inbox :: "uuid \<Rightarrow> Agents \<Rightarrow> bool" where
  "agents_holds_inbox agent a = (case slot_of agent a of Some s \<Rightarrow> slot_has_inbox s | None \<Rightarrow> False)"

definition agents_registration :: "uuid \<Rightarrow> Agents \<Rightarrow> WriteEnd option" where
  "agents_registration agent a = map_option slot_registration (slot_of agent a)"

definition agents_listed :: "Agents \<Rightarrow> BookedAgent list" where
  "agents_listed a =
     List.map_filter
       (\<lambda>key. map_option (\<lambda>s. \<lparr>booked_key = key, booked_agent_id = slot_agent_id s,
                             booked_has_inbox = slot_has_inbox s\<rparr>) (by_key a key))
       (agent_order a)"

section \<open>The inboxes\<close>

datatype EntryKind = EkDirectMail | EkCcNotice | EkCallNotice CallNoticeKind | EkMailNotice | EkUnknown

record MailEntry =
  entry_item_id :: uuid
  entry_child_job_id :: "uuid option"
  entry_kind :: EntryKind

record Recipients =
  rec_to :: "uuid list"
  rec_cc :: "uuid list"

datatype Wake = WakeItem ItemArrived | WakeFeedEnded Error | WakeBookDropped

text \<open>
  The unbounded channels of the watchers are named by numbers: \<open>sent c\<close> is what was sent on the
  channel \<open>c\<close>, \<open>closed\<close> are the channels whose receiver is gone.
\<close>

record Inbox =
  in_listed :: "uuid \<times> uuid \<rightharpoonup> MailEntry"
  taken :: "uuid set"
  marked :: "uuid \<rightharpoonup> uuid set"
  snapshots :: "uuid \<rightharpoonup> UnreadItem list"
  recipients :: "uuid \<rightharpoonup> Recipients"
  watchers :: "(uuid \<times> nat) list"
  sent :: "nat \<Rightarrow> Wake list"
  closed :: "nat set"
  next_channel :: nat

definition inbox_default :: Inbox where
  "inbox_default = \<lparr>in_listed = Map.empty, taken = {}, marked = Map.empty, snapshots = Map.empty,
     recipients = Map.empty, watchers = [], sent = (\<lambda>_. []), closed = {}, next_channel = 0\<rparr>"

definition record_listed :: "uuid \<Rightarrow> uuid \<Rightarrow> MailEntry \<Rightarrow> Inbox \<Rightarrow> Inbox" where
  "record_listed agent entry e i = i\<lparr>in_listed := (in_listed i)((agent, entry) \<mapsto> e)\<rparr>"

definition inbox_listed :: "uuid \<Rightarrow> uuid \<Rightarrow> Inbox \<Rightarrow> MailEntry option" where
  "inbox_listed agent entry i = in_listed i (agent, entry)"

definition take_mail :: "uuid \<Rightarrow> Inbox \<Rightarrow> bool \<times> Inbox" where
  "take_mail m i = (m \<notin> taken i, i\<lparr>taken := insert m (taken i)\<rparr>)"

definition marked_items :: "uuid \<Rightarrow> Inbox \<Rightarrow> uuid set" where
  "marked_items agent i = (case marked i agent of Some items \<Rightarrow> items | None \<Rightarrow> {})"

definition mark :: "uuid \<Rightarrow> uuid \<Rightarrow> Inbox \<Rightarrow> bool \<times> Inbox" where
  "mark agent item i =
     (item \<notin> marked_items agent i, i\<lparr>marked := (marked i)(agent \<mapsto> insert item (marked_items agent i))\<rparr>)"

definition keep_snapshot :: "uuid \<Rightarrow> UnreadItem list \<Rightarrow> Inbox \<Rightarrow> Inbox" where
  "keep_snapshot agent items i = i\<lparr>snapshots := (snapshots i)(agent \<mapsto> items)\<rparr>"

definition inbox_snapshot :: "uuid \<Rightarrow> Inbox \<Rightarrow> UnreadItem list option" where
  "inbox_snapshot agent i = snapshots i agent"

definition drop_snapshot :: "uuid \<Rightarrow> Inbox \<Rightarrow> Inbox" where
  "drop_snapshot agent i = i\<lparr>snapshots := (snapshots i)(agent := None)\<rparr>"

definition keep_recipients :: "uuid \<Rightarrow> Recipients \<Rightarrow> Inbox \<Rightarrow> Inbox" where
  "keep_recipients m r i = i\<lparr>recipients := (recipients i)(m \<mapsto> r)\<rparr>"

definition inbox_watch :: "uuid \<Rightarrow> Inbox \<Rightarrow> nat \<times> Inbox" where
  "inbox_watch address i =
     (next_channel i,
      i\<lparr>watchers := filter (\<lambda>(_, c). c \<notin> closed i) (watchers i) @ [(address, next_channel i)],
        next_channel := next_channel i + 1\<rparr>)"

text \<open>
  \<open>retain\<close> over the watchers: \<open>pick address\<close> is what a watcher of that address is sent, \<open>None\<close> when
  it is only asked whether it is closed.
\<close>

fun retain_sending ::
  "(uuid \<Rightarrow> Wake option) \<Rightarrow> nat set \<Rightarrow> (uuid \<times> nat) list \<Rightarrow> (nat \<Rightarrow> Wake list) \<Rightarrow>
   (uuid \<times> nat) list \<times> (nat \<Rightarrow> Wake list)" where
  "retain_sending pick gone [] out = ([], out)"
| "retain_sending pick gone ((address, c) # ws) out =
     (if c \<in> gone then retain_sending pick gone ws out
      else
        (let out1 = (case pick address of Some w \<Rightarrow> out(c := out c @ [w]) | None \<Rightarrow> out);
             (ws', out') = retain_sending pick gone ws out1
         in ((address, c) # ws', out')))"

definition wake_address :: "ItemArrived \<Rightarrow> Inbox \<Rightarrow> Inbox" where
  "wake_address item i =
     (case arrived_address item of
        None \<Rightarrow> i
      | Some address \<Rightarrow>
          (let (ws, out) = retain_sending (\<lambda>a. if a = address then Some (WakeItem item) else None)
                 (closed i) (watchers i) (sent i)
           in i\<lparr>watchers := ws, sent := out\<rparr>))"

definition wake_all :: "Wake \<Rightarrow> Inbox \<Rightarrow> Inbox" where
  "wake_all w i =
     (let (ws, out) = retain_sending (\<lambda>_. Some w) (closed i) (watchers i) (sent i)
      in i\<lparr>watchers := ws, sent := out\<rparr>)"

text \<open>A receiver that is dropped.\<close>

definition drop_watch :: "nat \<Rightarrow> Inbox \<Rightarrow> Inbox" where
  "drop_watch c i = i\<lparr>closed := insert c (closed i)\<rparr>"

section \<open>The book\<close>

record Book =
  book_run_id :: uuid
  can_restart :: bool
  agents :: Agents
  inbox :: Inbox
  book_ends :: EndSys

definition book_register ::
  "AgentKey \<Rightarrow> uuid \<Rightarrow> bool \<Rightarrow> instant \<Rightarrow> Book \<Rightarrow> Shared \<Rightarrow> BookedAgentRef \<times> QueueReport option \<times> Book \<times> Shared" where
  "book_register key agent has_inbox now b sh =
     (let (e, r, sh') = enqueue (WRegistration (book_run_id b)
            \<lparr>decl_agent_id = agent, decl_has_inbox = has_inbox, decl_can_restart = can_restart b\<rparr>) now sh;
          (ref, a) = agents_add key agent has_inbox e (agents b)
      in (ref, r, b\<lparr>agents := a\<rparr>, sh'))"

fun check_restored_from ::
  "(uuid \<Rightarrow> bool) \<Rightarrow> AgentKey set \<Rightarrow> uuid set \<Rightarrow> RestoredAgent list \<Rightarrow> (unit, Error) result" where
  "check_restored_from v7 keys ids [] = Ok ()"
| "check_restored_from v7 keys ids (agent # rest) =
     (if \<not> v7 (restored_agent_id agent) then Err (InvalidInput ''a restored agent id is not a UUIDv7'')
      else if restored_key agent \<in> keys then Err (InvalidInput ''a restored agent key is given twice'')
      else if restored_agent_id agent \<in> ids then Err (InvalidInput ''a restored agent id is given twice'')
      else check_restored_from v7 (insert (restored_key agent) keys) (insert (restored_agent_id agent) ids) rest)"

definition check_restored :: "(uuid \<Rightarrow> bool) \<Rightarrow> RestoredAgent list \<Rightarrow> (unit, Error) result" where
  "check_restored v7 restored = check_restored_from v7 {} {} restored"

text \<open>\<open>WorkCore::claim_once\<close>: the flag and what it was.\<close>

definition claim_once :: "bool \<Rightarrow> string \<Rightarrow> (unit, Error) result \<times> bool" where
  "claim_once flag what =
     ((if flag then Err (InvalidInput (''the '' @ what @ '' of this Work was made already'')) else Ok ()), True)"

fun restore_agents ::
  "RestoredAgent list \<Rightarrow> instant \<Rightarrow> Book \<Rightarrow> Shared \<Rightarrow> QueueReport list \<Rightarrow> Book \<times> Shared \<times> QueueReport list" where
  "restore_agents [] now b sh rs = (b, sh, rs)"
| "restore_agents (agent # rest) now b sh rs =
     (let (_, r, b1, sh1) = book_register (restored_key agent) (restored_agent_id agent)
             (restored_has_inbox agent) now b sh;
          b2 = b1\<lparr>agents := mark_restored (restored_agent_id agent) (agents b1)\<rparr>
      in restore_agents rest now b2 sh1 (rs @ (case r of Some x \<Rightarrow> [x] | None \<Rightarrow> [])))"

definition book_new :: "uuid \<Rightarrow> bool \<Rightarrow> Book" where
  "book_new run restart = \<lparr>book_run_id = run, can_restart = restart, agents = agents_default,
     inbox = inbox_default, book_ends = end_sys_new\<rparr>"

definition book_make ::
  "(uuid \<Rightarrow> bool) \<Rightarrow> uuid \<Rightarrow> bool \<Rightarrow> RestoredAgent list \<Rightarrow> bool \<Rightarrow> instant \<Rightarrow> Shared \<Rightarrow>
   (Book, Error) result \<times> bool \<times> Shared" where
  "book_make v7 run book_made restored restart now sh =
     (case check_restored v7 restored of
        Inl e \<Rightarrow> (Err e, book_made, sh)
      | Inr _ \<Rightarrow>
          (case claim_once book_made ''agent book'' of
             (Inl e, made) \<Rightarrow> (Err e, made, sh)
           | (Inr _, made) \<Rightarrow>
               (let (b, sh1, rs) = restore_agents restored now (book_new run restart) sh []
                in (Ok b, made, fold report rs sh1))))"

definition agent_for :: "AgentKey \<Rightarrow> bool \<Rightarrow> uuid \<Rightarrow> instant \<Rightarrow> Book \<Rightarrow> Shared \<Rightarrow> BookedAgentRef \<times> Book \<times> Shared" where
  "agent_for key inbox_label fresh now b sh =
     (case agents_find key (agents b) of
        Some found \<Rightarrow> (found, b, sh)
      | None \<Rightarrow>
          (let (ref, r, b1, sh1) = book_register key fresh inbox_label now b sh
           in (ref, b1, (case r of Some x \<Rightarrow> report x sh1 | None \<Rightarrow> sh1))))"

definition book_arrival :: "Arrival \<Rightarrow> Book \<Rightarrow> Book" where
  "book_arrival event b =
     (case event of
        AItem item \<Rightarrow> b\<lparr>inbox := wake_address item (inbox b)\<rparr>
      | ASyncEnd child end \<Rightarrow> b\<lparr>book_ends := ends_record child (Ok end) (book_ends b)\<rparr>
      | AUnreadable (Some child) e \<Rightarrow> b\<lparr>book_ends := ends_record child (Err e) (book_ends b)\<rparr>
      | AUnreadable None _ \<Rightarrow> b)"

fun is_infra_missing :: "Error \<Rightarrow> bool" where
  "is_infra_missing (InfraMissing _) = True"
| "is_infra_missing _ = False"

definition arrival_ended :: "Error \<Rightarrow> Book \<Rightarrow> Book" where
  "arrival_ended e b =
     (if is_unreadable e then b
      else
        (let b1 = (if is_infra_missing e then b\<lparr>book_ends := ends_infra_missing e (book_ends b)\<rparr> else b)
         in b1\<lparr>inbox := wake_all (WakeFeedEnded e) (inbox b1)\<rparr>))"

definition arrival_open_again :: "Book \<Rightarrow> Book" where
  "arrival_open_again b = b\<lparr>book_ends := ends_reopened (book_ends b)\<rparr>"

definition arrival_state :: "Book \<Rightarrow> Error option" where
  "arrival_state b = ends_kept (book_ends b)"

text \<open>A registration is queued while its end has not resolved; that of a restored agent never counts.\<close>

definition registration_queued :: "(nat \<Rightarrow> WriteResult oneshot) \<Rightarrow> uuid \<Rightarrow> Book \<Rightarrow> bool" where
  "registration_queued chan agent b =
     (if is_restored agent (agents b) then False
      else (case agents_registration agent (agents b) of
              Some r \<Rightarrow> write_end_poll chan r = None
            | None \<Rightarrow> False))"

section \<open>The steps of a book\<close>

datatype BookEvent =
    BAgentFor AgentKey bool uuid instant
  | BArrival Arrival
  | BArrivalEnded Error
  | BOpenAgain
  | BTakeMail uuid
  | BMark uuid uuid
  | BListed uuid uuid MailEntry
  | BKeepSnapshot uuid "UnreadItem list"
  | BDropSnapshot uuid
  | BKeepRecipients uuid Recipients
  | BWatch uuid
  | BDropWatch nat

text \<open>An id that \<open>Uuid::now_v7()\<close> makes is not one the book knows.\<close>

inductive book_step :: "Book \<times> Shared \<Rightarrow> BookEvent \<Rightarrow> Book \<times> Shared \<Rightarrow> bool" where
  b_agent_for: "by_id (agents b) fresh = None \<Longrightarrow> agent_for key i fresh now b sh = (ref, b', sh') \<Longrightarrow>
    book_step (b, sh) (BAgentFor key i fresh now) (b', sh')"
| b_arrival: "book_step (b, sh) (BArrival a) (book_arrival a b, sh)"
| b_ended: "book_step (b, sh) (BArrivalEnded e) (arrival_ended e b, sh)"
| b_again: "book_step (b, sh) BOpenAgain (arrival_open_again b, sh)"
| b_take: "book_step (b, sh) (BTakeMail m) (b\<lparr>inbox := snd (take_mail m (inbox b))\<rparr>, sh)"
| b_mark: "book_step (b, sh) (BMark agent item) (b\<lparr>inbox := snd (mark agent item (inbox b))\<rparr>, sh)"
| b_listed: "book_step (b, sh) (BListed agent entry e) (b\<lparr>inbox := record_listed agent entry e (inbox b)\<rparr>, sh)"
| b_keep: "book_step (b, sh) (BKeepSnapshot agent items) (b\<lparr>inbox := keep_snapshot agent items (inbox b)\<rparr>, sh)"
| b_drop: "book_step (b, sh) (BDropSnapshot agent) (b\<lparr>inbox := drop_snapshot agent (inbox b)\<rparr>, sh)"
| b_recipients: "book_step (b, sh) (BKeepRecipients m r) (b\<lparr>inbox := keep_recipients m r (inbox b)\<rparr>, sh)"
| b_watch: "book_step (b, sh) (BWatch address) (b\<lparr>inbox := snd (inbox_watch address (inbox b))\<rparr>, sh)"
| b_drop_watch: "book_step (b, sh) (BDropWatch c) (b\<lparr>inbox := drop_watch c (inbox b)\<rparr>, sh)"

definition book_init :: "Book \<times> Shared \<Rightarrow> bool" where
  "book_init s \<longleftrightarrow>
     (\<exists>v7 run restored restart now made sh.
        book_make v7 run False restored restart now sh = (Ok (fst s), made, snd s))"

abbreviation book_reach :: "Book \<times> Shared \<Rightarrow> bool" where
  "book_reach \<equiv> reach book_init book_step"

section \<open>The agents stay a bijection of keys and ids\<close>

definition agents_ok :: "Agents \<Rightarrow> bool" where
  "agents_ok a \<longleftrightarrow>
     distinct (agent_order a) \<and> set (agent_order a) = dom (by_key a) \<and>
     (\<forall>agent key. by_id a agent = Some key \<longleftrightarrow> (\<exists>s. by_key a key = Some s \<and> slot_agent_id s = agent))"

lemma agents_ok_default: "agents_ok agents_default"
  by (simp add: agents_ok_def agents_default_def)

lemma agents_ok_add:
  assumes "agents_ok a" and "by_key a key = None" and "by_id a agent = None"
  shows "agents_ok (snd (agents_add key agent i r a))"
proof -
  have "by_key a k = Some s \<Longrightarrow> slot_agent_id s \<noteq> agent" for k s
    using assms(1,3) unfolding agents_ok_def by (metis option.distinct(1))
  then show ?thesis using assms by (auto simp: agents_ok_def agents_add_def Let_def)
qed

lemma agents_ok_restored [simp]: "agents_ok (mark_restored agent a) = agents_ok a"
  by (simp add: agents_ok_def mark_restored_def)

lemma book_register_agents:
  "book_register key agent i now b sh = (ref, r, b', sh') \<Longrightarrow>
   (\<exists>e. agents b' = snd (agents_add key agent i e (agents b))) \<and> ref = \<lparr>ref_agent_id = agent\<rparr> \<and>
   inbox b' = inbox b \<and> book_ends b' = book_ends b \<and> book_run_id b' = book_run_id b \<and> can_restart b' = can_restart b"
  by (auto simp: book_register_def agents_add_def slot_reference_def Let_def split: prod.splits)

lemma check_restored_ok:
  "check_restored_from v7 keys ids restored = Ok () \<longleftrightarrow>
   (\<forall>x \<in> set restored. v7 (restored_agent_id x) \<and> restored_key x \<notin> keys \<and> restored_agent_id x \<notin> ids) \<and>
   distinct (map restored_key restored) \<and> distinct (map restored_agent_id restored)"
  by (induction restored arbitrary: keys ids) (auto simp: image_iff)

text \<open>Restoring agents that passed the check keeps the bijection.\<close>

lemma restore_agents_ok:
  assumes "agents_ok (agents b)" and "distinct (map restored_key xs)" and "distinct (map restored_agent_id xs)"
    and "\<forall>x \<in> set xs. by_key (agents b) (restored_key x) = None \<and> by_id (agents b) (restored_agent_id x) = None"
    and "restore_agents xs now b sh rs = (b', sh', rs')"
  shows "agents_ok (agents b') \<and> inbox b' = inbox b \<and> book_ends b' = book_ends b \<and>
    agent_order (agents b') = agent_order (agents b) @ map restored_key xs"
  using assms
proof (induction xs arbitrary: b sh rs)
  case (Cons x xs)
  obtain ref r b1 sh1 where reg: "book_register (restored_key x) (restored_agent_id x) (restored_has_inbox x) now b sh = (ref, r, b1, sh1)"
    by (metis prod.exhaust)
  let ?b2 = "b1\<lparr>agents := mark_restored (restored_agent_id x) (agents b1)\<rparr>"
  from book_register_agents [OF reg] obtain e where
    a: "agents b1 = snd (agents_add (restored_key x) (restored_agent_id x) (restored_has_inbox x) e (agents b))"
    and f: "inbox b1 = inbox b" "book_ends b1 = book_ends b" by blast
  have n: "by_key (agents b) (restored_key x) = None" "by_id (agents b) (restored_agent_id x) = None"
    using Cons.prems(4) by simp_all
  have ok: "agents_ok (agents ?b2)" using agents_ok_add [OF Cons.prems(1) n] a by simp
  have fresh: "\<forall>y \<in> set xs. by_key (agents ?b2) (restored_key y) = None \<and> by_id (agents ?b2) (restored_agent_id y) = None"
    using Cons.prems(2-4) a by (auto simp: agents_add_def mark_restored_def Let_def image_iff)
  have l: "agent_order (agents ?b2) = agent_order (agents b) @ [restored_key x]"
    using a by (simp add: agents_add_def mark_restored_def Let_def)
  have "restore_agents xs now ?b2 sh1 (rs @ (case r of Some x \<Rightarrow> [x] | None \<Rightarrow> [])) = (b', sh', rs')"
    using Cons.prems(5) reg by simp
  from Cons.IH [OF ok _ _ fresh this] Cons.prems(2,3) f l show ?case by simp
qed simp

definition book_inv :: "Book \<times> Shared \<Rightarrow> bool" where
  "book_inv s \<longleftrightarrow> agents_ok (agents (fst s)) \<and> end_reach (book_ends (fst s))"

lemma book_make_ok:
  assumes "book_make v7 run book_made restored restart now sh = (Ok b, made, sh')"
  shows "agents_ok (agents b)" and "book_ends b = end_sys_new" and "inbox b = inbox_default"
    and "agent_order (agents b) = map restored_key restored"
proof -
  from assms have c: "check_restored v7 restored = Ok ()"
    by (cases "check_restored v7 restored") (auto simp: book_make_def)
  obtain b1 sh1 rs where r: "restore_agents restored now (book_new run restart) sh [] = (b1, sh1, rs)"
    by (metis prod.exhaust)
  have b: "b1 = b" using assms c r by (auto simp: book_make_def split: prod.splits sum.splits)
  have "agents_ok (agents b) \<and> inbox b = inbox (book_new run restart) \<and> book_ends b = book_ends (book_new run restart) \<and>
    agent_order (agents b) = agent_order (agents (book_new run restart)) @ map restored_key restored"
    using c by (intro restore_agents_ok [OF _ _ _ _ r [unfolded b]])
      (simp_all add: book_new_def agents_ok_default check_restored_def check_restored_ok,
        simp_all add: agents_default_def)
  then show "agents_ok (agents b)" and "book_ends b = end_sys_new" and "inbox b = inbox_default"
    and "agent_order (agents b) = map restored_key restored"
    by (simp_all add: book_new_def agents_default_def)
qed

lemma agent_for_inv:
  assumes "agents_ok (agents b)" and "by_id (agents b) fresh = None"
    and "agent_for key i fresh now b sh = (ref, b', sh')"
  shows "agents_ok (agents b')" and "book_ends b' = book_ends b" and "inbox b' = inbox b"
proof -
  have "agents_ok (agents b') \<and> book_ends b' = book_ends b \<and> inbox b' = inbox b"
  proof (cases "by_key (agents b) key")
    case None
    with assms(3) obtain r where "book_register key fresh i now b sh = (ref, r, b', snd (snd (snd (book_register key fresh i now b sh))))"
      by (auto simp: agent_for_def agents_find_def Let_def split: prod.splits)
    from book_register_agents [OF this] agents_ok_add [OF assms(1) None assms(2)] show ?thesis by auto
  qed (use assms in \<open>auto simp: agent_for_def agents_find_def\<close>)
  then show "agents_ok (agents b')" and "book_ends b' = book_ends b" and "inbox b' = inbox b" by simp_all
qed

lemma book_step_inv: "book_step s e t \<Longrightarrow> book_inv s \<Longrightarrow> book_inv t"
proof (induction rule: book_step.induct)
  case (b_agent_for b fresh key i now sh ref b' sh')
  then show ?case using agent_for_inv [of b fresh key i now sh ref b' sh'] by (simp add: book_inv_def)
next
  case (b_arrival b sh a)
  then show ?case
    by (auto simp: book_inv_def book_arrival_def ends_record_reach split: Arrival.split option.split)
qed (simp_all add: book_inv_def arrival_ended_def arrival_open_again_def Let_def ends_infra_missing_reach ends_reopened_reach)

interpretation book: invariant_system book_init book_step book_inv
proof
  show "book_inv s" if "book_init s" for s
  proof -
    from that obtain v7 run restored restart now made sh where
      "book_make v7 run False restored restart now sh = (Ok (fst s), made, snd s)" by (auto simp: book_init_def)
    from book_make_ok [OF this] show ?thesis by (simp add: book_inv_def reach_init)
  qed
qed (rule book_step_inv)

definition booking :: "Agents \<Rightarrow> AgentKey \<Rightarrow> BookedAgent" where
  "booking a key = \<lparr>booked_key = key, booked_agent_id = slot_agent_id (the (by_key a key)),
     booked_has_inbox = slot_has_inbox (the (by_key a key))\<rparr>"

lemma agents_listed_ok:
  assumes "agents_ok a"
  shows "agents_listed a = map (booking a) (agent_order a)"
proof -
  have d: "set (agent_order a) = dom (by_key a)" using assms by (simp add: agents_ok_def)
  have "List.map_filter (\<lambda>key. map_option (\<lambda>s. \<lparr>booked_key = key, booked_agent_id = slot_agent_id s,
        booked_has_inbox = slot_has_inbox s\<rparr>) (by_key a key)) ks = map (booking a) ks"
    if "set ks \<subseteq> dom (by_key a)" for ks
    using that by (induction ks) (auto simp: List.map_filter_def booking_def dom_def)
  with d show ?thesis by (simp add: agents_listed_def)
qed

lemma agents_listed_bijection:
  assumes "agents_ok a"
  shows "map booked_key (agents_listed a) = agent_order a"
    and "distinct (map booked_key (agents_listed a))" and "distinct (map booked_agent_id (agents_listed a))"
    and "agents_key_of agent a = Some key \<longleftrightarrow>
           (\<exists>x \<in> set (agents_listed a). booked_key x = key \<and> booked_agent_id x = agent)"
    and "agents_find key a = map_option (\<lambda>x. \<lparr>ref_agent_id = booked_agent_id x\<rparr>)
           (find (\<lambda>x. booked_key x = key) (agents_listed a))"
proof -
  note l = agents_listed_ok [OF assms]
  show o: "map booked_key (agents_listed a) = agent_order a" by (simp add: l booking_def comp_def)
  with assms show "distinct (map booked_key (agents_listed a))" by (simp add: agents_ok_def)
  have id: "by_id a (booked_agent_id (booking a k)) = Some k" if "k \<in> set (agent_order a)" for k
    using assms that by (auto simp: agents_ok_def booking_def)
  then have "inj_on (booked_agent_id \<circ> booking a) (set (agent_order a))"
    by (intro inj_onI) (metis comp_apply option.inject)
  with assms show "distinct (map booked_agent_id (agents_listed a))"
    by (simp add: l distinct_map agents_ok_def comp_inj_on_iff [symmetric] inj_on_imageI)
  have "by_id a agent = Some key \<longleftrightarrow> (\<exists>s. by_key a key = Some s \<and> slot_agent_id s = agent)"
    using assms by (simp add: agents_ok_def)
  also have "\<dots> \<longleftrightarrow> key \<in> set (agent_order a) \<and> booked_agent_id (booking a key) = agent"
    using assms by (auto simp: agents_ok_def booking_def)
  also have "\<dots> \<longleftrightarrow> (\<exists>x \<in> set (agents_listed a). booked_key x = key \<and> booked_agent_id x = agent)"
    by (auto simp: l booking_def)
  finally show "agents_key_of agent a = Some key \<longleftrightarrow>
      (\<exists>x \<in> set (agents_listed a). booked_key x = key \<and> booked_agent_id x = agent)"
    by (simp add: agents_key_of_def)
  have "find (\<lambda>x. booked_key x = key) (map (booking a) ks) = (if key \<in> set ks then Some (booking a key) else None)" for ks
    by (induction ks) (auto simp: booking_def)
  then show "agents_find key a = map_option (\<lambda>x. \<lparr>ref_agent_id = booked_agent_id x\<rparr>)
      (find (\<lambda>x. booked_key x = key) (agents_listed a))"
    using assms by (auto simp: l agents_find_def agents_ok_def booking_def slot_reference_def)
qed

section \<open>What the book hands to the queue\<close>

definition registration_of :: "Book \<Rightarrow> uuid \<Rightarrow> bool \<Rightarrow> Write" where
  "registration_of b agent i = WRegistration (book_run_id b)
     \<lparr>decl_agent_id = agent, decl_has_inbox = i, decl_can_restart = can_restart b\<rparr>"

lemma enqueue_report:
  "enqueue w now (report r sh) = (fst (enqueue w now sh), fst (snd (enqueue w now sh)), report r (snd (snd (enqueue w now sh))))"
  by (auto simp: enqueue_def finish_unqueued_def register_def notify_one_def insert_ended_def report_def Let_def
      split: option.split)

lemma enqueue_reports:
  "enqueue w now (fold report rs sh) =
   (fst (enqueue w now sh), fst (snd (enqueue w now sh)), fold report rs (snd (snd (enqueue w now sh))))"
  by (induction rs arbitrary: sh) (simp_all add: enqueue_report)

lemma hand_over_enqueue:
  "hand_over w now sh = (fst (enqueue w now sh),
     (case fst (snd (enqueue w now sh)) of Some r \<Rightarrow> report r | None \<Rightarrow> id) (snd (snd (enqueue w now sh))))"
  by (simp add: hand_over_def split: prod.split option.split)

lemma book_register_queue:
  "book_register key agent i now b sh = (ref, r, b', sh') \<Longrightarrow>
   enqueue (registration_of b agent i) now sh = (the (agents_registration agent (agents b')), r, sh')"
  by (auto simp: book_register_def registration_of_def agents_add_def agents_registration_def slot_of_def Let_def
      split: prod.splits)

lemma agent_for_new:
  assumes "agents_ok (agents b)" and "key \<notin> booked_key ` set (agents_listed (agents b))" and "by_id (agents b) fresh = None"
    and "agent_for key i fresh now b sh = (ref, b', sh')"
  shows "ref = \<lparr>ref_agent_id = fresh\<rparr>" and "sh' = snd (hand_over (registration_of b fresh i) now sh)"
    and "agents_registration fresh (agents b') = Some (fst (hand_over (registration_of b fresh i) now sh))"
    and "agents_listed (agents b') =
      agents_listed (agents b) @ [\<lparr>booked_key = key, booked_agent_id = fresh, booked_has_inbox = i\<rparr>]"
proof -
  have n: "by_key (agents b) key = None" and no: "key \<notin> set (agent_order (agents b))"
    using assms(2) agents_listed_bijection(1) [OF assms(1)] assms(1)
    by (auto simp: agents_ok_def simp flip: set_map)
  then have f: "agents_find key (agents b) = None" by (simp add: agents_find_def)
  obtain r sh1 where g: "book_register key fresh i now b sh = (ref, r, b', sh1)"
    and sh': "sh' = (case r of Some x \<Rightarrow> report x sh1 | None \<Rightarrow> sh1)"
    using assms(4) f by (auto simp: agent_for_def Let_def split: prod.splits)
  note a = book_register_agents [OF g] and q = book_register_queue [OF g]
  from a show "ref = \<lparr>ref_agent_id = fresh\<rparr>" by simp
  from q sh' show "sh' = snd (hand_over (registration_of b fresh i) now sh)"
    by (simp add: hand_over_enqueue split: option.split)
  from a obtain e where e: "agents b' = snd (agents_add key fresh i e (agents b))" by blast
  then show "agents_registration fresh (agents b') = Some (fst (hand_over (registration_of b fresh i) now sh))"
    using q by (simp add: hand_over_enqueue agents_registration_def slot_of_def agents_add_def Let_def)
  have "agents_ok (agents b')" using agents_ok_add [OF assms(1) n assms(3)] e by simp
  from agents_listed_ok [OF this] agents_listed_ok [OF assms(1)] no
  show "agents_listed (agents b') =
      agents_listed (agents b) @ [\<lparr>booked_key = key, booked_agent_id = fresh, booked_has_inbox = i\<rparr>]"
    by (auto simp: e agents_add_def booking_def Let_def)
qed

text \<open>
  C35: in every state a book can reach, its agents are a bijection of keys and ids. Asking for an
  agent by a key that is booked gives the booked id and changes neither the book nor the queue;
  asking by a new key books the new id behind the others and hands exactly its registration to
  the delivery queue, whose end is the registration end of that agent.
\<close>
theorem agent_book_bijection:
  assumes "book_reach (b, sh)" and "agent_for key i fresh now b sh = (ref, b', sh')"
  shows "distinct (map booked_key (agents_listed (agents b))) \<and>
    distinct (map booked_agent_id (agents_listed (agents b))) \<and>
    (\<forall>x \<in> set (agents_listed (agents b)). booked_key x = key \<longrightarrow>
       ref = \<lparr>ref_agent_id = booked_agent_id x\<rparr> \<and> b' = b \<and> sh' = sh) \<and>
    (key \<notin> booked_key ` set (agents_listed (agents b)) \<and> by_id (agents b) fresh = None \<longrightarrow>
       ref = \<lparr>ref_agent_id = fresh\<rparr> \<and> sh' = snd (hand_over (registration_of b fresh i) now sh) \<and>
       agents_registration fresh (agents b') = Some (fst (hand_over (registration_of b fresh i) now sh)) \<and>
       agents_listed (agents b') =
         agents_listed (agents b) @ [\<lparr>booked_key = key, booked_agent_id = fresh, booked_has_inbox = i\<rparr>])"
proof -
  from book.inv_reach [OF assms(1)] have ok: "agents_ok (agents b)" by (simp add: book_inv_def)
  have "ref = \<lparr>ref_agent_id = booked_agent_id x\<rparr> \<and> b' = b \<and> sh' = sh"
    if "x \<in> set (agents_listed (agents b))" and "booked_key x = key" for x
  proof -
    from that agents_listed_ok [OF ok] have x: "x = booking (agents b) key" "key \<in> set (agent_order (agents b))"
      by (auto simp: booking_def)
    then obtain s where "by_key (agents b) key = Some s" using ok by (auto simp: agents_ok_def)
    with x(1) assms(2) show ?thesis by (simp add: agent_for_def agents_find_def booking_def slot_reference_def)
  qed
  then show ?thesis using agents_listed_bijection(2,3) [OF ok] agent_for_new [OF ok _ _ assms(2)] by blast
qed

lemma restore_agents_queue:
  "restore_agents xs now b sh rs = (b', sh', rs') \<Longrightarrow>
   fold report rs' sh' =
     fold (\<lambda>x sh. snd (hand_over (registration_of b (restored_agent_id x) (restored_has_inbox x)) now sh)) xs (fold report rs sh)"
proof (induction xs arbitrary: b sh rs)
  case (Cons x xs)
  obtain ref r b1 sh1 where reg: "book_register (restored_key x) (restored_agent_id x) (restored_has_inbox x) now b sh = (ref, r, b1, sh1)"
    by (metis prod.exhaust)
  let ?b2 = "b1\<lparr>agents := mark_restored (restored_agent_id x) (agents b1)\<rparr>"
  let ?w = "registration_of b (restored_agent_id x) (restored_has_inbox x)"
  have same: "registration_of ?b2 = registration_of b"
    using book_register_agents [OF reg] by (simp add: registration_of_def fun_eq_iff)
  have "snd (hand_over ?w now (fold report rs sh)) = fold report (rs @ (case r of Some x \<Rightarrow> [x] | None \<Rightarrow> [])) sh1"
    using book_register_queue [OF reg] by (simp add: hand_over_enqueue enqueue_reports split: option.split)
  moreover have "restore_agents xs now ?b2 sh1 (rs @ (case r of Some x \<Rightarrow> [x] | None \<Rightarrow> [])) = (b', sh', rs')"
    using Cons.prems reg by simp
  ultimately show ?case using Cons.IH same by simp
qed simp

text \<open>
  An agent book is made exactly when none was made for the Work before and the restored agents
  have UUIDv7 ids, distinct keys and distinct ids. The book then lists them in their order, and the
  queue was handed their registrations in that order. A call that fails leaves the queue as it was,
  and one that fails the check leaves the book of the Work still to be made.
\<close>
theorem book_make_restores:
  assumes "book_make v7 run made restored restart now sh = (r, made', sh')"
  shows "((\<exists>b. r = Ok b) \<longleftrightarrow>
       \<not> made \<and> (\<forall>x \<in> set restored. v7 (restored_agent_id x)) \<and>
       distinct (map restored_key restored) \<and> distinct (map restored_agent_id restored)) \<and>
    (\<forall>b. r = Ok b \<longrightarrow>
       map booked_key (agents_listed (agents b)) = map restored_key restored \<and> made' \<and>
       sh' = fold (\<lambda>x sh. snd (hand_over (registration_of b (restored_agent_id x) (restored_has_inbox x)) now sh))
               restored sh) \<and>
    (\<forall>e. r = Err e \<longrightarrow> sh' = sh \<and> (made \<or> \<not> made'))"
proof -
  have c: "check_restored v7 restored = Ok () \<longleftrightarrow>
      (\<forall>x \<in> set restored. v7 (restored_agent_id x)) \<and> distinct (map restored_key restored) \<and>
      distinct (map restored_agent_id restored)"
    by (simp add: check_restored_def check_restored_ok)
  obtain b1 sh1 rs where s: "restore_agents restored now (book_new run restart) sh [] = (b1, sh1, rs)"
    by (metis prod.exhaust)
  have same: "registration_of b1 = registration_of (book_new run restart)"
  proof -
    have "restore_agents xs now b sh rs = (b', sh', rs') \<Longrightarrow> registration_of b' = registration_of b" for xs b sh rs b' sh' rs'
    proof (induction xs arbitrary: b sh rs)
      case (Cons x xs)
      then show ?case
        by (fastforce dest: book_register_agents simp: registration_of_def fun_eq_iff Let_def split: prod.splits)
    qed simp
    with s show ?thesis by blast
  qed
  show ?thesis
  proof (cases "check_restored v7 restored = Ok () \<and> \<not> made")
    case True
    then have r: "r = Ok b1" "made'" "sh' = fold report rs sh1"
      using assms s by (auto simp: book_make_def claim_once_def)
    have "book_make v7 run made restored restart now sh = (Ok b1, True, sh')" using assms r by simp
    note m = book_make_ok [OF this]
    show ?thesis using True r c restore_agents_queue [OF s] same m(4) agents_listed_bijection(1) [OF m(1)]
      by simp
  next
    case False
    then obtain e where "r = Err e" "sh' = sh" "made \<or> \<not> made'"
      using assms by (cases "check_restored v7 restored") (auto simp: book_make_def claim_once_def split: if_splits)
    with False c show ?thesis by auto
  qed
qed

definition demo_key :: AgentKey where
  "demo_key = \<lparr>node = ''n'', label = ''l''\<rparr>"

definition demo_restored :: RestoredAgent where
  "demo_restored = \<lparr>restored_key = demo_key, restored_agent_id = 7, restored_has_inbox = True\<rparr>"

lemma demo_make:
  "\<exists>b made sh'. book_make (\<lambda>i. i = 7) 1 False [demo_restored] False 5 shared_new = (Ok b, made, sh') \<and>
     agents_listed (agents b) = [\<lparr>booked_key = demo_key, booked_agent_id = 7, booked_has_inbox = True\<rparr>]"
  by (auto simp: book_make_def check_restored_def demo_restored_def claim_once_def book_new_def book_register_def
      agents_add_def agents_default_def mark_restored_def agents_listed_def List.map_filter_def Let_def split: prod.split)

theorem agent_book_bijection_witness:
  "\<exists>b sh ref b' sh'. book_reach (b, sh) \<and> agent_for demo_key False 9 6 b sh = (ref, b', sh') \<and>
     ref = \<lparr>ref_agent_id = 7\<rparr> \<and> b' = b \<and> sh' = sh"
proof -
  from demo_make obtain b made sh where m: "book_make (\<lambda>i. i = 7) 1 False [demo_restored] False 5 shared_new = (Ok b, made, sh)"
    and l: "agents_listed (agents b) = [\<lparr>booked_key = demo_key, booked_agent_id = 7, booked_has_inbox = True\<rparr>]" by blast
  have "book_init (b, sh)" unfolding book_init_def using m by (auto intro!: exI)
  then have r: "book_reach (b, sh)" by (rule reach_init)
  obtain ref b' sh' where a: "agent_for demo_key False 9 6 b sh = (ref, b', sh')" by (metis prod.exhaust)
  show ?thesis using r a agent_book_bijection [OF r a] l by (intro exI conjI) simp_all
qed

theorem book_make_restores_witness:
  "\<exists>b made sh'. book_make (\<lambda>i. i = 7) 1 False [demo_restored] False 5 shared_new = (Ok b, made, sh') \<and>
     map booked_key (agents_listed (agents b)) = [demo_key]"
proof -
  from demo_make obtain b made sh where m: "book_make (\<lambda>i. i = 7) 1 False [demo_restored] False 5 shared_new = (Ok b, made, sh)"
    by blast
  have "map booked_key (agents_listed (agents b)) = [demo_key]"
    using book_make_restores [OF m] by (simp add: demo_restored_def)
  with m show ?thesis by (intro exI conjI)
qed

section \<open>The inboxes: once, and to every watcher\<close>

text \<open>What an event does to the inboxes.\<close>

fun inbox_event :: "BookEvent \<Rightarrow> Inbox \<Rightarrow> Inbox" where
  "inbox_event (BArrival (AItem item)) i = wake_address item i"
| "inbox_event (BArrivalEnded e) i = (if is_unreadable e then i else wake_all (WakeFeedEnded e) i)"
| "inbox_event (BTakeMail m) i = snd (take_mail m i)"
| "inbox_event (BMark agent item) i = snd (mark agent item i)"
| "inbox_event (BListed agent entry e) i = record_listed agent entry e i"
| "inbox_event (BKeepSnapshot agent items) i = keep_snapshot agent items i"
| "inbox_event (BDropSnapshot agent) i = drop_snapshot agent i"
| "inbox_event (BKeepRecipients m r) i = keep_recipients m r i"
| "inbox_event (BWatch address) i = snd (inbox_watch address i)"
| "inbox_event (BDropWatch c) i = drop_watch c i"
| "inbox_event _ i = i"

lemma book_step_inbox: "book_step s e t \<Longrightarrow> book_inv s \<Longrightarrow> inbox (fst t) = inbox_event e (inbox (fst s))"
proof (induction rule: book_step.induct)
  case (b_agent_for b fresh key i now sh ref b' sh')
  then show ?case using agent_for_inv(3) [of b fresh key i now sh ref b' sh'] by (simp add: book_inv_def)
next
  case (b_arrival b sh a)
  then show ?case by (cases a) (auto simp: book_arrival_def split: option.split)
qed (simp_all add: arrival_ended_def arrival_open_again_def Let_def)

lemma retain_sending_spec:
  "distinct (map snd ws) \<Longrightarrow>
   retain_sending pick gone ws out =
     (filter (\<lambda>(_, c). c \<notin> gone) ws,
      \<lambda>c. out c @ (case map_of (map prod.swap ws) c of
                     Some a \<Rightarrow> if c \<in> gone then [] else (case pick a of Some w \<Rightarrow> [w] | None \<Rightarrow> [])
                   | None \<Rightarrow> []))"
proof (induction ws arbitrary: out)
  case (Cons x ws)
  obtain a c where x: "x = (a, c)" by (cases x)
  have "map_of (map prod.swap ws) c = None"
    using Cons.prems by (force simp: map_of_eq_None_iff x)
  with Cons show ?case by (cases "pick a") (auto simp: x fun_eq_iff Let_def)
qed simp

definition inbox_ok :: "Inbox \<Rightarrow> bool" where
  "inbox_ok i \<longleftrightarrow> distinct (map snd (watchers i)) \<and> (\<forall>(_, c) \<in> set (watchers i). c < next_channel i)"

definition wakes_for :: "uuid \<Rightarrow> BookEvent \<Rightarrow> Wake list" where
  "wakes_for address e =
     (case e of
        BArrival (AItem item) \<Rightarrow> if arrived_address item = Some address then [WakeItem item] else []
      | BArrivalEnded err \<Rightarrow> if is_unreadable err then [] else [WakeFeedEnded err]
      | _ \<Rightarrow> [])"

lemma inbox_ok_filter:
  "inbox_ok i \<Longrightarrow> distinct (map snd (filter P (watchers i))) \<and> (\<forall>(_, c) \<in> set (filter P (watchers i)). c < next_channel i)"
  by (auto simp: inbox_ok_def distinct_map_filter)

lemma wake_address_eq:
  "inbox_ok i \<Longrightarrow> arrived_address item = Some address \<Longrightarrow>
   wake_address item i = i\<lparr>watchers := filter (\<lambda>(_, c). c \<notin> closed i) (watchers i),
     sent := \<lambda>c. sent i c @ (case map_of (map prod.swap (watchers i)) c of
        Some a \<Rightarrow> if c \<in> closed i then []
          else (case (if a = address then Some (WakeItem item) else None) of Some w \<Rightarrow> [w] | None \<Rightarrow> [])
      | None \<Rightarrow> [])\<rparr>"
  by (simp add: wake_address_def inbox_ok_def retain_sending_spec)

lemma wake_all_eq:
  "inbox_ok i \<Longrightarrow>
   wake_all w i = i\<lparr>watchers := filter (\<lambda>(_, c). c \<notin> closed i) (watchers i),
     sent := \<lambda>c. sent i c @ (case map_of (map prod.swap (watchers i)) c of
        Some a \<Rightarrow> if c \<in> closed i then [] else [w] | None \<Rightarrow> [])\<rparr>"
  by (simp add: wake_all_def inbox_ok_def retain_sending_spec cong: option.case_cong if_cong)

lemmas inbox_small_defs = take_mail_def mark_def record_listed_def keep_snapshot_def drop_snapshot_def
  keep_recipients_def drop_watch_def

lemma inbox_event_ok: "inbox_ok i \<Longrightarrow> inbox_ok (inbox_event e i)"
proof (induction e i rule: inbox_event.induct)
  case (1 item i)
  then show ?case
    using inbox_ok_filter [of i] by (cases "arrived_address item") (simp_all add: wake_address_eq inbox_ok_def, simp add: wake_address_def)
next
  case (2 e i)
  then show ?case using inbox_ok_filter [of i] by (simp add: wake_all_eq inbox_ok_def)
next
  case (9 address i)
  then show ?case using inbox_ok_filter [of i] by (force simp: inbox_watch_def inbox_ok_def)
qed (simp_all add: inbox_small_defs inbox_ok_def)

lemma map_of_swap: "inbox_ok i \<Longrightarrow> (a, c) \<in> set (watchers i) \<Longrightarrow> map_of (map prod.swap (watchers i)) c = Some a"
  by (intro map_of_is_SomeI) (auto simp: inbox_ok_def comp_def)

lemma inbox_event_watch:
  assumes "inbox_ok i" and "(a, c) \<in> set (watchers i)" and "c \<notin> closed i" and "e \<noteq> BDropWatch c"
  shows "(a, c) \<in> set (watchers (inbox_event e i)) \<and> c \<notin> closed (inbox_event e i) \<and>
    sent (inbox_event e i) c = sent i c @ wakes_for a e"
  using assms
proof (induction e i rule: inbox_event.induct)
  case (1 item i)
  then show ?case using map_of_swap [OF "1.prems"(1,2)]
    by (cases "arrived_address item") (auto simp: wake_address_eq wakes_for_def, simp_all add: wake_address_def)
next
  case (2 e i)
  then show ?case using map_of_swap [OF "2.prems"(1,2)] by (auto simp: wake_all_eq wakes_for_def)
qed (auto simp: inbox_small_defs inbox_watch_def wakes_for_def)

text \<open>
  A watch of an address that stays open gets every item that arrives for that address and
  every end of the feed other than an unreadable event, each once and in the order in which they
  came, whatever else happens to the book meanwhile and whichever other watches come and go.
\<close>
theorem watch_gets_every_item:
  assumes "inbox_ok i" and "inbox_watch address i = (c, i')" and "BDropWatch c \<notin> set es" and "c \<notin> closed i"
  shows "inbox_ok (fold inbox_event es i') \<and>
    sent (fold inbox_event es i') c = sent i c @ concat (map (wakes_for address) es)"
proof -
  have ok: "inbox_ok i'" using inbox_event_ok [OF assms(1), of "BWatch address"] assms(2) by simp
  have w: "(address, c) \<in> set (watchers i')" "c \<notin> closed i'" "sent i' = sent i"
    using assms(2,4) by (auto simp: inbox_watch_def)
  have "inbox_ok (fold inbox_event es j) \<and> sent (fold inbox_event es j) c = sent j c @ concat (map (wakes_for address) es)"
    if "inbox_ok j" "(address, c) \<in> set (watchers j)" "c \<notin> closed j" for j
    using that assms(3)
  proof (induction es arbitrary: j)
    case (Cons e es)
    from Cons.prems(4) have "e \<noteq> BDropWatch c" by auto
    note n = inbox_event_watch [OF Cons.prems(1-3) this]
    with Cons.IH [OF inbox_event_ok [OF Cons.prems(1)]] Cons.prems(4) show ?case by simp
  qed simp
  from this [OF ok w(1,2)] w(3) show ?thesis by simp
qed

theorem watch_gets_every_item_witness:
  "\<exists>c i'. inbox_watch 3 inbox_default = (c, i') \<and>
     sent (fold inbox_event [BWatch 4, BArrival (AItem (demo_event\<lparr>arrived_address := Some 3\<rparr>)), BArrivalEnded Unauthenticated] i') c =
       [WakeItem (demo_event\<lparr>arrived_address := Some 3\<rparr>), WakeFeedEnded Unauthenticated]"
proof -
  let ?es = "[BWatch 4, BArrival (AItem (demo_event\<lparr>arrived_address := Some 3\<rparr>)), BArrivalEnded Unauthenticated]"
  obtain c i' where w: "inbox_watch 3 inbox_default = (c, i')" by (metis prod.exhaust)
  have "inbox_ok inbox_default" "BDropWatch c \<notin> set ?es" "c \<notin> closed inbox_default" "sent inbox_default c = []"
    by (simp_all add: inbox_default_def inbox_ok_def)
  with w watch_gets_every_item [OF _ w, of ?es] show ?thesis by (simp add: wakes_for_def)
qed

lemma inbox_event_once:
  "taken (inbox_event e i) = (case e of BTakeMail m \<Rightarrow> insert m (taken i) | _ \<Rightarrow> taken i)"
  "marked_items a (inbox_event e i) =
     (case e of BMark a' item \<Rightarrow> if a' = a then insert item (marked_items a i) else marked_items a i | _ \<Rightarrow> marked_items a i)"
  by (induction e i rule: inbox_event.induct;
      simp add: inbox_small_defs inbox_watch_def wake_address_def wake_all_def marked_items_def Let_def
        split: option.split prod.split)+

text \<open>
  A mail is taken once and an item is marked once for an agent: after any sequence of events
  the next take of a mail says it is the first exactly when no take of it came before, and the same
  holds for the mark of an item by an agent.
\<close>
theorem taken_and_marked_once:
  "(fst (take_mail m (fold inbox_event es inbox_default)) \<longleftrightarrow> BTakeMail m \<notin> set es) \<and>
   (fst (mark agent item (fold inbox_event es inbox_default)) \<longleftrightarrow> BMark agent item \<notin> set es)"
proof -
  have "taken (fold inbox_event es i) = {m. BTakeMail m \<in> set es} \<union> taken i \<and>
      marked_items agent (fold inbox_event es i) = {x. BMark agent x \<in> set es} \<union> marked_items agent i" for i
    by (induction es arbitrary: i) (auto simp: inbox_event_once split: BookEvent.splits)
  from this [of inbox_default] show ?thesis
    by (simp add: take_mail_def mark_def) (simp add: inbox_default_def marked_items_def)
qed

end
