(* ===== verification/Saved_State.thy ===== *)
theory Saved_State
  imports Agent_Book
begin

text \<open>
  The saved state of a Run that can restart (\<open>saved_state.rs\<close>): the fields of its state and its
  agents, as a JSON document, and back. serde, its derived code for the document and the state of
  the graph contract are outside: they are the functions of the parameter \<open>env\<close>.
\<close>

record SavedAgent =
  saved_node :: string
  saved_label :: string
  saved_agent_id :: uuid
  saved_has_inbox :: bool

record Document =
  doc_fields :: json
  doc_agents :: "SavedAgent list"

record 'f Restored =
  restored_fields :: 'f
  restored_agents :: "RestoredAgent list"

record ('s, 'f) StateEnv =
  env_to_json :: "'s \<Rightarrow> (string, string) result"
  env_from_slice :: "string \<Rightarrow> (json, string) result"
  env_to_value :: "Document \<Rightarrow> (json, string) result"
  env_from_value :: "json \<Rightarrow> (Document, string) result"
  env_to_vec :: "json \<Rightarrow> (string, string) result"
  env_rebuild :: "nat option \<Rightarrow> string \<Rightarrow> ('s, string) result"
  env_into_fields :: "'s \<Rightarrow> 'f"

definition saved_agent :: "BookedAgent \<Rightarrow> SavedAgent" where
  "saved_agent a = \<lparr>saved_node = node (booked_key a), saved_label = label (booked_key a),
     saved_agent_id = booked_agent_id a, saved_has_inbox = booked_has_inbox a\<rparr>"

definition restored_agent :: "SavedAgent \<Rightarrow> RestoredAgent" where
  "restored_agent a = \<lparr>restored_key = \<lparr>node = saved_node a, label = saved_label a\<rparr>,
     restored_agent_id = saved_agent_id a, restored_has_inbox = saved_has_inbox a\<rparr>"

definition encode_state :: "('s, 'f) StateEnv \<Rightarrow> 's \<Rightarrow> BookedAgent list \<Rightarrow> (json, string) result" where
  "encode_state env state ags =
     (case env_to_json env state of
        Inl e \<Rightarrow> Err e
      | Inr text \<Rightarrow>
          (case env_from_slice env text of
             Inl e \<Rightarrow> Err e
           | Inr fs \<Rightarrow> env_to_value env \<lparr>doc_fields = fs, doc_agents = map saved_agent ags\<rparr>))"

definition decode_state :: "('s, 'f) StateEnv \<Rightarrow> json \<Rightarrow> nat option \<Rightarrow> ('f Restored, string) result" where
  "decode_state env v limit =
     (case env_from_value env v of
        Inl e \<Rightarrow> Err e
      | Inr doc \<Rightarrow>
          (case env_to_vec env (doc_fields doc) of
             Inl e \<Rightarrow> Err e
           | Inr text \<Rightarrow>
               (case env_rebuild env limit text of
                  Inl e \<Rightarrow> Err e
                | Inr state \<Rightarrow>
                    Ok \<lparr>restored_fields = env_into_fields env state,
                        restored_agents = map restored_agent (doc_agents doc)\<rparr>)))"

text \<open>
  What the code relies on: serde reads back the document it wrote, and a state can be rebuilt, under
  the limit of the restart, from the JSON of its own fields.
\<close>

definition env_reads_back :: "('s, 'f) StateEnv \<Rightarrow> nat option \<Rightarrow> 's \<Rightarrow> bool" where
  "env_reads_back env limit state \<longleftrightarrow>
     (\<forall>doc v. env_to_value env doc = Ok v \<longrightarrow> env_from_value env v = Ok doc) \<and>
     (\<forall>text v. env_to_json env state = Ok text \<and> env_from_slice env text = Ok v \<longrightarrow>
        (\<exists>text'. env_to_vec env v = Ok text' \<and> env_rebuild env limit text' = Ok state))"

lemma decode_encode:
  assumes "env_reads_back env limit state" and "encode_state env state ags = Ok v"
  shows "decode_state env v limit =
    Ok \<lparr>restored_fields = env_into_fields env state, restored_agents = map (restored_agent \<circ> saved_agent) ags\<rparr>"
proof -
  from assms(2) obtain js fs where t: "env_to_json env state = Ok js" "env_from_slice env js = Ok fs"
    and d: "env_to_value env \<lparr>doc_fields = fs, doc_agents = map saved_agent ags\<rparr> = Ok v"
    by (auto simp: encode_state_def split: sum.splits)
  from assms(1) d have "env_from_value env v = Ok \<lparr>doc_fields = fs, doc_agents = map saved_agent ags\<rparr>"
    by (simp add: env_reads_back_def)
  moreover from assms(1) t obtain js' where "env_to_vec env fs = Ok js'" "env_rebuild env limit js' = Ok state"
    by (auto simp: env_reads_back_def)
  ultimately show ?thesis by (simp add: decode_state_def)
qed

lemma restored_saved [simp]:
  "restored_key (restored_agent (saved_agent a)) = booked_key a"
  "restored_agent_id (restored_agent (saved_agent a)) = booked_agent_id a"
  "restored_has_inbox (restored_agent (saved_agent a)) = booked_has_inbox a"
  by (simp_all add: restored_agent_def saved_agent_def)


text \<open>A serde for the example: it writes documents without agents, as an array of their fields.\<close>

definition demo_env :: "(string, string) StateEnv" where
  "demo_env = \<lparr>env_to_json = Ok, env_from_slice = (\<lambda>t. Ok (JString t)),
     env_to_value = (\<lambda>d. case doc_agents d of
        [] \<Rightarrow> Ok (JArray [doc_fields d]) | _ \<Rightarrow> Err ''agents''),
     env_from_value = (\<lambda>v. case v of JArray [f] \<Rightarrow> Ok \<lparr>doc_fields = f, doc_agents = []\<rparr> | _ \<Rightarrow> Err ''shape''),
     env_to_vec = (\<lambda>v. case v of JString t \<Rightarrow> Ok t | _ \<Rightarrow> Err ''shape''),
     env_rebuild = (\<lambda>_. Ok), env_into_fields = (\<lambda>s. s)\<rparr>"

lemma demo_env_reads_back: "env_reads_back demo_env limit state"
  by (auto simp: env_reads_back_def demo_env_def split: list.splits)


end
