(* ===== verification/Run_Record.thy ===== *)
theory Run_Record
  imports Agent_Book
begin

text \<open>
  The record of a Run in flight (\<open>record.rs\<close>), its lifecycle hooks (\<open>hooks.rs\<close>) and the lookup of the
  instances of the Runs (\<open>instances.rs\<close>). Each call that takes a lock is one step; a removal of a
  Run's instances takes two locks one after the other and is two steps. The map of the instances of
  a record has no order in the source; here they are in the order of their creation, and no lemma
  depends on it. Whether the cancel handle was triggered is the field \<open>cancel\<close>; the task that reads
  the arrivals is the field \<open>arrival\<close>, \<open>True\<close> while it is not aborted.
\<close>

type_synonym instance_id = nat

datatype RunPhase = Live | ExecutorReturned | Aborted | RunDropped

record InstanceInfo =
  info_node :: string
  hooked :: bool

record InstanceEnded =
  ended_instance :: instance_id
  ended_node :: string
  ended_agents :: "BookedAgent list"

record RunRecord =
  run_id :: uuid
  job_id :: uuid
  cancel :: bool
  started_pending :: bool
  executor_running :: bool
  observations_expected :: bool
  observations_over :: bool
  phase :: RunPhase
  rec_book :: "Book option"
  last_agents :: "BookedAgent list"
  running_hooks :: "instance_id list"
  rec_queue :: "Shared option"
  rec_instances :: "(instance_id \<times> InstanceInfo) list"
  arrival :: "bool option"

definition run_record_new :: "uuid \<Rightarrow> uuid \<Rightarrow> bool \<Rightarrow> RunRecord" where
  "run_record_new run job cancelled = \<lparr>run_id = run, job_id = job, cancel = cancelled, started_pending = True,
     executor_running = False, observations_expected = False, observations_over = False, phase = Live,
     rec_book = None, last_agents = [], running_hooks = [], rec_queue = None, rec_instances = [], arrival = None\<rparr>"

definition trigger_cancel :: "RunRecord \<Rightarrow> RunRecord" where
  "trigger_cancel r = r\<lparr>cancel := True\<rparr>"

definition started_ended :: "RunRecord \<Rightarrow> RunRecord" where
  "started_ended r = r\<lparr>started_pending := False\<rparr>"

definition set_executor_running :: "bool \<Rightarrow> RunRecord \<Rightarrow> RunRecord" where
  "set_executor_running b r = r\<lparr>executor_running := b\<rparr>"

definition expect_observations_end :: "RunRecord \<Rightarrow> RunRecord" where
  "expect_observations_end r = r\<lparr>observations_expected := True\<rparr>"

definition end_observations :: "RunRecord \<Rightarrow> RunRecord" where
  "end_observations r = r\<lparr>observations_over := True\<rparr>"

definition set_phase :: "RunPhase \<Rightarrow> RunRecord \<Rightarrow> RunRecord" where
  "set_phase p r = r\<lparr>phase := p\<rparr>"

definition set_queue :: "Shared \<Rightarrow> RunRecord \<Rightarrow> RunRecord" where
  "set_queue q r = r\<lparr>rec_queue := Some q\<rparr>"

definition take_queue :: "RunRecord \<Rightarrow> Shared option \<times> RunRecord" where
  "take_queue r = (rec_queue r, r\<lparr>rec_queue := None\<rparr>)"

definition set_book :: "Book \<Rightarrow> RunRecord \<Rightarrow> RunRecord" where
  "set_book b r = r\<lparr>rec_book := Some b\<rparr>"

definition take_book :: "RunRecord \<Rightarrow> Book option \<times> RunRecord" where
  "take_book r =
     (rec_book r,
      (case rec_book r of
         Some b \<Rightarrow> r\<lparr>rec_book := None, last_agents := agents_listed (agents b)\<rparr>
       | None \<Rightarrow> r\<lparr>rec_book := None\<rparr>))"

definition set_arrival :: "RunRecord \<Rightarrow> RunRecord" where
  "set_arrival r = r\<lparr>arrival := Some True\<rparr>"

definition stop_arrival :: "RunRecord \<Rightarrow> RunRecord" where
  "stop_arrival r = r\<lparr>arrival := None\<rparr>"

text \<open>A new entry of the map replaces the entry of the same instance.\<close>

definition instance_created :: "instance_id \<Rightarrow> string \<Rightarrow> RunRecord \<Rightarrow> RunRecord" where
  "instance_created i n r =
     r\<lparr>rec_instances := filter (\<lambda>(j, _). j \<noteq> i) (rec_instances r) @ [(i, \<lparr>info_node = n, hooked = False\<rparr>)]\<rparr>"

definition unhooked_instances :: "RunRecord \<Rightarrow> (instance_id \<times> string) list" where
  "unhooked_instances r =
     map (\<lambda>(i, info). (i, info_node info)) (filter (\<lambda>(_, info). \<not> hooked info) (rec_instances r))"

definition hook_agents :: "RunRecord \<Rightarrow> BookedAgent list" where
  "hook_agents r = (case rec_book r of Some b \<Rightarrow> agents_listed (agents b) | None \<Rightarrow> last_agents r)"

definition set_hooked :: "instance_id \<Rightarrow> (instance_id \<times> InstanceInfo) list \<Rightarrow> (instance_id \<times> InstanceInfo) list" where
  "set_hooked i xs = map (\<lambda>(j, info). (j, if j = i then info\<lparr>hooked := True\<rparr> else info)) xs"

definition claim_hook :: "instance_id \<Rightarrow> RunRecord \<Rightarrow> InstanceEnded option \<times> RunRecord" where
  "claim_hook i r =
     (case map_of (rec_instances r) i of
        None \<Rightarrow> (None, r)
      | Some info \<Rightarrow>
          if hooked info then (None, r)
          else
            (Some \<lparr>ended_instance = i, ended_node = info_node info,
                   ended_agents = filter (\<lambda>a. node (booked_key a) = info_node info) (hook_agents r)\<rparr>,
             r\<lparr>rec_instances := set_hooked i (rec_instances r), running_hooks := running_hooks r @ [i]\<rparr>))"

definition hook_returned :: "instance_id \<Rightarrow> RunRecord \<Rightarrow> RunRecord" where
  "hook_returned i r = r\<lparr>running_hooks := filter (\<lambda>j. j \<noteq> i) (running_hooks r)\<rparr>"

text \<open>
  The hooks that are called: \<open>call_once\<close> gives the calls it spawned. \<open>has_hook\<close>: the runner has a
  lifecycle hook.
\<close>

definition call_once :: "bool \<Rightarrow> instance_id \<Rightarrow> RunRecord \<Rightarrow> InstanceEnded list \<times> RunRecord" where
  "call_once has_hook i r =
     (if \<not> has_hook then ([], r)
      else (case claim_hook i r of (Some e, r') \<Rightarrow> ([e], r') | (None, r') \<Rightarrow> ([], r')))"

fun call_each :: "bool \<Rightarrow> (instance_id \<times> string) list \<Rightarrow> RunRecord \<Rightarrow> InstanceEnded list \<times> RunRecord" where
  "call_each has_hook [] r = ([], r)"
| "call_each has_hook ((i, _) # xs) r =
     (let (es, r1) = call_once has_hook i r; (es', r2) = call_each has_hook xs r1 in (es @ es', r2))"

definition call_all :: "bool \<Rightarrow> RunRecord \<Rightarrow> InstanceEnded list \<times> RunRecord" where
  "call_all has_hook r = call_each has_hook (unhooked_instances r) r"

section \<open>Every instance's hook is called once\<close>

datatype HookEvent = HCreated instance_id string | HCallOnce instance_id | HCallAll | HReturned instance_id

text \<open>The record and the hooks called so far.\<close>

fun hook_event :: "HookEvent \<Rightarrow> InstanceEnded list \<times> RunRecord \<Rightarrow> InstanceEnded list \<times> RunRecord" where
  "hook_event (HCreated i n) (es, r) = (es, instance_created i n r)"
| "hook_event (HCallOnce i) (es, r) = (let (es', r') = call_once True i r in (es @ es', r'))"
| "hook_event HCallAll (es, r) = (let (es', r') = call_all True r in (es @ es', r'))"
| "hook_event (HReturned i) (es, r) = (es, hook_returned i r)"

definition created_in :: "HookEvent list \<Rightarrow> instance_id list" where
  "created_in evs = List.map_filter (\<lambda>e. case e of HCreated i _ \<Rightarrow> Some i | _ \<Rightarrow> None) evs"

definition hooks_ok :: "instance_id list \<Rightarrow> InstanceEnded list \<Rightarrow> RunRecord \<Rightarrow> bool" where
  "hooks_ok created es r \<longleftrightarrow>
     map fst (rec_instances r) = created \<and> distinct created \<and> distinct (map ended_instance es) \<and>
     set (map ended_instance es) = {i. \<exists>info. (i, info) \<in> set (rec_instances r) \<and> hooked info}"

lemma map_fst_set_hooked [simp]: "map fst (set_hooked i xs) = map fst xs"
  by (auto simp: set_hooked_def)

lemma in_set_hooked:
  "(j, info) \<in> set (set_hooked i xs) \<longleftrightarrow>
   (\<exists>old. (j, old) \<in> set xs \<and> info = (if j = i then old\<lparr>hooked := True\<rparr> else old))"
  by (force simp: set_hooked_def)

lemma set_hooked_hooked:
  "{j. \<exists>info. (j, info) \<in> set (set_hooked i xs) \<and> hooked info} =
   {j. \<exists>info. (j, info) \<in> set xs \<and> hooked info} \<union> (if i \<in> fst ` set xs then {i} else {})"
  by (force simp: in_set_hooked split: if_splits)

lemma call_once_ok:
  assumes "hooks_ok created es r" and "call_once True i r = (es', r')"
  shows "hooks_ok created (es @ es') r'"
    and "map ended_instance es' = (if \<exists>info. (i, info) \<in> set (rec_instances r) \<and> \<not> hooked info then [i] else [])"
    and "\<And>j info. (j, info) \<in> set (rec_instances r') \<Longrightarrow> \<not> hooked info \<Longrightarrow> j \<noteq> i \<and> (j, info) \<in> set (rec_instances r)"
proof -
  have d: "distinct (map fst (rec_instances r))" using assms(1) by (simp add: hooks_ok_def)
  have m: "(i, info) \<in> set (rec_instances r) \<longleftrightarrow> map_of (rec_instances r) i = Some info" for info
    using d by (simp add: map_of_eq_Some_iff)
  have u: "map ended_instance es' = (if \<exists>info. (i, info) \<in> set (rec_instances r) \<and> \<not> hooked info then [i] else []) \<and>
      r' = (if \<exists>info. (i, info) \<in> set (rec_instances r) \<and> \<not> hooked info
            then r\<lparr>rec_instances := set_hooked i (rec_instances r), running_hooks := running_hooks r @ [i]\<rparr> else r)"
    using assms(2) by (auto simp: call_once_def claim_hook_def m split: option.splits if_splits)
  then show "map ended_instance es' = (if \<exists>info. (i, info) \<in> set (rec_instances r) \<and> \<not> hooked info then [i] else [])"
    by blast
  show "hooks_ok created (es @ es') r'"
  proof (cases "\<exists>info. (i, info) \<in> set (rec_instances r) \<and> \<not> hooked info")
    case True
    then have "i \<notin> {j. \<exists>info. (j, info) \<in> set (rec_instances r) \<and> hooked info}" using m by auto
    then have "i \<notin> set (map ended_instance es)" using assms(1) by (simp add: hooks_ok_def del: set_map)
    moreover have "i \<in> fst ` set (rec_instances r)" using True by force
    ultimately have "i \<notin> set (map ended_instance es)" "i \<in> fst ` set (rec_instances r)" .
    with True u assms(1) set_hooked_hooked [of i "rec_instances r"] show ?thesis
      by (auto simp: hooks_ok_def)
  next
    case False
    with u assms(1) show ?thesis by (auto simp: hooks_ok_def)
  qed
  show "j \<noteq> i \<and> (j, info) \<in> set (rec_instances r)"
    if "(j, info) \<in> set (rec_instances r')" "\<not> hooked info" for j info
    using that u by (auto simp: set_hooked_def split: if_splits)
qed

lemma call_each_ok:
  assumes "hooks_ok created es r" and "call_each True xs r = (es', r')"
  shows "hooks_ok created (es @ es') r' \<and>
    (\<forall>j info. (j, info) \<in> set (rec_instances r') \<and> \<not> hooked info \<longrightarrow>
       j \<notin> fst ` set xs \<and> (j, info) \<in> set (rec_instances r))"
  using assms
proof (induction xs arbitrary: es es' r)
  case (Cons x xs)
  obtain i n where x: "x = (i, n)" by (cases x)
  obtain es1 r1 where c: "call_once True i r = (es1, r1)" by (cases "call_once True i r")
  obtain es2 where e: "call_each True xs r1 = (es2, r')" "es' = es1 @ es2"
    using Cons.prems(2) c by (auto simp: x split: prod.splits)
  note o = call_once_ok [OF Cons.prems(1) c]
  from Cons.IH [OF o(1) e(1)] o(3) show ?case by (auto simp: e(2) x)
qed simp

lemma call_all_ok:
  assumes "hooks_ok created es r" and "call_all True r = (es', r')"
  shows "hooks_ok created (es @ es') r'" and "\<forall>(_, info) \<in> set (rec_instances r'). hooked info"
proof -
  note c = call_each_ok [OF assms(1) assms(2) [unfolded call_all_def]]
  from c show "hooks_ok created (es @ es') r'" by blast
  show "\<forall>(_, info) \<in> set (rec_instances r'). hooked info"
  proof (intro ballI, clarify, rule ccontr)
    fix j info assume "(j, info) \<in> set (rec_instances r')" "\<not> hooked info"
    with c have "j \<notin> fst ` set (unhooked_instances r)" "(j, info) \<in> set (rec_instances r)" by blast+
    with \<open>\<not> hooked info\<close> show False by (force simp: unhooked_instances_def)
  qed
qed

lemma hook_event_ok:
  assumes "hooks_ok created es r" and "\<And>i n. e = HCreated i n \<Longrightarrow> i \<notin> set created"
    and "hook_event e (es, r) = (es', r')"
  shows "hooks_ok (created @ created_in [e]) es' r'"
proof (cases e)
  case (HCreated i n)
  then have i: "i \<notin> set created" using assms(2) by blast
  then have "filter (\<lambda>(j, _). j \<noteq> i) (rec_instances r) = rec_instances r"
    using assms(1) by (force simp: hooks_ok_def filter_id_conv)
  with HCreated i assms(1,3) show ?thesis
    by (auto simp: hooks_ok_def instance_created_def created_in_def List.map_filter_def)
next
  case (HCallOnce i)
  then show ?thesis using assms(3) call_once_ok(1) [OF assms(1)]
    by (auto simp: created_in_def List.map_filter_def split: prod.splits)
next
  case HCallAll
  then show ?thesis using assms(3) call_all_ok(1) [OF assms(1)]
    by (auto simp: created_in_def List.map_filter_def split: prod.splits)
next
  case (HReturned i)
  with assms(1,3) show ?thesis by (auto simp: hooks_ok_def hook_returned_def created_in_def List.map_filter_def)
qed

lemma hook_events_ok:
  assumes "distinct (created_in evs)" and "fold hook_event evs ([], run_record_new run job c) = (es, r)"
  shows "hooks_ok (created_in evs) es r"
  using assms
proof (induction evs arbitrary: es r rule: rev_induct)
  case Nil
  then show ?case by (auto simp: hooks_ok_def run_record_new_def created_in_def List.map_filter_def)
next
  case (snoc e evs)
  obtain es1 r1 where f: "fold hook_event evs ([], run_record_new run job c) = (es1, r1)"
    by (cases "fold hook_event evs ([], run_record_new run job c)")
  have a: "created_in (evs @ [e]) = created_in evs @ created_in [e]" by (simp add: created_in_def List.map_filter_def)
  with snoc.prems(1) have d: "distinct (created_in evs)" and n: "\<And>i n. e = HCreated i n \<Longrightarrow> i \<notin> set (created_in evs)"
    by (auto simp: created_in_def List.map_filter_def)
  from snoc.IH [OF d f] n snoc.prems(2) f show ?case unfolding a by (intro hook_event_ok) simp_all
qed

text \<open>
  The lifecycle hook of a runner is called at most once for every instance of a Run, and only
  for instances that were created, whatever the order in which instances are created, single
  instances end, all of them are ended and hooks return; after all of them were ended every instance
  created so far has had its call.
\<close>
theorem hooks_called_once:
  assumes "distinct (created_in evs)" and "fold hook_event evs ([], run_record_new run job c) = (es, r)"
    and "call_all True r = (es', r')"
  shows "distinct (map ended_instance es) \<and> set (map ended_instance es) \<subseteq> set (created_in evs) \<and>
    distinct (map ended_instance (es @ es')) \<and> set (map ended_instance (es @ es')) = set (created_in evs)"
proof -
  note ok = hook_events_ok [OF assms(1,2)]
  note a = call_all_ok [OF ok assms(3)]
  have "set (created_in evs) = fst ` set (rec_instances r')" using a(1) by (simp add: hooks_ok_def flip: set_map)
  then have "set (created_in evs) = {i. \<exists>info. (i, info) \<in> set (rec_instances r') \<and> hooked info}"
    using a(2) by force
  moreover have "set (created_in evs) = fst ` set (rec_instances r)" using ok by (simp add: hooks_ok_def flip: set_map)
  then have "set (map ended_instance es) \<subseteq> set (created_in evs)"
    using ok by (force simp: hooks_ok_def)
  ultimately show ?thesis using ok a(1) by (simp add: hooks_ok_def)
qed

theorem hooks_called_once_witness:
  "\<exists>es r es' r'. fold hook_event [HCreated 1 ''a'', HCreated 2 ''b'', HCallOnce 1, HCallOnce 1, HReturned 1]
      ([], run_record_new 5 6 False) = (es, r) \<and>
    call_all True r = (es', r') \<and> set (map ended_instance (es @ es')) = {1, 2} \<and> distinct (map ended_instance (es @ es'))"
proof -
  let ?evs = "[HCreated 1 ''a'', HCreated 2 ''b'', HCallOnce 1, HCallOnce 1, HReturned 1]"
  obtain es r where f: "fold hook_event ?evs ([], run_record_new 5 6 False) = (es, r)" by (metis prod.exhaust)
  obtain es' r' where a: "call_all True r = (es', r')" by (metis prod.exhaust)
  have "created_in ?evs = [1, 2]" by (simp add: created_in_def List.map_filter_def)
  then have "set (map ended_instance (es @ es')) = {1, 2} \<and> distinct (map ended_instance (es @ es'))"
    using hooks_called_once [OF _ f a] by simp
  with f a show ?thesis by blast
qed

end
