(* ===== verification/Cancel_Set.thy ===== *)
theory Cancel_Set
  imports Prelude
begin

text \<open>
  The set of cancelled Runs of \<open>br-jobs-runner-core\<close> (\<open>cancel.rs\<close>): the entries of the cancel
  bucket that are put and deleted, and the replay that replaces them after a reconnect.
\<close>

record CancelSet =
  cancelled :: "uuid set"

definition cancel_set_new :: CancelSet where
  "cancel_set_new = \<lparr>cancelled = {}\<rparr>"

definition apply_put :: "uuid \<Rightarrow> CancelSet \<Rightarrow> CancelSet" where
  "apply_put run s = s\<lparr>cancelled := insert run (cancelled s)\<rparr>"

definition apply_delete :: "uuid \<Rightarrow> CancelSet \<Rightarrow> CancelSet" where
  "apply_delete run s = s\<lparr>cancelled := cancelled s - {run}\<rparr>"

definition replace_with_replay :: "uuid list \<Rightarrow> CancelSet \<Rightarrow> CancelSet" where
  "replace_with_replay runs s = s\<lparr>cancelled := set runs\<rparr>"

definition is_cancelled :: "uuid \<Rightarrow> CancelSet \<Rightarrow> bool" where
  "is_cancelled run s \<longleftrightarrow> run \<in> cancelled s"

definition cancel_set_len :: "CancelSet \<Rightarrow> nat" where
  "cancel_set_len s = card (cancelled s)"

definition cancel_set_is_empty :: "CancelSet \<Rightarrow> bool" where
  "cancel_set_is_empty s \<longleftrightarrow> cancelled s = {}"

lemmas cancel_set_defs = cancel_set_new_def apply_put_def apply_delete_def replace_with_replay_def
  is_cancelled_def cancel_set_len_def cancel_set_is_empty_def

datatype cancel_op = Put uuid | Delete uuid | Replay "uuid list"

fun cancel_step :: "cancel_op \<Rightarrow> CancelSet \<Rightarrow> CancelSet" where
  "cancel_step (Put run) s = apply_put run s"
| "cancel_step (Delete run) s = apply_delete run s"
| "cancel_step (Replay runs) s = replace_with_replay runs s"

text \<open>What the last operation that concerns a Run says of it.\<close>

fun says :: "uuid \<Rightarrow> cancel_op \<Rightarrow> bool option" where
  "says run (Put r) = (if r = run then Some True else None)"
| "says run (Delete r) = (if r = run then Some False else None)"
| "says run (Replay rs) = Some (run \<in> set rs)"

lemma is_cancelled_step:
  "is_cancelled run (cancel_step op s) = (case says run op of Some b \<Rightarrow> b | None \<Rightarrow> is_cancelled run s)"
  by (cases op) (auto simp: cancel_set_defs)

lemma is_cancelled_new [simp]: "\<not> is_cancelled run cancel_set_new"
  by (simp add: cancel_set_defs)

lemma finite_cancelled: "finite (cancelled s) \<Longrightarrow> finite (cancelled (cancel_step op s))"
  by (cases op) (auto simp: cancel_set_defs)

text \<open>
  After any sequence of puts, deletes and replays from the empty set, a Run is cancelled
  exactly when the last operation that concerns it (a put or a delete of the Run, or any replay)
  says so, and the set is empty exactly when its length is 0.
\<close>
theorem cancel_set_last_word:
  "is_cancelled run (fold cancel_step ops cancel_set_new) =
     (case List.map_filter (says run) (rev ops) of [] \<Rightarrow> False | b # _ \<Rightarrow> b) \<and>
   (cancel_set_is_empty (fold cancel_step ops cancel_set_new) \<longleftrightarrow>
     cancel_set_len (fold cancel_step ops cancel_set_new) = 0)"
proof
  show "is_cancelled run (fold cancel_step ops cancel_set_new) =
     (case List.map_filter (says run) (rev ops) of [] \<Rightarrow> False | b # _ \<Rightarrow> b)"
    by (induction ops rule: rev_induct)
      (auto simp: is_cancelled_step List.map_filter_simps split: option.splits list.splits)
  have "finite (cancelled (fold cancel_step ops cancel_set_new))"
    by (rule fold_invariant [where P = "\<lambda>s. finite (cancelled s)"])
      (simp_all add: finite_cancelled cancel_set_new_def)
  then show "cancel_set_is_empty (fold cancel_step ops cancel_set_new) \<longleftrightarrow>
     cancel_set_len (fold cancel_step ops cancel_set_new) = 0"
    by (simp add: cancel_set_is_empty_def cancel_set_len_def)
qed

end
