(* ===== verification/Cancel_Feed.thy ===== *)
theory Cancel_Feed
  imports Jobs_Model Cancel_Set
begin

text \<open>
  The feed of the cancel orders (\<open>runner_transport/cancel.rs\<close>): the entries that the watch of the
  cancel bucket gives, turned into the events of the feed. The watch, the parser of a key and the
  decoder of an order are outside: an entry is an input, \<open>parse\<close>, \<open>key_of\<close>, \<open>shown\<close> (the text of an
  id) and \<open>decode\<close> (the Run an order names, or where its text cannot be read) are parameters.
\<close>

datatype KvOperation = KvPut | KvDelete | KvPurge

record KvEntry =
  kv_key :: string
  kv_operation :: KvOperation
  kv_value :: string
  seen_current :: bool

record CancelFeed =
  feed_pending :: "(CancelEvent, Error) result list"
  feed_replayed :: bool

definition cancel_run_of :: "(string \<Rightarrow> uuid option) \<Rightarrow> (uuid \<Rightarrow> string) \<Rightarrow> string \<Rightarrow> uuid option" where
  "cancel_run_of parse key_of key =
     (case parse key of
        None \<Rightarrow> None
      | Some run \<Rightarrow> if key_of run = key then Some run else None)"

definition feed_order ::
  "(uuid \<Rightarrow> string) \<Rightarrow> (string \<Rightarrow> (uuid, string) result) \<Rightarrow> uuid \<Rightarrow> KvEntry \<Rightarrow> CancelFeed \<Rightarrow> CancelFeed" where
  "feed_order shown decode run entry f =
     (case kv_operation entry of
        KvPut \<Rightarrow>
          (case decode (kv_value entry) of
             Inr named \<Rightarrow>
               if named = run then f\<lparr>feed_pending := feed_pending f @ [Ok (OrderMade run)]\<rparr>
               else f\<lparr>feed_pending := feed_pending f @
                 [Err (Unreadable (''the cancel order of the key '' @ shown run @ '' names another Run''))]\<rparr>
           | Inl at \<Rightarrow> f\<lparr>feed_pending := feed_pending f @
               [Err (Unreadable (''the cancel order of the key '' @ shown run @ '': '' @ at))]\<rparr>)
      | _ \<Rightarrow>
          if feed_replayed f then f\<lparr>feed_pending := feed_pending f @ [Ok (OrderDeleted run)]\<rparr> else f)"

definition feed_take ::
  "(string \<Rightarrow> uuid option) \<Rightarrow> (uuid \<Rightarrow> string) \<Rightarrow> (uuid \<Rightarrow> string) \<Rightarrow>
   (string \<Rightarrow> (uuid, string) result) \<Rightarrow> KvEntry \<Rightarrow> CancelFeed \<Rightarrow> CancelFeed" where
  "feed_take parse key_of shown decode entry f =
     (let f1 = (case cancel_run_of parse key_of (kv_key entry) of
                  Some run \<Rightarrow> feed_order shown decode run entry f
                | None \<Rightarrow> f)
      in if \<not> feed_replayed f1 \<and> seen_current entry then
           f1\<lparr>feed_replayed := True, feed_pending := feed_pending f1 @ [Ok ReplayComplete]\<rparr>
         else f1)"

definition open_cancel_feed :: "nat \<Rightarrow> CancelFeed" where
  "open_cancel_feed stored =
     (if stored = 0 then \<lparr>feed_pending = [Ok ReplayComplete], feed_replayed = True\<rparr>
      else \<lparr>feed_pending = [], feed_replayed = False\<rparr>)"

text \<open>Everything the feed has given and will give after the entries \<open>es\<close>: \<open>next\<close> pops the front.\<close>

definition cancel_events ::
  "(string \<Rightarrow> uuid option) \<Rightarrow> (uuid \<Rightarrow> string) \<Rightarrow> (uuid \<Rightarrow> string) \<Rightarrow>
   (string \<Rightarrow> (uuid, string) result) \<Rightarrow> nat \<Rightarrow> KvEntry list \<Rightarrow>
   (CancelEvent, Error) result list" where
  "cancel_events parse key_of shown decode stored es =
     feed_pending (fold (feed_take parse key_of shown decode) es (open_cancel_feed stored))"

section \<open>The contract of a feed that replays first\<close>

text \<open>
  What a client of the feed relies on: the feed only grows, the end of the replay comes at most
  once, and no deletion comes before it.
\<close>

locale replay_feed =
  fixes events :: "'e list \<Rightarrow> (CancelEvent, Error) result list"
  assumes grows: "\<exists>new. events (es @ [e]) = events es @ new"
    and complete_once: "length (filter (\<lambda>x. x = Ok ReplayComplete) (events es)) \<le> 1"
    and no_early_delete: "events es = xs @ Ok (OrderDeleted run) # ys \<Longrightarrow> Ok ReplayComplete \<in> set xs"
begin

lemma complete_not_twice: "events es = xs @ Ok ReplayComplete # ys \<Longrightarrow> Ok ReplayComplete \<notin> set xs"
proof
  assume e: "events es = xs @ Ok ReplayComplete # ys" and m: "Ok ReplayComplete \<in> set xs"
  from m have "1 \<le> length (filter (\<lambda>x. x = Ok ReplayComplete) xs)"
    by (metis (mono_tags, lifting) One_nat_def Suc_leI filter_empty_conv length_greater_0_conv)
  with complete_once [of es] show False by (simp add: e)
qed

lemma events_prefix: "\<exists>new. events (es @ fs) = events es @ new"
proof (induction fs rule: rev_induct)
  case (snoc f fs)
  then obtain new where "events (es @ fs) = events es @ new" by blast
  moreover obtain more where "events ((es @ fs) @ [f]) = events (es @ fs) @ more" using grows by blast
  ultimately show ?case by simp
qed simp

end

definition feed_ok :: "CancelFeed \<Rightarrow> bool" where
  "feed_ok f \<longleftrightarrow>
     length (filter (\<lambda>x. x = Ok ReplayComplete) (feed_pending f)) = (if feed_replayed f then 1 else 0) \<and>
     (\<forall>xs run ys. feed_pending f = xs @ Ok (OrderDeleted run) # ys \<longrightarrow> Ok ReplayComplete \<in> set xs)"

lemma split_snoc:
  "zs @ [z] = xs @ y # ys \<longleftrightarrow> (ys = [] \<and> zs = xs \<and> y = z) \<or> (\<exists>ys'. ys = ys' @ [z] \<and> zs = xs @ y # ys')"
  by (cases ys rule: rev_cases) auto

lemma feed_ok_push:
  assumes "feed_ok f" and "x \<noteq> Ok ReplayComplete" and "\<And>run. x = Ok (OrderDeleted run) \<Longrightarrow> feed_replayed f"
  shows "feed_ok (f\<lparr>feed_pending := feed_pending f @ [x]\<rparr>)"
proof -
  have "Ok ReplayComplete \<in> set (feed_pending f)" if "feed_replayed f"
  proof -
    from assms(1) that have "filter (\<lambda>x. x = Ok ReplayComplete) (feed_pending f) \<noteq> []" by (auto simp: feed_ok_def)
    then show ?thesis by (simp add: filter_empty_conv)
  qed
  with assms show ?thesis by (auto simp: feed_ok_def split_snoc)
qed

lemma feed_ok_complete:
  "feed_ok f \<Longrightarrow> \<not> feed_replayed f \<Longrightarrow>
   feed_ok (f\<lparr>feed_replayed := True, feed_pending := feed_pending f @ [Ok ReplayComplete]\<rparr>)"
  by (auto simp: feed_ok_def split_snoc)

lemma feed_order_ok: "feed_ok f \<Longrightarrow> feed_ok (feed_order shown decode run entry f) \<and> feed_replayed (feed_order shown decode run entry f) = feed_replayed f"
  by (auto simp: feed_order_def intro!: feed_ok_push split: KvOperation.split sum.split)

lemma feed_take_ok: "feed_ok f \<Longrightarrow> feed_ok (feed_take parse key_of shown decode entry f)"
  using feed_order_ok [of f shown decode _ entry]
  by (auto simp: feed_take_def Let_def feed_ok_complete split: option.split)

lemma feed_take_grows: "\<exists>new. feed_pending (feed_take parse key_of shown decode entry f) = feed_pending f @ new"
  by (auto simp: feed_take_def feed_order_def Let_def split: option.split KvOperation.split sum.split)

lemma open_cancel_feed_ok: "feed_ok (open_cancel_feed stored)"
  by (auto simp: feed_ok_def open_cancel_feed_def Cons_eq_append_conv)

lemma cancel_events_ok: "feed_ok (fold (feed_take parse key_of shown decode) es (open_cancel_feed stored))"
  by (rule fold_invariant [where P = feed_ok]) (simp_all add: open_cancel_feed_ok feed_take_ok)

interpretation cancel_feed: replay_feed "cancel_events parse key_of shown decode stored"
proof
  fix es e xs run ys
  show "\<exists>new. cancel_events parse key_of shown decode stored (es @ [e]) = cancel_events parse key_of shown decode stored es @ new"
    using feed_take_grows by (simp add: cancel_events_def)
  show "length (filter (\<lambda>x. x = Ok ReplayComplete) (cancel_events parse key_of shown decode stored es)) \<le> 1"
    using cancel_events_ok [of parse key_of shown decode es stored] by (simp add: feed_ok_def cancel_events_def)
  show "Ok ReplayComplete \<in> set xs" if "cancel_events parse key_of shown decode stored es = xs @ Ok (OrderDeleted run) # ys"
    using cancel_events_ok [of parse key_of shown decode es stored] that by (auto simp: feed_ok_def cancel_events_def)
qed

end
