(* ===== verification/Run_Registry.thy ===== *)
theory Run_Registry
  imports Run_Record Cancel_Feed
begin

text \<open>
  The state that the tasks of a runner share (\<open>shared.rs\<close> of the toolkit) and the two feeds that
  write it (\<open>feeds.rs\<close>): the Runs in flight, the cancel orders, the dispatch mode with its epochs and
  the beat. It is modelled as the crate is built without its test host. The epochs are \<open>u64\<close>
  words: \<open>fetch_add\<close> wraps. What the task of the cancel orders keeps locally, the replay so far and
  whether it is complete, is part of the state; a feed that is read is \<open>open\<close>.
\<close>

section \<open>The state and its operations\<close>

datatype RunMode = NoEntry | PushRuns | ClaimRuns

record LoopState =
  mode :: RunMode
  replay_complete :: bool

definition can_ask :: "LoopState \<Rightarrow> bool" where
  "can_ask s \<longleftrightarrow> mode s \<noteq> NoEntry \<and> replay_complete s"

record Runner =
  draining :: bool
  status :: PresenceStatus
  beat :: nat
  loop_state :: LoopState
  mode_epoch :: u64
  stopped_epoch :: u64
  runs :: "uuid \<rightharpoonup> RunRecord"
  known_cancels :: "uuid set"
  order_feed_open :: bool
  replayed :: "uuid set"
  complete_replay :: bool

definition NOT_STOPPED :: u64 where
  "NOT_STOPPED = - 1"

definition runner_new :: Runner where
  "runner_new = \<lparr>draining = False, status = StatusReady, beat = 0,
     loop_state = \<lparr>mode = NoEntry, replay_complete = False\<rparr>, mode_epoch = 0, stopped_epoch = NOT_STOPPED,
     runs = Map.empty, known_cancels = {}, order_feed_open = False, replayed = {}, complete_replay = False\<rparr>"

text \<open>Registers a Run: the new record, or the one that is known already.\<close>

definition register_run :: "uuid \<Rightarrow> uuid \<Rightarrow> Runner \<Rightarrow> (RunRecord, RunRecord) result \<times> Runner" where
  "register_run run job s =
     (case runs s run of
        Some existing \<Rightarrow> (Err existing, s)
      | None \<Rightarrow>
          (let record = run_record_new run job (run \<in> known_cancels s)
           in (Ok record, s\<lparr>runs := (runs s)(run \<mapsto> record)\<rparr>)))"

definition forget_run :: "uuid \<Rightarrow> Runner \<Rightarrow> Runner" where
  "forget_run run s = s\<lparr>runs := (runs s)(run := None)\<rparr>"

definition trigger_run :: "uuid \<Rightarrow> Runner \<Rightarrow> Runner" where
  "trigger_run run s = s\<lparr>runs := (runs s)(run := map_option trigger_cancel (runs s run))\<rparr>"

definition order_made :: "uuid \<Rightarrow> Runner \<Rightarrow> Runner" where
  "order_made run s = trigger_run run (s\<lparr>known_cancels := insert run (known_cancels s)\<rparr>)"

definition order_deleted :: "uuid \<Rightarrow> Runner \<Rightarrow> Runner" where
  "order_deleted run s = s\<lparr>known_cancels := known_cancels s - {run}\<rparr>"

definition replace_orders :: "uuid set \<Rightarrow> Runner \<Rightarrow> Runner" where
  "replace_orders orders s =
     s\<lparr>runs := (\<lambda>run. if run \<in> orders then map_option trigger_cancel (runs s run) else runs s run),
       known_cancels := orders\<rparr>"

definition set_replay_complete :: "bool \<Rightarrow> Runner \<Rightarrow> Runner" where
  "set_replay_complete b s = s\<lparr>loop_state := (loop_state s)\<lparr>replay_complete := b\<rparr>\<rparr>"

definition mode_changed :: "RunMode \<Rightarrow> Runner \<Rightarrow> Runner" where
  "mode_changed m s = s\<lparr>mode_epoch := mode_epoch s + 1, loop_state := (loop_state s)\<lparr>mode := m\<rparr>\<rparr>"

definition stop_claims :: "u64 \<Rightarrow> Runner \<Rightarrow> Runner" where
  "stop_claims claim_epoch s = (if claim_epoch = mode_epoch s then s\<lparr>stopped_epoch := claim_epoch\<rparr> else s)"

definition claims_stopped :: "Runner \<Rightarrow> bool" where
  "claims_stopped s \<longleftrightarrow> stopped_epoch s = mode_epoch s"

definition beat_now :: "Runner \<Rightarrow> Runner" where
  "beat_now s = s\<lparr>beat := beat s + 1\<rparr>"

definition begin_drain :: "Runner \<Rightarrow> Runner" where
  "begin_drain s = s\<lparr>draining := True, status := StatusDraining\<rparr>"

section \<open>The feeds\<close>

fun mode_of :: "ModeEvent \<Rightarrow> RunMode" where
  "mode_of (ModeEntry PushMode) = PushRuns"
| "mode_of (ModeEntry ClaimMode) = ClaimRuns"
| "mode_of NoModeEntry = NoEntry"

definition on_mode_event :: "ModeEvent \<Rightarrow> Runner \<Rightarrow> Runner" where
  "on_mode_event e s = mode_changed (mode_of e) s"

text \<open>The turns of \<open>cancel_orders\<close>: the top of its outer loop with a feed opened, an event, an end.\<close>

definition orders_opened :: "Runner \<Rightarrow> Runner" where
  "orders_opened s = (set_replay_complete False s)\<lparr>order_feed_open := True, replayed := {}, complete_replay := False\<rparr>"

definition on_cancel_event :: "CancelEvent \<Rightarrow> Runner \<Rightarrow> Runner" where
  "on_cancel_event e s =
     (case e of
        OrderMade run \<Rightarrow>
          if complete_replay s then order_made run s else s\<lparr>replayed := insert run (replayed s)\<rparr>
      | OrderDeleted run \<Rightarrow>
          if complete_replay s then order_deleted run s else s\<lparr>replayed := replayed s - {run}\<rparr>
      | ReplayComplete \<Rightarrow>
          set_replay_complete True
            (replace_orders (replayed s) (s\<lparr>complete_replay := True, replayed := {}\<rparr>)))"

definition orders_ended :: "Runner \<Rightarrow> Runner" where
  "orders_ended s = (set_replay_complete False s)\<lparr>order_feed_open := False, complete_replay := False, replayed := {}\<rparr>"

lemmas runner_defs = trigger_run_def order_made_def order_deleted_def replace_orders_def set_replay_complete_def
  mode_changed_def stop_claims_def beat_now_def begin_drain_def on_mode_event_def orders_opened_def
  orders_ended_def forget_run_def trigger_cancel_def

section \<open>The steps\<close>

datatype RunnerEvent =
    ERegister uuid uuid
  | EForget uuid
  | ERecord uuid RunRecord
  | EMode ModeEvent
  | EStopClaims u64
  | EBeat
  | EDrain
  | EOrdersOpened
  | EOrder CancelEvent
  | EOrdersEnded

text \<open>
  The tasks of a Run write its record but never untrigger its cancel handle. The end of the replay
  comes once from a feed (\<open>replay_feed.complete_not_twice\<close>).
\<close>

inductive runner_step :: "Runner \<Rightarrow> RunnerEvent \<Rightarrow> Runner \<Rightarrow> bool" where
  r_register: "runner_step s (ERegister run job) (snd (register_run run job s))"
| r_forget: "runner_step s (EForget run) (forget_run run s)"
| r_record: "runs s run = Some old \<Longrightarrow> (cancel old \<longrightarrow> cancel new) \<Longrightarrow>
    runner_step s (ERecord run new) (s\<lparr>runs := (runs s)(run \<mapsto> new)\<rparr>)"
| r_mode: "runner_step s (EMode e) (on_mode_event e s)"
| r_stop: "runner_step s (EStopClaims epoch) (stop_claims epoch s)"
| r_beat: "runner_step s EBeat (beat_now s)"
| r_drain: "runner_step s EDrain (begin_drain s)"
| r_opened: "\<not> order_feed_open s \<Longrightarrow> runner_step s EOrdersOpened (orders_opened s)"
| r_order: "order_feed_open s \<Longrightarrow> (e = ReplayComplete \<Longrightarrow> \<not> complete_replay s) \<Longrightarrow>
    runner_step s (EOrder e) (on_cancel_event e s)"
| r_ended: "order_feed_open s \<Longrightarrow> runner_step s EOrdersEnded (orders_ended s)"

abbreviation runner_reach :: "Runner \<Rightarrow> bool" where
  "runner_reach \<equiv> reach (\<lambda>s. s = runner_new) runner_step"

section \<open>What the orders mean: a cancel set and the Runs it cancels\<close>

text \<open>
  The specification keeps two cancel sets of \<open>br-jobs-runner-core\<close>: what the open feed has announced
  so far and what is in force. What a feed announces takes effect as a whole at the end of its
  replay and at once from then on, and every Run in flight that an order in force names is
  cancelled.
\<close>

record OrderSpec =
  announced :: CancelSet
  in_force :: CancelSet
  spec_complete :: bool
  spec_runs :: "uuid \<rightharpoonup> bool"

fun cancel_op_of :: "CancelEvent \<Rightarrow> cancel_op option" where
  "cancel_op_of (OrderMade run) = Some (Put run)"
| "cancel_op_of (OrderDeleted run) = Some (Delete run)"
| "cancel_op_of ReplayComplete = None"

definition announce :: "CancelEvent \<Rightarrow> CancelSet \<Rightarrow> CancelSet" where
  "announce e c = (case cancel_op_of e of Some op \<Rightarrow> cancel_step op c | None \<Rightarrow> c)"

definition enforce :: "OrderSpec \<Rightarrow> OrderSpec" where
  "enforce a = a\<lparr>in_force := announced a,
     spec_runs := (\<lambda>run. map_option (\<lambda>c. c \<or> is_cancelled run (announced a)) (spec_runs a run))\<rparr>"

inductive order_step :: "OrderSpec \<Rightarrow> RunnerEvent \<Rightarrow> OrderSpec \<Rightarrow> bool" where
  o_register: "order_step a (ERegister run job)
    (if spec_runs a run = None then a\<lparr>spec_runs := (spec_runs a)(run \<mapsto> is_cancelled run (in_force a))\<rparr> else a)"
| o_forget: "order_step a (EForget run) (a\<lparr>spec_runs := (spec_runs a)(run := None)\<rparr>)"
| o_record: "spec_runs a run = Some old \<Longrightarrow> (old \<longrightarrow> c) \<Longrightarrow>
    order_step a (ERecord run new) (a\<lparr>spec_runs := (spec_runs a)(run \<mapsto> c)\<rparr>)"
| o_other: "order_step a (EMode e) a" | "order_step a (EStopClaims epoch) a" | "order_step a EBeat a"
| "order_step a EDrain a"
| o_opened: "order_step a EOrdersOpened (a\<lparr>announced := cancel_set_new, spec_complete := False\<rparr>)"
| o_order: "order_step a (EOrder e)
    (let b = a\<lparr>announced := announce e (announced a), spec_complete := spec_complete a \<or> e = ReplayComplete\<rparr>
     in if spec_complete b then enforce b else b)"
| o_ended: "order_step a EOrdersEnded (a\<lparr>announced := cancel_set_new, spec_complete := False\<rparr>)"

definition order_abs :: "Runner \<Rightarrow> OrderSpec" where
  "order_abs s = \<lparr>announced = \<lparr>cancelled = (if complete_replay s then known_cancels s else replayed s)\<rparr>,
     in_force = \<lparr>cancelled = known_cancels s\<rparr>, spec_complete = complete_replay s,
     spec_runs = (\<lambda>run. map_option cancel (runs s run))\<rparr>"

definition runner_inv :: "Runner \<Rightarrow> bool" where
  "runner_inv s \<longleftrightarrow>
     (\<forall>run r. runs s run = Some r \<longrightarrow> run \<in> known_cancels s \<longrightarrow> cancel r) \<and>
     (replay_complete (loop_state s) \<longleftrightarrow> complete_replay s) \<and>
     (complete_replay s \<longrightarrow> order_feed_open s)"

lemma runner_step_inv: "runner_step s e t \<Longrightarrow> runner_inv s \<Longrightarrow> runner_inv t"
proof (induction rule: runner_step.induct)
  case (r_register s run job)
  then show ?case
    by (auto simp: runner_inv_def register_run_def run_record_new_def Let_def split: option.split)
next
  case (r_order s e)
  then show ?case by (cases e) (auto simp: runner_inv_def on_cancel_event_def runner_defs)
qed (auto simp: runner_inv_def runner_defs)

text \<open>In the specification a Run that an order names while it is in force is cancelled already.\<close>

lemma cancel_still:
  "runner_inv s \<Longrightarrow> map_option (\<lambda>r. cancel r \<or> run \<in> known_cancels s) (runs s run) = map_option cancel (runs s run)"
  by (cases "runs s run") (auto simp: runner_inv_def)

lemma order_event_abs:
  assumes "runner_inv s" and "e = ReplayComplete \<Longrightarrow> \<not> complete_replay s"
  shows "order_step (order_abs s) (EOrder e) (order_abs (on_cancel_event e s))"
proof -
  let ?b = "(order_abs s)\<lparr>announced := announce e (announced (order_abs s)),
    spec_complete := spec_complete (order_abs s) \<or> e = ReplayComplete\<rparr>"
  have still: "\<And>run r. runs s run = Some r \<Longrightarrow> run \<in> known_cancels s \<Longrightarrow> cancel r"
    using assms(1) by (simp add: runner_inv_def)
  have "order_abs (on_cancel_event e s) = (if spec_complete ?b then enforce ?b else ?b)"
    using assms(2) still
    by (cases e; cases "complete_replay s")
      (auto simp: order_abs_def on_cancel_event_def enforce_def announce_def cancel_set_defs runner_defs fun_eq_iff
        option.map_comp comp_def intro!: option.map_cong0 split: option.splits)
  with o_order [of "order_abs s" e] show ?thesis by (simp add: Let_def)
qed

lemma runner_step_abs: "runner_step s e t \<Longrightarrow> runner_inv s \<Longrightarrow> order_step (order_abs s) e (order_abs t)"
proof (induction rule: runner_step.induct)
  case (r_register s run job)
  then show ?case using o_register [of "order_abs s" run job]
    by (cases "runs s run")
      (auto simp: order_abs_def register_run_def run_record_new_def is_cancelled_def fun_eq_iff Let_def
        elim!: back_subst [of "order_step _ _"])
next
  case (r_forget s run)
  then show ?case using o_forget [of "order_abs s" run]
    by (auto simp: order_abs_def runner_defs fun_eq_iff elim!: back_subst [of "order_step _ _"])
next
  case (r_record s run old new)
  then show ?case using o_record [of "order_abs s" run "cancel old" "cancel new" new]
    by (auto simp: order_abs_def fun_eq_iff elim!: back_subst [of "order_step _ _"])
next
  case (r_order s e)
  then show ?case by (intro order_event_abs) simp_all
next
  case (r_opened s)
  then show ?case using o_opened [of "order_abs s"] by (simp add: order_abs_def runner_defs cancel_set_new_def)
next
  case (r_ended s)
  then show ?case using o_ended [of "order_abs s"] by (simp add: order_abs_def runner_defs cancel_set_new_def)
qed (simp_all add: order_abs_def runner_defs order_step.intros)

interpretation orders: simulation "\<lambda>s. s = runner_new" runner_step
  "\<lambda>a. a = \<lparr>announced = cancel_set_new, in_force = cancel_set_new, spec_complete = False, spec_runs = Map.empty\<rparr>"
  order_step order_abs runner_inv
proof
  show "runner_inv s" if "s = runner_new" for s using that by (simp add: runner_inv_def runner_new_def)
  show "order_abs s = \<lparr>announced = cancel_set_new, in_force = cancel_set_new, spec_complete = False, spec_runs = Map.empty\<rparr>"
    if "s = runner_new" for s using that by (simp add: order_abs_def runner_new_def cancel_set_new_def)
qed (simp_all add: runner_step_inv runner_step_abs)

abbreviation order_reach :: "OrderSpec \<Rightarrow> bool" where
  "order_reach \<equiv> reach (\<lambda>a. a = \<lparr>announced = cancel_set_new, in_force = cancel_set_new, spec_complete = False,
     spec_runs = Map.empty\<rparr>) order_step"


lemma runner_new_reach: "runner_reach runner_new"
  by (rule reach_init) simp


section \<open>From the bucket to the registry\<close>

text \<open>What the registry is told of a feed: the events, the unreadable entries passed over.\<close>

definition readable :: "(CancelEvent, Error) result list \<Rightarrow> CancelEvent list" where
  "readable xs = List.map_filter (\<lambda>x. case x of Inr e \<Rightarrow> Some e | Inl _ \<Rightarrow> None) xs"

definition announcement :: "CancelEvent list \<Rightarrow> CancelSet" where
  "announcement evs = fold announce evs cancel_set_new"

lemma announce_complete [simp]: "announce ReplayComplete c = c"
  by (simp add: announce_def)

definition feed_state :: "uuid set \<Rightarrow> CancelSet \<Rightarrow> Runner \<Rightarrow> bool" where
  "feed_state old a t \<longleftrightarrow>
     (if complete_replay t then known_cancels t = cancelled a else known_cancels t = old \<and> replayed t = cancelled a)"

lemma feed_state_event:
  assumes "feed_state old a t" and "e = ReplayComplete \<Longrightarrow> \<not> complete_replay t"
  shows "feed_state old (announce e a) (on_cancel_event e t)"
    and "complete_replay (on_cancel_event e t) \<longleftrightarrow> complete_replay t \<or> e = ReplayComplete"
  using assms
  by (cases e; cases "complete_replay t";
      simp add: feed_state_def announce_def on_cancel_event_def cancel_set_defs runner_defs)+

lemma feed_events_state:
  assumes "length (filter (\<lambda>e. e = ReplayComplete) evs) \<le> 1"
  shows "feed_state (known_cancels s) (announcement evs) (fold on_cancel_event evs (orders_opened s))"
    and "complete_replay (fold on_cancel_event evs (orders_opened s)) \<longleftrightarrow> ReplayComplete \<in> set evs"
proof -
  let ?t = "\<lambda>evs. fold on_cancel_event evs (orders_opened s)"
  have "feed_state (known_cancels s) (announcement evs) (?t evs) \<and> (complete_replay (?t evs) \<longleftrightarrow> ReplayComplete \<in> set evs)"
    using assms
  proof (induction evs rule: rev_induct)
    case Nil
    then show ?case by (simp add: feed_state_def announcement_def cancel_set_defs runner_defs)
  next
    case (snoc e evs)
    have "length (filter (\<lambda>e. e = ReplayComplete) evs) \<le> 1" using snoc.prems by (simp split: if_splits)
    note ih = snoc.IH [OF this]
    then have "\<not> complete_replay (?t evs)" if "e = ReplayComplete"
      using snoc.prems that by (auto simp: filter_empty_conv)
    note st = feed_state_event [OF conjunct1 [OF ih] this]
    show ?case using st ih by (auto simp: announcement_def)
  qed
  then show "feed_state (known_cancels s) (announcement evs) (?t evs)"
    and "complete_replay (?t evs) \<longleftrightarrow> ReplayComplete \<in> set evs" by simp_all
qed

lemma readable_once:
  assumes "length (filter (\<lambda>x. x = Ok ReplayComplete) xs) \<le> 1"
  shows "length (filter (\<lambda>e. e = ReplayComplete) (readable xs)) \<le> 1"
proof -
  have "length (filter (\<lambda>e. e = ReplayComplete) (readable xs)) = length (filter (\<lambda>x. x = Ok ReplayComplete) xs)"
  proof (induction xs)
    case (Cons x xs)
    then show ?case by (cases x) (simp_all add: readable_def List.map_filter_def)
  qed (simp add: readable_def List.map_filter_def)
  with assms show ?thesis by simp
qed

text \<open>Any client that reads a feed which keeps the contract knows the orders it announced.\<close>

context replay_feed
begin

lemma orders_known:
  "let t = fold on_cancel_event (readable (events es)) (orders_opened s) in
   complete_replay t = (Ok ReplayComplete \<in> set (events es)) \<and>
   (complete_replay t \<longrightarrow> known_cancels t = cancelled (announcement (readable (events es))))"
proof -
  have "ReplayComplete \<in> set (readable xs) \<longleftrightarrow> Ok ReplayComplete \<in> set xs" for xs
    by (induction xs) (auto simp: readable_def List.map_filter_def split: sum.splits)
  with feed_events_state [OF readable_once [OF complete_once [of es]], of s] show ?thesis
    by (auto simp: Let_def feed_state_def)
qed

end

text \<open>
  From the cancel bucket to the Runs. A runner that read the feed of a bucket with whatever
  entries the watch gave it knows, once the replay is over, exactly the orders that the feed
  announced as made and did not announce as deleted since; the replay is over for the runner
  exactly when the feed said so, which it does once.
\<close>
theorem cancel_orders_known:
  "let t = fold on_cancel_event (readable (cancel_events parse key_of shown decode stored es)) (orders_opened s) in
   complete_replay t = (Ok ReplayComplete \<in> set (cancel_events parse key_of shown decode stored es)) \<and>
   (complete_replay t \<longrightarrow>
      known_cancels t = cancelled (announcement (readable (cancel_events parse key_of shown decode stored es))))"
  by (rule cancel_feed.orders_known)

theorem cancel_orders_known_witness:
  "let es = [\<lparr>kv_key = ''k'', kv_operation = KvPut, kv_value = ''v'', seen_current = True\<rparr>];
       t = fold on_cancel_event (readable (cancel_events (\<lambda>_. Some 4) (\<lambda>_. ''k'') (\<lambda>_. []) (\<lambda>_. Ok 4) 1 es))
             (orders_opened runner_new)
   in complete_replay t \<and> known_cancels t = {4}"
proof -
  let ?es = "[\<lparr>kv_key = ''k'', kv_operation = KvPut, kv_value = ''v'', seen_current = True\<rparr>]"
  let ?x = "cancel_events (\<lambda>_. Some 4) (\<lambda>_. ''k'') (\<lambda>_. []) (\<lambda>_. Ok 4) 1 ?es"
  have x: "?x = [Ok (OrderMade 4), Ok ReplayComplete]"
    by (simp add: cancel_events_def open_cancel_feed_def feed_take_def feed_order_def cancel_run_of_def Let_def)
  then have "cancelled (announcement (readable ?x)) = {4}"
    by (simp add: announcement_def readable_def List.map_filter_def announce_def cancel_set_defs)
  with x cancel_orders_known [of "\<lambda>_. Some 4" "\<lambda>_. ''k''" "\<lambda>_. []" "\<lambda>_. Ok 4" 1 ?es runner_new]
  show ?thesis by (simp add: Let_def)
qed

section \<open>The epochs of the mode\<close>

lemma mode_changes:
  "mode_epoch (fold mode_changed ms s) = mode_epoch s + of_nat (length ms)"
  "stopped_epoch (fold mode_changed ms s) = stopped_epoch s"
  by (induction ms arbitrary: s) (simp_all add: mode_changed_def)

lemma of_nat_u64_eq_0: "(of_nat n :: u64) = 0 \<longleftrightarrow> 2 ^ 64 dvd n"
  by (simp add: word_of_nat_eq_0_iff)

text \<open>
  A refusal that stops the claims holds until the dispatch mode changes. When it answers a
  claim of the current epoch the claims are stopped, and after changes of the mode they are stopped
  only if these were a multiple of 2^64; when it answers a claim of an older epoch it changes
  nothing. A runner that never got such a refusal has its claims stopped only by the sentinel
  itself, after 2^64 - 1 changes.
\<close>
theorem claims_stopped_until_mode_changes:
  "(claims_stopped (fold mode_changed ms (stop_claims (mode_epoch s) s)) \<longleftrightarrow> 2 ^ 64 dvd length ms) \<and>
   (epoch \<noteq> mode_epoch s \<longrightarrow> stop_claims epoch s = s) \<and>
   (claims_stopped (fold mode_changed ms runner_new) \<longleftrightarrow> 2 ^ 64 dvd Suc (length ms))"
proof -
  have "claims_stopped (fold mode_changed ms (stop_claims (mode_epoch s) s)) \<longleftrightarrow> (of_nat (length ms) :: u64) = 0"
    by (simp add: claims_stopped_def mode_changes stop_claims_def)
  moreover have "claims_stopped (fold mode_changed ms runner_new) \<longleftrightarrow> (of_nat (Suc (length ms)) :: u64) = 0"
  proof -
    have "- 1 = x \<longleftrightarrow> 1 + x = 0" for x :: u64 by (auto simp: add_eq_0_iff)
    then show ?thesis by (simp add: claims_stopped_def mode_changes runner_new_def NOT_STOPPED_def)
  qed
  ultimately show ?thesis unfolding of_nat_u64_eq_0 by (simp add: stop_claims_def)
qed

theorem claims_stopped_until_mode_changes_witness:
  "claims_stopped (stop_claims (mode_epoch runner_new) runner_new) \<and> stop_claims 5 runner_new = runner_new"
  using claims_stopped_until_mode_changes [of "[]" runner_new 5] by (simp add: runner_new_def)

end
