(* ===== verification/Slot_Loop.thy ===== *)
theory Slot_Loop
  imports Run_Registry
begin

text \<open>
  The loop of a slot (\<open>slot.rs\<close>) and the start of a Run (\<open>run/mod.rs\<close>, \<open>run/queue.rs\<close>): when a slot
  asks jobs for a Run and how, what it does with the answer, and when a trigger is acknowledged.
  The answers of jobs, the fresh ids and the result of the started fact are inputs. Of a Work only
  its ids matter here.
\<close>

record WorkRef =
  work_run :: uuid
  work_job :: uuid

section \<open>One turn of the loop\<close>

datatype SlotAction = SlotReturns | SlotWaits | SlotClaims | SlotPushes

definition must_wait :: "LoopState \<Rightarrow> bool \<Rightarrow> bool \<Rightarrow> bool" where
  "must_wait s holds_claim claims_blocked \<longleftrightarrow>
     \<not> can_ask s \<or> (claims_blocked \<and> (mode s \<noteq> PushRuns \<or> holds_claim))"

definition slot_turn :: "Runner \<Rightarrow> uuid option \<Rightarrow> SlotAction" where
  "slot_turn s held =
     (if draining s then SlotReturns
      else
        (let claiming = (held \<noteq> None \<or> mode (loop_state s) = ClaimRuns);
             claims_blocked = (claiming \<and> claims_stopped s)
         in if must_wait (loop_state s) (held \<noteq> None) claims_blocked then SlotWaits
            else if claiming \<and> \<not> claims_blocked then SlotClaims
            else SlotPushes))"

section \<open>A claim\<close>

datatype Pause = PauseFor u64 | PauseForBeat

datatype ClaimEffect = Executes WorkRef | DropsForDrain WorkRef | Pauses Pause | NoEffect

definition claim_id_of :: "uuid option \<Rightarrow> uuid \<Rightarrow> uuid" where
  "claim_id_of held fresh = (case held of Some i \<Rightarrow> i | None \<Rightarrow> fresh)"

definition refusal_pause :: "Refusal \<Rightarrow> Pause" where
  "refusal_pause r = (case retry_after_ms r of Some ms \<Rightarrow> PauseFor ms | None \<Rightarrow> PauseForBeat)"

text \<open>
  What \<open>claim_step\<close> does with the reply to the claim \<open>i\<close> of the epoch \<open>epoch\<close>; \<open>s\<close> is the state when
  the reply comes.
\<close>

definition claim_reply ::
  "uuid \<Rightarrow> u64 \<Rightarrow> (WorkRef option, Error) result \<Rightarrow> Runner \<Rightarrow> uuid option \<times> Runner \<times> ClaimEffect" where
  "claim_reply i epoch reply s =
     (case reply of
        Inr (Some work) \<Rightarrow> (None, s, if draining s then DropsForDrain work else Executes work)
      | Inr None \<Rightarrow> (None, s, NoEffect)
      | Inl (Refused refusal) \<Rightarrow>
          (case reason refusal of
             Busy \<Rightarrow> (Some i, s, Pauses (refusal_pause refusal))
           | InstanceUnknown \<Rightarrow> (Some i, s, Pauses PauseForBeat)
           | ClaimSpent \<Rightarrow> (None, s, NoEffect)
           | MalformedClaim \<Rightarrow> (None, stop_claims epoch s, NoEffect)
           | _ \<Rightarrow> (None, stop_claims epoch s, NoEffect))
      | Inl (InvalidInput _) \<Rightarrow> (None, stop_claims epoch s, NoEffect)
      | Inl _ \<Rightarrow> (Some i, s, Pauses PauseForBeat))"

text \<open>The claims of a slot: each with its fresh id, the epoch it was made in and its reply.\<close>

record ClaimTurn =
  turn_fresh :: uuid
  turn_epoch :: u64
  turn_reply :: "(WorkRef option, Error) result"
  turn_state :: Runner

fun claim_ids :: "uuid option \<Rightarrow> ClaimTurn list \<Rightarrow> uuid list" where
  "claim_ids held [] = []"
| "claim_ids held (t # ts) =
     (let i = claim_id_of held (turn_fresh t);
          held' = fst (claim_reply i (turn_epoch t) (turn_reply t) (turn_state t))
      in i # claim_ids held' ts)"

text \<open>A reply that leaves open whether jobs took the claim, or asks to make it again.\<close>

fun repeats :: "(WorkRef option, Error) result \<Rightarrow> bool" where
  "repeats (Inr _) = False"
| "repeats (Inl (Refused r)) \<longleftrightarrow> reason r = Busy \<or> reason r = InstanceUnknown"
| "repeats (Inl (InvalidInput _)) = False"
| "repeats (Inl _) = True"

lemma claim_reply_held: "fst (claim_reply i epoch reply s) = (if repeats reply then Some i else None)"
  by (cases reply rule: repeats.cases)
    (auto simp: claim_reply_def split: option.split RefusalReason.splits)

section \<open>The start of a Run\<close>

datatype RunSource = FromTrigger | FromClaim

datatype TriggerCall = Acknowledge | GiveBack

definition settle_known :: "RunRecord \<Rightarrow> TriggerCall list" where
  "settle_known known = (if started_pending known then [] else [Acknowledge])"

definition given_back_when_draining :: "Runner \<Rightarrow> bool \<times> TriggerCall list" where
  "given_back_when_draining s = (if draining s then (False, [GiveBack]) else (True, []))"

text \<open>
  \<open>open_queue\<close>: \<open>made\<close> says whether the delivery queue could be made (an error or a panic otherwise),
  \<open>started\<close> is the end of the started fact. The result says whether the Run goes on.
\<close>

definition update_run :: "uuid \<Rightarrow> (RunRecord \<Rightarrow> RunRecord) \<Rightarrow> Runner \<Rightarrow> Runner" where
  "update_run run f s = s\<lparr>runs := (runs s)(run := map_option f (runs s run))\<rparr>"

definition unmade :: "uuid \<Rightarrow> RunSource \<Rightarrow> Runner \<Rightarrow> TriggerCall list \<times> Runner" where
  "unmade run source s = ((if source = FromTrigger then [GiveBack] else []), forget_run run s)"

definition open_queue ::
  "uuid \<Rightarrow> RunSource \<Rightarrow> Shared option \<Rightarrow> WriteResult \<Rightarrow> Runner \<Rightarrow> bool \<times> TriggerCall list \<times> Runner" where
  "open_queue run source made started s =
     (case made of
        None \<Rightarrow> (case unmade run source s of (calls, s') \<Rightarrow> (False, calls, s'))
      | Some q \<Rightarrow>
          (let s1 = update_run run (set_queue q) s in
           case started of
             Inr _ \<Rightarrow> (True, [], update_run run started_ended s1)
           | Inl removal \<Rightarrow>
               (let refused = (case removal of RRefused _ \<Rightarrow> True | _ \<Rightarrow> False);
                    s2 = (if refused then update_run run started_ended s1 else s1);
                    calls = (if refused \<and> source = FromTrigger then [Acknowledge] else []);
                    s3 = update_run run (\<lambda>r. snd (take_queue r)) s2
                in (False, calls, forget_run run s3))))"

text \<open>\<open>execute\<close> up to the body of the Run.\<close>

datatype Started = KnownAlready | RunNotStarted | RunStartedBody

definition execute_start ::
  "WorkRef \<Rightarrow> RunSource \<Rightarrow> Shared option \<Rightarrow> WriteResult \<Rightarrow> Runner \<Rightarrow> Started \<times> TriggerCall list \<times> Runner" where
  "execute_start w source made started s =
     (case register_run (work_run w) (work_job w) s of
        (Inl known, s') \<Rightarrow>
          (KnownAlready, (if source = FromTrigger then settle_known known else []), s')
      | (Inr _, s') \<Rightarrow>
          (case open_queue (work_run w) source made started s' of
             (False, calls, s'') \<Rightarrow> (RunNotStarted, calls, s'')
           | (True, calls, s'') \<Rightarrow>
               (RunStartedBody, calls @ (if source = FromTrigger then [Acknowledge] else []), s'')))"

section \<open>What the loop promises\<close>

text \<open>
  A slot asks jobs for a Run only when the dispatch mode is known and the replay of the cancel
  orders is over, and never while the runner drains: it then returns. It claims exactly when it
  holds an unanswered claim or the mode says claim, and the claims are not stopped; it takes
  triggers exactly when the mode says push and it holds no claim. Otherwise it waits.
\<close>
theorem slot_asks_when_ready:
  "(slot_turn s held = SlotReturns \<longleftrightarrow> draining s) \<and>
   (slot_turn s held = SlotClaims \<longleftrightarrow>
      \<not> draining s \<and> can_ask (loop_state s) \<and> \<not> claims_stopped s \<and>
      (mode (loop_state s) = ClaimRuns \<or> held \<noteq> None)) \<and>
   (slot_turn s held = SlotPushes \<longleftrightarrow>
      \<not> draining s \<and> can_ask (loop_state s) \<and> mode (loop_state s) = PushRuns \<and> held = None)"
proof -
  have "mode (loop_state s) = PushRuns \<or> mode (loop_state s) = ClaimRuns" if "can_ask (loop_state s)"
    using that by (cases "mode (loop_state s)") (simp_all add: can_ask_def)
  then show ?thesis by (auto simp: slot_turn_def must_wait_def Let_def)
qed

theorem slot_asks_when_ready_witness:
  "slot_turn (runner_new\<lparr>loop_state := \<lparr>mode = ClaimRuns, replay_complete = True\<rparr>\<rparr>) None = SlotClaims"
  using slot_asks_when_ready [of "runner_new\<lparr>loop_state := \<lparr>mode = ClaimRuns, replay_complete = True\<rparr>\<rparr>" None]
  by (simp add: runner_new_def can_ask_def claims_stopped_def NOT_STOPPED_def)

lemma claim_ids_held:
  "length (claim_ids held ts) = length ts"
  "Suc k < length ts \<Longrightarrow>
     claim_ids held ts ! Suc k =
       (if repeats (turn_reply (ts ! k)) then claim_ids held ts ! k else turn_fresh (ts ! Suc k))"
proof -
  show "length (claim_ids held ts) = length ts" by (induction ts arbitrary: held) (simp_all add: Let_def)
  show "Suc k < length ts \<Longrightarrow>
     claim_ids held ts ! Suc k =
       (if repeats (turn_reply (ts ! k)) then claim_ids held ts ! k else turn_fresh (ts ! Suc k))"
  proof (induction ts arbitrary: held k)
    case (Cons t ts)
    show ?case
    proof (cases k)
      case 0
      with Cons.prems obtain u us where "ts = u # us" by (cases ts) auto
      with 0 show ?thesis by (simp add: Let_def claim_reply_held claim_id_of_def)
    next
      case (Suc j)
      with Cons show ?thesis by (simp add: Let_def)
    qed
  qed simp
qed

text \<open>
  A claim keeps its id until jobs answered it. Over any sequence of claims of a slot, a claim
  has the id of the one before exactly when that one got no answer or was told to come again (the
  instance is busy or not known yet); after every other reply the next claim has a fresh id. So a
  Run that jobs gave to a claim whose answer was lost is asked for again under the same id.
\<close>
theorem claim_id_until_answered:
  assumes "Suc k < length ts"
  shows "claim_ids held ts ! Suc k =
      (if repeats (turn_reply (ts ! k)) then claim_ids held ts ! k else turn_fresh (ts ! Suc k)) \<and>
    (repeats (Err (Refused r)) \<longleftrightarrow> reason r \<in> {Busy, InstanceUnknown}) \<and>
    repeats (Err (Lost f)) \<and> repeats (Err (Unavailable f)) \<and> repeats (Err (Unreadable x)) \<and> \<not> repeats (Ok w)"
  using claim_ids_held(2) [OF assms] by simp

theorem claim_id_until_answered_witness:
  "let ts = [\<lparr>turn_fresh = 1, turn_epoch = 0, turn_reply = Err (error_lost ''x''), turn_state = runner_new\<rparr>,
             \<lparr>turn_fresh = 2, turn_epoch = 0, turn_reply = Ok None, turn_state = runner_new\<rparr>]
   in claim_ids None ts ! 1 = 1"
proof -
  let ?ts = "[\<lparr>turn_fresh = 1, turn_epoch = 0, turn_reply = Err (error_lost ''x''), turn_state = runner_new\<rparr>,
             \<lparr>turn_fresh = 2, turn_epoch = 0, turn_reply = Ok None, turn_state = runner_new\<rparr>]"
  have "claim_ids None ?ts ! Suc 0 = claim_ids None ?ts ! 0"
    using claim_id_until_answered [of 0 ?ts None] by (simp add: error_lost_def)
  then show ?thesis by (simp add: claim_id_of_def Let_def)
qed

text \<open>
  A trigger is acknowledged exactly when its Run needs no redelivery: the started fact was
  delivered, or jobs refused it, or the Run is in flight already and its started fact has ended.
  It is given back when no delivery queue could be made, and left to be redelivered when the
  started fact was removed for another reason. A Run that does not go on is forgotten, and one
  that was known already is left as it was; a claim never makes a call on a trigger.
\<close>
theorem trigger_settled_by_started:
  assumes "execute_start w source made started s = (outcome, calls, s')"
  shows "(Acknowledge \<in> set calls \<longleftrightarrow> source = FromTrigger \<and>
       (case runs s (work_run w) of
          Some known \<Rightarrow> \<not> started_pending known
        | None \<Rightarrow> made \<noteq> None \<and> (started = Ok () \<or> (\<exists>e. started = Err (RRefused e))))) \<and>
    (GiveBack \<in> set calls \<longleftrightarrow> source = FromTrigger \<and> runs s (work_run w) = None \<and> made = None) \<and>
    length calls \<le> 1 \<and> (source = FromClaim \<longrightarrow> calls = []) \<and>
    (outcome = KnownAlready \<longrightarrow> s' = s) \<and>
    (outcome = RunNotStarted \<longrightarrow> s' = s) \<and>
    (outcome = RunStartedBody \<longrightarrow>
       (\<exists>r. runs s' (work_run w) = Some r \<and> \<not> started_pending r \<and> (cancel r \<longleftrightarrow> work_run w \<in> known_cancels s)))"
proof (cases "runs s (work_run w)")
  case (Some known)
  with assms show ?thesis by (auto simp: execute_start_def register_run_def settle_known_def split: if_splits)
next
  case None
  have r: "register_run (work_run w) (work_job w) s =
      (Ok (run_record_new (work_run w) (work_job w) (work_run w \<in> known_cancels s)),
       s\<lparr>runs := (runs s)(work_run w \<mapsto> run_record_new (work_run w) (work_job w) (work_run w \<in> known_cancels s))\<rparr>)"
    by (simp add: register_run_def None Let_def)
  have f: "(runs s)(work_run w := None) = runs s" using None by (simp add: fun_upd_idem)
  show ?thesis
  proof (cases made)
    case None': None
    with assms r f None show ?thesis
      by (auto simp: execute_start_def open_queue_def unmade_def forget_run_def split: if_splits)
  next
    case (Some q)
    note d = execute_start_def open_queue_def update_run_def forget_run_def started_ended_def set_queue_def
      take_queue_def run_record_new_def Let_def
    show ?thesis
    proof (cases started)
      case (Inr u)
      with assms r None Some show ?thesis by (cases source) (auto simp: d)
    next
      case (Inl removal)
      with assms r f None Some show ?thesis by (cases removal; cases source) (auto simp: d)
    qed
  qed
qed

theorem trigger_settled_by_started_witness:
  "\<exists>outcome calls s'. execute_start \<lparr>work_run = 1, work_job = 2\<rparr> FromTrigger (Some shared_new) (Ok ()) runner_new = (outcome, calls, s') \<and>
     Acknowledge \<in> set calls \<and> length calls \<le> 1"
proof -
  obtain outcome calls s' where
    e: "execute_start \<lparr>work_run = 1, work_job = 2\<rparr> FromTrigger (Some shared_new) (Ok ()) runner_new = (outcome, calls, s')"
    by (metis prod.exhaust)
  have "runs runner_new 1 = None" by (simp add: runner_new_def)
  with trigger_settled_by_started [OF e] have "Acknowledge \<in> set calls" and "length calls \<le> 1" by simp_all
  with e show ?thesis by blast
qed

end
