(* ===== verification/Run_Finish.thy ===== *)
theory Run_Finish
  imports Slot_Loop Queue_System
begin

text \<open>
  The end of a Run: the failure that is reported (\<open>failure.rs\<close>), the writes that end a Run
  (\<open>run/finish.rs\<close>) and its closing (\<open>run/closing.rs\<close>, \<open>closings.rs\<close>). The author's code is a parameter: the mapping
  of failures (which may panic, with the text of the panic) and the answer. \<open>State::to_json\<close> and the
  encoding of the saved state give their results as inputs. The message ids and the instants of
  the writes are arguments.
\<close>

section \<open>Failures\<close>

record ReportedFailure =
  reported_code :: string
  reported_text :: string
  reported_cause :: "string option"

record FailureOverride =
  over_kind :: "FailureKind option"
  over_reason_code :: "string option"
  over_params :: "json option"
  over_diagnostic :: "json option"
  over_retry_after :: "int option"

definition override_default :: FailureOverride where
  "override_default = \<lparr>over_kind = None, over_reason_code = None, over_params = None, over_diagnostic = None,
     over_retry_after = None\<rparr>"

record RunRefusal =
  refusal_code :: string
  refusal_kind :: "FailureKind option"
  refusal_params :: "json option"
  refusal_diagnostic :: "json option"
  refusal_retry_after :: "int option"

definition run_refusal_new :: "string \<Rightarrow> RunRefusal" where
  "run_refusal_new code = \<lparr>refusal_code = code, refusal_kind = None, refusal_params = None,
     refusal_diagnostic = None, refusal_retry_after = None\<rparr>"

definition or_else :: "'a option \<Rightarrow> 'a \<Rightarrow> 'a" where
  "or_else x y = (case x of Some z \<Rightarrow> z | None \<Rightarrow> y)"

definition into_failed :: "RunRefusal \<Rightarrow> Failed" where
  "into_failed r = \<lparr>failed_kind = or_else (refusal_kind r) Permanent, failed_reason_code = refusal_code r,
     failed_params = or_else (refusal_params r) (JObject []),
     failed_diagnostic = or_else (refusal_diagnostic r) (JString []),
     failed_retry_after_seconds = refusal_retry_after r\<rparr>"

record Found =
  found_code :: string
  found_text :: string
  found_cause :: "string option"
  found_kind :: FailureKind

definition found_permanent :: "string \<Rightarrow> string \<Rightarrow> Found" where
  "found_permanent code text = \<lparr>found_code = code, found_text = text, found_cause = None, found_kind = Permanent\<rparr>"

definition found_transient :: "string \<Rightarrow> string \<Rightarrow> Found" where
  "found_transient code text = (found_permanent code text)\<lparr>found_kind := Transient\<rparr>"

type_synonym FailureMapping = "ReportedFailure \<Rightarrow> (FailureOverride, string) result"

definition failed_of :: "Found \<Rightarrow> FailureMapping option \<Rightarrow> Failed" where
  "failed_of found mapping =
     (let reported = \<lparr>reported_code = found_code found, reported_text = found_text found,
                      reported_cause = found_cause found\<rparr>;
          over = (case mapping of None \<Rightarrow> Ok override_default | Some m \<Rightarrow> m reported)
      in case over of
           Inl panic \<Rightarrow> \<lparr>failed_kind = found_kind found, failed_reason_code = ''panic'', failed_params = JObject [],
                        failed_diagnostic = JString panic, failed_retry_after_seconds = None\<rparr>
         | Inr ov \<Rightarrow> \<lparr>failed_kind = or_else (over_kind ov) (found_kind found),
                     failed_reason_code = or_else (over_reason_code ov) (found_code found),
                     failed_params = or_else (over_params ov) (JObject []),
                     failed_diagnostic = or_else (over_diagnostic ov) (JString (found_text found)),
                     failed_retry_after_seconds = over_retry_after ov\<rparr>)"

section \<open>The writes that end a Run\<close>

text \<open>
  What the making of the answer gives: the author's function may panic (\<open>AnswerPanics\<close>), the
  function or the JSON of the state gives a content or a text of what is wrong.
\<close>

datatype AnswerMade = AnswerPanics string | AnswerGives "(Content, string) result"

record 'f RunPlan =
  run_call :: "CallMode option"
  run_can_restart :: bool
  run_answer :: "'f \<Rightarrow> AnswerMade"
  run_encode :: "'f \<Rightarrow> BookedAgent list \<Rightarrow> (json, string) result"
  run_mapping :: "FailureMapping option"

datatype 'f Ending = EndedWithState 'f | EndedFailed Failed | EndedCancelled

datatype Terminal = TerminalCompleted "WriteEnd option" "WriteEnd option" WriteEnd | TerminalFailed WriteEnd | TerminalNone

definition answer_of :: "'f RunPlan \<Rightarrow> 'f \<Rightarrow> (Content, Found) result" where
  "answer_of plan state =
     (case run_answer plan state of
        AnswerPanics text \<Rightarrow> Err (found_permanent ''panic'' text)
      | AnswerGives (Inl text) \<Rightarrow> Err (found_permanent ''answer_not_made'' text)
      | AnswerGives (Inr content) \<Rightarrow> Ok content)"

definition made_answer :: "'f RunPlan \<Rightarrow> 'f \<Rightarrow> (Content option, Found) result" where
  "made_answer plan state =
     (if run_call plan = Some Sync then
        (case answer_of plan state of Inl e \<Rightarrow> Err e | Inr c \<Rightarrow> Ok (Some c))
      else Ok None)"

definition made_saved :: "'f RunPlan \<Rightarrow> 'f \<Rightarrow> BookedAgent list \<Rightarrow> (json option, Found) result" where
  "made_saved plan state ags =
     (if run_can_restart plan \<and> (\<exists>a \<in> set ags. booked_has_inbox a) then
        (case run_encode plan state ags of
           Inl text \<Rightarrow> Err (found_permanent ''saved_state_not_made'' text)
         | Inr v \<Rightarrow> Ok (Some v))
      else Ok None)"

definition made_writes :: "'f RunPlan \<Rightarrow> 'f \<Rightarrow> BookedAgent list \<Rightarrow> (Content option \<times> json option, Found) result" where
  "made_writes plan state ags =
     (case made_answer plan state of
        Inl e \<Rightarrow> Err e
      | Inr answer \<Rightarrow>
          (case made_saved plan state ags of
             Inl e \<Rightarrow> Err e
           | Inr saved \<Rightarrow> Ok (answer, saved)))"

definition hand_over_option :: "('a \<Rightarrow> instant \<Rightarrow> Shared \<Rightarrow> WriteEnd \<times> Shared) \<Rightarrow> 'a option \<Rightarrow> instant \<Rightarrow> Shared \<Rightarrow>
   WriteEnd option \<times> Shared" where
  "hand_over_option f x now sh =
     (case x of None \<Rightarrow> (None, sh) | Some a \<Rightarrow> (case f a now sh of (e, sh') \<Rightarrow> (Some e, sh')))"

definition end_run ::
  "'f RunPlan \<Rightarrow> uuid \<Rightarrow> BookedAgent list \<Rightarrow> 'f Ending \<Rightarrow> uuid \<Rightarrow> instant \<Rightarrow> Shared \<Rightarrow> Terminal \<times> Shared" where
  "end_run plan run ags ending message_id now sh =
     (case ending of
        EndedCancelled \<Rightarrow> (TerminalNone, sh)
      | EndedFailed failed \<Rightarrow>
          (case queue_failed run failed message_id now sh of (e, sh') \<Rightarrow> (TerminalFailed e, sh'))
      | EndedWithState state \<Rightarrow>
          (case made_writes plan state ags of
             Inl found \<Rightarrow>
               (case queue_failed run (failed_of found (run_mapping plan)) message_id now sh of
                  (e, sh') \<Rightarrow> (TerminalFailed e, sh'))
           | Inr (answer, saved) \<Rightarrow>
               (let (a, sh1) = hand_over_option queue_answer answer now sh;
                    (v, sh2) = hand_over_option queue_saved_state saved now sh1;
                    (c, sh3) = queue_completed run message_id now sh2
                in (TerminalCompleted a v c, sh3))))"

section \<open>The closing of a Run\<close>

fun cause_text :: "Removal \<Rightarrow> string option" where
  "cause_text (RRefused e) = Some (error_display e)"
| "cause_text (RFailed e) = Some (error_display e)"
| "cause_text _ = None"

fun end_cause :: "string \<times> WriteResult option \<Rightarrow> (string \<times> string) option" where
  "end_cause (code, Some (Inl removal)) = map_option (\<lambda>t. (code, t)) (cause_text removal)"
| "end_cause _ = None"

text \<open>
  What the closing hands over when the ends of the answer, of the saved state and of the completed
  fact are known: the failure, or nothing.
\<close>

definition closing_failure ::
  "FailureMapping option \<Rightarrow> WriteResult option \<Rightarrow> WriteResult option \<Rightarrow> WriteResult \<Rightarrow> Failed option" where
  "closing_failure mapping answer saved completed =
     (if completed = Err DependsOnRemoved then
        (case List.map_filter end_cause [(''answer_refused'', answer), (''saved_state_refused'', saved)] of
           [] \<Rightarrow> None
         | (code, text) # _ \<Rightarrow> Some (failed_of (found_permanent code text) mapping))
      else None)"

text \<open>The table of the Runs that close (\<open>closings.rs\<close>): its entries in the order in which it is drained.\<close>

type_synonym Closings = "(uuid \<times> RunRecord) list"

definition closings_remove :: "uuid \<Rightarrow> Closings \<Rightarrow> Closings" where
  "closings_remove run c = filter (\<lambda>(k, _). k \<noteq> run) c"

definition closings_add :: "uuid \<Rightarrow> RunRecord \<Rightarrow> Closings \<Rightarrow> Closings" where
  "closings_add run record c = closings_remove run c @ [(run, record)]"

definition take_all :: "Closings \<Rightarrow> RunRecord list \<times> Closings" where
  "take_all c = (map snd c, [])"

text \<open>One look of \<open>all_ended\<close>.\<close>

definition all_ended :: "Closings \<Rightarrow> bool" where
  "all_ended c \<longleftrightarrow> c = []"

definition closing_done :: "uuid \<Rightarrow> Runner \<Rightarrow> Closings \<Rightarrow> Runner \<times> Closings" where
  "closing_done run s c =
     (let s1 = update_run run (\<lambda>r. snd (take_queue r)) s;
          c1 = closings_remove run c
      in (forget_run run s1, c1))"

section \<open>One terminal fact\<close>

text \<open>The writes that an ending hands over, in order.\<close>

definition ending_writes ::
  "'f RunPlan \<Rightarrow> uuid \<Rightarrow> BookedAgent list \<Rightarrow> 'f Ending \<Rightarrow> uuid \<Rightarrow> Write list" where
  "ending_writes plan run ags ending message_id =
     (case ending of
        EndedCancelled \<Rightarrow> []
      | EndedFailed failed \<Rightarrow> [WFact (FFailed run failed) message_id]
      | EndedWithState state \<Rightarrow>
          (case made_writes plan state ags of
             Inl found \<Rightarrow> [WFact (FFailed run (failed_of found (run_mapping plan))) message_id]
           | Inr (answer, saved) \<Rightarrow>
               map WAnswer (case answer of Some c \<Rightarrow> [c] | None \<Rightarrow> []) @
               map WSavedState (case saved of Some v \<Rightarrow> [v] | None \<Rightarrow> []) @
               [WFact (FCompleted run) message_id]))"

fun is_terminal :: "Write \<Rightarrow> bool" where
  "is_terminal (WFact (FCompleted _) _) = True"
| "is_terminal (WFact (FFailed _ _) _) = True"
| "is_terminal _ = False"

lemma end_run_writes:
  "snd (end_run plan run ags ending message_id now sh) =
   fold (\<lambda>w sh. snd (hand_over w now sh)) (ending_writes plan run ags ending message_id) sh"
  by (auto simp: end_run_def ending_writes_def hand_over_option_def queue_failed_def queue_fact_def queue_answer_def
      queue_saved_state_def queue_completed_def Let_def split: Ending.split sum.split option.split prod.split)


definition demo_plan :: "nat RunPlan" where
  "demo_plan = \<lparr>run_call = Some Sync, run_can_restart = False,
     run_answer = (\<lambda>_. AnswerGives (Ok \<lparr>content_message = ''m'', content_attachments = []\<rparr>)),
     run_encode = (\<lambda>_ _. Err ''no''), run_mapping = None\<rparr>"


text \<open>
  A completed fact that was dropped because it depends on a write that was removed is never
  silent when jobs or the transport said why: the closing hands over a failed fact with the cause
  of the answer, or else of the saved state. It hands over nothing when the completed fact ended in
  another way, and the dependencies of the completed fact are exactly the started fact, the answer
  and the saved state.
\<close>
theorem closing_reports_cause:
  "(completed \<noteq> Err DependsOnRemoved \<longrightarrow> closing_failure mapping answer saved completed = None) \<and>
   (\<forall>r t. answer = Some (Err r) \<and> cause_text r = Some t \<longrightarrow>
      closing_failure mapping answer saved (Err DependsOnRemoved) =
        Some (failed_of (found_permanent ''answer_refused'' t) mapping)) \<and>
   (\<forall>r t. (answer = None \<or> answer = Some (Ok ())) \<and> saved = Some (Err r) \<and> cause_text r = Some t \<longrightarrow>
      closing_failure mapping answer saved (Err DependsOnRemoved) =
        Some (failed_of (found_permanent ''saved_state_refused'' t) mapping)) \<and>
   (blocked (WFact (FCompleted run) message_id) em \<in> {None, Some DependsOnRemoved}) \<and>
   (blocked (WFact (FCompleted run) message_id) em = None \<longleftrightarrow>
      (\<forall>k \<in> {DStarted, DAnswer, DSavedState}. em k = None \<or> em k = Some EDelivered))"
proof -
  have "blocked_by (WFact (FCompleted run) message_id) em ks \<in> {None, Some DependsOnRemoved}" for ks
    by (induction ks) (auto split: option.split Ended.split)
  then have "blocked (WFact (FCompleted run) message_id) em \<in> {None, Some DependsOnRemoved}" by (simp add: blocked_def)
  moreover have "depends_on (WFact (FCompleted run) message_id) = [DStarted, DAnswer, DSavedState]"
    by (simp add: depends_on_def is_started_def)
  ultimately show ?thesis
    by (auto simp: closing_failure_def List.map_filter_def blocked_None dep_free_def)
qed

theorem closing_reports_cause_witness:
  "closing_failure None (Some (Err (RFailed (Unreadable ''x'')))) None (Err DependsOnRemoved) =
     Some (failed_of (found_permanent ''answer_refused'' ''unreadable: x'') None)"
  using closing_reports_cause [of "Ok ()" None "Some (Err (RFailed (Unreadable ''x'')))" None 1 2 Map.empty] by simp

end
