(* ===== verification/Instance_Lookup.thy ===== *)
theory Instance_Lookup
  imports Run_Record
begin

text \<open>
  The instances of the Runs in flight and the lookup that waits for one (\<open>instances.rs\<close>). The
  records are shared, so they live in a store and the map holds their addresses. \<open>insert\<close> reads the
  phase of the record while it holds the map; \<open>remove_run\<close> sets the phase first and takes the map
  afterwards, so the two halves are separate steps between which insertions and lookups come.
\<close>

datatype LookupError = NotStarted | InstanceEndedError

record InstanceMap =
  store :: "nat \<Rightarrow> RunRecord"
  inst_by_id :: "instance_id \<rightharpoonup> nat"
  inst_changed :: nat
  inst_started :: bool

definition instances_default :: "(nat \<Rightarrow> RunRecord) \<Rightarrow> InstanceMap" where
  "instances_default st = \<lparr>store = st, inst_by_id = Map.empty, inst_changed = 0, inst_started = False\<rparr>"

definition mark_started :: "InstanceMap \<Rightarrow> InstanceMap" where
  "mark_started m = m\<lparr>inst_started := True\<rparr>"

definition instance_insert :: "instance_id \<Rightarrow> nat \<Rightarrow> InstanceMap \<Rightarrow> bool \<times> InstanceMap" where
  "instance_insert i a m =
     (if phase (store m a) = RunDropped \<or> phase (store m a) = Aborted then (False, m)
      else (True, m\<lparr>inst_by_id := (inst_by_id m)(i \<mapsto> a), inst_changed := inst_changed m + 1\<rparr>))"

definition remove_run_phase :: "nat \<Rightarrow> RunPhase \<Rightarrow> InstanceMap \<Rightarrow> InstanceMap" where
  "remove_run_phase a p m = m\<lparr>store := (store m)(a := set_phase p (store m a))\<rparr>"

definition remove_run_retain :: "nat \<Rightarrow> InstanceMap \<Rightarrow> InstanceMap" where
  "remove_run_retain a m =
     m\<lparr>inst_by_id := (\<lambda>i. case inst_by_id m i of
          Some b \<Rightarrow> if run_id (store m b) \<noteq> run_id (store m a) then Some b else None
        | None \<Rightarrow> None)\<rparr>"

definition remove_run :: "nat \<Rightarrow> RunPhase \<Rightarrow> InstanceMap \<Rightarrow> InstanceMap" where
  "remove_run a p m = remove_run_retain a (remove_run_phase a p m)"

text \<open>One turn of the loop of \<open>find\<close>: the answer, or \<open>None\<close> when it waits for a change.\<close>

definition find_look :: "instance_id \<Rightarrow> InstanceMap \<Rightarrow> (nat, LookupError) result option" where
  "find_look i m =
     (if \<not> inst_started m then Some (Err NotStarted)
      else
        (case inst_by_id m i of
           Some a \<Rightarrow> if phase (store m a) = Live then Some (Ok a) else Some (Err InstanceEndedError)
         | None \<Rightarrow> None))"

definition lookup_book :: "instance_id \<Rightarrow> InstanceMap \<Rightarrow> (Book, LookupError) result option" where
  "lookup_book i m =
     (case find_look i m of
        None \<Rightarrow> None
      | Some (Inl e) \<Rightarrow> Some (Err e)
      | Some (Inr a) \<Rightarrow>
          Some (case rec_book (store m a) of Some b \<Rightarrow> Ok b | None \<Rightarrow> Err InstanceEndedError))"

section \<open>The steps\<close>

text \<open>
  \<open>removed\<close> is a history variable: the records whose removal has taken the map. A record leaves the
  phase \<open>Live\<close> when its executor returned, and its removal sets one of the two last phases.
\<close>

record LookupSys =
  imap :: InstanceMap
  removed :: "nat set"

datatype LookupEvent =
    LStarted | LInsert instance_id nat | LReturned nat | LRemovePhase nat RunPhase | LRemoveRetain nat
  | LUpdate nat RunRecord

inductive lookup_step :: "LookupSys \<Rightarrow> LookupEvent \<Rightarrow> LookupSys \<Rightarrow> bool" where
  l_started: "lookup_step s LStarted (s\<lparr>imap := mark_started (imap s)\<rparr>)"
| l_insert: "lookup_step s (LInsert i a) (s\<lparr>imap := snd (instance_insert i a (imap s))\<rparr>)"
| l_returned: "phase (store (imap s) a) = Live \<Longrightarrow>
    lookup_step s (LReturned a) (s\<lparr>imap := remove_run_phase a ExecutorReturned (imap s)\<rparr>)"
| l_phase: "p \<in> {RunDropped, Aborted} \<Longrightarrow> lookup_step s (LRemovePhase a p) (s\<lparr>imap := remove_run_phase a p (imap s)\<rparr>)"
| l_retain: "phase (store (imap s) a) \<in> {RunDropped, Aborted} \<Longrightarrow>
    lookup_step s (LRemoveRetain a) (s\<lparr>imap := remove_run_retain a (imap s), removed := insert a (removed s)\<rparr>)"
| l_update: "run_id r = run_id (store (imap s) a) \<Longrightarrow> phase r = phase (store (imap s) a) \<Longrightarrow>
    lookup_step s (LUpdate a r) (s\<lparr>imap := (imap s)\<lparr>store := (store (imap s))(a := r)\<rparr>\<rparr>)"

definition lookup_init :: "LookupSys \<Rightarrow> bool" where
  "lookup_init s \<longleftrightarrow> (\<exists>st. s = \<lparr>imap = instances_default st, removed = {}\<rparr>)"

abbreviation lookup_reach :: "LookupSys \<Rightarrow> bool" where
  "lookup_reach \<equiv> reach lookup_init lookup_step"

definition lookup_inv :: "LookupSys \<Rightarrow> bool" where
  "lookup_inv s \<longleftrightarrow>
     (\<forall>a \<in> removed s. phase (store (imap s) a) \<in> {RunDropped, Aborted} \<and> a \<notin> ran (inst_by_id (imap s)))"

lemma lookup_step_inv: "lookup_step s e t \<Longrightarrow> lookup_inv s \<Longrightarrow> lookup_inv t"
proof (induction rule: lookup_step.induct)
  case (l_insert s i a)
  then show ?case by (auto simp: lookup_inv_def instance_insert_def ran_def)
next
  case (l_retain s a)
  then show ?case by (auto simp: lookup_inv_def remove_run_retain_def ran_def split: option.splits if_splits)
qed (auto simp: lookup_inv_def mark_started_def remove_run_phase_def set_phase_def)

interpretation lookup: invariant_system lookup_init lookup_step lookup_inv
proof
  show "lookup_inv s" if "lookup_init s" for s using that by (auto simp: lookup_init_def lookup_inv_def)
qed (rule lookup_step_inv)

text \<open>
  C25: once the removal of a Run has run, no lookup gives that Run again, whatever insertions race
  with the removal: an insertion that comes after the phase was set is refused, and one that came
  before is taken out by the removal. A lookup that returns gives only the record of a live Run.
\<close>
theorem removed_run_never_found:
  assumes "lookup_reach s" and "a \<in> removed s"
  shows "find_look i (imap s) \<noteq> Some (Ok a) \<and> inst_by_id (imap s) i \<noteq> Some a \<and>
    instance_insert i a (imap s) = (False, imap s) \<and>
    (\<forall>b. find_look i (imap s) = Some (Ok b) \<longrightarrow> phase (store (imap s) b) = Live \<and> b \<notin> removed s)"
proof -
  from assms(1) have inv: "lookup_inv s" by (rule lookup.inv_reach)
  with assms(2) have p: "phase (store (imap s) a) \<in> {RunDropped, Aborted}" and n: "inst_by_id (imap s) i \<noteq> Some a"
    by (auto simp: lookup_inv_def ran_def)
  have "phase (store (imap s) b) = Live \<and> inst_by_id (imap s) i = Some b" if "find_look i (imap s) = Some (Ok b)" for b
    using that by (auto simp: find_look_def split: if_splits option.splits)
  moreover have "b \<notin> removed s" if "phase (store (imap s) b) = Live" for b
    using inv that by (auto simp: lookup_inv_def)
  ultimately show ?thesis using p n by (auto simp: instance_insert_def)
qed

theorem removed_run_never_found_witness:
  "\<exists>s. lookup_reach s \<and> 3 \<in> removed s \<and> find_look 7 (imap s) \<noteq> Some (Ok 3)"
proof -
  let ?s0 = "\<lparr>imap = instances_default (\<lambda>a. run_record_new (of_nat a) 9 False), removed = {}\<rparr>"
  let ?s1 = "?s0\<lparr>imap := snd (instance_insert 7 3 (imap ?s0))\<rparr>"
  let ?s2 = "?s1\<lparr>imap := remove_run_phase 3 RunDropped (imap ?s1)\<rparr>"
  let ?s3 = "?s2\<lparr>imap := remove_run_retain 3 (imap ?s2), removed := insert 3 (removed ?s2)\<rparr>"
  have "lookup_reach ?s0" by (rule reach_init) (auto simp: lookup_init_def)
  from reach_step [of _ lookup_step, OF this l_insert] have "lookup_reach ?s1" .
  from reach_step [of _ lookup_step, OF this l_phase] have s2: "lookup_reach ?s2" by simp
  have "phase (store (imap ?s2) 3) \<in> {RunDropped, Aborted}" by (simp add: remove_run_phase_def set_phase_def)
  from reach_step [of _ lookup_step, OF s2 l_retain [OF this]] have s3: "lookup_reach ?s3" .
  have r: "3 \<in> removed ?s3" by simp
  show ?thesis using s3 r removed_run_never_found [OF s3 r, of 7] by (intro exI [of _ ?s3] conjI) simp_all
qed

end
