(* ===== verification/Drain.thy ===== *)
theory Drain
  imports Run_Finish Instance_Lookup
begin

text \<open>
  The drain of a runner (\<open>drain.rs\<close>): what happens to the Runs that are still there when its time
  is up. The records of the registry are kept by value; \<open>addr\<close> gives the address under which the
  lookup of instances knows the record of a Run. The tasks of the slots and of the closings are gone
  when \<open>drain_abort\<close> runs: it is given the state they left and the records of the registry in the
  order of its table.
\<close>

section \<open>The report\<close>

record DrainedRun =
  drained_job :: uuid
  drained_run_id :: uuid
  drained_aborted :: bool
  drained_executor_running :: bool
  instances_without_return :: "instance_id list"
  unsent :: "WriteName list"

definition drained_run :: "RunRecord \<Rightarrow> bool \<Rightarrow> DrainedRun" where
  "drained_run record aborted =
     \<lparr>drained_job = job_id record, drained_run_id = run_id record, drained_aborted = aborted,
      drained_executor_running = (aborted \<and> executor_running record),
      instances_without_return = (if aborted then running_hooks record else []),
      unsent = (case rec_queue record of Some q \<Rightarrow> waiting (snapshot q) | None \<Rightarrow> [])\<rparr>"

section \<open>The drain\<close>

text \<open>
  The state: the runner, the instances, the closings, whether the trigger feed is held, the report
  and, as a history, the hooks that were called and the records as the drain left them.
\<close>

record DrainSys =
  dr_runner :: Runner
  dr_imap :: InstanceMap
  dr_closings :: Closings
  dr_feed :: bool
  dr_report :: "DrainedRun list"
  dr_hooks :: "InstanceEnded list"
  dr_left :: "RunRecord list"

definition abort_run :: "bool \<Rightarrow> (uuid \<Rightarrow> nat) \<Rightarrow> RunRecord \<Rightarrow> DrainSys \<Rightarrow> DrainSys" where
  "abort_run has_hook addr record s =
     (let r1 = trigger_cancel (set_phase Aborted record);
          (calls, r2) = call_all has_hook r1;
          run = drained_run r2 True;
          r3 = snd (take_book (stop_arrival r2));
          a = addr (run_id record);
          m = dr_imap s;
          m1 = remove_run a Aborted (m\<lparr>store := (store m)(a := r3)\<rparr>);
          r4 = snd (take_queue r3)
      in s\<lparr>dr_runner := forget_run (run_id record) (dr_runner s),
           dr_imap := m1\<lparr>store := (store m1)(a := r4)\<rparr>,
           dr_report := dr_report s @ [run], dr_hooks := dr_hooks s @ calls, dr_left := dr_left s @ [r4]\<rparr>)"

definition drop_closing :: "RunRecord \<Rightarrow> DrainSys \<Rightarrow> DrainSys" where
  "drop_closing record s =
     (let run = drained_run record False;
          r1 = snd (take_queue record)
      in s\<lparr>dr_runner := forget_run (run_id record) (dr_runner s),
           dr_report := dr_report s @ (if unsent run \<noteq> [] then [run] else []), dr_left := dr_left s @ [r1]\<rparr>)"

definition drain_abort :: "bool \<Rightarrow> (uuid \<Rightarrow> nat) \<Rightarrow> RunRecord list \<Rightarrow> DrainSys \<Rightarrow> DrainSys" where
  "drain_abort has_hook addr order s =
     (let (closing_runs, closings) = take_all (dr_closings s);
          closing_ids = set (map run_id closing_runs);
          s1 = fold (\<lambda>record s. if run_id record \<in> closing_ids then s else abort_run has_hook addr record s)
                 order (s\<lparr>dr_closings := closings\<rparr>)
      in fold drop_closing closing_runs s1)"

text \<open>The end of \<open>drain\<close>; \<open>waited\<close>: the slots and the closings ended within the time of the drain.\<close>

definition drain_end ::
  "bool \<Rightarrow> bool \<Rightarrow> (uuid \<Rightarrow> nat) \<Rightarrow> RunRecord list \<Rightarrow> DrainSys \<Rightarrow> DrainSys" where
  "drain_end waited has_hook addr order s =
     (if waited then s else drain_abort has_hook addr order s)\<lparr>dr_feed := False\<rparr>"

section \<open>What the drain leaves\<close>

definition hooks_called :: "RunRecord \<Rightarrow> InstanceEnded list \<Rightarrow> RunRecord \<Rightarrow> bool" where
  "hooks_called r es r' \<longleftrightarrow>
     (\<exists>xs. r' = r\<lparr>rec_instances := xs, running_hooks := running_hooks r @ map ended_instance es\<rparr>)"

lemma hooks_called_refl: "hooks_called r [] r"
  by (auto simp: hooks_called_def intro!: exI [of _ "rec_instances r"])

lemma hooks_called_trans: "hooks_called r es r1 \<Longrightarrow> hooks_called r1 es' r2 \<Longrightarrow> hooks_called r (es @ es') r2"
  by (auto simp: hooks_called_def)

lemma call_once_called: "call_once h i r = (es, r') \<Longrightarrow> hooks_called r es r'"
  by (auto simp: call_once_def claim_hook_def hooks_called_refl split: if_splits option.splits)
    (auto simp: hooks_called_def)

lemma call_each_called: "call_each h xs r = (es, r') \<Longrightarrow> hooks_called r es r'"
  by (induction h xs r arbitrary: es r' rule: call_each.induct)
    (auto simp: hooks_called_refl split: prod.splits intro: hooks_called_trans call_once_called)

definition aborted_of :: "bool \<Rightarrow> RunRecord \<Rightarrow> DrainedRun" where
  "aborted_of has_hook record = drained_run (snd (call_all has_hook (trigger_cancel (set_phase Aborted record)))) True"

lemma aborted_of_fields:
  "drained_run_id (aborted_of h r) = run_id r" "drained_job (aborted_of h r) = job_id r" "drained_aborted (aborted_of h r)"
  "drained_executor_running (aborted_of h r) = executor_running r"
  "unsent (aborted_of h r) = (case rec_queue r of Some q \<Rightarrow> waiting (snapshot q) | None \<Rightarrow> [])"
  "instances_without_return (aborted_of h r) =
     running_hooks r @ map ended_instance (fst (call_all h (trigger_cancel (set_phase Aborted r))))"
proof -
  let ?r = "trigger_cancel (set_phase Aborted r)"
  have *: "hooks_called ?r (fst (call_all h ?r)) (snd (call_all h ?r))"
    unfolding call_all_def by (rule call_each_called [of h "unhooked_instances ?r"]) simp
  from * show "drained_run_id (aborted_of h r) = run_id r" "drained_job (aborted_of h r) = job_id r"
    "drained_aborted (aborted_of h r)" "drained_executor_running (aborted_of h r) = executor_running r"
    "unsent (aborted_of h r) = (case rec_queue r of Some q \<Rightarrow> waiting (snapshot q) | None \<Rightarrow> [])"
    "instances_without_return (aborted_of h r) = running_hooks r @ map ended_instance (fst (call_all h ?r))"
    by (auto simp: hooks_called_def aborted_of_def drained_run_def trigger_cancel_def set_phase_def)
qed

lemma abort_run_fields:
  "runs (dr_runner (abort_run h addr r s)) = (runs (dr_runner s))(run_id r := None)"
  "dr_closings (abort_run h addr r s) = dr_closings s" "dr_feed (abort_run h addr r s) = dr_feed s"
  "dr_report (abort_run h addr r s) = dr_report s @ [aborted_of h r]"
  "inst_by_id (dr_imap (abort_run h addr r s)) i = Some b \<Longrightarrow> inst_by_id (dr_imap s) i = Some b \<and> b \<noteq> addr (run_id r)"
  "\<exists>r'. dr_left (abort_run h addr r s) = dr_left s @ [r'] \<and> run_id r' = run_id r \<and> cancel r' \<and> phase r' = Aborted \<and>
     rec_queue r' = None \<and> rec_book r' = None \<and> arrival r' = None"
proof -
  let ?r = "trigger_cancel (set_phase Aborted r)"
  have "hooks_called ?r (fst (call_all h ?r)) (snd (call_all h ?r))"
    unfolding call_all_def by (rule call_each_called [of h "unhooked_instances ?r"]) simp
  then obtain xs hs where c: "snd (call_all h ?r) = ?r\<lparr>rec_instances := xs, running_hooks := hs\<rparr>"
    by (auto simp: hooks_called_def)
  note d = abort_run_def Let_def forget_run_def aborted_of_def split_beta
  show "runs (dr_runner (abort_run h addr r s)) = (runs (dr_runner s))(run_id r := None)"
    "dr_closings (abort_run h addr r s) = dr_closings s" "dr_feed (abort_run h addr r s) = dr_feed s"
    "dr_report (abort_run h addr r s) = dr_report s @ [aborted_of h r]"
    by (simp_all add: d)
  show "inst_by_id (dr_imap s) i = Some b \<and> b \<noteq> addr (run_id r)"
    if "inst_by_id (dr_imap (abort_run h addr r s)) i = Some b"
    using that by (auto simp: d remove_run_def remove_run_retain_def remove_run_phase_def split: option.splits if_splits)
  show "\<exists>r'. dr_left (abort_run h addr r s) = dr_left s @ [r'] \<and> run_id r' = run_id r \<and> cancel r' \<and> phase r' = Aborted \<and>
     rec_queue r' = None \<and> rec_book r' = None \<and> arrival r' = None"
    unfolding d
    by (simp add: c) (auto simp: take_queue_def take_book_def stop_arrival_def trigger_cancel_def set_phase_def
        split: option.split)
qed

lemma fold_abort:
  defines "f \<equiv> \<lambda>ids h addr. fold (\<lambda>r s. if run_id r \<in> ids then s else abort_run h addr r s)"
  shows "runs (dr_runner (f ids h addr order s)) =
      (\<lambda>run. if run \<in> run_id ` set order - ids then None else runs (dr_runner s) run)"
    and "dr_closings (f ids h addr order s) = dr_closings s" and "dr_feed (f ids h addr order s) = dr_feed s"
    and "dr_report (f ids h addr order s) = dr_report s @ map (aborted_of h) (filter (\<lambda>r. run_id r \<notin> ids) order)"
    and "\<And>b. inst_by_id (dr_imap (f ids h addr order s)) i = Some b \<Longrightarrow>
      inst_by_id (dr_imap s) i = Some b \<and> b \<notin> addr ` (run_id ` set order - ids)"
    and "\<exists>rs. dr_left (f ids h addr order s) = dr_left s @ rs \<and>
      map run_id rs = map run_id (filter (\<lambda>r. run_id r \<notin> ids) order) \<and>
      (\<forall>r \<in> set rs. cancel r \<and> phase r = Aborted \<and> rec_queue r = None \<and> rec_book r = None \<and> arrival r = None)"
proof (induction order rule: rev_induct)
  case (snoc r order)
  let ?s = "f ids h addr order s"
  note a = abort_run_fields [of h addr r ?s]
  have s': "f ids h addr (order @ [r]) s = (if run_id r \<in> ids then ?s else abort_run h addr r ?s)"
    by (simp add: f_def)
  { case 1 show ?case using s' snoc.IH(1) a(1) by (auto simp: fun_eq_iff) }
  { case 2 show ?case using s' snoc.IH(2) a(2) by simp }
  { case 3 show ?case using s' snoc.IH(3) a(3) by simp }
  { case 4 show ?case using s' snoc.IH(4) a(4) by simp }
  { case (5 b)
    then show ?case using s' snoc.IH(5) [of b] a(5) [of i b] by (cases "run_id r \<in> ids") auto }
  { case 6
    obtain rs where rs: "dr_left ?s = dr_left s @ rs"
      "map run_id rs = map run_id (filter (\<lambda>r. run_id r \<notin> ids) order)"
      "\<forall>r \<in> set rs. cancel r \<and> phase r = Aborted \<and> rec_queue r = None \<and> rec_book r = None \<and> arrival r = None"
      using snoc.IH(6) by blast
    obtain r' where "dr_left (abort_run h addr r ?s) = dr_left ?s @ [r']" "run_id r' = run_id r" "cancel r'"
      "phase r' = Aborted" "rec_queue r' = None" "rec_book r' = None" "arrival r' = None" using a(6) by blast
    with rs s' show ?case
      by (cases "run_id r \<in> ids") (auto intro: exI [of _ rs] exI [of _ "rs @ [r']"]) }
qed (simp_all add: f_def)

lemma fold_drop_closing:
  shows "runs (dr_runner (fold drop_closing rs s)) =
      (\<lambda>run. if run \<in> run_id ` set rs then None else runs (dr_runner s) run)"
    and "dr_closings (fold drop_closing rs s) = dr_closings s" and "dr_feed (fold drop_closing rs s) = dr_feed s"
    and "dr_imap (fold drop_closing rs s) = dr_imap s"
    and "dr_report (fold drop_closing rs s) =
      dr_report s @ filter (\<lambda>d. unsent d \<noteq> []) (map (\<lambda>r. drained_run r False) rs)"
    and "dr_left (fold drop_closing rs s) = dr_left s @ map (\<lambda>r. snd (take_queue r)) rs"
  by (induction rs rule: rev_induct) (auto simp: drop_closing_def Let_def forget_run_def fun_eq_iff)

text \<open>
  C26: when the time of the drain is up, no Run stays behind. The registry and the closings are
  empty and the trigger feed is let go; every Run that is not closing is reported exactly once as
  aborted, in the order of the registry, with its job, whether its executor still runs, the hooks
  that have not returned (those that the drain itself calls included) and the writes its queue
  still held, its cancel handle is triggered, its arrivals are stopped, its book and its queue are
  taken and no lookup finds it any more; a Run that is closing is not aborted and is reported
  exactly when its queue still held writes.
\<close>
theorem drain_leaves_nothing:
  assumes "\<And>run r. runs (dr_runner s) run = Some r \<Longrightarrow> r \<in> set order \<and> run_id r = run"
    and "s' = drain_end False h addr order s"
    and "closing = map snd (dr_closings s)" and "open_runs = filter (\<lambda>r. run_id r \<notin> run_id ` set closing) order"
  shows "runs (dr_runner s') = Map.empty \<and> dr_closings s' = [] \<and> \<not> dr_feed s' \<and>
    (\<exists>ds. dr_report s' = dr_report s @ ds @ filter (\<lambda>d. unsent d \<noteq> []) (map (\<lambda>r. drained_run r False) closing) \<and>
       list_all2 (\<lambda>d r. drained_aborted d \<and> drained_run_id d = run_id r \<and> drained_job d = job_id r \<and>
          drained_executor_running d = executor_running r \<and>
          unsent d = (case rec_queue r of Some q \<Rightarrow> waiting (snapshot q) | None \<Rightarrow> []) \<and>
          instances_without_return d =
            running_hooks r @ map ended_instance (fst (call_all h (trigger_cancel (set_phase Aborted r))))) ds open_runs) \<and>
    (\<exists>rs. dr_left s' = dr_left s @ rs @ map (\<lambda>r. snd (take_queue r)) closing \<and> map run_id rs = map run_id open_runs \<and>
       list_all (\<lambda>r. cancel r \<and> phase r = Aborted \<and> rec_queue r = None \<and> rec_book r = None \<and> arrival r = None) rs) \<and>
    (\<forall>i. \<forall>r \<in> set open_runs. inst_by_id (dr_imap s') i \<noteq> Some (addr (run_id r)))"
proof -
  let ?ids = "run_id ` set closing"
  let ?s1 = "fold (\<lambda>r s. if run_id r \<in> ?ids then s else abort_run h addr r s) order (s\<lparr>dr_closings := []\<rparr>)"
  have s': "s' = (fold drop_closing closing ?s1)\<lparr>dr_feed := False\<rparr>"
    by (simp add: assms(2,3) drain_end_def drain_abort_def take_all_def)
  note a = fold_abort [of ?ids h addr order "s\<lparr>dr_closings := []\<rparr>"] and c = fold_drop_closing [of closing ?s1]
  have "runs (dr_runner s') run = None" for run
    using assms(1) [of run] by (cases "runs (dr_runner s) run") (auto simp: s' c(1) a(1))
  then have "runs (dr_runner s') = Map.empty" by (simp add: fun_eq_iff)
  moreover have "dr_closings s' = []" "\<not> dr_feed s'" by (simp_all add: s' c(2) a(2))
  moreover have "dr_report s' = dr_report s @ map (aborted_of h) open_runs @
      filter (\<lambda>d. unsent d \<noteq> []) (map (\<lambda>r. drained_run r False) closing)"
    by (simp add: s' c(5) a(4) assms(4))
  moreover have "list_all2 (\<lambda>d r. drained_aborted d \<and> drained_run_id d = run_id r \<and> drained_job d = job_id r \<and>
          drained_executor_running d = executor_running r \<and>
          unsent d = (case rec_queue r of Some q \<Rightarrow> waiting (snapshot q) | None \<Rightarrow> []) \<and>
          instances_without_return d =
            running_hooks r @ map ended_instance (fst (call_all h (trigger_cancel (set_phase Aborted r))))) (map (aborted_of h) open_runs) open_runs"
    by (simp add: list_all2_map1 aborted_of_fields list_all2_refl)
  moreover have "\<exists>rs. dr_left s' = dr_left s @ rs @ map (\<lambda>r. snd (take_queue r)) closing \<and>
      map run_id rs = map run_id open_runs \<and>
      list_all (\<lambda>r. cancel r \<and> phase r = Aborted \<and> rec_queue r = None \<and> rec_book r = None \<and> arrival r = None) rs"
    using a(6) by (auto simp: s' c(6) assms(4) list_all_iff)
  moreover have "\<forall>i. \<forall>r \<in> set open_runs. inst_by_id (dr_imap s') i \<noteq> Some (addr (run_id r))"
    using a(5) by (auto simp: s' c(4) assms(4))
  ultimately show ?thesis by blast
qed

definition demo_drain :: DrainSys where
  "demo_drain = \<lparr>dr_runner = runner_new\<lparr>runs := [1 \<mapsto> run_record_new 1 2 False]\<rparr>,
     dr_imap = instances_default (\<lambda>_. run_record_new 1 2 False), dr_closings = [], dr_feed = True, dr_report = [],
     dr_hooks = [], dr_left = []\<rparr>"

theorem drain_leaves_nothing_witness:
  "runs (dr_runner demo_drain) 1 \<noteq> None \<and>
   runs (dr_runner (drain_end False True (\<lambda>_. 0) [run_record_new 1 2 False] demo_drain)) = Map.empty"
proof -
  have h: "r \<in> set [run_record_new 1 2 False] \<and> run_id r = run" if "runs (dr_runner demo_drain) run = Some r" for run r
    using that by (auto simp: demo_drain_def run_record_new_def split: if_splits)
  have "runs (dr_runner demo_drain) 1 \<noteq> None" by (simp add: demo_drain_def)
  moreover have "runs (dr_runner (drain_end False True (\<lambda>_. 0) [run_record_new 1 2 False] demo_drain)) = Map.empty"
    by (rule drain_leaves_nothing [THEN conjunct1, OF h refl refl refl])
  ultimately show ?thesis by (rule conjI)
qed

end
