(* ===== verification/Run_Body.thy ===== *)
theory Run_Body
  imports Run_Finish Saved_State Instance_Lookup
begin

text \<open>
  The work of a Run between its start and its end: what is prepared before the graph runs
  (\<open>run/prelude.rs\<close>), the graph and what its outcome becomes (\<open>run/body.rs\<close>), the task that keeps the
  arrival feed (\<open>run/arrival.rs\<close>), the observer of the executor (\<open>exec_observer.rs\<close>) and what follows
  the body (the end of \<open>execute\<close> in \<open>run/mod.rs\<close>). The author's start, the state of the graph contract
  and the executor are outside: their answers are inputs (\<open>BodyWorld\<close>), and so is what everybody else
  did to the record and the queue of the Run while the body waited for them.
\<close>

section \<open>What the executor reports\<close>

datatype RunFailure =
    NodeFailed string "string option"
  | NodeRefusedInput string
  | NodeCouldNotStart string "string option"
  | NodeVanished string
  | UpdateRefused string
  | EdgeFailed string "string option"
  | CheckpointNotBuilt string
  | SinkRefused string
  | OtherRunFailure string

datatype 's ExecOutcome = ExecEnded 's | ExecFailed "RunFailure list" | ExecCancelled "RunFailure list" | ExecUnknown

fun failure_parts :: "RunFailure \<Rightarrow> string \<times> string \<times> string option" where
  "failure_parts (NodeFailed why c) = (''node_failed'', why, c)"
| "failure_parts (NodeRefusedInput why) = (''node_refused_an_input'', why, None)"
| "failure_parts (NodeCouldNotStart why c) = (''node_could_not_start'', why, c)"
| "failure_parts (NodeVanished why) = (''node_vanished'', why, None)"
| "failure_parts (UpdateRefused why) = (''update_refused'', why, None)"
| "failure_parts (EdgeFailed why c) = (''edge_failed'', why, c)"
| "failure_parts (CheckpointNotBuilt why) = (''checkpoint_not_built'', why, None)"
| "failure_parts (SinkRefused why) = (''sink_refused'', why, None)"
| "failure_parts (OtherRunFailure display) = (''run_failed'', display, None)"

definition found_of :: "RunFailure \<Rightarrow> Found" where
  "found_of f = (case failure_parts f of (code, msg, c) \<Rightarrow> (found_permanent code msg)\<lparr>found_cause := c\<rparr>)"

definition first_found :: "RunFailure list \<Rightarrow> Found" where
  "first_found fs =
     (case fs of [] \<Rightarrow> found_permanent ''run_failed'' ''the executor reported no failure'' | f # _ \<Rightarrow> found_of f)"

definition ending_of :: "FailureMapping option \<Rightarrow> 's ExecOutcome \<Rightarrow> 's Ending" where
  "ending_of mapping outcome =
     (case outcome of
        ExecEnded state \<Rightarrow> EndedWithState state
      | ExecFailed fs \<Rightarrow> EndedFailed (failed_of (first_found fs) mapping)
      | ExecCancelled _ \<Rightarrow> EndedCancelled
      | ExecUnknown \<Rightarrow>
          EndedFailed (failed_of (found_permanent ''run_failed'' ''the executor gave an outcome that is not known'') mapping))"

definition after_start :: "FailureMapping option \<Rightarrow> (string, 's ExecOutcome) sum \<Rightarrow> RunRecord \<Rightarrow> 's Ending \<times> RunRecord" where
  "after_start mapping started r =
     (let r1 = set_executor_running False r in
      case started of
        Inr outcome \<Rightarrow> (ending_of mapping outcome, expect_observations_end r1)
      | Inl error \<Rightarrow> (EndedFailed (failed_of (found_permanent ''start_refused'' error) mapping), r1))"

section \<open>Before the graph\<close>

datatype Early = EarlyCancelled | EarlyFailed Failed

datatype 'f StartAnswer = StartPanics string | StartRefuses RunRefusal | StartGives 'f "string list"

datatype 's GraphAnswer = GraphPanics string | GraphAnswers "(string, 's ExecOutcome) sum"

record ('s, 'f) BodyPlan =
  bp_plan :: "'s RunPlan"
  bp_env :: "('s, 'f) StateEnv"
  bp_create :: "nat option \<Rightarrow> 'f \<Rightarrow> ('s, string) result"
  bp_limit :: "nat option"
  bp_entries :: "string list"
  bp_v7 :: "uuid \<Rightarrow> bool"

type_synonym World = "RunRecord \<times> Shared \<Rightarrow> RunRecord \<times> Shared"

record ('s, 'f) BodyWorld =
  bw_restart :: bool
  bw_saved :: "(json, Error) result"
  bw_start :: "'f option \<Rightarrow> 'f StartAnswer"
  bw_graph :: "'s \<Rightarrow> string list \<Rightarrow> 's GraphAnswer"
  bw_now :: instant
  bw_while_read :: World
  bw_while_starting :: World
  bw_while_running :: World

definition body_mapping :: "('s, 'f) BodyPlan \<Rightarrow> FailureMapping option" where
  "body_mapping bp = run_mapping (bp_plan bp)"

definition early_fail :: "('s, 'f) BodyPlan \<Rightarrow> string \<Rightarrow> string \<Rightarrow> Early" where
  "early_fail bp code msg = EarlyFailed (failed_of (found_permanent code msg) (body_mapping bp))"

fun saved_state_bad :: "Error \<Rightarrow> bool" where
  "saved_state_bad (Refused _) = True"
| "saved_state_bad (Unreadable _) = True"
| "saved_state_bad (InvalidInput _) = True"
| "saved_state_bad _ = False"

definition read_saved_state :: "('s, 'f) BodyPlan \<Rightarrow> (json, Error) result \<Rightarrow> ('f Restored, Early) result" where
  "read_saved_state bp saved =
     (case saved of
        Inl e \<Rightarrow>
          if saved_state_bad e then Err (early_fail bp ''saved_state_invalid'' (error_display e))
          else Err (EarlyFailed (failed_of (found_transient ''saved_state_unavailable'' (error_display e)) (body_mapping bp)))
      | Inr v \<Rightarrow>
          (case decode_state (bp_env bp) v (bp_limit bp) of
             Inl msg \<Rightarrow> Err (early_fail bp ''saved_state_invalid'' msg)
           | Inr restored \<Rightarrow> Ok restored))"

text \<open>The saved state of a restart, with what others did meanwhile; a first start reads nothing.\<close>

definition prepare_restored ::
  "('s, 'f) BodyPlan \<Rightarrow> ('s, 'f) BodyWorld \<Rightarrow> RunRecord \<times> Shared \<Rightarrow> ('f option \<times> RestoredAgent list, Early) result \<times> RunRecord \<times> Shared" where
  "prepare_restored bp w s =
     (if bw_restart w then
        (case read_saved_state bp (bw_saved w) of
           Inl early \<Rightarrow> (Err early, bw_while_read w s)
         | Inr restored \<Rightarrow> (Ok (Some (restored_fields restored), restored_agents restored), bw_while_read w s))
      else (Ok (None, []), s))"

text \<open>The book, the arrival task and the context of the Run.\<close>

definition prepare_book ::
  "('s, 'f) BodyPlan \<Rightarrow> instant \<Rightarrow> RestoredAgent list \<Rightarrow> RunRecord \<times> Shared \<Rightarrow> (unit, Early) result \<times> RunRecord \<times> Shared" where
  "prepare_book bp now ags s =
     (case s of (r, q) \<Rightarrow>
        case book_make (bp_v7 bp) (run_id r) False ags (run_can_restart (bp_plan bp)) now q of
          (Inl e, _, q') \<Rightarrow> (Err (early_fail bp ''saved_state_invalid'' (error_display e)), r, q')
        | (Inr b, _, q') \<Rightarrow> (Ok (), set_arrival (set_book b r), q'))"

definition prepare_start ::
  "('s, 'f) BodyPlan \<Rightarrow> ('s, 'f) BodyWorld \<Rightarrow> 'f option \<Rightarrow> RunRecord \<times> Shared \<Rightarrow> ('s \<times> string list, Early) result \<times> RunRecord \<times> Shared" where
  "prepare_start bp w restored s =
     (case bw_while_starting w s of (r, q) \<Rightarrow>
        (case bw_start w restored of
           StartPanics msg \<Rightarrow> Err (early_fail bp ''panic'' msg)
         | StartRefuses refusal \<Rightarrow> Err (EarlyFailed (into_failed refusal))
         | StartGives f nodes \<Rightarrow>
             if cancel r then Err EarlyCancelled
             else
               (case bp_create bp (bp_limit bp) f of
                  Inl msg \<Rightarrow> Err (early_fail bp ''start_refused'' msg)
                | Inr state \<Rightarrow> Ok (state, if bw_restart w then bp_entries bp else nodes)),
         r, q))"

definition prepare ::
  "('s, 'f) BodyPlan \<Rightarrow> ('s, 'f) BodyWorld \<Rightarrow> RunRecord \<times> Shared \<Rightarrow> ('s \<times> string list, Early) result \<times> RunRecord \<times> Shared" where
  "prepare bp w s =
     (if cancel (fst s) then (Err EarlyCancelled, s)
      else
        (case prepare_restored bp w s of
           (Inl early, s1) \<Rightarrow> (Err early, s1)
         | (Inr (restored, ags), s1) \<Rightarrow>
             (case prepare_book bp (bw_now w) ags s1 of
                (Inl early, s2) \<Rightarrow> (Err early, s2)
              | (Inr _, s2) \<Rightarrow>
                  if cancel (fst s2) then (Err EarlyCancelled, s2) else prepare_start bp w restored s2)))"

section \<open>The body\<close>

text \<open>\<open>execute_graph\<close>: the ending, or the text of a panic of the executor.\<close>

definition execute_graph ::
  "('s, 'f) BodyPlan \<Rightarrow> ('s, 'f) BodyWorld \<Rightarrow> RunRecord \<times> Shared \<Rightarrow> (string, 's Ending) sum \<times> RunRecord \<times> Shared" where
  "execute_graph bp w s =
     (case prepare bp w s of
        (Inl EarlyCancelled, s1) \<Rightarrow> (Inr EndedCancelled, s1)
      | (Inl (EarlyFailed failed), s1) \<Rightarrow> (Inr (EndedFailed failed), s1)
      | (Inr (state, nodes), r1, q1) \<Rightarrow>
          (case bw_while_running w (set_executor_running True r1, q1) of (r2, q2) \<Rightarrow>
             case bw_graph w state nodes of
               GraphPanics msg \<Rightarrow> (Inl msg, r2, q2)
             | GraphAnswers started \<Rightarrow>
                 (case after_start (body_mapping bp) started r2 of (ending, r3) \<Rightarrow> (Inr ending, r3, q2))))"

definition run_body ::
  "('s, 'f) BodyPlan \<Rightarrow> ('s, 'f) BodyWorld \<Rightarrow> RunRecord \<times> Shared \<Rightarrow> 's Ending \<times> RunRecord \<times> Shared" where
  "run_body bp w s =
     (case execute_graph bp w s of
        (Inr ending, s1) \<Rightarrow> (ending, s1)
      | (Inl msg, r, q) \<Rightarrow>
          (EndedFailed (failed_of (found_permanent ''panic'' msg) (body_mapping bp)),
           trigger_cancel (set_executor_running False r), q))"

section \<open>The arrival task\<close>

text \<open>
  One turn of \<open>keep\<close>: the feed cannot be opened, it gives arrivals and ends, or the turn panics, before
  or after it told the book that the feed is open again. The calls to the book are in order; the flag
  is \<open>was_cut\<close>.
\<close>

datatype FeedTurn = TurnNotOpened Error | TurnFeed "Arrival list" Error | TurnPanicsEarly string | TurnPanics "Arrival list" string

datatype SinkCall = SinkArrival Arrival | SinkEnded Error | SinkOpenAgain

definition again_calls :: "bool \<Rightarrow> SinkCall list" where
  "again_calls was_cut = (if was_cut then [SinkOpenAgain] else [])"

definition panic_ended :: "string \<Rightarrow> SinkCall" where
  "panic_ended msg = SinkEnded (InvalidInput (''the arrival task panicked: '' @ msg))"

fun feed_turn :: "FeedTurn \<Rightarrow> bool \<Rightarrow> SinkCall list \<times> bool" where
  "feed_turn (TurnNotOpened e) was_cut = ([SinkEnded e], True)"
| "feed_turn (TurnFeed xs e) was_cut = (again_calls was_cut @ map SinkArrival xs @ [SinkEnded e], True)"
| "feed_turn (TurnPanicsEarly msg) was_cut = ([panic_ended msg], True)"
| "feed_turn (TurnPanics xs msg) was_cut = (again_calls was_cut @ map SinkArrival xs @ [panic_ended msg], True)"

fun keep_turns :: "FeedTurn list \<Rightarrow> bool \<Rightarrow> SinkCall list" where
  "keep_turns [] was_cut = []"
| "keep_turns (t # ts) was_cut = (case feed_turn t was_cut of (calls, was_cut1) \<Rightarrow> calls @ keep_turns ts was_cut1)"

text \<open>What a call does to the book.\<close>

fun sink_call :: "SinkCall \<Rightarrow> Book \<Rightarrow> Book" where
  "sink_call (SinkArrival a) b = book_arrival a b"
| "sink_call (SinkEnded e) b = arrival_ended e b"
| "sink_call SinkOpenAgain b = arrival_open_again b"

section \<open>The end of a Run\<close>

text \<open>
  The end of \<open>execute\<close>: the settling and the hand-over may panic, and then a failure is handed over;
  the Run leaves the lookup, its arrival task is stopped, its book dropped and its closing begins.
\<close>

definition hand_over_or_fail ::
  "('s, 'f) BodyPlan \<Rightarrow> string option \<Rightarrow> BookedAgent list \<Rightarrow> 's Ending \<Rightarrow> uuid \<Rightarrow> instant \<Rightarrow> RunRecord \<times> Shared \<Rightarrow> Terminal \<times> RunRecord \<times> Shared" where
  "hand_over_or_fail bp panicked ags ending message_id now s =
     (case s of (r, q) \<Rightarrow>
        case panicked of
          Some msg \<Rightarrow>
            (case queue_failed (run_id r) (failed_of (found_permanent ''panic'' msg) (body_mapping bp)) message_id now q of
               (e, q') \<Rightarrow> (TerminalFailed e, set_executor_running False r, q'))
        | None \<Rightarrow>
            (case end_run (bp_plan bp) (run_id r) ags ending message_id now q of (t, q') \<Rightarrow> (t, r, q')))"

definition leave_run :: "RunRecord \<Rightarrow> RunRecord" where
  "leave_run r = snd (take_book (stop_arrival (set_phase RunDropped r)))"

definition begin_closing_run :: "RunRecord \<Rightarrow> Closings \<Rightarrow> Closings" where
  "begin_closing_run r c = closings_add (run_id r) r c"

section \<open>What an ending means\<close>

definition exec_never_cancels :: "('s, 'f) BodyWorld \<Rightarrow> bool" where
  "exec_never_cancels w \<longleftrightarrow> (\<forall>state nodes fs. bw_graph w state nodes \<noteq> GraphAnswers (Inr (ExecCancelled fs)))"

lemma prepare_book_cancel: "prepare_book bp now ags s = (x, s') \<Longrightarrow> cancel (fst s') = cancel (fst s)"
  by (auto simp: prepare_book_def set_arrival_def set_book_def split: prod.splits sum.splits)

lemma prepare_cancelled:
  assumes "prepare bp w s = (Err EarlyCancelled, s')"
  shows "cancel (fst s')"
  using assms
  by (auto simp: prepare_def prepare_start_def prepare_restored_def read_saved_state_def early_fail_def prepare_book_def
      split: if_splits prod.splits sum.splits StartAnswer.splits)

lemma body_cancelled:
  assumes "run_body bp w s = (EndedCancelled, s')" and "exec_never_cancels w"
  shows "cancel (fst s')"
proof -
  from assms(1) have e: "execute_graph bp w s = (Inr EndedCancelled, s')"
    by (auto simp: run_body_def split: prod.splits sum.splits)
  show ?thesis
  proof (cases "\<exists>s1. prepare bp w s = (Err EarlyCancelled, s1)")
    case True
    with e prepare_cancelled [of bp w s] show ?thesis by (auto simp: execute_graph_def)
  next
    case False
    with e assms(2) have False
      by (auto simp: execute_graph_def after_start_def ending_of_def exec_never_cancels_def Let_def
          split: prod.splits sum.splits Early.splits GraphAnswer.splits ExecOutcome.splits)
    then show ?thesis ..
  qed
qed

definition terminals :: "Write list \<Rightarrow> Write list" where
  "terminals ws = filter is_terminal ws"

lemma terminals_made: "filter is_terminal (map WAnswer xs) = []" "filter is_terminal (map WSavedState ys) = []"
  by (simp_all add: filter_empty_conv)

lemma ending_writes_terminal:
  "ending \<noteq> EndedCancelled \<Longrightarrow>
   length (terminals (ending_writes plan run ags ending m)) = 1 \<and> is_terminal (last (ending_writes plan run ags ending m))"
  by (cases ending) (auto simp: ending_writes_def terminals_def terminals_made split: sum.splits prod.splits)


text \<open>A Run whose author's start panics.\<close>

definition demo_body :: "(nat, nat) BodyPlan" where
  "demo_body = \<lparr>bp_plan = demo_plan, bp_env = \<lparr>env_to_json = (\<lambda>_. Err ''no''), env_from_slice = (\<lambda>_. Err ''no''),
     env_to_value = (\<lambda>_. Err ''no''), env_from_value = (\<lambda>_. Err ''no''), env_to_vec = (\<lambda>_. Err ''no''),
     env_rebuild = (\<lambda>_ _. Err ''no''), env_into_fields = (\<lambda>s. s)\<rparr>,
     bp_create = (\<lambda>_ f. Ok f), bp_limit = None, bp_entries = [''first''], bp_v7 = (\<lambda>_. True)\<rparr>"

definition demo_world :: "(nat, nat) BodyWorld" where
  "demo_world = \<lparr>bw_restart = False, bw_saved = Err Unauthenticated, bw_start = (\<lambda>_. StartPanics ''boom''),
     bw_graph = (\<lambda>_ _. GraphAnswers (Inr ExecUnknown)), bw_now = 0, bw_while_read = (\<lambda>s. s), bw_while_starting = (\<lambda>s. s),
     bw_while_running = (\<lambda>s. s)\<rparr>"


section \<open>The calls of the arrival task\<close>

fun alternates :: "bool \<Rightarrow> SinkCall list \<Rightarrow> bool" where
  "alternates was_cut [] = True"
| "alternates was_cut (SinkArrival _ # cs) \<longleftrightarrow> \<not> was_cut \<and> alternates was_cut cs"
| "alternates was_cut (SinkOpenAgain # cs) \<longleftrightarrow> was_cut \<and> alternates False cs"
| "alternates was_cut (SinkEnded _ # cs) \<longleftrightarrow> alternates True cs"

fun is_ended :: "SinkCall \<Rightarrow> bool" where
  "is_ended (SinkEnded _) = True"
| "is_ended _ = False"

lemma alternates_arrivals: "alternates False (map SinkArrival xs @ cs) = alternates False cs"
  by (induction xs) simp_all

lemma alternates_turn: "alternates was_cut (fst (feed_turn t was_cut) @ cs) = alternates (snd (feed_turn t was_cut)) cs"
  by (cases t; cases was_cut) (simp_all add: again_calls_def panic_ended_def alternates_arrivals)

lemma ended_arrivals: "filter is_ended (map SinkArrival xs) = []"
  by (induction xs) simp_all

text \<open>
  The agent book always knows whether its arrival feed is open. Over any number of feeds that
  cannot be opened, end or panic, the book gets an arrival only while the feed is open for it, is
  told that the feed is open again exactly once after a cut and before the next arrival, and is told
  of exactly one end for each feed.
\<close>

theorem arrival_calls_alternate:
  "alternates False (keep_turns ts False) \<and> length (filter is_ended (keep_turns ts False)) = length ts"
proof -
  have "alternates was_cut (keep_turns ts was_cut)" for was_cut
    by (induction ts arbitrary: was_cut) (simp_all add: split_beta alternates_turn)
  moreover have "length (filter is_ended (fst (feed_turn t was_cut))) = 1" for t was_cut
    by (cases t) (simp_all add: again_calls_def panic_ended_def ended_arrivals)
  then have "length (filter is_ended (keep_turns ts was_cut)) = length ts" for was_cut
    by (induction ts arbitrary: was_cut) (simp_all add: split_beta)
  ultimately show ?thesis by blast
qed

end
