(* ===== verification/Run_Settle.thy ===== *)
theory Run_Settle
  imports Run_Body
begin

text \<open>
  How a Run is settled before its terminal fact is handed over (\<open>run/settle.rs\<close>) while the executor
  still reports its last observations (\<open>exec_observer.rs\<close>) and lifecycle hooks run. The observer writes
  a new instance into the record and looks at the phase afterwards; the settling sets the phase first
  and lists the instances afterwards. Each of these is a step of its own.
\<close>

section \<open>The steps\<close>

datatype SettleAt = SaBody | SaObserve | SaListing | SaCalling | SaHanded

record SettleSys =
  sy_rec :: RunRecord
  sy_at :: SettleAt
  sy_todo :: "instance_id list"
  sy_reporting :: "instance_id list"
  sy_created :: "instance_id list"
  sy_calls :: "InstanceEnded list"

datatype SettleEvent =
    ObsCreated instance_id string
  | ObsLooked instance_id
  | ObsHandled instance_id
  | ObsOutcome
  | HookReturned instance_id
  | BodyReturned bool
  | SettleObserved
  | SettleListed
  | SettleCalled
  | SettleHanded

text \<open>A call of the hook for one instance, in the record and in the history.\<close>

definition hook_call :: "instance_id \<Rightarrow> SettleSys \<Rightarrow> SettleSys" where
  "hook_call i s = (case call_once True i (sy_rec s) of (es, r) \<Rightarrow> s\<lparr>sy_rec := r, sy_calls := sy_calls s @ es\<rparr>)"

definition observer_looks :: "instance_id \<Rightarrow> SettleSys \<Rightarrow> SettleSys" where
  "observer_looks i s = (if phase (sy_rec s) \<noteq> Live then hook_call i s else s)"

text \<open>
  The executor reports nothing after its outcome, and its outcome after what it reported before; an
  outcome that the body got is expected to be reported.
\<close>

inductive settle_step :: "SettleSys \<Rightarrow> SettleEvent \<Rightarrow> SettleSys \<Rightarrow> bool" where
  st_created: "\<not> observations_over (sy_rec s) \<Longrightarrow> i \<notin> set (sy_created s) \<Longrightarrow>
    settle_step s (ObsCreated i n)
      (s\<lparr>sy_rec := instance_created i n (sy_rec s), sy_reporting := sy_reporting s @ [i], sy_created := sy_created s @ [i]\<rparr>)"
| st_looked: "i \<in> set (sy_reporting s) \<Longrightarrow>
    settle_step s (ObsLooked i) ((observer_looks i s)\<lparr>sy_reporting := remove1 i (sy_reporting s)\<rparr>)"
| st_handled: "\<not> observations_over (sy_rec s) \<Longrightarrow> settle_step s (ObsHandled i) (hook_call i s)"
| st_outcome: "sy_reporting s = [] \<Longrightarrow> settle_step s ObsOutcome (s\<lparr>sy_rec := end_observations (sy_rec s)\<rparr>)"
| st_returned: "settle_step s (HookReturned i) (s\<lparr>sy_rec := hook_returned i (sy_rec s)\<rparr>)"
| st_body: "sy_at s = SaBody \<Longrightarrow>
    settle_step s (BodyReturned outcome)
      (s\<lparr>sy_at := SaObserve, sy_rec := (if outcome then expect_observations_end (sy_rec s) else sy_rec s)\<rparr>)"
| st_observed: "sy_at s = SaObserve \<Longrightarrow> (observations_expected (sy_rec s) \<longrightarrow> observations_over (sy_rec s)) \<Longrightarrow>
    settle_step s SettleObserved (s\<lparr>sy_at := SaListing, sy_rec := set_phase ExecutorReturned (sy_rec s)\<rparr>)"
| st_listed: "sy_at s = SaListing \<Longrightarrow>
    settle_step s SettleListed (s\<lparr>sy_at := SaCalling, sy_todo := map fst (unhooked_instances (sy_rec s))\<rparr>)"
| st_called: "sy_at s = SaCalling \<Longrightarrow> sy_todo s = i # todo \<Longrightarrow>
    settle_step s SettleCalled ((hook_call i s)\<lparr>sy_todo := todo\<rparr>)"
| st_handed: "sy_at s = SaCalling \<Longrightarrow> sy_todo s = [] \<Longrightarrow> running_hooks (sy_rec s) = [] \<Longrightarrow>
    settle_step s SettleHanded (s\<lparr>sy_at := SaHanded\<rparr>)"

definition settle_init :: "SettleSys \<Rightarrow> bool" where
  "settle_init s \<longleftrightarrow> (\<exists>run job c. sy_rec s = run_record_new run job c) \<and> sy_at s = SaBody \<and> sy_todo s = [] \<and>
     sy_reporting s = [] \<and> sy_created s = [] \<and> sy_calls s = []"

section \<open>The invariant\<close>

definition unhooked_ids :: "RunRecord \<Rightarrow> instance_id set" where
  "unhooked_ids r = {i. \<exists>info. (i, info) \<in> set (rec_instances r) \<and> \<not> hooked info}"

definition settle_phase_ok :: "SettleSys \<Rightarrow> bool" where
  "settle_phase_ok s \<longleftrightarrow>
     (phase (sy_rec s) = Live \<longleftrightarrow> sy_at s \<in> {SaBody, SaObserve}) \<and>
     (observations_over (sy_rec s) \<longrightarrow> sy_reporting s = []) \<and>
     (sy_at s \<in> {SaListing, SaCalling, SaHanded} \<longrightarrow> observations_expected (sy_rec s) \<longrightarrow> observations_over (sy_rec s))"

definition settle_covered :: "SettleSys \<Rightarrow> bool" where
  "settle_covered s \<longleftrightarrow>
     (sy_at s = SaCalling \<longrightarrow> unhooked_ids (sy_rec s) \<subseteq> set (sy_reporting s) \<union> set (sy_todo s)) \<and>
     (sy_at s = SaHanded \<longrightarrow> unhooked_ids (sy_rec s) \<subseteq> set (sy_reporting s) \<and> (observations_expected (sy_rec s) \<longrightarrow> running_hooks (sy_rec s) = []))"

definition settle_inv :: "SettleSys \<Rightarrow> bool" where
  "settle_inv s \<longleftrightarrow> hooks_ok (sy_created s) (sy_calls s) (sy_rec s) \<and> settle_phase_ok s \<and> settle_covered s"

lemma settle_invI:
  assumes "hooks_ok (sy_created s) (sy_calls s) (sy_rec s)" and "settle_phase_ok s" and "settle_covered s"
  shows "settle_inv s"
  using assms by (simp add: settle_inv_def)

lemma record_frames [simp]:
  "phase (instance_created i n r) = phase r" "observations_over (instance_created i n r) = observations_over r"
  "observations_expected (instance_created i n r) = observations_expected r" "running_hooks (instance_created i n r) = running_hooks r"
  by (simp_all add: instance_created_def)

lemma hook_call_keeps:
  assumes "hooks_ok (sy_created s) (sy_calls s) (sy_rec s)"
  shows "hooks_ok (sy_created s) (sy_calls (hook_call i s)) (sy_rec (hook_call i s))"
    and "unhooked_ids (sy_rec (hook_call i s)) \<subseteq> unhooked_ids (sy_rec s) - {i}"
    and "i \<notin> unhooked_ids (sy_rec s) \<Longrightarrow> sy_rec (hook_call i s) = sy_rec s"
    and "sy_at (hook_call i s) = sy_at s" and "sy_todo (hook_call i s) = sy_todo s"
    and "sy_reporting (hook_call i s) = sy_reporting s" and "sy_created (hook_call i s) = sy_created s"
    and "phase (sy_rec (hook_call i s)) = phase (sy_rec s)"
    and "observations_over (sy_rec (hook_call i s)) = observations_over (sy_rec s)"
    and "observations_expected (sy_rec (hook_call i s)) = observations_expected (sy_rec s)"
proof -
  obtain es r where c: "call_once True i (sy_rec s) = (es, r)" by (cases "call_once True i (sy_rec s)")
  note o = call_once_ok [OF assms c]
  show "hooks_ok (sy_created s) (sy_calls (hook_call i s)) (sy_rec (hook_call i s))"
    using o(1) c by (simp add: hook_call_def)
  show "unhooked_ids (sy_rec (hook_call i s)) \<subseteq> unhooked_ids (sy_rec s) - {i}"
    using o(3) c by (auto simp: hook_call_def unhooked_ids_def)
  show "sy_rec (hook_call i s) = sy_rec s" if "i \<notin> unhooked_ids (sy_rec s)"
    using that by (auto simp: hook_call_def call_once_def claim_hook_def unhooked_ids_def split: option.splits dest: map_of_SomeD)
qed (auto simp: hook_call_def call_once_def claim_hook_def split: option.splits if_splits)

lemma created_ids:
  assumes "hooks_ok (sy_created s) (sy_calls s) (sy_rec s)" and "i \<notin> set (sy_created s)"
  shows "hooks_ok (sy_created s @ [i]) (sy_calls s) (instance_created i n (sy_rec s))"
    and "unhooked_ids (instance_created i n (sy_rec s)) = insert i (unhooked_ids (sy_rec s))"
proof -
  have "i \<notin> fst ` set (rec_instances (sy_rec s))" using assms by (simp add: hooks_ok_def flip: set_map)
  then have f: "filter (\<lambda>(j, _). j \<noteq> i) (rec_instances (sy_rec s)) = rec_instances (sy_rec s)"
    by (force simp: filter_id_conv)
  from assms show "hooks_ok (sy_created s @ [i]) (sy_calls s) (instance_created i n (sy_rec s))"
    by (auto simp: hooks_ok_def instance_created_def f)
  show "unhooked_ids (instance_created i n (sy_rec s)) = insert i (unhooked_ids (sy_rec s))"
    by (auto simp: unhooked_ids_def instance_created_def f)
qed

lemma settle_inv_step:
  assumes "settle_step s e s'" and "settle_inv s"
  shows "settle_inv s'"
proof -
  have h: "hooks_ok (sy_created s) (sy_calls s) (sy_rec s)" and p: "settle_phase_ok s" and c: "settle_covered s"
    using assms(2) by (simp_all add: settle_inv_def)
  note k = hook_call_keeps [OF h]
  from assms(1) show ?thesis
  proof (cases rule: settle_step.cases)
    case (st_created i n)
    note n = created_ids [OF h st_created(4)]
    show ?thesis
    proof (rule settle_invI)
      show "hooks_ok (sy_created s') (sy_calls s') (sy_rec s')" using n(1) by (simp add: st_created(2))
      show "settle_phase_ok s'" using p st_created(3) by (simp add: st_created(2) settle_phase_ok_def)
      show "settle_covered s'" using c n(2) by (auto simp: st_created(2) settle_covered_def)
    qed
  next
    case (st_looked i)
    have o: "\<not> observations_over (sy_rec s)" using p st_looked(3) by (auto simp: settle_phase_ok_def)
    show ?thesis
    proof (cases "phase (sy_rec s) = Live")
      case True
      then have "sy_at s \<in> {SaBody, SaObserve}" using p by (simp add: settle_phase_ok_def)
      with True o h p show ?thesis
        by (intro settle_invI) (auto simp: st_looked(2) observer_looks_def settle_phase_ok_def settle_covered_def)
    next
      case False
      then have s': "s' = (hook_call i s)\<lparr>sy_reporting := remove1 i (sy_reporting s)\<rparr>"
        by (simp add: st_looked(2) observer_looks_def)
      show ?thesis
      proof (rule settle_invI)
        show "hooks_ok (sy_created s') (sy_calls s') (sy_rec s')" using k(1,7) [of i] by (simp add: s')
        show "settle_phase_ok s'" using p o k(4-10) [of i] by (simp add: s' settle_phase_ok_def)
        have "set (sy_reporting s) - {i} \<subseteq> set (remove1 i (sy_reporting s))"
          by (metis DiffD1 DiffD2 in_set_remove1 insertI1 subsetI)
        then have "unhooked_ids (sy_rec (hook_call i s)) \<subseteq> set (remove1 i (sy_reporting s)) \<union> A"
          if "unhooked_ids (sy_rec s) \<subseteq> set (sy_reporting s) \<union> A" for A
          using that k(2) [of i] by blast
        note u = this [of "set (sy_todo s)"] this [of "{}", simplified]
        note u
        moreover have "sy_at s = SaHanded \<Longrightarrow> \<not> observations_expected (sy_rec s)" using p o by (simp add: settle_phase_ok_def)
        ultimately show "settle_covered s'" using c k(4-10) [of i] by (simp add: s' settle_covered_def)
      qed
    qed
  next
    case (st_handled i)
    show ?thesis
    proof (rule settle_invI)
      show "hooks_ok (sy_created s') (sy_calls s') (sy_rec s')" using k(1,7) [of i] by (simp add: st_handled(2))
      show "settle_phase_ok s'" using p k(4-10) [of i] by (simp add: st_handled(2) settle_phase_ok_def)
      have "unhooked_ids (sy_rec (hook_call i s)) \<subseteq> A" if "unhooked_ids (sy_rec s) \<subseteq> A" for A
        using that k(2) [of i] by blast
      moreover have "sy_at s = SaHanded \<Longrightarrow> \<not> observations_expected (sy_rec s)"
        using p st_handled(3) by (simp add: settle_phase_ok_def)
      ultimately show "settle_covered s'" using c k(4-10) [of i]
        by (simp add: st_handled(2) settle_covered_def)
    qed
  next
    case (st_called i todo)
    show ?thesis
    proof (rule settle_invI)
      show "hooks_ok (sy_created s') (sy_calls s') (sy_rec s')" using k(1,7) [of i] by (simp add: st_called(2))
      show "settle_phase_ok s'" using p k(4-10) [of i] by (simp add: st_called(2) settle_phase_ok_def)
      have "unhooked_ids (sy_rec (hook_call i s)) \<subseteq> set (sy_reporting s) \<union> set todo"
        if "unhooked_ids (sy_rec s) \<subseteq> set (sy_reporting s) \<union> set (i # todo)"
        using that k(2) [of i] by auto
      then show "settle_covered s'" using c st_called(3,4) k(4-10) [of i] by (simp add: st_called(2) settle_covered_def)
    qed
  next
    case st_listed
    show ?thesis
    proof (rule settle_invI)
      show "hooks_ok (sy_created s') (sy_calls s') (sy_rec s')" using h by (simp add: st_listed(2))
      show "settle_phase_ok s'" using p st_listed(3) by (simp add: st_listed(2) settle_phase_ok_def)
      show "settle_covered s'"
        by (force simp: st_listed(2) settle_covered_def unhooked_ids_def unhooked_instances_def)
    qed
  next
    case st_outcome
    with h p c show ?thesis
      by (intro settle_invI) (simp_all add: end_observations_def hooks_ok_def settle_phase_ok_def settle_covered_def unhooked_ids_def)
  next
    case (st_returned i)
    with h p c show ?thesis
      by (intro settle_invI) (simp_all add: hook_returned_def hooks_ok_def settle_phase_ok_def settle_covered_def unhooked_ids_def)
  next
    case (st_body outcome)
    with h p c show ?thesis
      by (intro settle_invI)
        (simp_all add: expect_observations_end_def hooks_ok_def settle_phase_ok_def settle_covered_def unhooked_ids_def)
  next
    case st_observed
    with h p c show ?thesis
      by (intro settle_invI) (simp_all add: set_phase_def hooks_ok_def settle_phase_ok_def settle_covered_def unhooked_ids_def)
  next
    case st_handed
    with h p c show ?thesis
      by (intro settle_invI) (simp_all add: settle_phase_ok_def settle_covered_def)
  qed
qed

lemma settle_inv_init: "settle_init s \<Longrightarrow> settle_inv s"
  by (auto simp: settle_init_def settle_inv_def settle_phase_ok_def settle_covered_def hooks_ok_def run_record_new_def)

interpretation settling: invariant_system settle_init settle_step settle_inv
  by unfold_locales (auto intro: settle_inv_init settle_inv_step)

section \<open>Properties\<close>

text \<open>
  C10: no lifecycle hook is missed or left running when a Run reports its end. In every interleaving
  of the executor's observer with the settling, when the terminal fact of a Run whose executor gave
  an outcome is handed over, the hook was called exactly once for every instance that was ever
  created, and every call has returned. When there was no outcome, the hook was called for every
  instance that the observer is not just reporting.
\<close>

theorem hooks_settled_before_terminal:
  assumes "reach settle_init settle_step s" and "sy_at s = SaHanded"
  shows "distinct (map ended_instance (sy_calls s)) \<and> set (map ended_instance (sy_calls s)) \<subseteq> set (sy_created s) \<and>
    set (sy_created s) - set (sy_reporting s) \<subseteq> set (map ended_instance (sy_calls s)) \<and>
    (observations_expected (sy_rec s) \<longrightarrow>
       set (map ended_instance (sy_calls s)) = set (sy_created s) \<and> running_hooks (sy_rec s) = [])"
proof -
  have inv: "settle_inv s" using settling.inv_reach [OF assms(1)] .
  have h: "hooks_ok (sy_created s) (sy_calls s) (sy_rec s)" using inv by (simp add: settle_inv_def)
  have created: "set (sy_created s) = fst ` set (rec_instances (sy_rec s))" using h by (simp add: hooks_ok_def flip: set_map)
  have called: "set (map ended_instance (sy_calls s)) = {i. \<exists>info. (i, info) \<in> set (rec_instances (sy_rec s)) \<and> hooked info}"
    using h by (simp add: hooks_ok_def)
  have unhooked: "unhooked_ids (sy_rec s) \<subseteq> set (sy_reporting s)" using inv assms(2) by (simp add: settle_inv_def settle_covered_def)
  have sub: "set (map ended_instance (sy_calls s)) \<subseteq> set (sy_created s)" unfolding created called by force
  have most: "set (sy_created s) - set (sy_reporting s) \<subseteq> set (map ended_instance (sy_calls s))"
    using unhooked unfolding created called unhooked_ids_def by force
  have "sy_reporting s = [] \<and> running_hooks (sy_rec s) = []" if "observations_expected (sy_rec s)"
    using inv assms(2) that by (simp add: settle_inv_def settle_phase_ok_def settle_covered_def)
  moreover have "distinct (map ended_instance (sy_calls s))" using h by (simp add: hooks_ok_def)
  ultimately show ?thesis using sub most by auto
qed

text \<open>The steps as a computation, and a run of it.\<close>

fun settle_can :: "SettleEvent \<Rightarrow> SettleSys \<Rightarrow> bool" where
  "settle_can (ObsCreated i n) s \<longleftrightarrow> \<not> observations_over (sy_rec s) \<and> i \<notin> set (sy_created s)"
| "settle_can (ObsLooked i) s \<longleftrightarrow> i \<in> set (sy_reporting s)"
| "settle_can (ObsHandled i) s \<longleftrightarrow> \<not> observations_over (sy_rec s)"
| "settle_can ObsOutcome s \<longleftrightarrow> sy_reporting s = []"
| "settle_can (HookReturned i) s \<longleftrightarrow> True"
| "settle_can (BodyReturned outcome) s \<longleftrightarrow> sy_at s = SaBody"
| "settle_can SettleObserved s \<longleftrightarrow> sy_at s = SaObserve \<and> (observations_expected (sy_rec s) \<longrightarrow> observations_over (sy_rec s))"
| "settle_can SettleListed s \<longleftrightarrow> sy_at s = SaListing"
| "settle_can SettleCalled s \<longleftrightarrow> sy_at s = SaCalling \<and> sy_todo s \<noteq> []"
| "settle_can SettleHanded s \<longleftrightarrow> sy_at s = SaCalling \<and> sy_todo s = [] \<and> running_hooks (sy_rec s) = []"

fun settle_do :: "SettleEvent \<Rightarrow> SettleSys \<Rightarrow> SettleSys" where
  "settle_do (ObsCreated i n) s =
     s\<lparr>sy_rec := instance_created i n (sy_rec s), sy_reporting := sy_reporting s @ [i], sy_created := sy_created s @ [i]\<rparr>"
| "settle_do (ObsLooked i) s = (observer_looks i s)\<lparr>sy_reporting := remove1 i (sy_reporting s)\<rparr>"
| "settle_do (ObsHandled i) s = hook_call i s"
| "settle_do ObsOutcome s = s\<lparr>sy_rec := end_observations (sy_rec s)\<rparr>"
| "settle_do (HookReturned i) s = s\<lparr>sy_rec := hook_returned i (sy_rec s)\<rparr>"
| "settle_do (BodyReturned outcome) s =
     s\<lparr>sy_at := SaObserve, sy_rec := (if outcome then expect_observations_end (sy_rec s) else sy_rec s)\<rparr>"
| "settle_do SettleObserved s = s\<lparr>sy_at := SaListing, sy_rec := set_phase ExecutorReturned (sy_rec s)\<rparr>"
| "settle_do SettleListed s = s\<lparr>sy_at := SaCalling, sy_todo := map fst (unhooked_instances (sy_rec s))\<rparr>"
| "settle_do SettleCalled s = (hook_call (hd (sy_todo s)) s)\<lparr>sy_todo := tl (sy_todo s)\<rparr>"
| "settle_do SettleHanded s = s\<lparr>sy_at := SaHanded\<rparr>"

fun settle_path :: "SettleEvent list \<Rightarrow> SettleSys \<Rightarrow> bool" where
  "settle_path [] s = True"
| "settle_path (e # es) s \<longleftrightarrow> settle_can e s \<and> settle_path es (settle_do e s)"

lemma settle_do_step: "settle_can e s \<Longrightarrow> settle_step s e (settle_do e s)"
proof (cases e)
  case SettleCalled
  assume "settle_can e s"
  then show ?thesis using st_called [of s "hd (sy_todo s)" "tl (sy_todo s)"] by (simp add: SettleCalled)
next
  case (BodyReturned outcome)
  assume "settle_can e s"
  then show ?thesis using st_body [of s outcome] by (simp add: BodyReturned)
qed (auto intro: settle_step.intros)

lemma settle_path_reach:
  "reach settle_init settle_step s \<Longrightarrow> settle_path es s \<Longrightarrow> reach settle_init settle_step (fold settle_do es s)"
  by (induction es arbitrary: s) (auto intro: reach_step settle_do_step)

definition demo_settle_start :: SettleSys where
  "demo_settle_start = \<lparr>sy_rec = run_record_new 5 6 False, sy_at = SaBody, sy_todo = [], sy_reporting = [], sy_created = [], sy_calls = []\<rparr>"

definition demo_settle_events :: "SettleEvent list" where
  "demo_settle_events = [ObsCreated 1 ''a'', ObsLooked 1, ObsCreated 2 ''b'', ObsHandled 2, ObsLooked 2, ObsOutcome, HookReturned 2,
     BodyReturned True, SettleObserved, SettleListed, SettleCalled, HookReturned 1, SettleHanded]"

theorem hooks_settled_before_terminal_witness:
  "set (map ended_instance (sy_calls (fold settle_do demo_settle_events demo_settle_start))) = {1, 2}"
proof -
  let ?s = "fold settle_do demo_settle_events demo_settle_start"
  have "settle_path demo_settle_events demo_settle_start" by code_simp
  moreover have "reach settle_init settle_step demo_settle_start"
    by (rule reach_init) (auto simp: settle_init_def demo_settle_start_def)
  ultimately have r: "reach settle_init settle_step ?s" by (rule settle_path_reach [rotated])
  have "sy_at ?s = SaHanded" "observations_expected (sy_rec ?s)" "sy_created ?s = [1, 2]" by code_simp+
  with hooks_settled_before_terminal [OF r] show ?thesis by simp
qed

end
