(* ===== verification/Threads_Model.thy ===== *)
theory Threads_Model
  imports Prelude
begin

text \<open>
  The values of \<open>br-runner-threads\<close>: its errors (\<open>error.rs\<close>), the checks of ids and waits (\<open>ids.rs\<close>),
  annotations, closings and messages, the commands to the Threads service and how they are built
  (\<open>wire.rs\<close>), and the chunks of a streamed message (\<open>stream/writes.rs\<close>). The message library and the
  contract of Threads are outside: their JSON documents are texts, and what they compute is a
  function of the record \<open>ThreadLib\<close>: the JSON of a turn, an entry, a delta and a closure reason (or
  why there is none), the details a reason accepts, the hash of a seal and which ids are UUIDv7.
\<close>

section \<open>Errors\<close>

datatype TCause = TWaitFired | TTransport | TNoListener

record TFailure =
  t_cause :: TCause
  t_text :: string

definition t_failure_wait :: "string \<Rightarrow> TFailure" where
  "t_failure_wait msg = \<lparr>t_cause = TWaitFired, t_text = msg\<rparr>"

definition t_failure_transport :: "string \<Rightarrow> TFailure" where
  "t_failure_transport msg = \<lparr>t_cause = TTransport, t_text = msg\<rparr>"

fun t_cause_text :: "TCause \<Rightarrow> string" where
  "t_cause_text TWaitFired = ''the wait fired''"
| "t_cause_text TTransport = ''the transport failed''"
| "t_cause_text TNoListener = ''no listener''"

definition t_failure_display :: "TFailure \<Rightarrow> string" where
  "t_failure_display f = t_cause_text (t_cause f) @ '': '' @ t_text f"

datatype TCredentialKind = TNoUsable | TFetchFailed

record TCredentialFailure =
  t_cred_kind :: TCredentialKind
  t_cred_text :: string

definition t_credential_display :: "TCredentialFailure \<Rightarrow> string" where
  "t_credential_display c =
     (case t_cred_kind c of TNoUsable \<Rightarrow> ''no usable credential'' | TFetchFailed \<Rightarrow> ''credential fetch failed'')
     @ '': '' @ t_cred_text c"

record TRefusal =
  t_code :: string
  t_reason :: "string option"
  t_params :: "(string \<times> string) list"
  t_message :: string
  t_command_id :: "uuid option"

datatype TError =
    TInvalidInput string
  | TCredential TCredentialFailure
  | TUnauthenticated
  | TUnavailable TFailure
  | TLost TFailure
  | TRefused TRefusal
  | TUnreadable string
  | StreamBroken
  | StreamClosed
  | TInfraMissing string
  | TStore string

fun t_error_display :: "TError \<Rightarrow> string" where
  "t_error_display (TInvalidInput s) = ''invalid input: '' @ s"
| "t_error_display (TCredential c) = t_credential_display c"
| "t_error_display TUnauthenticated = ''unauthenticated''"
| "t_error_display (TUnavailable f) = ''unavailable, '' @ t_failure_display f"
| "t_error_display (TLost f) = ''lost, '' @ t_failure_display f"
| "t_error_display (TRefused r) = ''refused: '' @ t_code r"
| "t_error_display (TUnreadable s) = ''unreadable: '' @ s"
| "t_error_display StreamBroken = ''stream broken''"
| "t_error_display StreamClosed = ''stream closed''"
| "t_error_display (TInfraMissing s) = ''infra missing: '' @ s"
| "t_error_display (TStore s) = ''store: '' @ s"

fun from_store :: "TError \<Rightarrow> TError" where
  "from_store (TStore t) = TStore t"
| "from_store e = TStore (t_error_display e)"

definition t_unavailable :: "string \<Rightarrow> TError" where
  "t_unavailable msg = TUnavailable (t_failure_transport msg)"

definition t_lost :: "string \<Rightarrow> TError" where
  "t_lost msg = TLost (t_failure_transport msg)"

section \<open>Ids and waits\<close>

definition require_v7 :: "(uuid \<Rightarrow> bool) \<Rightarrow> uuid \<Rightarrow> string \<Rightarrow> (uuid, TError) result" where
  "require_v7 v7 i what = (if v7 i then Ok i else Err (TInvalidInput (what @ '' is not a UUIDv7'')))"

definition require_wait :: "duration \<Rightarrow> string \<Rightarrow> (unit, TError) result" where
  "require_wait wait what = (if wait = 0 then Err (TInvalidInput (what @ '' is zero'')) else Ok ())"

section \<open>Annotations\<close>

datatype AnnotationBody =
    AArtifact uuid
  | AThreadReference uuid
  | AJobReference uuid
  | AError string "string option"
  | AWarning string "string option"

record Annotation =
  annotation_id :: uuid
  annotation_body :: AnnotationBody

datatype WireBody =
    WireArtifact uuid
  | WireThreadReference uuid
  | WireJobReference uuid
  | WireError string "string option"
  | WireWarning string "string option"

record WireAnnotation =
  wire_annotation_id :: uuid
  wire_annotation_body :: WireBody

fun wire_body :: "AnnotationBody \<Rightarrow> WireBody" where
  "wire_body (AArtifact i) = WireArtifact i"
| "wire_body (AThreadReference i) = WireThreadReference i"
| "wire_body (AJobReference i) = WireJobReference i"
| "wire_body (AError c t) = WireError c t"
| "wire_body (AWarning c t) = WireWarning c t"

definition to_wire :: "(uuid \<Rightarrow> bool) \<Rightarrow> Annotation \<Rightarrow> (WireAnnotation, TError) result" where
  "to_wire v7 a =
     (case require_v7 v7 (annotation_id a) ''an annotation id'' of
        Inl e \<Rightarrow> Err e
      | Inr _ \<Rightarrow> Ok \<lparr>wire_annotation_id = annotation_id a, wire_annotation_body = wire_body (annotation_body a)\<rparr>)"

section \<open>Closings\<close>

datatype ClosureKind = CkCompleted | CkCancelled | CkInterrupted | CkBudgetExhausted | CkFailed

text \<open>A closure reason of the message library; \<open>None\<close> is a variant the crate does not know.\<close>

record ClosureReason =
  reason_kind :: "ClosureKind option"
  reason_detail :: "string option"

definition closure_kind_of :: "ClosureReason \<Rightarrow> (ClosureKind, TError) result" where
  "closure_kind_of r =
     (case reason_kind r of
        Some k \<Rightarrow> Ok k
      | None \<Rightarrow> Err (TInvalidInput ''a closure reason this library does not know''))"

section \<open>The libraries outside\<close>

record ('t, 'en, 'd) ThreadLib =
  lib_v7 :: "uuid \<Rightarrow> bool"
  lib_turn_json :: "'t \<Rightarrow> (string, string) result"
  lib_entry_json :: "'en \<Rightarrow> (string, string) result"
  lib_delta_json :: "'d \<Rightarrow> (string, string) result"
  lib_reason_json :: "ClosureReason \<Rightarrow> (string, string) result"
  lib_detail :: "string \<Rightarrow> (unit, string) result"

definition closure_reason :: "('t, 'en, 'd) ThreadLib \<Rightarrow> ClosureKind \<Rightarrow> string option \<Rightarrow> (ClosureReason, TError) result" where
  "closure_reason lib kind detail =
     (if kind = CkFailed \<and> detail = None then Err (TInvalidInput ''a Failed closing needs a detail'')
      else
        (case detail of
           None \<Rightarrow> Ok \<lparr>reason_kind = Some kind, reason_detail = None\<rparr>
         | Some d \<Rightarrow>
             (case lib_detail lib d of
                Inl code \<Rightarrow> Err (TInvalidInput code)
              | Inr _ \<Rightarrow> Ok \<lparr>reason_kind = Some kind, reason_detail = Some d\<rparr>)))"

section \<open>Chunks\<close>

datatype Chunk = Keepalive | DeltaChunk string | EntryChunk string | AnnotationChunk uuid WireAnnotation

datatype TurnEntryKind = EkModelResponse | EkTurnClosure | EkOther

record 'en TurnEntry =
  turn_entry_id :: uuid
  turn_entry_kind :: TurnEntryKind
  turn_entry_body :: 'en

record 'd ResponseDelta =
  delta_turn :: uuid
  delta_entry :: uuid
  delta_body :: 'd

definition delta_chunk :: "('t, 'en, 'd) ThreadLib \<Rightarrow> uuid \<Rightarrow> 'd ResponseDelta \<Rightarrow> (Chunk, TError) result" where
  "delta_chunk lib message delta =
     (if delta_turn delta \<noteq> message then Err (TInvalidInput ''a delta names another AI turn'')
      else
        (case lib_delta_json lib (delta_body delta) of
           Inl msg \<Rightarrow> Err (TInvalidInput msg)
         | Inr j \<Rightarrow> Ok (DeltaChunk j)))"

definition entry_chunk :: "('t, 'en, 'd) ThreadLib \<Rightarrow> 'en TurnEntry \<Rightarrow> (Chunk, TError) result" where
  "entry_chunk lib entry =
     (if turn_entry_kind entry = EkModelResponse \<or> turn_entry_kind entry = EkTurnClosure then
        Err (TInvalidInput ''an entry chunk is neither a model response nor a closure'')
      else
        (case lib_entry_json lib (turn_entry_body entry) of
           Inl msg \<Rightarrow> Err (TInvalidInput msg)
         | Inr j \<Rightarrow> Ok (EntryChunk j)))"

definition annotation_chunk :: "(uuid \<Rightarrow> bool) \<Rightarrow> uuid \<Rightarrow> Annotation \<Rightarrow> (Chunk, TError) result" where
  "annotation_chunk v7 after annotation =
     (case to_wire v7 annotation of Inl e \<Rightarrow> Err e | Inr w \<Rightarrow> Ok (AnnotationChunk after w))"

definition carries_content :: "Chunk list \<Rightarrow> bool" where
  "carries_content chunks \<longleftrightarrow> list_ex (\<lambda>c. c \<noteq> Keepalive) chunks"

text \<open>The hash that the contract of Threads computes over the chunks is an argument.\<close>

type_synonym SealHash = "Chunk list \<Rightarrow> (string, string) result"

record StreamSeal =
  last_seq :: u64
  seal_hash :: string

text \<open>\<open>u64::try_from\<close> of a length fails from 2^64 on, and \<open>checked_sub\<close> for no chunk.\<close>

definition seal_of :: "SealHash \<Rightarrow> Chunk list \<Rightarrow> (StreamSeal, TError) result" where
  "seal_of hash chunks =
     (case hash chunks of
        Inl msg \<Rightarrow> Err (TInvalidInput msg)
      | Inr h \<Rightarrow>
          if length chunks < 2 ^ 64 \<and> chunks \<noteq> [] then
            Ok \<lparr>last_seq = of_nat (length chunks - 1), seal_hash = h\<rparr>
          else Err (TInvalidInput ''a seal needs at least one chunk''))"

section \<open>Commands\<close>

record CreateThread =
  ct_thread_id :: uuid
  ct_owner_id :: "uuid option"
  ct_user_ids :: "uuid list"
  ct_title :: "string option"
  ct_resources :: "(string \<times> string list) list"
  ct_parent_thread_id :: "uuid option"
  ct_origin_block_id :: "uuid option"
  ct_acting_user_id :: "uuid option"

datatype AiDelivery = DeliverStreaming | DeliverCompleted string "(uuid \<times> WireAnnotation) list"

record AiTurn =
  ai_agent_id :: uuid
  ai_author_name :: string
  ai_delivery :: AiDelivery

record StoreParts =
  part_thread_id :: uuid
  part_message_id :: uuid
  part_parent_message_id :: "uuid option"
  part_job_id :: "uuid option"
  part_acting_user_id :: "uuid option"
  part_impersonator_id :: "uuid option"

record StoreMessage =
  st_parts :: StoreParts
  st_turn :: AiTurn

record CloseMessage =
  cl_message_id :: uuid
  cl_thread_id :: uuid
  cl_closure :: "string option"
  cl_acting_user_id :: "uuid option"

text \<open>The completed closing carries a seal, the other closings may carry one.\<close>

datatype CommandBody =
    CreateThreadBody CreateThread
  | StoreBody StoreMessage
  | CompleteBody CloseMessage StreamSeal
  | FailBody CloseMessage "StreamSeal option"

record Command =
  command_id :: uuid
  command_body :: CommandBody

datatype MessageStatus = MStreaming | MCompleted | MFailed | MCancelled

record CommandOutcome =
  outcome_command_id :: uuid
  outcome_status :: "MessageStatus option"

definition wire_store :: "uuid \<Rightarrow> StoreParts \<Rightarrow> AiTurn \<Rightarrow> Command" where
  "wire_store i parts turn = \<lparr>command_id = i, command_body = StoreBody \<lparr>st_parts = parts, st_turn = turn\<rparr>\<rparr>"

record NewThread =
  nt_command_id :: uuid
  nt_thread_id :: uuid
  nt_owner_id :: "uuid option"
  nt_member_ids :: "uuid list"
  nt_title :: "string option"
  nt_resources :: "(string \<times> string list) list"
  nt_origin :: "(uuid \<times> uuid) option"
  nt_acting_user_id :: "uuid option"
  nt_wait :: duration

definition wire_create_thread :: "(uuid \<Rightarrow> bool) \<Rightarrow> NewThread \<Rightarrow> (Command, TError) result" where
  "wire_create_thread v7 thread =
     (case require_v7 v7 (nt_command_id thread) ''a command id'' of
        Inl e \<Rightarrow> Err e
      | Inr _ \<Rightarrow>
          (case require_v7 v7 (nt_thread_id thread) ''a thread id'' of
             Inl e \<Rightarrow> Err e
           | Inr _ \<Rightarrow>
               Ok \<lparr>command_id = nt_command_id thread,
                   command_body = CreateThreadBody
                     \<lparr>ct_thread_id = nt_thread_id thread, ct_owner_id = nt_owner_id thread,
                      ct_user_ids = nt_member_ids thread, ct_title = nt_title thread,
                      ct_resources = nt_resources thread,
                      ct_parent_thread_id = map_option fst (nt_origin thread),
                      ct_origin_block_id = map_option snd (nt_origin thread),
                      ct_acting_user_id = nt_acting_user_id thread\<rparr>\<rparr>))"

record 't WholeMessage =
  wm_command_id :: uuid
  wm_parts :: StoreParts
  wm_agent_id :: uuid
  wm_author_name :: string
  wm_turn :: 't
  wm_annotations :: "(uuid \<times> Annotation) list"
  wm_wait :: duration

fun placed_annotations :: "(uuid \<Rightarrow> bool) \<Rightarrow> (uuid \<times> Annotation) list \<Rightarrow> ((uuid \<times> WireAnnotation) list, TError) result" where
  "placed_annotations v7 [] = Ok []"
| "placed_annotations v7 ((after, a) # xs) =
     (case to_wire v7 a of
        Inl e \<Rightarrow> Err e
      | Inr w \<Rightarrow>
          (case placed_annotations v7 xs of Inl e \<Rightarrow> Err e | Inr ws \<Rightarrow> Ok ((after, w) # ws)))"

definition wire_whole_message :: "('t, 'en, 'd) ThreadLib \<Rightarrow> 't WholeMessage \<Rightarrow> (Command, TError) result" where
  "wire_whole_message lib m =
     (case require_v7 (lib_v7 lib) (wm_command_id m) ''a command id'' of
        Inl e \<Rightarrow> Err e
      | Inr _ \<Rightarrow>
          (case placed_annotations (lib_v7 lib) (wm_annotations m) of
             Inl e \<Rightarrow> Err e
           | Inr annotations \<Rightarrow>
               (case lib_turn_json lib (wm_turn m) of
                  Inl msg \<Rightarrow> Err (TInvalidInput msg)
                | Inr turn \<Rightarrow>
                    Ok (wire_store (wm_command_id m) (wm_parts m)
                      \<lparr>ai_agent_id = wm_agent_id m, ai_author_name = wm_author_name m,
                       ai_delivery = DeliverCompleted turn annotations\<rparr>))))"

record OpenStream =
  os_command_id :: uuid
  os_parts :: StoreParts
  os_agent_id :: uuid
  os_author_name :: string
  os_wait :: duration

definition wire_open_message :: "(uuid \<Rightarrow> bool) \<Rightarrow> OpenStream \<Rightarrow> (Command, TError) result" where
  "wire_open_message v7 m =
     (case require_v7 v7 (os_command_id m) ''a command id'' of
        Inl e \<Rightarrow> Err e
      | Inr _ \<Rightarrow>
          Ok (wire_store (os_command_id m) (os_parts m)
            \<lparr>ai_agent_id = os_agent_id m, ai_author_name = os_author_name m, ai_delivery = DeliverStreaming\<rparr>))"

record CloseParts =
  cp_command_id :: uuid
  cp_thread_id :: uuid
  cp_message_id :: uuid
  cp_reason :: ClosureReason
  cp_seal :: "StreamSeal option"
  cp_acting_user_id :: "uuid option"

definition wire_closing :: "('t, 'en, 'd) ThreadLib \<Rightarrow> CloseParts \<Rightarrow> (Command, TError) result" where
  "wire_closing lib parts =
     (case require_v7 (lib_v7 lib) (cp_command_id parts) ''a command id'' of
        Inl e \<Rightarrow> Err e
      | Inr _ \<Rightarrow>
          (case closure_kind_of (cp_reason parts) of
             Inl e \<Rightarrow> Err e
           | Inr kind \<Rightarrow>
               (case lib_reason_json lib (cp_reason parts) of
                  Inl msg \<Rightarrow> Err (TInvalidInput msg)
                | Inr j \<Rightarrow>
                    (let m = \<lparr>cl_message_id = cp_message_id parts, cl_thread_id = cp_thread_id parts,
                              cl_closure = Some j, cl_acting_user_id = cp_acting_user_id parts\<rparr>
                     in if kind = CkCompleted then
                          (case cp_seal parts of
                             None \<Rightarrow> Err (TInvalidInput ''a Completed closing needs a seal'')
                           | Some seal \<Rightarrow> Ok \<lparr>command_id = cp_command_id parts, command_body = CompleteBody m seal\<rparr>)
                        else Ok \<lparr>command_id = cp_command_id parts, command_body = FailBody m (cp_seal parts)\<rparr>))))"

section \<open>What the wire keeps\<close>

fun command_message :: "CommandBody \<Rightarrow> uuid option" where
  "command_message (CreateThreadBody _) = None"
| "command_message (StoreBody s) = Some (part_message_id (st_parts s))"
| "command_message (CompleteBody m _) = Some (cl_message_id m)"
| "command_message (FailBody m _) = Some (cl_message_id m)"

fun command_seal :: "CommandBody \<Rightarrow> StreamSeal option" where
  "command_seal (CompleteBody _ seal) = Some seal"
| "command_seal (FailBody _ seal) = seal"
| "command_seal _ = None"

lemma wire_closing_ok:
  assumes "wire_closing lib parts = Ok c"
  shows "command_id c = cp_command_id parts" and "command_message (command_body c) = Some (cp_message_id parts)"
    and "command_seal (command_body c) = cp_seal parts" and "lib_v7 lib (cp_command_id parts)"
    and "(\<exists>m seal. command_body c = CompleteBody m seal) \<longleftrightarrow> reason_kind (cp_reason parts) = Some CkCompleted"
  using assms
  by (auto simp: wire_closing_def require_v7_def closure_kind_of_def Let_def split: if_splits sum.splits option.splits)

lemma seal_of_ok:
  "seal_of hash chunks = Ok seal \<longleftrightarrow>
     (\<exists>h. hash chunks = Ok h \<and> chunks \<noteq> [] \<and> length chunks < 2 ^ 64 \<and>
        seal = \<lparr>last_seq = of_nat (length chunks - 1), seal_hash = h\<rparr>)"
  by (auto simp: seal_of_def split: sum.splits)

lemma seal_of_last_seq:
  assumes "seal_of hash chunks = Ok seal"
  shows "unat (last_seq seal) + 1 = length chunks"
proof -
  from assms have "chunks \<noteq> []" "length chunks < 2 ^ 64" "last_seq seal = of_nat (length chunks - 1)"
    by (auto simp: seal_of_ok)
  moreover from this have "unat (of_nat (length chunks - 1) :: u64) = length chunks - 1"
    by (subst unat_of_nat) simp
  ultimately show ?thesis by simp
qed

lemma carries_content_Nil [simp]: "\<not> carries_content []"
  by (simp add: carries_content_def)

lemma carries_content_append [simp]: "carries_content (xs @ ys) \<longleftrightarrow> carries_content xs \<or> carries_content ys"
  by (simp add: carries_content_def)

lemma from_store_is_store: "\<exists>t. from_store e = TStore t"
  by (cases e) simp_all

end
