(* ===== verification/Thread_Queue.thy ===== *)
theory Thread_Queue
  imports Threads_Model
begin

text \<open>
  The thread queue of \<open>ThreadAccessAdapter\<close>: its items (\<open>queue/item.rs\<close>), the store that keeps them
  (\<open>queue/store.rs\<close>), the slots of the threads (\<open>adapter/inner.rs\<close>), how an item is accepted
  (\<open>adapter/accept.rs\<close>), delivered (\<open>adapter/deliver.rs\<close>), waited for (\<open>adapter/ops/waits.rs\<close>) and
  reported (\<open>queue/observer.rs\<close>, \<open>adapter/state.rs\<close>). The store is an interface of the crate: its
  operations are the argument \<open>ops\<close>, with \<open>memory_ops\<close> as the crate's own. serde gives the bytes of an
  item and reads them back (\<open>codec\<close>). The slots are kept in the order of their threads, which stands
  for the arbitrary order of the table in the source; an item has the number the adapter counted,
  a natural number here.
\<close>

section \<open>Items and their store\<close>

datatype TItemKind = KWholeMessage | KOpening | KChunk | KClosing

datatype Payload = PCommand CommandBody | PChunk u64 Chunk

record Item =
  it_id :: uuid
  it_thread :: uuid
  it_agent :: uuid
  it_message :: uuid
  it_entries :: "uuid list"
  it_kind :: TItemKind
  it_payload :: Payload

record StoredItem =
  stored_thread :: uuid
  stored_id :: uuid
  stored_bytes :: string

record Codec =
  codec_v7 :: "uuid \<Rightarrow> bool"
  codec_write :: "Item \<Rightarrow> (string, string) result"
  codec_read :: "string \<Rightarrow> (Item, string) result"

definition item_stored :: "Codec \<Rightarrow> uuid \<Rightarrow> Item \<Rightarrow> (StoredItem, TError) result" where
  "item_stored codec thread item =
     (case codec_write codec item of
        Inl msg \<Rightarrow> Err (TStore msg)
      | Inr bytes \<Rightarrow> Ok \<lparr>stored_thread = thread, stored_id = it_id item, stored_bytes = bytes\<rparr>)"

definition item_read :: "Codec \<Rightarrow> StoredItem \<Rightarrow> (Item, TError) result" where
  "item_read codec stored =
     (case codec_read codec (stored_bytes stored) of
        Inl msg \<Rightarrow> Err (TStore (''a kept item cannot be read: '' @ msg))
      | Inr item \<Rightarrow>
          if \<not> codec_v7 codec (it_thread item) then
            Err (TStore ''a kept item names a thread that is not a UUIDv7'')
          else if it_thread item \<noteq> stored_thread stored \<or> it_id item \<noteq> stored_id stored then
            Err (TStore ''a kept item does not match the thread or id it was kept under'')
          else Ok item)"

record 's QueueStore =
  store_append :: "StoredItem \<Rightarrow> 's \<Rightarrow> (unit, TError) result \<times> 's"
  store_list :: "'s \<Rightarrow> (StoredItem list, TError) result"
  store_remove :: "uuid \<Rightarrow> uuid \<Rightarrow> 's \<Rightarrow> (unit, TError) result \<times> 's"

text \<open>\<open>MemoryQueueStore\<close>.\<close>

definition memory_append :: "StoredItem \<Rightarrow> StoredItem list \<Rightarrow> (unit, TError) result \<times> StoredItem list" where
  "memory_append item items = (Ok (), items @ [item])"

definition memory_list :: "StoredItem list \<Rightarrow> (StoredItem list, TError) result" where
  "memory_list items = Ok items"

definition memory_remove :: "uuid \<Rightarrow> uuid \<Rightarrow> StoredItem list \<Rightarrow> (unit, TError) result \<times> StoredItem list" where
  "memory_remove thread i items = (Ok (), filter (\<lambda>x. \<not> (stored_id x = i \<and> stored_thread x = thread)) items)"

definition memory_ops :: "StoredItem list QueueStore" where
  "memory_ops = \<lparr>store_append = memory_append, store_list = memory_list, store_remove = memory_remove\<rparr>"

section \<open>Reports and slots\<close>

datatype ReportKind = AttemptFailed | ItemRefused | ItemDroppedUnsent | ClosingFailed | RemoveFailed | Unsent

record TQueueReport =
  report_kind :: ReportKind
  report_thread :: uuid
  report_message :: uuid
  report_item_kind :: TItemKind
  report_item :: uuid
  report_error :: "TError option"

definition report_of :: "ReportKind \<Rightarrow> uuid \<Rightarrow> Item \<Rightarrow> TError option \<Rightarrow> TQueueReport" where
  "report_of kind thread item error =
     \<lparr>report_kind = kind, report_thread = thread, report_message = it_message item, report_item_kind = it_kind item,
      report_item = it_id item, report_error = error\<rparr>"

record FailedAttempt =
  failed_item :: uuid
  failed_error :: TError

record Queued =
  q_item :: Item
  q_no :: nat
  q_accepted_at :: instant

record TSlot =
  sl_items :: "Queued list"
  sl_last_failure :: "FailedAttempt option"
  sl_dropped :: "uuid set"
  sl_worker_running :: bool
  sl_last_no :: nat
  sl_version :: nat

definition slot_new :: TSlot where
  "slot_new = \<lparr>sl_items = [], sl_last_failure = None, sl_dropped = {}, sl_worker_running = False, sl_last_no = 0,
     sl_version = 0\<rparr>"

definition slot_bump :: "TSlot \<Rightarrow> TSlot" where
  "slot_bump sl = sl\<lparr>sl_version := sl_version sl + 1\<rparr>"

record 's Inner =
  in_store :: 's
  in_slots :: "(uuid \<times> TSlot) list"
  in_numbers :: nat
  in_refused :: "uuid set"
  in_broken :: "uuid set"
  in_stopped :: bool
  in_reports :: "TQueueReport list"

definition inner_new :: "'s \<Rightarrow> 's Inner" where
  "inner_new st = \<lparr>in_store = st, in_slots = [], in_numbers = 0, in_refused = {}, in_broken = {}, in_stopped = False,
     in_reports = []\<rparr>"

text \<open>The slot of a thread, made when there is none.\<close>

definition inner_slot :: "uuid \<Rightarrow> 's Inner \<Rightarrow> TSlot" where
  "inner_slot thread n = (case map_of (in_slots n) thread of Some sl \<Rightarrow> sl | None \<Rightarrow> slot_new)"

definition set_slot :: "uuid \<Rightarrow> TSlot \<Rightarrow> 's Inner \<Rightarrow> 's Inner" where
  "set_slot thread sl n = n\<lparr>in_slots := bt_insert thread sl (in_slots n)\<rparr>"

definition inner_report :: "TQueueReport \<Rightarrow> 's Inner \<Rightarrow> 's Inner" where
  "inner_report r n = n\<lparr>in_reports := in_reports n @ [r]\<rparr>"

section \<open>Accepting\<close>

text \<open>\<open>accept\<close> up to the store, then \<open>enqueue\<close>; the flag of \<open>enqueue\<close>: a delivery task is spawned.\<close>

definition accept_append :: "'s QueueStore \<Rightarrow> Codec \<Rightarrow> uuid \<Rightarrow> Item \<Rightarrow> 's Inner \<Rightarrow> (unit, TError) result \<times> 's Inner" where
  "accept_append ops codec thread item n =
     (if in_stopped n then (Err (TStore ''the adapter is stopped''), n)
      else
        (case item_stored codec thread item of
           Inl e \<Rightarrow> (Err e, n)
         | Inr stored \<Rightarrow>
             (case store_append ops stored (in_store n) of
                (Inl e, st) \<Rightarrow> (Err (from_store e), n\<lparr>in_store := st\<rparr>)
              | (Inr _, st) \<Rightarrow> (Ok (), n\<lparr>in_store := st\<rparr>))))"

definition push_item :: "Item \<Rightarrow> nat \<Rightarrow> instant \<Rightarrow> TSlot \<Rightarrow> TSlot" where
  "push_item item no now sl =
     slot_bump (sl\<lparr>sl_dropped := sl_dropped sl - set (it_entries item),
        sl_items := sl_items sl @ [\<lparr>q_item = item, q_no = no, q_accepted_at = now\<rparr>],
        sl_last_no := no, sl_worker_running := True\<rparr>)"

definition enqueue_item :: "uuid \<Rightarrow> Item \<Rightarrow> instant \<Rightarrow> 's Inner \<Rightarrow> bool \<times> 's Inner" where
  "enqueue_item thread item now n =
     (let no = in_numbers n + 1;
          n1 = n\<lparr>in_numbers := no\<rparr>;
          sl = inner_slot thread n
      in if in_stopped n then (False, inner_report (report_of Unsent thread item None) n1)
         else (\<not> sl_worker_running sl, set_slot thread (push_item item no now sl) n1))"

section \<open>Delivering\<close>

datatype EndedHow = EDelivered | ERefused | EUnsent

fun retryable :: "TItemKind \<Rightarrow> TError \<Rightarrow> bool" where
  "retryable KChunk e = (e = StreamBroken)"
| "retryable _ (TUnavailable _) = True"
| "retryable _ (TLost _) = True"
| "retryable _ (TUnreadable _) = True"
| "retryable _ _ = False"

text \<open>What an attempt sends: a command under the id of its item, or a numbered chunk.\<close>

datatype Sending = SendCommand Command | SendChunk uuid u64 Chunk

definition attempt_of :: "Item \<Rightarrow> Sending" where
  "attempt_of item =
     (case it_payload item of
        PCommand body \<Rightarrow> SendCommand \<lparr>command_id = it_id item, command_body = body\<rparr>
      | PChunk q chunk \<Rightarrow> SendChunk (it_message item) q chunk)"

definition message_refused :: "uuid \<Rightarrow> 's Inner \<Rightarrow> bool" where
  "message_refused message n \<longleftrightarrow> message \<in> in_refused n"

definition message_broken :: "uuid \<Rightarrow> 's Inner \<Rightarrow> bool" where
  "message_broken message n \<longleftrightarrow> message \<in> in_broken n"

text \<open>\<open>end_item\<close> up to the store: the head leaves the queue.\<close>

definition pop_item :: "Item \<Rightarrow> EndedHow \<Rightarrow> TSlot \<Rightarrow> TSlot" where
  "pop_item item how sl =
     slot_bump (sl\<lparr>sl_items := tl (sl_items sl), sl_last_failure := None,
        sl_dropped := (if how \<noteq> EDelivered then sl_dropped sl \<union> set (it_entries item) else sl_dropped sl)\<rparr>)"

definition end_item :: "uuid \<Rightarrow> Item \<Rightarrow> EndedHow \<Rightarrow> 's Inner \<Rightarrow> 's Inner" where
  "end_item thread item how n =
     set_slot thread (pop_item item how (inner_slot thread n))
       (if it_kind item = KChunk \<and> how \<noteq> EDelivered then n\<lparr>in_broken := insert (it_message item) (in_broken n)\<rparr> else n)"

text \<open>The rest of \<open>end_item\<close>: the item leaves the store.\<close>

definition remove_item :: "'s QueueStore \<Rightarrow> uuid \<Rightarrow> Item \<Rightarrow> 's Inner \<Rightarrow> bool \<times> 's Inner" where
  "remove_item ops thread item n =
     (case store_remove ops thread (it_id item) (in_store n) of
        (Inr _, st) \<Rightarrow> (True, n\<lparr>in_store := st\<rparr>)
      | (Inl e, st) \<Rightarrow>
          (False, inner_report (report_of RemoveFailed thread item (Some (from_store e))) (n\<lparr>in_store := st\<rparr>)))"

text \<open>
  The turns of \<open>run\<close>: what the task does with the head of the queue, and with the answer to an
  attempt; \<open>Some how\<close>: the item ended and its removal comes next.
\<close>

datatype TakeHead = HeadNone | HeadUnsent Queued | HeadAttempt Queued

definition take_head_of :: "uuid \<Rightarrow> 's Inner \<Rightarrow> TakeHead \<times> 's Inner" where
  "take_head_of thread n =
     (case sl_items (inner_slot thread n) of
        [] \<Rightarrow> (HeadNone, set_slot thread ((inner_slot thread n)\<lparr>sl_worker_running := False\<rparr>) n)
      | head # _ \<Rightarrow>
          if it_kind (q_item head) \<noteq> KOpening \<and> message_refused (it_message (q_item head)) n then
            (HeadUnsent head,
             end_item thread (q_item head) EUnsent
               (inner_report (report_of ItemDroppedUnsent thread (q_item head) None) n))
          else (HeadAttempt head, n))"

definition attempted :: "uuid \<Rightarrow> Item \<Rightarrow> (MessageStatus option, TError) result \<Rightarrow> 's Inner \<Rightarrow> EndedHow option \<times> 's Inner" where
  "attempted thread item r n =
     (case r of
        Inr status \<Rightarrow>
          (Some EDelivered,
           end_item thread item EDelivered
             (if status = Some MFailed then inner_report (report_of ClosingFailed thread item None) n else n))
      | Inl e \<Rightarrow>
          if retryable (it_kind item) e then
            (None,
             inner_report (report_of AttemptFailed thread item (Some e))
               (set_slot thread
                 ((inner_slot thread n)\<lparr>sl_last_failure := Some \<lparr>failed_item = it_id item, failed_error = e\<rparr>\<rparr>) n))
          else
            (let n1 = inner_report
                   (report_of (if it_kind item = KClosing then ClosingFailed else ItemRefused) thread item (Some e)) n;
                 n2 = (if it_kind item = KOpening then n1\<lparr>in_refused := insert (it_message item) (in_refused n1)\<rparr> else n1)
             in (Some ERefused, end_item thread item ERefused n2)))"

section \<open>Waiting, the state, the start and the drop\<close>

text \<open>One look of \<open>wait_past\<close> and of \<open>entry_stored\<close> (\<open>None\<close>: it waits for a change).\<close>

definition past_look :: "nat \<Rightarrow> TSlot \<Rightarrow> bool" where
  "past_look target sl \<longleftrightarrow> (case sl_items sl of [] \<Rightarrow> True | head # _ \<Rightarrow> q_no head > target)"

datatype EntryOutcome = EntryStored | EntryDropped

definition entry_look :: "uuid \<Rightarrow> TSlot \<Rightarrow> EntryOutcome option" where
  "entry_look entry sl =
     (if entry \<in> sl_dropped sl then Some EntryDropped
      else if list_ex (\<lambda>q. entry \<in> set (it_entries (q_item q))) (sl_items sl) then None
      else Some EntryStored)"

definition entry_stored_look :: "uuid \<Rightarrow> uuid \<Rightarrow> 's Inner \<Rightarrow> EntryOutcome option" where
  "entry_stored_look thread entry n =
     (case map_of (in_slots n) thread of None \<Rightarrow> Some EntryStored | Some sl \<Rightarrow> entry_look entry sl)"

record ThreadQueueState =
  tq_thread :: uuid
  tq_waiting :: nat
  tq_oldest :: "instant \<times> uuid \<times> TItemKind"
  tq_last_failure :: "FailedAttempt option"

definition thread_state :: "uuid \<Rightarrow> TSlot \<Rightarrow> ThreadQueueState option" where
  "thread_state thread sl =
     (case sl_items sl of
        [] \<Rightarrow> None
      | head # _ \<Rightarrow>
          Some \<lparr>tq_thread = thread, tq_waiting = length (sl_items sl),
             tq_oldest = (q_accepted_at head, it_message (q_item head), it_kind (q_item head)),
             tq_last_failure = sl_last_failure sl\<rparr>)"

definition queue_state_of :: "'s Inner \<Rightarrow> ThreadQueueState list" where
  "queue_state_of n = List.map_filter (\<lambda>(thread, sl). thread_state thread sl) (in_slots n)"

fun read_all :: "Codec \<Rightarrow> StoredItem list \<Rightarrow> (Item list, TError) result" where
  "read_all codec [] = Ok []"
| "read_all codec (x # xs) =
     (case item_read codec x of
        Inl e \<Rightarrow> Err e
      | Inr item \<Rightarrow> (case read_all codec xs of Inl e \<Rightarrow> Err e | Inr items \<Rightarrow> Ok (item # items)))"

record ThreadSettings =
  set_outcome_wait :: duration
  set_retry_wait :: duration
  set_keepalive_interval :: duration

definition check_settings :: "ThreadSettings \<Rightarrow> (unit, TError) result" where
  "check_settings settings =
     (case require_wait (set_outcome_wait settings) ''the outcome wait'' of
        Inl e \<Rightarrow> Err e
      | Inr _ \<Rightarrow>
          (case require_wait (set_retry_wait settings) ''the wait between attempts'' of
             Inl e \<Rightarrow> Err e
           | Inr _ \<Rightarrow> require_wait (set_keepalive_interval settings) ''the keepalive interval''))"

definition adapter_new :: "'s QueueStore \<Rightarrow> Codec \<Rightarrow> ThreadSettings \<Rightarrow> instant \<Rightarrow> 's \<Rightarrow> ('s Inner, TError) result" where
  "adapter_new ops codec settings now st =
     (case check_settings settings of
        Inl e \<Rightarrow> Err e
      | Inr _ \<Rightarrow>
          (case store_list ops st of
             Inl e \<Rightarrow> Err (from_store e)
           | Inr kept \<Rightarrow>
               (case read_all codec kept of
                  Inl e \<Rightarrow> Err e
                | Inr items \<Rightarrow>
                    Ok (fold (\<lambda>(stored, item) n. snd (enqueue_item (stored_thread stored) item now n))
                          (zip kept items) (inner_new st)))))"

definition unsent_reports :: "uuid \<Rightarrow> TSlot \<Rightarrow> TQueueReport list" where
  "unsent_reports thread sl = map (\<lambda>q. report_of Unsent thread (q_item q) None) (sl_items sl)"

definition adapter_drop :: "'s Inner \<Rightarrow> 's Inner" where
  "adapter_drop n =
     n\<lparr>in_stopped := True, in_reports := in_reports n @ concat (map (\<lambda>(t, sl). unsent_reports t sl) (in_slots n))\<rparr>"

end
