(* ===== verification/Thread_Queue_System.thy ===== *)
theory Thread_Queue_System
  imports Thread_Queue
begin

text \<open>
  The thread queue as a system: operations that accept items, the delivery task of every thread, the
  drop of the adapter, in any interleaving. The operations of a thread run one at a time
  (\<open>adapter/ops/ordered.rs\<close>), so at most one item of a thread is between the store and the queue; the
  ids of items are new UUIDs. The store is behind the locale \<open>queue_store\<close>.
\<close>

section \<open>The store's contract\<close>

text \<open>\<open>kept\<close> is what a store holds: an append adds at the end, a removal takes out one id of a thread, a failed call changes nothing.\<close>

locale queue_store =
  fixes ops :: "'s QueueStore"
    and kept :: "'s \<Rightarrow> StoredItem list"
  assumes append_ok: "store_append ops x st = (Ok (), st') \<Longrightarrow> kept st' = kept st @ [x]"
    and append_err: "store_append ops x st = (Err e, st') \<Longrightarrow> kept st' = kept st"
    and list_ok: "store_list ops st = Ok xs \<Longrightarrow> xs = kept st"
    and remove_ok: "store_remove ops thread i st = (Ok (), st') \<Longrightarrow>
      kept st' = filter (\<lambda>x. \<not> (stored_id x = i \<and> stored_thread x = thread)) (kept st)"
    and remove_err: "store_remove ops thread i st = (Err e, st') \<Longrightarrow> kept st' = kept st"

interpretation memory: queue_store memory_ops "\<lambda>items. items"
  by unfold_locales (auto simp: memory_ops_def memory_append_def memory_list_def memory_remove_def)

section \<open>The steps\<close>

datatype WorkerAt = WkNone | WkLoop | WkAttempt Queued | WkRemove Queued

text \<open>
  Histories: what was taken into the queue of a thread, how items ended, the attempts with their
  answers, the items whose removal from the store did not happen, and the items that were stored
  but came too late for the queue of a stopped adapter.
\<close>

record 's TqSys =
  tq_inner :: "'s Inner"
  tq_worker :: "uuid \<Rightarrow> WorkerAt"
  tq_accepting :: "uuid \<Rightarrow> Item option"
  h_taken :: "uuid \<Rightarrow> Item list"
  h_ended :: "uuid \<Rightarrow> (Item \<times> EndedHow) list"
  h_tried :: "uuid \<Rightarrow> Item list"
  h_stuck :: "uuid \<Rightarrow> uuid set"
  h_left :: "uuid \<Rightarrow> Item list"

datatype TqEvent =
    TAppend uuid Item
  | TEnqueue uuid instant
  | TTake uuid
  | TAnswer uuid "(MessageStatus option, TError) result"
  | TRemove uuid
  | TStop
  | TAbort uuid

definition fresh_item :: "Item \<Rightarrow> uuid \<Rightarrow> 's TqSys \<Rightarrow> bool" where
  "fresh_item item t s \<longleftrightarrow> it_id item \<notin> it_id ` set (h_taken s t @ h_left s t) \<and> it_id item \<notin> h_stuck s t"

definition ended_step :: "uuid \<Rightarrow> Queued \<Rightarrow> EndedHow \<Rightarrow> 's Inner \<Rightarrow> 's TqSys \<Rightarrow> 's TqSys" where
  "ended_step t q how n s =
     s\<lparr>tq_inner := n, tq_worker := (tq_worker s)(t := WkRemove q),
       h_ended := (h_ended s)(t := h_ended s t @ [(q_item q, how)])\<rparr>"

inductive tq_step :: "'s QueueStore \<Rightarrow> Codec \<Rightarrow> 's TqSys \<Rightarrow> TqEvent \<Rightarrow> 's TqSys \<Rightarrow> bool" for ops codec where
  tq_append: "tq_accepting s t = None \<Longrightarrow> fresh_item item t s \<Longrightarrow> it_thread item = t \<Longrightarrow> codec_v7 codec t \<Longrightarrow>
    accept_append ops codec t item (tq_inner s) = (Ok (), n) \<Longrightarrow>
    tq_step ops codec s (TAppend t item) (s\<lparr>tq_inner := n, tq_accepting := (tq_accepting s)(t \<mapsto> item)\<rparr>)"
| tq_append_err: "tq_accepting s t = None \<Longrightarrow> accept_append ops codec t item (tq_inner s) = (Err e, n) \<Longrightarrow>
    tq_step ops codec s (TAppend t item) (s\<lparr>tq_inner := n\<rparr>)"
| tq_enqueue: "tq_accepting s t = Some item \<Longrightarrow> \<not> in_stopped (tq_inner s) \<Longrightarrow>
    enqueue_item t item now (tq_inner s) = (spawn, n) \<Longrightarrow>
    tq_step ops codec s (TEnqueue t now)
      (s\<lparr>tq_inner := n, tq_accepting := (tq_accepting s)(t := None),
         tq_worker := (if spawn then (tq_worker s)(t := WkLoop) else tq_worker s),
         h_taken := (h_taken s)(t := h_taken s t @ [item])\<rparr>)"
| tq_enqueue_late: "tq_accepting s t = Some item \<Longrightarrow> in_stopped (tq_inner s) \<Longrightarrow>
    enqueue_item t item now (tq_inner s) = (spawn, n) \<Longrightarrow>
    tq_step ops codec s (TEnqueue t now)
      (s\<lparr>tq_inner := n, tq_accepting := (tq_accepting s)(t := None), h_left := (h_left s)(t := h_left s t @ [item])\<rparr>)"
| tq_take_none: "tq_worker s t = WkLoop \<Longrightarrow> take_head_of t (tq_inner s) = (HeadNone, n) \<Longrightarrow>
    tq_step ops codec s (TTake t) (s\<lparr>tq_inner := n, tq_worker := (tq_worker s)(t := WkNone)\<rparr>)"
| tq_take_unsent: "tq_worker s t = WkLoop \<Longrightarrow> take_head_of t (tq_inner s) = (HeadUnsent q, n) \<Longrightarrow>
    tq_step ops codec s (TTake t) (ended_step t q EUnsent n s)"
| tq_take_attempt: "tq_worker s t = WkLoop \<Longrightarrow> take_head_of t (tq_inner s) = (HeadAttempt q, n) \<Longrightarrow>
    tq_step ops codec s (TTake t)
      (s\<lparr>tq_inner := n, tq_worker := (tq_worker s)(t := WkAttempt q), h_tried := (h_tried s)(t := h_tried s t @ [q_item q])\<rparr>)"
| tq_answer_again: "tq_worker s t = WkAttempt q \<Longrightarrow> attempted t (q_item q) r (tq_inner s) = (None, n) \<Longrightarrow>
    tq_step ops codec s (TAnswer t r) (s\<lparr>tq_inner := n, tq_worker := (tq_worker s)(t := WkLoop)\<rparr>)"
| tq_answer_end: "tq_worker s t = WkAttempt q \<Longrightarrow> attempted t (q_item q) r (tq_inner s) = (Some how, n) \<Longrightarrow>
    tq_step ops codec s (TAnswer t r) (ended_step t q how n s)"
| tq_remove: "tq_worker s t = WkRemove q \<Longrightarrow> remove_item ops t (q_item q) (tq_inner s) = (removed, n) \<Longrightarrow>
    tq_step ops codec s (TRemove t)
      (s\<lparr>tq_inner := n, tq_worker := (tq_worker s)(t := WkLoop),
         h_stuck := (if removed then h_stuck s else (h_stuck s)(t := insert (it_id (q_item q)) (h_stuck s t)))\<rparr>)"
| tq_stop: "tq_step ops codec s TStop (s\<lparr>tq_inner := adapter_drop (tq_inner s)\<rparr>)"
| tq_abort: "in_stopped (tq_inner s) \<Longrightarrow> tq_worker s t \<noteq> WkNone \<Longrightarrow>
    tq_step ops codec s (TAbort t)
      (s\<lparr>tq_worker := (tq_worker s)(t := WkNone),
         h_stuck := (case tq_worker s t of
            WkRemove q \<Rightarrow> (h_stuck s)(t := insert (it_id (q_item q)) (h_stuck s t)) | _ \<Rightarrow> h_stuck s)\<rparr>)"

text \<open>An adapter that was just made on a store whose items have distinct ids.\<close>

definition tq_start :: "'s Inner \<Rightarrow> 's TqSys" where
  "tq_start n = \<lparr>tq_inner = n, tq_worker = (\<lambda>t. if sl_worker_running (inner_slot t n) then WkLoop else WkNone),
     tq_accepting = (\<lambda>_. None), h_taken = (\<lambda>t. map q_item (sl_items (inner_slot t n))), h_ended = (\<lambda>_. []),
     h_tried = (\<lambda>_. []), h_stuck = (\<lambda>_. {}), h_left = (\<lambda>_. [])\<rparr>"

definition tq_init :: "'s QueueStore \<Rightarrow> ('s \<Rightarrow> StoredItem list) \<Rightarrow> Codec \<Rightarrow> 's TqSys \<Rightarrow> bool" where
  "tq_init ops kept codec s \<longleftrightarrow>
     (\<exists>settings now st n. adapter_new ops codec settings now st = Ok n \<and>
        distinct (map (\<lambda>x. (stored_thread x, stored_id x)) (kept st)) \<and> s = tq_start n)"

text \<open>What the code relies on of serde: it reads back what it wrote.\<close>

definition codec_ok :: "Codec \<Rightarrow> bool" where
  "codec_ok codec \<longleftrightarrow> (\<forall>item bytes. codec_write codec item = Ok bytes \<longrightarrow> codec_read codec bytes = Ok item)"

lemma item_read_stored:
  assumes "codec_ok codec" and "item_stored codec t item = Ok x" and "it_thread item = t" and "codec_v7 codec t"
  shows "item_read codec x = Ok item" and "stored_thread x = t" and "stored_id x = it_id item"
proof -
  from assms(2) obtain bytes where b: "codec_write codec item = Ok bytes"
    and x: "x = \<lparr>stored_thread = t, stored_id = it_id item, stored_bytes = bytes\<rparr>"
    by (cases "codec_write codec item") (simp_all add: item_stored_def)
  from assms(1) b have "codec_read codec bytes = Ok item" unfolding codec_ok_def by blast
  with assms(3,4) show "item_read codec x = Ok item" by (simp add: item_read_def x)
qed (use assms(2) in \<open>auto simp: item_stored_def split: sum.splits\<close>)

lemma item_read_ok:
  "item_read codec x = Ok item \<Longrightarrow> it_thread item = stored_thread x \<and> it_id item = stored_id x"
  by (auto simp: item_read_def split: sum.splits if_splits)

section \<open>What the operations change\<close>

definition slots_ordered :: "'s Inner \<Rightarrow> bool" where
  "slots_ordered n \<longleftrightarrow> bt_ordered (in_slots n)"

lemma slot_set_slot [simp]:
  "slots_ordered n \<Longrightarrow> inner_slot t' (set_slot t sl n) = (if t' = t then sl else inner_slot t' n)"
  by (simp add: inner_slot_def set_slot_def slots_ordered_def bt.get_insert)

lemma set_slot_frame [simp]:
  "in_store (set_slot t sl n) = in_store n" "in_numbers (set_slot t sl n) = in_numbers n"
  "in_refused (set_slot t sl n) = in_refused n" "in_broken (set_slot t sl n) = in_broken n"
  "in_stopped (set_slot t sl n) = in_stopped n" "in_reports (set_slot t sl n) = in_reports n"
  "slots_ordered n \<Longrightarrow> slots_ordered (set_slot t sl n)"
  by (simp_all add: set_slot_def slots_ordered_def bt_ordered_insert)

lemma inner_report_frame [simp]:
  "in_store (inner_report r n) = in_store n" "in_numbers (inner_report r n) = in_numbers n"
  "in_refused (inner_report r n) = in_refused n" "in_broken (inner_report r n) = in_broken n"
  "in_stopped (inner_report r n) = in_stopped n" "in_slots (inner_report r n) = in_slots n"
  "inner_slot t (inner_report r n) = inner_slot t n" "slots_ordered (inner_report r n) = slots_ordered n"
  by (simp_all add: inner_report_def inner_slot_def slots_ordered_def)

lemma inner_update_slot [simp]:
  "inner_slot t (n\<lparr>in_store := st\<rparr>) = inner_slot t n" "inner_slot t (n\<lparr>in_numbers := k\<rparr>) = inner_slot t n"
  "inner_slot t (n\<lparr>in_refused := r\<rparr>) = inner_slot t n" "inner_slot t (n\<lparr>in_broken := r\<rparr>) = inner_slot t n"
  "inner_slot t (n\<lparr>in_stopped := b\<rparr>) = inner_slot t n" "inner_slot t (n\<lparr>in_reports := rs\<rparr>) = inner_slot t n"
  "slots_ordered (n\<lparr>in_store := st\<rparr>) = slots_ordered n" "slots_ordered (n\<lparr>in_numbers := k\<rparr>) = slots_ordered n"
  "slots_ordered (n\<lparr>in_refused := r\<rparr>) = slots_ordered n" "slots_ordered (n\<lparr>in_broken := r\<rparr>) = slots_ordered n"
  "slots_ordered (n\<lparr>in_stopped := b\<rparr>) = slots_ordered n" "slots_ordered (n\<lparr>in_reports := rs\<rparr>) = slots_ordered n"
  by (simp_all add: inner_slot_def slots_ordered_def)

lemma slot_new_fields [simp]:
  "sl_items slot_new = []" "sl_last_no slot_new = 0" "sl_worker_running slot_new = False" "sl_dropped slot_new = {}"
  by (simp_all add: slot_new_def)

lemma push_item_fields [simp]:
  "sl_items (push_item item no now sl) = sl_items sl @ [\<lparr>q_item = item, q_no = no, q_accepted_at = now\<rparr>]"
  "sl_last_no (push_item item no now sl) = no" "sl_worker_running (push_item item no now sl) = True"
  "sl_dropped (push_item item no now sl) = sl_dropped sl - set (it_entries item)"
  by (simp_all add: push_item_def slot_bump_def)

lemma pop_item_fields [simp]:
  "sl_items (pop_item item how sl) = tl (sl_items sl)" "sl_last_no (pop_item item how sl) = sl_last_no sl"
  "sl_worker_running (pop_item item how sl) = sl_worker_running sl"
  "sl_dropped (pop_item item how sl) =
     (if how \<noteq> EDelivered then sl_dropped sl \<union> set (it_entries item) else sl_dropped sl)"
  by (simp_all add: pop_item_def slot_bump_def)

lemma end_item_frame [simp]:
  "in_store (end_item t item how n) = in_store n" "in_numbers (end_item t item how n) = in_numbers n"
  "in_refused (end_item t item how n) = in_refused n" "in_stopped (end_item t item how n) = in_stopped n"
  "slots_ordered n \<Longrightarrow> slots_ordered (end_item t item how n)"
  "slots_ordered n \<Longrightarrow> inner_slot t' (end_item t item how n) =
     (if t' = t then pop_item item how (inner_slot t n) else inner_slot t' n)"
  by (simp_all add: end_item_def)

section \<open>The invariant\<close>

text \<open>What is still to be sent or to leave the store, in the order in which the store keeps it.\<close>

fun removing :: "WorkerAt \<Rightarrow> Item list" where
  "removing (WkRemove q) = [q_item q]"
| "removing _ = []"

definition optlist :: "'a option \<Rightarrow> 'a list" where
  "optlist x = (case x of Some y \<Rightarrow> [y] | None \<Rightarrow> [])"

record ThreadView =
  v_slot :: TSlot
  v_worker :: WorkerAt
  v_accepting :: "Item option"
  v_taken :: "Item list"
  v_ended :: "(Item \<times> EndedHow) list"
  v_stuck :: "uuid set"
  v_left :: "Item list"

definition view :: "'s TqSys \<Rightarrow> uuid \<Rightarrow> ThreadView" where
  "view s t = \<lparr>v_slot = inner_slot t (tq_inner s), v_worker = tq_worker s t, v_accepting = tq_accepting s t,
     v_taken = h_taken s t, v_ended = h_ended s t, v_stuck = h_stuck s t, v_left = h_left s t\<rparr>"

definition v_items :: "ThreadView \<Rightarrow> Item list" where
  "v_items v = map q_item (sl_items (v_slot v))"

definition open_items :: "ThreadView \<Rightarrow> Item list" where
  "open_items v = removing (v_worker v) @ v_items v @ optlist (v_accepting v) @ v_left v"

fun worker_fits :: "WorkerAt \<Rightarrow> Queued list \<Rightarrow> (Item \<times> EndedHow) list \<Rightarrow> bool" where
  "worker_fits (WkAttempt q) items ended \<longleftrightarrow> items \<noteq> [] \<and> q = hd items"
| "worker_fits (WkRemove q) items ended \<longleftrightarrow> ended \<noteq> [] \<and> q_item q = fst (last ended)"
| "worker_fits _ items ended \<longleftrightarrow> True"

definition worker_at :: "ThreadView \<Rightarrow> bool" where
  "worker_at v \<longleftrightarrow> worker_fits (v_worker v) (sl_items (v_slot v)) (v_ended v)"

definition nos_ok :: "nat \<Rightarrow> TSlot \<Rightarrow> bool" where
  "nos_ok numbers sl \<longleftrightarrow> sorted_wrt (<) (map q_no (sl_items sl)) \<and> (\<forall>q \<in> set (sl_items sl). q_no q \<le> sl_last_no sl) \<and>
     sl_last_no sl \<le> numbers"

definition taken_ok :: "ThreadView \<Rightarrow> bool" where
  "taken_ok v \<longleftrightarrow> v_taken v = map fst (v_ended v) @ v_items v"

definition run_ok :: "bool \<Rightarrow> ThreadView \<Rightarrow> bool" where
  "run_ok stopped v \<longleftrightarrow>
     (\<not> stopped \<longrightarrow> (sl_worker_running (v_slot v) \<longleftrightarrow> v_worker v \<noteq> WkNone) \<and> v_left v = [] \<and>
        (v_items v \<noteq> [] \<longrightarrow> v_worker v \<noteq> WkNone)) \<and>
     (v_left v \<noteq> [] \<longrightarrow> v_accepting v = None)"

definition ids_ok :: "ThreadView \<Rightarrow> bool" where
  "ids_ok v \<longleftrightarrow> distinct (map it_id (v_taken v @ optlist (v_accepting v) @ v_left v))"

definition view_ok :: "nat \<Rightarrow> bool \<Rightarrow> ThreadView \<Rightarrow> bool" where
  "view_ok numbers stopped v \<longleftrightarrow> taken_ok v \<and> worker_at v \<and> nos_ok numbers (v_slot v) \<and> run_ok stopped v \<and> ids_ok v"

definition kept_for :: "uuid \<Rightarrow> uuid set \<Rightarrow> StoredItem list \<Rightarrow> StoredItem list" where
  "kept_for t stuck xs = filter (\<lambda>x. stored_thread x = t \<and> stored_id x \<notin> stuck) xs"

definition kept_ok :: "Codec \<Rightarrow> uuid \<Rightarrow> StoredItem list \<Rightarrow> ThreadView \<Rightarrow> bool" where
  "kept_ok codec t xs v \<longleftrightarrow> map (item_read codec) (kept_for t (v_stuck v) xs) = map Ok (open_items v)"

definition tq_inv :: "('s \<Rightarrow> StoredItem list) \<Rightarrow> Codec \<Rightarrow> 's TqSys \<Rightarrow> bool" where
  "tq_inv kept codec s \<longleftrightarrow> slots_ordered (tq_inner s) \<and>
     (\<forall>t. view_ok (in_numbers (tq_inner s)) (in_stopped (tq_inner s)) (view s t)) \<and>
     (\<forall>t. kept_ok codec t (kept (in_store (tq_inner s))) (view s t)) \<and>
     (\<forall>x \<in> set (kept (in_store (tq_inner s))). \<exists>item. item_read codec x = Ok item)"

lemma optlist_simps [simp]: "optlist None = []" "optlist (Some x) = [x]"
  by (simp_all add: optlist_def)

lemma v_items_simps [simp]: "v_items (v\<lparr>v_slot := sl\<rparr>) = map q_item (sl_items sl)"
  by (simp add: v_items_def)

lemma view_ok_mono: "view_ok k stopped v \<Longrightarrow> k \<le> k' \<Longrightarrow> (stopped \<Longrightarrow> stopped') \<Longrightarrow> view_ok k' stopped' v"
  unfolding view_ok_def nos_ok_def run_ok_def by (meson le_trans)

lemma kept_for_simps [simp]:
  "kept_for t stuck (xs @ ys) = kept_for t stuck xs @ kept_for t stuck ys"
  "kept_for t stuck [] = []"
  "stored_thread x = t \<Longrightarrow> stored_id x \<notin> stuck \<Longrightarrow> kept_for t stuck [x] = [x]"
  "stored_thread x \<noteq> t \<Longrightarrow> kept_for t stuck [x] = []"
  by (auto simp: kept_for_def)

lemma kept_for_insert: "kept_for t (insert i stuck) xs = filter (\<lambda>x. stored_id x \<noteq> i) (kept_for t stuck xs)"
  by (induction xs) (auto simp: kept_for_def)

lemma kept_for_remove:
  "kept_for t' stuck (filter (\<lambda>x. stored_id x = i \<longrightarrow> stored_thread x \<noteq> t) xs) =
     (if t' = t then filter (\<lambda>x. stored_id x \<noteq> i) (kept_for t stuck xs) else kept_for t' stuck xs)"
  by (induction xs) (auto simp: kept_for_def)

text \<open>The first of the open items leaves.\<close>

lemma first_leaves:
  assumes "map (item_read codec) xs = map Ok (y # ys)" and "it_id y \<notin> it_id ` set ys"
  shows "map (item_read codec) (filter (\<lambda>x. stored_id x \<noteq> it_id y) xs) = map Ok ys"
proof -
  from assms(1) obtain x zs where xs: "xs = x # zs" "item_read codec x = Ok y" "map (item_read codec) zs = map Ok ys"
    by (cases xs) auto
  have "stored_id z \<noteq> it_id y" if "z \<in> set zs" for z
  proof -
    from that xs(3) obtain w where "w \<in> set ys" "item_read codec z = Ok w"
      by (metis (no_types, lifting) imageE image_eqI list.set_map)
    with item_read_ok [of codec z w] assms(2) show ?thesis by (metis imageI)
  qed
  then have "filter (\<lambda>x. stored_id x \<noteq> it_id y) zs = zs" by (simp add: filter_id_conv)
  moreover have "stored_id x = it_id y" using item_read_ok [OF xs(2)] by simp
  ultimately show ?thesis using xs by simp
qed

section \<open>The changes of a view\<close>

lemma ids_ok_frame [simp]:
  "ids_ok (v\<lparr>v_slot := sl\<rparr>) = ids_ok v" "ids_ok (v\<lparr>v_worker := w\<rparr>) = ids_ok v" "ids_ok (v\<lparr>v_ended := es\<rparr>) = ids_ok v"
  "ids_ok (v\<lparr>v_stuck := stuck\<rparr>) = ids_ok v"
  by (simp_all add: ids_ok_def)

lemma view_accept:
  assumes "view_ok k False v" and "v_accepting v = None" and "it_id item \<notin> it_id ` set (v_taken v @ v_left v)"
  shows "view_ok k False (v\<lparr>v_accepting := Some item\<rparr>)" and "open_items (v\<lparr>v_accepting := Some item\<rparr>) = open_items v @ [item]"
proof -
  let ?v = "v\<lparr>v_accepting := Some item\<rparr>"
  from assms(1) have l: "v_left v = []" and i: "distinct (map it_id (v_taken v))"
    by (simp_all add: view_ok_def run_ok_def ids_ok_def)
  with assms(3) have "ids_ok ?v" by (simp add: ids_ok_def)
  moreover have "taken_ok ?v" "worker_at ?v" "nos_ok k (v_slot ?v)" "run_ok False ?v"
    using assms(1) by (simp_all add: view_ok_def taken_ok_def worker_at_def run_ok_def v_items_def)
  ultimately show "view_ok k False ?v" by (simp add: view_ok_def)
  show "open_items ?v = open_items v @ [item]" using assms(2) l by (simp add: open_items_def v_items_def)
qed

lemma view_enqueue:
  assumes "view_ok k False v" and "v_accepting v = Some item"
    and "v' = v\<lparr>v_slot := push_item item (k + 1) now (v_slot v), v_accepting := None,
      v_worker := (if \<not> sl_worker_running (v_slot v) then WkLoop else v_worker v), v_taken := v_taken v @ [item]\<rparr>"
  shows "view_ok (k + 1) False v'" and "open_items v' = open_items v"
proof -
  have w: "v_worker v' = (if v_worker v = WkNone then WkLoop else v_worker v)"
    using assms(1,3) by (simp add: view_ok_def run_ok_def)
  have l: "v_left v = []" using assms(1) by (simp add: view_ok_def run_ok_def)
  have "nos_ok (k + 1) (v_slot v')"
    using assms(1) by (auto simp: view_ok_def nos_ok_def assms(3) sorted_wrt_append)
  moreover have "worker_at v'"
    using assms(1) w by (cases "v_worker v") (simp_all add: view_ok_def worker_at_def assms(3))
  moreover have "ids_ok v'" using assms(1,2) l by (simp add: view_ok_def ids_ok_def assms(3))
  moreover have "taken_ok v'" using assms(1) by (simp add: view_ok_def taken_ok_def v_items_def assms(3))
  moreover have "run_ok False v'" using l w by (simp add: run_ok_def assms(3))
  ultimately show "view_ok (k + 1) False v'" by (simp add: view_ok_def)
  show "open_items v' = open_items v" using w l assms(2) by (simp add: open_items_def v_items_def assms(3))
qed

lemma view_enqueue_late:
  assumes "view_ok k True v" and "v_accepting v = Some item"
  shows "view_ok (k + 1) True (v\<lparr>v_accepting := None, v_left := v_left v @ [item]\<rparr>)"
    and "open_items (v\<lparr>v_accepting := None, v_left := v_left v @ [item]\<rparr>) = open_items v"
proof -
  let ?v = "v\<lparr>v_accepting := None, v_left := v_left v @ [item]\<rparr>"
  have l: "v_left v = []" using assms by (auto simp: view_ok_def run_ok_def)
  show "open_items ?v = open_items v" using assms(2) l by (simp add: open_items_def v_items_def)
  have "ids_ok ?v" using assms l by (simp add: view_ok_def ids_ok_def)
  moreover have "taken_ok ?v" "worker_at ?v" "nos_ok (k + 1) (v_slot ?v)" "run_ok True ?v"
    using assms(1) by (auto simp: view_ok_def taken_ok_def worker_at_def nos_ok_def run_ok_def v_items_def)
  ultimately show "view_ok (k + 1) True ?v" by (simp add: view_ok_def)
qed

lemma view_take_none:
  assumes "view_ok k stopped v" and "v_worker v = WkLoop" and "sl_items (v_slot v) = []"
  shows "view_ok k stopped (v\<lparr>v_slot := (v_slot v)\<lparr>sl_worker_running := False\<rparr>, v_worker := WkNone\<rparr>)"
    and "open_items (v\<lparr>v_slot := (v_slot v)\<lparr>sl_worker_running := False\<rparr>, v_worker := WkNone\<rparr>) = open_items v"
  using assms by (simp_all add: view_ok_def taken_ok_def worker_at_def nos_ok_def run_ok_def open_items_def v_items_def)

lemma view_end:
  assumes "view_ok k stopped v" and "removing (v_worker v) = []" and "v_worker v \<noteq> WkNone"
    and "sl_items (v_slot v) = q # qs"
    and "v' = v\<lparr>v_slot := pop_item (q_item q) how (v_slot v), v_worker := WkRemove q, v_ended := v_ended v @ [(q_item q, how)]\<rparr>"
  shows "view_ok k stopped v'" and "open_items v' = open_items v"
proof -
  have "taken_ok v'" using assms(1,4) by (simp add: view_ok_def taken_ok_def v_items_def assms(5))
  moreover have "worker_at v'" by (simp add: worker_at_def assms(5))
  moreover have "nos_ok k (v_slot v')" using assms(1,4) by (simp add: view_ok_def nos_ok_def assms(5))
  moreover have "run_ok stopped v'" using assms(1,3) by (simp add: view_ok_def run_ok_def assms(5))
  moreover have "ids_ok v'" using assms(1) by (simp add: view_ok_def assms(5))
  ultimately show "view_ok k stopped v'" by (simp add: view_ok_def)
  show "open_items v' = open_items v" using assms(2,4) by (simp add: open_items_def v_items_def assms(5))
qed

lemma view_attempt:
  assumes "view_ok k stopped v" and "v_worker v = WkLoop" and "sl_items (v_slot v) = q # qs"
  shows "view_ok k stopped (v\<lparr>v_worker := WkAttempt q\<rparr>)" and "open_items (v\<lparr>v_worker := WkAttempt q\<rparr>) = open_items v"
  using assms by (simp_all add: view_ok_def taken_ok_def worker_at_def run_ok_def open_items_def v_items_def)

lemma view_again:
  assumes "view_ok k stopped v" and "v_worker v = WkAttempt q"
  shows "view_ok k stopped (v\<lparr>v_slot := (v_slot v)\<lparr>sl_last_failure := f\<rparr>, v_worker := WkLoop\<rparr>)"
    and "open_items (v\<lparr>v_slot := (v_slot v)\<lparr>sl_last_failure := f\<rparr>, v_worker := WkLoop\<rparr>) = open_items v"
  using assms by (simp_all add: view_ok_def taken_ok_def worker_at_def nos_ok_def run_ok_def open_items_def v_items_def)

lemma view_remove:
  assumes "view_ok k stopped v" and "v_worker v = WkRemove q" and "w = WkLoop \<or> w = WkNone \<and> stopped"
  shows "view_ok k stopped (v\<lparr>v_worker := w, v_stuck := stuck\<rparr>)"
    and "open_items v = q_item q # open_items (v\<lparr>v_worker := w, v_stuck := stuck\<rparr>)"
    and "it_id (q_item q) \<notin> it_id ` set (open_items (v\<lparr>v_worker := w, v_stuck := stuck\<rparr>))"
proof -
  show "view_ok k stopped (v\<lparr>v_worker := w, v_stuck := stuck\<rparr>)"
    using assms by (elim disjE; simp add: view_ok_def taken_ok_def worker_at_def run_ok_def v_items_def)
  show "open_items v = q_item q # open_items (v\<lparr>v_worker := w, v_stuck := stuck\<rparr>)"
    using assms(2,3) by (elim disjE; simp add: open_items_def v_items_def)
  obtain es how where e: "v_ended v = es @ [(q_item q, how)]"
    using assms(1,2) by (cases "v_ended v" rule: rev_cases) (simp_all add: view_ok_def worker_at_def split_paired_all)
  have "open_items (v\<lparr>v_worker := w, v_stuck := stuck\<rparr>) = v_items v @ optlist (v_accepting v) @ v_left v"
    using assms(3) by (elim disjE; simp add: open_items_def v_items_def)
  moreover have "distinct (map it_id ((map fst es @ [q_item q]) @ v_items v @ optlist (v_accepting v) @ v_left v))"
  proof -
    have "v_taken v = (map fst es @ [q_item q]) @ v_items v" using assms(1) by (simp add: view_ok_def taken_ok_def e)
    moreover have "distinct (map it_id (v_taken v @ optlist (v_accepting v) @ v_left v))"
      using assms(1) by (simp only: view_ok_def ids_ok_def)
    ultimately show ?thesis by (simp only: append_assoc)
  qed
  ultimately show "it_id (q_item q) \<notin> it_id ` set (open_items (v\<lparr>v_worker := w, v_stuck := stuck\<rparr>))"
    by (simp add: image_Un)
qed

lemma view_abort:
  assumes "view_ok k True v" and "removing (v_worker v) = []"
  shows "view_ok k True (v\<lparr>v_worker := WkNone\<rparr>)" and "open_items (v\<lparr>v_worker := WkNone\<rparr>) = open_items v"
  using assms by (simp_all add: view_ok_def taken_ok_def worker_at_def run_ok_def open_items_def v_items_def)

section \<open>Every step keeps the invariant\<close>

lemma tq_invI:
  assumes "slots_ordered (tq_inner s)"
    and "\<And>t. view_ok (in_numbers (tq_inner s)) (in_stopped (tq_inner s)) (view s t)"
    and "\<And>t. kept_ok codec t (kept (in_store (tq_inner s))) (view s t)"
    and "\<And>x. x \<in> set (kept (in_store (tq_inner s))) \<Longrightarrow> \<exists>item. item_read codec x = Ok item"
  shows "tq_inv kept codec s"
  using assms by (simp add: tq_inv_def)

text \<open>
  A step that changes the view of one thread only, and neither the store nor the items that are
  open.
\<close>

lemma tq_inv_local:
  assumes "tq_inv kept codec s" and "slots_ordered (tq_inner s')" and "in_store (tq_inner s') = in_store (tq_inner s)"
    and "in_numbers (tq_inner s) \<le> in_numbers (tq_inner s')" and "in_stopped (tq_inner s) \<Longrightarrow> in_stopped (tq_inner s')"
    and "\<And>t'. t' \<noteq> t \<Longrightarrow> view s' t' = view s t'"
    and "view_ok (in_numbers (tq_inner s')) (in_stopped (tq_inner s')) (view s' t)"
    and "open_items (view s' t) = open_items (view s t)" and "h_stuck s' t = h_stuck s t"
  shows "tq_inv kept codec s'"
proof (rule tq_invI)
  show "slots_ordered (tq_inner s')" by (rule assms(2))
  fix t'
  show "view_ok (in_numbers (tq_inner s')) (in_stopped (tq_inner s')) (view s' t')"
  proof (cases "t' = t")
    case False
    have "view_ok (in_numbers (tq_inner s)) (in_stopped (tq_inner s)) (view s t')"
      using assms(1) by (simp add: tq_inv_def)
    from view_ok_mono [OF this assms(4,5)] assms(6) [OF False] show ?thesis by simp
  qed (use assms(7) in simp)
  have "v_stuck (view s' t) = v_stuck (view s t)" using assms(9) by (simp add: view_def)
  then show "kept_ok codec t' (kept (in_store (tq_inner s'))) (view s' t')"
    using assms(1,3,6,8) by (cases "t' = t") (simp_all add: tq_inv_def kept_ok_def)
next
  show "\<exists>item. item_read codec x = Ok item" if "x \<in> set (kept (in_store (tq_inner s')))" for x
    using assms(1,3) that by (simp add: tq_inv_def)
qed

lemma take_head_cases:
  assumes "take_head_of t n = (h, n')" and "slots_ordered n"
  shows "case h of
      HeadNone \<Rightarrow> sl_items (inner_slot t n) = [] \<and> n' = set_slot t ((inner_slot t n)\<lparr>sl_worker_running := False\<rparr>) n
    | HeadUnsent q \<Rightarrow> (\<exists>qs. sl_items (inner_slot t n) = q # qs) \<and> it_kind (q_item q) \<noteq> KOpening \<and>
        it_message (q_item q) \<in> in_refused n \<and>
        n' = end_item t (q_item q) EUnsent (inner_report (report_of ItemDroppedUnsent t (q_item q) None) n)
    | HeadAttempt q \<Rightarrow> (\<exists>qs. sl_items (inner_slot t n) = q # qs) \<and> n' = n \<and>
        (it_kind (q_item q) = KOpening \<or> it_message (q_item q) \<notin> in_refused n)"
  using assms by (auto simp: take_head_of_def message_refused_def split: list.splits if_splits)

lemma attempted_cases:
  assumes "attempted t item r n = (x, n')" and "slots_ordered n"
  shows "in_store n' = in_store n" and "in_numbers n' = in_numbers n" and "in_stopped n' = in_stopped n" and "slots_ordered n'"
    and "t' \<noteq> t \<Longrightarrow> inner_slot t' n' = inner_slot t' n"
    and "x = None \<Longrightarrow> \<exists>f. inner_slot t n' = (inner_slot t n)\<lparr>sl_last_failure := f\<rparr>"
    and "x = Some how \<Longrightarrow> inner_slot t n' = pop_item item how (inner_slot t n)"
  using assms by (auto simp: attempted_def Let_def split: sum.splits if_splits)

lemma enqueue_cases:
  assumes "enqueue_item t item now n = (spawn, n')" and "slots_ordered n"
  shows "in_store n' = in_store n" and "in_numbers n' = in_numbers n + 1" and "in_stopped n' = in_stopped n"
    and "slots_ordered n'" and "t' \<noteq> t \<Longrightarrow> inner_slot t' n' = inner_slot t' n"
    and "in_stopped n \<Longrightarrow> inner_slot t n' = inner_slot t n"
    and "\<not> in_stopped n \<Longrightarrow> inner_slot t n' = push_item item (in_numbers n + 1) now (inner_slot t n)"
    and "\<not> in_stopped n \<Longrightarrow> spawn = (\<not> sl_worker_running (inner_slot t n))"
  using assms by (auto simp: enqueue_item_def Let_def split: if_splits)

context queue_store
begin

lemma append_inv:
  assumes "codec_ok codec" and "tq_inv kept codec s" and "tq_accepting s t = None" and "fresh_item item t s"
    and "it_thread item = t" and "codec_v7 codec t" and "accept_append ops codec t item (tq_inner s) = (Ok (), n)"
    and "s' = s\<lparr>tq_inner := n, tq_accepting := (tq_accepting s)(t \<mapsto> item)\<rparr>"
  shows "tq_inv kept codec s'"
proof -
  from assms(7) obtain x st where a: "\<not> in_stopped (tq_inner s)" "item_stored codec t item = Ok x"
    "store_append ops x (in_store (tq_inner s)) = (Ok (), st)" "n = (tq_inner s)\<lparr>in_store := st\<rparr>"
    by (auto simp: accept_append_def split: if_splits sum.splits prod.splits)
  note k = append_ok [OF a(3)] and r = item_read_stored [OF assms(1) a(2) assms(5,6)]
  have v: "view s' t' = (if t' = t then (view s t)\<lparr>v_accepting := Some item\<rparr> else view s t')" for t'
    by (simp add: assms(8) view_def a(4))
  have ok: "view_ok (in_numbers (tq_inner s)) False (view s t)" using assms(2) a(1) by (simp add: tq_inv_def)
  have f: "it_id item \<notin> it_id ` set (v_taken (view s t) @ v_left (view s t))" and ns: "it_id item \<notin> h_stuck s t"
    using assms(4) by (simp_all add: fresh_item_def view_def)
  note va = view_accept [OF ok _ f]
  have acc: "v_accepting (view s t) = None" by (simp add: view_def assms(3))
  show ?thesis
  proof (rule tq_invI)
    show "slots_ordered (tq_inner s')" using assms(2) by (simp add: assms(8) a(4) tq_inv_def)
    show "view_ok (in_numbers (tq_inner s')) (in_stopped (tq_inner s')) (view s' t')" for t'
      using assms(2) va(1) [OF acc] a(1) by (simp add: v tq_inv_def) (simp add: assms(8) a(4))
    show "kept_ok codec t' (kept (in_store (tq_inner s'))) (view s' t')" for t'
    proof (cases "t' = t")
      case True
      have "kept_ok codec t (kept (in_store (tq_inner s))) (view s t)" using assms(2) by (simp add: tq_inv_def)
      moreover have "v_stuck (view s t) = h_stuck s t" by (simp add: view_def)
      ultimately show ?thesis using va(2) [OF acc] True r ns
        by (simp add: kept_ok_def v) (simp add: assms(8) a(4) k)
    next
      case False
      have "kept_ok codec t' (kept (in_store (tq_inner s))) (view s t')" using assms(2) by (simp add: tq_inv_def)
      then show ?thesis using False r by (simp add: kept_ok_def v) (simp add: assms(8) a(4) k)
    qed
    show "\<exists>item. item_read codec y = Ok item" if "y \<in> set (kept (in_store (tq_inner s')))" for y
      using that assms(2) r(1) by (auto simp: assms(8) a(4) k tq_inv_def)
  qed
qed

lemma append_err_inv:
  assumes "tq_inv kept codec s" and "accept_append ops codec t item (tq_inner s) = (Err e, n)"
  shows "tq_inv kept codec (s\<lparr>tq_inner := n\<rparr>)"
proof -
  from assms(2) obtain st where n: "n = (tq_inner s)\<lparr>in_store := st\<rparr>" "kept st = kept (in_store (tq_inner s))"
    by (auto simp: accept_append_def split: if_splits sum.splits prod.splits dest!: append_err)
      (metis Inner.surjective Inner.update_convs(1))+
  have "view (s\<lparr>tq_inner := n\<rparr>) t = view s t" for t by (simp add: view_def n(1))
  with assms(1) show ?thesis by (simp add: tq_inv_def n)
qed

text \<open>The removal of an item, done or failed, when its delivery task goes on or is gone.\<close>

lemma removal_inv:
  assumes "tq_inv kept codec s" and "tq_worker s t = WkRemove q"
    and "w = WkLoop \<or> w = WkNone \<and> in_stopped (tq_inner s)" and "tq_inner s' = n"
    and "in_slots n = in_slots (tq_inner s)" and "in_numbers n = in_numbers (tq_inner s)" and "in_stopped n = in_stopped (tq_inner s)"
    and "view s' t = (view s t)\<lparr>v_worker := w, v_stuck := stuck\<rparr>" and "\<And>t'. t' \<noteq> t \<Longrightarrow> view s' t' = view s t'"
    and "stuck = h_stuck s t \<and> kept (in_store n) =
        filter (\<lambda>x. \<not> (stored_id x = it_id (q_item q) \<and> stored_thread x = t)) (kept (in_store (tq_inner s))) \<or>
      stuck = insert (it_id (q_item q)) (h_stuck s t) \<and> kept (in_store n) = kept (in_store (tq_inner s))"
  shows "tq_inv kept codec s'"
proof -
  let ?v = "view s t" and ?xs = "kept (in_store (tq_inner s))"
  have ok: "view_ok (in_numbers (tq_inner s)) (in_stopped (tq_inner s)) ?v" using assms(1) by (simp add: tq_inv_def)
  have w: "v_worker ?v = WkRemove q" using assms(2) by (simp add: view_def)
  note vr = view_remove [OF ok w assms(3)]
  have st: "v_stuck ?v = h_stuck s t" by (simp add: view_def)
  have "map (item_read codec) (kept_for t (h_stuck s t) ?xs) = map Ok (open_items ?v)"
    using assms(1) by (simp add: tq_inv_def kept_ok_def view_def)
  then have fl: "map (item_read codec) (filter (\<lambda>x. stored_id x \<noteq> it_id (q_item q)) (kept_for t (h_stuck s t) ?xs)) =
      map Ok (open_items (?v\<lparr>v_worker := w, v_stuck := stuck\<rparr>))"
    unfolding vr(2) [of stuck] using vr(3) [of stuck] by (rule first_leaves)
  show ?thesis
  proof (rule tq_invI)
    show "slots_ordered (tq_inner s')" using assms(1,4,5) by (simp add: tq_inv_def slots_ordered_def)
    show "view_ok (in_numbers (tq_inner s')) (in_stopped (tq_inner s')) (view s' t')" for t'
      using assms(1,4,6,7,8,9) vr(1) [of stuck] by (cases "t' = t") (simp_all add: tq_inv_def)
    show "kept_ok codec t' (kept (in_store (tq_inner s'))) (view s' t')" for t'
    proof (cases "t' = t")
      case True
      then show ?thesis using assms(10) fl by (auto simp: kept_ok_def assms(4,8) kept_for_remove kept_for_insert)
    next
      case False
      have "kept_ok codec t' ?xs (view s t')" using assms(1) by (simp add: tq_inv_def)
      then show ?thesis using False assms(10) by (auto simp: kept_ok_def assms(4,9) kept_for_remove)
    qed
    show "\<exists>item. item_read codec y = Ok item" if "y \<in> set (kept (in_store (tq_inner s')))" for y
      using that assms(1,4,10) by (auto simp: tq_inv_def)
  qed
qed

end

context queue_store
begin

lemma ended_inv:
  assumes "tq_inv kept codec s" and "removing (tq_worker s t) = []" and "tq_worker s t \<noteq> WkNone"
    and "sl_items (inner_slot t (tq_inner s)) = q # qs"
    and "in_store n = in_store (tq_inner s)" and "in_numbers n = in_numbers (tq_inner s)"
    and "in_stopped n = in_stopped (tq_inner s)" and "slots_ordered n"
    and "\<And>t'. t' \<noteq> t \<Longrightarrow> inner_slot t' n = inner_slot t' (tq_inner s)"
    and "inner_slot t n = pop_item (q_item q) how (inner_slot t (tq_inner s))"
  shows "tq_inv kept codec (ended_step t q how n s)"
proof -
  let ?v = "view s t" and ?s = "ended_step t q how n s"
  have ok: "view_ok (in_numbers (tq_inner s)) (in_stopped (tq_inner s)) ?v" using assms(1) by (simp add: tq_inv_def)
  have h: "removing (v_worker ?v) = []" "v_worker ?v \<noteq> WkNone" "sl_items (v_slot ?v) = q # qs"
    using assms(2,3,4) by (simp_all add: view_def)
  have v: "view ?s t = ?v\<lparr>v_slot := pop_item (q_item q) how (v_slot ?v), v_worker := WkRemove q,
      v_ended := v_ended ?v @ [(q_item q, how)]\<rparr>"
    by (simp add: ended_step_def view_def assms(10))
  note ve = view_end [OF ok h v]
  show ?thesis
  proof (rule tq_inv_local [OF assms(1), where t = t])
    show "view ?s t' = view s t'" if "t' \<noteq> t" for t'
      using that assms(9) by (simp add: ended_step_def view_def)
    show "view_ok (in_numbers (tq_inner ?s)) (in_stopped (tq_inner ?s)) (view ?s t)"
      using ve(1) assms(6,7) by (simp add: ended_step_def)
    show "open_items (view ?s t) = open_items ?v" by (rule ve(2))
  qed (simp_all add: ended_step_def assms(5-8))
qed

text \<open>The turns of a delivery task that change the view of its thread without ending an item.\<close>

lemma turn_inv:
  assumes "tq_inv kept codec s" and "tq_inner s' = n" and "slots_ordered n" and "in_store n = in_store (tq_inner s)"
    and "in_numbers n = in_numbers (tq_inner s)" and "in_stopped n = in_stopped (tq_inner s)"
    and "\<And>t'. t' \<noteq> t \<Longrightarrow> view s' t' = view s t'" and "h_stuck s' t = h_stuck s t"
    and "view_ok (in_numbers (tq_inner s)) (in_stopped (tq_inner s)) (view s' t)"
    and "open_items (view s' t) = open_items (view s t)"
  shows "tq_inv kept codec s'"
  by (rule tq_inv_local [OF assms(1), where t = t]) (use assms(2-10) in simp_all)

lemma worker_step_inv:
  assumes "tq_inv kept codec s"
  shows "tq_worker s t = WkLoop \<Longrightarrow> take_head_of t (tq_inner s) = (HeadNone, n) \<Longrightarrow>
      tq_inv kept codec (s\<lparr>tq_inner := n, tq_worker := (tq_worker s)(t := WkNone)\<rparr>)"
    and "tq_worker s t = WkLoop \<Longrightarrow> take_head_of t (tq_inner s) = (HeadUnsent q, n) \<Longrightarrow>
      tq_inv kept codec (ended_step t q EUnsent n s)"
    and "tq_worker s t = WkLoop \<Longrightarrow> take_head_of t (tq_inner s) = (HeadAttempt q, n) \<Longrightarrow>
      tq_inv kept codec (s\<lparr>tq_inner := n, tq_worker := (tq_worker s)(t := WkAttempt q),
        h_tried := (h_tried s)(t := h_tried s t @ [q_item q])\<rparr>)"
    and "tq_worker s t = WkAttempt q \<Longrightarrow> attempted t (q_item q) r (tq_inner s) = (None, n) \<Longrightarrow>
      tq_inv kept codec (s\<lparr>tq_inner := n, tq_worker := (tq_worker s)(t := WkLoop)\<rparr>)"
    and "tq_worker s t = WkAttempt q \<Longrightarrow> attempted t (q_item q) r (tq_inner s) = (Some how, n) \<Longrightarrow>
      tq_inv kept codec (ended_step t q how n s)"
proof -
  have so: "slots_ordered (tq_inner s)" and ok: "view_ok (in_numbers (tq_inner s)) (in_stopped (tq_inner s)) (view s t)"
    using assms by (simp_all add: tq_inv_def)
  {
    assume w: "tq_worker s t = WkLoop" and h: "take_head_of t (tq_inner s) = (HeadNone, n)"
    from take_head_cases [OF h so] have c: "sl_items (inner_slot t (tq_inner s)) = []"
      "n = set_slot t ((inner_slot t (tq_inner s))\<lparr>sl_worker_running := False\<rparr>) (tq_inner s)" by simp_all
    let ?s = "s\<lparr>tq_inner := n, tq_worker := (tq_worker s)(t := WkNone)\<rparr>"
    have v: "view ?s t = (view s t)\<lparr>v_slot := (v_slot (view s t))\<lparr>sl_worker_running := False\<rparr>, v_worker := WkNone\<rparr>"
      using so by (simp add: view_def c(2))
    have "v_worker (view s t) = WkLoop" "sl_items (v_slot (view s t)) = []" using w c(1) by (simp_all add: view_def)
    note vt = view_take_none [OF ok this]
    show "tq_inv kept codec ?s"
      by (rule turn_inv [OF assms, where t = t and n = n]) (use so vt in \<open>simp_all add: v, simp_all add: view_def c(2)\<close>)
  next
    assume w: "tq_worker s t = WkLoop" and h: "take_head_of t (tq_inner s) = (HeadUnsent q, n)"
    from take_head_cases [OF h so] obtain qs where c: "sl_items (inner_slot t (tq_inner s)) = q # qs"
      "n = end_item t (q_item q) EUnsent (inner_report (report_of ItemDroppedUnsent t (q_item q) None) (tq_inner s))"
      by auto
    show "tq_inv kept codec (ended_step t q EUnsent n s)"
      by (rule ended_inv [OF assms _ _ c(1)]) (use w so in \<open>simp_all add: c(2)\<close>)
  next
    assume w: "tq_worker s t = WkLoop" and h: "take_head_of t (tq_inner s) = (HeadAttempt q, n)"
    from take_head_cases [OF h so] obtain qs where c: "sl_items (inner_slot t (tq_inner s)) = q # qs" "n = tq_inner s"
      by auto
    let ?s = "s\<lparr>tq_inner := n, tq_worker := (tq_worker s)(t := WkAttempt q),
        h_tried := (h_tried s)(t := h_tried s t @ [q_item q])\<rparr>"
    have v: "view ?s t = (view s t)\<lparr>v_worker := WkAttempt q\<rparr>" by (simp add: view_def c(2))
    have "v_worker (view s t) = WkLoop" "sl_items (v_slot (view s t)) = q # qs" using w c(1) by (simp_all add: view_def)
    note va = view_attempt [OF ok this]
    show "tq_inv kept codec ?s"
      by (rule turn_inv [OF assms, where t = t and n = n]) (use so va in \<open>simp_all add: v, simp_all add: view_def c(2)\<close>)
  next
    assume w: "tq_worker s t = WkAttempt q" and h: "attempted t (q_item q) r (tq_inner s) = (None, n)"
    note c = attempted_cases [OF h so]
    from c(6) obtain f where f: "inner_slot t n = (inner_slot t (tq_inner s))\<lparr>sl_last_failure := f\<rparr>" by auto
    let ?s = "s\<lparr>tq_inner := n, tq_worker := (tq_worker s)(t := WkLoop)\<rparr>"
    have v: "view ?s t = (view s t)\<lparr>v_slot := (v_slot (view s t))\<lparr>sl_last_failure := f\<rparr>, v_worker := WkLoop\<rparr>"
      by (simp add: view_def f)
    have "v_worker (view s t) = WkAttempt q" using w by (simp add: view_def)
    note va = view_again [OF ok this]
    show "tq_inv kept codec ?s"
      by (rule turn_inv [OF assms, where t = t and n = n]) (use c va in \<open>simp_all add: v, simp_all add: view_def\<close>)
  next
    assume w: "tq_worker s t = WkAttempt q" and h: "attempted t (q_item q) r (tq_inner s) = (Some how, n)"
    note c = attempted_cases [OF h so]
    have "worker_at (view s t)" using ok by (simp add: view_ok_def)
    then obtain qs where "sl_items (inner_slot t (tq_inner s)) = q # qs"
      using w by (cases "sl_items (inner_slot t (tq_inner s))") (simp_all add: worker_at_def view_def)
    from ended_inv [OF assms _ _ this c(1-3) c(4) c(5) c(7)] w
    show "tq_inv kept codec (ended_step t q how n s)" by simp
  }
qed

lemma step_inv:
  assumes "codec_ok codec" and "tq_step ops codec s e s'" and "tq_inv kept codec s"
  shows "tq_inv kept codec s'"
  using assms(2,3)
proof (cases rule: tq_step.cases)
  case (tq_append t item n)
  then show ?thesis using append_inv [OF assms(1,3)] by blast
next
  case (tq_append_err t item e n)
  then show ?thesis using append_err_inv [OF assms(3)] by blast
next
  case (tq_enqueue t item now spawn n)
  have so: "slots_ordered (tq_inner s)" and ok: "view_ok (in_numbers (tq_inner s)) False (view s t)"
    using assms(3) tq_enqueue(4) by (simp_all add: tq_inv_def)
  note c = enqueue_cases [OF tq_enqueue(5) so]
  have v: "view s' t = (view s t)\<lparr>v_slot := push_item item (in_numbers (tq_inner s) + 1) now (v_slot (view s t)),
      v_accepting := None, v_worker := (if \<not> sl_worker_running (v_slot (view s t)) then WkLoop else v_worker (view s t)),
      v_taken := v_taken (view s t) @ [item]\<rparr>"
    using c(7,8) tq_enqueue(4) by (simp add: tq_enqueue(2) view_def)
  have "v_accepting (view s t) = Some item" using tq_enqueue(3) by (simp add: view_def)
  note ve = view_enqueue [OF ok this v]
  show ?thesis
  proof (rule tq_inv_local [OF assms(3), where t = t])
    show "view s' t' = view s t'" if "t' \<noteq> t" for t'
      using that c(5) [OF that] by (simp add: tq_enqueue(2) view_def)
    show "view_ok (in_numbers (tq_inner s')) (in_stopped (tq_inner s')) (view s' t)"
      using ve(1) c(2,3) tq_enqueue(4) by (simp add: tq_enqueue(2))
    show "open_items (view s' t) = open_items (view s t)" by (rule ve(2))
  qed (use c(1-4) in \<open>simp_all add: tq_enqueue(2)\<close>)
next
  case (tq_enqueue_late t item now spawn n)
  have so: "slots_ordered (tq_inner s)" and ok: "view_ok (in_numbers (tq_inner s)) True (view s t)"
    using assms(3) tq_enqueue_late(4) by (simp_all add: tq_inv_def)
  note c = enqueue_cases [OF tq_enqueue_late(5) so]
  have v: "view s' t = (view s t)\<lparr>v_accepting := None, v_left := v_left (view s t) @ [item]\<rparr>"
    using c(6) tq_enqueue_late(4) by (simp add: tq_enqueue_late(2) view_def)
  have "v_accepting (view s t) = Some item" using tq_enqueue_late(3) by (simp add: view_def)
  note ve = view_enqueue_late [OF ok this]
  show ?thesis
  proof (rule tq_inv_local [OF assms(3), where t = t])
    show "view s' t' = view s t'" if "t' \<noteq> t" for t'
      using that c(5) [OF that] by (simp add: tq_enqueue_late(2) view_def)
    show "view_ok (in_numbers (tq_inner s')) (in_stopped (tq_inner s')) (view s' t)"
      using ve(1) c(2,3) tq_enqueue_late(4) unfolding v by (simp add: tq_enqueue_late(2))
    show "open_items (view s' t) = open_items (view s t)" unfolding v by (rule ve(2))
  qed (use c(1-4) in \<open>simp_all add: tq_enqueue_late(2)\<close>)
next
  case (tq_stop)
  have "view s' t = view s t" for t by (simp add: tq_stop view_def adapter_drop_def inner_slot_def)
  then show ?thesis using assms(3) view_ok_mono
    by (simp add: tq_inv_def) (simp add: tq_stop adapter_drop_def slots_ordered_def, blast)
next
  case (tq_remove t q removed n)
  have w: "v_stuck (view s t) = h_stuck s t" by (simp add: view_def)
  from tq_remove(4) have n: "in_slots n = in_slots (tq_inner s)" "in_numbers n = in_numbers (tq_inner s)"
    "in_stopped n = in_stopped (tq_inner s)"
    by (auto simp: remove_item_def inner_report_def split: prod.splits sum.splits)
  have k: "kept (in_store n) = (if removed
      then filter (\<lambda>x. \<not> (stored_id x = it_id (q_item q) \<and> stored_thread x = t)) (kept (in_store (tq_inner s)))
      else kept (in_store (tq_inner s)))"
    using tq_remove(4) by (auto simp: remove_item_def split: prod.splits sum.splits dest: remove_ok remove_err)
  show ?thesis
    by (rule removal_inv [OF assms(3) tq_remove(3), where w = WkLoop and n = n
          and stuck = "if removed then h_stuck s t else insert (it_id (q_item q)) (h_stuck s t)"])
      (use n k in \<open>simp_all add: tq_remove(2) view_def inner_slot_def split: if_splits\<close>)
next
  case (tq_abort t)
  show ?thesis
  proof (cases "removing (tq_worker s t) = []")
    case True
    have ok: "view_ok (in_numbers (tq_inner s)) True (view s t)" using assms(3) tq_abort(3) by (simp add: tq_inv_def)
    have v: "view s' t = (view s t)\<lparr>v_worker := WkNone\<rparr>"
      using True by (cases "tq_worker s t") (simp_all add: tq_abort(2) view_def)
    have "removing (v_worker (view s t)) = []" using True by (simp add: view_def)
    note va = view_abort [OF ok this]
    show ?thesis
    proof (rule tq_inv_local [OF assms(3), where t = t])
      show "view s' t' = view s t'" if "t' \<noteq> t" for t'
        using that by (cases "tq_worker s t") (simp_all add: tq_abort(2) view_def)
      show "view_ok (in_numbers (tq_inner s')) (in_stopped (tq_inner s')) (view s' t)"
        unfolding v using va(1) tq_abort(3) by (simp add: tq_abort(2))
      show "open_items (view s' t) = open_items (view s t)" unfolding v by (rule va(2))
      show "slots_ordered (tq_inner s')" using assms(3) by (simp add: tq_abort(2) tq_inv_def)
      show "h_stuck s' t = h_stuck s t" using True by (cases "tq_worker s t") (simp_all add: tq_abort(2))
    qed (simp_all add: tq_abort(2))
  next
    case False
    then obtain q where q: "tq_worker s t = WkRemove q" by (cases "tq_worker s t") simp_all
    show ?thesis
      by (rule removal_inv [OF assms(3) q, where w = WkNone and n = "tq_inner s"
            and stuck = "insert (it_id (q_item q)) (h_stuck s t)"])
        (use tq_abort(3) in \<open>simp_all add: tq_abort(2) q view_def\<close>)
  qed
qed (use worker_step_inv [OF assms(3)] in blast)+

end

section \<open>The start\<close>

definition load_items :: "instant \<Rightarrow> (StoredItem \<times> Item) list \<Rightarrow> 's \<Rightarrow> 's Inner" where
  "load_items now ps st = fold (\<lambda>(x, item) n. snd (enqueue_item (stored_thread x) item now n)) ps (inner_new st)"

lemma load_items_snoc:
  "load_items now (ps @ [(x, item)]) st = snd (enqueue_item (stored_thread x) item now (load_items now ps st))"
  by (simp add: load_items_def)

lemma load_items_ok:
  "in_store (load_items now ps st) = st \<and> \<not> in_stopped (load_items now ps st) \<and> slots_ordered (load_items now ps st) \<and>
   (\<forall>t. map q_item (sl_items (inner_slot t (load_items now ps st))) = map snd (filter (\<lambda>(x, _). stored_thread x = t) ps) \<and>
      nos_ok (in_numbers (load_items now ps st)) (inner_slot t (load_items now ps st)) \<and>
      (sl_worker_running (inner_slot t (load_items now ps st)) \<longleftrightarrow> sl_items (inner_slot t (load_items now ps st)) \<noteq> []))"
proof (induction ps rule: rev_induct)
  case Nil
  show ?case by (simp add: load_items_def inner_new_def inner_slot_def slots_ordered_def nos_ok_def)
next
  case (snoc p ps)
  obtain x item where p: "p = (x, item)" by (cases p)
  let ?n = "load_items now ps st" and ?t = "stored_thread x"
  obtain spawn n' where e: "enqueue_item ?t item now ?n = (spawn, n')" by (cases "enqueue_item ?t item now ?n")
  have so: "slots_ordered ?n" and ns: "\<not> in_stopped ?n" using snoc.IH by simp_all
  note c = enqueue_cases [OF e so]
  have n': "load_items now (ps @ [p]) st = n'" using e by (simp add: p load_items_snoc)
  have "map q_item (sl_items (inner_slot t n')) = map snd (filter (\<lambda>(x, _). stored_thread x = t) (ps @ [p])) \<and>
      nos_ok (in_numbers n') (inner_slot t n') \<and> (sl_worker_running (inner_slot t n') \<longleftrightarrow> sl_items (inner_slot t n') \<noteq> [])" for t
  proof (cases "t = ?t")
    case True
    have "nos_ok (in_numbers ?n) (inner_slot t ?n)" using snoc.IH by blast
    then have "nos_ok (in_numbers n') (inner_slot t n')"
      using c(2) c(7) [OF ns] True by (auto simp: nos_ok_def sorted_wrt_append)
    moreover have "map q_item (sl_items (inner_slot t ?n)) = map snd (filter (\<lambda>(x, _). stored_thread x = t) ps)"
      using snoc.IH by blast
    ultimately show ?thesis using c(7) [OF ns] True by (simp add: p)
  next
    case False
    have "nos_ok (in_numbers ?n) (inner_slot t ?n)" using snoc.IH by blast
    then have "nos_ok (in_numbers n') (inner_slot t n')" using c(2) c(5) [OF False] by (simp add: nos_ok_def)
    with snoc.IH c(5) [OF False] False show ?thesis by (simp add: p)
  qed
  with c(1,3,4) snoc.IH show ?case unfolding n' by simp
qed

lemma read_all_ok: "read_all codec xs = Ok items \<Longrightarrow> map (item_read codec) xs = map Ok items"
  by (induction codec xs arbitrary: items rule: read_all.induct) (auto split: sum.splits)

lemma zip_filter_snd:
  "length xs = length ys \<Longrightarrow> map (item_read codec) xs = map Ok ys \<Longrightarrow>
   map Ok (map snd (filter (\<lambda>(x, _). P x) (zip xs ys))) = map (item_read codec) (filter P xs)"
  by (induction xs ys rule: list_induct2) auto

context queue_store
begin

lemma adapter_new_ok:
  assumes "adapter_new ops codec settings now st = Ok n"
  shows "in_store n = st" and "\<not> in_stopped n" and "slots_ordered n" and "nos_ok (in_numbers n) (inner_slot t n)"
    and "sl_worker_running (inner_slot t n) \<longleftrightarrow> sl_items (inner_slot t n) \<noteq> []"
    and "map (item_read codec) (kept_for t {} (kept st)) = map Ok (map q_item (sl_items (inner_slot t n)))"
    and "x \<in> set (kept st) \<Longrightarrow> \<exists>item. item_read codec x = Ok item"
proof -
  from assms obtain xs items where l: "store_list ops st = Ok xs" "read_all codec xs = Ok items"
    and n: "n = load_items now (zip xs items) st"
    by (auto simp: adapter_new_def load_items_def split: sum.splits)
  have xs: "xs = kept st" using list_ok [OF l(1)] .
  note r = read_all_ok [OF l(2)]
  have len: "length xs = length items" using r by (metis length_map)
  note lo = load_items_ok [of now "zip xs items" st, folded n]
  from lo show "in_store n = st" "\<not> in_stopped n" "slots_ordered n" "nos_ok (in_numbers n) (inner_slot t n)"
    "sl_worker_running (inner_slot t n) \<longleftrightarrow> sl_items (inner_slot t n) \<noteq> []" by blast+
  have "map q_item (sl_items (inner_slot t n)) = map snd (filter (\<lambda>(x, _). stored_thread x = t) (zip xs items))"
    using lo by blast
  then show "map (item_read codec) (kept_for t {} (kept st)) = map Ok (map q_item (sl_items (inner_slot t n)))"
    using zip_filter_snd [OF len r, of "\<lambda>x. stored_thread x = t"] by (simp add: kept_for_def xs)
  show "\<exists>item. item_read codec x = Ok item" if "x \<in> set (kept st)"
    using that r unfolding xs by (metis (no_types, lifting) image_iff list.set_map)
qed

lemma init_inv:
  assumes "tq_init ops kept codec s"
  shows "tq_inv kept codec s"
proof -
  from assms obtain settings now st n where a: "adapter_new ops codec settings now st = Ok n" "s = tq_start n"
    and d: "distinct (map (\<lambda>x. (stored_thread x, stored_id x)) (kept st))" by (auto simp: tq_init_def)
  note n = adapter_new_ok [OF a(1)]
  have ids: "distinct (map it_id (map q_item (sl_items (inner_slot t n))))" for t
  proof -
    have "map it_id (map q_item (sl_items (inner_slot t n))) = map stored_id (kept_for t {} (kept st))"
      using n(6) [of t] by (auto simp: list_eq_iff_nth_eq dest!: item_read_ok)
    moreover have "distinct (map stored_id (kept_for t {} (kept st)))"
      using d by (auto simp: kept_for_def distinct_map inj_on_def)
    ultimately show ?thesis by simp
  qed
  show ?thesis
  proof (rule tq_invI)
    show "slots_ordered (tq_inner s)" using n(3) by (simp add: a(2) tq_start_def)
    show "view_ok (in_numbers (tq_inner s)) (in_stopped (tq_inner s)) (view s t)" for t
      using n(2) n(4,5) [of t] ids [of t]
      by (simp add: a(2) tq_start_def view_def view_ok_def taken_ok_def worker_at_def run_ok_def ids_ok_def v_items_def)
    show "kept_ok codec t (kept (in_store (tq_inner s))) (view s t)" for t
      using n(1) n(6) [of t] by (simp add: a(2) tq_start_def view_def kept_ok_def open_items_def v_items_def)
    show "\<exists>item. item_read codec x = Ok item" if "x \<in> set (kept (in_store (tq_inner s)))" for x
      using that n(1) n(7) [of x] by (simp add: a(2) tq_start_def)
  qed
qed

lemma reach_inv:
  assumes "codec_ok codec" and "reach (tq_init ops kept codec) (tq_step ops codec) s"
  shows "tq_inv kept codec s"
  using assms(2) by (induction rule: reach.induct) (auto intro: init_inv step_inv [OF assms(1)])

end

end
