(* ===== verification/Thread_Queue_Correct.thy ===== *)
theory Thread_Queue_Correct
  imports Thread_Queue_System
begin

text \<open>
  What the thread queue promises to its callers: the order of delivery, what a restart finds, and
  what the answer of \<open>entry_stored\<close> means. Each follows from the invariant of the system and from a
  description of how one step changes the queue of a thread.
\<close>

section \<open>How a step changes the queue of a thread\<close>

inductive queue_change :: "TSlot \<Rightarrow> (Item \<times> EndedHow) list \<Rightarrow> TSlot \<Rightarrow> (Item \<times> EndedHow) list \<Rightarrow> bool" where
  change_none: "sl_items sl' = sl_items sl \<Longrightarrow> sl_dropped sl' = sl_dropped sl \<Longrightarrow> queue_change sl ended sl' ended"
| change_push: "queue_change sl ended (push_item item no now sl) ended"
| change_pop: "sl_items sl = q # qs \<Longrightarrow> queue_change sl ended (pop_item (q_item q) how sl) (ended @ [(q_item q, how)])"

lemma queue_change_refl [simp, intro]: "queue_change sl ended sl ended"
  by (rule change_none) simp_all

lemma attempt_head:
  assumes "tq_inv kept codec s" and "tq_worker s t = WkAttempt q"
  obtains qs where "sl_items (inner_slot t (tq_inner s)) = q # qs"
proof -
  have "worker_at (view s t)" using assms(1) by (simp add: tq_inv_def view_ok_def)
  with assms(2) have "sl_items (inner_slot t (tq_inner s)) \<noteq> []" "q = hd (sl_items (inner_slot t (tq_inner s)))"
    by (simp_all add: worker_at_def view_def)
  with that show ?thesis by (cases "sl_items (inner_slot t (tq_inner s))") simp_all
qed

lemma step_queue_change:
  assumes "tq_step ops codec s e s'" and "tq_inv kept codec s"
  shows "queue_change (inner_slot t (tq_inner s)) (h_ended s t) (inner_slot t (tq_inner s')) (h_ended s' t)"
proof -
  have so: "slots_ordered (tq_inner s)" using assms(2) by (simp add: tq_inv_def)
  from assms(1) show ?thesis
  proof (cases rule: tq_step.cases)
    case (tq_append t' item n)
    then show ?thesis by (auto simp: accept_append_def split: if_splits sum.splits prod.splits)
  next
    case (tq_append_err t' item e n)
    then show ?thesis by (auto simp: accept_append_def split: if_splits sum.splits prod.splits)
  next
    case (tq_enqueue t' item now spawn n)
    note c = enqueue_cases [OF tq_enqueue(5) so]
    show ?thesis using c(5) [of t] c(7) [OF tq_enqueue(4)] by (cases "t = t'") (auto simp: tq_enqueue(2) intro: change_push)
  next
    case (tq_enqueue_late t' item now spawn n)
    note c = enqueue_cases [OF tq_enqueue_late(5) so]
    show ?thesis using c(5) [of t] c(6) tq_enqueue_late(4) by (cases "t = t'") (auto simp: tq_enqueue_late(2))
  next
    case (tq_take_none t' n)
    from take_head_cases [OF tq_take_none(4) so] so show ?thesis
      by (auto simp: tq_take_none(2) intro: change_none)
  next
    case (tq_take_unsent t' q n)
    from take_head_cases [OF tq_take_unsent(4) so] so show ?thesis
      by (auto simp: tq_take_unsent(2) ended_step_def intro: change_pop)
  next
    case (tq_take_attempt t' q n)
    from take_head_cases [OF tq_take_attempt(4) so] show ?thesis by (simp add: tq_take_attempt(2))
  next
    case (tq_answer_again t' q r n)
    note c = attempted_cases [OF tq_answer_again(4) so]
    show ?thesis using c(5) [of t] c(6) by (cases "t = t'") (auto simp: tq_answer_again(2) intro: change_none)
  next
    case (tq_answer_end t' q r how n)
    note c = attempted_cases [OF tq_answer_end(4) so]
    obtain qs where "sl_items (inner_slot t' (tq_inner s)) = q # qs" using attempt_head [OF assms(2) tq_answer_end(3)] .
    then show ?thesis using c(5) [of t] c(7)
      by (cases "t = t'") (auto simp: tq_answer_end(2) ended_step_def intro: change_pop)
  next
    case (tq_remove t' q removed n)
    then show ?thesis by (auto simp: remove_item_def split: prod.splits sum.splits)
  next
    case tq_stop
    then show ?thesis by (simp add: adapter_drop_def inner_slot_def)
  next
    case (tq_abort t')
    then show ?thesis by simp
  qed
qed

section \<open>The answer for an entry\<close>

text \<open>How the last of the ended items that carried the entry ended.\<close>

definition entry_end :: "uuid \<Rightarrow> (Item \<times> EndedHow) list \<Rightarrow> EndedHow option" where
  "entry_end entry ended = (case filter (\<lambda>(item, _). entry \<in> set (it_entries item)) (rev ended) of [] \<Rightarrow> None | x # _ \<Rightarrow> Some (snd x))"

lemma entry_end_simps [simp]:
  "entry_end entry [] = None"
  "entry_end entry (ended @ [(item, how)]) = (if entry \<in> set (it_entries item) then Some how else entry_end entry ended)"
  by (simp_all add: entry_end_def)

definition entry_truthful :: "TSlot \<Rightarrow> (Item \<times> EndedHow) list \<Rightarrow> bool" where
  "entry_truthful sl ended \<longleftrightarrow>
     (\<forall>entry. entry_look entry sl = Some EntryStored \<longrightarrow> entry_end entry ended \<in> {None, Some EDelivered})"

lemma queue_change_truthful:
  assumes "queue_change sl ended sl' ended'" and "entry_truthful sl ended"
  shows "entry_truthful sl' ended'"
  using assms
proof (cases rule: queue_change.cases)
  case change_none
  then show ?thesis using assms(2) by (simp add: entry_truthful_def entry_look_def)
next
  case (change_push item no now)
  then show ?thesis using assms(2) by (auto simp: entry_truthful_def entry_look_def split: if_splits)
next
  case (change_pop q qs how)
  have "entry_end entry ended' \<in> {None, Some EDelivered}" if l: "entry_look entry sl' = Some EntryStored" for entry
  proof (cases "entry \<in> set (it_entries (q_item q))")
    case True
    with l have "how = EDelivered" by (auto simp: change_pop entry_look_def split: if_splits)
    with True show ?thesis by (simp add: change_pop)
  next
    case False
    with l have "entry_look entry sl = Some EntryStored" by (auto simp: change_pop(1,3) entry_look_def split: if_splits)
    with assms(2) False show ?thesis by (auto simp: entry_truthful_def change_pop)
  qed
  then show ?thesis by (simp add: entry_truthful_def)
qed

lemma worker_of_stuck:
  assumes "tq_inv kept codec s" and "tq_worker s t = WkRemove q"
  shows "it_id (q_item q) \<in> it_id ` fst ` set (h_ended s t)"
proof -
  have "worker_at (view s t)" using assms(1) by (simp add: tq_inv_def view_ok_def)
  with assms(2) have "h_ended s t \<noteq> []" "q_item q = fst (last (h_ended s t))" by (simp_all add: worker_at_def view_def)
  then show ?thesis by simp
qed

lemma queue_change_ended: "queue_change sl ended sl' ended' \<Longrightarrow> set ended \<subseteq> set ended'"
  by (cases rule: queue_change.cases) auto

lemma stuck_step:
  assumes "tq_step ops codec s e s'" and "tq_inv kept codec s" and "h_stuck s t \<subseteq> it_id ` fst ` set (h_ended s t)"
  shows "h_stuck s' t \<subseteq> it_id ` fst ` set (h_ended s' t)"
proof -
  have mono: "set (h_ended s t) \<subseteq> set (h_ended s' t)"
    using queue_change_ended [OF step_queue_change [OF assms(1,2)]] .
  have "h_stuck s' t = h_stuck s t \<or>
      (\<exists>q. tq_worker s t = WkRemove q \<and> h_stuck s' t = insert (it_id (q_item q)) (h_stuck s t))"
    using assms(1)
  proof (cases rule: tq_step.cases)
    case (tq_remove t' q removed n)
    then show ?thesis by (cases "t' = t") simp_all
  next
    case (tq_abort t')
    show ?thesis by (cases "t' = t"; cases "tq_worker s t'") (simp_all add: tq_abort(2))
  qed (simp_all add: ended_step_def)
  moreover have "it_id (q_item q) \<in> it_id ` fst ` set (h_ended s t)" if "tq_worker s t = WkRemove q" for q
    using worker_of_stuck [OF assms(2) that] .
  ultimately have "h_stuck s' t \<subseteq> it_id ` fst ` set (h_ended s t)" using assms(3) by (metis insert_subset)
  also have "\<dots> \<subseteq> it_id ` fst ` set (h_ended s' t)" by (intro image_mono mono)
  finally show ?thesis .
qed

context queue_store
begin

lemma reach_truthful:
  assumes "codec_ok codec" and "reach (tq_init ops kept codec) (tq_step ops codec) s"
  shows "entry_truthful (inner_slot t (tq_inner s)) (h_ended s t) \<and> h_stuck s t \<subseteq> it_id ` fst ` set (h_ended s t)"
  using assms(2)
proof (induction rule: reach.induct)
  case (reach_init s)
  then show ?case by (auto simp: tq_init_def tq_start_def entry_truthful_def)
next
  case (reach_step s e s')
  note inv = reach_inv [OF assms(1) reach_step.hyps(1)]
  show ?case using queue_change_truthful [OF step_queue_change [OF reach_step.hyps(2) inv]]
      stuck_step [OF reach_step.hyps(2) inv] reach_step.IH by blast
qed

end

section \<open>What a restart finds\<close>

context queue_store
begin

lemma restart_finds:
  assumes "codec_ok codec" and "reach (tq_init ops kept codec) (tq_step ops codec) s"
    and "adapter_new ops codec settings now (in_store (tq_inner s)) = Ok n"
  shows "filter (\<lambda>item. it_id item \<notin> h_stuck s t) (map q_item (sl_items (inner_slot t n))) = open_items (view s t)"
proof -
  let ?xs = "kept (in_store (tq_inner s))" and ?new = "map q_item (sl_items (inner_slot t n))"
  have "kept_ok codec t ?xs (view s t)" using reach_inv [OF assms(1,2)] by (simp add: tq_inv_def)
  then have old: "map (item_read codec) (kept_for t (h_stuck s t) ?xs) = map Ok (open_items (view s t))"
    by (simp add: kept_ok_def view_def)
  have new: "map (item_read codec) (kept_for t {} ?xs) = map Ok ?new" using adapter_new_ok(6) [OF assms(3)] .
  have "map (item_read codec) (filter (\<lambda>x. stored_id x \<notin> A) xs) = map Ok (filter (\<lambda>item. it_id item \<notin> A) ys)"
    if "map (item_read codec) xs = map Ok ys" for A xs ys
    using that by (induction xs arbitrary: ys) (auto simp: Cons_eq_map_conv, auto dest: item_read_ok)
  from this [OF new, of "h_stuck s t"]
  have "map (item_read codec) (kept_for t (h_stuck s t) ?xs) = map Ok (filter (\<lambda>item. it_id item \<notin> h_stuck s t) ?new)"
    by (simp add: kept_for_def conj_commute)
  with old have "map Ok (open_items (view s t)) = map (Ok :: Item \<Rightarrow> (Item, TError) result) (filter (\<lambda>item. it_id item \<notin> h_stuck s t) ?new)"
    by simp
  then show ?thesis by (simp add: inj_map_eq_map inj_def)
qed

lemma read_all_total: "(\<And>x. x \<in> set xs \<Longrightarrow> \<exists>item. item_read codec x = Ok item) \<Longrightarrow> \<exists>items. read_all codec xs = Ok items"
proof (induction xs)
  case (Cons x xs)
  then obtain item items where "item_read codec x = Ok item" "read_all codec xs = Ok items" by fastforce
  then show ?case by simp
qed simp

lemma restart_works:
  assumes "codec_ok codec" and "reach (tq_init ops kept codec) (tq_step ops codec) s"
    and "store_list ops (in_store (tq_inner s)) = Ok xs" and "check_settings settings = Ok ()"
  shows "\<exists>n. adapter_new ops codec settings now (in_store (tq_inner s)) = Ok n"
proof -
  have "\<exists>items. read_all codec xs = Ok items"
    using reach_inv [OF assms(1,2)] list_ok [OF assms(3)] by (intro read_all_total) (simp add: tq_inv_def)
  then show ?thesis using assms(3,4) by (auto simp: adapter_new_def)
qed

end

section \<open>An example run\<close>

text \<open>
  Two kept items of the thread 7: the message 20, whole, with the entry 30, and a chunk of message
  21 with the entry 31. The codec writes these two only.
\<close>

definition demo_whole :: Item where
  "demo_whole = \<lparr>it_id = 11, it_thread = 7, it_agent = 5, it_message = 20, it_entries = [30], it_kind = KWholeMessage,
     it_payload = PCommand (StoreBody \<lparr>st_parts = \<lparr>part_thread_id = 7, part_message_id = 20,
       part_parent_message_id = None, part_job_id = None, part_acting_user_id = None, part_impersonator_id = None\<rparr>,
       st_turn = \<lparr>ai_agent_id = 5, ai_author_name = ''agent'', ai_delivery = DeliverCompleted ''turn'' []\<rparr>\<rparr>)\<rparr>"

definition demo_chunk :: Item where
  "demo_chunk = \<lparr>it_id = 12, it_thread = 7, it_agent = 5, it_message = 21, it_entries = [31], it_kind = KChunk,
     it_payload = PChunk 0 (EntryChunk ''entry'')\<rparr>"

definition demo_codec :: Codec where
  "demo_codec = \<lparr>codec_v7 = (\<lambda>_. True),
     codec_write = (\<lambda>item. if item = demo_whole then Ok ''w'' else if item = demo_chunk then Ok ''c'' else Err ''no''),
     codec_read = (\<lambda>b. if b = ''w'' then Ok demo_whole else if b = ''c'' then Ok demo_chunk else Err ''no'')\<rparr>"

definition demo_store :: "StoredItem list" where
  "demo_store = [\<lparr>stored_thread = 7, stored_id = 11, stored_bytes = ''w''\<rparr>,
     \<lparr>stored_thread = 7, stored_id = 12, stored_bytes = ''c''\<rparr>]"

definition demo_settings :: ThreadSettings where
  "demo_settings = \<lparr>set_outcome_wait = 10, set_retry_wait = 10, set_keepalive_interval = 10\<rparr>"

definition demo_loaded :: "StoredItem list Inner" where
  "demo_loaded = (case adapter_new memory_ops demo_codec demo_settings 0 demo_store of Inr n \<Rightarrow> n | Inl _ \<Rightarrow> inner_new [])"

definition demo_started :: "StoredItem list TqSys" where
  "demo_started = tq_start demo_loaded"

text \<open>The message was delivered, its removal from the store comes next.\<close>

definition demo_delivered :: "StoredItem list TqSys" where
  "demo_delivered =
     (let s = demo_started\<lparr>tq_worker := (tq_worker demo_started)(7 := WkAttempt \<lparr>q_item = demo_whole, q_no = 1, q_accepted_at = 0\<rparr>),
                h_tried := (h_tried demo_started)(7 := [demo_whole])\<rparr>
      in ended_step 7 \<lparr>q_item = demo_whole, q_no = 1, q_accepted_at = 0\<rparr> EDelivered
           (end_item 7 demo_whole EDelivered demo_loaded) s)"

lemma demo_codec_ok: "codec_ok demo_codec"
  by (auto simp: codec_ok_def demo_codec_def split: if_splits)

lemma demo_loaded_eq: "demo_loaded =
    \<lparr>in_store = demo_store,
     in_slots = [(7, \<lparr>sl_items = [\<lparr>q_item = demo_whole, q_no = 1, q_accepted_at = 0\<rparr>, \<lparr>q_item = demo_chunk, q_no = 2, q_accepted_at = 0\<rparr>],
       sl_last_failure = None, sl_dropped = {}, sl_worker_running = True, sl_last_no = 2, sl_version = 2\<rparr>)],
     in_numbers = 2, in_refused = {}, in_broken = {}, in_stopped = False, in_reports = []\<rparr>"
  by code_simp

lemma demo_new: "adapter_new memory_ops demo_codec demo_settings 0 demo_store = Ok demo_loaded"
  by (simp only: demo_loaded_eq) code_simp

lemma demo_reach_started: "reach (tq_init memory_ops (\<lambda>items. items) demo_codec) (tq_step memory_ops demo_codec) demo_started"
proof (rule reach_init)
  have "distinct (map (\<lambda>x. (stored_thread x, stored_id x)) demo_store)" by (simp add: demo_store_def)
  with demo_new show "tq_init memory_ops (\<lambda>items. items) demo_codec demo_started"
    unfolding tq_init_def demo_started_def by blast
qed

lemma demo_reach: "reach (tq_init memory_ops (\<lambda>items. items) demo_codec) (tq_step memory_ops demo_codec) demo_delivered"
proof -
  let ?q = "\<lparr>q_item = demo_whole, q_no = 1, q_accepted_at = 0\<rparr>"
  let ?s = "demo_started\<lparr>tq_inner := demo_loaded, tq_worker := (tq_worker demo_started)(7 := WkAttempt ?q),
    h_tried := (h_tried demo_started)(7 := h_tried demo_started 7 @ [q_item ?q])\<rparr>"
  have w: "tq_worker demo_started 7 = WkLoop" "tq_inner demo_started = demo_loaded"
    by (simp_all add: demo_started_def tq_start_def demo_loaded_eq inner_slot_def)
  have "take_head_of 7 demo_loaded = (HeadAttempt ?q, demo_loaded)"
    by (simp add: take_head_of_def demo_loaded_eq inner_slot_def message_refused_def)
  then have "tq_step memory_ops demo_codec demo_started (TTake 7) ?s" using w by (intro tq_take_attempt) simp_all
  with demo_reach_started have r: "reach (tq_init memory_ops (\<lambda>items. items) demo_codec) (tq_step memory_ops demo_codec) ?s"
    by (rule reach_step)
  have "attempted 7 (q_item ?q) (Ok (Some MCompleted)) (tq_inner ?s) =
      (Some EDelivered, end_item 7 demo_whole EDelivered demo_loaded)"
    by (simp add: attempted_def)
  then have "tq_step memory_ops demo_codec ?s (TAnswer 7 (Ok (Some MCompleted)))
      (ended_step 7 ?q EDelivered (end_item 7 demo_whole EDelivered demo_loaded) ?s)"
    by (intro tq_answer_end) simp_all
  with r have "reach (tq_init memory_ops (\<lambda>items. items) demo_codec) (tq_step memory_ops demo_codec)
      (ended_step 7 ?q EDelivered (end_item 7 demo_whole EDelivered demo_loaded) ?s)" by (rule reach_step)
  then show ?thesis
    by (simp add: demo_delivered_def Let_def ended_step_def demo_started_def tq_start_def)
qed

section \<open>Properties\<close>

text \<open>
  C2: the queue of a thread is first in, first out and loses nothing while the adapter lives. For
  any store and in every reachable state: what was taken into the queue, in order, is what has
  ended, in order, followed by what waits; no item is taken twice; an item is attempted only while
  it is the head; a caller of \<open>drained\<close> whose look says done has no item up to its number left;
  and a queue that is not empty has its delivery task, unless the adapter was dropped.
\<close>

theorem thread_queue_fifo:
  assumes "queue_store ops kept" and "codec_ok codec" and "reach (tq_init ops kept codec) (tq_step ops codec) s"
  shows "h_taken s t = map fst (h_ended s t) @ map q_item (sl_items (inner_slot t (tq_inner s))) \<and>
    distinct (map it_id (h_taken s t)) \<and>
    (\<forall>q. tq_worker s t = WkAttempt q \<longrightarrow> (\<exists>qs. sl_items (inner_slot t (tq_inner s)) = q # qs)) \<and>
    (\<forall>target. past_look target (inner_slot t (tq_inner s)) \<longrightarrow>
       (\<forall>q \<in> set (sl_items (inner_slot t (tq_inner s))). target < q_no q)) \<and>
    (\<not> in_stopped (tq_inner s) \<longrightarrow> sl_items (inner_slot t (tq_inner s)) \<noteq> [] \<longrightarrow> tq_worker s t \<noteq> WkNone)"
proof -
  note inv = queue_store.reach_inv [OF assms]
  let ?sl = "inner_slot t (tq_inner s)"
  have ok: "view_ok (in_numbers (tq_inner s)) (in_stopped (tq_inner s)) (view s t)" using inv by (simp add: tq_inv_def)
  have "sorted_wrt (<) (map q_no (sl_items ?sl))" using ok by (simp add: view_ok_def nos_ok_def view_def)
  then have past: "past_look target ?sl \<Longrightarrow> q \<in> set (sl_items ?sl) \<Longrightarrow> target < q_no q" for target q
    by (cases "sl_items ?sl") (auto simp: past_look_def)
  have "distinct (map it_id (h_taken s t))" using ok by (simp add: view_ok_def ids_ok_def view_def)
  moreover have "h_taken s t = map fst (h_ended s t) @ map q_item (sl_items ?sl)"
    using ok by (simp add: view_ok_def taken_ok_def view_def v_items_def)
  moreover have "\<not> in_stopped (tq_inner s) \<longrightarrow> sl_items ?sl \<noteq> [] \<longrightarrow> tq_worker s t \<noteq> WkNone"
    using ok by (simp add: view_ok_def run_ok_def view_def v_items_def)
  ultimately show ?thesis using past attempt_head [OF inv] by blast
qed

lemma demo_ended: "h_ended demo_delivered 7 = [(demo_whole, EDelivered)]" "h_stuck demo_delivered = (\<lambda>_. {})"
  "tq_accepting demo_delivered = (\<lambda>_. None)" "h_left demo_delivered = (\<lambda>_. [])"
  by (simp_all add: demo_delivered_def Let_def ended_step_def demo_started_def tq_start_def)

lemma demo_queue: "map q_item (sl_items (inner_slot 7 (tq_inner demo_delivered))) = [demo_chunk]"
  "removing (tq_worker demo_delivered 7) = [demo_whole]"
  by (simp_all add: demo_delivered_def Let_def ended_step_def end_item_def demo_loaded_eq inner_slot_def set_slot_def
      pop_item_def slot_bump_def)

theorem thread_queue_fifo_witness:
  "h_taken demo_delivered 7 = [demo_whole, demo_chunk] \<and> distinct (map it_id (h_taken demo_delivered 7))"
proof -
  note fifo = thread_queue_fifo [OF memory.queue_store_axioms demo_codec_ok demo_reach, of 7]
  from fifo have "h_taken demo_delivered 7 = [demo_whole, demo_chunk]" by (simp add: demo_queue demo_ended)
  moreover from fifo have "distinct (map it_id (h_taken demo_delivered 7))" by (elim conjE)
  ultimately show ?thesis by (rule conjI)
qed

text \<open>
  C22: a restart loses nothing and keeps the order. Whenever the adapter is dropped or the process
  stops, a new adapter on the same store is made if the store can be listed and the settings hold,
  and for every thread it queues, in the same order, exactly the item whose removal was under way,
  the items that waited, the item that was being accepted and the item that came too late for a
  stopped adapter; besides these it queues only items that had ended and whose removal from the
  store had failed.
\<close>

theorem thread_queue_restart:
  assumes "queue_store ops kept" and "codec_ok codec" and "reach (tq_init ops kept codec) (tq_step ops codec) s"
    and "store_list ops (in_store (tq_inner s)) = Ok xs" and "check_settings settings = Ok ()"
  shows "\<exists>n. adapter_new ops codec settings now (in_store (tq_inner s)) = Ok n \<and>
    (\<forall>t. filter (\<lambda>item. it_id item \<notin> h_stuck s t) (map q_item (sl_items (inner_slot t n))) =
         removing (tq_worker s t) @ map q_item (sl_items (inner_slot t (tq_inner s))) @
           optlist (tq_accepting s t) @ h_left s t) \<and>
    (\<forall>t. h_stuck s t \<subseteq> it_id ` fst ` set (h_ended s t))"
proof -
  obtain n where n: "adapter_new ops codec settings now (in_store (tq_inner s)) = Ok n"
    using queue_store.restart_works [OF assms] by blast
  have "filter (\<lambda>item. it_id item \<notin> h_stuck s t) (map q_item (sl_items (inner_slot t n))) =
      removing (tq_worker s t) @ map q_item (sl_items (inner_slot t (tq_inner s))) @ optlist (tq_accepting s t) @ h_left s t" for t
    using queue_store.restart_finds [OF assms(1,2,3) n, of t] by (simp only: open_items_def v_items_def view_def ThreadView.simps)
  with n queue_store.reach_truthful [OF assms(1,2,3)] show ?thesis by blast
qed

theorem thread_queue_restart_witness:
  "\<exists>n. adapter_new memory_ops demo_codec demo_settings 1 (in_store (tq_inner demo_delivered)) = Ok n \<and>
     map q_item (sl_items (inner_slot 7 n)) = [demo_whole, demo_chunk]"
proof -
  have "store_list memory_ops (in_store (tq_inner demo_delivered)) = Ok (in_store (tq_inner demo_delivered))"
    by (simp add: memory_ops_def memory_list_def)
  moreover have "check_settings demo_settings = Ok ()" by code_simp
  ultimately obtain n where n: "adapter_new memory_ops demo_codec demo_settings 1 (in_store (tq_inner demo_delivered)) = Ok n"
    and f: "\<forall>t. filter (\<lambda>item. it_id item \<notin> h_stuck demo_delivered t) (map q_item (sl_items (inner_slot t n))) =
         removing (tq_worker demo_delivered t) @ map q_item (sl_items (inner_slot t (tq_inner demo_delivered))) @
           optlist (tq_accepting demo_delivered t) @ h_left demo_delivered t"
    by (rule exE [OF thread_queue_restart [OF memory.queue_store_axioms demo_codec_ok demo_reach, where now = 1]])
      (elim conjE, rule that)
  from f [rule_format, of 7] have "map q_item (sl_items (inner_slot 7 n)) = [demo_whole, demo_chunk]"
    by (simp add: demo_ended demo_queue)
  with n show ?thesis by (intro exI conjI)
qed

text \<open>
  \<open>entry_stored\<close> does not claim too much. When its look says that an entry is stored, the last
  item that carried the entry into the queue of this adapter was delivered, or no item carried it.
\<close>

theorem entry_stored_truthful:
  assumes "queue_store ops kept" and "codec_ok codec" and "reach (tq_init ops kept codec) (tq_step ops codec) s"
    and "entry_stored_look t entry (tq_inner s) = Some EntryStored"
  shows "entry_end entry (h_ended s t) \<in> {None, Some EDelivered}"
proof -
  have "entry_look entry (inner_slot t (tq_inner s)) = Some EntryStored"
    using assms(4) by (simp add: entry_stored_look_def inner_slot_def entry_look_def split: option.splits if_splits)
  with queue_store.reach_truthful [OF assms(1,2,3)] show ?thesis unfolding entry_truthful_def by blast
qed

theorem entry_stored_truthful_witness:
  "entry_stored_look 7 30 (tq_inner demo_delivered) = Some EntryStored \<and>
   entry_end 30 (h_ended demo_delivered 7) \<in> {None, Some EDelivered}"
proof
  show look: "entry_stored_look 7 30 (tq_inner demo_delivered) = Some EntryStored"
    by (simp add: demo_delivered_def Let_def ended_step_def end_item_def demo_loaded_eq inner_slot_def set_slot_def
        pop_item_def slot_bump_def entry_stored_look_def entry_look_def demo_chunk_def)
  show "entry_end 30 (h_ended demo_delivered 7) \<in> {None, Some EDelivered}"
    by (rule entry_stored_truthful [OF memory.queue_store_axioms demo_codec_ok demo_reach look])
qed

end
