(* ===== verification/Thread_Response.thy ===== *)
theory Thread_Response
  imports Threads_Model
begin

text \<open>
  The streamed model response of \<open>br-runner-threads\<close> (\<open>response/mod.rs\<close>, \<open>sink.rs\<close>, \<open>control.rs\<close> and
  \<open>whole.rs\<close>): the sink that sends deltas one at a time, the control that completes, discards or ends
  the response, and the deltas that a whole response still needs. A delta goes out on a lane
  (\<open>DeltaLane\<close>), the argument \<open>send\<close> on a state of the lane. The draft of a response belongs to the
  message library and is behind the record \<open>DraftLib\<close>; an application of a delta gives its answer and
  the draft after it.
\<close>

section \<open>Values of the message library\<close>

record Block =
  block_id :: uuid
  block_body :: string

record Metadata =
  md_usage :: "string option"
  md_model :: "string option"
  md_provider_id :: "string option"

record ModelResponse =
  resp_id :: uuid
  resp_metadata :: Metadata
  resp_blocks :: "Block list"
  resp_ending :: string

datatype DeltaOp =
    ResponseStarted Metadata
  | BlockInserted Block
  | ResponseMetadataUpdated Metadata
  | BlockFinalized uuid Block
  | ResponseCompleted string
  | ResponseInterrupted
  | OtherDelta string

datatype SlotLifecycle = SlotOpen | SlotFinal

record 'dr DraftLib =
  dl_new :: "uuid \<Rightarrow> uuid \<Rightarrow> 'dr"
  dl_turn :: "'dr \<Rightarrow> uuid"
  dl_entry :: "'dr \<Rightarrow> uuid"
  dl_apply :: "DeltaOp ResponseDelta \<Rightarrow> 'dr \<Rightarrow> (unit, string) result \<times> 'dr"
  dl_slots :: "'dr \<Rightarrow> (uuid \<times> SlotLifecycle) list"
  dl_unstarted :: "'dr \<Rightarrow> bool"
  dl_metadata :: "'dr \<Rightarrow> Metadata"
  dl_response :: "'dr \<Rightarrow> ModelResponse option"

section \<open>The deltas of a whole response\<close>

definition unreachable_response :: TError where
  "unreachable_response =
     TInvalidInput ''the whole response cannot be reached by more deltas from what was sent''"

text \<open>A value that the response has and the draft does not have yet.\<close>

definition newer :: "string option \<Rightarrow> string option \<Rightarrow> string option" where
  "newer value held = (if value \<noteq> None \<and> value \<noteq> held then value else None)"

definition metadata_update :: "Metadata \<Rightarrow> Metadata \<Rightarrow> Metadata option" where
  "metadata_update held m =
     (let update = \<lparr>md_usage = newer (md_usage m) (md_usage held), md_model = newer (md_model m) (md_model held),
                    md_provider_id = newer (md_provider_id m) (md_provider_id held)\<rparr>
      in if md_usage update = None \<and> md_model update = None \<and> md_provider_id update = None then None else Some update)"

definition wrap_delta :: "'dr DraftLib \<Rightarrow> 'dr \<Rightarrow> DeltaOp \<Rightarrow> DeltaOp ResponseDelta" where
  "wrap_delta lib draft op = \<lparr>delta_turn = dl_turn lib draft, delta_entry = dl_entry lib draft, delta_body = op\<rparr>"

fun finalizations :: "(uuid \<times> SlotLifecycle) list \<Rightarrow> Block list \<Rightarrow> (DeltaOp list, TError) result" where
  "finalizations ((slot, lifecycle) # slots) (block # blocks) =
     (if slot \<noteq> block_id block then Err unreachable_response
      else
        (case finalizations slots blocks of
           Inl e \<Rightarrow> Err e
         | Inr ops \<Rightarrow> Ok (if lifecycle = SlotOpen then BlockFinalized (block_id block) block # ops else ops)))"
| "finalizations _ _ = Ok []"

definition whole_ops :: "'dr DraftLib \<Rightarrow> 'dr \<Rightarrow> ModelResponse \<Rightarrow> (DeltaOp list, TError) result" where
  "whole_ops lib draft response =
     (let slots = dl_slots lib draft; blocks = resp_blocks response
      in if slots = [] \<and> dl_unstarted lib draft then
           Ok (ResponseStarted (resp_metadata response) # map BlockInserted blocks @ [ResponseCompleted (resp_ending response)])
         else if length slots > length blocks then Err unreachable_response
         else
           (case finalizations slots blocks of
              Inl e \<Rightarrow> Err e
            | Inr ops \<Rightarrow>
                Ok ((case metadata_update (dl_metadata lib draft) (resp_metadata response) of
                       Some update \<Rightarrow> [ResponseMetadataUpdated update] | None \<Rightarrow> []) @
                    ops @ map BlockInserted (drop (length slots) blocks) @ [ResponseCompleted (resp_ending response)])))"

fun fold_deltas :: "'dr DraftLib \<Rightarrow> DeltaOp ResponseDelta list \<Rightarrow> 'dr \<Rightarrow> 'dr option" where
  "fold_deltas lib [] draft = Some draft"
| "fold_deltas lib (d # ds) draft =
     (case dl_apply lib d draft of (Inr _, draft') \<Rightarrow> fold_deltas lib ds draft' | (Inl _, _) \<Rightarrow> None)"

definition whole_response_deltas :: "'dr DraftLib \<Rightarrow> 'dr \<Rightarrow> ModelResponse \<Rightarrow> (DeltaOp ResponseDelta list, TError) result" where
  "whole_response_deltas lib draft response =
     (case whole_ops lib draft response of
        Inl e \<Rightarrow> Err e
      | Inr ops \<Rightarrow>
          (let deltas = map (wrap_delta lib draft) ops
           in case fold_deltas lib deltas draft of
                None \<Rightarrow> Err unreachable_response
              | Some folded \<Rightarrow> if dl_response lib folded \<noteq> Some response then Err unreachable_response else Ok deltas))"

section \<open>The sink and the control\<close>

record 'dr Response =
  r_draft :: 'dr
  r_sent :: bool
  r_done :: bool
  r_failure :: "TError option"

definition response_pair :: "'dr DraftLib \<Rightarrow> uuid \<Rightarrow> uuid \<Rightarrow> 'dr Response" where
  "response_pair lib turn entry = \<lparr>r_draft = dl_new lib turn entry, r_sent = False, r_done = False, r_failure = None\<rparr>"

definition keep_error :: "TError \<Rightarrow> 'dr Response \<Rightarrow> 'dr Response" where
  "keep_error e r = (if r_failure r = None then r\<lparr>r_failure := Some e\<rparr> else r)"

type_synonym 'ln Send = "DeltaOp ResponseDelta \<Rightarrow> 'ln \<Rightarrow> (unit, TError) result \<times> 'ln"

definition is_completed :: "DeltaOp \<Rightarrow> bool" where
  "is_completed op = (case op of ResponseCompleted _ \<Rightarrow> True | _ \<Rightarrow> False)"

text \<open>\<open>ResponseSink::send\<close> once it has its place on the thread.\<close>

definition response_deliver :: "'dr DraftLib \<Rightarrow> 'ln Send \<Rightarrow> DeltaOp ResponseDelta \<Rightarrow> 'dr Response \<times> 'ln \<Rightarrow> 'dr Response \<times> 'ln" where
  "response_deliver lib send delta s =
     (case s of (r, ln) \<Rightarrow>
        if r_done r \<or> r_failure r \<noteq> None then (r, ln)
        else if is_completed (delta_body delta) then
          (case dl_apply lib delta (r_draft r) of
             (Inl code, _) \<Rightarrow> (keep_error (TInvalidInput code) r, ln)
           | (Inr _, _) \<Rightarrow> (r, ln))
        else
          (case dl_apply lib delta (r_draft r) of
             (Inl code, draft) \<Rightarrow> (keep_error (TInvalidInput code) (r\<lparr>r_draft := draft\<rparr>), ln)
           | (Inr _, draft) \<Rightarrow>
               (case send delta ln of
                  (Inr _, ln') \<Rightarrow> (r\<lparr>r_draft := draft, r_sent := True\<rparr>, ln')
                | (Inl e, ln') \<Rightarrow> (keep_error e (r\<lparr>r_draft := draft\<rparr>), ln'))))"

fun stops_completion :: "TError \<Rightarrow> bool" where
  "stops_completion StreamBroken = True"
| "stops_completion StreamClosed = True"
| "stops_completion (TStore _) = True"
| "stops_completion _ = False"

definition failure_stops :: "'dr Response \<Rightarrow> bool" where
  "failure_stops r = (case r_failure r of Some e \<Rightarrow> stops_completion e | None \<Rightarrow> False)"

fun complete_deltas :: "'dr DraftLib \<Rightarrow> 'ln Send \<Rightarrow> DeltaOp ResponseDelta list \<Rightarrow> 'dr Response \<times> 'ln \<Rightarrow> (unit, TError) result \<times> 'dr Response \<times> 'ln" where
  "complete_deltas lib send [] (r, ln) = (Ok (), r\<lparr>r_done := True\<rparr>, ln)"
| "complete_deltas lib send (d # ds) (r, ln) =
     (case send d ln of
        (Inr _, ln') \<Rightarrow>
          (case dl_apply lib d (r_draft r) of
             (Inr _, draft) \<Rightarrow> complete_deltas lib send ds (r\<lparr>r_sent := True, r_draft := draft\<rparr>, ln')
           | (Inl code, draft) \<Rightarrow> (Err (TInvalidInput code), r\<lparr>r_sent := True, r_draft := draft\<rparr>, ln'))
      | (Inl e, ln') \<Rightarrow> (Err e, keep_error e r, ln'))"

definition response_complete :: "'dr DraftLib \<Rightarrow> 'ln Send \<Rightarrow> ModelResponse \<Rightarrow> 'dr Response \<times> 'ln \<Rightarrow> (unit, TError) result \<times> 'dr Response \<times> 'ln" where
  "response_complete lib send response s =
     (case s of (r, ln) \<Rightarrow>
        if r_done r then (Err (TInvalidInput ''the response is already completed or discarded''), r, ln)
        else if failure_stops r then (Err (the (r_failure r)), r, ln)
        else
          (case whole_response_deltas lib (r_draft r) response of
             Inl e \<Rightarrow> (Err e, r, ln)
           | Inr deltas \<Rightarrow> complete_deltas lib send deltas (r, ln)))"

definition response_discard :: "'dr DraftLib \<Rightarrow> 'ln Send \<Rightarrow> 'dr Response \<times> 'ln \<Rightarrow> (unit, TError) result \<times> 'dr Response \<times> 'ln" where
  "response_discard lib send s =
     (case s of (r, ln) \<Rightarrow>
        if r_done r \<or> \<not> r_sent r then (Ok (), r, ln)
        else if r_failure r = Some StreamBroken \<or> r_failure r = Some StreamClosed then (Ok (), r, ln)
        else
          (case send (wrap_delta lib (r_draft r) ResponseInterrupted) ln of
             (Inr _, ln') \<Rightarrow> (Ok (), r\<lparr>r_done := True\<rparr>, ln')
           | (Inl e, ln') \<Rightarrow>
               if e = StreamClosed then (Ok (), keep_error StreamClosed r, ln')
               else (Err e, keep_error e r, ln')))"

definition response_end :: "'dr Response \<Rightarrow> 'dr Response" where
  "response_end r = r\<lparr>r_done := True\<rparr>"

text \<open>The lane moves only by what it is asked to send.\<close>

lemma deliver_moves:
  assumes "\<And>d ln x ln'. send d ln = (x, ln') \<Longrightarrow> R ln ln'" and "reflp R" and "response_deliver lib send d (r, ln) = (r', ln')"
  shows "R ln ln'"
  using assms(3) reflpD [OF assms(2)]
  by (auto simp: response_deliver_def split: if_splits prod.splits sum.splits intro: assms(1))

lemma complete_deltas_moves:
  assumes "\<And>d ln x ln'. send d ln = (x, ln') \<Longrightarrow> R ln ln'" and "reflp R" and "transp R"
    and "complete_deltas lib send ds (r, ln) = (x, r', ln')"
  shows "R ln ln'"
  using assms(4)
proof (induction ds arbitrary: r ln)
  case Nil
  then show ?case using reflpD [OF assms(2)] by simp
next
  case (Cons d ds)
  obtain b ln2 where b: "send d ln = (b, ln2)" by (cases "send d ln")
  then have "R ln ln2" by (rule assms(1))
  with Cons b transpD [OF assms(3)] show ?case by (auto split: sum.splits prod.splits)
qed

lemma complete_moves:
  assumes "\<And>d ln x ln'. send d ln = (x, ln') \<Longrightarrow> R ln ln'" and "reflp R" and "transp R"
    and "response_complete lib send response (r, ln) = (x, r', ln')"
  shows "R ln ln'"
  using assms(4) reflpD [OF assms(2)] complete_deltas_moves [of send R, OF assms(1) assms(2,3)]
  by (auto simp: response_complete_def split: if_splits sum.splits)

lemma discard_moves:
  assumes "\<And>d ln x ln'. send d ln = (x, ln') \<Longrightarrow> R ln ln'" and "reflp R"
    and "response_discard lib send (r, ln) = (x, r', ln')"
  shows "R ln ln'"
  using assms(3) reflpD [OF assms(2)]
  by (auto simp: response_discard_def split: if_splits prod.splits sum.splits intro: assms(1))

section \<open>The lane's contract\<close>

text \<open>
  \<open>sent\<close> are the deltas of the response that the lane took: a delta is taken when the answer is a
  success, and a delta of the lane's turn fails only with an error that stops a completion, or because
  the lane is full, and then it takes nothing any more.
\<close>

locale delta_lane =
  fixes send :: "'ln Send"
    and sent :: "'ln \<Rightarrow> DeltaOp ResponseDelta list"
    and full :: "'ln \<Rightarrow> bool"
    and turn :: uuid
  assumes send_ok: "send d ln = (Ok (), ln') \<Longrightarrow> sent ln' = sent ln @ [d]"
    and send_err: "send d ln = (Err e, ln') \<Longrightarrow> sent ln' = sent ln"
    and send_err_kind: "send d ln = (Err e, ln') \<Longrightarrow> delta_turn d = turn \<Longrightarrow> stops_completion e \<or> full ln'"
    and full_stays: "full ln \<Longrightarrow> \<exists>e ln'. send d ln = (Err e, ln') \<and> full ln'"

text \<open>
  What the crate relies on of the draft: a delta that is refused leaves the draft as it was, and a
  draft takes the deltas of its own turn only.
\<close>

definition draft_ok :: "'dr DraftLib \<Rightarrow> bool" where
  "draft_ok lib \<longleftrightarrow>
     (\<forall>d dr code dr'. dl_apply lib d dr = (Err code, dr') \<longrightarrow> dr' = dr) \<and>
     (\<forall>d dr dr'. dl_apply lib d dr = (Ok (), dr') \<longrightarrow> delta_turn d = dl_turn lib dr \<and> dl_turn lib dr' = dl_turn lib dr) \<and>
     (\<forall>turn entry. dl_turn lib (dl_new lib turn entry) = turn)"

lemma draft_okD:
  assumes "draft_ok lib"
  shows "dl_apply lib d dr = (Err code, dr') \<Longrightarrow> dr' = dr"
    and "dl_apply lib d dr = (Ok (), dr') \<Longrightarrow> delta_turn d = dl_turn lib dr"
    and "dl_apply lib d dr = (Ok (), dr') \<Longrightarrow> dl_turn lib dr' = dl_turn lib dr"
    and "dl_turn lib (dl_new lib turn entry) = turn"
  using assms unfolding draft_ok_def by blast+

section \<open>The response as a system\<close>

record ('dr, 'ln) RSys =
  rs_resp :: "'dr Response"
  rs_lane :: 'ln
  rs_completed :: "ModelResponse option"

datatype 'ln RespEvent = RSend "DeltaOp ResponseDelta" | RComplete ModelResponse | RDiscard | REnd | RLane 'ln

inductive resp_step :: "'dr DraftLib \<Rightarrow> 'ln Send \<Rightarrow> ('ln \<Rightarrow> DeltaOp ResponseDelta list) \<Rightarrow> ('ln \<Rightarrow> bool) \<Rightarrow> ('dr, 'ln) RSys \<Rightarrow> 'ln RespEvent \<Rightarrow> ('dr, 'ln) RSys \<Rightarrow> bool"
  for lib send sent full where
  resp_send: "response_deliver lib send d (rs_resp s, rs_lane s) = (r, ln) \<Longrightarrow>
    resp_step lib send sent full s (RSend d) (s\<lparr>rs_resp := r, rs_lane := ln\<rparr>)"
| resp_complete: "response_complete lib send response (rs_resp s, rs_lane s) = (x, r, ln) \<Longrightarrow>
    resp_step lib send sent full s (RComplete response)
      (s\<lparr>rs_resp := r, rs_lane := ln, rs_completed := (if x = Ok () then Some response else rs_completed s)\<rparr>)"
| resp_discard: "response_discard lib send (rs_resp s, rs_lane s) = (x, r, ln) \<Longrightarrow>
    resp_step lib send sent full s RDiscard (s\<lparr>rs_resp := r, rs_lane := ln\<rparr>)"
| resp_end: "resp_step lib send sent full s REnd (s\<lparr>rs_resp := response_end (rs_resp s)\<rparr>)"
| resp_lane: "sent ln = sent (rs_lane s) \<Longrightarrow> (full (rs_lane s) \<Longrightarrow> full ln) \<Longrightarrow> resp_step lib send sent full s (RLane ln) (s\<lparr>rs_lane := ln\<rparr>)"

definition resp_init :: "'dr DraftLib \<Rightarrow> ('ln \<Rightarrow> DeltaOp ResponseDelta list) \<Rightarrow> uuid \<Rightarrow> uuid \<Rightarrow> ('dr, 'ln) RSys \<Rightarrow> bool" where
  "resp_init lib sent turn entry s \<longleftrightarrow>
     rs_resp s = response_pair lib turn entry \<and> sent (rs_lane s) = [] \<and> rs_completed s = None"

text \<open>
  Until the response has ended or its stream failed, the draft is the fold of what the lane took;
  once it is completed, that fold is the whole response.
\<close>

definition mirrors :: "'dr DraftLib \<Rightarrow> uuid \<Rightarrow> uuid \<Rightarrow> DeltaOp ResponseDelta list \<Rightarrow> bool \<Rightarrow> 'dr Response \<Rightarrow> bool" where
  "mirrors lib turn entry ds full r \<longleftrightarrow>
     dl_turn lib (r_draft r) = turn \<and>
     (\<not> r_done r \<longrightarrow> \<not> failure_stops r \<longrightarrow> \<not> full \<longrightarrow> fold_deltas lib ds (dl_new lib turn entry) = Some (r_draft r))"

definition resp_inv :: "'dr DraftLib \<Rightarrow> ('ln \<Rightarrow> DeltaOp ResponseDelta list) \<Rightarrow> ('ln \<Rightarrow> bool) \<Rightarrow> uuid \<Rightarrow> uuid \<Rightarrow> ('dr, 'ln) RSys \<Rightarrow> bool" where
  "resp_inv lib sent full turn entry s \<longleftrightarrow>
     mirrors lib turn entry (sent (rs_lane s)) (full (rs_lane s)) (rs_resp s) \<and>
     (\<forall>response. rs_completed s = Some response \<longrightarrow> r_done (rs_resp s) \<and>
        (\<exists>draft. fold_deltas lib (sent (rs_lane s)) (dl_new lib turn entry) = Some draft \<and> dl_response lib draft = Some response))"

lemma fold_deltas_append:
  "fold_deltas lib (ds @ es) dr = (case fold_deltas lib ds dr of Some dr' \<Rightarrow> fold_deltas lib es dr' | None \<Rightarrow> None)"
  by (induction lib ds dr rule: fold_deltas.induct) (auto split: prod.splits sum.splits)

lemma whole_response_deltas_ok:
  "whole_response_deltas lib draft response = Ok ds \<Longrightarrow> \<exists>folded. fold_deltas lib ds draft = Some folded \<and> dl_response lib folded = Some response"
  by (auto simp: whole_response_deltas_def Let_def split: sum.splits option.splits if_splits)

lemma whole_response_deltas_Nil [simp]: "whole_response_deltas lib draft response \<noteq> Ok []"
  by (auto simp: whole_response_deltas_def whole_ops_def Let_def split: sum.splits option.splits if_splits)

lemma keep_error_simps [simp]:
  "r_draft (keep_error e r) = r_draft r" "r_done (keep_error e r) = r_done r" "r_sent (keep_error e r) = r_sent r"
  "r_failure (keep_error e r) = (if r_failure r = None then Some e else r_failure r)"
  by (simp_all add: keep_error_def)

context delta_lane
begin

lemma full_keeps:
  assumes "send d ln = (x, ln')" and "full ln"
  shows "full ln'" and "\<exists>e. x = Err e"
  using full_stays [OF assms(2), of d] assms(1) by auto

lemma deliver_mirrors:
  assumes "draft_ok lib" and "mirrors lib turn entry (sent ln) (full ln) r" and "response_deliver lib send d (r, ln) = (r', ln')"
  shows "mirrors lib turn entry (sent ln') (full ln') r'" and "r_done r' = r_done r" and "r_done r \<Longrightarrow> sent ln' = sent ln"
proof -
  show "r_done r' = r_done r" "r_done r \<Longrightarrow> sent ln' = sent ln"
    using assms(3) by (auto simp: response_deliver_def split: if_splits prod.splits sum.splits)
  note ok = draft_okD [OF assms(1)]
  show "mirrors lib turn entry (sent ln') (full ln') r'"
  proof (cases "r_done r \<or> r_failure r \<noteq> None \<or> is_completed (delta_body d)")
    case True
    with assms(2,3) show ?thesis
      by (auto simp: response_deliver_def mirrors_def failure_stops_def split: if_splits prod.splits sum.splits)
  next
    case False
    then have h: "\<not> r_done r" "r_failure r = None" "\<not> is_completed (delta_body d)"
      "full ln \<or> fold_deltas lib (sent ln) (dl_new lib turn entry) = Some (r_draft r)" "dl_turn lib (r_draft r) = turn"
      using assms(2) by (auto simp: mirrors_def failure_stops_def)
    obtain a draft where a: "dl_apply lib d (r_draft r) = (a, draft)" by (cases "dl_apply lib d (r_draft r)")
    obtain b ln2 where b: "send d ln = (b, ln2)" by (cases "send d ln")
    show ?thesis
    proof (cases a)
      case (Inl code)
      with a assms(3) h ok(1) [of d "r_draft r" code draft] show ?thesis
        by (auto simp: response_deliver_def mirrors_def)
    next
      case (Inr u)
      with a have "dl_apply lib d (r_draft r) = (Ok (), draft)" by simp
      note t = ok(2,3) [OF this]
      show ?thesis
        using assms(3) h a b Inr t send_ok [of d ln ln2] send_err_kind [of d ln _ ln2] full_keeps [OF b]
        by (cases b) (auto simp: response_deliver_def mirrors_def fold_deltas_append failure_stops_def)
    qed
  qed
qed

end

context delta_lane
begin

lemma complete_deltas_mirrors:
  assumes "draft_ok lib" and "complete_deltas lib send ds (r, ln) = (x, r', ln')"
    and "fold_deltas lib ds (r_draft r) = Some folded" and "\<not> r_done r" and "\<not> failure_stops r"
    and "full ln \<and> ds \<noteq> [] \<or> fold_deltas lib (sent ln) (dl_new lib turn entry) = Some (r_draft r)"
    and "dl_turn lib (r_draft r) = turn"
  shows "mirrors lib turn entry (sent ln') (full ln') r' \<and> r_done r' = (x = Ok ()) \<and>
    (x = Ok () \<longrightarrow> fold_deltas lib (sent ln') (dl_new lib turn entry) = Some folded)"
  using assms(2-7)
proof (induction ds arbitrary: r ln)
  case Nil
  then show ?case by (auto simp: mirrors_def failure_stops_def)
next
  case (Cons d ds)
  from Cons.prems(2) obtain draft where a: "dl_apply lib d (r_draft r) = (Ok (), draft)" "fold_deltas lib ds draft = Some folded"
    by (auto split: prod.splits sum.splits)
  note t = draft_okD(2,3) [OF assms(1) a(1)]
  obtain b ln2 where b: "send d ln = (b, ln2)" by (cases "send d ln")
  show ?case
  proof (cases b)
    case (Inl e)
    with b send_err [of d ln e ln2] full_keeps [OF b] Cons.prems(1,3,5,6) show ?thesis
      by (auto simp: mirrors_def failure_stops_def split: option.splits)
  next
    case (Inr u)
    let ?r = "r\<lparr>r_sent := True, r_draft := draft\<rparr>"
    have "sent ln2 = sent ln @ [d]" "\<not> full ln" using b Inr send_ok full_keeps [OF b] by auto
    with Cons.prems(5) a have "fold_deltas lib (sent ln2) (dl_new lib turn entry) = Some (r_draft ?r)"
      by (simp add: fold_deltas_append)
    moreover have "complete_deltas lib send ds (?r, ln2) = (x, r', ln')" using Cons.prems(1) b Inr a by simp
    ultimately show ?thesis using Cons.IH [of ?r ln2] a t Cons.prems(3,4,6) by (simp add: failure_stops_def)
  qed
qed

lemma complete_inv:
  assumes "draft_ok lib" and "mirrors lib turn entry (sent ln) (full ln) r" and "response_complete lib send response (r, ln) = (x, r', ln')"
  shows "mirrors lib turn entry (sent ln') (full ln') r'" and "r_done r \<Longrightarrow> r' = r \<and> ln' = ln \<and> x \<noteq> Ok ()"
    and "x = Ok () \<Longrightarrow> r_done r' \<and> (\<exists>draft. fold_deltas lib (sent ln') (dl_new lib turn entry) = Some draft \<and> dl_response lib draft = Some response)"
proof -
  show "r_done r \<Longrightarrow> r' = r \<and> ln' = ln \<and> x \<noteq> Ok ()" using assms(3) by (auto simp: response_complete_def)
  have "mirrors lib turn entry (sent ln') (full ln') r' \<and> (x = Ok () \<longrightarrow> r_done r' \<and>
      (\<exists>draft. fold_deltas lib (sent ln') (dl_new lib turn entry) = Some draft \<and> dl_response lib draft = Some response))"
  proof (cases "r_done r \<or> failure_stops r")
    case True
    with assms(2,3) show ?thesis by (auto simp: response_complete_def split: if_splits)
  next
    case False
    show ?thesis
    proof (cases "whole_response_deltas lib (r_draft r) response")
      case (Inl e)
      with False assms(2,3) show ?thesis by (auto simp: response_complete_def)
    next
      case (Inr ds)
      obtain folded where f: "fold_deltas lib ds (r_draft r) = Some folded" "dl_response lib folded = Some response"
        using whole_response_deltas_ok [OF Inr] by blast
      have "complete_deltas lib send ds (r, ln) = (x, r', ln')" using False Inr assms(3) by (simp add: response_complete_def)
      moreover have "full ln \<and> ds \<noteq> [] \<or> fold_deltas lib (sent ln) (dl_new lib turn entry) = Some (r_draft r)"
        "dl_turn lib (r_draft r) = turn"
        using assms(2) False Inr by (auto simp: mirrors_def)
      ultimately show ?thesis using complete_deltas_mirrors [OF assms(1) _ f(1)] False f(2) by blast
    qed
  qed
  then show "mirrors lib turn entry (sent ln') (full ln') r'"
    and "x = Ok () \<Longrightarrow> r_done r' \<and> (\<exists>draft. fold_deltas lib (sent ln') (dl_new lib turn entry) = Some draft \<and> dl_response lib draft = Some response)"
    by blast+
qed

lemma discard_inv:
  assumes "mirrors lib turn entry (sent ln) (full ln) r" and "response_discard lib send (r, ln) = (x, r', ln')"
  shows "mirrors lib turn entry (sent ln') (full ln') r'" and "r_done r \<Longrightarrow> r' = r \<and> ln' = ln"
proof -
  show "r_done r \<Longrightarrow> r' = r \<and> ln' = ln" using assms(2) by (auto simp: response_discard_def)
  show "mirrors lib turn entry (sent ln') (full ln') r'"
    using assms send_err [of "wrap_delta lib (r_draft r) ResponseInterrupted" ln _ ln']
      full_keeps [of "wrap_delta lib (r_draft r) ResponseInterrupted" ln _ ln']
    by (auto simp: response_discard_def mirrors_def failure_stops_def split: if_splits prod.splits sum.splits option.splits)
qed

lemma resp_step_inv:
  assumes "draft_ok lib" and "resp_step lib send sent full s e s'" and "resp_inv lib sent full turn entry s"
  shows "resp_inv lib sent full turn entry s'"
  using assms(2)
proof (cases rule: resp_step.cases)
  case (resp_send d r ln)
  have "mirrors lib turn entry (sent (rs_lane s)) (full (rs_lane s)) (rs_resp s)" using assms(3) by (simp add: resp_inv_def)
  note d = deliver_mirrors [OF assms(1) this resp_send(3)]
  from assms(3) d show ?thesis by (auto simp: resp_inv_def resp_send(2))
next
  case (resp_complete response x r ln)
  have "mirrors lib turn entry (sent (rs_lane s)) (full (rs_lane s)) (rs_resp s)" using assms(3) by (simp add: resp_inv_def)
  note c = complete_inv [OF assms(1) this resp_complete(3)]
  show ?thesis
  proof (cases "x = Ok ()")
    case True
    with c show ?thesis by (simp add: resp_inv_def resp_complete(2))
  next
    case False
    with assms(3) c show ?thesis by (auto simp: resp_inv_def resp_complete(2))
  qed
next
  case (resp_discard x r ln)
  have "mirrors lib turn entry (sent (rs_lane s)) (full (rs_lane s)) (rs_resp s)" using assms(3) by (simp add: resp_inv_def)
  note d = discard_inv [OF this resp_discard(3)]
  from assms(3) d show ?thesis by (auto simp: resp_inv_def resp_discard(2))
qed (use assms(3) in \<open>auto simp: resp_inv_def mirrors_def response_end_def\<close>)

lemma resp_reach_inv:
  assumes "draft_ok lib" and "reach (resp_init lib sent turn entry) (resp_step lib send sent full) s"
  shows "resp_inv lib sent full turn entry s"
  using assms(2)
proof (induction rule: reach.induct)
  case (reach_init s)
  then show ?case
    by (simp add: resp_init_def resp_inv_def mirrors_def response_pair_def draft_okD(4) [OF assms(1)])
next
  case (reach_step s e s')
  then show ?case using resp_step_inv [OF assms(1)] by blast
qed

end

end
