(* ===== verification/Thread_Turns.thy ===== *)
theory Thread_Turns
  imports Thread_Queue Thread_Response "HOL-Library.AList"
begin

text \<open>
  The write operations of \<open>ThreadAccessAdapter\<close> on one thread (\<open>adapter/ops\<close>, \<open>adapter/lane.rs\<close>): the
  memory of a slot (its AI turns, its streamed responses and the tip of the thread), and every
  operation that queues items. On a thread the operations run one at a time (\<open>ordered.rs\<close>); what an
  operation asks of the rest of the adapter is the record \<open>TurnEnv\<close> on a state \<open>'e\<close>: to accept an item,
  a new id, the time, and whether a message was refused or broken, the queue is empty or the adapter
  stopped. The context of a write is the answer of the write-context function.
\<close>

section \<open>The memory of a slot\<close>

record TurnState =
  ts_agent :: uuid
  ts_chunks :: "Chunk list"
  ts_entries :: "uuid set"
  ts_closed :: bool
  ts_last_item_at :: instant
  ts_keepalive :: bool

definition closed_by :: "uuid \<Rightarrow> instant \<Rightarrow> TurnState" where
  "closed_by agent now =
     \<lparr>ts_agent = agent, ts_chunks = [], ts_entries = {}, ts_closed = True, ts_last_item_at = now, ts_keepalive = False\<rparr>"

text \<open>The lane of a control sends to the message it was opened for.\<close>

record 'dr OpenResponse =
  or_agent :: uuid
  or_message :: uuid
  or_control :: "'dr Response"

record 'dr Mem =
  mem_turns :: "(uuid \<times> TurnState) list"
  mem_responses :: "(uuid \<times> 'dr OpenResponse) list"
  mem_tip :: "uuid option"

definition mem_new :: "'dr Mem" where
  "mem_new = \<lparr>mem_turns = [], mem_responses = [], mem_tip = None\<rparr>"

definition put_turn :: "uuid \<Rightarrow> TurnState \<Rightarrow> 'dr Mem \<Rightarrow> 'dr Mem" where
  "put_turn message st mem = mem\<lparr>mem_turns := AList.update message st (mem_turns mem)\<rparr>"

definition put_response :: "uuid \<Rightarrow> 'dr OpenResponse \<Rightarrow> 'dr Mem \<Rightarrow> 'dr Mem" where
  "put_response entry open mem = mem\<lparr>mem_responses := AList.update entry open (mem_responses mem)\<rparr>"

definition drop_response :: "uuid \<Rightarrow> 'dr Mem \<Rightarrow> 'dr Mem" where
  "drop_response entry mem = mem\<lparr>mem_responses := AList.delete entry (mem_responses mem)\<rparr>"

record 'e TurnEnv =
  env_accept :: "Item \<Rightarrow> 'e \<Rightarrow> (unit, TError) result \<times> 'e"
  env_uuid :: "'e \<Rightarrow> uuid \<times> 'e"
  env_now :: "'e \<Rightarrow> instant"
  env_broken :: "uuid \<Rightarrow> 'e \<Rightarrow> bool"
  env_refused :: "uuid \<Rightarrow> 'e \<Rightarrow> bool"
  env_idle :: "'e \<Rightarrow> bool"
  env_stopped :: "'e \<Rightarrow> bool"

record ('t, 'en, 'dr, 'e) ThreadPort =
  tp_lib :: "('t, 'en, DeltaOp) ThreadLib"
  tp_hash :: SealHash
  tp_drafts :: "'dr DraftLib"
  tp_env :: "'e TurnEnv"
  tp_thread :: uuid
  tp_interval :: duration

record WriteContext =
  wc_agent :: uuid
  wc_author :: string
  wc_job_id :: "uuid option"
  wc_acting_user_id :: "uuid option"
  wc_impersonator_id :: "uuid option"

record AiTurnRef =
  tr_id :: uuid
  tr_agent :: uuid
  tr_author :: string

datatype TPortError = TFault TError | TContextError string

section \<open>Turns and chunks\<close>

definition closed_turn :: TError where
  "closed_turn = TInvalidInput ''the closing of this turn was already accepted''"

definition command_item :: "uuid \<Rightarrow> Command \<Rightarrow> uuid \<Rightarrow> uuid \<Rightarrow> uuid list \<Rightarrow> TItemKind \<Rightarrow> Item" where
  "command_item thread command agent message entries kind =
     \<lparr>it_id = command_id command, it_thread = thread, it_agent = agent, it_message = message, it_entries = entries,
      it_kind = kind, it_payload = PCommand (command_body command)\<rparr>"

definition store_parts :: "uuid \<Rightarrow> uuid \<Rightarrow> uuid option \<Rightarrow> WriteContext \<Rightarrow> StoreParts" where
  "store_parts thread message parent ctx =
     \<lparr>part_thread_id = thread, part_message_id = message, part_parent_message_id = parent, part_job_id = wc_job_id ctx,
      part_acting_user_id = wc_acting_user_id ctx, part_impersonator_id = wc_impersonator_id ctx\<rparr>"

definition opening_item :: "uuid \<Rightarrow> uuid \<Rightarrow> uuid option \<Rightarrow> AiTurnRef \<Rightarrow> WriteContext \<Rightarrow> Item" where
  "opening_item thread i tip turn ctx =
     command_item thread
       (wire_store i (store_parts thread (tr_id turn) tip ctx)
         \<lparr>ai_agent_id = tr_agent turn, ai_author_name = tr_author turn, ai_delivery = DeliverStreaming\<rparr>)
       (tr_agent turn) (tr_id turn) [] KOpening"

definition chunk_item :: "uuid \<Rightarrow> uuid \<Rightarrow> uuid \<Rightarrow> uuid \<Rightarrow> uuid list \<Rightarrow> nat \<Rightarrow> Chunk \<Rightarrow> Item" where
  "chunk_item thread i agent message entries n chunk =
     \<lparr>it_id = i, it_thread = thread, it_agent = agent, it_message = message, it_entries = entries, it_kind = KChunk,
      it_payload = PChunk (of_nat n) chunk\<rparr>"

type_synonym ('dr, 'e) Run = "'dr Mem \<times> 'e \<Rightarrow> (unit, TError) result \<times> 'dr Mem \<times> 'e"

definition ensure_turn :: "('t, 'en, 'dr, 'e) ThreadPort \<Rightarrow> AiTurnRef \<Rightarrow> WriteContext \<Rightarrow> ('dr, 'e) Run" where
  "ensure_turn tp turn ctx s =
     (case s of (mem, e) \<Rightarrow>
        case map_of (mem_turns mem) (tr_id turn) of
          Some st \<Rightarrow> (if ts_closed st then Err closed_turn else Ok (), mem, e)
        | None \<Rightarrow>
            (case env_uuid (tp_env tp) e of (i, e1) \<Rightarrow>
               case env_accept (tp_env tp) (opening_item (tp_thread tp) i (mem_tip mem) turn ctx) e1 of
                 (Inl x, e2) \<Rightarrow> (Err x, mem, e2)
               | (Inr _, e2) \<Rightarrow>
                   (Ok (),
                    put_turn (tr_id turn)
                      \<lparr>ts_agent = tr_agent turn, ts_chunks = [], ts_entries = {}, ts_closed = False,
                       ts_last_item_at = env_now (tp_env tp) e2, ts_keepalive = \<not> env_stopped (tp_env tp) e2\<rparr>
                      (mem\<lparr>mem_tip := Some (tr_id turn)\<rparr>),
                    e2)))"

text \<open>The number of a chunk is a 64-bit integer: \<open>u64::try_from\<close> fails from 2^64 chunks on.\<close>

definition push_chunk :: "('t, 'en, 'dr, 'e) ThreadPort \<Rightarrow> uuid \<Rightarrow> uuid list \<Rightarrow> Chunk \<Rightarrow> uuid \<Rightarrow> ('dr, 'e) Run" where
  "push_chunk tp message entries chunk i s =
     (case s of (mem, e) \<Rightarrow>
        case map_of (mem_turns mem) message of
          None \<Rightarrow> (Err StreamClosed, mem, e)
        | Some st \<Rightarrow>
            if ts_closed st then (Err StreamClosed, mem, e)
            else if 2 ^ 64 \<le> length (ts_chunks st) then (Err (TInvalidInput ''too many chunks''), mem, e)
            else
              (case env_accept (tp_env tp)
                      (chunk_item (tp_thread tp) i (ts_agent st) message entries (length (ts_chunks st)) chunk) e of
                 (Inl x, e1) \<Rightarrow> (Err x, mem, e1)
               | (Inr _, e1) \<Rightarrow>
                   (Ok (),
                    put_turn message
                      (st\<lparr>ts_chunks := ts_chunks st @ [chunk], ts_entries := ts_entries st \<union> set entries,
                          ts_last_item_at := env_now (tp_env tp) e1\<rparr>) mem,
                    e1)))"

text \<open>\<open>push_chunk\<close> under a new id, as most callers do.\<close>

definition push_new :: "('t, 'en, 'dr, 'e) ThreadPort \<Rightarrow> uuid \<Rightarrow> uuid list \<Rightarrow> Chunk \<Rightarrow> ('dr, 'e) Run" where
  "push_new tp message entries chunk s =
     (case s of (mem, e) \<Rightarrow> case env_uuid (tp_env tp) e of (i, e1) \<Rightarrow> push_chunk tp message entries chunk i (mem, e1))"

definition queue_send :: "('t, 'en, 'dr, 'e) ThreadPort \<Rightarrow> uuid \<Rightarrow> ('dr Mem \<times> 'e) Send" where
  "queue_send tp message delta s =
     (case delta_chunk (tp_lib tp) message delta of
        Inl x \<Rightarrow> (Err x, s)
      | Inr chunk \<Rightarrow> push_new tp message [delta_entry delta] chunk s)"

section \<open>Input turns and entries\<close>

record 't InputTurn =
  in_turn_id :: uuid
  in_turn_entries :: "uuid list"
  in_turn_body :: 't

definition whole_item :: "uuid \<Rightarrow> uuid \<Rightarrow> uuid option \<Rightarrow> uuid \<Rightarrow> uuid list \<Rightarrow> string \<Rightarrow> WriteContext \<Rightarrow> Item" where
  "whole_item thread i tip message entries body ctx =
     command_item thread
       (wire_store i (store_parts thread message tip ctx)
         \<lparr>ai_agent_id = wc_agent ctx, ai_author_name = wc_author ctx, ai_delivery = DeliverCompleted body []\<rparr>)
       (wc_agent ctx) message entries KWholeMessage"

definition port_result :: "(unit, TError) result \<Rightarrow> (unit, TPortError) result" where
  "port_result r = (case r of Inl x \<Rightarrow> Err (TFault x) | Inr u \<Rightarrow> Ok u)"

type_synonym ('dr, 'e) PortRun = "'dr Mem \<times> 'e \<Rightarrow> (unit, TPortError) result \<times> 'dr Mem \<times> 'e"

definition port_run :: "('dr, 'e) Run \<Rightarrow> ('dr, 'e) PortRun" where
  "port_run op s = (case op s of (r, s') \<Rightarrow> (port_result r, s'))"

definition input_turn_into :: "('t, 'en, 'dr, 'e) ThreadPort \<Rightarrow> 't InputTurn \<Rightarrow> string \<Rightarrow> WriteContext \<Rightarrow> ('dr, 'e) Run" where
  "input_turn_into tp turn body ctx s =
     (case s of (mem, e) \<Rightarrow>
        case env_uuid (tp_env tp) e of (i, e1) \<Rightarrow>
          case env_accept (tp_env tp)
                 (whole_item (tp_thread tp) i (mem_tip mem) (in_turn_id turn) (in_turn_entries turn) body ctx) e1 of
            (Inl x, e2) \<Rightarrow> (Err x, mem, e2)
          | (Inr _, e2) \<Rightarrow> (Ok (), mem\<lparr>mem_tip := Some (in_turn_id turn)\<rparr>, e2))"

definition add_input_turn :: "('t, 'en, 'dr, 'e) ThreadPort \<Rightarrow> (WriteContext, string) result \<Rightarrow> 't InputTurn \<Rightarrow> ('dr, 'e) PortRun" where
  "add_input_turn tp context turn s =
     (case context of
        Inl msg \<Rightarrow> (Err (TContextError msg), s)
      | Inr ctx \<Rightarrow>
          (case lib_turn_json (tp_lib tp) (in_turn_body turn) of
             Inl msg \<Rightarrow> (Err (TFault (TInvalidInput msg)), s)
           | Inr body \<Rightarrow> port_run (input_turn_into tp turn body ctx) s))"

definition entry_into_turn :: "('t, 'en, 'dr, 'e) ThreadPort \<Rightarrow> AiTurnRef \<Rightarrow> WriteContext \<Rightarrow> uuid \<Rightarrow> Chunk \<Rightarrow> ('dr, 'e) Run" where
  "entry_into_turn tp turn ctx entry chunk s =
     (case ensure_turn tp turn ctx s of
        (Inl x, s1) \<Rightarrow> (Err x, s1)
      | (Inr _, s1) \<Rightarrow> push_new tp (tr_id turn) [entry] chunk s1)"

text \<open>\<open>add_entry\<close>; \<open>complete_result\<close> does the same with the entry of the tool results, which is neither a response nor a closure.\<close>

definition entry_with_context :: "('t, 'en, 'dr, 'e) ThreadPort \<Rightarrow> (WriteContext, string) result \<Rightarrow> AiTurnRef \<Rightarrow> 'en TurnEntry \<Rightarrow> ('dr, 'e) PortRun" where
  "entry_with_context tp context turn entry s =
     (case entry_chunk (tp_lib tp) entry of
        Inl x \<Rightarrow> (Err (TFault x), s)
      | Inr chunk \<Rightarrow>
          (case context of
             Inl msg \<Rightarrow> (Err (TContextError msg), s)
           | Inr ctx \<Rightarrow> port_run (entry_into_turn tp turn ctx (turn_entry_id entry) chunk) s))"

definition add_entry :: "('t, 'en, 'dr, 'e) ThreadPort \<Rightarrow> (WriteContext, string) result \<Rightarrow> AiTurnRef \<Rightarrow> 'en TurnEntry \<Rightarrow> ('dr, 'e) PortRun" where
  "add_entry tp context turn entry s =
     (if turn_entry_kind entry = EkModelResponse \<or> turn_entry_kind entry = EkTurnClosure then
        (Err (TFault (TInvalidInput ''an entry that is a model response or a closure'')), s)
      else entry_with_context tp context turn entry s)"

definition complete_result :: "('t, 'en, 'dr, 'e) ThreadPort \<Rightarrow> (WriteContext, string) result \<Rightarrow> AiTurnRef \<Rightarrow> uuid \<Rightarrow> 'en \<Rightarrow> ('dr, 'e) PortRun" where
  "complete_result tp context turn entry results =
     entry_with_context tp context turn \<lparr>turn_entry_id = entry, turn_entry_kind = EkOther, turn_entry_body = results\<rparr>"

section \<open>Closings, annotations and keepalives\<close>

definition close_turn_seal :: "('t, 'en, 'dr, 'e) ThreadPort \<Rightarrow> uuid \<Rightarrow> ClosureKind \<Rightarrow> Chunk list \<Rightarrow> 'e \<Rightarrow> (StreamSeal option, TError) result" where
  "close_turn_seal tp message kind chunks e =
     (if kind = CkCompleted \<and> \<not> carries_content chunks then
        Err (TInvalidInput ''a Completed closing for a turn that holds no state or no chunk'')
      else if carries_content chunks \<and> (kind = CkCompleted \<or> \<not> env_broken (tp_env tp) message e) then
        (case seal_of (tp_hash tp) chunks of Inl x \<Rightarrow> Err x | Inr seal \<Rightarrow> Ok (Some seal))
      else Ok None)"

definition close_item :: "('t, 'en, 'dr, 'e) ThreadPort \<Rightarrow> AiTurnRef \<Rightarrow> ClosureReason \<Rightarrow> WriteContext \<Rightarrow> StreamSeal option \<Rightarrow> uuid \<Rightarrow> (Item, TError) result" where
  "close_item tp turn reason ctx seal i =
     (case wire_closing (tp_lib tp) \<lparr>cp_command_id = i, cp_thread_id = tp_thread tp, cp_message_id = tr_id turn,
             cp_reason = reason, cp_seal = seal, cp_acting_user_id = wc_acting_user_id ctx\<rparr> of
        Inl x \<Rightarrow> Err x
      | Inr command \<Rightarrow> Ok (command_item (tp_thread tp) command (tr_agent turn) (tr_id turn) [] KClosing))"

definition turn_chunks :: "TurnState option \<Rightarrow> Chunk list" where
  "turn_chunks t = (case t of Some st \<Rightarrow> ts_chunks st | None \<Rightarrow> [])"

definition close_into :: "('t, 'en, 'dr, 'e) ThreadPort \<Rightarrow> AiTurnRef \<Rightarrow> ClosureReason \<Rightarrow> ClosureKind \<Rightarrow> WriteContext \<Rightarrow> ('dr, 'e) Run" where
  "close_into tp turn reason kind ctx s =
     (case s of (mem, e) \<Rightarrow>
        let held = map_of (mem_turns mem) (tr_id turn) in
        if (case held of Some st \<Rightarrow> ts_closed st | None \<Rightarrow> False) then (Err closed_turn, mem, e)
        else
          (case close_turn_seal tp (tr_id turn) kind (turn_chunks held) e of
             Inl x \<Rightarrow> (Err x, mem, e)
           | Inr seal \<Rightarrow>
               (case env_uuid (tp_env tp) e of (i, e1) \<Rightarrow>
                  case close_item tp turn reason ctx seal i of
                    Inl x \<Rightarrow> (Err x, mem, e1)
                  | Inr item \<Rightarrow>
                      (case env_accept (tp_env tp) item e1 of
                         (Inl x, e2) \<Rightarrow> (Err x, mem, e2)
                       | (Inr _, e2) \<Rightarrow>
                           (Ok (),
                            put_turn (tr_id turn)
                              ((case held of Some st \<Rightarrow> st | None \<Rightarrow> closed_by (tr_agent turn) (env_now (tp_env tp) e2))
                                 \<lparr>ts_closed := True, ts_keepalive := False\<rparr>) mem,
                            e2)))))"

definition close_turn :: "('t, 'en, 'dr, 'e) ThreadPort \<Rightarrow> (WriteContext, string) result \<Rightarrow> AiTurnRef \<Rightarrow> ClosureReason \<Rightarrow> ('dr, 'e) PortRun" where
  "close_turn tp context turn reason s =
     (case closure_kind_of reason of
        Inl x \<Rightarrow> (Err (TFault x), s)
      | Inr kind \<Rightarrow>
          (case context of
             Inl msg \<Rightarrow> (Err (TContextError msg), s)
           | Inr ctx \<Rightarrow> port_run (close_into tp turn reason kind ctx) s))"

definition annotate_into :: "('t, 'en, 'dr, 'e) ThreadPort \<Rightarrow> uuid \<Rightarrow> uuid \<Rightarrow> Chunk \<Rightarrow> ('dr, 'e) Run" where
  "annotate_into tp message entry chunk s =
     (case s of (mem, e) \<Rightarrow>
        case map_of (mem_turns mem) message of
          None \<Rightarrow> (Err (TInvalidInput ''the adapter holds no open state of this turn''), mem, e)
        | Some st \<Rightarrow>
            if ts_closed st then (Err closed_turn, mem, e)
            else if entry \<notin> ts_entries st then
              (Err (TInvalidInput ''the entry is not one that this adapter queued into this turn''), mem, e)
            else push_new tp message [] chunk (mem, e))"

definition add_annotation :: "('t, 'en, 'dr, 'e) ThreadPort \<Rightarrow> uuid \<Rightarrow> uuid \<Rightarrow> Annotation \<Rightarrow> ('dr, 'e) PortRun" where
  "add_annotation tp message after annotation s =
     (case annotation_chunk (lib_v7 (tp_lib tp)) after annotation of
        Inl x \<Rightarrow> (Err (TFault x), s)
      | Inr chunk \<Rightarrow> port_run (annotate_into tp message after chunk) s)"

definition keepalive_due :: "('t, 'en, 'dr, 'e) ThreadPort \<Rightarrow> uuid \<Rightarrow> 'dr Mem \<Rightarrow> 'e \<Rightarrow> bool" where
  "keepalive_due tp message mem e =
     (case map_of (mem_turns mem) message of
        None \<Rightarrow> False
      | Some st \<Rightarrow> \<not> ts_closed st \<and> ts_last_item_at st + tp_interval tp \<le> env_now (tp_env tp) e)"

text \<open>One keepalive; the report of a failure comes with the memory after it.\<close>

definition queue_keepalive :: "('t, 'en, 'dr, 'e) ThreadPort \<Rightarrow> uuid \<Rightarrow> 'dr Mem \<times> 'e \<Rightarrow> TQueueReport option \<times> 'dr Mem \<times> 'e" where
  "queue_keepalive tp message s =
     (case s of (mem, e) \<Rightarrow>
        if \<not> keepalive_due tp message mem e \<or> \<not> env_idle (tp_env tp) e \<or> env_refused (tp_env tp) message e then (None, mem, e)
        else
          (case env_uuid (tp_env tp) e of (i, e1) \<Rightarrow>
             case push_chunk tp message [] Keepalive i (mem, e1) of
               (Inr _, s1) \<Rightarrow> (None, s1)
             | (Inl x, mem1, e2) \<Rightarrow>
                 (Some \<lparr>report_kind = ItemRefused, report_thread = tp_thread tp, report_message = message,
                        report_item_kind = KChunk, report_item = i, report_error = Some x\<rparr>,
                  case map_of (mem_turns mem1) message of
                    Some st \<Rightarrow> put_turn message (st\<lparr>ts_last_item_at := env_now (tp_env tp) e2\<rparr>) mem1
                  | None \<Rightarrow> mem1,
                  e2)))"

section \<open>Responses\<close>

definition needs_opening :: "AiTurnRef \<Rightarrow> 'dr Mem \<Rightarrow> (bool, TError) result" where
  "needs_opening turn mem =
     (case map_of (mem_turns mem) (tr_id turn) of
        None \<Rightarrow> Ok True
      | Some st \<Rightarrow> if ts_closed st then Err closed_turn else Ok False)"

text \<open>
  \<open>ordered_with_context\<close>: the context is fetched when the turn is not open, before the operation takes
  its place for good; the turn is looked at once.
\<close>

definition open_context :: "AiTurnRef \<Rightarrow> (WriteContext, string) result \<Rightarrow> 'dr Mem \<Rightarrow> (WriteContext option, TPortError) result" where
  "open_context turn context mem =
     (case needs_opening turn mem of
        Inl x \<Rightarrow> Err (TFault x)
      | Inr needed \<Rightarrow>
          if needed then (case context of Inl msg \<Rightarrow> Err (TContextError msg) | Inr ctx \<Rightarrow> Ok (Some ctx)) else Ok None)"

text \<open>
  The control of an open response runs on the lane of its message; what it becomes goes back into
  the table.
\<close>

definition discard_open :: "('t, 'en, 'dr, 'e) ThreadPort \<Rightarrow> uuid \<Rightarrow> 'dr OpenResponse \<Rightarrow> ('dr, 'e) Run" where
  "discard_open tp entry open s =
     (case response_discard (tp_drafts tp) (queue_send tp (or_message open)) (or_control open, s) of
        (Inl x, r, mem, e) \<Rightarrow> (Err x, put_response entry (open\<lparr>or_control := r\<rparr>) mem, e)
      | (Inr _, r, mem, e) \<Rightarrow> (Ok (), put_response entry (open\<lparr>or_control := response_end r\<rparr>) mem, e))"

definition new_response :: "('t, 'en, 'dr, 'e) ThreadPort \<Rightarrow> AiTurnRef \<Rightarrow> uuid \<Rightarrow> 'dr OpenResponse" where
  "new_response tp turn entry =
     \<lparr>or_agent = tr_agent turn, or_message = tr_id turn, or_control = response_pair (tp_drafts tp) (tr_id turn) entry\<rparr>"

text \<open>\<open>open_response\<close> with its place on the thread; no context: the turn is open already.\<close>

definition ensure_with :: "('t, 'en, 'dr, 'e) ThreadPort \<Rightarrow> AiTurnRef \<Rightarrow> WriteContext option \<Rightarrow> ('dr, 'e) Run" where
  "ensure_with tp turn ctx s = (case ctx of Some c \<Rightarrow> ensure_turn tp turn c s | None \<Rightarrow> (Ok (), s))"

definition open_response :: "('t, 'en, 'dr, 'e) ThreadPort \<Rightarrow> AiTurnRef \<Rightarrow> WriteContext option \<Rightarrow> uuid \<Rightarrow> ('dr, 'e) Run" where
  "open_response tp turn ctx entry s =
     (case ensure_with tp turn ctx s of
        (Inl x, s1) \<Rightarrow> (Err x, s1)
      | (Inr _, mem1, e1) \<Rightarrow>
          (case map_of (mem_responses mem1) entry of
             None \<Rightarrow> (Ok (), put_response entry (new_response tp turn entry) mem1, e1)
           | Some earlier \<Rightarrow>
               (case discard_open tp entry earlier (mem1, e1) of
                  (Inl x, s2) \<Rightarrow> (Err x, s2)
                | (Inr _, mem2, e2) \<Rightarrow> (Ok (), put_response entry (new_response tp turn entry) mem2, e2))))"

definition complete_into :: "('t, 'en, 'dr, 'e) ThreadPort \<Rightarrow> AiTurnRef \<Rightarrow> WriteContext \<Rightarrow> ModelResponse \<Rightarrow> ('dr, 'e) Run" where
  "complete_into tp turn ctx response s =
     (case ensure_turn tp turn ctx s of
        (Inl x, s1) \<Rightarrow> (Err x, s1)
      | (Inr _, mem1, e1) \<Rightarrow>
          (let held = map_of (mem_responses mem1) (resp_id response);
               open = (case held of Some open \<Rightarrow> open | None \<Rightarrow> new_response tp turn (resp_id response))
           in case response_complete (tp_drafts tp) (queue_send tp (or_message open)) response (or_control open, mem1, e1) of
                (Inr _, r, mem2, e2) \<Rightarrow> (Ok (), drop_response (resp_id response) mem2, e2)
              | (Inl x, r, mem2, e2) \<Rightarrow>
                  (Err x,
                   if held = None then mem2 else put_response (resp_id response) (open\<lparr>or_control := r\<rparr>) mem2, e2)))"

definition complete_response :: "('t, 'en, 'dr, 'e) ThreadPort \<Rightarrow> (WriteContext, string) result \<Rightarrow> AiTurnRef \<Rightarrow> ModelResponse \<Rightarrow> ('dr, 'e) PortRun" where
  "complete_response tp context turn response s =
     (case context of
        Inl msg \<Rightarrow> (Err (TContextError msg), s)
      | Inr ctx \<Rightarrow> port_run (complete_into tp turn ctx response) s)"

definition discard_response :: "('t, 'en, 'dr, 'e) ThreadPort \<Rightarrow> uuid \<Rightarrow> ('dr, 'e) Run" where
  "discard_response tp entry s =
     (case s of (mem, e) \<Rightarrow>
        case map_of (mem_responses mem) entry of
          None \<Rightarrow> (Ok (), mem, e)
        | Some open \<Rightarrow>
            (case discard_open tp entry open (mem, e) of
               (Inl x, s1) \<Rightarrow> (Err x, s1)
             | (Inr _, mem1, e1) \<Rightarrow> (Ok (), drop_response entry mem1, e1)))"

definition open_result :: "('t, 'en, 'dr, 'e) ThreadPort \<Rightarrow> AiTurnRef \<Rightarrow> WriteContext option \<Rightarrow> ('dr, 'e) Run" where
  "open_result tp turn ctx s = ensure_with tp turn ctx s"

text \<open>A delta of the sink of an open response; a sink whose response has ended does nothing.\<close>

definition sink_send :: "('t, 'en, 'dr, 'e) ThreadPort \<Rightarrow> uuid \<Rightarrow> DeltaOp ResponseDelta \<Rightarrow> 'dr Mem \<times> 'e \<Rightarrow> 'dr Mem \<times> 'e" where
  "sink_send tp entry delta s =
     (case map_of (mem_responses (fst s)) entry of
        None \<Rightarrow> s
      | Some open \<Rightarrow>
          (case response_deliver (tp_drafts tp) (queue_send tp (or_message open)) delta (or_control open, s) of
             (r, mem, e) \<Rightarrow> (put_response entry (open\<lparr>or_control := r\<rparr>) mem, e)))"

section \<open>The read and the end of an agent\<close>

definition read_tip :: "uuid list \<Rightarrow> 'dr Mem \<Rightarrow> 'dr Mem" where
  "read_tip turns mem = mem\<lparr>mem_tip := (if turns = [] then None else Some (last turns))\<rparr>"

definition holds_agent :: "uuid \<Rightarrow> 'dr Mem \<Rightarrow> TSlot \<Rightarrow> bool" where
  "holds_agent agent mem sl \<longleftrightarrow>
     list_ex (\<lambda>q. it_agent (q_item q) = agent) (sl_items sl) \<or>
     list_ex (\<lambda>(_, st). ts_agent st = agent) (mem_turns mem) \<or>
     list_ex (\<lambda>(_, open). or_agent open = agent) (mem_responses mem)"

definition ended_turns :: "uuid \<Rightarrow> 'dr Mem \<Rightarrow> uuid list" where
  "ended_turns agent mem =
     filter (\<lambda>m. case map_of (mem_turns mem) m of Some st \<Rightarrow> ts_agent st = agent | None \<Rightarrow> False) (map fst (mem_turns mem))"

text \<open>The tables have one entry for a key, so what is retained by agent is what is retained by message.\<close>

definition forget_agent :: "uuid \<Rightarrow> 'dr Mem \<Rightarrow> 'dr Mem" where
  "forget_agent agent mem =
     mem\<lparr>mem_turns := filter (\<lambda>(m, _). m \<notin> set (ended_turns agent mem)) (mem_turns mem),
         mem_responses := filter (\<lambda>(_, open). or_agent open \<noteq> agent) (mem_responses mem)\<rparr>"

definition forget_broken :: "uuid list \<Rightarrow> 's Inner \<Rightarrow> 's Inner" where
  "forget_broken messages n = n\<lparr>in_broken := in_broken n - set messages\<rparr>"

end
