(* ===== verification/Thread_Turns_Spec.thy ===== *)
theory Thread_Turns_Spec
  imports Thread_Turns
begin

text \<open>
  What the write operations of a thread promise, as an abstract machine: a thread opens a message,
  adds numbered chunks to it, closes it once and adds whole messages, each under the tip of the
  thread. Every operation of \<open>Thread_Turns\<close> is a sequence of such steps; the streams of the messages
  are well formed in every state of the machine.
\<close>

section \<open>The abstract machine\<close>

record TurnSpec =
  sp_turns :: "uuid \<Rightarrow> (Chunk list \<times> bool) option"
  sp_tip :: "uuid option"
  sp_items :: "Item list"

definition item_parent :: "Item \<Rightarrow> uuid option option" where
  "item_parent item =
     (case it_payload item of PCommand (StoreBody s) \<Rightarrow> Some (part_parent_message_id (st_parts s)) | _ \<Rightarrow> None)"

text \<open>A closing carries the seal of the chunks or, when it is not a completion, none.\<close>

definition closing_fits :: "SealHash \<Rightarrow> Chunk list \<Rightarrow> Item \<Rightarrow> bool" where
  "closing_fits hash cs item \<longleftrightarrow> it_kind item = KClosing \<and>
     (case it_payload item of
        PCommand (CompleteBody _ seal) \<Rightarrow> seal_of hash cs = Ok seal \<and> carries_content cs
      | PCommand (FailBody _ None) \<Rightarrow> True
      | PCommand (FailBody _ (Some seal)) \<Rightarrow> seal_of hash cs = Ok seal
      | _ \<Rightarrow> False)"

inductive spec_step :: "SealHash \<Rightarrow> TurnSpec \<Rightarrow> TurnSpec \<Rightarrow> bool" for hash where
  spec_open: "sp_turns s m = None \<Longrightarrow> it_message item = m \<Longrightarrow> it_kind item = KOpening \<Longrightarrow>
    item_parent item = Some (sp_tip s) \<Longrightarrow>
    spec_step hash s
      (s\<lparr>sp_turns := (sp_turns s)(m \<mapsto> ([], False)), sp_tip := Some m, sp_items := sp_items s @ [item]\<rparr>)"
| spec_chunk: "sp_turns s m = Some (cs, False) \<Longrightarrow> length cs < 2 ^ 64 \<Longrightarrow> it_message item = m \<Longrightarrow> it_kind item = KChunk \<Longrightarrow>
    it_payload item = PChunk (of_nat (length cs)) c \<Longrightarrow>
    spec_step hash s (s\<lparr>sp_turns := (sp_turns s)(m \<mapsto> (cs @ [c], False)), sp_items := sp_items s @ [item]\<rparr>)"
| spec_close: "sp_turns s m = Some (cs, False) \<or> sp_turns s m = None \<and> cs = [] \<Longrightarrow> it_message item = m \<Longrightarrow>
    closing_fits hash cs item \<Longrightarrow>
    spec_step hash s (s\<lparr>sp_turns := (sp_turns s)(m \<mapsto> (cs, True)), sp_items := sp_items s @ [item]\<rparr>)"
| spec_message: "it_kind item = KWholeMessage \<Longrightarrow> item_parent item = Some (sp_tip s) \<Longrightarrow>
    spec_step hash s (s\<lparr>sp_tip := Some (it_message item), sp_items := sp_items s @ [item]\<rparr>)"

section \<open>Well-formed streams\<close>

definition stream_of :: "uuid \<Rightarrow> Item list \<Rightarrow> Item list" where
  "stream_of m items = filter (\<lambda>i. it_message i = m \<and> it_kind i \<noteq> KWholeMessage) items"

definition numbered_items :: "Chunk list \<Rightarrow> Item list \<Rightarrow> bool" where
  "numbered_items cs items \<longleftrightarrow>
     map (\<lambda>i. (it_kind i, it_payload i)) items = map (\<lambda>(n, c). (KChunk, PChunk (of_nat n) c)) (enumerate 0 cs)"

text \<open>
  A message that is not held has no item; an open one has its opening and its chunks, numbered from
  0; a closed one has one closing after them, or is nothing but a closing.
\<close>

definition stream_shape :: "SealHash \<Rightarrow> (Chunk list \<times> bool) option \<Rightarrow> Item list \<Rightarrow> bool" where
  "stream_shape hash t items \<longleftrightarrow>
     (case t of
        None \<Rightarrow> items = []
      | Some (cs, closed) \<Rightarrow>
          length cs \<le> 2 ^ 64 \<and>
          (\<exists>first chunks end. items = first @ chunks @ end \<and> numbered_items cs chunks \<and>
             ((\<exists>opening. first = [opening] \<and> it_kind opening = KOpening) \<or> first = [] \<and> cs = [] \<and> closed) \<and>
             (if closed then (\<exists>closing. end = [closing] \<and> closing_fits hash cs closing) else end = [])))"

fun follow_tip :: "uuid option \<Rightarrow> Item list \<Rightarrow> uuid option option" where
  "follow_tip tip [] = Some tip"
| "follow_tip tip (i # is) =
     (case item_parent i of
        None \<Rightarrow> follow_tip tip is
      | Some parent \<Rightarrow> if parent = tip then follow_tip (Some (it_message i)) is else None)"

lemma follow_tip_append: "follow_tip tip (xs @ ys) = (case follow_tip tip xs of None \<Rightarrow> None | Some tip' \<Rightarrow> follow_tip tip' ys)"
  by (induction tip xs rule: follow_tip.induct) (auto split: option.splits)

lemma numbered_items_Nil [simp]: "numbered_items [] items \<longleftrightarrow> items = []"
  by (simp add: numbered_items_def)

lemma numbered_items_snoc:
  "numbered_items cs items \<Longrightarrow> it_kind i = KChunk \<Longrightarrow> it_payload i = PChunk (of_nat (length cs)) c \<Longrightarrow> numbered_items (cs @ [c]) (items @ [i])"
  by (simp add: numbered_items_def enumerate_append_eq)

lemma shape_openI:
  assumes "it_kind o1 = KOpening" and "numbered_items cs chunks" and "length cs \<le> 2 ^ 64"
  shows "stream_shape hash (Some (cs, False)) (o1 # chunks)"
  unfolding stream_shape_def prod.case option.case
  using assms by (intro conjI exI [of _ "[o1]"] exI [of _ chunks] exI [of _ "[]"]) simp_all

lemma shape_closedI:
  assumes "it_kind o1 = KOpening" and "numbered_items cs chunks" and "length cs \<le> 2 ^ 64" and "closing_fits hash cs c"
  shows "stream_shape hash (Some (cs, True)) (o1 # chunks @ [c])"
  unfolding stream_shape_def prod.case option.case
  using assms by (intro conjI exI [of _ "[o1]"] exI [of _ chunks] exI [of _ "[c]"]) simp_all

lemma shape_open:
  "stream_shape hash None items \<Longrightarrow> it_kind i = KOpening \<Longrightarrow> stream_shape hash (Some ([], False)) (items @ [i])"
  by (simp add: stream_shape_def)

lemma shape_chunk:
  assumes "stream_shape hash (Some (cs, False)) items" and "length cs < 2 ^ 64" and "it_kind i = KChunk"
    and "it_payload i = PChunk (of_nat (length cs)) c"
  shows "stream_shape hash (Some (cs @ [c], False)) (items @ [i])"
proof -
  from assms(1) obtain op1 chunks where "items = [op1] @ chunks" "it_kind op1 = KOpening" "numbered_items cs chunks"
    by (auto simp: stream_shape_def)
  with shape_openI [of op1 "cs @ [c]" "chunks @ [i]"] numbered_items_snoc [OF _ assms(3,4)] assms(2) show ?thesis by simp
qed

lemma shape_close:
  assumes "stream_shape hash t items" and "t = Some (cs, False) \<or> t = None \<and> cs = []" and "closing_fits hash cs i"
  shows "stream_shape hash (Some (cs, True)) (items @ [i])"
  using assms(2)
proof
  assume "t = Some (cs, False)"
  with assms(1) obtain op1 chunks where "items = [op1] @ chunks" "it_kind op1 = KOpening" "numbered_items cs chunks" "length cs \<le> 2 ^ 64"
    by (auto simp: stream_shape_def)
  with shape_closedI [of op1 cs chunks] assms(3) show ?thesis by simp
next
  assume "t = None \<and> cs = []"
  with assms(1,3) show ?thesis unfolding stream_shape_def
    by (simp, intro exI [of _ "[]"] exI [of _ "[i]"]) simp
qed

text \<open>What holds of a state of the machine, with the point from which the stream of a message counts and the last tip that was read.\<close>

definition spec_ok :: "SealHash \<Rightarrow> (uuid \<Rightarrow> nat) \<Rightarrow> nat \<times> uuid option \<Rightarrow> TurnSpec \<Rightarrow> bool" where
  "spec_ok hash from base s \<longleftrightarrow>
     (\<forall>m. from m \<le> length (sp_items s) \<and> stream_shape hash (sp_turns s m) (stream_of m (drop (from m) (sp_items s)))) \<and>
     fst base \<le> length (sp_items s) \<and> follow_tip (snd base) (drop (fst base) (sp_items s)) = Some (sp_tip s)"

lemma stream_of_snoc [simp]:
  "stream_of m (items @ [i]) = stream_of m items @ (if it_message i = m \<and> it_kind i \<noteq> KWholeMessage then [i] else [])"
  by (simp add: stream_of_def)

lemma closing_parent: "closing_fits hash cs item \<Longrightarrow> item_parent item = None"
  by (auto simp: closing_fits_def item_parent_def split: Payload.splits CommandBody.splits)

lemma spec_step_ok:
  assumes "spec_step hash s s'" and "spec_ok hash from base s"
  shows "spec_ok hash from base s'"
proof -
  have fr: "from m \<le> length (sp_items s)" "stream_shape hash (sp_turns s m) (stream_of m (drop (from m) (sp_items s)))" for m
    using assms(2) by (simp_all add: spec_ok_def)
  have tip: "fst base \<le> length (sp_items s)" "follow_tip (snd base) (drop (fst base) (sp_items s)) = Some (sp_tip s)"
    using assms(2) by (simp_all add: spec_ok_def)
  from assms(1) show ?thesis
  proof (cases rule: spec_step.cases)
    case (spec_open m item)
    then show ?thesis using fr tip shape_open [of hash _ item] fr(2) [of m]
      by (auto simp: spec_ok_def follow_tip_append le_Suc_eq)
  next
    case (spec_chunk m cs item c)
    have "item_parent item = None" using spec_chunk(6) by (simp add: item_parent_def)
    with spec_chunk show ?thesis using fr tip shape_chunk [of hash cs _ item c] fr(2) [of m]
      by (auto simp: spec_ok_def follow_tip_append le_Suc_eq)
  next
    case (spec_close m cs item)
    have "item_parent item = None" using closing_parent [OF spec_close(4)] .
    moreover have "it_kind item = KClosing" using spec_close(4) by (simp add: closing_fits_def)
    moreover have "stream_shape hash (Some (cs, True)) (stream_of m (drop (from m) (sp_items s)) @ [item])"
      using shape_close [OF fr(2) spec_close(2,4)] .
    ultimately show ?thesis using spec_close(1,3) fr tip
      by (auto simp: spec_ok_def follow_tip_append le_Suc_eq)
  next
    case (spec_message item)
    then show ?thesis using fr tip by (auto simp: spec_ok_def follow_tip_append le_Suc_eq)
  qed
qed

lemma spec_steps_ok: "(spec_step hash)\<^sup>*\<^sup>* s s' \<Longrightarrow> spec_ok hash from base s \<Longrightarrow> spec_ok hash from base s'"
  by (induction rule: rtranclp_induct) (auto intro: spec_step_ok)

section \<open>The contract of the rest of the adapter\<close>

text \<open>
  \<open>taken\<close> are the items of the thread that were accepted, in order: an item is accepted when the
  answer is a success, and an acceptance fails as an error of the store.
\<close>

locale turn_env =
  fixes env :: "'e TurnEnv"
    and taken :: "'e \<Rightarrow> Item list"
  assumes accept_ok: "env_accept env item e = (Ok (), e') \<Longrightarrow> taken e' = taken e @ [item]"
    and accept_err: "env_accept env item e = (Err x, e') \<Longrightarrow> taken e' = taken e"
    and accept_err_store: "env_accept env item e = (Err x, e') \<Longrightarrow> \<exists>msg. x = TStore msg"
    and uuid_taken: "env_uuid env e = (i, e') \<Longrightarrow> taken e' = taken e"

definition spec_of :: "('e \<Rightarrow> Item list) \<Rightarrow> 'dr Mem \<times> 'e \<Rightarrow> TurnSpec" where
  "spec_of taken s =
     \<lparr>sp_turns = (\<lambda>m. map_option (\<lambda>st. (ts_chunks st, ts_closed st)) (map_of (mem_turns (fst s)) m)),
      sp_tip = mem_tip (fst s), sp_items = taken (snd s)\<rparr>"

definition refines :: "SealHash \<Rightarrow> ('e \<Rightarrow> Item list) \<Rightarrow> 'dr Mem \<times> 'e \<Rightarrow> 'dr Mem \<times> 'e \<Rightarrow> bool" where
  "refines hash taken s s' \<longleftrightarrow> (spec_step hash)\<^sup>*\<^sup>* (spec_of taken s) (spec_of taken s')"

lemma refines_refl [simp, intro]: "refines hash taken s s"
  by (simp add: refines_def)

lemma refines_trans [trans]: "refines hash taken s s' \<Longrightarrow> refines hash taken s' s'' \<Longrightarrow> refines hash taken s s''"
  unfolding refines_def by (rule rtranclp_trans)

lemma refines_step: "spec_step hash (spec_of taken s) (spec_of taken s') \<Longrightarrow> refines hash taken s s'"
  unfolding refines_def by (rule r_into_rtranclp)

lemma refines_same: "spec_of taken s = spec_of taken s' \<Longrightarrow> refines hash taken s s'"
  by (simp add: refines_def)

lemma refines_reflp: "reflp (refines hash taken)" and refines_transp: "transp (refines hash taken)"
  by (auto intro: reflpI transpI refines_trans)

lemma mem_of_put_turn [simp]:
  "map_of (mem_turns (put_turn m st mem)) = (map_of (mem_turns mem))(m \<mapsto> st)" "mem_tip (put_turn m st mem) = mem_tip mem"
  by (simp_all add: put_turn_def update_conv')

lemma spec_of_responses [simp]:
  "spec_of taken (put_response entry r mem, e) = spec_of taken (mem, e)"
  "spec_of taken (drop_response entry mem, e) = spec_of taken (mem, e)"
  by (simp_all add: spec_of_def put_response_def drop_response_def)

lemma item_parent_command [simp]:
  "item_parent (command_item thread c agent message entries kind) =
     (case command_body c of StoreBody s \<Rightarrow> Some (part_parent_message_id (st_parts s)) | _ \<Rightarrow> None)"
  by (simp add: item_parent_def command_item_def)

lemma command_item_fields [simp]:
  "it_message (command_item thread c agent message entries kind) = message"
  "it_kind (command_item thread c agent message entries kind) = kind"
  by (simp_all add: command_item_def)

lemma opening_item_fields [simp]:
  "it_message (opening_item thread i tip turn ctx) = tr_id turn" "it_kind (opening_item thread i tip turn ctx) = KOpening"
  "item_parent (opening_item thread i tip turn ctx) = Some tip"
  by (simp_all add: opening_item_def wire_store_def store_parts_def)

lemma whole_item_fields [simp]:
  "it_message (whole_item thread i tip message entries body ctx) = message"
  "it_kind (whole_item thread i tip message entries body ctx) = KWholeMessage"
  "item_parent (whole_item thread i tip message entries body ctx) = Some tip"
  by (simp_all add: whole_item_def wire_store_def store_parts_def)

section \<open>Every operation refines the machine\<close>

context turn_env
begin

lemma ensure_turn_refines:
  assumes "tp_env tp = env" and "ensure_turn tp turn ctx s = (x, s')"
  shows "refines hash taken s s'"
proof -
  obtain mem e where s: "s = (mem, e)" by (cases s)
  show ?thesis
  proof (cases "map_of (mem_turns mem) (tr_id turn)")
    case (Some st)
    with assms(2) show ?thesis by (auto simp: ensure_turn_def s)
  next
    case None
    obtain i e1 where i: "env_uuid env e = (i, e1)" by (cases "env_uuid env e")
    obtain a e2 where a: "env_accept env (opening_item (tp_thread tp) i (mem_tip mem) turn ctx) e1 = (a, e2)"
      by (cases "env_accept env (opening_item (tp_thread tp) i (mem_tip mem) turn ctx) e1")
    show ?thesis
    proof (cases a)
      case (Inl y)
      with None i a assms accept_err [OF a [unfolded Inl]] uuid_taken [OF i] show ?thesis
        by (auto simp: ensure_turn_def s spec_of_def intro!: refines_same)
    next
      case (Inr u)
      then have t: "taken e2 = taken e @ [opening_item (tp_thread tp) i (mem_tip mem) turn ctx]"
        using accept_ok [of _ e1 e2] a uuid_taken [OF i] by simp
      from None i a Inr assms have s': "spec_of taken s' = (spec_of taken s)\<lparr>sp_turns := (sp_turns (spec_of taken s))(tr_id turn \<mapsto> ([], False)),
          sp_tip := Some (tr_id turn), sp_items := sp_items (spec_of taken s) @ [opening_item (tp_thread tp) i (mem_tip mem) turn ctx]\<rparr>"
        by (auto simp: ensure_turn_def s spec_of_def t fun_eq_iff)
      show ?thesis unfolding refines_def s' using None
        by (intro r_into_rtranclp spec_open) (simp_all add: spec_of_def s)
    qed
  qed
qed

lemma push_chunk_refines:
  assumes "tp_env tp = env" and "push_chunk tp m entries chunk i s = (x, s')"
  shows "refines hash taken s s'"
proof -
  obtain mem e where s: "s = (mem, e)" by (cases s)
  show ?thesis
  proof (cases "\<exists>st. map_of (mem_turns mem) m = Some st \<and> \<not> ts_closed st \<and> length (ts_chunks st) < 2 ^ 64")
    case False
    with assms(2) show ?thesis by (auto simp: push_chunk_def s not_less split: option.splits if_splits)
  next
    case True
    then obtain st where st: "map_of (mem_turns mem) m = Some st" "\<not> ts_closed st" "length (ts_chunks st) < 2 ^ 64" by blast
    let ?item = "chunk_item (tp_thread tp) i (ts_agent st) m entries (length (ts_chunks st)) chunk"
    obtain a e1 where a: "env_accept env ?item e = (a, e1)" by (cases "env_accept env ?item e")
    show ?thesis
    proof (cases a)
      case (Inl y)
      with st a assms accept_err [OF a [unfolded Inl]] show ?thesis
        by (auto simp: push_chunk_def s spec_of_def intro!: refines_same)
    next
      case (Inr u)
      then have t: "taken e1 = taken e @ [?item]" using accept_ok [of _ e e1] a by simp
      from st a Inr assms have s': "spec_of taken s' = (spec_of taken s)\<lparr>sp_turns := (sp_turns (spec_of taken s))(m \<mapsto> (ts_chunks st @ [chunk], False)),
          sp_items := sp_items (spec_of taken s) @ [?item]\<rparr>"
        by (auto simp: push_chunk_def s spec_of_def t fun_eq_iff)
      show ?thesis unfolding refines_def s' using st
        by (intro r_into_rtranclp spec_chunk) (simp_all add: spec_of_def s chunk_item_def)
    qed
  qed
qed

end

context turn_env
begin

lemma uuid_same: "env_uuid env e = (i, e1) \<Longrightarrow> spec_of taken (mem, e1) = spec_of taken (mem, e)"
  by (simp add: spec_of_def uuid_taken)

lemma uuid_refines: "env_uuid env e = (i, e1) \<Longrightarrow> refines hash taken (mem, e) (mem, e1)"
  by (simp add: refines_same uuid_same)

lemma push_new_refines:
  assumes "tp_env tp = env" and "push_new tp m entries chunk s = (x, s')"
  shows "refines hash taken s s'"
proof -
  obtain mem e i e1 where s: "s = (mem, e)" "env_uuid env e = (i, e1)" by (cases s, cases "env_uuid env (snd s)") simp
  then have "push_chunk tp m entries chunk i (mem, e1) = (x, s')" using assms by (simp add: push_new_def)
  from refines_trans [OF uuid_refines [OF s(2)] push_chunk_refines [OF assms(1) this]] show ?thesis by (simp add: s)
qed

lemma queue_send_refines:
  assumes "tp_env tp = env" and "queue_send tp m d s = (x, s')"
  shows "refines hash taken s s'"
  using assms(2) by (auto simp: queue_send_def split: sum.splits intro: push_new_refines [OF assms(1)])

lemma input_turn_refines:
  assumes "tp_env tp = env" and "input_turn_into tp turn body ctx s = (x, s')"
  shows "refines hash taken s s'"
proof -
  obtain mem e i e1 where s: "s = (mem, e)" and i: "env_uuid env e = (i, e1)" by (cases s, cases "env_uuid env (snd s)") simp
  let ?item = "whole_item (tp_thread tp) i (mem_tip mem) (in_turn_id turn) (in_turn_entries turn) body ctx"
  obtain a e2 where a: "env_accept env ?item e1 = (a, e2)" by (cases "env_accept env ?item e1")
  show ?thesis
  proof (cases a)
    case (Inl y)
    with i a assms accept_err [OF a [unfolded Inl]] uuid_taken [OF i] show ?thesis
      by (auto simp: input_turn_into_def s spec_of_def intro!: refines_same)
  next
    case (Inr u)
    then have t: "taken e2 = taken e @ [?item]" using accept_ok [of _ e1 e2] a uuid_taken [OF i] by simp
    from i a Inr assms have s': "spec_of taken s' = (spec_of taken s)\<lparr>sp_tip := Some (it_message ?item), sp_items := sp_items (spec_of taken s) @ [?item]\<rparr>"
      by (auto simp: input_turn_into_def s spec_of_def t)
    show ?thesis unfolding refines_def s'
      by (intro r_into_rtranclp spec_message) (simp_all add: spec_of_def s)
  qed
qed

lemma entry_into_turn_refines:
  assumes "tp_env tp = env" and "entry_into_turn tp turn ctx entry chunk s = (x, s')"
  shows "refines hash taken s s'"
proof -
  obtain a s1 where a: "ensure_turn tp turn ctx s = (a, s1)" by (cases "ensure_turn tp turn ctx s")
  note r = ensure_turn_refines [OF assms(1) a]
  show ?thesis
  proof (cases a)
    case (Inl y)
    with a assms(2) r show ?thesis by (auto simp: entry_into_turn_def)
  next
    case (Inr u)
    with a assms(2) have "push_new tp (tr_id turn) [entry] chunk s1 = (x, s')" by (simp add: entry_into_turn_def)
    from refines_trans [OF r push_new_refines [OF assms(1) this]] show ?thesis .
  qed
qed

text \<open>The seal of a closing, and the item that carries it.\<close>

lemma close_item_fits:
  assumes "closure_kind_of reason = Ok kind" and "close_turn_seal tp m kind cs e = Ok seal"
    and "close_item tp turn reason ctx seal i = Ok item"
  shows "closing_fits (tp_hash tp) cs item" and "it_message item = tr_id turn"
proof -
  from assms(3) obtain c where c: "item = command_item (tp_thread tp) c (tr_agent turn) (tr_id turn) [] KClosing"
    "wire_closing (tp_lib tp) \<lparr>cp_command_id = i, cp_thread_id = tp_thread tp, cp_message_id = tr_id turn,
       cp_reason = reason, cp_seal = seal, cp_acting_user_id = wc_acting_user_id ctx\<rparr> = Ok c"
    by (auto simp: close_item_def split: sum.splits)
  from c(1) show "it_message item = tr_id turn" by simp
  show "closing_fits (tp_hash tp) cs item"
    using assms(1,2) c(2) unfolding closing_fits_def c(1)
    by (auto simp: command_item_def wire_closing_def require_v7_def close_turn_seal_def Let_def split: if_splits sum.splits option.splits)
qed

lemma close_into_refines:
  assumes "tp_env tp = env" and "closure_kind_of reason = Ok kind" and "close_into tp turn reason kind ctx s = (x, s')"
  shows "refines (tp_hash tp) taken s s'"
proof -
  obtain mem e i e1 where s: "s = (mem, e)" and i: "env_uuid env e = (i, e1)" by (cases s, cases "env_uuid env (snd s)") simp
  let ?held = "map_of (mem_turns mem) (tr_id turn)"
  show ?thesis
  proof (cases "\<exists>seal item e2. \<not> (case ?held of Some st \<Rightarrow> ts_closed st | None \<Rightarrow> False) \<and>
      close_turn_seal tp (tr_id turn) kind (turn_chunks ?held) e = Ok seal \<and> close_item tp turn reason ctx seal i = Ok item \<and>
      env_accept env item e1 = (Ok (), e2)")
    case False
    with assms(1,3) i show ?thesis
      by (auto simp: close_into_def s Let_def spec_of_def uuid_taken accept_err split: if_splits sum.splits prod.splits intro!: refines_same)
  next
    case True
    then obtain seal item e2 where h: "\<not> (case ?held of Some st \<Rightarrow> ts_closed st | None \<Rightarrow> False)"
      "close_turn_seal tp (tr_id turn) kind (turn_chunks ?held) e = Ok seal" "close_item tp turn reason ctx seal i = Ok item"
      "env_accept env item e1 = (Ok (), e2)" by blast
    note fits = close_item_fits [OF assms(2) h(2,3)]
    have t: "taken e2 = taken e @ [item]" using accept_ok [OF h(4)] uuid_taken [OF i] by simp
    from h i assms(1,3) have s': "spec_of taken s' = (spec_of taken s)\<lparr>sp_turns := (sp_turns (spec_of taken s))(tr_id turn \<mapsto> (turn_chunks ?held, True)),
        sp_items := sp_items (spec_of taken s) @ [item]\<rparr>"
      by (auto simp: close_into_def s Let_def spec_of_def t fun_eq_iff turn_chunks_def closed_by_def split: option.splits)
    show ?thesis unfolding refines_def s' using fits h(1)
      by (intro r_into_rtranclp spec_close) (auto simp: spec_of_def s turn_chunks_def split: option.splits)
  qed
qed

end

context turn_env
begin

lemma annotate_refines:
  assumes "tp_env tp = env" and "annotate_into tp m entry chunk s = (x, s')"
  shows "refines hash taken s s'"
  using assms(2) push_new_refines [OF assms(1)]
  by (auto simp: annotate_into_def split: prod.splits option.splits if_splits)

lemma keepalive_refines:
  assumes "tp_env tp = env" and "queue_keepalive tp m s = (x, s')"
  shows "refines hash taken s s'"
proof -
  obtain mem e i e1 where s: "s = (mem, e)" and i: "env_uuid env e = (i, e1)" by (cases s, cases "env_uuid env (snd s)") simp
  show ?thesis
  proof (cases "\<not> keepalive_due tp m mem e \<or> \<not> env_idle env e \<or> env_refused env m e")
    case True
    with assms show ?thesis by (auto simp: queue_keepalive_def s)
  next
    case False
    obtain a mem1 e2 where p: "push_chunk tp m [] Keepalive i (mem, e1) = (a, mem1, e2)"
      by (cases "push_chunk tp m [] Keepalive i (mem, e1)") auto
    have r: "refines hash taken s (mem1, e2)"
      using refines_trans [OF uuid_refines [OF i] push_chunk_refines [OF assms(1) p]] by (simp add: s)
    have "spec_of taken s' = spec_of taken (mem1, e2)"
      using False assms i p by (cases a) (auto simp: queue_keepalive_def s spec_of_def fun_eq_iff split: option.splits)
    with r show ?thesis by (simp add: refines_def)
  qed
qed

lemma ensure_with_refines:
  assumes "tp_env tp = env" and "ensure_with tp turn ctx s = (x, s')"
  shows "refines hash taken s s'"
  using assms(2) by (auto simp: ensure_with_def split: option.splits intro: ensure_turn_refines [OF assms(1)])

lemma discard_open_refines:
  assumes "tp_env tp = env" and "discard_open tp entry r s = (x, s')"
  shows "refines hash taken s s'"
proof -
  obtain a c mem e where d: "response_discard (tp_drafts tp) (queue_send tp (or_message r)) (or_control r, s) = (a, c, mem, e)"
    by (metis prod_cases4)
  have "refines hash taken s (mem, e)"
    by (rule discard_moves [OF _ refines_reflp d]) (rule queue_send_refines [OF assms(1)])
  moreover have "spec_of taken s' = spec_of taken (mem, e)" using d assms(2) by (cases a) (auto simp: discard_open_def)
  ultimately show ?thesis by (simp add: refines_def)
qed

lemma open_response_refines:
  assumes "tp_env tp = env" and "open_response tp turn ctx entry s = (x, s')"
  shows "refines hash taken s s'"
proof -
  obtain a mem1 e1 where a: "ensure_with tp turn ctx s = (a, mem1, e1)" by (metis prod_cases3)
  note r = ensure_with_refines [OF assms(1) a]
  show ?thesis
  proof (cases "(\<exists>y. a = Inl y) \<or> map_of (mem_responses mem1) entry = None")
    case True
    with a assms(2) have "spec_of taken s' = spec_of taken (mem1, e1)" by (auto simp: open_response_def split: sum.splits)
    with r show ?thesis by (simp add: refines_def)
  next
    case False
    then obtain u c where u: "a = Inr u" "map_of (mem_responses mem1) entry = Some c" by (cases a) auto
    obtain b mem2 e2 where b: "discard_open tp entry c (mem1, e1) = (b, mem2, e2)" by (metis prod_cases3)
    from u b a assms(2) have "spec_of taken s' = spec_of taken (mem2, e2)" by (cases b) (auto simp: open_response_def)
    with refines_trans [OF r discard_open_refines [OF assms(1) b]] show ?thesis by (simp add: refines_def)
  qed
qed

lemma complete_into_refines:
  assumes "tp_env tp = env" and "complete_into tp turn ctx response s = (x, s')"
  shows "refines hash taken s s'"
proof -
  obtain a mem1 e1 where a: "ensure_turn tp turn ctx s = (a, mem1, e1)" by (metis prod_cases3)
  note r = ensure_turn_refines [OF assms(1) a]
  show ?thesis
  proof (cases a)
    case (Inl y)
    with a assms(2) r show ?thesis by (auto simp: complete_into_def)
  next
    case (Inr u)
    let ?open = "case map_of (mem_responses mem1) (resp_id response) of Some c \<Rightarrow> c | None \<Rightarrow> new_response tp turn (resp_id response)"
    obtain b c mem2 e2 where b: "response_complete (tp_drafts tp) (queue_send tp (or_message ?open)) response (or_control ?open, mem1, e1) = (b, c, mem2, e2)"
      by (metis prod_cases4)
    have "refines hash taken (mem1, e1) (mem2, e2)"
      by (rule complete_moves [OF _ refines_reflp refines_transp b]) (rule queue_send_refines [OF assms(1)])
    moreover have "spec_of taken s' = spec_of taken (mem2, e2)"
      using a b Inr assms(2) by (cases b) (auto simp: complete_into_def Let_def)
    ultimately show ?thesis using r refines_trans [OF r] by (simp add: refines_def)
  qed
qed

lemma discard_response_refines:
  assumes "tp_env tp = env" and "discard_response tp entry s = (x, s')"
  shows "refines hash taken s s'"
proof -
  obtain mem e where s: "s = (mem, e)" by (cases s)
  show ?thesis
  proof (cases "map_of (mem_responses mem) entry")
    case None
    with assms(2) show ?thesis by (auto simp: discard_response_def s)
  next
    case (Some c)
    obtain b mem2 e2 where b: "discard_open tp entry c (mem, e) = (b, mem2, e2)" by (metis prod_cases3)
    from Some b assms(2) have "spec_of taken s' = spec_of taken (mem2, e2)" by (cases b) (auto simp: discard_response_def s)
    with discard_open_refines [OF assms(1) b] show ?thesis by (simp add: refines_def s)
  qed
qed

lemma sink_send_refines:
  assumes "tp_env tp = env"
  shows "refines hash taken s (sink_send tp entry d s)"
proof (cases "map_of (mem_responses (fst s)) entry")
  case None
  then show ?thesis by (simp add: sink_send_def)
next
  case (Some c)
  obtain r mem e where d: "response_deliver (tp_drafts tp) (queue_send tp (or_message c)) d (or_control c, s) = (r, mem, e)"
    by (metis prod_cases3)
  have "refines hash taken s (mem, e)"
    by (rule deliver_moves [OF _ refines_reflp d]) (rule queue_send_refines [OF assms(1)])
  moreover have "spec_of taken (sink_send tp entry d s) = spec_of taken (mem, e)" using Some d by (simp add: sink_send_def)
  ultimately show ?thesis by (simp add: refines_def)
qed

lemma port_run_refines:
  assumes "\<And>s x s'. op s = (x, s') \<Longrightarrow> refines hash taken s s'" and "port_run op s = (y, s')"
  shows "refines hash taken s s'"
  using assms by (auto simp: port_run_def split: prod.splits)

end

end
