(* ===== verification/Thread_Port.thy ===== *)
theory Thread_Port
  imports Thread_Turns_Spec Thread_Queue_System
begin

text \<open>
  The port of one thread as a system: its operations one after another, with the rest of the adapter
  (deliveries, other threads, the drop) moving in between, the reads of the thread and the ends of
  agents. The contract \<open>turn_env\<close> is discharged by the thread queue, the contract \<open>delta_lane\<close> by the
  lane of a queued response.
\<close>

section \<open>The operations as one system\<close>

type_synonym Context = "(WriteContext, string) result"

datatype ('t, 'en) PortOp =
    AddInputTurn Context "'t InputTurn"
  | AddEntry Context AiTurnRef "'en TurnEntry"
  | CompleteResult Context AiTurnRef uuid 'en
  | CloseTurn Context AiTurnRef ClosureReason
  | AddAnnotation uuid uuid Annotation
  | QueueKeepalive uuid
  | OpenResponseOp AiTurnRef "WriteContext option" uuid
  | CompleteResponse Context AiTurnRef ModelResponse
  | DiscardResponse uuid
  | OpenResultOp AiTurnRef "WriteContext option"
  | SinkSend uuid "DeltaOp ResponseDelta"

fun port_op :: "('t, 'en, 'dr, 'e) ThreadPort \<Rightarrow> ('t, 'en) PortOp \<Rightarrow> 'dr Mem \<times> 'e \<Rightarrow> 'dr Mem \<times> 'e" where
  "port_op tp (AddInputTurn c turn) s = snd (add_input_turn tp c turn s)"
| "port_op tp (AddEntry c turn entry) s = snd (add_entry tp c turn entry s)"
| "port_op tp (CompleteResult c turn entry results) s = snd (complete_result tp c turn entry results s)"
| "port_op tp (CloseTurn c turn reason) s = snd (close_turn tp c turn reason s)"
| "port_op tp (AddAnnotation m after a) s = snd (add_annotation tp m after a s)"
| "port_op tp (QueueKeepalive m) s = snd (queue_keepalive tp m s)"
| "port_op tp (OpenResponseOp turn ctx entry) s = snd (port_run (open_response tp turn ctx entry) s)"
| "port_op tp (CompleteResponse c turn response) s = snd (complete_response tp c turn response s)"
| "port_op tp (DiscardResponse entry) s = snd (port_run (discard_response tp entry) s)"
| "port_op tp (OpenResultOp turn ctx) s = snd (port_run (open_result tp turn ctx) s)"
| "port_op tp (SinkSend entry d) s = sink_send tp entry d s"

text \<open>An operation goes without a context only when its look found the turn open.\<close>

fun port_allowed :: "('t, 'en) PortOp \<Rightarrow> 'dr Mem \<Rightarrow> bool" where
  "port_allowed (OpenResponseOp turn None _) mem \<longleftrightarrow> needs_opening turn mem = Ok False"
| "port_allowed (OpenResultOp turn None) mem \<longleftrightarrow> needs_opening turn mem = Ok False"
| "port_allowed _ mem \<longleftrightarrow> True"

record ('dr, 'e) PortSys =
  ps_mem :: "'dr Mem"
  ps_env :: 'e
  ps_from :: "uuid \<Rightarrow> nat"
  ps_base :: "nat \<times> uuid option"

datatype ('t, 'en, 'e) PortEvent = PCall "('t, 'en) PortOp" | PWorld 'e | PRead "uuid list" | PForget uuid

inductive port_step :: "('t, 'en, 'dr, 'e) ThreadPort \<Rightarrow> ('e \<Rightarrow> Item list) \<Rightarrow> ('dr, 'e) PortSys \<Rightarrow> ('t, 'en, 'e) PortEvent \<Rightarrow> ('dr, 'e) PortSys \<Rightarrow> bool"
  for tp taken where
  port_call: "port_allowed op (ps_mem s) \<Longrightarrow> port_op tp op (ps_mem s, ps_env s) = (mem, e) \<Longrightarrow>
    port_step tp taken s (PCall op) (s\<lparr>ps_mem := mem, ps_env := e\<rparr>)"
| port_world: "taken e = taken (ps_env s) \<Longrightarrow> port_step tp taken s (PWorld e) (s\<lparr>ps_env := e\<rparr>)"
| port_read: "port_step tp taken s (PRead turns)
    (s\<lparr>ps_mem := read_tip turns (ps_mem s), ps_base := (length (taken (ps_env s)), mem_tip (read_tip turns (ps_mem s)))\<rparr>)"
| port_forget: "port_step tp taken s (PForget agent)
    (s\<lparr>ps_mem := forget_agent agent (ps_mem s),
       ps_from := (\<lambda>m. if m \<in> set (ended_turns agent (ps_mem s)) then length (taken (ps_env s)) else ps_from s m)\<rparr>)"

definition port_init :: "('e \<Rightarrow> Item list) \<Rightarrow> ('dr, 'e) PortSys \<Rightarrow> bool" where
  "port_init taken s \<longleftrightarrow> ps_mem s = mem_new \<and> taken (ps_env s) = [] \<and> ps_from s = (\<lambda>_. 0) \<and> ps_base s = (0, None)"

definition port_inv :: "SealHash \<Rightarrow> ('e \<Rightarrow> Item list) \<Rightarrow> ('dr, 'e) PortSys \<Rightarrow> bool" where
  "port_inv hash taken s \<longleftrightarrow> spec_ok hash (ps_from s) (ps_base s) (spec_of taken (ps_mem s, ps_env s))"

lemma map_of_without: "map_of (filter (\<lambda>(m, _). m \<notin> A) xs) m = (if m \<in> A then None else map_of xs m)"
  by (induction xs) auto

lemma forget_turns [simp]: "map_of (mem_turns (forget_agent agent mem)) m =
    (if m \<in> set (ended_turns agent mem) then None else map_of (mem_turns mem) m)"
  by (simp add: forget_agent_def map_of_without)

lemma forget_tip [simp]: "mem_tip (forget_agent agent mem) = mem_tip mem"
  by (simp add: forget_agent_def)

context turn_env
begin

lemma port_op_refines:
  assumes "tp_env tp = env"
  shows "refines (tp_hash tp) taken s (port_op tp op s)"
proof -
  have pr: "refines (tp_hash tp) taken s (snd (port_run f s))" if "\<And>s x s'. f s = (x, s') \<Longrightarrow> refines (tp_hash tp) taken s s'" for f
    by (rule port_run_refines [of f _ s "fst (port_run f s)"]) (use that in auto)
  have en: "refines (tp_hash tp) taken s (snd (entry_with_context tp c turn entry s))" for c turn entry
    using pr [of "entry_into_turn tp turn _ _ _"] entry_into_turn_refines [OF assms]
    by (auto simp: entry_with_context_def split: sum.splits)
  show ?thesis
  proof (cases op)
    case (AddInputTurn c turn)
    then show ?thesis using pr [of "input_turn_into tp turn _ _"] input_turn_refines [OF assms]
      by (auto simp: add_input_turn_def split: sum.splits)
  next
    case (AddEntry c turn entry)
    then show ?thesis using en by (simp add: add_entry_def)
  next
    case (CompleteResult c turn entry results)
    then show ?thesis using en by (simp add: complete_result_def)
  next
    case (CloseTurn c turn reason)
    then show ?thesis using pr [of "close_into tp turn reason _ _"] close_into_refines [OF assms]
      by (auto simp: close_turn_def split: sum.splits)
  next
    case (AddAnnotation m after a)
    then show ?thesis using pr [of "annotate_into tp m after _"] annotate_refines [OF assms]
      by (auto simp: add_annotation_def split: sum.splits)
  next
    case (QueueKeepalive m)
    then show ?thesis using keepalive_refines [OF assms, of m s "fst (queue_keepalive tp m s)" "snd (queue_keepalive tp m s)"] by simp
  next
    case (OpenResponseOp turn ctx entry)
    then show ?thesis using pr [of "open_response tp turn ctx entry"] open_response_refines [OF assms] by simp
  next
    case (CompleteResponse c turn response)
    then show ?thesis using pr [of "complete_into tp turn _ response"] complete_into_refines [OF assms]
      by (auto simp: complete_response_def split: sum.splits)
  next
    case (DiscardResponse entry)
    then show ?thesis using pr [of "discard_response tp entry"] discard_response_refines [OF assms] by simp
  next
    case (OpenResultOp turn ctx)
    then show ?thesis using pr [of "open_result tp turn ctx"] ensure_with_refines [OF assms] by (simp add: open_result_def)
  next
    case (SinkSend entry d)
    then show ?thesis using sink_send_refines [OF assms] by simp
  qed
qed

lemma port_step_inv:
  assumes "tp_env tp = env" and "port_step tp taken s e s'" and "port_inv (tp_hash tp) taken s"
  shows "port_inv (tp_hash tp) taken s'"
  using assms(2)
proof (cases rule: port_step.cases)
  case (port_call op mem e)
  have "refines (tp_hash tp) taken (ps_mem s, ps_env s) (mem, e)"
    using port_op_refines [OF assms(1), of "(ps_mem s, ps_env s)" op] port_call(4) by simp
  with assms(3) show ?thesis by (simp add: port_inv_def port_call(2) refines_def spec_steps_ok)
next
  case (port_forget agent)
  from assms(3) show ?thesis
    by (auto simp: port_forget(2) port_inv_def spec_ok_def spec_of_def stream_shape_def stream_of_def)
qed (use assms(3) in \<open>auto simp: port_inv_def spec_ok_def spec_of_def read_tip_def\<close>)

lemma port_reach_inv:
  assumes "tp_env tp = env" and "reach (port_init taken) (port_step tp taken) s"
  shows "port_inv (tp_hash tp) taken s"
  using assms(2)
proof (induction rule: reach.induct)
  case (reach_init s)
  then show ?case
    by (simp add: port_init_def port_inv_def spec_ok_def spec_of_def mem_new_def stream_shape_def stream_of_def)
next
  case (reach_step s e s')
  then show ?case using port_step_inv [OF assms(1)] by blast
qed

end

section \<open>The thread queue as the rest of the adapter\<close>

text \<open>
  \<open>accept\<close> of \<open>adapter/accept.rs\<close> as one call: the store, then the queue. The ids to come and the time
  are part of the state; the log is what was accepted.
\<close>

record 's QueueEnv =
  qe_inner :: "'s Inner"
  qe_next :: uuid
  qe_now :: instant
  qe_log :: "Item list"

definition queue_accept :: "'s QueueStore \<Rightarrow> Codec \<Rightarrow> uuid \<Rightarrow> Item \<Rightarrow> 's QueueEnv \<Rightarrow> (unit, TError) result \<times> 's QueueEnv" where
  "queue_accept ops codec thread item q =
     (case accept_append ops codec thread item (qe_inner q) of
        (Inl x, n) \<Rightarrow> (Err x, q\<lparr>qe_inner := n\<rparr>)
      | (Inr _, n) \<Rightarrow>
          (Ok (), q\<lparr>qe_inner := snd (enqueue_item thread item (qe_now q) n), qe_log := qe_log q @ [item]\<rparr>))"

definition queue_env :: "'s QueueStore \<Rightarrow> Codec \<Rightarrow> uuid \<Rightarrow> 's QueueEnv TurnEnv" where
  "queue_env ops codec thread =
     \<lparr>env_accept = queue_accept ops codec thread, env_uuid = (\<lambda>q. (qe_next q, q\<lparr>qe_next := qe_next q + 1\<rparr>)),
      env_now = qe_now, env_broken = (\<lambda>m q. message_broken m (qe_inner q)),
      env_refused = (\<lambda>m q. message_refused m (qe_inner q)),
      env_idle = (\<lambda>q. sl_items (inner_slot thread (qe_inner q)) = []), env_stopped = (\<lambda>q. in_stopped (qe_inner q))\<rparr>"

lemma accept_append_err: "accept_append ops codec thread item n = (Err x, n') \<Longrightarrow> \<exists>msg. x = TStore msg"
  by (auto simp: accept_append_def item_stored_def from_store_is_store split: if_splits sum.splits prod.splits)

interpretation queue: turn_env "queue_env ops codec thread" qe_log
  by unfold_locales
    (auto simp: queue_env_def queue_accept_def split: prod.splits sum.splits dest: accept_append_err)

section \<open>The lane of a queued response\<close>

text \<open>A lane that remembers what it took; it is full at 2^64 chunks of its message.\<close>

definition logged_send :: "'ln Send \<Rightarrow> ('ln \<times> DeltaOp ResponseDelta list) Send" where
  "logged_send send d s =
     (case s of (ln, log) \<Rightarrow>
        case send d ln of (Inr u, ln') \<Rightarrow> (Inr u, ln', log @ [d]) | (Inl x, ln') \<Rightarrow> (Inl x, ln', log))"

definition lane_full :: "uuid \<Rightarrow> ('dr Mem \<times> 'e) \<times> DeltaOp ResponseDelta list \<Rightarrow> bool" where
  "lane_full m s = (case map_of (mem_turns (fst (fst s))) m of Some st \<Rightarrow> 2 ^ 64 \<le> length (ts_chunks st) | None \<Rightarrow> False)"

definition json_total :: "('t, 'en, 'd) ThreadLib \<Rightarrow> bool" where
  "json_total lib \<longleftrightarrow> (\<forall>op. \<exists>j. lib_delta_json lib op = Ok j)"

context turn_env
begin

lemma push_new_err:
  assumes "tp_env tp = env" and "push_new tp m entries chunk s = (Err x, s')"
  shows "fst s' = fst s" and "stops_completion x \<or> (\<exists>st. map_of (mem_turns (fst s)) m = Some st \<and> 2 ^ 64 \<le> length (ts_chunks st))"
  using assms accept_err_store
  by (auto simp: push_new_def push_chunk_def split: prod.splits option.splits if_splits sum.splits) fastforce+

lemma push_new_full:
  assumes "tp_env tp = env" and "map_of (mem_turns (fst s)) m = Some st" and "2 ^ 64 \<le> length (ts_chunks st)"
  shows "\<exists>x s'. push_new tp m entries chunk s = (Err x, s') \<and> fst s' = fst s"
  using assms by (auto simp: push_new_def push_chunk_def split: prod.splits)

lemma queue_lane:
  fixes tp :: "('t, 'en, 'dr, 'e) ThreadPort"
  assumes "tp_env tp = env" and "json_total (tp_lib tp)"
  shows "delta_lane (logged_send (queue_send tp m)) snd (lane_full m) m"
proof
  fix d :: "DeltaOp ResponseDelta" and e and ln ln' :: "('dr Mem \<times> 'e) \<times> DeltaOp ResponseDelta list"
  obtain s log s' log' where ln: "ln = (s, log)" "ln' = (s', log')" by (cases ln, cases ln')
  show "snd ln' = snd ln @ [d]" if "logged_send (queue_send tp m) d ln = (Ok (), ln')"
    using that by (auto simp: logged_send_def split: prod.splits sum.splits)
  show "snd ln' = snd ln" if "logged_send (queue_send tp m) d ln = (Err e, ln')"
    using that by (auto simp: logged_send_def split: prod.splits sum.splits)
  show "stops_completion e \<or> lane_full m ln'" if "logged_send (queue_send tp m) d ln = (Err e, ln')" and "delta_turn d = m"
  proof -
    obtain j where j: "lib_delta_json (tp_lib tp) (delta_body d) = Ok j" using assms(2) unfolding json_total_def by blast
    from that j have p: "push_new tp m [delta_entry d] (DeltaChunk j) s = (Err e, s')"
      by (auto simp: logged_send_def ln queue_send_def delta_chunk_def split: prod.splits sum.splits)
    from push_new_err [OF assms(1) p] show ?thesis by (auto simp: lane_full_def ln)
  qed
  show "\<exists>e ln'. logged_send (queue_send tp m) d ln = (Err e, ln') \<and> lane_full m ln'" if full: "lane_full m ln"
  proof -
    from full obtain st where st: "map_of (mem_turns (fst s)) m = Some st" "2 ^ 64 \<le> length (ts_chunks st)"
      by (auto simp: lane_full_def ln split: option.splits)
    have "\<exists>x s'. queue_send tp m d s = (Err x, s') \<and> fst s' = fst s"
      using push_new_full [OF assms(1) st] by (auto simp: queue_send_def simp del: split_paired_Ex split: sum.splits)
    then obtain x s'' where "queue_send tp m d s = (Err x, s'')" "fst s'' = fst s" by blast
    then show ?thesis using st by (auto simp: logged_send_def ln lane_full_def)
  qed
qed

end

section \<open>An example\<close>

text \<open>
  A library that writes a delta as a fixed text, a draft that is the list of its deltas, and the
  port of the thread 7 on a store in memory.
\<close>

definition demo_lib7 :: "(unit, unit, DeltaOp) ThreadLib" where
  "demo_lib7 = \<lparr>lib_v7 = (\<lambda>_. True), lib_turn_json = (\<lambda>_. Ok ''turn''), lib_entry_json = (\<lambda>_. Ok ''entry''),
     lib_delta_json = (\<lambda>_. Ok ''delta''), lib_reason_json = (\<lambda>_. Ok ''reason''), lib_detail = (\<lambda>_. Ok ())\<rparr>"

type_synonym ListDraft = "uuid \<times> uuid \<times> DeltaOp list"

definition list_apply :: "DeltaOp ResponseDelta \<Rightarrow> ListDraft \<Rightarrow> (unit, string) result \<times> ListDraft" where
  "list_apply d dr =
     (case dr of (turn, entry, ops) \<Rightarrow>
        if delta_turn d = turn \<and> delta_entry d = entry then (Ok (), (turn, entry, ops @ [delta_body d])) else (Err ''other'', dr))"

definition list_response :: "ListDraft \<Rightarrow> ModelResponse option" where
  "list_response dr =
     (case dr of (turn, entry, ops) \<Rightarrow>
        case ops of
          [ResponseStarted m, BlockInserted b, ResponseCompleted x] \<Rightarrow>
            Some \<lparr>resp_id = entry, resp_metadata = m, resp_blocks = [b], resp_ending = x\<rparr>
        | _ \<Rightarrow> None)"

definition list_drafts :: "ListDraft DraftLib" where
  "list_drafts = \<lparr>dl_new = (\<lambda>turn entry. (turn, entry, [])), dl_turn = fst, dl_entry = fst \<circ> snd, dl_apply = list_apply,
     dl_slots = (\<lambda>_. []), dl_unstarted = (\<lambda>dr. snd (snd dr) = []), dl_metadata = (\<lambda>_. \<lparr>md_usage = None, md_model = None, md_provider_id = None\<rparr>),
     dl_response = list_response\<rparr>"

definition plain_codec :: Codec where
  "plain_codec = \<lparr>codec_v7 = (\<lambda>_. True), codec_write = (\<lambda>_. Ok ''item''), codec_read = (\<lambda>_. Err ''unread'')\<rparr>"

definition demo_port :: "(unit, unit, ListDraft, StoredItem list QueueEnv) ThreadPort" where
  "demo_port = \<lparr>tp_lib = demo_lib7, tp_hash = (\<lambda>_. Ok ''hash''), tp_drafts = list_drafts,
     tp_env = queue_env memory_ops plain_codec 7, tp_thread = 7, tp_interval = 30\<rparr>"

definition demo_env :: "StoredItem list QueueEnv" where
  "demo_env = \<lparr>qe_inner = inner_new [], qe_next = 100, qe_now = 0, qe_log = []\<rparr>"

definition demo_turn :: AiTurnRef where
  "demo_turn = \<lparr>tr_id = 21, tr_agent = 5, tr_author = ''agent''\<rparr>"

definition demo_context :: WriteContext where
  "demo_context = \<lparr>wc_agent = 5, wc_author = ''agent'', wc_job_id = None, wc_acting_user_id = None, wc_impersonator_id = None\<rparr>"

definition demo_response :: ModelResponse where
  "demo_response = \<lparr>resp_id = 31, resp_metadata = \<lparr>md_usage = None, md_model = None, md_provider_id = None\<rparr>,
     resp_blocks = [\<lparr>block_id = 41, block_body = ''hello''\<rparr>], resp_ending = ''stop''\<rparr>"

lemma list_drafts_ok: "draft_ok list_drafts"
  by (auto simp: draft_ok_def list_drafts_def list_apply_def split: prod.splits if_splits)

lemma demo_json: "json_total (tp_lib demo_port)"
  by (simp add: json_total_def demo_port_def demo_lib7_def)

lemma demo_port_env: "tp_env demo_port = queue_env memory_ops plain_codec 7"
  by (simp add: demo_port_def)

interpretation demo_lane: delta_lane "logged_send (queue_send demo_port m)" snd "lane_full m" m
  by (rule queue.queue_lane [OF demo_port_env demo_json])

text \<open>An entry into a new turn, then its completion.\<close>

definition demo_entry_op :: "(unit, unit) PortOp" where
  "demo_entry_op = AddEntry (Ok demo_context) demo_turn \<lparr>turn_entry_id = 31, turn_entry_kind = EkOther, turn_entry_body = ()\<rparr>"

definition demo_close_op :: "(unit, unit) PortOp" where
  "demo_close_op = CloseTurn (Ok demo_context) demo_turn \<lparr>reason_kind = Some CkCompleted, reason_detail = None\<rparr>"

definition demo_after :: "ListDraft Mem \<times> StoredItem list QueueEnv" where
  "demo_after = port_op demo_port demo_close_op (port_op demo_port demo_entry_op (mem_new, demo_env))"

lemmas demo_ops = port_run_def port_result_def add_entry_def entry_with_context_def entry_into_turn_def
  ensure_turn_def push_new_def push_chunk_def close_turn_def close_into_def close_turn_seal_def close_item_def turn_chunks_def
  demo_port_def demo_entry_op_def demo_close_op_def demo_env_def demo_context_def demo_turn_def demo_lib7_def mem_new_def
  queue_env_def queue_accept_def accept_append_def item_stored_def plain_codec_def memory_ops_def memory_append_def
  entry_chunk_def closure_kind_of_def wire_closing_def require_v7_def carries_content_def put_turn_def opening_item_def
  chunk_item_def command_item_def wire_store_def store_parts_def seal_of_def Let_def enqueue_item_def inner_new_def
  set_slot_def inner_slot_def inner_report_def push_item_def slot_bump_def slot_new_def

lemma demo_kinds: "map it_kind (qe_log (snd demo_after)) = [KOpening, KChunk, KClosing]"
  by (simp add: demo_after_def demo_ops)

text \<open>A response into the turn of the entry, completed without a delta before.\<close>

definition demo_completed :: "(unit, TError) result \<times> ListDraft Response \<times> (ListDraft Mem \<times> StoredItem list QueueEnv) \<times> DeltaOp ResponseDelta list" where
  "demo_completed = response_complete list_drafts (logged_send (queue_send demo_port 21)) demo_response
     (response_pair list_drafts 21 31, port_op demo_port demo_entry_op (mem_new, demo_env), [])"

lemmas demo_responses = demo_response_def response_complete_def response_pair_def whole_response_deltas_def whole_ops_def
  list_drafts_def list_apply_def list_response_def wrap_delta_def failure_stops_def logged_send_def queue_send_def delta_chunk_def

lemma demo_completed_ok: "fst demo_completed = Ok ()" "length (snd (snd (snd demo_completed))) = 3"
  by (simp_all add: demo_completed_def demo_responses demo_ops)

section \<open>Properties\<close>

text \<open>
  C3: the items of a message on the wire form a well-formed stream, whatever the callers do. In
  every reachable state of the port of a thread, for any adapter that keeps its contract, the items
  accepted for a message are its opening, then its chunks numbered 0, 1, 2 and on (as 64-bit
  numbers that do not wrap), then at most one closing, which carries the seal of exactly these chunks
  or, unless it is a completion, none; nothing follows a closing. A message that was never opened
  has at most a closing. And each message queued since the last read has the message before it as
  its parent. The stream of a message counts anew when its agent's instance has ended.
\<close>

theorem thread_streams_well_formed:
  assumes "turn_env (tp_env tp) taken" and "reach (port_init taken) (port_step tp taken) s"
  shows "(\<forall>m. stream_shape (tp_hash tp)
       (map_option (\<lambda>st. (ts_chunks st, ts_closed st)) (map_of (mem_turns (ps_mem s)) m))
       (stream_of m (drop (ps_from s m) (taken (ps_env s))))) \<and>
    follow_tip (snd (ps_base s)) (drop (fst (ps_base s)) (taken (ps_env s))) = Some (mem_tip (ps_mem s))"
  using turn_env.port_reach_inv [OF assms(1) refl assms(2)] by (simp add: port_inv_def spec_ok_def spec_of_def)

definition demo_sys :: "ListDraft Mem \<times> StoredItem list QueueEnv \<Rightarrow> (ListDraft, StoredItem list QueueEnv) PortSys" where
  "demo_sys s = \<lparr>ps_mem = fst s, ps_env = snd s, ps_from = (\<lambda>_. 0), ps_base = (0, None)\<rparr>"

lemma demo_sys_call:
  assumes "reach (port_init qe_log) (port_step demo_port qe_log) (demo_sys s)" and "port_allowed op (fst s)"
  shows "reach (port_init qe_log) (port_step demo_port qe_log) (demo_sys (port_op demo_port op s))"
proof -
  obtain mem e where p: "port_op demo_port op s = (mem, e)" by (cases "port_op demo_port op s")
  have "port_step demo_port qe_log (demo_sys s) (PCall op) ((demo_sys s)\<lparr>ps_mem := mem, ps_env := e\<rparr>)"
    by (rule port_call) (use assms(2) p in \<open>simp_all add: demo_sys_def\<close>)
  with assms(1) have "reach (port_init qe_log) (port_step demo_port qe_log) ((demo_sys s)\<lparr>ps_mem := mem, ps_env := e\<rparr>)"
    by (rule reach_step)
  then show ?thesis by (simp add: demo_sys_def p)
qed

lemma demo_sys_start: "reach (port_init qe_log) (port_step demo_port qe_log) (demo_sys (mem_new, demo_env))"
  by (rule reach_init) (simp add: port_init_def demo_sys_def demo_env_def)

theorem thread_streams_well_formed_witness:
  "map it_kind (qe_log (snd demo_after)) = [KOpening, KChunk, KClosing] \<and>
   follow_tip None (qe_log (snd demo_after)) = Some (mem_tip (fst demo_after))"
proof -
  have "turn_env (tp_env demo_port) qe_log" unfolding demo_port_env by (rule queue.turn_env_axioms)
  moreover have "reach (port_init qe_log) (port_step demo_port qe_log) (demo_sys demo_after)"
    unfolding demo_after_def by (intro demo_sys_call demo_sys_start) (simp_all add: demo_entry_op_def demo_close_op_def)
  ultimately have "follow_tip (snd (ps_base (demo_sys demo_after))) (drop (fst (ps_base (demo_sys demo_after))) (qe_log (ps_env (demo_sys demo_after)))) =
      Some (mem_tip (ps_mem (demo_sys demo_after)))"
    by (rule conjunct2 [OF thread_streams_well_formed])
  with demo_kinds show ?thesis by (simp add: demo_sys_def)
qed



end
