(* ===== verification/Thread_Stream.thy ===== *)
theory Thread_Stream
  imports Threads_Model
begin

text \<open>
  The handle of a streamed message (\<open>stream/shared.rs\<close>, \<open>stream/writes.rs\<close>) and its closing
  (\<open>client/close.rs\<close>). A push holds the gate from its judgement until the bus answered, so it is two
  steps between which no other push and no closing begins; a closing holds the gate only until its
  command is built, so pushes and other closings come between its begin and its end. A call that is
  dropped meanwhile is a step of its own: a dropped push breaks the handle, a dropped closing is
  lost. The closings of a handle are kept in the order of their numbers.
\<close>

section \<open>The handle\<close>

datatype ClosingState = ClWaiting | ClRefused | ClLost | ClConfirmed

record Core =
  core_message :: uuid
  core_chunks :: "Chunk list"
  core_broken :: bool
  core_closings :: "(nat \<times> ClosingState) list"
  next_closing :: nat

definition core_new :: "uuid \<Rightarrow> Core" where
  "core_new message = \<lparr>core_message = message, core_chunks = [], core_broken = False, core_closings = [], next_closing = 0\<rparr>"

definition core_confirmed :: "Core \<Rightarrow> bool" where
  "core_confirmed c \<longleftrightarrow> list_ex (\<lambda>(_, st). st = ClConfirmed) (core_closings c)"

definition judge_chunk :: "Core \<Rightarrow> (unit, TError) result" where
  "judge_chunk c =
     (if core_confirmed c then Err StreamClosed
      else if core_broken c then Err StreamBroken
      else if list_ex (\<lambda>(_, st). st \<noteq> ClRefused) (core_closings c) then Err StreamClosed
      else Ok ())"

definition judge_closing :: "bool \<Rightarrow> Core \<Rightarrow> (unit, TError) result" where
  "judge_closing sealed c =
     (if core_confirmed c then Err StreamClosed
      else if sealed \<and> core_broken c then Err StreamBroken
      else Ok ())"

definition core_healthy :: "Core \<Rightarrow> bool" where
  "core_healthy c \<longleftrightarrow> \<not> core_broken c \<and> list_all (\<lambda>(_, st). st = ClRefused) (core_closings c)"

definition break_handle :: "Core \<Rightarrow> Core" where
  "break_handle c = c\<lparr>core_broken := True\<rparr>"

text \<open>A push up to its publication: the number of the chunk and the chunk, or the error.\<close>

definition push_begin :: "(Chunk, TError) result \<Rightarrow> Core \<Rightarrow> (u64 \<times> Chunk, TError) result \<times> Core" where
  "push_begin build c =
     (case judge_chunk c of
        Inl e \<Rightarrow> (Err e, c)
      | Inr _ \<Rightarrow>
          (case build of
             Inl e \<Rightarrow> (Err e, c)
           | Inr chunk \<Rightarrow>
               if length (core_chunks c) < 2 ^ 64 then
                 (Ok (of_nat (length (core_chunks c)), chunk), c\<lparr>core_chunks := core_chunks c @ [chunk]\<rparr>)
               else (Err StreamBroken, c)))"

definition push_end :: "(unit, TError) result \<Rightarrow> Core \<Rightarrow> (unit, TError) result \<times> Core" where
  "push_end published c =
     (case published of Inr _ \<Rightarrow> (Ok (), c) | Inl _ \<Rightarrow> (Err StreamBroken, break_handle c))"

definition begin_closing :: "Core \<Rightarrow> nat \<times> Core" where
  "begin_closing c =
     (next_closing c,
      c\<lparr>next_closing := next_closing c + 1, core_closings := bt_insert (next_closing c) ClWaiting (core_closings c)\<rparr>)"

definition settle :: "nat \<Rightarrow> ClosingState option \<Rightarrow> Core \<Rightarrow> Core" where
  "settle i outcome c =
     (case outcome of
        Some st \<Rightarrow> c\<lparr>core_closings := bt_insert i st (core_closings c)\<rparr>
      | None \<Rightarrow> c\<lparr>core_closings := bt_remove i (core_closings c)\<rparr>)"

section \<open>The closing of a message\<close>

record Closing =
  closing_command_id :: uuid
  closing_thread_id :: uuid
  closing_message_id :: uuid
  closing_kind :: ClosureKind
  closing_detail :: "string option"
  closing_acting_user :: "uuid option"
  closing_wait :: duration

definition close_parts :: "Closing \<Rightarrow> ClosureReason \<Rightarrow> StreamSeal option \<Rightarrow> CloseParts" where
  "close_parts closing reason seal =
     \<lparr>cp_command_id = closing_command_id closing, cp_thread_id = closing_thread_id closing,
      cp_message_id = closing_message_id closing, cp_reason = reason, cp_seal = seal,
      cp_acting_user_id = closing_acting_user closing\<rparr>"

text \<open>A closing by the id of the message alone: the command it sends.\<close>

definition close_without_handle :: "('t, 'en, 'd) ThreadLib \<Rightarrow> Closing \<Rightarrow> (Command, TError) result" where
  "close_without_handle lib closing =
     (case require_wait (closing_wait closing) ''the outcome wait'' of
        Inl e \<Rightarrow> Err e
      | Inr _ \<Rightarrow>
          (case closure_reason lib (closing_kind closing) (closing_detail closing) of
             Inl e \<Rightarrow> Err e
           | Inr reason \<Rightarrow>
               if closing_kind closing = CkCompleted then
                 Err (TInvalidInput ''a Completed closing needs the handle of the stream'')
               else wire_closing lib (close_parts closing reason None)))"

definition close_seal :: "SealHash \<Rightarrow> bool \<Rightarrow> Core \<Rightarrow> (StreamSeal option, TError) result" where
  "close_seal hash completed c =
     (if carries_content (core_chunks c) \<and> (completed \<or> core_healthy c) then
        (case seal_of hash (core_chunks c) of Inl e \<Rightarrow> Err e | Inr seal \<Rightarrow> Ok (Some seal))
      else Ok None)"

text \<open>A closing with the handle, up to the sending of its command.\<close>

definition close_begin ::
  "('t, 'en, 'd) ThreadLib \<Rightarrow> SealHash \<Rightarrow> Closing \<Rightarrow> Core \<Rightarrow> (nat \<times> Command, TError) result \<times> Core" where
  "close_begin lib hash closing c =
     (case require_wait (closing_wait closing) ''the outcome wait'' of
        Inl e \<Rightarrow> (Err e, c)
      | Inr _ \<Rightarrow>
          (case closure_reason lib (closing_kind closing) (closing_detail closing) of
             Inl e \<Rightarrow> (Err e, c)
           | Inr reason \<Rightarrow>
               if core_message c \<noteq> closing_message_id closing then
                 (Err (TInvalidInput ''the handle belongs to another message''), c)
               else
                 (let completed = (closing_kind closing = CkCompleted) in
                  case judge_closing completed c of
                    Inl e \<Rightarrow> (Err e, c)
                  | Inr _ \<Rightarrow>
                      if completed \<and> \<not> carries_content (core_chunks c) then
                        (Err (TInvalidInput ''a Completed closing needs at least one chunk to seal''), c)
                      else
                        (case close_seal hash completed c of
                           Inl e \<Rightarrow> (Err e, c)
                         | Inr seal \<Rightarrow>
                             (case wire_closing lib (close_parts closing reason seal) of
                                Inl e \<Rightarrow> (Err e, c)
                              | Inr command \<Rightarrow>
                                  (case begin_closing c of (i, c') \<Rightarrow> (Ok (i, command), c')))))))"

text \<open>What the answer of Threads makes of the closing \<open>i\<close>; \<open>None\<close>: the call was dropped.\<close>

definition close_settled :: "(CommandOutcome, TError) result option \<Rightarrow> ClosingState option" where
  "close_settled r =
     (case r of
        None \<Rightarrow> Some ClLost
      | Some (Inr _) \<Rightarrow> Some ClConfirmed
      | Some (Inl (TUnavailable _)) \<Rightarrow> None
      | Some (Inl (TRefused _)) \<Rightarrow> Some ClRefused
      | Some (Inl _) \<Rightarrow> Some ClLost)"

definition close_end :: "nat \<Rightarrow> (CommandOutcome, TError) result option \<Rightarrow> Core \<Rightarrow> Core" where
  "close_end i r c = settle i (close_settled r) c"

section \<open>The steps\<close>

text \<open>
  \<open>pushing\<close> is the push that holds the gate, \<open>sent\<close> the closings that wait for their answer. Histories:
  \<open>h_published\<close>, the chunks given to the bus with their numbers and whether the bus took them
  (\<open>None\<close> while it has not answered), and \<open>h_commands\<close>, the command of every closing that began.
\<close>

record StreamSys =
  score :: Core
  pushing :: bool
  sent :: "nat list"
  h_published :: "(u64 \<times> Chunk \<times> bool option) list"
  h_commands :: "nat \<rightharpoonup> Command"

definition set_last :: "bool \<Rightarrow> (u64 \<times> Chunk \<times> bool option) list \<Rightarrow> (u64 \<times> Chunk \<times> bool option) list" where
  "set_last b xs = butlast xs @ [(fst (last xs), fst (snd (last xs)), Some b)]"

datatype StreamEvent =
    SPush "(Chunk, TError) result"
  | SPushEnd "(unit, TError) result option"
  | SClose Closing
  | SCloseEnd nat "(CommandOutcome, TError) result option"

inductive stream_step ::
  "('t, 'en, 'd) ThreadLib \<Rightarrow> SealHash \<Rightarrow> StreamSys \<Rightarrow> StreamEvent \<Rightarrow> StreamSys \<Rightarrow> bool" for lib hash where
  st_push: "\<not> pushing s \<Longrightarrow> push_begin build (score s) = (Ok (q, chunk), c) \<Longrightarrow>
    stream_step lib hash s (SPush build)
      (s\<lparr>score := c, pushing := True, h_published := h_published s @ [(q, chunk, None)]\<rparr>)"
| st_push_error: "\<not> pushing s \<Longrightarrow> push_begin build (score s) = (Err e, c) \<Longrightarrow>
    stream_step lib hash s (SPush build) (s\<lparr>score := c\<rparr>)"
| st_push_end: "pushing s \<Longrightarrow>
    stream_step lib hash s (SPushEnd (Some r))
      (s\<lparr>score := snd (push_end r (score s)), pushing := False,
         h_published := set_last (r = Ok ()) (h_published s)\<rparr>)"
| st_push_dropped: "pushing s \<Longrightarrow>
    stream_step lib hash s (SPushEnd None)
      (s\<lparr>score := break_handle (score s), pushing := False, h_published := set_last False (h_published s)\<rparr>)"
| st_close: "\<not> pushing s \<Longrightarrow> close_begin lib hash closing (score s) = (Ok (i, command), c) \<Longrightarrow>
    stream_step lib hash s (SClose closing)
      (s\<lparr>score := c, sent := i # sent s, h_commands := (h_commands s)(i \<mapsto> command)\<rparr>)"
| st_close_error: "\<not> pushing s \<Longrightarrow> close_begin lib hash closing (score s) = (Err e, c) \<Longrightarrow>
    stream_step lib hash s (SClose closing) (s\<lparr>score := c\<rparr>)"
| st_close_end: "i \<in> set (sent s) \<Longrightarrow>
    stream_step lib hash s (SCloseEnd i r) (s\<lparr>score := close_end i r (score s), sent := remove1 i (sent s)\<rparr>)"

definition stream_init :: "uuid \<Rightarrow> StreamSys \<Rightarrow> bool" where
  "stream_init message s \<longleftrightarrow>
     s = \<lparr>score = core_new message, pushing = False, sent = [], h_published = [], h_commands = Map.empty\<rparr>"

section \<open>The invariant\<close>

definition numbered :: "Chunk list \<Rightarrow> (u64 \<times> Chunk) list" where
  "numbered chunks = map (\<lambda>i. (of_nat i, chunks ! i)) [0..<length chunks]"

definition closings_ok :: "StreamSys \<Rightarrow> bool" where
  "closings_ok s \<longleftrightarrow> bt_ordered (core_closings (score s)) \<and>
     (\<forall>i \<in> set (map fst (core_closings (score s))). i < next_closing (score s)) \<and>
     (\<forall>i \<in> set (sent s). map_of (core_closings (score s)) i = Some ClWaiting) \<and> distinct (sent s)"

definition published_ok :: "StreamSys \<Rightarrow> bool" where
  "published_ok s \<longleftrightarrow>
     map (\<lambda>(q, chunk, _). (q, chunk)) (h_published s) = numbered (core_chunks (score s)) \<and>
     (pushing s \<longrightarrow> h_published s \<noteq> []) \<and>
     (\<not> core_broken (score s) \<longrightarrow>
        list_all (\<lambda>(_, _, ok). ok = Some True) (if pushing s then butlast (h_published s) else h_published s))"

definition sealed_ok :: "SealHash \<Rightarrow> StreamSys \<Rightarrow> bool" where
  "sealed_ok hash s \<longleftrightarrow>
     (\<forall>i st. map_of (core_closings (score s)) i = Some st \<longrightarrow> st \<noteq> ClRefused \<longrightarrow>
        \<not> pushing s \<and>
        (\<forall>command seal. h_commands s i = Some command \<longrightarrow> command_seal (command_body command) = Some seal \<longrightarrow>
           seal_of hash (core_chunks (score s)) = Ok seal \<and> \<not> core_broken (score s)))"

definition stream_inv :: "SealHash \<Rightarrow> StreamSys \<Rightarrow> bool" where
  "stream_inv hash s \<longleftrightarrow> closings_ok s \<and> published_ok s \<and> sealed_ok hash s"

lemma list_ex_closings:
  "bt_ordered xs \<Longrightarrow> list_ex (\<lambda>(_, st). P st) xs \<longleftrightarrow> (\<exists>i st. map_of xs i = Some st \<and> P st)"
  by (auto simp: list_ex_iff map_of_eq_Some_iff bt.distinct_entries dest: map_of_SomeD)

lemma numbered_snoc: "numbered (chunks @ [chunk]) = numbered chunks @ [(of_nat (length chunks), chunk)]"
  by (simp add: numbered_def nth_append)

lemma push_begin_ok:
  assumes "push_begin build c = (Ok (q, chunk), c')"
  shows "judge_chunk c = Ok ()" and "q = of_nat (length (core_chunks c))"
    and "c' = c\<lparr>core_chunks := core_chunks c @ [chunk]\<rparr>" and "build = Ok chunk"
  using assms by (auto simp: push_begin_def split: sum.splits if_splits)

lemma push_begin_error: "push_begin build c = (Err e, c') \<Longrightarrow> c' = c"
  by (auto simp: push_begin_def split: sum.splits if_splits)

lemma judge_chunk_ok:
  assumes "bt_ordered (core_closings c)"
  shows "judge_chunk c = Ok () \<longleftrightarrow>
    \<not> core_broken c \<and> (\<forall>i st. map_of (core_closings c) i = Some st \<longrightarrow> st = ClRefused)"
  using assms by (auto simp: judge_chunk_def core_confirmed_def list_ex_closings)

lemma close_begin_error: "close_begin lib hash closing c = (Err e, c') \<Longrightarrow> c' = c"
  by (auto simp: close_begin_def Let_def begin_closing_def split: sum.splits if_splits)

lemma close_begin_ok:
  assumes "close_begin lib hash closing c = (Ok (i, command), c')"
  shows "c' = snd (begin_closing c)" and "i = next_closing c"
    and "command_message (command_body command) = Some (core_message c)"
    and "command_seal (command_body command) = Some seal \<Longrightarrow>
      seal_of hash (core_chunks c) = Ok seal \<and> \<not> core_broken c"
    and "(\<exists>m seal. command_body command = CompleteBody m seal) \<longleftrightarrow> closing_kind closing = CkCompleted"
    and "\<not> core_confirmed c"
proof -
  from assms obtain reason seal' where r: "closure_reason lib (closing_kind closing) (closing_detail closing) = Ok reason"
    and m: "core_message c = closing_message_id closing"
    and j: "judge_closing (closing_kind closing = CkCompleted) c = Ok ()"
    and s: "close_seal hash (closing_kind closing = CkCompleted) c = Ok seal'"
    and w: "wire_closing lib (close_parts closing reason seal') = Ok command"
    and b: "begin_closing c = (i, c')"
    by (auto simp: close_begin_def Let_def split: sum.splits if_splits prod.splits)
  note wire = wire_closing_ok [OF w]
  show "c' = snd (begin_closing c)" "i = next_closing c" using b by (auto simp: begin_closing_def)
  show "command_message (command_body command) = Some (core_message c)" using wire(2) m by (simp add: close_parts_def)
  show "\<not> core_confirmed c" using j by (simp add: judge_closing_def split: if_splits)
  have "reason_kind reason = Some (closing_kind closing)"
    using r by (auto simp: closure_reason_def split: if_splits option.splits sum.splits)
  with wire(5) show "(\<exists>m seal. command_body command = CompleteBody m seal) \<longleftrightarrow> closing_kind closing = CkCompleted"
    by (simp add: close_parts_def)
  show "seal_of hash (core_chunks c) = Ok seal \<and> \<not> core_broken c"
    if "command_seal (command_body command) = Some seal"
    using that wire(3) s j
    by (auto simp: close_parts_def close_seal_def judge_closing_def core_healthy_def split: if_splits sum.splits)
qed

lemma published_set_last:
  assumes "xs \<noteq> []"
  shows "map (\<lambda>(q, chunk, _). (q, chunk)) (set_last b xs) = map (\<lambda>(q, chunk, _). (q, chunk)) xs"
    and "list_all (\<lambda>(_, _, ok). ok = Some True) (set_last b xs) \<longleftrightarrow>
      list_all (\<lambda>(_, _, ok). ok = Some True) (butlast xs) \<and> b"
  using assms by (cases xs rule: rev_cases; auto simp: set_last_def split: prod.splits)+

lemma stream_step_closings: "stream_step lib hash s e t \<Longrightarrow> closings_ok s \<Longrightarrow> closings_ok t"
proof (induction rule: stream_step.induct)
  case (st_push s build q chunk c)
  then show ?case using push_begin_ok(3) by (fastforce simp: closings_ok_def)
next
  case (st_push_error s build e c)
  then show ?case using push_begin_error by (fastforce simp: closings_ok_def)
next
  case (st_push_end s r)
  then show ?case by (auto simp: closings_ok_def push_end_def break_handle_def split: sum.split)
next
  case (st_push_dropped s)
  then show ?case by (auto simp: closings_ok_def break_handle_def)
next
  case (st_close s closing i command c)
  have "next_closing (score s) \<notin> set (sent s)"
    using st_close.prems by (force simp: closings_ok_def dest: map_of_SomeD)
  with close_begin_ok(1,2) [OF st_close.hyps(2)] st_close.prems show ?case
    by (auto simp: closings_ok_def begin_closing_def bt.get_insert bt_ordered_insert set_bt_insert simp del: set_map)
next
  case (st_close_error s closing e c)
  then show ?case using close_begin_error by (fastforce simp: closings_ok_def)
next
  case (st_close_end i s r)
  then have "i \<in> set (map fst (core_closings (score s)))" by (force simp: closings_ok_def dest: map_of_SomeD)
  with st_close_end show ?case
    by (auto simp: closings_ok_def close_end_def settle_def bt.get_insert bt.get_remove bt_ordered_insert
        bt_ordered_remove set_bt_insert bt.keys_remove simp del: set_map split: option.split)
qed

lemma stream_step_published:
  assumes "stream_step lib hash s e t" and "closings_ok s" and "published_ok s"
  shows "published_ok t"
  using assms
proof (induction rule: stream_step.induct)
  case (st_push s build q chunk c)
  note p = push_begin_ok [OF st_push.hyps(2)]
  from st_push.hyps(1) st_push.prems(2) show ?case
    by (auto simp: published_ok_def p(2,3) numbered_snoc)
next
  case (st_push_error s build e c)
  then show ?case using push_begin_error by (fastforce simp: published_ok_def)
next
  case (st_push_end s r)
  then show ?case
    by (cases r) (auto simp: published_ok_def push_end_def break_handle_def published_set_last)
next
  case (st_push_dropped s)
  then show ?case by (auto simp: published_ok_def break_handle_def published_set_last)
next
  case (st_close s closing i command c)
  then show ?case using close_begin_ok(1) [OF st_close.hyps(2)] by (simp add: published_ok_def begin_closing_def)
next
  case (st_close_error s closing e c)
  then show ?case using close_begin_error by (fastforce simp: published_ok_def)
next
  case (st_close_end i s r)
  then show ?case by (auto simp: published_ok_def close_end_def settle_def split: option.split)
qed

lemma stream_step_sealed:
  assumes "stream_step lib hash s e t" and "closings_ok s" and "sealed_ok hash s"
  shows "sealed_ok hash t"
  using assms
proof (induction rule: stream_step.induct)
  case (st_push s build q chunk c)
  note p = push_begin_ok [OF st_push.hyps(2)]
  from p(1) st_push.prems(1) have "map_of (core_closings (score s)) i = Some st \<Longrightarrow> st = ClRefused" for i st
    by (auto simp: judge_chunk_ok closings_ok_def)
  then show ?case by (auto simp: sealed_ok_def p(3))
next
  case (st_push_error s build e c)
  then show ?case using push_begin_error by (fastforce simp: sealed_ok_def)
next
  case (st_push_end s r)
  then show ?case by (auto simp: sealed_ok_def push_end_def break_handle_def split: sum.split)
next
  case (st_push_dropped s)
  then show ?case by (auto simp: sealed_ok_def break_handle_def)
next
  case (st_close s closing i command c)
  note b = close_begin_ok [OF st_close.hyps(2)]
  have o: "bt_ordered (core_closings (score s))" using st_close.prems(1) by (simp add: closings_ok_def)
  have old: "\<not> pushing s \<and> (\<forall>command seal. h_commands s k = Some command \<longrightarrow>
      command_seal (command_body command) = Some seal \<longrightarrow>
      seal_of hash (core_chunks (score s)) = Ok seal \<and> \<not> core_broken (score s))"
    if "map_of (core_closings (score s)) k = Some st" "st \<noteq> ClRefused" for k st
    using st_close.prems(2) that unfolding sealed_ok_def by blast
  show ?case
    using b(4) st_close.hyps(1) old
    by (auto simp: sealed_ok_def b(1,2) begin_closing_def bt.get_insert [OF o] split: if_splits)
next
  case (st_close_error s closing e c)
  then show ?case using close_begin_error by (fastforce simp: sealed_ok_def)
next
  case (st_close_end i s r)
  have o: "bt_ordered (core_closings (score s))" and w: "map_of (core_closings (score s)) i = Some ClWaiting"
    using st_close_end by (simp_all add: closings_ok_def)
  have old: "\<not> pushing s \<and> (\<forall>command seal. h_commands s k = Some command \<longrightarrow>
      command_seal (command_body command) = Some seal \<longrightarrow>
      seal_of hash (core_chunks (score s)) = Ok seal \<and> \<not> core_broken (score s))"
    if "map_of (core_closings (score s)) k = Some st" "st \<noteq> ClRefused" for k st
    using st_close_end.prems(2) that unfolding sealed_ok_def by blast
  show ?case
    using old [OF w] old
    by (auto simp: sealed_ok_def close_end_def settle_def bt.get_insert [OF o] bt.get_remove [OF o]
        split: option.splits if_splits)
qed

interpretation stream: invariant_system "stream_init message" "stream_step lib hash" "stream_inv hash"
  for message lib hash
proof
  show "stream_inv hash s" if "stream_init message s" for s
    using that by (auto simp: stream_init_def stream_inv_def closings_ok_def published_ok_def sealed_ok_def
        core_new_def numbered_def)
  show "stream_inv hash t" if "stream_step lib hash s e t" "stream_inv hash s" for s e t
    using that stream_step_closings stream_step_published stream_step_sealed by (auto simp: stream_inv_def)
qed

lemma all_published:
  assumes "list_all (\<lambda>(_, _, ok). ok = Some True) xs"
  shows "xs = map (\<lambda>(q, chunk). (q, chunk, Some True)) (map (\<lambda>(q, chunk, _). (q, chunk)) xs)"
  using assms by (induction xs) auto

text \<open>
  C4: a seal covers its stream. In every state that pushes, closings, answers and dropped calls can
  reach, in any interleaving, a closing that carries a seal and was not refused (it waits for its
  answer, its answer was lost, or Threads confirmed it) seals exactly the chunks of the stream as
  they are now: every chunk was given to the bus under its own number, from 0 on without a gap, and
  the bus took each of them; the seal names the last number and the hash of all of them, and no
  chunk is taken any more. After a confirmation neither a chunk nor another closing is taken.
\<close>
theorem seal_covers_stream:
  assumes "reach (stream_init message) (stream_step lib hash) s"
    and "map_of (core_closings (score s)) i = Some st" and "st \<noteq> ClRefused"
    and "h_commands s i = Some command" and "command_seal (command_body command) = Some seal"
  shows "seal_of hash (core_chunks (score s)) = Ok seal \<and> unat (last_seq seal) + 1 = length (core_chunks (score s)) \<and>
    h_published s = map (\<lambda>k. (of_nat k, core_chunks (score s) ! k, Some True)) [0..<length (core_chunks (score s))] \<and>
    judge_chunk (score s) = Err StreamClosed \<and>
    (st = ClConfirmed \<longrightarrow> (\<forall>b. judge_closing b (score s) = Err StreamClosed))"
proof -
  from assms(1) have inv: "stream_inv hash s" by (rule stream.inv_reach)
  then have o: "bt_ordered (core_closings (score s))" by (simp add: stream_inv_def closings_ok_def)
  from inv assms(2-5) have h: "seal_of hash (core_chunks (score s)) = Ok seal" "\<not> core_broken (score s)" "\<not> pushing s"
    unfolding stream_inv_def sealed_ok_def by blast+
  with inv have "list_all (\<lambda>(_, _, ok). ok = Some True) (h_published s)"
    and n: "map (\<lambda>(q, chunk, _). (q, chunk)) (h_published s) = numbered (core_chunks (score s))"
    by (auto simp: stream_inv_def published_ok_def)
  from all_published [OF this(1), unfolded n] have "h_published s =
      map (\<lambda>k. (of_nat k, core_chunks (score s) ! k, Some True)) [0..<length (core_chunks (score s))]"
    by (simp add: numbered_def)
  moreover have "judge_chunk (score s) = Err StreamClosed"
    using h(2) assms(2,3) by (auto simp: judge_chunk_def list_ex_closings [OF o])
  moreover have "st = ClConfirmed \<longrightarrow> (\<forall>b. judge_closing b (score s) = Err StreamClosed)"
    using assms(2) by (auto simp: judge_closing_def core_confirmed_def list_ex_closings [OF o])
  ultimately show ?thesis using h(1) seal_of_last_seq [OF h(1)] by simp
qed

text \<open>A library for the examples: every id is a UUIDv7 and every document can be made.\<close>

definition demo_lib :: "(string, string, string) ThreadLib" where
  "demo_lib = \<lparr>lib_v7 = (\<lambda>_. True), lib_turn_json = Ok, lib_entry_json = Ok, lib_delta_json = Ok,
     lib_reason_json = (\<lambda>_. Ok ''reason''), lib_detail = (\<lambda>_. Ok ())\<rparr>"

definition demo_closing :: Closing where
  "demo_closing = \<lparr>closing_command_id = 1, closing_thread_id = 2, closing_message_id = 3, closing_kind = CkCompleted,
     closing_detail = None, closing_acting_user = None, closing_wait = 5\<rparr>"

theorem seal_covers_stream_witness:
  "\<exists>s command seal. reach (stream_init 3) (stream_step demo_lib (\<lambda>_. Ok ''h'')) s \<and> h_commands s 0 = Some command \<and>
     command_seal (command_body command) = Some seal \<and> unat (last_seq seal) + 1 = length (core_chunks (score s)) \<and>
     judge_chunk (score s) = Err StreamClosed"
proof -
  let ?hash = "\<lambda>_ :: Chunk list. Ok ''h'' :: (string, string) result"
  let ?s0 = "\<lparr>score = core_new 3, pushing = False, sent = [], h_published = [], h_commands = Map.empty\<rparr>"
  let ?s1 = "?s0\<lparr>score := (core_new 3)\<lparr>core_chunks := [DeltaChunk ''d'']\<rparr>, pushing := True,
    h_published := [(0, DeltaChunk ''d'', None)]\<rparr>"
  let ?s2 = "?s1\<lparr>score := snd (push_end (Ok ()) (score ?s1)), pushing := False,
    h_published := set_last True (h_published ?s1)\<rparr>"
  let ?cmd = "\<lparr>command_id = 1, command_body = CompleteBody \<lparr>cl_message_id = 3, cl_thread_id = 2,
    cl_closure = Some ''reason'', cl_acting_user_id = None\<rparr> \<lparr>last_seq = 0, seal_hash = ''h''\<rparr>\<rparr>"
  let ?s3 = "?s2\<lparr>score := (score ?s2)\<lparr>next_closing := 1, core_closings := [(0, ClWaiting)]\<rparr>,
    sent := [0], h_commands := [0 \<mapsto> ?cmd]\<rparr>"
  have "reach (stream_init 3) (stream_step demo_lib ?hash) ?s0" by (rule reach_init) (simp add: stream_init_def)
  moreover have "stream_step demo_lib ?hash ?s0 (SPush (Ok (DeltaChunk ''d''))) ?s1"
    using st_push [of ?s0 "Ok (DeltaChunk ''d'')" 0 "DeltaChunk ''d''" "(core_new 3)\<lparr>core_chunks := [DeltaChunk ''d'']\<rparr>"]
    by (simp add: push_begin_def judge_chunk_def core_confirmed_def core_new_def)
  moreover have "stream_step demo_lib ?hash ?s1 (SPushEnd (Some (Ok ()))) ?s2"
    using st_push_end [of ?s1 demo_lib ?hash "Ok ()"] by simp
  moreover have "stream_step demo_lib ?hash ?s2 (SClose demo_closing) ?s3"
    using st_close [of ?s2 demo_lib ?hash demo_closing 0 ?cmd
        "(score ?s2)\<lparr>next_closing := 1, core_closings := [(0, ClWaiting)]\<rparr>"]
    by (simp add: close_begin_def demo_closing_def demo_lib_def require_wait_def closure_reason_def push_end_def
        core_new_def judge_closing_def core_confirmed_def carries_content_def close_seal_def seal_of_def wire_closing_def
        close_parts_def require_v7_def closure_kind_of_def begin_closing_def Let_def)
  ultimately have r: "reach (stream_init 3) (stream_step demo_lib ?hash) ?s3" by (meson reach_step)
  let ?seal = "\<lparr>last_seq = 0, seal_hash = ''h''\<rparr>"
  have h: "map_of (core_closings (score ?s3)) 0 = Some ClWaiting" "ClWaiting \<noteq> ClRefused" "h_commands ?s3 0 = Some ?cmd"
    "command_seal (command_body ?cmd) = Some ?seal" by simp_all
  from seal_covers_stream [OF r h] r h(3,4) show ?thesis
    by (intro exI [of _ ?s3] exI [of _ ?cmd] exI [of _ ?seal]) blast
qed

end
