(* ===== verification/Thread_Client.thy ===== *)
theory Thread_Client
  imports Thread_Stream Thread_Turns
begin

text \<open>
  The client of the Threads service (\<open>client/mod.rs\<close>, \<open>client/numbered.rs\<close>, \<open>client/graphql.rs\<close>,
  \<open>context.rs\<close>, \<open>adapter/ops/read.rs\<close>) and its commands over the bus (\<open>live/command.rs\<close>,
  \<open>live/answers.rs\<close>, \<open>chunk_lane/publish.rs\<close>). What the bus answers at each point of a call is an
  input; the JSON that serde reads is behind functions that give the value read or why there is none.
\<close>

section \<open>A command over the bus\<close>

datatype AnswerSubject = ThreadConfirmed | ThreadRefused | MessageConfirmed | MessageRefused | OtherSubject

text \<open>An event of the four outcomes as read from its payload.\<close>

record OutcomeEvent =
  ev_command_id :: uuid
  ev_status :: MessageStatus
  ev_reason_code :: string
  ev_params :: "(string \<times> string) list"

type_synonym 'p ReadEvent = "AnswerSubject \<Rightarrow> 'p \<Rightarrow> (OutcomeEvent, string) result"

definition answer_unreadable :: "string \<Rightarrow> TError" where
  "answer_unreadable msg = TUnreadable (''an answer cannot be read: '' @ msg)"

definition answer_refused :: "OutcomeEvent \<Rightarrow> TError" where
  "answer_refused ev =
     TRefused \<lparr>t_code = ev_reason_code ev, t_reason = None, t_params = ev_params ev, t_message = [], t_command_id = Some (ev_command_id ev)\<rparr>"

text \<open>\<open>envelope\<close>: the payload of the answer, or why it has none.\<close>

definition answer_read :: "'p ReadEvent \<Rightarrow> AnswerSubject \<Rightarrow> ('p, string) result \<Rightarrow> (CommandOutcome, TError) result" where
  "answer_read read subject envelope =
     (case envelope of
        Inl msg \<Rightarrow> Err (answer_unreadable msg)
      | Inr payload \<Rightarrow>
          if subject = OtherSubject then
            Err (TUnreadable ''an answer came on a subject that is none of the four outcomes'')
          else
            (case read subject payload of
               Inl msg \<Rightarrow> Err (answer_unreadable msg)
             | Inr ev \<Rightarrow>
                 (case subject of
                    ThreadConfirmed \<Rightarrow> Ok \<lparr>outcome_command_id = ev_command_id ev, outcome_status = None\<rparr>
                  | MessageConfirmed \<Rightarrow> Ok \<lparr>outcome_command_id = ev_command_id ev, outcome_status = Some (ev_status ev)\<rparr>
                  | _ \<Rightarrow> Err (answer_refused ev))))"

datatype OpenAnswer = OpenTimeout | OpenFailed string | Opened
datatype PublishAnswer = PublishTimeout | PublishNoStream string | PublishFailed string | PublishAcked
datatype 'p AwaitAnswer = AwaitFailed string | AwaitNothing | AwaitMatched AnswerSubject "('p, string) result"

record 'p BusRun =
  bus_payload :: "(string, string) result"
  bus_connected :: bool
  bus_open :: OpenAnswer
  bus_publish :: PublishAnswer
  bus_await :: "'p AwaitAnswer"

text \<open>The result, and what was asked of the publication of the command: \<open>None\<close> when nothing was.\<close>

definition run_command :: "'p ReadEvent \<Rightarrow> 'p BusRun \<Rightarrow> (CommandOutcome, TError) result \<times> PublishAnswer option" where
  "run_command read run =
     (case bus_payload run of
        Inl msg \<Rightarrow> (Err (TInvalidInput msg), None)
      | Inr _ \<Rightarrow>
          if \<not> bus_connected run then (Err (t_unavailable ''the bus connection is not connected''), None)
          else
            (case bus_open run of
               OpenTimeout \<Rightarrow> (Err (TUnavailable (t_failure_wait ''the answer subscription did not open'')), None)
             | OpenFailed msg \<Rightarrow> (Err (t_unavailable msg), None)
             | Opened \<Rightarrow>
                 (case bus_publish run of
                    PublishTimeout \<Rightarrow> Err (TLost (t_failure_wait ''the command was not acknowledged''))
                  | PublishNoStream detail \<Rightarrow> Err (t_unavailable detail)
                  | PublishFailed msg \<Rightarrow> Err (t_lost msg)
                  | PublishAcked \<Rightarrow>
                      (case bus_await run of
                         AwaitFailed msg \<Rightarrow> Err (t_lost msg)
                       | AwaitNothing \<Rightarrow> Err (TLost (t_failure_wait ''no outcome within the wait''))
                       | AwaitMatched subject envelope \<Rightarrow> answer_read read subject envelope),
                  Some (bus_publish run))))"

text \<open>A chunk over the bus: its bytes or why there are none, and whether the stream took it in the wait.\<close>

definition publish_chunk :: "bool \<Rightarrow> (string, string) result \<Rightarrow> bool \<Rightarrow> (unit, TError) result" where
  "publish_chunk connected bytes acked =
     (if \<not> connected then Err StreamBroken
      else case bytes of Inl msg \<Rightarrow> Err (TInvalidInput msg) | Inr _ \<Rightarrow> if acked then Ok () else Err StreamBroken)"

section \<open>The client\<close>

type_synonym Backend = "Command \<Rightarrow> duration \<Rightarrow> (CommandOutcome, TError) result"

definition client_confirm :: "Backend \<Rightarrow> Command \<Rightarrow> duration \<Rightarrow> (uuid \<times> MessageStatus option, TError) result" where
  "client_confirm backend command wait =
     (case backend command wait of Inl e \<Rightarrow> Err e | Inr out \<Rightarrow> Ok (outcome_command_id out, outcome_status out))"

definition client_create_thread :: "Backend \<Rightarrow> (uuid \<Rightarrow> bool) \<Rightarrow> NewThread \<Rightarrow> (uuid \<times> MessageStatus option, TError) result" where
  "client_create_thread backend v7 thread =
     (case require_wait (nt_wait thread) ''the outcome wait'' of
        Inl e \<Rightarrow> Err e
      | Inr _ \<Rightarrow>
          (case wire_create_thread v7 thread of
             Inl e \<Rightarrow> Err e | Inr command \<Rightarrow> client_confirm backend command (nt_wait thread)))"

definition client_write_message :: "Backend \<Rightarrow> ('t, 'en, 'd) ThreadLib \<Rightarrow> 't WholeMessage \<Rightarrow> (uuid \<times> MessageStatus option, TError) result" where
  "client_write_message backend lib message =
     (case require_wait (wm_wait message) ''the outcome wait'' of
        Inl e \<Rightarrow> Err e
      | Inr _ \<Rightarrow>
          (case wire_whole_message lib message of
             Inl e \<Rightarrow> Err e | Inr command \<Rightarrow> client_confirm backend command (wm_wait message)))"

definition client_open_stream :: "Backend \<Rightarrow> (uuid \<Rightarrow> bool) \<Rightarrow> OpenStream \<Rightarrow> (Core, TError) result" where
  "client_open_stream backend v7 open =
     (case require_wait (os_wait open) ''the outcome wait'' of
        Inl e \<Rightarrow> Err e
      | Inr _ \<Rightarrow>
          (case wire_open_message v7 open of
             Inl e \<Rightarrow> Err e
           | Inr command \<Rightarrow>
               (case client_confirm backend command (os_wait open) of
                  Inl e \<Rightarrow> Err e | Inr _ \<Rightarrow> Ok (core_new (part_message_id (os_parts open))))))"

section \<open>The context of a thread\<close>

record ('j, 'conv) ContextLib =
  cx_null :: "'j \<Rightarrow> bool"
  cx_wire :: "'j \<Rightarrow> (uuid \<times> 'j option \<times> 'j option, string) result"
  cx_text :: "'j \<Rightarrow> (string, string) result"
  cx_projected :: "string \<Rightarrow> ('conv, string) result"
  cx_conversation :: "string \<Rightarrow> ('conv, string) result"

datatype 'conv ContextContent = Projected 'conv | ConversationContent 'conv

definition context_document :: "('j, 'conv) ContextLib \<Rightarrow> (string \<Rightarrow> ('conv, string) result) \<Rightarrow> 'j \<Rightarrow> ('conv, TError) result" where
  "context_document lib read document =
     (case cx_text lib document of
        Inl msg \<Rightarrow> Err (TUnreadable msg)
      | Inr msg \<Rightarrow> (case read msg of Inl code \<Rightarrow> Err (TUnreadable code) | Inr c \<Rightarrow> Ok c))"

definition context_parse :: "('j, 'conv) ContextLib \<Rightarrow> bool \<Rightarrow> 'j \<Rightarrow> ((uuid \<times> 'conv ContextContent) option, TError) result" where
  "context_parse lib agent_named v =
     (if cx_null lib v then Ok None
      else
        (case cx_wire lib v of
           Inl msg \<Rightarrow> Err (TUnreadable (''the context is malformed: '' @ msg))
         | Inr (thread, conversation, projected) \<Rightarrow>
             (case (agent_named, projected, conversation) of
                (True, Some p, _) \<Rightarrow>
                  (case context_document lib (cx_projected lib) p of
                     Inl e \<Rightarrow> Err e | Inr c \<Rightarrow> Ok (Some (thread, Projected c)))
              | (False, _, Some p) \<Rightarrow>
                  (case context_document lib (cx_conversation lib) p of
                     Inl e \<Rightarrow> Err e | Inr c \<Rightarrow> Ok (Some (thread, ConversationContent c)))
              | _ \<Rightarrow> Err (TUnreadable ''the context holds no document for the request''))))"

text \<open>\<open>found\<close>: the answer of the GraphQL call, with the field of the context when the data has one.\<close>

definition read_context :: "('j, 'conv) ContextLib \<Rightarrow> bool \<Rightarrow> ('j option, TError) result \<Rightarrow> ((uuid \<times> 'conv ContextContent) option, TError) result" where
  "read_context lib agent_named found =
     (case found of
        Inl e \<Rightarrow> Err e
      | Inr None \<Rightarrow> Err (TUnreadable ''the response holds no threadsContext'')
      | Inr (Some v) \<Rightarrow> context_parse lib agent_named v)"

text \<open>
  \<open>read\<close> of the port, after the wait for the items before it: the context of the thread with no agent,
  the tip taken from its last turn. A conversation of the library has an id and turns.
\<close>

record 'turn Conversation =
  conv_id :: uuid
  conv_turns :: "(uuid \<times> 'turn) list"

definition port_read ::
  "(uuid \<Rightarrow> (unit, string) result) \<Rightarrow> (uuid \<Rightarrow> (uuid \<times> 'turn) list \<Rightarrow> ('turn Conversation, string) result) \<Rightarrow> uuid \<Rightarrow>
   ((uuid \<times> 'turn Conversation ContextContent) option, TError) result \<Rightarrow> 'dr Mem \<Rightarrow> ('turn Conversation, TPortError) result \<times> 'dr Mem" where
  "port_read conversation_id from_parts thread context mem =
     (case context of
        Inl e \<Rightarrow> (Err (TFault e), mem)
      | Inr None \<Rightarrow> (Err (TFault (TInvalidInput ''the thread does not exist'')), mem)
      | Inr (Some (_, Projected _)) \<Rightarrow> (Err (TFault (TUnreadable ''the context holds no conversation'')), mem)
      | Inr (Some (_, ConversationContent conversation)) \<Rightarrow>
          (let mem' = read_tip (map fst (conv_turns conversation)) mem
           in if conv_id conversation = thread then (Ok conversation, mem')
              else
                (case conversation_id thread of
                   Inl code \<Rightarrow> (Err (TFault (TInvalidInput code)), mem')
                 | Inr _ \<Rightarrow>
                     (case from_parts thread (conv_turns conversation) of
                        Inl code \<Rightarrow> (Err (TFault (TInvalidInput code)), mem')
                      | Inr c \<Rightarrow> (Ok c, mem')))))"

section \<open>Properties\<close>

text \<open>
  A closing is taken back only when it cannot have reached Threads. The handle of a stream takes
  chunks again after a closing whose command ended as unavailable; the command over the bus ends so
  only when it was not published, or when the bus has no stream for it. A closing counts as refused
  only when Threads answered with a refusal, as confirmed only when it answered with an outcome, and
  as lost, so that the stream stays closed, in every other case.
\<close>

theorem closing_settles_by_answer:
  "case close_settled (Some (fst (run_command read run))) of
     None \<Rightarrow> snd (run_command read run) = None \<or> (\<exists>detail. snd (run_command read run) = Some (PublishNoStream detail))
   | Some ClRefused \<Rightarrow> (\<exists>subject payload ev. bus_await run = AwaitMatched subject (Ok payload) \<and>
        subject \<in> {ThreadRefused, MessageRefused} \<and> read subject payload = Ok ev \<and> fst (run_command read run) = Err (answer_refused ev))
   | Some ClConfirmed \<Rightarrow> (\<exists>subject payload ev. bus_await run = AwaitMatched subject (Ok payload) \<and>
        subject \<in> {ThreadConfirmed, MessageConfirmed} \<and> read subject payload = Ok ev)
   | Some ClLost \<Rightarrow> (\<exists>e. fst (run_command read run) = Err e)
   | Some ClWaiting \<Rightarrow> False"
  by (cases "bus_open run"; cases "bus_publish run"; cases "bus_await run")
    (auto simp: run_command_def close_settled_def answer_read_def answer_refused_def answer_unreadable_def t_unavailable_def t_lost_def
      split: sum.splits AnswerSubject.splits)

end
