(* ===== verification/Text_Ops.thy ===== *)
theory Text_Ops
  imports Prelude
begin

text \<open>
  The operations of \<open>str\<close> that several crates use, on strings whose code points are below 256: the white
  space of Unicode in that range, \<open>trim\<close> and \<open>to_ascii_uppercase\<close>.
\<close>

definition is_whitespace :: "char \<Rightarrow> bool" where
  "is_whitespace c \<longleftrightarrow> (of_char c :: nat) \<in> {9, 10, 11, 12, 13, 32, 133, 160}"

definition str_trim :: "string \<Rightarrow> string" where
  "str_trim s = rev (dropWhile is_whitespace (rev (dropWhile is_whitespace s)))"

definition ascii_upper :: "char \<Rightarrow> char" where
  "ascii_upper c = (if 97 \<le> (of_char c :: nat) \<and> (of_char c :: nat) \<le> 122 then char_of ((of_char c :: nat) - 32) else c)"

lemma str_trim_Nil [simp]: "str_trim [] = []"
  by (simp add: str_trim_def)

lemma all_dropWhile: "(\<forall>x \<in> set (dropWhile P xs). P x) \<longleftrightarrow> (\<forall>x \<in> set xs. P x)"
  by (induction xs) auto

lemma str_trim_empty_iff: "str_trim s = [] \<longleftrightarrow> list_all is_whitespace s"
  unfolding str_trim_def rev_is_Nil_conv dropWhile_eq_Nil_conv set_rev all_dropWhile list_all_iff ..

section \<open>Numbers and lists of results\<close>

text \<open>The decimal text of a number, as \<open>Display\<close> writes it.\<close>

fun nat_text :: "nat \<Rightarrow> string" where
  "nat_text n = (if n < 10 then [char_of (48 + n)] else nat_text (n div 10) @ [char_of (48 + n mod 10)])"

declare nat_text.simps [simp del]

definition int_text :: "int \<Rightarrow> string" where
  "int_text i = (if i < 0 then CHR ''-'' # nat_text (nat (- i)) else nat_text (nat i))"

text \<open>\<open>collect\<close> of an iterator of results: the first error, or all the values.\<close>

fun collect_results :: "('a, 'e) result list \<Rightarrow> ('a list, 'e) result" where
  "collect_results [] = Ok []"
| "collect_results (Inl e # rs) = Err e"
| "collect_results (Inr x # rs) = map_sum id ((#) x) (collect_results rs)"

lemma map_sum_Cons_ok: "map_sum id ((#) x) r = Ok zs \<longleftrightarrow> (\<exists>ys. r = Ok ys \<and> zs = x # ys)"
  by (cases r) auto

lemma collect_results_ok: "collect_results (rs :: ('a, 'e) result list) = Ok xs \<longleftrightarrow> rs = map Inr xs"
proof (induction rs arbitrary: xs rule: collect_results.induct)
  case (3 x rs)
  have "map Inr zs = Inr x # rs \<longleftrightarrow> (\<exists>ys. map Inr ys = rs \<and> zs = x # ys)" for zs :: "'a list"
    by (cases zs) auto
  then show ?case by (simp add: map_sum_Cons_ok "3.IH") metis
next
  case (2 e rs)
  then show ?case by (cases xs) simp_all
qed auto

text \<open>\<open>Result::and_then\<close>, which is also what the operator \<open>?\<close> does.\<close>

definition and_then :: "('a, 'e) result \<Rightarrow> ('a \<Rightarrow> ('b, 'e) result) \<Rightarrow> ('b, 'e) result" where
  "and_then r f = (case r of Inl e \<Rightarrow> Err e | Inr x \<Rightarrow> f x)"

lemma and_then_simps [simp]: "and_then (Ok x) f = f x" "and_then (Err e) f = Err e"
  by (simp_all add: and_then_def)

lemma and_then_ok: "and_then r f = Ok y \<longleftrightarrow> (\<exists>x. r = Ok x \<and> f x = Ok y)"
  by (cases r) simp_all

section \<open>Splitting of texts\<close>

text \<open>\<open>split_once\<close>, \<open>rsplit_once\<close>, \<open>split\<close> by a character and \<open>strip_prefix\<close> of a character.\<close>

fun split_once :: "char \<Rightarrow> string \<Rightarrow> (string \<times> string) option" where
  "split_once c [] = None"
| "split_once c (x # xs) = (if x = c then Some ([], xs) else map_option (apfst ((#) x)) (split_once c xs))"

definition rsplit_once :: "char \<Rightarrow> string \<Rightarrow> (string \<times> string) option" where
  "rsplit_once c s = map_option (\<lambda>(a, b). (rev b, rev a)) (split_once c (rev s))"

fun str_split :: "char \<Rightarrow> string \<Rightarrow> string list" where
  "str_split c [] = [[]]"
| "str_split c (x # xs) =
     (if x = c then [] # str_split c xs else (case str_split c xs of [] \<Rightarrow> [[x]] | t # ts \<Rightarrow> (x # t) # ts))"

fun strip_char :: "char \<Rightarrow> string \<Rightarrow> string option" where
  "strip_char c [] = None"
| "strip_char c (x # xs) = (if x = c then Some xs else None)"

lemma split_once_Some: "split_once c s = Some (a, b) \<longleftrightarrow> s = a @ c # b \<and> c \<notin> set a"
proof (induction s arbitrary: a)
  case (Cons x xs)
  then show ?case by (cases a) (auto simp: apfst_def map_prod_def)
qed simp

lemma split_once_None: "split_once c s = None \<longleftrightarrow> c \<notin> set s"
  by (induction s) auto

lemma rsplit_once_Some: "rsplit_once c s = Some (a, b) \<longleftrightarrow> s = a @ c # b \<and> c \<notin> set b"
proof -
  have "rsplit_once c s = Some (a, b) \<longleftrightarrow> split_once c (rev s) = Some (rev b, rev a)"
    by (auto simp: rsplit_once_def)
  also have "\<dots> \<longleftrightarrow> rev s = rev (a @ c # b) \<and> c \<notin> set b" by (simp add: split_once_Some)
  finally show ?thesis by (simp only: rev_is_rev_conv)
qed

lemma rsplit_once_None: "rsplit_once c s = None \<longleftrightarrow> c \<notin> set s"
  by (simp add: rsplit_once_def split_once_None)

lemma strip_char_Some: "strip_char c s = Some r \<longleftrightarrow> s = c # r"
  by (cases s) auto

lemma strip_char_None: "strip_char c s = None \<longleftrightarrow> (\<forall>r. s \<noteq> c # r)"
  by (cases s) auto

text \<open>The parts joined again give the text, and no part holds the separator.\<close>

fun str_join :: "char \<Rightarrow> string list \<Rightarrow> string" where
  "str_join c [] = []"
| "str_join c [t] = t"
| "str_join c (t # ts) = t @ c # str_join c ts"

lemma str_split_not_Nil [simp]: "str_split c s \<noteq> []"
  by (cases s) (auto split: list.splits)

lemma str_join_split: "str_join c (str_split c s) = s \<and> (\<forall>t \<in> set (str_split c s). c \<notin> set t)"
proof (induction s)
  case (Cons x xs)
  obtain t ts where s: "str_split c xs = t # ts" by (cases "str_split c xs") auto
  with Cons show ?case by (cases ts) auto
qed simp

lemma str_split_part: "c \<notin> set t \<Longrightarrow> str_split c (t @ c # s) = t # str_split c s"
  by (induction t) auto

lemma str_split_one: "c \<notin> set t \<Longrightarrow> str_split c t = [t]"
  by (induction t) auto

lemma str_split_join: "ts \<noteq> [] \<Longrightarrow> \<forall>t \<in> set ts. c \<notin> set t \<Longrightarrow> str_split c (str_join c ts) = ts"
  by (induction ts rule: induct_list012) (auto simp: str_split_part str_split_one)

end
