(* ===== verification/Harness_Facts.thy ===== *)
theory Harness_Facts
  imports Backoff Jobs_Model Text_Ops
begin

text \<open>
  The facts of the first harness (\<open>br-jobs-runner-kit\<close>): what a Run may report (\<open>facts.rs\<close>,
  \<open>context.rs\<close>), how it is executed (\<open>runner.rs\<close> and \<open>execute_run\<close> of \<open>run_loop.rs\<close>) and how the
  publisher sends its facts (\<open>transport/publish.rs\<close>). A string is the list of its code points below
  256. The payload type of the author, its decoding and his executor are parameters (\<open>Author\<close>).
\<close>

section \<open>Facts and outcomes\<close>

record FailureReport =
  report_kind :: "string option"
  report_reason_code :: string
  report_params :: json
  report_diagnostic :: json

datatype RunOutcome = OutCompleted | OutFailed FailureReport "duration option"

record PlanDeclared =
  plan_run :: uuid
  plan_steps :: "string list"
  plan_declaration :: "uuid option"

record StepStarted =
  step_run :: uuid
  step_index :: u32
  step_label :: string
  step_started_at :: datetime

record LogLine =
  line_id :: "uuid option"
  line_run :: uuid
  line_step :: "u32 option"
  line_level :: string
  line_message :: string
  line_logged_at :: datetime

record RunFailed =
  rf_run :: uuid
  rf_report :: FailureReport
  rf_retry_after_seconds :: "int option"

datatype RunFact =
    HPlanDeclared PlanDeclared
  | HStepStarted StepStarted
  | HLog LogLine
  | HCompleted uuid
  | HFailed RunFailed

definition outcome_failed :: "string \<Rightarrow> RunOutcome" where
  "outcome_failed code =
     OutFailed \<lparr>report_kind = None, report_reason_code = code, report_params = JNull, report_diagnostic = JNull\<rparr> None"

definition outcome_failed_retry_after :: "string \<Rightarrow> duration \<Rightarrow> RunOutcome" where
  "outcome_failed_retry_after code d =
     (case outcome_failed code of OutFailed report _ \<Rightarrow> OutFailed report (Some d) | OutCompleted \<Rightarrow> OutCompleted)"

lemma outcome_failed_retry_after_eq: "outcome_failed_retry_after code d = OutFailed
    \<lparr>report_kind = None, report_reason_code = code, report_params = JNull, report_diagnostic = JNull\<rparr> (Some d)"
  by (simp add: outcome_failed_retry_after_def outcome_failed_def)

section \<open>The context of a Run\<close>

record RunContext =
  cx_run_id :: uuid
  cx_job_id :: uuid
  cx_attempt :: u32

definition canonical_log_level :: "string \<Rightarrow> string option" where
  "canonical_log_level level =
     (let l = map ascii_upper (str_trim level) in
      if l = ''INFO'' then Some ''INFO''
      else if l = ''WARN'' \<or> l = ''WARNING'' then Some ''WARNING''
      else if l = ''ERROR'' then Some ''ERROR''
      else None)"

definition declare_plan :: "RunContext \<Rightarrow> string list \<Rightarrow> uuid \<Rightarrow> RunFact list" where
  "declare_plan cx steps fresh =
     [HPlanDeclared \<lparr>plan_run = cx_run_id cx, plan_steps = steps, plan_declaration = Some fresh\<rparr>]"

definition start_step :: "RunContext \<Rightarrow> u32 \<Rightarrow> string \<Rightarrow> datetime \<Rightarrow> RunFact list" where
  "start_step cx index label now =
     [HStepStarted \<lparr>step_run = cx_run_id cx, step_index = index, step_label = label, step_started_at = now\<rparr>]"

definition log_with :: "RunContext \<Rightarrow> string \<Rightarrow> u32 option \<Rightarrow> string \<Rightarrow> uuid \<Rightarrow> datetime \<Rightarrow> RunFact list" where
  "log_with cx level step txt fresh now =
     (case canonical_log_level level of
        None \<Rightarrow> []
      | Some l \<Rightarrow>
          [HLog \<lparr>line_id = Some fresh, line_run = cx_run_id cx, line_step = step, line_level = l,
             line_message = txt, line_logged_at = now\<rparr>])"

definition log_info :: "RunContext \<Rightarrow> string \<Rightarrow> uuid \<Rightarrow> datetime \<Rightarrow> RunFact list" where
  "log_info cx txt fresh now = log_with cx ''INFO'' None txt fresh now"

section \<open>The execution of a Run\<close>

record Trigger =
  tg_run_id :: uuid
  tg_job_id :: uuid
  tg_attempt :: u32
  tg_config :: "json option"

text \<open>
  The author's code: the decoding of the payload, and what an execution reports and answers (\<open>None\<close>
  is a panic).
\<close>

record 'p Author =
  au_payload :: "json \<Rightarrow> ('p, string) result"
  au_execute :: "RunContext \<Rightarrow> 'p \<Rightarrow> RunFact list \<times> RunOutcome option"

definition outcome_fact :: "uuid \<Rightarrow> RunOutcome \<Rightarrow> RunFact" where
  "outcome_fact run outcome =
     (case outcome of
        OutCompleted \<Rightarrow> HCompleted run
      | OutFailed report retry \<Rightarrow>
          HFailed \<lparr>rf_run = run, rf_report = report,
            rf_retry_after_seconds = map_option (\<lambda>d. min (int (d div 10 ^ 9)) (2 ^ 63 - 1)) retry\<rparr>)"

definition payload_invalid :: "string \<Rightarrow> RunOutcome" where
  "payload_invalid e =
     OutFailed \<lparr>report_kind = None, report_reason_code = ''payload_invalid'', report_params = JNull,
       report_diagnostic = JString e\<rparr> None"

text \<open>The facts that a Run sends in order, and whether its task returned its id (or panicked).\<close>

definition execute_run :: "'p Author \<Rightarrow> RunContext \<Rightarrow> Trigger \<Rightarrow> RunFact list \<times> uuid option" where
  "execute_run au cx trigger =
     (let run = tg_run_id trigger in
      case au_payload au (case tg_config trigger of Some c \<Rightarrow> c | None \<Rightarrow> JNull) of
        Inl e \<Rightarrow> ([outcome_fact run (payload_invalid e)], Some run)
      | Inr payload \<Rightarrow>
          (case au_execute au cx payload of
             (facts, None) \<Rightarrow> (facts, None)
           | (facts, Some outcome) \<Rightarrow> (facts @ [outcome_fact run outcome], Some run)))"

section \<open>The publisher\<close>

text \<open>
  A status fact is tried up to eight times; \<open>ok k\<close> is whether the broker acknowledges attempt \<open>k\<close>. The
  result is whether it was acknowledged, and the sleeps.
\<close>

fun publish_attempts :: "nat \<Rightarrow> (nat \<Rightarrow> bool) \<Rightarrow> nat \<Rightarrow> Backoff \<Rightarrow> bool \<times> duration list" where
  "publish_attempts 0 ok k b = (False, [])"
| "publish_attempts (Suc n) ok k b =
     (if ok k then (True, [])
      else case next_delay b of (d, b') \<Rightarrow>
        case publish_attempts n ok (Suc k) b' of (done_, ds) \<Rightarrow> (done_, d # ds))"

definition reconnect_backoff :: Backoff where
  "reconnect_backoff = (case backoff_new (500 * 10 ^ 6) (15 * 10 ^ 9) of Inr b \<Rightarrow> b | Inl _ \<Rightarrow> undefined)"

definition publish_status :: "(nat \<Rightarrow> bool) \<Rightarrow> bool \<times> duration list" where
  "publish_status ok = publish_attempts 8 ok 1 reconnect_backoff"

datatype StatusFact = StPlanDeclared | StStepStarted | StCompleted | StFailed

datatype Publication = PubLog LogLine | PubStatus StatusFact RunFact bool

text \<open>
  What the publisher does with one fact; \<open>ok\<close> are the answers of the broker for it. A log is sent
  once and without waiting, a fact that was given up is \<open>False\<close>.
\<close>

definition publish_fact :: "(nat \<Rightarrow> bool) \<Rightarrow> RunFact \<Rightarrow> Publication" where
  "publish_fact ok f =
     (case f of
        HLog line \<Rightarrow> PubLog line
      | HPlanDeclared _ \<Rightarrow> PubStatus StPlanDeclared f (fst (publish_status ok))
      | HStepStarted _ \<Rightarrow> PubStatus StStepStarted f (fst (publish_status ok))
      | HCompleted _ \<Rightarrow> PubStatus StCompleted f (fst (publish_status ok))
      | HFailed _ \<Rightarrow> PubStatus StFailed f (fst (publish_status ok)))"

fun publish_facts :: "(nat \<Rightarrow> nat \<Rightarrow> bool) \<Rightarrow> nat \<Rightarrow> RunFact list \<Rightarrow> Publication list" where
  "publish_facts ok i [] = []"
| "publish_facts ok i (f # fs) = publish_fact (ok i) f # publish_facts ok (Suc i) fs"

lemma reconnect_backoff_eq: "reconnect_backoff = \<lparr>base = 500000000, cap = 15000000000, attempts = 0\<rparr>"
  by (simp add: reconnect_backoff_def backoff_new_def)

lemma reconnect_backoff_ok: "backoff_ok reconnect_backoff"
  by (simp add: reconnect_backoff_eq backoff_ok_def duration_max_def)

lemma publish_attempts_delays:
  "snd (publish_attempts n ok k b) = fst (delays (length (snd (publish_attempts n ok k b))) b)"
  by (induction n arbitrary: k b) (simp_all add: split_beta Let_def)

lemma publish_attempts_outcome:
  "length (snd (publish_attempts n ok k b)) = (LEAST j. j = n \<or> ok (k + j))"
proof (induction n arbitrary: k b)
  case (Suc n)
  let ?P = "\<lambda>j. j = Suc n \<or> ok (k + j)"
  show ?case
  proof (cases "ok k")
    case True
    then have "(LEAST j. ?P j) = 0" by (intro Least_eq_0) simp
    with True show ?thesis by simp
  next
    case False
    have "(LEAST j. ?P j) = Suc (LEAST j. ?P (Suc j))"
      by (rule Least_Suc [where n = "Suc n"]) (use False in simp_all)
    with False Suc show ?thesis by (simp add: split_beta)
  qed
qed simp

lemma publish_attempts_done: "fst (publish_attempts n ok k b) \<longleftrightarrow> (\<exists>j < n. ok (k + j))"
proof (induction n arbitrary: k b)
  case (Suc n)
  then show ?case by (cases "ok k") (auto simp: split_beta Ex_less_Suc2)
qed simp

lemma first_ok: "(LEAST j. j = n \<or> ok j) < n \<longleftrightarrow> (\<exists>j < n. ok (j::nat))"
proof
  assume "(LEAST j. j = n \<or> ok j) < n"
  moreover have "(LEAST j. j = n \<or> ok j) = n \<or> ok (LEAST j. j = n \<or> ok j)" by (rule LeastI [of _ n]) simp
  ultimately show "\<exists>j < n. ok j" by auto
next
  assume "\<exists>j < n. ok j"
  then obtain j where "j < n" "ok j" by blast
  moreover have "(LEAST j. j = n \<or> ok j) \<le> j" using \<open>ok j\<close> by (intro Least_le) simp
  ultimately show "(LEAST j. j = n \<or> ok j) < n" by simp
qed

definition publish_sleeps :: "duration list" where
  "publish_sleeps = map (\<lambda>s. s * 10 ^ 8) [5, 10, 20, 40, 80, 150, 150, 150]"

lemma delays_Suc: "fst (delays (Suc n) b) = fst (next_delay b) # fst (delays n (snd (next_delay b)))"
  by (simp add: Let_def split: prod.split)

lemma delays_take: "m \<le> n \<Longrightarrow> fst (delays m b) = take m (fst (delays n b))"
proof (induction n arbitrary: m b)
  case (Suc n)
  show ?case
  proof (cases m)
    case (Suc j)
    with Suc.prems have "fst (delays j (snd (next_delay b))) = take j (fst (delays n (snd (next_delay b))))"
      by (intro Suc.IH) simp
    then show ?thesis unfolding Suc delays_Suc take_Suc_Cons by (rule arg_cong)
  qed simp
qed simp

lemma publish_sleeps_eq: "fst (delays 8 reconnect_backoff) = publish_sleeps"
  unfolding delays_closed [OF reconnect_backoff_ok]
  by (simp add: reconnect_backoff_eq delay_at_def publish_sleeps_def upt_rec)

text \<open>
  A status fact that the broker refuses is sent again at most seven times, after the sleeps of a
  backoff that doubles from half a second to fifteen seconds, in all at most 60.5 seconds; it is
  given up exactly when all eight attempts were refused; and the facts of the channel are published
  in their order, one publication each.
\<close>
theorem publish_status_bounded:
  "fst (publish_status ok) = (\<exists>k \<in> {1..8}. ok k) \<and>
   snd (publish_status ok) = take ((LEAST k. k = 9 \<or> (1 \<le> k \<and> ok k)) - 1) publish_sleeps \<and>
   sum_list (snd (publish_status ok)) \<le> 60500000000 \<and>
   publish_facts oks i fs = map (\<lambda>(j, f). publish_fact (oks j) f) (enumerate i fs)"
proof -
  have ex: "(\<exists>k \<in> {1..8}. ok k) \<longleftrightarrow> (\<exists>j < 8. ok (1 + j))"
    by (metis (no_types, opaque_lifting) Suc_eq_plus1_left Suc_le_eq Suc_le_mono add_diff_inverse_nat atLeastAtMost_iff
        eval_nat_numeral(3) less_Suc_eq_le less_one linorder_not_less le_add1)
  have "(LEAST k. k = 9 \<or> (1 \<le> k \<and> ok k)) = Suc (LEAST j. Suc j = 9 \<or> (1 \<le> Suc j \<and> ok (Suc j)))"
    by (rule Least_Suc [where n = 9]) simp_all
  then have l: "(LEAST k. k = 9 \<or> (1 \<le> k \<and> ok k)) - 1 = (LEAST j. j = 8 \<or> ok (1 + j))" by simp
  have le: "(LEAST j. j = 8 \<or> ok (1 + j)) \<le> 8" by (rule Least_le) simp
  have s: "snd (publish_status ok) = take (LEAST j. j = 8 \<or> ok (1 + j)) publish_sleeps"
    using publish_attempts_delays [of 8 ok 1 reconnect_backoff] delays_take [OF le, of reconnect_backoff]
    by (simp only: publish_status_def publish_attempts_outcome publish_sleeps_eq)
  have "sum_list (take n publish_sleeps) \<le> sum_list publish_sleeps" for n
    by (metis append_take_drop_id le_add1 sum_list.append)
  moreover have "sum_list publish_sleeps = 60500000000" by (simp add: publish_sleeps_def)
  moreover have "publish_facts oks i fs = map (\<lambda>(j, f). publish_fact (oks j) f) (enumerate i fs)"
    by (induction fs arbitrary: i) simp_all
  ultimately show ?thesis
    unfolding l s [symmetric] by (metis s ex publish_attempts_done publish_status_def)
qed

end
