(* ===== verification/Harness_Loop.thy ===== *)
theory Harness_Loop
  imports Harness_Facts Cancel_Set Slot_Pool Presence_Session
begin

text \<open>
  The loop of the first harness (\<open>br-jobs-runner-kit\<close>, \<open>run_loop.rs\<close>), which composes the machines of
  the core crate: the slot pool, the cancel set and the presence session. One turn of the loop polls
  the presence, leaves when the drain has nothing left, and else takes one branch of its select.
  \<open>transport/cancel.rs\<close> and \<open>transport/triggers.rs\<close> are the feeds it selects on. A cancellation token
  is whether it was cancelled; the tasks of the join set are the ids of the Runs they execute.
\<close>

section \<open>The feeds\<close>

datatype HCancelEvent = CancelPut uuid | CancelCleared uuid | CancelReset

datatype WatchOperation = KvPut | KvDelete | KvPurge

datatype 'e WatchItem = WatchGives 'e | WatchFails | WatchEnds

text \<open>
  \<open>ws\<close> is what the watches give one after the other, \<open>rs\<close> whether each reopening succeeds. The result
  is the event (\<open>None\<close> is a call that still waits), whether a watch is open, and what is left.
\<close>

function cancel_feed_next ::
  "(string \<Rightarrow> uuid option) \<Rightarrow> Backoff \<Rightarrow> bool \<Rightarrow> (string \<times> WatchOperation) WatchItem list \<Rightarrow> bool list \<Rightarrow>
   HCancelEvent option \<times> bool \<times> (string \<times> WatchOperation) WatchItem list \<times> bool list" where
  "cancel_feed_next parse b True [] rs = (None, True, [], rs)"
| "cancel_feed_next parse b True (WatchGives (key, op) # ws) rs =
     (case parse key of
        None \<Rightarrow> cancel_feed_next parse b True ws rs
      | Some run \<Rightarrow> (Some (if op = KvPut then CancelPut run else CancelCleared run), True, ws, rs))"
| "cancel_feed_next parse b True (WatchFails # ws) rs = cancel_feed_next parse b False ws rs"
| "cancel_feed_next parse b True (WatchEnds # ws) rs = cancel_feed_next parse b False ws rs"
| "cancel_feed_next parse b False ws [] = (None, False, ws, [])"
| "cancel_feed_next parse b False ws (True # rs) = (Some CancelReset, True, ws, rs)"
| "cancel_feed_next parse b False ws (False # rs) = cancel_feed_next parse (snd (next_delay b)) False ws rs"
  by pat_completeness auto
termination
  by (relation "measure (\<lambda>(_, _, _, ws, rs). length ws + length rs)") auto

function trigger_feed_next ::
  "Backoff \<Rightarrow> bool \<Rightarrow> 'm WatchItem list \<Rightarrow> bool list \<Rightarrow> 'm option \<times> bool \<times> 'm WatchItem list \<times> bool list" where
  "trigger_feed_next b True [] rs = (None, True, [], rs)"
| "trigger_feed_next b True (WatchGives m # ws) rs = (Some m, True, ws, rs)"
| "trigger_feed_next b True (WatchFails # ws) rs = trigger_feed_next b False ws rs"
| "trigger_feed_next b True (WatchEnds # ws) rs = trigger_feed_next b False ws rs"
| "trigger_feed_next b False ws [] = (None, False, ws, [])"
| "trigger_feed_next b False ws (True # rs) = trigger_feed_next (backoff_reset (snd (next_delay b))) True ws rs"
| "trigger_feed_next b False ws (False # rs) = trigger_feed_next (snd (next_delay b)) False ws rs"
  by pat_completeness auto
termination
  by (relation "measure (\<lambda>(_, _, ws, rs). length ws + length rs)") auto

section \<open>The state of the loop and its branches\<close>

record Loop =
  lp_presence :: PresenceSession
  lp_slots :: SlotPool
  lp_cancels :: CancelSet
  lp_tokens :: "uuid \<Rightarrow> bool option"
  lp_runs :: "uuid list"
  lp_deadline :: "instant option"

datatype AckKind = AckMessage | NakMessage | TermMessage

text \<open>What the loop does outside itself; a message is named by its number.\<close>

datatype LoopAct =
    ActPresence PresenceAction
  | ActAnswer nat AckKind
  | ActStarted uuid
  | ActSpawn uuid bool
  | ActSignal uuid
  | ActAbort

datatype LoopEvent =
    LeShutdown
  | LeDeadline
  | LeTrigger nat "Trigger option" bool
  | LeCancel HCancelEvent
  | LeJoined uuid bool
  | LeHeartbeat

definition loop_new :: "PresenceSession \<Rightarrow> nat \<Rightarrow> Loop" where
  "loop_new presence slot_count =
     \<lparr>lp_presence = presence, lp_slots = slot_pool_new slot_count, lp_cancels = cancel_set_new,
      lp_tokens = (\<lambda>_. None), lp_runs = [], lp_deadline = None\<rparr>"

text \<open>\<open>accepted\<close> is whether the broker acknowledged the started fact.\<close>

definition accept_trigger :: "nat \<Rightarrow> Trigger option \<Rightarrow> bool \<Rightarrow> Loop \<Rightarrow> LoopAct list \<times> Loop" where
  "accept_trigger d trigger accepted s =
     (case trigger of
        None \<Rightarrow> ([ActAnswer d TermMessage], s)
      | Some t \<Rightarrow>
          (let run = tg_run_id t in
           if is_cancelled run (lp_cancels s) then ([ActAnswer d AckMessage], s)
           else
             (case try_claim run (lp_slots s) of
                (AlreadyInFlight, _) \<Rightarrow> ([ActAnswer d AckMessage], s)
              | (AtCapacity, _) \<Rightarrow> ([ActAnswer d NakMessage], s)
              | (PoolDraining, _) \<Rightarrow> ([ActAnswer d NakMessage], s)
              | (Claimed, slots) \<Rightarrow>
                  if \<not> accepted then
                    ([ActAnswer d NakMessage], s\<lparr>lp_slots := snd (slot_release run slots)\<rparr>)
                  else
                    ([ActStarted run, ActAnswer d AckMessage, ActSpawn run (is_cancelled run (lp_cancels s))],
                     s\<lparr>lp_slots := slots, lp_tokens := (lp_tokens s)(run \<mapsto> is_cancelled run (lp_cancels s)),
                       lp_runs := lp_runs s @ [run]\<rparr>))))"

definition loop_cancel :: "HCancelEvent \<Rightarrow> Loop \<Rightarrow> LoopAct list \<times> Loop" where
  "loop_cancel ev s =
     (case ev of
        CancelReset \<Rightarrow> ([], s\<lparr>lp_cancels := replace_with_replay [] (lp_cancels s)\<rparr>)
      | CancelPut run \<Rightarrow>
          (let s1 = s\<lparr>lp_cancels := apply_put run (lp_cancels s)\<rparr> in
           case lp_tokens s run of
             Some _ \<Rightarrow> ([ActSignal run], s1\<lparr>lp_tokens := (lp_tokens s)(run \<mapsto> True)\<rparr>)
           | None \<Rightarrow> ([], s1))
      | CancelCleared run \<Rightarrow> ([], s\<lparr>lp_cancels := apply_delete run (lp_cancels s)\<rparr>))"

text \<open>A task that was joined; a task that panicked does not tell which Run it had.\<close>

definition loop_joined :: "uuid \<Rightarrow> bool \<Rightarrow> Loop \<Rightarrow> Loop" where
  "loop_joined run returned s =
     (let s1 = s\<lparr>lp_runs := remove1 run (lp_runs s)\<rparr> in
      if returned then
        s1\<lparr>lp_slots := snd (slot_release run (lp_slots s)), lp_tokens := (lp_tokens s)(run := None)\<rparr>
      else s1)"

definition loop_head :: "instant \<Rightarrow> Loop \<Rightarrow> LoopAct list \<times> bool \<times> Loop" where
  "loop_head now s =
     (case poll now (lp_presence s) of (a, p) \<Rightarrow>
        ((case a of Some x \<Rightarrow> [ActPresence x] | None \<Rightarrow> []),
         lp_deadline s \<noteq> None \<and> lp_runs s = [], s\<lparr>lp_presence := p\<rparr>))"

definition heartbeat_due :: "instant \<Rightarrow> Loop \<Rightarrow> instant" where
  "heartbeat_due now s =
     (case next_due (lp_presence s) of Now \<Rightarrow> now | At at \<Rightarrow> at | Never \<Rightarrow> now + 3600 * 10 ^ 9)"

text \<open>When a branch of the select can be taken at \<open>now\<close>; \<open>due\<close> is when the heartbeat is.\<close>

fun loop_ready :: "instant \<Rightarrow> instant \<Rightarrow> LoopEvent \<Rightarrow> Loop \<Rightarrow> bool" where
  "loop_ready due now LeShutdown s = (lp_deadline s = None)"
| "loop_ready due now LeDeadline s = (case lp_deadline s of Some d \<Rightarrow> d \<le> now | None \<Rightarrow> False)"
| "loop_ready due now (LeTrigger _ _ _) s = (lp_deadline s = None \<and> has_free_slot (lp_slots s))"
| "loop_ready due now (LeCancel _) s = True"
| "loop_ready due now (LeJoined run _) s = (run \<in> set (lp_runs s))"
| "loop_ready due now LeHeartbeat s = (due \<le> now)"

fun loop_branch :: "duration \<Rightarrow> instant \<Rightarrow> LoopEvent \<Rightarrow> Loop \<Rightarrow> LoopAct list \<times> bool \<times> Loop" where
  "loop_branch drain_timeout now LeShutdown s =
     ([], False, s\<lparr>lp_deadline := Some (now + drain_timeout), lp_slots := slots_begin_drain (lp_slots s),
                   lp_presence := presence_begin_drain (lp_presence s)\<rparr>)"
| "loop_branch drain_timeout now LeDeadline s = ([ActAbort], True, s)"
| "loop_branch drain_timeout now (LeTrigger d trigger accepted) s =
     (case accept_trigger d trigger accepted s of (acts, s1) \<Rightarrow> (acts, False, s1))"
| "loop_branch drain_timeout now (LeCancel ev) s = (case loop_cancel ev s of (acts, s1) \<Rightarrow> (acts, False, s1))"
| "loop_branch drain_timeout now (LeJoined run returned) s = ([], False, loop_joined run returned s)"
| "loop_branch drain_timeout now LeHeartbeat s = ([], False, s)"

definition loop_leave :: "Loop \<Rightarrow> LoopAct list \<times> Loop" where
  "loop_leave s =
     (case presence_close (lp_presence s) of (a, p) \<Rightarrow>
        ((case a of Some x \<Rightarrow> [ActPresence x] | None \<Rightarrow> []), s\<lparr>lp_presence := p\<rparr>))"

section \<open>The loop as a system\<close>

text \<open>
  \<open>hs_acts\<close> is the history of what the loop did, \<open>hs_panicked\<close> the Runs whose task was joined by a
  panic. A turn is the head at \<open>t0\<close> and the branch \<open>ev\<close> at \<open>t1\<close>.
\<close>

record Harness =
  hs_loop :: Loop
  hs_stopped :: bool
  hs_acts :: "LoopAct list"
  hs_panicked :: "uuid set"

definition harness_turn :: "duration \<Rightarrow> instant \<times> instant \<times> LoopEvent \<Rightarrow> Harness \<Rightarrow> Harness" where
  "harness_turn drain_timeout turn h =
     (case turn of (t0, t1, ev) \<Rightarrow>
        case loop_head t0 (hs_loop h) of (acts0, over, s1) \<Rightarrow>
          if over then
            (case loop_leave s1 of (acts2, s2) \<Rightarrow>
               h\<lparr>hs_loop := s2, hs_stopped := True, hs_acts := hs_acts h @ acts0 @ acts2\<rparr>)
          else
            (case loop_branch drain_timeout t1 ev s1 of (acts1, left, s2) \<Rightarrow>
               let lost = (case ev of LeJoined run returned \<Rightarrow> if returned then {} else {run} | _ \<Rightarrow> {}) in
               if left then
                 (case loop_leave s2 of (acts2, s3) \<Rightarrow>
                    h\<lparr>hs_loop := s3, hs_stopped := True, hs_acts := hs_acts h @ acts0 @ acts1 @ acts2\<rparr>)
               else h\<lparr>hs_loop := s2, hs_acts := hs_acts h @ acts0 @ acts1, hs_panicked := hs_panicked h \<union> lost\<rparr>))"

text \<open>A turn is possible when the loop runs, and either leaves at its head or its branch is ready.\<close>

definition turn_can :: "instant \<times> instant \<times> LoopEvent \<Rightarrow> Harness \<Rightarrow> bool" where
  "turn_can turn h =
     (case turn of (t0, t1, ev) \<Rightarrow>
        \<not> hs_stopped h \<and> t0 \<le> t1 \<and>
        (case loop_head t0 (hs_loop h) of (_, over, s1) \<Rightarrow> over \<or> loop_ready (heartbeat_due t0 s1) t1 ev s1))"

definition harness_new :: "duration \<Rightarrow> nat \<Rightarrow> Harness \<Rightarrow> bool" where
  "harness_new ttl slot_count h \<longleftrightarrow>
     0 < slot_count \<and>
     (\<exists>presence. presence_new ttl (ttl div 3) = Ok presence \<and>
        h = \<lparr>hs_loop = loop_new presence slot_count, hs_stopped = False, hs_acts = [], hs_panicked = {}\<rparr>)"

inductive harness_step :: "duration \<Rightarrow> Harness \<Rightarrow> instant \<times> instant \<times> LoopEvent \<Rightarrow> Harness \<Rightarrow> bool" for drain_timeout where
  harness_turns: "turn_can turn h \<Longrightarrow> harness_step drain_timeout h turn (harness_turn drain_timeout turn h)"

section \<open>The invariant of the loop\<close>

definition loop_inv :: "nat \<Rightarrow> uuid set \<Rightarrow> Loop \<Rightarrow> bool" where
  "loop_inv c lost s \<longleftrightarrow>
     slot_inv c (lp_slots s) \<and> in_flight (lp_slots s) = set (lp_runs s) \<union> lost \<and>
     set (lp_runs s) \<inter> lost = {} \<and> distinct (lp_runs s) \<and>
     (\<forall>run. lp_tokens s run \<noteq> None \<longleftrightarrow> run \<in> in_flight (lp_slots s)) \<and>
     (\<forall>run. is_cancelled run (lp_cancels s) \<longrightarrow> lp_tokens s run \<noteq> Some False) \<and>
     (draining (lp_slots s) \<longleftrightarrow> lp_deadline s \<noteq> None)"

lemma loop_inv_new: "loop_inv c {} (loop_new presence c)"
  by (simp add: loop_inv_def loop_new_def slot_inv_def slot_pool_new_def)

lemma loop_inv_presence [simp]: "loop_inv c lost (s\<lparr>lp_presence := p\<rparr>) = loop_inv c lost s"
  by (simp add: loop_inv_def)

lemma loop_inv_drain:
  "loop_inv c lost s \<Longrightarrow> loop_inv c lost (s\<lparr>lp_deadline := Some d, lp_slots := slots_begin_drain (lp_slots s)\<rparr>)"
  unfolding loop_inv_def slot_inv_def slots_begin_drain_def by (elim conjE) (intro conjI; simp)

lemma loop_inv_cancel: "loop_inv c lost s \<Longrightarrow> loop_inv c lost (snd (loop_cancel ev s))"
  by (auto simp: loop_inv_def loop_cancel_def cancel_set_defs Let_def split: HCancelEvent.splits option.splits)

lemma loop_inv_joined:
  assumes "loop_inv c lost s" and "run \<in> set (lp_runs s)"
  shows "loop_inv c (if returned then lost else insert run lost) (loop_joined run returned s)"
proof (cases returned)
  case True
  have "slot_inv c (snd (slot_release run (lp_slots s)))"
    using slot_step_inv [of "lp_slots s" "Release run (fst (slot_release run (lp_slots s)))"] assms(1)
    by (simp add: loop_inv_def)
  with True assms show ?thesis
    by (auto simp: loop_inv_def loop_joined_def slot_release_def Let_def)
next
  case False
  with assms show ?thesis by (auto simp: loop_inv_def loop_joined_def Let_def)
qed

text \<open>The branches of \<open>accept_trigger\<close>, as rewriting rules.\<close>

lemma claim_free:
  assumes "loop_inv c lost s" and "has_free_slot (lp_slots s)" and "run \<notin> in_flight (lp_slots s)"
  shows "try_claim run (lp_slots s) = (Claimed, (lp_slots s)\<lparr>in_flight := insert run (in_flight (lp_slots s))\<rparr>)"
  using assms by (simp add: loop_inv_def slot_pool_defs)

lemma claim_known:
  assumes "has_free_slot (lp_slots s)" and "run \<in> in_flight (lp_slots s)"
  shows "try_claim run (lp_slots s) = (AlreadyInFlight, lp_slots s)"
  using assms by (simp add: slot_pool_defs)

lemma release_claimed: "run \<notin> in_flight p \<Longrightarrow> snd (slot_release run (p\<lparr>in_flight := insert run (in_flight p)\<rparr>)) = p"
  by (simp add: slot_release_def)

lemma accept_trigger_free:
  assumes "loop_inv c lost s" and "has_free_slot (lp_slots s)"
  shows "accept_trigger d trigger accepted s =
    (case trigger of
       None \<Rightarrow> ([ActAnswer d TermMessage], s)
     | Some t \<Rightarrow>
         if is_cancelled (tg_run_id t) (lp_cancels s) \<or> tg_run_id t \<in> in_flight (lp_slots s) then ([ActAnswer d AckMessage], s)
         else if \<not> accepted then ([ActAnswer d NakMessage], s)
         else ([ActStarted (tg_run_id t), ActAnswer d AckMessage, ActSpawn (tg_run_id t) False],
               s\<lparr>lp_slots := (lp_slots s)\<lparr>in_flight := insert (tg_run_id t) (in_flight (lp_slots s))\<rparr>,
                 lp_tokens := (lp_tokens s)(tg_run_id t \<mapsto> False), lp_runs := lp_runs s @ [tg_run_id t]\<rparr>))"
  using claim_free [OF assms] claim_known [OF assms(2)] release_claimed
  by (auto simp: accept_trigger_def Let_def split: option.splits)

lemma loop_inv_accept:
  assumes "loop_inv c lost s" and "has_free_slot (lp_slots s)"
  shows "loop_inv c lost (snd (accept_trigger d trigger accepted s))"
proof -
  have "loop_inv c lost (s\<lparr>lp_slots := (lp_slots s)\<lparr>in_flight := insert run (in_flight (lp_slots s))\<rparr>,
      lp_tokens := (lp_tokens s)(run \<mapsto> False), lp_runs := lp_runs s @ [run]\<rparr>)"
    if "run \<notin> in_flight (lp_slots s)" "\<not> is_cancelled run (lp_cancels s)" for run
    using that assms by (auto simp: loop_inv_def slot_inv_def has_free_slot_def)
  with assms(1) show ?thesis by (auto simp: accept_trigger_free [OF assms] split: option.splits)
qed

definition lost_of :: "LoopEvent \<Rightarrow> uuid set" where
  "lost_of ev = (case ev of LeJoined run returned \<Rightarrow> if returned then {} else {run} | _ \<Rightarrow> {})"

lemma loop_inv_branch:
  assumes "loop_inv c lost s" and "loop_ready due now ev s"
  shows "loop_inv c (lost \<union> lost_of ev) (snd (snd (loop_branch drain_timeout now ev s)))"
proof (cases ev)
  case LeShutdown
  then show ?thesis using loop_inv_drain [OF assms(1)] by (simp add: lost_of_def)
next
  case LeDeadline
  with assms show ?thesis by (simp add: lost_of_def)
next
  case (LeTrigger d trigger accepted)
  with assms loop_inv_accept show ?thesis by (simp add: lost_of_def split_beta)
next
  case (LeCancel x)
  with assms loop_inv_cancel show ?thesis by (simp add: lost_of_def split_beta)
next
  case (LeJoined run returned)
  with assms loop_inv_joined [of c lost s run returned] show ?thesis by (simp add: lost_of_def split: if_splits)
next
  case LeHeartbeat
  with assms show ?thesis by (simp add: lost_of_def)
qed

section \<open>What is published of the presence\<close>

fun presence_acts :: "LoopAct list \<Rightarrow> PresenceAction list" where
  "presence_acts [] = []"
| "presence_acts (ActPresence a # acts) = a # presence_acts acts"
| "presence_acts (_ # acts) = presence_acts acts"

lemma presence_acts_append [simp]: "presence_acts (xs @ ys) = presence_acts xs @ presence_acts ys"
  by (induction xs rule: presence_acts.induct) simp_all

definition presence_published :: "Presence_Session.Phase \<Rightarrow> PresenceAction list \<Rightarrow> bool" where
  "presence_published ph xs \<longleftrightarrow>
     (\<exists>n m. xs = replicate n PublishReady @ (if ph = Ready then [] else replicate m PublishDraining) @
        (if ph = Closed then [DeletePresence] else []))"

lemma presence_published_Ready: "presence_published Ready xs \<longleftrightarrow> (\<exists>n. xs = replicate n PublishReady)"
  by (simp add: presence_published_def)

lemma presence_published_Draining:
  "presence_published Draining xs \<longleftrightarrow> (\<exists>n m. xs = replicate n PublishReady @ replicate m PublishDraining)"
  by (simp add: presence_published_def)

lemma presence_published_Closed:
  "presence_published Closed xs \<longleftrightarrow> (\<exists>n m. xs = replicate n PublishReady @ replicate m PublishDraining @ [DeletePresence])"
  by (simp add: presence_published_def)

lemma published_ready: "presence_published Ready xs \<Longrightarrow> presence_published Ready (xs @ [PublishReady])"
  unfolding presence_published_Ready by (metis replicate_Suc replicate_append_same)

lemma published_draining: "presence_published Draining xs \<Longrightarrow> presence_published Draining (xs @ [PublishDraining])"
  unfolding presence_published_Draining by (metis append_assoc replicate_Suc replicate_append_same)

lemma published_drains: "presence_published Ready xs \<Longrightarrow> presence_published Draining xs"
  unfolding presence_published_Ready presence_published_Draining by (metis append_Nil2 replicate_0)

lemma published_closes: "ph \<noteq> Closed \<Longrightarrow> presence_published ph xs \<Longrightarrow> presence_published Closed (xs @ [DeletePresence])"
proof (cases ph)
  assume "presence_published ph xs" and "ph = Ready"
  then have "presence_published Draining xs" by (simp add: published_drains)
  then show ?thesis unfolding presence_published_Draining presence_published_Closed by auto
next
  assume "presence_published ph xs" and "ph = Draining"
  then show ?thesis by (auto simp: presence_published_Draining presence_published_Closed)
qed simp

definition presence_ok :: "Loop \<Rightarrow> LoopAct list \<Rightarrow> bool" where
  "presence_ok s acts \<longleftrightarrow>
     phase (lp_presence s) = (if lp_deadline s = None then Ready else Draining) \<and>
     presence_published (phase (lp_presence s)) (presence_acts acts)"

lemma presence_ok_head:
  "presence_ok s acts \<Longrightarrow> presence_ok (snd (snd (loop_head now s))) (acts @ fst (loop_head now s))"
  by (auto simp: presence_ok_def loop_head_def poll_def Let_def published_ready published_draining
      split: Presence_Session.Phase.splits NextDue.splits if_splits)

lemma no_presence_accept: "presence_acts (fst (accept_trigger d trigger accepted s)) = []"
  by (auto simp: accept_trigger_def Let_def split: option.splits prod.splits ClaimDecision.splits)

lemma no_presence_cancel: "presence_acts (fst (loop_cancel ev s)) = []"
  by (auto simp: loop_cancel_def Let_def split: HCancelEvent.splits option.splits)

lemma accept_frame: "lp_presence (snd (accept_trigger d trigger accepted s)) = lp_presence s \<and>
    lp_deadline (snd (accept_trigger d trigger accepted s)) = lp_deadline s"
  by (auto simp: accept_trigger_def Let_def split: option.splits prod.splits ClaimDecision.splits)

lemma cancel_frame: "lp_presence (snd (loop_cancel ev s)) = lp_presence s \<and> lp_deadline (snd (loop_cancel ev s)) = lp_deadline s \<and>
    lp_runs (snd (loop_cancel ev s)) = lp_runs s"
  by (auto simp: loop_cancel_def Let_def split: HCancelEvent.splits option.splits)

lemma presence_ok_branch:
  assumes "presence_ok s acts" and "loop_ready due now ev s"
  shows "presence_ok (snd (snd (loop_branch drain_timeout now ev s))) (acts @ fst (loop_branch drain_timeout now ev s))"
proof (cases ev)
  case LeShutdown
  with assms published_drains show ?thesis by (auto simp: presence_ok_def presence_begin_drain_def)
next
  case (LeTrigger d trigger accepted)
  with assms show ?thesis by (auto simp: presence_ok_def split_beta accept_frame no_presence_accept)
next
  case (LeCancel x)
  with assms show ?thesis by (auto simp: presence_ok_def split_beta cancel_frame no_presence_cancel)
next
  case (LeJoined run returned)
  with assms show ?thesis by (auto simp: presence_ok_def loop_joined_def Let_def)
qed (use assms in \<open>auto simp: presence_ok_def\<close>)

lemma leave_closes:
  "presence_ok s acts \<Longrightarrow> presence_published Closed (presence_acts (acts @ fst (loop_leave s)))"
  by (auto simp: presence_ok_def loop_leave_def presence_close_def
      published_closes [of Ready, simplified] published_closes [of Draining, simplified])

lemma loop_inv_leave [simp]: "loop_inv c lost (snd (loop_leave s)) = loop_inv c lost s"
  by (simp add: loop_leave_def split_beta)

section \<open>The invariant of the system\<close>

definition harness_inv :: "nat \<Rightarrow> Harness \<Rightarrow> bool" where
  "harness_inv c h \<longleftrightarrow>
     loop_inv c (hs_panicked h) (hs_loop h) \<and>
     (if hs_stopped h then presence_published Closed (presence_acts (hs_acts h)) else presence_ok (hs_loop h) (hs_acts h))"

lemma harness_inv_new: "harness_new ttl c h \<Longrightarrow> harness_inv c h"
  by (auto simp: harness_new_def harness_inv_def loop_inv_new [unfolded loop_new_def] presence_ok_def presence_published_def presence_new_def loop_new_def
      split: if_splits)

lemma loop_inv_head: "loop_inv c lost s \<Longrightarrow> loop_inv c lost (snd (snd (loop_head now s)))"
  by (simp add: loop_head_def split_beta)

lemma harness_inv_turn:
  assumes "turn_can turn h" and "harness_inv c h"
  shows "harness_inv c (harness_turn drain_timeout turn h)"
proof -
  obtain t0 t1 ev where t: "turn = (t0, t1, ev)" by (cases turn)
  obtain acts0 over s1 where h1: "loop_head t0 (hs_loop h) = (acts0, over, s1)" by (cases "loop_head t0 (hs_loop h)")
  have i1: "loop_inv c (hs_panicked h) s1" and p1: "presence_ok s1 (hs_acts h @ acts0)"
    using assms loop_inv_head [of c "hs_panicked h" "hs_loop h" t0] presence_ok_head [of "hs_loop h" "hs_acts h" t0]
    by (simp_all add: harness_inv_def turn_can_def t h1)
  show ?thesis
  proof (cases over)
    case True
    obtain acts2 s2 where l: "loop_leave s1 = (acts2, s2)" by (cases "loop_leave s1")
    from i1 have "loop_inv c (hs_panicked h) s2" using loop_inv_leave [of c "hs_panicked h" s1] by (simp add: l)
    moreover from p1 have "presence_published Closed (presence_acts (hs_acts h @ acts0 @ acts2))"
      using leave_closes [of s1 "hs_acts h @ acts0"] by (simp add: l)
    ultimately show ?thesis using True by (simp add: harness_turn_def t h1 l harness_inv_def)
  next
    case False
    obtain acts1 left s2 where b: "loop_branch drain_timeout t1 ev s1 = (acts1, left, s2)"
      by (cases "loop_branch drain_timeout t1 ev s1")
    have r: "loop_ready (heartbeat_due t0 s1) t1 ev s1" using assms(1) False by (simp add: turn_can_def t h1)
    have i2: "loop_inv c (hs_panicked h \<union> lost_of ev) s2" and p2: "presence_ok s2 ((hs_acts h @ acts0) @ acts1)"
      using loop_inv_branch [OF i1 r, of drain_timeout] presence_ok_branch [OF p1 r, of drain_timeout] by (simp_all add: b)
    show ?thesis
    proof (cases left)
      case True
      then have "ev = LeDeadline" using b by (cases ev) (auto split: prod.splits)
      obtain acts2 s3 where l: "loop_leave s2 = (acts2, s3)" by (cases "loop_leave s2")
      from i2 have "loop_inv c (hs_panicked h) s3"
        using loop_inv_leave [of c "hs_panicked h" s2] by (simp add: l lost_of_def \<open>ev = LeDeadline\<close>)
      moreover from p2 have "presence_published Closed (presence_acts (hs_acts h @ acts0 @ acts1 @ acts2))"
        using leave_closes [of s2 "(hs_acts h @ acts0) @ acts1"] by (simp add: l)
      ultimately show ?thesis using True False by (simp add: harness_turn_def t h1 b l harness_inv_def Let_def)
    next
      case left: False
      with False i2 p2 assms(1) show ?thesis
        by (simp add: harness_turn_def t h1 b harness_inv_def Let_def turn_can_def flip: lost_of_def)
    qed
  qed
qed

interpretation harness: invariant_system "harness_new ttl c" "harness_step drain_timeout" "harness_inv c" for ttl c drain_timeout
  by unfold_locales (auto simp: harness_inv_new elim!: harness_step.cases intro: harness_inv_turn)

end
