(* ===== verification/Harness_Correct.thy ===== *)
theory Harness_Correct
  imports Harness_Loop
begin

text \<open>
  What the loop of the first harness promises: the accounting of its slots and tokens, the answer to
  each trigger, the end of its drain, and that its cancel set follows the bucket over reconnects.
\<close>

section \<open>Runs, slots and tokens\<close>

text \<open>
  C6: in every state of the loop each running task has a slot and a cancellation token of its own, no Run
  has two tasks, at most \<open>slot_count\<close> slots are taken, a Run that is running and ordered to be
  cancelled has its token cancelled, and no trigger can be taken once the drain began. The slots that
  are taken without a task are those of the Runs whose task panicked: the loop never frees them.
\<close>
theorem harness_accounting:
  assumes "reach (harness_new ttl slot_count) (harness_step drain_timeout) h"
  shows "distinct (lp_runs (hs_loop h)) \<and> set (lp_runs (hs_loop h)) \<inter> hs_panicked h = {} \<and>
    in_flight (lp_slots (hs_loop h)) = set (lp_runs (hs_loop h)) \<union> hs_panicked h \<and>
    length (lp_runs (hs_loop h)) + card (hs_panicked h) \<le> slot_count \<and>
    {run. lp_tokens (hs_loop h) run \<noteq> None} = in_flight (lp_slots (hs_loop h)) \<and>
    {run. is_cancelled run (lp_cancels (hs_loop h))} \<inter> set (lp_runs (hs_loop h)) \<subseteq> {run. lp_tokens (hs_loop h) run = Some True} \<and>
    (has_free_slot (lp_slots (hs_loop h)) \<longleftrightarrow>
       lp_deadline (hs_loop h) = None \<and> length (lp_runs (hs_loop h)) + card (hs_panicked h) < slot_count)"
proof -
  let ?s = "hs_loop h"
  have inv: "loop_inv slot_count (hs_panicked h) ?s"
    using harness.inv_reach [OF assms] by (simp add: harness_inv_def)
  then have slots: "finite (in_flight (lp_slots ?s))" "card (in_flight (lp_slots ?s)) \<le> slot_count" "capacity (lp_slots ?s) = slot_count"
    and fl: "in_flight (lp_slots ?s) = set (lp_runs ?s) \<union> hs_panicked h" and dj: "set (lp_runs ?s) \<inter> hs_panicked h = {}"
    and d: "distinct (lp_runs ?s)" and dr: "draining (lp_slots ?s) \<longleftrightarrow> lp_deadline ?s \<noteq> None"
    and tk: "\<And>run. lp_tokens ?s run \<noteq> None \<longleftrightarrow> run \<in> in_flight (lp_slots ?s)"
    and cn: "\<And>run. is_cancelled run (lp_cancels ?s) \<Longrightarrow> lp_tokens ?s run \<noteq> Some False"
    unfolding loop_inv_def slot_inv_def by blast+
  have c: "card (in_flight (lp_slots ?s)) = length (lp_runs ?s) + card (hs_panicked h)"
    using slots(1) unfolding fl by (simp add: card_Un_disjoint dj distinct_card [OF d])
  have "{run. is_cancelled run (lp_cancels ?s)} \<inter> set (lp_runs ?s) \<subseteq> {run. lp_tokens ?s run = Some True}"
  proof
    fix run assume "run \<in> {run. is_cancelled run (lp_cancels ?s)} \<inter> set (lp_runs ?s)"
    then have "lp_tokens ?s run \<noteq> Some False" "lp_tokens ?s run \<noteq> None" using tk [of run] cn [of run] fl by auto
    then show "run \<in> {run. lp_tokens ?s run = Some True}" by (cases "lp_tokens ?s run") auto
  qed
  moreover have "{run. lp_tokens ?s run \<noteq> None} = in_flight (lp_slots ?s)" using tk by blast
  ultimately show ?thesis using slots d dj fl c dr by (simp add: has_free_slot_def)
qed

text \<open>
  C30: a trigger that the loop takes is answered exactly once. It is terminated when it cannot be decoded;
  acknowledged without a task when its Run is cancelled or in flight; given back, with nothing changed,
  exactly when the broker did not take the started fact; and else the started fact comes first, then
  the acknowledgement, and then one task with a token that is not cancelled. The loop never gives a
  trigger back for want of a slot.
\<close>
theorem harness_trigger_answered:
  assumes "reach (harness_new ttl slot_count) (harness_step drain_timeout) h"
    and "loop_ready due now (LeTrigger d trigger accepted) (hs_loop h)"
  shows "accept_trigger d trigger accepted (hs_loop h) =
    (case trigger of
       None \<Rightarrow> ([ActAnswer d TermMessage], hs_loop h)
     | Some t \<Rightarrow>
         if is_cancelled (tg_run_id t) (lp_cancels (hs_loop h)) \<or> tg_run_id t \<in> set (lp_runs (hs_loop h)) \<union> hs_panicked h
         then ([ActAnswer d AckMessage], hs_loop h)
         else if \<not> accepted then ([ActAnswer d NakMessage], hs_loop h)
         else ([ActStarted (tg_run_id t), ActAnswer d AckMessage, ActSpawn (tg_run_id t) False],
               (hs_loop h)\<lparr>lp_slots := (lp_slots (hs_loop h))\<lparr>in_flight := insert (tg_run_id t) (in_flight (lp_slots (hs_loop h)))\<rparr>,
                 lp_tokens := (lp_tokens (hs_loop h))(tg_run_id t \<mapsto> False),
                 lp_runs := lp_runs (hs_loop h) @ [tg_run_id t]\<rparr>))"
proof -
  have inv: "loop_inv slot_count (hs_panicked h) (hs_loop h)"
    using harness.inv_reach [OF assms(1)] by (simp add: harness_inv_def)
  then have f: "set (lp_runs (hs_loop h)) \<union> hs_panicked h = in_flight (lp_slots (hs_loop h))"
    unfolding loop_inv_def by blast
  have "has_free_slot (lp_slots (hs_loop h))" using assms(2) by simp
  then show ?thesis unfolding f by (rule accept_trigger_free [OF inv])
qed

section \<open>The drain\<close>

inductive harness_path :: "duration \<Rightarrow> Harness \<Rightarrow> (instant \<times> instant \<times> LoopEvent) list \<Rightarrow> Harness \<Rightarrow> bool" for drain_timeout where
  path_here: "harness_path drain_timeout h [] h"
| path_turn: "harness_path drain_timeout h turns h' \<Longrightarrow> turn_can turn h' \<Longrightarrow>
    harness_path drain_timeout h (turns @ [turn]) (harness_turn drain_timeout turn h')"

fun is_join :: "instant \<times> instant \<times> LoopEvent \<Rightarrow> bool" where
  "is_join (_, _, LeJoined _ _) = True"
| "is_join (_, _, _) = False"

text \<open>While it drains, the loop starts no Run, and each task that is joined is one less.\<close>

definition spawns :: "LoopAct list \<Rightarrow> LoopAct list" where
  "spawns acts = filter (\<lambda>a. \<exists>run b. a = ActSpawn run b) acts"

lemma branch_draining:
  assumes "loop_ready due now ev s" and "lp_deadline s = Some d"
  shows "lp_deadline (snd (snd (loop_branch drain_timeout now ev s))) = Some d \<and>
    length (lp_runs (snd (snd (loop_branch drain_timeout now ev s)))) + (if is_join (t0, now, ev) then 1 else 0) = length (lp_runs s) \<and>
    spawns (fst (loop_branch drain_timeout now ev s)) = [] \<and> (fst (snd (loop_branch drain_timeout now ev s)) \<longleftrightarrow> ev = LeDeadline)"
proof (cases ev)
  case (LeCancel x)
  have "spawns (fst (loop_cancel x s)) = []"
    by (auto simp: loop_cancel_def spawns_def Let_def split: HCancelEvent.splits option.splits)
  with LeCancel assms show ?thesis by (simp add: split_beta cancel_frame)
next
  case (LeJoined run returned)
  with assms have "0 < length (lp_runs s)" by (auto simp: length_pos_if_in_set)
  with LeJoined assms show ?thesis by (simp add: loop_joined_def Let_def spawns_def length_remove1)
qed (use assms in \<open>auto simp: spawns_def\<close>)

lemma spawns_abort [simp]: "spawns (ActAbort # acts) = spawns acts"
  by (simp add: spawns_def)

lemma spawns_append [simp]: "spawns (xs @ ys) = spawns xs @ spawns ys"
  by (simp add: spawns_def)

lemma spawns_head: "spawns (fst (loop_head now s)) = []"
  by (simp add: loop_head_def spawns_def split_beta split: option.splits)

lemma spawns_leave: "spawns (fst (loop_leave s)) = []"
  by (simp add: loop_leave_def spawns_def split_beta split: option.splits)

lemma head_frame: "lp_deadline (snd (snd (loop_head t s))) = lp_deadline s \<and> lp_runs (snd (snd (loop_head t s))) = lp_runs s \<and>
    (fst (snd (loop_head t s)) \<longleftrightarrow> lp_deadline s \<noteq> None \<and> lp_runs s = [])"
  by (simp add: loop_head_def split_beta)

lemma leave_frame: "lp_deadline (snd (loop_leave s)) = lp_deadline s \<and> lp_runs (snd (loop_leave s)) = lp_runs s"
  by (simp add: loop_leave_def split_beta)

lemma turn_draining:
  assumes "turn_can turn h" and "lp_deadline (hs_loop h) = Some d"
  shows "lp_deadline (hs_loop (harness_turn drain_timeout turn h)) = Some d \<and>
    (lp_runs (hs_loop h) \<noteq> [] \<longrightarrow>
       length (lp_runs (hs_loop (harness_turn drain_timeout turn h))) + length (filter is_join [turn]) = length (lp_runs (hs_loop h))) \<and>
    spawns (hs_acts (harness_turn drain_timeout turn h)) = spawns (hs_acts h) \<and>
    (hs_stopped (harness_turn drain_timeout turn h) \<longleftrightarrow> lp_runs (hs_loop h) = [] \<or> snd (snd turn) = LeDeadline)"
proof -
  obtain t0 t1 ev where t: "turn = (t0, t1, ev)" by (cases turn)
  obtain acts0 over s1 where h1: "loop_head t0 (hs_loop h) = (acts0, over, s1)" by (cases "loop_head t0 (hs_loop h)")
  have f1: "lp_deadline s1 = Some d" "lp_runs s1 = lp_runs (hs_loop h)" "over \<longleftrightarrow> lp_runs (hs_loop h) = []" "spawns acts0 = []"
    using head_frame [of t0 "hs_loop h"] spawns_head [of t0 "hs_loop h"] assms(2) by (simp_all add: h1)
  show ?thesis
  proof (cases over)
    case True
    then show ?thesis using f1 leave_frame [of s1] spawns_leave [of s1]
      by (simp add: harness_turn_def t h1 split_beta)
  next
    case False
    have r: "loop_ready (heartbeat_due t0 s1) t1 ev s1" and ns: "\<not> hs_stopped h"
      using assms(1) False by (simp_all add: turn_can_def t h1)
    note b = branch_draining [OF r f1(1), of drain_timeout t0]
    show ?thesis
      using b f1 False ns leave_frame [of "snd (snd (loop_branch drain_timeout t1 ev s1))"]
        spawns_leave [of "snd (snd (loop_branch drain_timeout t1 ev s1))"]
      by (auto simp: harness_turn_def t h1 split_beta Let_def)
  qed
qed

lemma path_draining:
  assumes "harness_path drain_timeout h turns h'" and "lp_deadline (hs_loop h) = Some d" and "\<not> hs_stopped h'"
  shows "lp_deadline (hs_loop h') = Some d \<and>
    length (lp_runs (hs_loop h')) + length (filter is_join turns) = length (lp_runs (hs_loop h)) \<and>
    spawns (hs_acts h') = spawns (hs_acts h)"
  using assms
proof (induction rule: harness_path.induct)
  case (path_turn h turns h' turn)
  have "\<not> hs_stopped h'" using path_turn.hyps(2) by (simp add: turn_can_def split: prod.splits)
  note ih = path_turn.IH [OF path_turn.prems(1) this]
  note t = turn_draining [OF path_turn.hyps(2) conjunct1 [OF ih], of drain_timeout]
  then have "lp_runs (hs_loop h') \<noteq> []" using path_turn.prems(2) by blast
  with ih t show ?case by simp
qed simp


section \<open>The cancel set follows the bucket\<close>

lemma cancel_feed_next_less:
  "cancel_feed_next parse b watching ws rs = (Some ev, w1, ws1, rs1) \<Longrightarrow> length ws1 + length rs1 < length ws + length rs"
  by (induction parse b watching ws rs rule: cancel_feed_next.induct) (auto split: option.splits if_splits)

text \<open>The events of a feed, one call after the other.\<close>

function cancel_feed_events ::
  "(string \<Rightarrow> uuid option) \<Rightarrow> bool \<Rightarrow> (string \<times> WatchOperation) WatchItem list \<Rightarrow> bool list \<Rightarrow> HCancelEvent list" where
  "cancel_feed_events parse watching ws rs =
     (case cancel_feed_next parse reconnect_backoff watching ws rs of
        (None, _, _, _) \<Rightarrow> []
      | (Some ev, w1, ws1, rs1) \<Rightarrow> ev # cancel_feed_events parse w1 ws1 rs1)"
  by pat_completeness auto
termination
  by (relation "measure (\<lambda>(_, _, ws, rs). length ws + length rs)") (auto dest!: cancel_feed_next_less [OF sym])

declare cancel_feed_events.simps [simp del]

definition bucket :: "(string \<Rightarrow> uuid option) \<Rightarrow> (string \<times> WatchOperation) list \<Rightarrow> uuid set \<Rightarrow> uuid set" where
  "bucket parse entries runs =
     fold (\<lambda>(key, op) rs. case parse key of None \<Rightarrow> rs | Some run \<Rightarrow> if op = KvPut then insert run rs else rs - {run}) entries runs"

definition follow_cancels :: "HCancelEvent list \<Rightarrow> Loop \<Rightarrow> Loop" where
  "follow_cancels evs s = fold (\<lambda>ev s. snd (loop_cancel ev s)) evs s"

lemma follow_cancels_simps [simp]:
  "follow_cancels [] s = s" "follow_cancels (ev # evs) s = follow_cancels evs (snd (loop_cancel ev s))"
  by (simp_all add: follow_cancels_def)

lemma cancelled_step [simp]:
  "cancelled (lp_cancels (snd (loop_cancel (CancelPut run) s))) = insert run (cancelled (lp_cancels s))"
  "cancelled (lp_cancels (snd (loop_cancel (CancelCleared run) s))) = cancelled (lp_cancels s) - {run}"
  "cancelled (lp_cancels (snd (loop_cancel CancelReset s))) = {}"
  by (auto simp: loop_cancel_def cancel_set_defs Let_def split: option.splits)

lemma next_skips: "parse key = None \<Longrightarrow>
    cancel_feed_events parse True (WatchGives (key, op) # ws) rs = cancel_feed_events parse True ws rs"
  by (subst (1 2) cancel_feed_events.simps) simp

lemma next_breaks: "how \<in> {WatchFails, WatchEnds} \<Longrightarrow>
    cancel_feed_events parse True (how # ws) rs = cancel_feed_events parse False ws rs"
  by (subst (1 2) cancel_feed_events.simps) auto

lemma next_reopens: "cancel_feed_next parse b False ws (replicate n False @ True # rs) = (Some CancelReset, True, ws, rs)"
  by (induction n arbitrary: b) simp_all

lemma follow_segment:
  "\<exists>s'. follow_cancels (cancel_feed_events parse True (map WatchGives seg @ ws) rs) s =
        follow_cancels (cancel_feed_events parse True ws rs) s' \<and>
      cancelled (lp_cancels s') = bucket parse seg (cancelled (lp_cancels s))"
proof (induction seg arbitrary: s)
  case Nil
  then show ?case by (auto simp: bucket_def)
next
  case (Cons e seg)
  obtain key op where e: "e = (key, op)" by (cases e)
  show ?case
  proof (cases "parse key")
    case None
    with Cons.IH [of s] show ?thesis by (simp add: e next_skips bucket_def)
  next
    case (Some run)
    let ?ev = "if op = KvPut then CancelPut run else CancelCleared run"
    have "cancel_feed_events parse True (map WatchGives (e # seg) @ ws) rs =
        ?ev # cancel_feed_events parse True (map WatchGives seg @ ws) rs"
      by (subst cancel_feed_events.simps) (simp add: e Some)
    with Cons.IH [of "snd (loop_cancel ?ev s)"] Some show ?thesis by (auto simp: e bucket_def)
  qed
qed

lemma enough_reopenings:
  "Suc n \<le> count_list rs True \<Longrightarrow> \<exists>k rs'. rs = replicate k False @ True # rs' \<and> n \<le> count_list rs' True"
proof (induction rs)
  case (Cons r rs)
  show ?case
  proof (cases r)
    case True
    with Cons.prems show ?thesis by (intro exI [of _ 0] exI [of _ rs]) simp
  next
    case False
    with Cons obtain k rs' where "rs = replicate k False @ True # rs'" "n \<le> count_list rs' True" by auto
    with False show ?thesis by (intro exI [of _ "Suc k"] exI [of _ rs']) simp
  qed
qed simp

text \<open>What the watches give: each of the earlier ones breaks, the last one is still open.\<close>

definition watches :: "((string \<times> WatchOperation) list \<times> (string \<times> WatchOperation) WatchItem) list \<Rightarrow> (string \<times> WatchOperation) list \<Rightarrow>
    (string \<times> WatchOperation) WatchItem list" where
  "watches earlier current = concat (map (\<lambda>(seg, how). map WatchGives seg @ [how]) earlier) @ map WatchGives current"

lemma follow_watches:
  assumes "\<forall>(seg, how) \<in> set earlier. how \<in> {WatchFails, WatchEnds}" and "length earlier \<le> count_list rs True"
  shows "cancelled (lp_cancels (follow_cancels (cancel_feed_events parse True (watches earlier current) rs) s)) =
    bucket parse current (if earlier = [] then cancelled (lp_cancels s) else {})"
  using assms
proof (induction earlier arbitrary: rs s)
  case Nil
  have "cancel_feed_events parse True [] rs = []" by (subst cancel_feed_events.simps) simp
  then show ?case using follow_segment [of parse current "[]" rs s] by (auto simp: watches_def)
next
  case (Cons e earlier)
  obtain seg how where e: "e = (seg, how)" by (cases e)
  with Cons.prems have how: "how \<in> {WatchFails, WatchEnds}" by auto
  obtain k rs' where rs: "rs = replicate k False @ True # rs'" "length earlier \<le> count_list rs' True"
    using enough_reopenings [of "length earlier" rs] Cons.prems(2) by auto
  obtain s' where s': "follow_cancels (cancel_feed_events parse True (watches (e # earlier) current) rs) s =
      follow_cancels (cancel_feed_events parse False (watches earlier current) rs) s'"
    using follow_segment [of parse seg "how # watches earlier current" rs s] next_breaks [OF how]
    by (auto simp: watches_def e)
  have "cancel_feed_events parse False (watches earlier current) rs =
      CancelReset # cancel_feed_events parse True (watches earlier current) rs'"
    by (subst cancel_feed_events.simps) (simp add: rs(1) next_reopens)
  with s' Cons.IH [OF _ rs(2), of "snd (loop_cancel CancelReset s')"] Cons.prems(1) show ?case by auto
qed

text \<open>
  The cancel set of the loop follows the bucket over reconnects. However often the watch breaks and
  however many reopenings fail in between, once every break was followed by a successful reopening the
  set holds exactly the Runs that the entries of the watch that is open put and did not delete after;
  keys that name no Run are passed over.
\<close>
theorem harness_cancels_follow_bucket:
  assumes "list_all (\<lambda>(_, how). how = WatchFails \<or> how = WatchEnds) earlier"
    and "length earlier \<le> count_list reopenings True"
  shows "cancelled (lp_cancels (follow_cancels (cancel_feed_events parse True (watches earlier current) reopenings)
      (loop_new presence slot_count))) = bucket parse current {}"
  using follow_watches [of earlier reopenings parse current "loop_new presence slot_count"] assms
  by (auto simp: list_all_iff loop_new_def cancel_set_new_def)

theorem harness_cancels_follow_bucket_witness:
  "cancelled (lp_cancels (follow_cancels (cancel_feed_events (\<lambda>key. if key = ''a'' then Some 1 else if key = ''b'' then Some 2 else None) True
     (watches [([(''a'', KvPut)], WatchEnds)] [(''b'', KvPut), (''x'', KvPut)]) [False, True])
     (loop_new \<lparr>interval = 10, phase = Ready, last_publish = None\<rparr> 2))) = {2}"
  by (subst harness_cancels_follow_bucket) (simp_all add: bucket_def)

section \<open>A loop with two slots\<close>

definition demo_trigger :: "uuid \<Rightarrow> Trigger" where
  "demo_trigger run = \<lparr>tg_run_id = run, tg_job_id = 5, tg_attempt = 1, tg_config = None\<rparr>"

definition demo_harness :: Harness where
  "demo_harness = \<lparr>hs_loop = loop_new \<lparr>interval = 10, phase = Ready, last_publish = None\<rparr> 2,
     hs_stopped = False, hs_acts = [], hs_panicked = {}\<rparr>"

text \<open>A Run is started, ordered to be cancelled, and the drain begins.\<close>

definition demo_turns :: "(instant \<times> instant \<times> LoopEvent) list" where
  "demo_turns = [(0, 1, LeTrigger 1 (Some (demo_trigger 7)) True), (2, 3, LeCancel (CancelPut 7)), (4, 5, LeShutdown)]"

definition demo_draining :: Harness where
  "demo_draining = fold (harness_turn 100) demo_turns demo_harness"

lemma demo_harness_new: "harness_new 30 2 demo_harness"
  by (simp add: harness_new_def demo_harness_def presence_new_def)

fun turns_can :: "duration \<Rightarrow> (instant \<times> instant \<times> LoopEvent) list \<Rightarrow> Harness \<Rightarrow> bool" where
  "turns_can drain_timeout [] h = True"
| "turns_can drain_timeout (t # ts) h = (turn_can t h \<and> turns_can drain_timeout ts (harness_turn drain_timeout t h))"

lemma turns_can_reach:
  "turns_can drain_timeout ts h \<Longrightarrow> reach (harness_new ttl c) (harness_step drain_timeout) h \<Longrightarrow>
   reach (harness_new ttl c) (harness_step drain_timeout) (fold (harness_turn drain_timeout) ts h)"
proof (induction ts arbitrary: h)
  case (Cons t ts)
  then have "harness_step drain_timeout h t (harness_turn drain_timeout t h)" by (auto intro: harness_turns)
  with Cons show ?case by (auto intro: reach_step)
qed simp

lemmas demo_loop_defs = demo_harness_def demo_turns_def demo_trigger_def loop_new_def harness_turn_def turn_can_def
  loop_head_def accept_trigger_def loop_cancel_def loop_joined_def loop_leave_def slot_pool_defs presence_defs cancel_set_defs heartbeat_due_def

lemma demo_draining_eq:
  "turns_can 100 demo_turns demo_harness"
  "lp_deadline (hs_loop demo_draining) = Some 105" "lp_runs (hs_loop demo_draining) = [7]" "hs_panicked demo_draining = {}"
  "hs_acts demo_draining = [ActPresence PublishReady, ActStarted 7, ActAnswer 1 AckMessage, ActSpawn 7 False, ActSignal 7]"
  "\<not> hs_stopped demo_draining"
  by (simp_all add: demo_draining_def demo_loop_defs Let_def)

lemma demo_draining_reach: "reach (harness_new 30 2) (harness_step 100) demo_draining"
  unfolding demo_draining_def
  by (rule turns_can_reach [OF demo_draining_eq(1)], rule reach_init, rule demo_harness_new)

theorem harness_accounting_witness:
  "in_flight (lp_slots (hs_loop demo_draining)) = {7} \<and> \<not> has_free_slot (lp_slots (hs_loop demo_draining)) \<and>
   {run. lp_tokens (hs_loop demo_draining) run \<noteq> None} = {7}"
  using harness_accounting [OF demo_draining_reach] by (simp add: demo_draining_eq)

text \<open>Another trigger for the same Run while the first one runs, and a turn of the drain.\<close>

definition demo_busy :: Harness where
  "demo_busy = harness_turn 100 (0, 1, LeTrigger 1 (Some (demo_trigger 7)) True) demo_harness"

lemma demo_busy_eq:
  "turns_can 100 [(0, 1, LeTrigger 1 (Some (demo_trigger 7)) True)] demo_harness"
  "lp_runs (hs_loop demo_busy) = [7]" "loop_ready 9 2 (LeTrigger 2 (Some (demo_trigger 7)) True) (hs_loop demo_busy)"
  by (simp_all add: demo_busy_def demo_loop_defs Let_def)

lemma demo_busy_reach: "reach (harness_new 30 2) (harness_step 100) demo_busy"
  using turns_can_reach [OF demo_busy_eq(1) reach_init [of "harness_new 30 2" demo_harness, OF demo_harness_new]]
  by (simp add: demo_busy_def)

theorem harness_trigger_answered_witness:
  "fst (accept_trigger 2 (Some (demo_trigger 7)) True (hs_loop demo_busy)) = [ActAnswer 2 AckMessage]"
  using harness_trigger_answered [OF demo_busy_reach demo_busy_eq(3)]
  by (simp add: demo_busy_eq demo_trigger_def)

lemma demo_joins: "turn_can (6, 7, LeJoined 7 True) demo_draining" "turn_can (8, 9, LeHeartbeat)
    (harness_turn 100 (6, 7, LeJoined 7 True) demo_draining)"
  by (simp_all add: demo_draining_def demo_loop_defs Let_def)


end
