(* ===== verification/Work_Caller.thy ===== *)
theory Work_Caller
  imports Queue_Write
begin

text \<open>
  The work of a Run in \<open>br-runner-jobs\<close>: how a trigger becomes work (\<open>work/parse.rs\<close>, \<open>work/mod.rs\<close>), the
  writes that the caller of a Run hands over (\<open>caller/live.rs\<close>), and the call by which each write is sent
  (\<open>work/sender.rs\<close>). Serde's reading of the wire type and of the Passport is a parameter
  (\<open>TriggerSerde\<close>), as is the parsing of an id.
\<close>

section \<open>The trigger\<close>

datatype WirePayload = WireInline string "ContentAttachment list" | WireKept | WireReference string string

datatype WireMode = WireSync | WireBackground

record TriggerWire =
  tw_job_id :: uuid
  tw_run_id :: uuid
  tw_attempt :: u32
  tw_parent_job_id :: uuid
  tw_initial_job_id :: uuid
  tw_passport :: json
  tw_triggered_by :: "uuid option"
  tw_config :: "json option"
  tw_payload :: "WirePayload option"
  tw_mode :: "WireMode option"
  tw_caller_address :: "uuid option"
  tw_restart :: "uuid option"

record 'p TriggerSerde =
  ts_uuid :: "string \<Rightarrow> uuid option"
  ts_wire :: "json \<Rightarrow> (TriggerWire, Error) result"
  ts_passport :: "json \<Rightarrow> 'p option"

record 'p Parsed =
  parsed_job_id :: uuid
  parsed_run_id :: uuid
  parsed_attempt :: u32
  parsed_parent_job_id :: uuid
  parsed_initial_job_id :: uuid
  parsed_passport :: 'p
  parsed_passport_json :: json
  parsed_triggered_by :: "uuid option"
  parsed_config :: "json option"
  parsed_payload :: "PayloadForm option"
  parsed_call :: "CallMode option"
  parsed_restart :: "Restart option"
  parsed_unknown :: "(string \<times> json) list"

record UnreadableTrigger =
  unreadable_error :: Error
  unreadable_job_id :: "uuid option"
  unreadable_run_id :: "uuid option"

definition known_fields :: "string list" where
  "known_fields = [''version'', ''run_id'', ''job_id'', ''attempt'', ''parent_job_id'', ''initial_job_id'', ''passport'',
     ''triggered_by'', ''config'', ''payload'', ''mode'', ''caller_address'', ''restart'']"

definition json_get :: "json \<Rightarrow> string \<Rightarrow> json option" where
  "json_get v key = (case v of JObject members \<Rightarrow> map_of members key | _ \<Rightarrow> None)"

definition json_str :: "json \<Rightarrow> string option" where
  "json_str v = (case v of JString s \<Rightarrow> Some s | _ \<Rightarrow> None)"

definition lenient_id :: "(string \<Rightarrow> uuid option) \<Rightarrow> json \<Rightarrow> string \<Rightarrow> uuid option" where
  "lenient_id parse v key = Option.bind (Option.bind (json_get v key) json_str) parse"

definition payload_form :: "WirePayload \<Rightarrow> PayloadForm" where
  "payload_form p =
     (case p of
        WireInline msg atts \<Rightarrow> Inline \<lparr>content_message = msg, content_attachments = atts\<rparr>
      | WireKept \<Rightarrow> Kept
      | WireReference service document \<Rightarrow> Reference service document)"

definition call_mode :: "TriggerWire \<Rightarrow> (CallMode option, string) result" where
  "call_mode t =
     (case (tw_mode t, tw_caller_address t) of
        (None, _) \<Rightarrow> Ok None
      | (Some WireSync, _) \<Rightarrow> Ok (Some Sync)
      | (Some WireBackground, Some caller) \<Rightarrow> Ok (Some (Background caller))
      | (Some WireBackground, None) \<Rightarrow> Err ''a background call with no caller address'')"

definition parse_trigger :: "'p TriggerSerde \<Rightarrow> json \<Rightarrow> ('p Parsed, UnreadableTrigger) result" where
  "parse_trigger serde v =
     (let failed = (\<lambda>e. Err \<lparr>unreadable_error = e, unreadable_job_id = lenient_id (ts_uuid serde) v ''job_id'',
                             unreadable_run_id = lenient_id (ts_uuid serde) v ''run_id''\<rparr>) in
      case v of
        JObject members \<Rightarrow>
          (case ts_wire serde v of
             Inl e \<Rightarrow> failed e
           | Inr w \<Rightarrow>
               (case ts_passport serde (tw_passport w) of
                  None \<Rightarrow> failed (Unreadable ''the Passport of the trigger cannot be read'')
                | Some passport \<Rightarrow>
                    (case call_mode w of
                       Inl t \<Rightarrow> failed (Unreadable t)
                     | Inr call \<Rightarrow>
                         Ok \<lparr>parsed_job_id = tw_job_id w, parsed_run_id = tw_run_id w, parsed_attempt = tw_attempt w,
                             parsed_parent_job_id = tw_parent_job_id w, parsed_initial_job_id = tw_initial_job_id w,
                             parsed_passport = passport, parsed_passport_json = tw_passport w,
                             parsed_triggered_by = tw_triggered_by w, parsed_config = tw_config w,
                             parsed_payload = map_option payload_form (tw_payload w), parsed_call = call,
                             parsed_restart = map_option Restart.make (tw_restart w),
                             parsed_unknown = filter (\<lambda>(key, _). key \<notin> set known_fields) members\<rparr>)))
      | _ \<Rightarrow> failed (Unreadable ''the trigger is not an object''))"

section \<open>The core of a work and its caller\<close>

record WorkCore =
  core_job_id :: uuid
  core_run_id :: uuid
  core_parent_job_id :: uuid
  core_initial_job_id :: uuid
  core_passport_json :: json

definition work_core :: "'p Parsed \<Rightarrow> WorkCore" where
  "work_core p = \<lparr>core_job_id = parsed_job_id p, core_run_id = parsed_run_id p, core_parent_job_id = parsed_parent_job_id p,
     core_initial_job_id = parsed_initial_job_id p, core_passport_json = parsed_passport_json p\<rparr>"

record CreateChildInput =
  input_job_id :: uuid
  input_command_id :: uuid
  input_runner_type :: RunnerType
  input_mode :: CallMode
  input_config :: "json option"
  input_payload :: PayloadForm
  input_max_attempts :: "int option"

definition create_input_new :: "uuid \<Rightarrow> uuid \<Rightarrow> RunnerType \<Rightarrow> CallMode \<Rightarrow> PayloadForm \<Rightarrow> CreateChildInput" where
  "create_input_new job command rt mode payload =
     \<lparr>input_job_id = job, input_command_id = command, input_runner_type = rt, input_mode = mode, input_config = None,
      input_payload = payload, input_max_attempts = None\<rparr>"

text \<open>The write that each method of a live caller hands over to the queue.\<close>

definition caller_upload :: "uuid \<Rightarrow> Content \<Rightarrow> Write" where
  "caller_upload job content = WUpload job content"

definition caller_create :: "WorkCore \<Rightarrow> CreateChildInput \<Rightarrow> Write" where
  "caller_create core input =
     WCreate \<lparr>create_command_id = input_command_id input, create_job_id = input_job_id input,
       create_runner_type = input_runner_type input, create_mode = input_mode input, create_config = input_config input,
       create_payload = input_payload input, create_passport = core_passport_json core,
       create_parent_job_id = core_job_id core, create_initial_job_id = core_initial_job_id core,
       create_run_id = core_run_id core, create_max_attempts = input_max_attempts input\<rparr>"

definition caller_finish :: "WorkCore \<Rightarrow> uuid \<Rightarrow> uuid \<Rightarrow> Write" where
  "caller_finish core job command = WFinish (core_run_id core) job command"

definition caller_cancel :: "WorkCore \<Rightarrow> uuid \<Rightarrow> uuid \<Rightarrow> Write" where
  "caller_cancel core job command = WCancel (core_run_id core) job command"

lemmas caller_defs = caller_upload_def caller_create_def caller_finish_def caller_cancel_def create_input_new_def

section \<open>How a write is sent\<close>

record WorkIds =
  ids_job_id :: uuid
  ids_run_id :: uuid
  ids_instance_key :: string

definition core_ids :: "string \<Rightarrow> WorkCore \<Rightarrow> WorkIds" where
  "core_ids key core = \<lparr>ids_job_id = core_job_id core, ids_run_id = core_run_id core, ids_instance_key = key\<rparr>"

text \<open>The calls of the backend; those of \<open>graphql\<close> name the work they are for.\<close>

datatype BackendCall =
    BcStart uuid uuid
  | BcRegister uuid "AgentDeclaration list"
  | BcSendMail WorkIds NewMailInput
  | BcMarkRead uuid "uuid list"
  | BcUploadPayload WorkIds uuid Content
  | BcChild ChildCommand
  | BcUploadResult WorkIds Content
  | BcSaveState WorkIds json
  | BcPublishFact Fact uuid

fun child_command :: "Write \<Rightarrow> ChildCommand option" where
  "child_command (WCreate c) = Some (CmdCreate c)"
| "child_command (WFinish run job command) = Some (CmdFinish command job run)"
| "child_command (WCancel run job command) = Some (CmdCancel command job run)"
| "child_command _ = None"

text \<open>A child command is sent over a session that its attempts share, every other write directly.\<close>

datatype Session = ChildWrite ChildCommand | Direct Write

definition write_session :: "Write \<Rightarrow> Session" where
  "write_session w = (case child_command w of Some c \<Rightarrow> ChildWrite c | None \<Rightarrow> Direct w)"

fun send_call :: "WorkIds \<Rightarrow> Write \<Rightarrow> BackendCall" where
  "send_call ids (WStarted run start) = BcStart run start"
| "send_call ids (WRegistration run agent) = BcRegister run [agent]"
| "send_call ids (WMail mail) = BcSendMail ids mail"
| "send_call ids (WMarker run item _ _) = BcMarkRead run [item]"
| "send_call ids (WUpload job content) = BcUploadPayload ids job content"
| "send_call ids (WCreate c) = BcChild (CmdCreate c)"
| "send_call ids (WFinish run job command) = BcChild (CmdFinish command job run)"
| "send_call ids (WCancel run job command) = BcChild (CmdCancel command job run)"
| "send_call ids (WAnswer content) = BcUploadResult ids content"
| "send_call ids (WSavedState state) = BcSaveState ids state"
| "send_call ids (WFact f message_id) = BcPublishFact f message_id"

definition session_call :: "WorkIds \<Rightarrow> Session \<Rightarrow> BackendCall" where
  "session_call ids s = (case s of ChildWrite c \<Rightarrow> BcChild c | Direct w \<Rightarrow> send_call ids w)"

lemma session_sends: "session_call ids (write_session w) = send_call ids w"
  by (cases w) (simp_all add: session_call_def write_session_def)

end
