(* ===== verification/Runner_As_Node.thy ===== *)
theory Runner_As_Node
  imports Work_Caller
begin

text \<open>
  A runner called as a node of a graph (\<open>br-runner-as-node\<close>): one instance reads the state it is given,
  builds the request, hands over the payload and the create of a child Job, waits for the end of the child
  and gives the response. The writes it hands over to the delivery queue are the result of the model; what
  it hears and what the author's functions answer are inputs (\<open>NodeWorld\<close>). A wait of the instance is
  guarded (\<open>signals.rs\<close>): the drop of the instance and the cancellation come before the work.
\<close>

section \<open>Data\<close>

datatype NodePayload = NpInline Content | NpKept Content | NpReference string string

record JobSpec =
  spec_payload :: NodePayload
  spec_config :: "json option"

datatype NodeOutcome =
    NoCompleted "Content option" "ResultRef option"
  | NoFailed "FailureReportView option" string
  | NoCancelled string
  | NoRefusal string string

fun from_end :: "SyncEnd \<Rightarrow> NodeOutcome option" where
  "from_end (SyncCompleted inline result) = Some (NoCompleted inline result)"
| "from_end (SyncFailed report msg) = Some (NoFailed report msg)"
| "from_end (SyncCancelled msg) = Some (NoCancelled msg)"

definition from_refusal :: "Refusal \<Rightarrow> NodeOutcome" where
  "from_refusal r = NoRefusal (as_str (reason r)) (message r)"

text \<open>What a failed event carries: the error of the library, or a cause of the author's functions.\<close>

datatype 'c NodeError =
    NeAuthor 'c
  | NeCallerSource 'c
  | NeUpload Error
  | NeCreate Error
  | NeCreateRemoved string "Error option"
  | NeEndWait Error
  | NeUnknownEnd

datatype ('u, 'c) NodeEvent = EvResult 'u | EvFailed "'c NodeError" | EvCancelled

datatype ('u, 'c) NodeStop = StopGone | StopEvent "('u, 'c) NodeEvent"

datatype 'a Guarded = WorkDone 'a | GuardDropped | GuardCancelled

datatype Heard = HeardEnd "(SyncEnd, Error) result" | HeardCreate WriteResult

definition guard :: "'a Guarded \<Rightarrow> ('a, ('u, 'c) NodeStop) result" where
  "guard g = (case g of WorkDone x \<Rightarrow> Ok x | GuardDropped \<Rightarrow> Err StopGone | GuardCancelled \<Rightarrow> Err (StopEvent EvCancelled))"

definition removed :: "Removal \<Rightarrow> 'c NodeError" where
  "removed r =
     (case r of
        RFailed e \<Rightarrow> NeCreateRemoved ''the delivery queue gave it up after a failure'' (Some e)
      | RRefused e \<Rightarrow> NeCreateRemoved ''the delivery queue refused it with an error that is no refusal'' (Some e)
      | DependsOnRemoved \<Rightarrow> NeCreateRemoved ''the upload it depends on was removed'' None
      | LeftUnsent \<Rightarrow> NeCreateRemoved ''the delivery queue left it unsent'' None)"

section \<open>One instance\<close>

text \<open>
  \<open>nw_upload\<close> and \<open>nw_create\<close> are the answers of the caller to the two calls (the live caller always takes
  them), \<open>nw_heard\<close> what the wait hears one after the other, \<open>nw_polled\<close> what the end of the create gives when
  it is polled once, \<open>nw_cancelled\<close> whether the cancel view is triggered when the finish is due.
\<close>

record ('s, 'u, 'c) NodeWorld =
  nw_input :: "('s \<times> 's list) option Guarded"
  nw_request :: "'s \<Rightarrow> (JobSpec, 'c) result Guarded"
  nw_caller :: "(WorkCore, 'c) result Guarded"
  nw_child :: uuid
  nw_create_id :: uuid
  nw_last_id :: uuid
  nw_upload :: "(unit, Error) result"
  nw_create :: "(unit, Error) result"
  nw_heard :: "Heard Guarded list"
  nw_polled :: "WriteResult option"
  nw_cancelled :: bool
  nw_response :: "'s \<Rightarrow> NodeOutcome \<Rightarrow> ('u, 'c) result Guarded"

record NodeParts =
  np_runner_type :: RunnerType
  np_max_attempts :: "int option"

definition last_state :: "('s \<times> 's list) option Guarded \<Rightarrow> ('s, ('u, 'c) NodeStop) result" where
  "last_state input =
     (case guard input of
        Inl stop \<Rightarrow> Err stop
      | Inr None \<Rightarrow> Err StopGone
      | Inr (Some (first, later)) \<Rightarrow> Ok (if later = [] then first else last later))"

text \<open>The writes that are handed over, with the create or what stopped it.\<close>

definition node_hand_over ::
  "NodeParts \<Rightarrow> ('s, 'u, 'c) NodeWorld \<Rightarrow> WorkCore \<Rightarrow> JobSpec \<Rightarrow> (unit, ('u, 'c) NodeStop) result \<times> Write list" where
  "node_hand_over parts w core spec =
     (let create = (\<lambda>form ws.
         let input = (create_input_new (nw_child w) (nw_create_id w) (np_runner_type parts) Sync form)
               \<lparr>input_config := spec_config spec, input_max_attempts := np_max_attempts parts\<rparr> in
         case nw_create w of
           Inl e \<Rightarrow> (Err (StopEvent (EvFailed (NeCreate e))), ws)
         | Inr _ \<Rightarrow> (Ok (), ws @ [caller_create core input])) in
      case spec_payload spec of
        NpInline content \<Rightarrow> create (Inline content) []
      | NpKept content \<Rightarrow>
          (case nw_upload w of
             Inl e \<Rightarrow> (Err (StopEvent (EvFailed (NeUpload e))), [])
           | Inr _ \<Rightarrow> create Kept [caller_upload (nw_child w) content])
      | NpReference service document \<Rightarrow> create (Reference service document) [])"

text \<open>\<open>open_end\<close> is whether the end of the create is still awaited.\<close>

definition cancel_unless_dead :: "('s, 'u, 'c) NodeWorld \<Rightarrow> WorkCore \<Rightarrow> bool \<Rightarrow> Write list" where
  "cancel_unless_dead w core open_end =
     (if open_end \<and> (\<exists>r. nw_polled w = Some (Inl r)) then [] else [caller_cancel core (nw_child w) (nw_last_id w)])"

text \<open>The wait for the end; \<open>None\<close> is an instance that still waits.\<close>

fun node_wait ::
  "('s, 'u, 'c) NodeWorld \<Rightarrow> WorkCore \<Rightarrow> bool \<Rightarrow> Heard Guarded list \<Rightarrow>
   (NodeOutcome, ('u, 'c) NodeStop) result option \<times> Write list" where
  "node_wait w core open_end [] = (None, [])"
| "node_wait w core open_end (GuardDropped # hs) = (Some (Err StopGone), [])"
| "node_wait w core open_end (GuardCancelled # hs) = (Some (Err (StopEvent EvCancelled)), cancel_unless_dead w core open_end)"
| "node_wait w core open_end (WorkDone (HeardEnd (Inr x)) # hs) =
     (Some (case from_end x of Some outcome \<Rightarrow> Ok outcome | None \<Rightarrow> Err (StopEvent (EvFailed NeUnknownEnd))), [])"
| "node_wait w core open_end (WorkDone (HeardEnd (Inl e)) # hs) =
     (Some (Err (StopEvent (EvFailed (NeEndWait e)))), cancel_unless_dead w core open_end)"
| "node_wait w core open_end (WorkDone (HeardCreate r) # hs) =
     (if \<not> open_end then node_wait w core False hs
      else case r of
        Inr _ \<Rightarrow> node_wait w core False hs
      | Inl (RRefused (Refused refusal)) \<Rightarrow> (Some (Ok (from_refusal refusal)), [])
      | Inl removal \<Rightarrow> (Some (Err (StopEvent (EvFailed (removed removal)))), []))"

definition finish_unless_cancelled ::
  "('s, 'u, 'c) NodeWorld \<Rightarrow> WorkCore \<Rightarrow> NodeOutcome \<Rightarrow> (unit, ('u, 'c) NodeStop) result \<times> Write list" where
  "finish_unless_cancelled w core outcome =
     (if nw_cancelled w then (Err (StopEvent EvCancelled), [])
      else (Ok (), (case outcome of NoCompleted _ _ \<Rightarrow> [caller_finish core (nw_child w) (nw_last_id w)] | _ \<Rightarrow> [])))"

text \<open>The part of \<open>step\<close> from the wait on.\<close>

definition node_answer ::
  "('s, 'u, 'c) NodeWorld \<Rightarrow> WorkCore \<Rightarrow> 's \<Rightarrow> (('u, 'c) NodeEvent, ('u, 'c) NodeStop) result option \<times> Write list" where
  "node_answer w core state =
     (case node_wait w core True (nw_heard w) of
        (None, ws) \<Rightarrow> (None, ws)
      | (Some (Inl stop), ws) \<Rightarrow> (Some (Err stop), ws)
      | (Some (Inr outcome), ws) \<Rightarrow>
          (case finish_unless_cancelled w core outcome of
             (Inl stop, ws1) \<Rightarrow> (Some (Err stop), ws @ ws1)
           | (Inr _, ws1) \<Rightarrow>
               (case guard (nw_response w state outcome) of
                  Inl stop \<Rightarrow> (Some (Err stop), ws @ ws1)
                | Inr (Inl cause) \<Rightarrow> (Some (Err (StopEvent (EvFailed (NeAuthor cause)))), ws @ ws1)
                | Inr (Inr update) \<Rightarrow> (Some (Ok (EvResult update)), ws @ ws1))))"

definition node_step ::
  "NodeParts \<Rightarrow> ('s, 'u, 'c) NodeWorld \<Rightarrow> (('u, 'c) NodeEvent, ('u, 'c) NodeStop) result option \<times> Write list" where
  "node_step parts w =
     (case last_state (nw_input w) of
        Inl stop \<Rightarrow> (Some (Err stop), [])
      | Inr state \<Rightarrow>
          (case guard (nw_request w state) of
             Inl stop \<Rightarrow> (Some (Err stop), [])
           | Inr (Inl cause) \<Rightarrow> (Some (Err (StopEvent (EvFailed (NeAuthor cause)))), [])
           | Inr (Inr spec) \<Rightarrow>
               (case guard (nw_caller w) of
                  Inl stop \<Rightarrow> (Some (Err stop), [])
                | Inr (Inl cause) \<Rightarrow> (Some (Err (StopEvent (EvFailed (NeCallerSource cause)))), [])
                | Inr (Inr core) \<Rightarrow>
                    (case node_hand_over parts w core spec of
                       (Inl stop, ws) \<Rightarrow> (Some (Err stop), ws)
                     | (Inr _, ws) \<Rightarrow>
                         (case node_answer w core state of (r, ws1) \<Rightarrow> (r, ws @ ws1))))))"

text \<open>How an instance ends: the event it finishes with, none when it is gone, or it still waits.\<close>

datatype ('u, 'c) NodeEnd = NodeWaits | NodeGone | NodeFinished "('u, 'c) NodeEvent"

definition node_run :: "NodeParts \<Rightarrow> ('s, 'u, 'c) NodeWorld \<Rightarrow> ('u, 'c) NodeEnd \<times> Write list" where
  "node_run parts w =
     (case node_step parts w of
        (None, ws) \<Rightarrow> (NodeWaits, ws)
      | (Some (Inr event), ws) \<Rightarrow> (NodeFinished event, ws)
      | (Some (Inl (StopEvent event)), ws) \<Rightarrow> (NodeFinished event, ws)
      | (Some (Inl StopGone), ws) \<Rightarrow> (NodeGone, ws))"

section \<open>The protocol of a child call\<close>

text \<open>
  What a call of a runner hands over for its child: the upload of a kept payload, one create, and at
  most one more write, a finish or a cancel.
\<close>

fun is_upload_of :: "uuid \<Rightarrow> Write \<Rightarrow> bool" where
  "is_upload_of child (WUpload job _) = (job = child)"
| "is_upload_of child _ = False"

fun is_create_of :: "uuid \<Rightarrow> Write \<Rightarrow> bool" where
  "is_create_of child (WCreate c) = (create_job_id c = child)"
| "is_create_of child _ = False"

fun is_finish_of :: "uuid \<Rightarrow> Write \<Rightarrow> bool" where
  "is_finish_of child (WFinish _ job _) = (job = child)"
| "is_finish_of child _ = False"

fun is_cancel_of :: "uuid \<Rightarrow> Write \<Rightarrow> bool" where
  "is_cancel_of child (WCancel _ job _) = (job = child)"
| "is_cancel_of child _ = False"

definition call_writes_ok :: "uuid \<Rightarrow> Write list \<Rightarrow> bool" where
  "call_writes_ok child ws \<longleftrightarrow>
     (\<exists>ups creates ends. ws = ups @ creates @ ends \<and>
        length ups \<le> 1 \<and> list_all (is_upload_of child) ups \<and>
        length creates \<le> 1 \<and> list_all (is_create_of child) creates \<and>
        length ends \<le> 1 \<and> list_all (\<lambda>x. is_finish_of child x \<or> is_cancel_of child x) ends \<and>
        (ends \<noteq> [] \<longrightarrow> creates \<noteq> []) \<and>
        (\<forall>c. creates = [WCreate c] \<longrightarrow> (create_payload c = Kept \<longleftrightarrow> ups \<noteq> [])))"

lemma call_writes_okI:
  assumes "list_all (is_upload_of child) ups" and "length ups \<le> 1" and "is_create_of child (WCreate c)"
    and "create_payload c = Kept \<longleftrightarrow> ups \<noteq> []"
    and "length ends \<le> 1" and "list_all (\<lambda>x. is_finish_of child x \<or> is_cancel_of child x) ends"
  shows "call_writes_ok child (ups @ WCreate c # ends)"
  unfolding call_writes_ok_def
  by (rule exI [of _ ups], rule exI [of _ "[WCreate c]"], rule exI [of _ ends]) (use assms in simp)

lemma call_writes_ok_Nil [simp]: "call_writes_ok child []"
  by (simp add: call_writes_ok_def)

lemma call_writes_ok_upload: "call_writes_ok child [WUpload child content]"
  unfolding call_writes_ok_def
  by (rule exI [of _ "[WUpload child content]"], rule exI [of _ "[]"], rule exI [of _ "[]"]) simp

text \<open>
  The queue never sends a finish or a cancel whose create ended without being delivered.
\<close>

lemma end_blocked:
  assumes "is_finish_of child x \<or> is_cancel_of child x" and "ended (DCreate child) = Some e" and "e \<noteq> EDelivered"
  shows "blocked x ended \<noteq> None"
proof -
  have "DCreate child \<in> set (depends_on x)" using assms(1) by (cases x) (auto simp: depends_on_def)
  with assms(2,3) show ?thesis unfolding blocked_None by (auto simp: dep_free_def)
qed

section \<open>What an instance does\<close>

lemma node_wait_writes:
  "node_wait w core b hs = (r, ws) \<Longrightarrow> ws = [] \<or> ws = [caller_cancel core (nw_child w) (nw_last_id w)] \<and>
     (r = Some (Err (StopEvent EvCancelled)) \<or> (\<exists>e. r = Some (Err (StopEvent (EvFailed (NeEndWait e))))))"
  by (induction w core b hs arbitrary: r ws rule: node_wait.induct)
    (auto simp: cancel_unless_dead_def split: if_splits sum.splits Removal.splits Error.splits)

definition outcome_heard :: "Heard Guarded list \<Rightarrow> NodeOutcome \<Rightarrow> bool" where
  "outcome_heard hs outcome \<longleftrightarrow>
     (\<exists>x. WorkDone (HeardEnd (Ok x)) \<in> set hs \<and> from_end x = Some outcome) \<or>
     (\<exists>refusal. WorkDone (HeardCreate (Err (RRefused (Refused refusal)))) \<in> set hs \<and> outcome = from_refusal refusal)"

lemma node_wait_outcome: "node_wait w core b hs = (Some (Ok outcome), ws) \<Longrightarrow> ws = [] \<and> outcome_heard hs outcome"
  by (induction w core b hs arbitrary: ws rule: node_wait.induct)
    (auto simp: outcome_heard_def split: if_splits sum.splits Removal.splits Error.splits option.splits)

lemma node_wait_waits: "node_wait w core b hs = (None, ws) \<Longrightarrow> \<forall>h \<in> set hs. \<exists>r. h = WorkDone (HeardCreate r)"
  by (induction w core b hs arbitrary: ws rule: node_wait.induct)
    (auto split: if_splits sum.splits Removal.splits Error.splits option.splits)

text \<open>What follows the create: its writes and its result.\<close>

definition ends_ok :: "('s, 'u, 'c) NodeWorld \<Rightarrow> (('u, 'c) NodeEvent, ('u, 'c) NodeStop) result option \<Rightarrow> Write list \<Rightarrow> bool" where
  "ends_ok w r ends \<longleftrightarrow>
     length ends \<le> 1 \<and> list_all (\<lambda>x. is_finish_of (nw_child w) x \<or> is_cancel_of (nw_child w) x) ends \<and>
     (list_ex (is_cancel_of (nw_child w)) ends \<longrightarrow>
        r = Some (Err (StopEvent EvCancelled)) \<or> (\<exists>e. r = Some (Err (StopEvent (EvFailed (NeEndWait e)))))) \<and>
     (list_ex (is_finish_of (nw_child w)) ends \<longrightarrow>
        \<not> nw_cancelled w \<and> (\<exists>inline result. outcome_heard (nw_heard w) (NoCompleted inline result))) \<and>
     (\<forall>u. r = Some (Ok (EvResult u)) \<longrightarrow>
        (\<exists>state outcome. outcome_heard (nw_heard w) outcome \<and> nw_response w state outcome = WorkDone (Ok u))) \<and>
     (r = None \<longrightarrow> (\<forall>h \<in> set (nw_heard w). \<exists>x. h = WorkDone (HeardCreate x)))"

lemma finish_writes: "finish_unless_cancelled w core outcome = (r, ws) \<Longrightarrow>
    (nw_cancelled w \<and> r = Err (StopEvent EvCancelled) \<and> ws = []) \<or>
    (\<not> nw_cancelled w \<and> r = Ok () \<and>
       (ws = [] \<or> ws = [caller_finish core (nw_child w) (nw_last_id w)] \<and> (\<exists>i res. outcome = NoCompleted i res)))"
  by (auto simp: finish_unless_cancelled_def split: if_splits NodeOutcome.splits)

lemma guard_done: "guard g = Inr x \<longleftrightarrow> g = WorkDone x"
  by (auto simp: guard_def split: Guarded.splits)

lemma node_answer_ends:
  fixes w :: "('s, 'u, 'c) NodeWorld"
  assumes "node_answer w core state = (r, ends)"
  shows "ends_ok w r ends"
proof -
  obtain wr ws where n: "node_wait w core True (nw_heard w) = (wr, ws)" by (cases "node_wait w core True (nw_heard w)")
  show ?thesis
  proof (cases wr)
    case None
    with assms n node_wait_writes [OF n] node_wait_waits [of w core True "nw_heard w" ws] show ?thesis
      by (auto simp: node_answer_def ends_ok_def)
  next
    case (Some x)
    show ?thesis
    proof (cases x)
      case (Inl stop)
      with assms n Some node_wait_writes [OF n] show ?thesis
        by (auto simp: node_answer_def ends_ok_def caller_defs)
    next
      case (Inr outcome)
      have h: "ws = []" "outcome_heard (nw_heard w) outcome"
        using node_wait_outcome [OF n [unfolded Some Inr]] by auto
      obtain fr ws1 where f: "finish_unless_cancelled w core outcome = (fr, ws1)" by (cases "finish_unless_cancelled w core outcome")
      note fw = finish_writes [OF f]
      define g :: "(('u, 'c) result, ('u, 'c) NodeStop) result" where g: "g = guard (nw_response w state outcome)"
      have e: "ends = ws1" and r: "r = (case fr of Inl stop \<Rightarrow> Some (Err stop) | Inr _ \<Rightarrow>
          (case g of Inl stop \<Rightarrow> Some (Err stop) | Inr (Inl cause) \<Rightarrow> Some (Err (StopEvent (EvFailed (NeAuthor cause))))
           | Inr (Inr u) \<Rightarrow> Some (Ok (EvResult u))))"
        using assms by (auto simp: node_answer_def n Some Inr f h g [symmetric] split: sum.splits)
      show ?thesis
      proof (cases "nw_cancelled w")
        case True
        with fw e r show ?thesis by (auto simp: ends_ok_def)
      next
        case False
        with fw have fr: "fr = Ok ()" and ws1: "ws1 = [] \<or> ws1 = [caller_finish core (nw_child w) (nw_last_id w)] \<and>
            (\<exists>i res. outcome = NoCompleted i res)" by auto
        have "\<exists>state outcome. outcome_heard (nw_heard w) outcome \<and> nw_response w state outcome = WorkDone (Ok u)"
          if "r = Some (Ok (EvResult u))" for u
          using that h(2) g by (auto simp: r fr guard_done split: sum.splits)
        moreover have "r \<noteq> None" by (auto simp: r fr split: sum.splits)
        ultimately show ?thesis using ws1 False h(2) unfolding e ends_ok_def by (auto simp: caller_defs)
      qed
    qed
  qed
qed

lemma hand_over_writes:
  assumes "node_hand_over parts w core spec = (r, ws)"
  shows "(\<exists>stop. r = Err stop \<and> (\<forall>c. stop = StopEvent c \<longrightarrow> (\<exists>e. c = EvFailed e)) \<and>
            (ws = [] \<or> (\<exists>content. ws = [WUpload (nw_child w) content]))) \<or>
    (r = Ok () \<and> (\<exists>ups c. ws = ups @ [WCreate c] \<and> length ups \<le> 1 \<and> list_all (is_upload_of (nw_child w)) ups \<and>
       create_job_id c = nw_child w \<and> create_mode c = Sync \<and> create_run_id c = core_run_id core \<and>
       (create_payload c = Kept \<longleftrightarrow> ups \<noteq> [])))"
  using assms
  by (cases "spec_payload spec"; cases "nw_create w"; cases "nw_upload w") (auto simp: node_hand_over_def Let_def caller_defs)

lemma last_state_never_waits: "last_state input = Err stop \<Longrightarrow> stop = StopGone \<or> stop = StopEvent EvCancelled"
  by (auto simp: last_state_def guard_def split: sum.splits option.splits Guarded.splits)

text \<open>An instance stops before its create, at it, or goes on to the wait.\<close>

lemma node_step_cases:
  fixes w :: "('s, 'u, 'c) NodeWorld"
  assumes "node_step parts w = (r, ws)"
  shows "(\<exists>stop. r = Some (Err stop) \<and> (ws = [] \<or> (\<exists>content. ws = [WUpload (nw_child w) content]))) \<or>
    (\<exists>ups c ends. ws = ups @ WCreate c # ends \<and> length ups \<le> 1 \<and> list_all (is_upload_of (nw_child w)) ups \<and>
       create_job_id c = nw_child w \<and> (create_payload c = Kept \<longleftrightarrow> ups \<noteq> []) \<and> ends_ok w r ends)"
proof (cases "last_state (nw_input w) :: (_, ('u, 'c) NodeStop) result")
  case (Inl stop)
  from assms have "r = Some (Err stop) \<and> ws = []" by (auto simp: node_step_def Inl)
  then show ?thesis by blast
next
  case state: (Inr state)
  show ?thesis
  proof (cases "\<exists>spec core. (guard (nw_request w state) :: (_, ('u, 'c) NodeStop) result) = Ok (Ok spec) \<and>
      (guard (nw_caller w) :: (_, ('u, 'c) NodeStop) result) = Ok (Ok core)")
    case False
    then have "(\<exists>stop. r = Some (Err stop)) \<and> ws = []"
      using assms by (auto simp: node_step_def state split: sum.splits)
    then show ?thesis by blast
  next
    case True
    then obtain spec core where sc: "(guard (nw_request w state) :: (_, ('u, 'c) NodeStop) result) = Ok (Ok spec)"
        "(guard (nw_caller w) :: (_, ('u, 'c) NodeStop) result) = Ok (Ok core)" by blast
    obtain hr hs where h: "node_hand_over parts w core spec = (hr, hs)" by (cases "node_hand_over parts w core spec")
    obtain ar as where a: "node_answer w core state = (ar, as)" by (cases "node_answer w core state")
    have e: "(r, ws) = (case hr of Inl stop \<Rightarrow> (Some (Err stop), hs) | Inr _ \<Rightarrow> (ar, hs @ as))"
      using assms by (simp add: node_step_def state sc h a split: sum.splits)
    from hand_over_writes [OF h] show ?thesis
    proof
      assume "\<exists>stop. hr = Err stop \<and> (\<forall>c. stop = StopEvent c \<longrightarrow> (\<exists>e. c = EvFailed e)) \<and>
            (hs = [] \<or> (\<exists>content. hs = [WUpload (nw_child w) content]))"
      with e show ?thesis by auto
    next
      assume "hr = Ok () \<and> (\<exists>ups c. hs = ups @ [WCreate c] \<and> length ups \<le> 1 \<and> list_all (is_upload_of (nw_child w)) ups \<and>
       create_job_id c = nw_child w \<and> create_mode c = Sync \<and> create_run_id c = core_run_id core \<and>
       (create_payload c = Kept \<longleftrightarrow> ups \<noteq> []))"
      then obtain ups c where u: "hr = Ok ()" "hs = ups @ [WCreate c]" "length ups \<le> 1" "list_all (is_upload_of (nw_child w)) ups"
        "create_job_id c = nw_child w" "create_payload c = Kept \<longleftrightarrow> ups \<noteq> []" by blast
      from e u(1,2) have "ws = ups @ WCreate c # as" "r = ar" by simp_all
      with u(3-6) node_answer_ends [OF a] show ?thesis by blast
    qed
  qed
qed

text \<open>A stop never carries a result.\<close>

lemma guard_no_result: "guard g = Err stop \<Longrightarrow> stop \<noteq> StopEvent (EvResult u)"
  by (auto simp: guard_def split: Guarded.splits)

lemma node_wait_no_result: "node_wait w core b hs = (Some (Err stop), ws) \<Longrightarrow> stop \<noteq> StopEvent (EvResult u)"
  by (induction w core b hs arbitrary: ws rule: node_wait.induct)
    (auto split: if_splits sum.splits Removal.splits Error.splits option.splits)

lemma node_answer_no_result: "node_answer w core state = (Some (Err stop), ws) \<Longrightarrow> stop \<noteq> StopEvent (EvResult u)"
  using node_wait_no_result [of w core True "nw_heard w"] guard_no_result
  by (fastforce simp: node_answer_def finish_unless_cancelled_def split: option.splits sum.splits prod.splits if_splits)

lemma stop_no_result:
  fixes w :: "('a, 'b, 'c) NodeWorld"
  assumes "node_step parts w = (Some (Err stop), ws)"
  shows "stop \<noteq> StopEvent (EvResult u)"
proof (cases "last_state (nw_input w) :: (_, ('b, 'c) NodeStop) result")
  case (Inl st)
  from assms have "last_state (nw_input w) = Err stop" by (simp add: node_step_def Inl)
  then show ?thesis using last_state_never_waits by blast
next
  case state: (Inr state)
  show ?thesis
  proof (cases "guard (nw_request w state) :: (_, ('b, 'c) NodeStop) result")
    case (Inl st)
    with assms guard_no_result [OF Inl] show ?thesis by (simp add: node_step_def state)
  next
    case request: (Inr request)
    show ?thesis
    proof (cases request)
      case (Inr spec)
      show ?thesis
      proof (cases "guard (nw_caller w) :: (_, ('b, 'c) NodeStop) result")
        case (Inl st)
        with assms guard_no_result [OF Inl] show ?thesis by (simp add: node_step_def state request Inr)
      next
        case caller: (Inr caller)
        show ?thesis
        proof (cases caller)
          case core: (Inr core)
          obtain hr hs where h: "node_hand_over parts w core spec = (hr, hs)" by (cases "node_hand_over parts w core spec")
          show ?thesis
          proof (cases hr)
            case (Inl st)
            with assms have "stop = st" by (simp add: node_step_def state request Inr caller core h)
            with hand_over_writes [OF h] Inl show ?thesis by auto
          next
            case hr: (Inr x)
            obtain ar as where a: "node_answer w core state = (ar, as)" by (cases "node_answer w core state")
            with assms hr have "ar = Some (Err stop)" by (simp add: node_step_def state request Inr caller core h)
            with a have "node_answer w core state = (Some (Err stop), as)" by simp
            then show ?thesis by (rule node_answer_no_result)
          qed
        qed (use assms in \<open>auto simp: node_step_def state request Inr caller\<close>)
      qed
    qed (use assms in \<open>auto simp: node_step_def state request\<close>)
  qed
qed

lemma ups_no_ends: "list_all (is_upload_of child) ups \<Longrightarrow> \<not> list_ex (is_cancel_of child) ups \<and> \<not> list_ex (is_finish_of child) ups"
  by (induction ups) (auto elim!: is_upload_of.elims)

text \<open>
  C5: what an instance of a runner node hands over for its child, whatever it hears and whenever it is
  cancelled or dropped: the upload of a kept payload, one create, and at most one more write. That is a
  finish only when the child ended as completed and the node was not cancelled, and a cancel only when
  the node ends as cancelled or its wait for the end failed, and the queue drops it when the create
  itself was removed. A result is the author's response to the end that was heard or to the refusal of
  the create, and an instance waits only as long as nothing but the end of its create was heard.
\<close>
theorem node_call_protocol:
  assumes "node_run parts w = (r, ws)"
  shows "call_writes_ok (nw_child w) ws \<and>
    (list_ex (is_cancel_of (nw_child w)) ws \<longrightarrow>
       r = NodeFinished EvCancelled \<or> (\<exists>e. r = NodeFinished (EvFailed (NeEndWait e)))) \<and>
    (list_ex (is_finish_of (nw_child w)) ws \<longrightarrow>
       \<not> nw_cancelled w \<and> (\<exists>inline result. outcome_heard (nw_heard w) (NoCompleted inline result))) \<and>
    (\<forall>x ended e. is_finish_of (nw_child w) x \<or> is_cancel_of (nw_child w) x \<longrightarrow>
       ended (DCreate (nw_child w)) = Some e \<and> e \<noteq> EDelivered \<longrightarrow> blocked x ended \<noteq> None) \<and>
    (\<forall>u. r = NodeFinished (EvResult u) \<longrightarrow>
       (\<exists>state outcome. outcome_heard (nw_heard w) outcome \<and> nw_response w state outcome = WorkDone (Ok u))) \<and>
    (r = NodeWaits \<longrightarrow> (\<forall>h \<in> set (nw_heard w). \<exists>x. h = WorkDone (HeardCreate x)))"
proof -
  obtain sr where s: "node_step parts w = (sr, ws)"
    and r: "r = (case sr of None \<Rightarrow> NodeWaits | Some (Inr event) \<Rightarrow> NodeFinished event
                 | Some (Inl (StopEvent event)) \<Rightarrow> NodeFinished event | Some (Inl StopGone) \<Rightarrow> NodeGone)"
    using assms by (cases "node_step parts w") (auto simp: node_run_def split: option.splits sum.splits NodeStop.splits)
  have b: "\<forall>x ended e. is_finish_of (nw_child w) x \<or> is_cancel_of (nw_child w) x \<longrightarrow>
       ended (DCreate (nw_child w)) = Some e \<and> e \<noteq> EDelivered \<longrightarrow> blocked x ended \<noteq> None"
    using end_blocked by blast
  from node_step_cases [OF s] show ?thesis
  proof
    assume "\<exists>stop. sr = Some (Err stop) \<and> (ws = [] \<or> (\<exists>content. ws = [WUpload (nw_child w) content]))"
    then obtain stop where sr: "sr = Some (Err stop)" and ws: "ws = [] \<or> (\<exists>content. ws = [WUpload (nw_child w) content])" by blast
    from ws have "call_writes_ok (nw_child w) ws" "\<not> list_ex (is_cancel_of (nw_child w)) ws" "\<not> list_ex (is_finish_of (nw_child w)) ws"
      by (auto simp: call_writes_ok_upload)
    moreover have "r \<noteq> NodeWaits" by (simp add: r sr split: NodeStop.split)
    moreover have "r \<noteq> NodeFinished (EvResult u)" for u
      using stop_no_result [OF s [unfolded sr]] by (auto simp: r sr split: NodeStop.splits)
    ultimately show ?thesis using b by blast
  next
    assume "\<exists>ups c ends. ws = ups @ WCreate c # ends \<and> length ups \<le> 1 \<and> list_all (is_upload_of (nw_child w)) ups \<and>
       create_job_id c = nw_child w \<and> (create_payload c = Kept \<longleftrightarrow> ups \<noteq> []) \<and> ends_ok w sr ends"
    then obtain ups c ends where ws: "ws = ups @ WCreate c # ends" "length ups \<le> 1" "list_all (is_upload_of (nw_child w)) ups"
      "create_job_id c = nw_child w" "create_payload c = Kept \<longleftrightarrow> ups \<noteq> []" and e: "ends_ok w sr ends" by blast
    have ok: "call_writes_ok (nw_child w) ws"
      unfolding ws(1) by (rule call_writes_okI) (use ws e in \<open>simp_all add: ends_ok_def\<close>)
    have ex: "list_ex (is_cancel_of (nw_child w)) ws = list_ex (is_cancel_of (nw_child w)) ends"
      "list_ex (is_finish_of (nw_child w)) ws = list_ex (is_finish_of (nw_child w)) ends"
      using ups_no_ends [OF ws(3)] by (simp_all add: ws(1))
    have "r = NodeFinished EvCancelled" if "sr = Some (Err (StopEvent EvCancelled))" using that by (simp add: r)
    moreover have "r = NodeFinished (EvFailed (NeEndWait x))" if "sr = Some (Err (StopEvent (EvFailed (NeEndWait x))))" for x
      using that by (simp add: r)
    moreover have "sr = Some (Ok (EvResult u))" if "r = NodeFinished (EvResult u)" for u
      using that s by (cases sr) (auto simp: r dest: stop_no_result [where u = u] split: sum.splits NodeStop.splits)
    moreover have "sr = None" if "r = NodeWaits" using that by (auto simp: r split: option.splits sum.splits NodeStop.splits)
    ultimately show ?thesis using ok b e unfolding ex ends_ok_def by blast
  qed
qed

text \<open>A kept payload, a child that completes, and a response.\<close>

definition demo_core :: WorkCore where
  "demo_core = \<lparr>core_job_id = 1, core_run_id = 2, core_parent_job_id = 3, core_initial_job_id = 4, core_passport_json = JNull\<rparr>"

definition demo_node :: "(nat, string, string) NodeWorld" where
  "demo_node = \<lparr>nw_input = WorkDone (Some (0, [5])),
     nw_request = (\<lambda>_. WorkDone (Ok \<lparr>spec_payload = NpKept \<lparr>content_message = ''hi'', content_attachments = []\<rparr>, spec_config = None\<rparr>)),
     nw_caller = WorkDone (Ok demo_core), nw_child = 7, nw_create_id = 8, nw_last_id = 9, nw_upload = Ok (), nw_create = Ok (),
     nw_heard = [WorkDone (HeardCreate (Ok ())), WorkDone (HeardEnd (Ok (SyncCompleted None None)))],
     nw_polled = None, nw_cancelled = False, nw_response = (\<lambda>state outcome. WorkDone (Ok ''done''))\<rparr>"

theorem node_call_protocol_witness:
  "fst (node_run \<lparr>np_runner_type = RunnerType ''r'', np_max_attempts = None\<rparr> demo_node) = NodeFinished (EvResult ''done'') \<and>
   list_ex (is_finish_of 7) (snd (node_run \<lparr>np_runner_type = RunnerType ''r'', np_max_attempts = None\<rparr> demo_node)) \<and>
   call_writes_ok 7 (snd (node_run \<lparr>np_runner_type = RunnerType ''r'', np_max_attempts = None\<rparr> demo_node))"
proof -
  let ?r = "node_run \<lparr>np_runner_type = RunnerType ''r'', np_max_attempts = None\<rparr> demo_node"
  have "fst ?r = NodeFinished (EvResult ''done'')" "list_ex (is_finish_of 7) (snd ?r)"
    by (simp_all add: node_run_def node_step_def demo_node_def last_state_def guard_def node_hand_over_def node_answer_def
        finish_unless_cancelled_def caller_defs Let_def)
  moreover have "nw_child demo_node = 7" by (simp add: demo_node_def)
  moreover have "?r = (fst ?r, snd ?r)" by simp
  from node_call_protocol [OF this] have "call_writes_ok (nw_child demo_node) (snd ?r)" by blast
  ultimately show ?thesis by simp
qed

end
