(* ===== verification/Runner_As_Tool.thy ===== *)
theory Runner_As_Tool
  imports Runner_As_Node Text_Ops
begin

text \<open>
  A runner called as a tool of an agent (\<open>br-runner-as-tool\<close>), in the background or as a synchronous
  call. The writes it hands over are part of the result; the author's functions, the library of the tool
  contract and what the call hears are inputs (\<open>ToolWorld\<close>, \<open>ToolLib\<close>). A check of the cancel view is a
  Boolean of the world, a future that is raced with the cancellation (\<open>unless_cancelled\<close>) is \<open>None\<close> when
  the cancellation came first.
\<close>

section \<open>Data\<close>

datatype ToolPayload = TpContent Content | TpReference string string

datatype 'c AuthorFailure = AfRefused string | AfFault 'c

datatype ToolMode = ToolSync | ToolBackground uuid

fun tool_call_mode :: "ToolMode \<Rightarrow> CallMode" where
  "tool_call_mode ToolSync = Sync"
| "tool_call_mode (ToolBackground caller) = Background caller"

datatype PayloadKind = KindInline | KindKept

record 'b ToolContent =
  tool_blocks :: "'b list"
  tool_is_error :: bool

text \<open>The tool contract: a block of a text, the content of an error, and how a uuid is shown.\<close>

record 'b ToolLib =
  tl_block :: "string \<Rightarrow> ('b, string) result"
  tl_error :: "string \<Rightarrow> ('b ToolContent, string) result"
  tl_uuid :: "uuid \<Rightarrow> string"

datatype 'c ToolCause = TcAuthor 'c | TcJobs Error | TcCreateRemoved Removal | TcUnknownEnd | TcLib string

datatype 'c ToolStop = StopFlag string | StopFault "'c ToolCause" | StopCancelled

record ToolCode =
  tk_runner_type :: string
  tk_mode :: ToolMode
  tk_config :: "json option"
  tk_max_attempts :: "int option"
  tk_kind :: PayloadKind
  tk_keep :: bool

datatype ToolHeard = ThEnd "(SyncEnd, Error) result" | ThCreated WriteResult | ThTriggered

record ('b, 'c) ToolWorld =
  tw_arguments :: "(string, string) result"
  tw_builder :: "(ToolPayload, 'c AuthorFailure) result option option"
  tw_core :: WorkCore
  tw_child :: uuid
  tw_create_id :: uuid
  tw_last_id :: uuid
  tw_triggered_upload :: bool
  tw_triggered_create :: bool
  tw_triggered_created :: bool
  tw_triggered_end :: bool
  tw_upload :: "(unit, Error) result"
  tw_create :: "(unit, Error) result"
  tw_heard :: "ToolHeard list"
  tw_polled :: "WriteResult option"
  tw_read :: "(Content, Error) result option"
  tw_processor :: "(Content \<Rightarrow> ('b list, 'c AuthorFailure) result option) option"

section \<open>Texts\<close>

definition newline :: string where
  "newline = [CHR 0x0A]"

definition ended_text :: "string \<Rightarrow> string \<Rightarrow> string \<Rightarrow> string" where
  "ended_text rt outcome msg = ''The runner '' @ rt @ '' '' @ outcome @ ''.'' @ newline @ msg"

definition tool_text :: "'b ToolLib \<Rightarrow> string \<Rightarrow> ('b, 'c ToolStop) result" where
  "tool_text lib t = (case tl_block lib t of Inl e \<Rightarrow> Err (StopFault (TcLib e)) | Inr b \<Rightarrow> Ok b)"

fun tool_texts :: "'b ToolLib \<Rightarrow> string list \<Rightarrow> ('b list, 'c ToolStop) result" where
  "tool_texts lib [] = Ok []"
| "tool_texts lib (t # ts) =
     (case tool_text lib t of
        Inl stop \<Rightarrow> Err stop
      | Inr b \<Rightarrow> (case tool_texts lib ts of Inl stop \<Rightarrow> Err stop | Inr bs \<Rightarrow> Ok (b # bs)))"

definition result_texts :: "string \<Rightarrow> Content \<Rightarrow> string list" where
  "result_texts rt result =
     (let texts = (if str_trim (content_message result) \<noteq> [] then [content_message result] else []) @
        map (\<lambda>a. ''Attachment '' @ att_name a @ '' ('' @ att_content_type a @ ''):'' @ newline @ att_content a)
          (content_attachments result)
      in if texts = [] then [''The runner '' @ rt @ '' returned nothing.''] else texts)"

definition default_content :: "'b ToolLib \<Rightarrow> string \<Rightarrow> Content \<Rightarrow> ('b ToolContent, 'c ToolStop) result" where
  "default_content lib rt result =
     (case tool_texts lib (result_texts rt result) of
        Inl stop \<Rightarrow> Err stop
      | Inr blocks \<Rightarrow> Ok \<lparr>tool_blocks = blocks, tool_is_error = False\<rparr>)"

definition refusal_words :: "Refusal \<Rightarrow> string" where
  "refusal_words r = (if str_trim (message r) = [] then as_str (reason r) else message r)"

definition refusal_text :: "Error \<Rightarrow> string" where
  "refusal_text e = (case e of Refused r \<Rightarrow> refusal_words r | _ \<Rightarrow> error_display e)"

definition flag_text :: "string \<Rightarrow> string \<Rightarrow> string" where
  "flag_text t fallback = (if str_trim t = [] then fallback else t)"

text \<open>\<open>Stop::into_result\<close>; a fault of the tool is its cause.\<close>

definition into_result :: "'b ToolLib \<Rightarrow> string \<Rightarrow> 'c ToolStop \<Rightarrow> ('b ToolContent, 'c ToolCause) result" where
  "into_result lib rt stop =
     (let flag = (\<lambda>t fallback. case tl_error lib (flag_text t fallback) of Inl e \<Rightarrow> Err (TcLib e) | Inr c \<Rightarrow> Ok c) in
      case stop of
        StopFlag t \<Rightarrow> flag t ''The call was refused.''
      | StopFault cause \<Rightarrow> Err cause
      | StopCancelled \<Rightarrow> flag (''The call to the runner '' @ rt @ '' was cancelled.'') ''The call was cancelled.'')"

section \<open>The call\<close>

record Prepared =
  prep_form :: PayloadForm
  prep_upload :: "Content option"

definition with_content :: "ToolCode \<Rightarrow> Content \<Rightarrow> Prepared" where
  "with_content code content =
     (case tk_kind code of
        KindKept \<Rightarrow> \<lparr>prep_form = Kept, prep_upload = Some content\<rparr>
      | KindInline \<Rightarrow> \<lparr>prep_form = Inline content, prep_upload = None\<rparr>)"

definition tool_prepare :: "ToolCode \<Rightarrow> ('b, 'c) ToolWorld \<Rightarrow> (Prepared, 'c ToolStop) result" where
  "tool_prepare code w =
     (case tw_builder w of
        None \<Rightarrow>
          (case tw_arguments w of
             Inl e \<Rightarrow> Err (StopFault (TcLib e))
           | Inr msg \<Rightarrow> Ok (with_content code \<lparr>content_message = msg, content_attachments = []\<rparr>))
      | Some None \<Rightarrow> Err StopCancelled
      | Some (Some (Inr (TpContent content))) \<Rightarrow> Ok (with_content code content)
      | Some (Some (Inr (TpReference service document))) \<Rightarrow> Ok \<lparr>prep_form = Reference service document, prep_upload = None\<rparr>
      | Some (Some (Inl (AfRefused t))) \<Rightarrow> Err (StopFlag t)
      | Some (Some (Inl (AfFault cause))) \<Rightarrow> Err (StopFault (TcAuthor cause)))"

definition hand_upload :: "('b, 'c) ToolWorld \<Rightarrow> Prepared \<Rightarrow> (unit, 'c ToolStop) result \<times> Write list" where
  "hand_upload w prepared =
     (case prep_upload prepared of
        None \<Rightarrow> (Ok (), [])
      | Some content \<Rightarrow>
          if tw_triggered_upload w then (Err StopCancelled, [])
          else (case tw_upload w of
             Inl e \<Rightarrow> (Err (StopFault (TcJobs e)), [])
           | Inr _ \<Rightarrow> (Ok (), [caller_upload (tw_child w) content])))"

definition hand_create :: "ToolCode \<Rightarrow> ('b, 'c) ToolWorld \<Rightarrow> PayloadForm \<Rightarrow> (unit, 'c ToolStop) result \<times> Write list" where
  "hand_create code w form =
     (if tw_triggered_create w then (Err StopCancelled, [])
      else
        (let input = (create_input_new (tw_child w) (tw_create_id w) (RunnerType (tk_runner_type code)) (tool_call_mode (tk_mode code)) form)
               \<lparr>input_config := tk_config code, input_max_attempts := tk_max_attempts code\<rparr> in
         case tw_create w of
           Inl e \<Rightarrow> (Err (StopFault (TcJobs e)), [])
         | Inr _ \<Rightarrow> (Ok (), [caller_create (tw_core w) input])))"

definition hand_cancel :: "('b, 'c) ToolWorld \<Rightarrow> Write list" where
  "hand_cancel w = [caller_cancel (tw_core w) (tw_child w) (tw_last_id w)]"

definition tool_cancel_unless_dead :: "('b, 'c) ToolWorld \<Rightarrow> bool \<Rightarrow> Write list" where
  "tool_cancel_unless_dead w open_end = (if open_end \<and> (\<exists>r. tw_polled w = Some (Inl r)) then [] else hand_cancel w)"

definition hand_finish :: "('b, 'c) ToolWorld \<Rightarrow> Write list" where
  "hand_finish w = [caller_finish (tw_core w) (tw_child w) (tw_last_id w)]"

text \<open>The upload and the create of a prepared call.\<close>

definition hand_both :: "ToolCode \<Rightarrow> ('b, 'c) ToolWorld \<Rightarrow> Prepared \<Rightarrow> (unit, 'c ToolStop) result \<times> Write list" where
  "hand_both code w prepared =
     (case hand_upload w prepared of
        (Inl stop, ws) \<Rightarrow> (Err stop, ws)
      | (Inr _, ws) \<Rightarrow> (case hand_create code w (prep_form prepared) of (r, ws1) \<Rightarrow> (r, ws @ ws1)))"

definition background_text :: "'b ToolLib \<Rightarrow> string \<Rightarrow> uuid \<Rightarrow> string" where
  "background_text lib rt child =
     ''The runner '' @ rt @ '' was asked to do the work as the child Job '' @ tl_uuid lib child @
     ''. The create was handed over to jobs and is not confirmed until the notice \"accepted\" reaches you. '' @
     ''The notice \"refused\" tells you that jobs refused the create. The answer comes later by mail. '' @
     ''The notices of this work name the child Job '' @ tl_uuid lib child @ ''.''"

definition run_background ::
  "'b ToolLib \<Rightarrow> ToolCode \<Rightarrow> ('b, 'c) ToolWorld \<Rightarrow> Prepared \<Rightarrow> ('b ToolContent, 'c ToolStop) result option \<times> Write list" where
  "run_background lib code w prepared =
     (case hand_both code w prepared of
        (Inl stop, ws) \<Rightarrow> (Some (Err stop), ws)
      | (Inr _, ws) \<Rightarrow>
          if tw_triggered_created w then (Some (Err StopCancelled), ws @ tool_cancel_unless_dead w True)
          else
            (case tool_text lib (background_text lib (tk_runner_type code) (tw_child w)) of
               Inl stop \<Rightarrow> (Some (Err stop), ws)
             | Inr b \<Rightarrow> (Some (Ok \<lparr>tool_blocks = [b], tool_is_error = False\<rparr>), ws)))"

definition tool_removed :: "Removal \<Rightarrow> 'c ToolStop" where
  "tool_removed r =
     (case r of
        RRefused e \<Rightarrow> StopFlag (refusal_text e)
      | RFailed e \<Rightarrow> StopFault (TcJobs e)
      | _ \<Rightarrow> StopFault (TcCreateRemoved r))"

text \<open>The wait for the end of the child; \<open>None\<close> is a call that still waits.\<close>

fun tool_wait :: "('b, 'c) ToolWorld \<Rightarrow> bool \<Rightarrow> ToolHeard list \<Rightarrow> (SyncEnd, 'c ToolStop) result option \<times> Write list" where
  "tool_wait w open_end [] = (None, [])"
| "tool_wait w open_end (ThEnd (Inr x) # hs) = (Some (Ok x), [])"
| "tool_wait w open_end (ThEnd (Inl e) # hs) = (Some (Err (StopFault (TcJobs e))), tool_cancel_unless_dead w open_end)"
| "tool_wait w open_end (ThTriggered # hs) = (Some (Err StopCancelled), tool_cancel_unless_dead w open_end)"
| "tool_wait w open_end (ThCreated r # hs) =
     (if \<not> open_end then tool_wait w False hs
      else case r of
        Inl removal \<Rightarrow> (Some (Err (tool_removed removal)), [])
      | Inr _ \<Rightarrow> tool_wait w False hs)"

definition read_stop :: "string \<Rightarrow> Error \<Rightarrow> 'c ToolStop" where
  "read_stop rt e =
     (case e of
        Refused _ \<Rightarrow> StopFlag (''The Result read of the runner '' @ rt @ '' was refused: '' @ refusal_text e)
      | _ \<Rightarrow> StopFault (TcJobs e))"

definition take_result ::
  "ToolCode \<Rightarrow> ('b, 'c) ToolWorld \<Rightarrow> Content option \<Rightarrow> ResultRef option \<Rightarrow> (Content, 'c ToolStop) result" where
  "take_result code w inline result_ref =
     (case (inline, result_ref) of
        (Some content, _) \<Rightarrow> Ok content
      | (None, Some _) \<Rightarrow>
          (case tw_read w of
             None \<Rightarrow> Err StopCancelled
           | Some (Inl e) \<Rightarrow> Err (read_stop (tk_runner_type code) e)
           | Some (Inr content) \<Rightarrow> Ok content)
      | (None, None) \<Rightarrow> Ok \<lparr>content_message = [], content_attachments = []\<rparr>)"

definition tool_process ::
  "'b ToolLib \<Rightarrow> ToolCode \<Rightarrow> ('b, 'c) ToolWorld \<Rightarrow> Content \<Rightarrow> ('b ToolContent, 'c ToolStop) result" where
  "tool_process lib code w result =
     (case tw_processor w of
        None \<Rightarrow> default_content lib (tk_runner_type code) result
      | Some processor \<Rightarrow>
          (case processor result of
             None \<Rightarrow> Err StopCancelled
           | Some (Inr blocks) \<Rightarrow> Ok \<lparr>tool_blocks = blocks, tool_is_error = False\<rparr>
           | Some (Inl (AfRefused t)) \<Rightarrow> Err (StopFlag t)
           | Some (Inl (AfFault cause)) \<Rightarrow> Err (StopFault (TcAuthor cause))))"

definition tool_completed ::
  "'b ToolLib \<Rightarrow> ToolCode \<Rightarrow> ('b, 'c) ToolWorld \<Rightarrow> Content option \<Rightarrow> ResultRef option \<Rightarrow>
   ('b ToolContent, 'c ToolStop) result \<times> Write list" where
  "tool_completed lib code w inline result_ref =
     (let read = take_result code w inline result_ref in
      if read = Err StopCancelled \<or> tw_triggered_end w then (Err StopCancelled, [])
      else
        (case read of
           Inl stop \<Rightarrow> (Err stop, hand_finish w)
         | Inr result \<Rightarrow> (tool_process lib code w result, hand_finish w)))"

definition tool_settle ::
  "'b ToolLib \<Rightarrow> ToolCode \<Rightarrow> ('b, 'c) ToolWorld \<Rightarrow> SyncEnd \<Rightarrow> ('b ToolContent, 'c ToolStop) result \<times> Write list" where
  "tool_settle lib code w x =
     (case x of
        SyncCompleted inline result_ref \<Rightarrow> tool_completed lib code w inline result_ref
      | SyncFailed _ msg \<Rightarrow> (Err (StopFlag (ended_text (tk_runner_type code) ''failed'' msg)), [])
      | SyncCancelled msg \<Rightarrow> (Err (StopFlag (ended_text (tk_runner_type code) ''cancelled'' msg)), []))"

definition run_sync ::
  "'b ToolLib \<Rightarrow> ToolCode \<Rightarrow> ('b, 'c) ToolWorld \<Rightarrow> Prepared \<Rightarrow> ('b ToolContent, 'c ToolStop) result option \<times> Write list" where
  "run_sync lib code w prepared =
     (case hand_both code w prepared of
        (Inl stop, ws) \<Rightarrow> (Some (Err stop), ws)
      | (Inr _, ws) \<Rightarrow>
          (case tool_wait w True (tw_heard w) of
             (None, ws1) \<Rightarrow> (None, ws @ ws1)
           | (Some (Inl stop), ws1) \<Rightarrow> (Some (Err stop), ws @ ws1)
           | (Some (Inr x), ws1) \<Rightarrow>
               (case tool_settle lib code w x of (r, ws2) \<Rightarrow> (Some r, ws @ ws1 @ ws2))))"

definition tool_run ::
  "'b ToolLib \<Rightarrow> ToolCode \<Rightarrow> ('b, 'c) ToolWorld \<Rightarrow> ('b ToolContent, 'c ToolStop) result option \<times> Write list" where
  "tool_run lib code w =
     (case tool_prepare code w of
        Inl stop \<Rightarrow> (Some (Err stop), [])
      | Inr prepared \<Rightarrow>
          (case tk_mode code of
             ToolSync \<Rightarrow> run_sync lib code w prepared
           | ToolBackground _ \<Rightarrow> run_background lib code w prepared))"

definition tool_call ::
  "'b ToolLib \<Rightarrow> ToolCode \<Rightarrow> ('b, 'c) ToolWorld \<Rightarrow> ('b ToolContent, 'c ToolCause) result option \<times> Write list" where
  "tool_call lib code w =
     (case tool_run lib code w of
        (None, ws) \<Rightarrow> (None, ws)
      | (Some (Inr content), ws) \<Rightarrow> (Some (Ok content), ws)
      | (Some (Inl stop), ws) \<Rightarrow> (Some (into_result lib (tk_runner_type code) stop), ws))"

section \<open>What a call does\<close>

lemma hand_both_writes:
  assumes "hand_both code w prepared = (r, ws)" and "prep_form prepared = Kept \<longleftrightarrow> prep_upload prepared \<noteq> None"
  shows "(\<exists>stop. r = Err stop \<and> (ws = [] \<or> (\<exists>content. ws = [WUpload (tw_child w) content]))) \<or>
    (r = Ok () \<and> (\<exists>ups c. ws = ups @ [WCreate c] \<and> length ups \<le> 1 \<and> list_all (is_upload_of (tw_child w)) ups \<and>
       create_job_id c = tw_child w \<and> create_mode c = tool_call_mode (tk_mode code) \<and> (create_payload c = Kept \<longleftrightarrow> ups \<noteq> [])))"
  using assms
  by (cases "prep_upload prepared"; cases "tw_upload w"; cases "tw_create w")
    (auto simp: hand_both_def hand_upload_def hand_create_def Let_def caller_defs split: if_splits)

lemma prepared_ok: "tool_prepare code w = Ok prepared \<Longrightarrow> prep_form prepared = Kept \<longleftrightarrow> prep_upload prepared \<noteq> None"
  by (auto simp: tool_prepare_def with_content_def split: option.splits sum.splits ToolPayload.splits AuthorFailure.splits PayloadKind.splits)

lemma tool_wait_writes:
  "tool_wait w b hs = (r, ws) \<Longrightarrow>
     (ws = [] \<or> ws = hand_cancel w \<and> (r = Some (Err StopCancelled) \<or> (\<exists>e. r = Some (Err (StopFault (TcJobs e)))))) \<and>
     (\<forall>x. r = Some (Ok x) \<longrightarrow> ws = [] \<and> ThEnd (Ok x) \<in> set hs) \<and>
     (r = None \<longrightarrow> (\<forall>h \<in> set hs. \<exists>x. h = ThCreated x))"
proof (induction w b hs arbitrary: r ws rule: tool_wait.induct)
  case (5 w b x hs)
  then show ?case by (cases b; cases x) auto
qed (auto simp: tool_cancel_unless_dead_def split: if_splits)

lemma tool_settle_writes:
  assumes "tool_settle lib code w x = (r, ws)"
  shows "ws = [] \<and> (\<forall>c. r \<noteq> Ok c) \<or>
    ws = hand_finish w \<and> \<not> tw_triggered_end w \<and> (\<exists>inline result. x = SyncCompleted inline result)"
  using assms
  by (cases x) (auto simp: tool_settle_def tool_completed_def Let_def split: if_splits sum.splits)

text \<open>What follows the create.\<close>

definition tool_ends_ok ::
  "ToolCode \<Rightarrow> ('b, 'c) ToolWorld \<Rightarrow> ('b ToolContent, 'c ToolStop) result option \<Rightarrow> Write list \<Rightarrow> bool" where
  "tool_ends_ok code w r ends \<longleftrightarrow>
     (ends = [] \<and> (tk_mode code = ToolSync \<longrightarrow> (\<forall>c. r \<noteq> Some (Ok c)))) \<or>
     (ends = hand_cancel w \<and> (r = Some (Err StopCancelled) \<or> (\<exists>e. r = Some (Err (StopFault (TcJobs e)))))) \<or>
     (ends = hand_finish w \<and> tk_mode code = ToolSync \<and> \<not> tw_triggered_end w \<and>
        (\<exists>inline result. ThEnd (Ok (SyncCompleted inline result)) \<in> set (tw_heard w)))"

lemma run_sync_cases:
  assumes "run_sync lib code w prepared = (r, ws)" and "hand_both code w prepared = (Ok (), hs)"
  shows "\<exists>ends. ws = hs @ ends \<and> (tk_mode code = ToolSync \<longrightarrow> tool_ends_ok code w r ends) \<and>
    (r = None \<longrightarrow> (\<forall>h \<in> set (tw_heard w). \<exists>x. h = ThCreated x))"
proof -
  obtain wr ws1 where t: "tool_wait w True (tw_heard w) = (wr, ws1)" by (cases "tool_wait w True (tw_heard w)")
  note tw = tool_wait_writes [OF t]
  show ?thesis
  proof (cases wr)
    case None
    with assms t have "r = None" "ws = hs @ ws1" by (simp_all add: run_sync_def)
    with tw None show ?thesis by (auto simp: tool_ends_ok_def)
  next
    case (Some x)
    show ?thesis
    proof (cases x)
      case (Inl stop)
      with assms t Some have "r = Some (Err stop)" "ws = hs @ ws1" by (simp_all add: run_sync_def)
      with tw Some Inl show ?thesis by (auto simp: tool_ends_ok_def)
    next
      case (Inr y)
      obtain sr ws2 where s: "tool_settle lib code w y = (sr, ws2)" by (cases "tool_settle lib code w y")
      from tw Some Inr have "ws1 = []" "ThEnd (Ok y) \<in> set (tw_heard w)" by auto
      with assms t Some Inr s have "r = Some sr" "ws = hs @ ws2" by (simp_all add: run_sync_def)
      with tool_settle_writes [OF s] \<open>ThEnd (Ok y) \<in> set (tw_heard w)\<close> show ?thesis by (auto simp: tool_ends_ok_def)
    qed
  qed
qed

lemma run_background_cases:
  assumes "run_background lib code w prepared = (r, ws)" and "hand_both code w prepared = (Ok (), hs)"
  shows "\<exists>ends. ws = hs @ ends \<and> (tk_mode code \<noteq> ToolSync \<longrightarrow> tool_ends_ok code w r ends) \<and> r \<noteq> None"
  using assms
  by (auto simp: run_background_def tool_ends_ok_def tool_cancel_unless_dead_def split: if_splits sum.splits)

lemma tool_run_cases:
  fixes w :: "('b, 'c) ToolWorld"
  assumes "tool_run lib code w = (r, ws)"
  shows "(\<exists>stop. r = Some (Err stop) \<and> (ws = [] \<or> (\<exists>content. ws = [WUpload (tw_child w) content]))) \<or>
    (\<exists>ups c ends. ws = ups @ WCreate c # ends \<and> length ups \<le> 1 \<and> list_all (is_upload_of (tw_child w)) ups \<and>
       create_job_id c = tw_child w \<and> create_mode c = tool_call_mode (tk_mode code) \<and>
       (create_payload c = Kept \<longleftrightarrow> ups \<noteq> []) \<and> tool_ends_ok code w r ends \<and>
       (r = None \<longrightarrow> (\<forall>h \<in> set (tw_heard w). \<exists>x. h = ThCreated x)))"
proof (cases "tool_prepare code w")
  case (Inl stop)
  with assms have "r = Some (Err stop) \<and> ws = []" by (simp add: tool_run_def)
  then show ?thesis by blast
next
  case (Inr prepared)
  obtain hr hs where h: "(hand_both code w prepared :: (unit, 'c ToolStop) result \<times> Write list) = (hr, hs)"
    by (cases "hand_both code w prepared :: (unit, 'c ToolStop) result \<times> Write list")
  from hand_both_writes [OF h prepared_ok [OF Inr]] show ?thesis
  proof
    assume "\<exists>stop. hr = Err stop \<and> (hs = [] \<or> (\<exists>content. hs = [WUpload (tw_child w) content]))"
    then obtain stop where s: "hr = Err stop" "hs = [] \<or> (\<exists>content. hs = [WUpload (tw_child w) content])" by blast
    have "r = Some (Err stop) \<and> ws = hs"
      using assms Inr h s(1) by (cases "tk_mode code") (auto simp: tool_run_def run_sync_def run_background_def)
    with s(2) show ?thesis by blast
  next
    assume "hr = Ok () \<and> (\<exists>ups c. hs = ups @ [WCreate c] \<and> length ups \<le> 1 \<and> list_all (is_upload_of (tw_child w)) ups \<and>
       create_job_id c = tw_child w \<and> create_mode c = tool_call_mode (tk_mode code) \<and> (create_payload c = Kept \<longleftrightarrow> ups \<noteq> []))"
    then obtain ups c where u: "hr = Ok ()" "hs = ups @ [WCreate c]" "length ups \<le> 1" "list_all (is_upload_of (tw_child w)) ups"
      "create_job_id c = tw_child w" "create_mode c = tool_call_mode (tk_mode code)" "create_payload c = Kept \<longleftrightarrow> ups \<noteq> []" by blast
    have "\<exists>ends. ws = hs @ ends \<and> tool_ends_ok code w r ends \<and>
        (r = None \<longrightarrow> (\<forall>h \<in> set (tw_heard w). \<exists>x. h = ThCreated x))"
    proof (cases "tk_mode code")
      case ToolSync
      with assms Inr have "run_sync lib code w prepared = (r, ws)" by (simp add: tool_run_def)
      from run_sync_cases [OF this h [unfolded u(1)]] obtain ends
        where "ws = hs @ ends" "tk_mode code = ToolSync \<longrightarrow> tool_ends_ok code w r ends"
          "r = None \<longrightarrow> (\<forall>h \<in> set (tw_heard w). \<exists>x. h = ThCreated x)" by (elim exE conjE)
      with ToolSync show ?thesis by (intro exI [of _ ends]) simp
    next
      case (ToolBackground caller)
      with assms Inr have "run_background lib code w prepared = (r, ws)" by (simp add: tool_run_def)
      from run_background_cases [OF this h [unfolded u(1)]] obtain ends
        where "ws = hs @ ends" "tk_mode code \<noteq> ToolSync \<longrightarrow> tool_ends_ok code w r ends" "r \<noteq> None" by (elim exE conjE)
      with ToolBackground show ?thesis by (intro exI [of _ ends]) auto
    qed
    then obtain ends where "ws = ups @ WCreate c # ends" "tool_ends_ok code w r ends"
      "r = None \<longrightarrow> (\<forall>h \<in> set (tw_heard w). \<exists>x. h = ThCreated x)" using u(2) by auto
    with u(3-) show ?thesis by (intro disjI2 exI [of _ ups] exI [of _ c] exI [of _ ends]) simp
  qed
qed


text \<open>A synchronous call whose child completes, and one that is cancelled while it waits.\<close>

definition demo_tool_lib :: "string ToolLib" where
  "demo_tool_lib = \<lparr>tl_block = (\<lambda>t. Ok t), tl_error = (\<lambda>t. Ok \<lparr>tool_blocks = [t], tool_is_error = True\<rparr>), tl_uuid = (\<lambda>_. ''id'')\<rparr>"

definition demo_tool_code :: ToolCode where
  "demo_tool_code = \<lparr>tk_runner_type = ''r'', tk_mode = ToolSync, tk_config = None, tk_max_attempts = None,
     tk_kind = KindKept, tk_keep = False\<rparr>"

definition demo_tool_world :: "ToolHeard list \<Rightarrow> (string, string) ToolWorld" where
  "demo_tool_world heard = \<lparr>tw_arguments = Ok ''{}'', tw_builder = None, tw_core = demo_core, tw_child = 7, tw_create_id = 8, tw_last_id = 9,
     tw_triggered_upload = False, tw_triggered_create = False, tw_triggered_created = False, tw_triggered_end = False,
     tw_upload = Ok (), tw_create = Ok (), tw_heard = heard, tw_polled = None, tw_read = None, tw_processor = None\<rparr>"

lemmas demo_tool_defs = demo_tool_lib_def demo_tool_code_def demo_tool_world_def tool_run_def tool_prepare_def with_content_def
  run_sync_def hand_both_def hand_upload_def hand_create_def tool_settle_def tool_completed_def take_result_def tool_process_def
  default_content_def result_texts_def tool_text_def hand_finish_def hand_cancel_def tool_cancel_unless_dead_def caller_defs


end
