(* ===== verification/Inbox_Convert.thy ===== *)
theory Inbox_Convert
  imports Agent_Book Text_Ops
begin

text \<open>
  What an agent sees of its inbox (\<open>adapter/inbox_port/convert.rs\<close>, \<open>notice_text.rs\<close>): each unread item
  of jobs becomes an item of the inbox port, with the entry by which the book remembers it. The ids,
  authors, notices and entries of the contracts are checked by crates outside of the workspace, whose
  answers are \<open>InboxLib\<close>, as is the text of an id.
\<close>

section \<open>The contracts\<close>

text \<open>An error of the port carries the error that caused it, which is one of jobs, of an id or of the lookup.\<close>

datatype PortFault = FaultJobs Error | FaultId | FaultLookup string

datatype PortError = PeRefused string | PeFault PortFault

record MailTo =
  to_id :: uuid
  to_sender :: uuid
  to_author :: string
  to_source :: uuid
  to_to :: "uuid list"
  to_cc :: "uuid list"
  to_subject :: string
  to_body :: string
  to_attachment_names :: "string list"

datatype MailItem = MailItemTo MailTo | MailItemCc uuid string

text \<open>An entry of the inbox is a runtime notice: its id and its text.\<close>

datatype InboxItem = InboxEntryItem uuid string | InboxMailItem MailItem

record NewMail =
  nm_id :: uuid
  nm_author :: string
  nm_source :: uuid
  nm_subject :: string
  nm_body :: string
  nm_to :: "uuid list"
  nm_cc :: "uuid list"
  nm_attachments :: "(string \<times> string) list"

record InboxLib =
  il_v7 :: "uuid \<Rightarrow> bool"
  il_author_ok :: "string \<Rightarrow> bool"
  il_notice_ok :: "string \<Rightarrow> bool"
  il_entry_ok :: "uuid \<Rightarrow> string \<Rightarrow> bool"
  il_item_id :: "InboxItem \<Rightarrow> uuid"
  il_show :: "uuid \<Rightarrow> string"
  il_parse :: "string \<Rightarrow> uuid option"
  il_refusal :: "NewMail \<Rightarrow> string option"

section \<open>The texts of notices\<close>

fun join_lines :: "string list \<Rightarrow> string" where
  "join_lines [] = ''''"
| "join_lines [l] = l"
| "join_lines (l # m # ls) = l @ CHR 0x0A # join_lines (m # ls)"

definition call_name :: "InboxLib \<Rightarrow> CallNotice \<Rightarrow> string" where
  "call_name lib n = (case notice_child_job_id n of Some job \<Rightarrow> ''The call '' @ il_show lib job | None \<Rightarrow> ''A call'')"

definition result_lines :: "InboxLib \<Rightarrow> Content option \<Rightarrow> CallNotice \<Rightarrow> string list" where
  "result_lines lib inline n =
     (case inline of
        Some c \<Rightarrow> (''Result: '' @ content_message c) # map (\<lambda>a. ''Result attachment: '' @ att_name a) (content_attachments c)
      | None \<Rightarrow> []) @
     (case notice_result_ref n of
        Some (ResultRef r) \<Rightarrow> [''The result is kept by jobs under the reference '' @ il_show lib r @ ''.'']
      | None \<Rightarrow> [])"

definition failure_lines :: "CallNotice \<Rightarrow> string list" where
  "failure_lines n = (case notice_report n of Some r \<Rightarrow> [''Reason code: '' @ report_reason_code r] | None \<Rightarrow> [])"

definition notice_head :: "InboxLib \<Rightarrow> CallNotice \<Rightarrow> string" where
  "notice_head lib n =
     call_name lib n @
     (case notice_kind n of
        Accepted \<Rightarrow> '' was accepted.''
      | QueuePosition \<Rightarrow>
          (case notice_position n of
             Some p \<Rightarrow> '' waits at position '' @ int_text p @ '' in the queue.''
           | None \<Rightarrow> '' waits in the queue.'')
      | RunStarted \<Rightarrow> '' started.''
      | RunCompleted \<Rightarrow> '' completed.''
      | JobFailed \<Rightarrow> '' failed.''
      | JobCancelled \<Rightarrow> '' was cancelled.''
      | NoticeRefused \<Rightarrow> '' was refused.''
      | UnknownNotice \<Rightarrow>
          (case notice_type n of
             Some t \<Rightarrow> '' has a notice of the type '' @ t @ ''.''
           | None \<Rightarrow> '' has a notice of an unknown type.''))"

definition call_notice :: "InboxLib \<Rightarrow> CallNotice \<Rightarrow> string" where
  "call_notice lib n =
     join_lines
       ([notice_head lib n] @
        (case notice_message n of Some m \<Rightarrow> [m] | None \<Rightarrow> []) @
        (case notice_kind n of
           RunCompleted \<Rightarrow> result_lines lib (notice_inline n) n
         | JobFailed \<Rightarrow> failure_lines n
         | _ \<Rightarrow> []))"

definition unknown_item :: "string \<Rightarrow> string option \<Rightarrow> string" where
  "unknown_item kind msg =
     join_lines ((''An item of the kind '' @ kind @ '' arrived.'') # (case msg of Some m \<Rightarrow> [m] | None \<Rightarrow> []))"

section \<open>Conversion\<close>

record Converted =
  cv_item :: InboxItem
  cv_entry :: MailEntry

definition cannot :: "string \<Rightarrow> PortError" where
  "cannot what = PeFault (FaultJobs (Unreadable
     (''an unread item cannot be made into an item of the inbox port: '' @ what)))"

definition checked_entry_id :: "InboxLib \<Rightarrow> uuid \<Rightarrow> (uuid, PortError) result" where
  "checked_entry_id lib u = (if il_v7 lib u then Ok u else Err (cannot ''an id is not a UUIDv7''))"

definition checked_agent_id :: "InboxLib \<Rightarrow> uuid \<Rightarrow> (uuid, PortError) result" where
  "checked_agent_id lib u = (if il_v7 lib u then Ok u else Err (cannot ''an agent id is not a UUIDv7''))"

definition checked_mail_id :: "InboxLib \<Rightarrow> uuid \<Rightarrow> (uuid, PortError) result" where
  "checked_mail_id lib u = (if il_v7 lib u then Ok u else Err (cannot ''a mail id is not a UUIDv7''))"

definition agent_ids :: "InboxLib \<Rightarrow> uuid list \<Rightarrow> (uuid list, PortError) result" where
  "agent_ids lib us = collect_results (map (checked_agent_id lib) us)"

definition notice_entry :: "InboxLib \<Rightarrow> uuid \<Rightarrow> string \<Rightarrow> (InboxItem, PortError) result" where
  "notice_entry lib u words =
     (case checked_entry_id lib u of
        Inl e \<Rightarrow> Err e
      | Inr i \<Rightarrow>
          if \<not> il_notice_ok lib words then Err (cannot ''a blank notice'')
          else if \<not> il_entry_ok lib i words then Err (cannot ''a notice is not an entry of the inbox'')
          else Ok (InboxEntryItem i words))"

text \<open>The fields of the item are made in their order, and the first that cannot be made is the error.\<close>

definition mail_to_item :: "InboxLib \<Rightarrow> Mail \<Rightarrow> uuid \<Rightarrow> Recipients \<Rightarrow> (MailItem, PortError) result" where
  "mail_to_item lib m agent r =
     (if agent \<notin> set (rec_to r) then Err (cannot ''a direct mail does not list the agent in to'')
      else
        (case mail_source_conversation m of
           None \<Rightarrow> Err (cannot ''a direct mail has no source conversation'')
         | Some source \<Rightarrow>
             (case (checked_mail_id lib (mail_id m), checked_agent_id lib (mail_from m)) of
                (Inl e, _) \<Rightarrow> Err e
              | (Inr i, Inl e) \<Rightarrow> Err e
              | (Inr i, Inr sender) \<Rightarrow>
                  if \<not> il_author_ok lib (mail_author m) then Err (cannot ''a blank author name'')
                  else if \<not> il_v7 lib source then Err (cannot ''a source conversation is not a UUIDv7'')
                  else
                    (case (agent_ids lib (rec_to r), agent_ids lib (rec_cc r)) of
                       (Inl e, _) \<Rightarrow> Err e
                     | (Inr ts, Inl e) \<Rightarrow> Err e
                     | (Inr ts, Inr cs) \<Rightarrow>
                         Ok (MailItemTo \<lparr>to_id = i, to_sender = sender, to_author = mail_author m, to_source = source,
                           to_to = ts, to_cc = cs, to_subject = mail_subject m, to_body = mail_body m,
                           to_attachment_names = map mail_att_name (mail_attachments m)\<rparr>)))))"

definition entry_plain :: "uuid \<Rightarrow> EntryKind \<Rightarrow> MailEntry" where
  "entry_plain i kind = \<lparr>entry_item_id = i, entry_child_job_id = None, entry_kind = kind\<rparr>"

definition call_entry :: "CallNotice \<Rightarrow> MailEntry" where
  "call_entry n = \<lparr>entry_item_id = notice_item_id n, entry_child_job_id = notice_child_job_id n,
     entry_kind = EkCallNotice (notice_kind n)\<rparr>"

text \<open>The conversion of an item once the recipients of its mail are known; only a direct mail reads them.\<close>

definition with_entry :: "MailEntry \<Rightarrow> (InboxItem, PortError) result \<Rightarrow> (Converted, PortError) result" where
  "with_entry e r = map_sum id (\<lambda>item. \<lparr>cv_item = item, cv_entry = e\<rparr>) r"

fun convert_with :: "InboxLib \<Rightarrow> uuid \<Rightarrow> Recipients \<Rightarrow> UnreadItem \<Rightarrow> (Converted, PortError) result" where
  "convert_with lib agent r (UDirectMail i _ m) =
     with_entry (entry_plain i EkDirectMail) (map_sum id InboxMailItem (mail_to_item lib m agent r))"
| "convert_with lib agent r (UCcNotice i _ m subject) =
     with_entry (entry_plain i EkCcNotice) (map_sum id (\<lambda>x. InboxMailItem (MailItemCc x subject)) (checked_mail_id lib m))"
| "convert_with lib agent r (UCallNotice n) =
     with_entry (call_entry n) (notice_entry lib (notice_item_id n) (call_notice lib n))"
| "convert_with lib agent r (UMailNotice i _ _ words) =
     with_entry (entry_plain i EkMailNotice) (notice_entry lib i words)"
| "convert_with lib agent r (UUnknown i _ kind msg) =
     with_entry (entry_plain i EkUnknown) (notice_entry lib i (unknown_item kind msg))"

fun mail_to_read :: "UnreadItem \<Rightarrow> uuid option" where
  "mail_to_read (UDirectMail _ _ m) = Some (mail_id m)"
| "mail_to_read _ = None"

text \<open>
  A conversion as a future: before its first poll, waiting for the mail it asked for, or done. A poll
  gets what jobs answered to that read, \<open>None\<close> while it did not answer. The recipients are looked up
  at the first poll and kept when a read gave them.
\<close>

datatype ConvertState = CvNew | CvReading | CvDone "(Converted, PortError) result"

definition no_recipients :: Recipients where
  "no_recipients = \<lparr>rec_to = [], rec_cc = []\<rparr>"

definition convert_read ::
  "InboxLib \<Rightarrow> uuid \<Rightarrow> UnreadItem \<Rightarrow> (Mail, Error) result option \<Rightarrow> Inbox \<Rightarrow> ConvertState \<times> Inbox" where
  "convert_read lib agent u answer i =
     (case answer of
        None \<Rightarrow> (CvReading, i)
      | Some (Inl e) \<Rightarrow> (CvDone (Err (PeFault (FaultJobs e))), i)
      | Some (Inr m) \<Rightarrow>
          (let r = \<lparr>rec_to = mail_to m, rec_cc = mail_cc m\<rparr> in
           (CvDone (convert_with lib agent r u),
            (case mail_to_read u of Some x \<Rightarrow> keep_recipients x r i | None \<Rightarrow> i))))"

definition convert_poll ::
  "InboxLib \<Rightarrow> uuid \<Rightarrow> UnreadItem \<Rightarrow> (Mail, Error) result option \<Rightarrow> ConvertState \<Rightarrow> Inbox \<Rightarrow> ConvertState \<times> Inbox" where
  "convert_poll lib agent u answer st i =
     (case st of
        CvDone r \<Rightarrow> (CvDone r, i)
      | CvReading \<Rightarrow> convert_read lib agent u answer i
      | CvNew \<Rightarrow>
          (case mail_to_read u of
             None \<Rightarrow> (CvDone (convert_with lib agent no_recipients u), i)
           | Some m \<Rightarrow>
               (case recipients i m of
                  Some r \<Rightarrow> (CvDone (convert_with lib agent r u), i)
                | None \<Rightarrow> convert_read lib agent u answer i)))"

end
