(* ===== verification/Inbox_Port.thy ===== *)
theory Inbox_Port
  imports Inbox_Convert
begin

text \<open>
  The port by which the nodes of a graph reach the inboxes of their agents (\<open>adapter/inbox_port\<close>,
  \<open>adapter/node_entry.rs\<close>): the listing with its cursors, the marks, the mails that are sent, the
  documents of a mail and the wait for an item. An operation that waits for jobs gives the locks back,
  so what others did to the book meanwhile is an input (a function on the book), as are the answers of
  jobs. \<open>None\<close> is a call that still waits.
\<close>

section \<open>The node and its agent\<close>

text \<open>The gate of a mark is the future that the queue holds the marker for; it is not part of the state.\<close>

record NodeShared =
  ns_node :: string
  ns_inbox :: "string option"

definition inbox_key :: "NodeShared \<Rightarrow> AgentKey option" where
  "inbox_key ns = map_option (\<lambda>l. \<lparr>node = ns_node ns, label = l\<rparr>) (ns_inbox ns)"

definition node_agent_id ::
  "InboxLib \<Rightarrow> NodeShared \<Rightarrow> string \<Rightarrow> uuid \<Rightarrow> instant \<Rightarrow> Book \<Rightarrow> Shared \<Rightarrow> (uuid, PortError) result \<times> Book \<times> Shared" where
  "node_agent_id lib ns l fresh now b sh =
     (let (ref, b', sh') = agent_for \<lparr>node = ns_node ns, label = l\<rparr> (ns_inbox ns = Some l) fresh now b sh in
      ((if il_v7 lib (ref_agent_id ref) then Ok (ref_agent_id ref) else Err (PeFault FaultId)), b', sh'))"

definition agent_port_agent ::
  "InboxLib \<Rightarrow> NodeShared \<Rightarrow> (unit, PortError) result \<Rightarrow> string \<Rightarrow> uuid \<Rightarrow> instant \<Rightarrow> Book \<Rightarrow> Shared \<Rightarrow>
   (uuid, PortError) result \<times> Book \<times> Shared" where
  "agent_port_agent lib ns found l fresh now b sh =
     (case found of Inl e \<Rightarrow> (Err e, b, sh) | Inr _ \<Rightarrow> node_agent_id lib ns l fresh now b sh)"

definition holds_inbox_of :: "NodeShared \<Rightarrow> uuid \<Rightarrow> Book \<Rightarrow> bool" where
  "holds_inbox_of ns agent b \<longleftrightarrow>
     (case inbox_key ns of
        Some key \<Rightarrow> agents_key_of agent (agents b) = Some key \<and> agents_holds_inbox agent (agents b)
      | None \<Rightarrow> False)"

definition port_resolve :: "NodeShared \<Rightarrow> (unit, PortError) result \<Rightarrow> uuid \<Rightarrow> Book \<Rightarrow> (unit, PortError) result" where
  "port_resolve ns found agent b =
     (case found of
        Inl e \<Rightarrow> Err e
      | Inr _ \<Rightarrow>
          if holds_inbox_of ns agent b then Ok ()
          else Err (PeFault (FaultJobs (InvalidInput ''the agent does not hold the inbox of this node''))))"

section \<open>The listing\<close>

record InboxBatch =
  batch_items :: "InboxItem list"
  batch_next :: "string option"

definition leave_out_marked :: "uuid \<Rightarrow> Inbox \<Rightarrow> UnreadItem list \<Rightarrow> UnreadItem list" where
  "leave_out_marked agent i items = filter (\<lambda>u. item_id u \<notin> marked_items agent i) items"

definition parse_cursor :: "InboxLib \<Rightarrow> string \<Rightarrow> (uuid, PortError) result" where
  "parse_cursor lib cursor =
     (case il_parse lib cursor of
        Some u \<Rightarrow> Ok u
      | None \<Rightarrow> Err (PeFault (FaultJobs (InvalidInput ''the cursor of a listing is not one that this inbox gave''))))"

definition parse_after :: "InboxLib \<Rightarrow> string option \<Rightarrow> (uuid option, PortError) result" where
  "parse_after lib after = (case after of None \<Rightarrow> Ok None | Some c \<Rightarrow> map_sum id Some (parse_cursor lib c))"

fun after_item :: "UnreadItem list \<Rightarrow> uuid \<Rightarrow> UnreadItem list option" where
  "after_item [] after = None"
| "after_item (u # us) after = (if item_id u = after then Some us else after_item us after)"

definition later_than :: "UnreadItem list \<Rightarrow> uuid \<Rightarrow> UnreadItem list" where
  "later_than items after = filter (\<lambda>u. after < item_id u) items"

definition kept_rest :: "uuid \<Rightarrow> uuid option \<Rightarrow> Inbox \<Rightarrow> UnreadItem list option" where
  "kept_rest agent after i =
     Option.bind after (\<lambda>a. Option.bind (inbox_snapshot agent i) (\<lambda>kept. after_item kept a))"

definition rest_of_read :: "uuid option \<Rightarrow> UnreadItem list \<Rightarrow> UnreadItem list" where
  "rest_of_read after read =
     (case after of
        None \<Rightarrow> read
      | Some a \<Rightarrow> (case after_item read a of Some rest \<Rightarrow> rest | None \<Rightarrow> later_than read a))"

definition rest_of_listing ::
  "uuid \<Rightarrow> uuid option \<Rightarrow> (UnreadItem list, Error) result option \<Rightarrow> (Book \<Rightarrow> Book) \<Rightarrow> Book \<Rightarrow>
   (UnreadItem list \<times> UnreadItem list option, PortError) result option \<times> Book" where
  "rest_of_listing agent after answer others b =
     (case kept_rest agent after (inbox b) of
        Some rest \<Rightarrow> (Some (Ok (rest, None)), b)
      | None \<Rightarrow>
          ((case answer of
              None \<Rightarrow> None
            | Some (Inl e) \<Rightarrow> Some (Err (PeFault (FaultJobs e)))
            | Some (Inr read) \<Rightarrow> Some (Ok (rest_of_read after read, Some read))), others b))"

text \<open>
  \<open>try_join_all\<close> over the conversions of a page: they are polled in any order and any number of times,
  each poll with what others did before it and the answer to its read; the first that fails ends it.
\<close>

type_synonym ConvertPoll = "nat \<times> (Mail, Error) result option \<times> (Book \<Rightarrow> Book)"

fun convert_failed :: "ConvertState \<Rightarrow> bool" where
  "convert_failed (CvDone (Inl _)) = True"
| "convert_failed _ = False"

fun convert_polls ::
  "InboxLib \<Rightarrow> uuid \<Rightarrow> UnreadItem list \<Rightarrow> ConvertPoll list \<Rightarrow> ConvertState list \<Rightarrow> Book \<Rightarrow> ConvertState list \<times> Book" where
  "convert_polls lib agent us [] sts b = (sts, b)"
| "convert_polls lib agent us ((n, answer, others) # ps) sts b =
     (let b1 = others b in
      if n < length us \<and> n < length sts then
        (let (st, i) = convert_poll lib agent (us ! n) answer (sts ! n) (inbox b1);
             sts1 = sts[n := st]; b2 = b1\<lparr>inbox := i\<rparr>
         in if convert_failed st then (sts1, b2) else convert_polls lib agent us ps sts1 b2)
      else convert_polls lib agent us ps sts b1)"

fun convert_joined :: "ConvertState list \<Rightarrow> (Converted list, PortError) result option" where
  "convert_joined [] = Some (Ok [])"
| "convert_joined (CvDone (Inl e) # sts) = Some (Err e)"
| "convert_joined (CvDone (Inr c) # sts) = map_option (map_sum id ((#) c)) (convert_joined sts)"
| "convert_joined (_ # sts) =
     (case convert_joined sts of Some (Inl e) \<Rightarrow> Some (Err e) | _ \<Rightarrow> None)"

definition record_page :: "InboxLib \<Rightarrow> uuid \<Rightarrow> Converted list \<Rightarrow> Inbox \<Rightarrow> Inbox" where
  "record_page lib agent cs i = fold (\<lambda>c. record_listed agent (il_item_id lib (cv_item c)) (cv_entry c)) cs i"

definition settle_snapshot :: "uuid \<Rightarrow> bool \<Rightarrow> UnreadItem list option \<Rightarrow> Inbox \<Rightarrow> Inbox" where
  "settle_snapshot agent goes_on fresh i =
     (case (goes_on, fresh) of
        (True, Some read) \<Rightarrow> keep_snapshot agent read i
      | (True, None) \<Rightarrow> i
      | (False, _) \<Rightarrow> drop_snapshot agent i)"

text \<open>What a call of \<open>items\<close> hears: the lookup, the answer to its read, and the polls of its conversions.\<close>

record ItemsWorld =
  iw_found :: "(unit, PortError) result"
  iw_read :: "(UnreadItem list, Error) result option"
  iw_others :: "Book \<Rightarrow> Book"
  iw_polls :: "ConvertPoll list"

definition items_page ::
  "InboxLib \<Rightarrow> uuid \<Rightarrow> nat \<Rightarrow> UnreadItem list \<Rightarrow> UnreadItem list option \<Rightarrow> ConvertPoll list \<Rightarrow> Book \<Rightarrow>
   (InboxBatch, PortError) result option \<times> Book" where
  "items_page lib agent limit rest fresh polls b =
     (let left = leave_out_marked agent (inbox b) rest;
          goes_on = limit < length left;
          page = take limit left;
          nxt = (if goes_on \<and> page \<noteq> [] then Some (il_show lib (item_id (last page))) else None);
          (sts, b1) = convert_polls lib agent page polls (replicate (length page) CvNew) b
      in (case convert_joined sts of
            None \<Rightarrow> (None, b1)
          | Some (Inl e) \<Rightarrow> (Some (Err e), b1)
          | Some (Inr cs) \<Rightarrow>
              (Some (Ok \<lparr>batch_items = map cv_item cs, batch_next = nxt\<rparr>),
               b1\<lparr>inbox := record_page lib agent cs (settle_snapshot agent (nxt \<noteq> None) fresh (inbox b1))\<rparr>)))"

definition inbox_items ::
  "InboxLib \<Rightarrow> NodeShared \<Rightarrow> uuid \<Rightarrow> string option \<Rightarrow> nat \<Rightarrow> ItemsWorld \<Rightarrow> (nat \<Rightarrow> WriteResult oneshot) \<Rightarrow> Book \<Rightarrow>
   (InboxBatch, PortError) result option \<times> Book" where
  "inbox_items lib ns agent after limit w chan b =
     (case port_resolve ns (iw_found w) agent b of
        Inl e \<Rightarrow> (Some (Err e), b)
      | Inr _ \<Rightarrow>
          (case parse_after lib after of
             Inl e \<Rightarrow> (Some (Err e), b)
           | Inr a \<Rightarrow>
               if registration_queued chan agent b then (Some (Ok \<lparr>batch_items = [], batch_next = None\<rparr>), b)
               else
                 (case rest_of_listing agent a (iw_read w) (iw_others w) b of
                    (None, b1) \<Rightarrow> (None, b1)
                  | (Some (Inl e), b1) \<Rightarrow> (Some (Err e), b1)
                  | (Some (Inr (rest, fresh)), b1) \<Rightarrow> items_page lib agent limit rest fresh (iw_polls w) b1)))"

section \<open>Marks, mails and documents\<close>

definition finish_of :: "uuid \<Rightarrow> MailEntry \<Rightarrow> Write option" where
  "finish_of run listed =
     (case (entry_kind listed, entry_child_job_id listed) of
        (EkCallNotice RunCompleted, Some job) \<Rightarrow> Some (WFinish run job (entry_item_id listed))
      | _ \<Rightarrow> None)"

text \<open>What \<open>mark_read\<close> does to the book, and the marker and the finish that it gives to the queue.\<close>

definition mark_begin ::
  "NodeShared \<Rightarrow> uuid \<Rightarrow> uuid \<Rightarrow> Book \<Rightarrow> (MailEntry \<times> Write \<times> Write option) option \<times> Book" where
  "mark_begin ns agent entry b =
     (case inbox_listed agent entry (inbox b) of
        None \<Rightarrow> (None, b)
      | Some listed \<Rightarrow>
          (let (first, i) = mark agent (entry_item_id listed) (inbox b); b1 = b\<lparr>inbox := i\<rparr> in
           if \<not> first then (None, b1)
           else if ns_inbox ns = None then (None, b1)
           else (Some (listed, WMarker (book_run_id b) (entry_item_id listed) agent entry, finish_of (book_run_id b) listed), b1)))"

definition inbox_mark_read ::
  "NodeShared \<Rightarrow> (unit, PortError) result \<Rightarrow> uuid \<Rightarrow> uuid \<Rightarrow> instant \<Rightarrow> Book \<Rightarrow> Shared \<Rightarrow>
   (unit, PortError) result \<times> Book \<times> Shared" where
  "inbox_mark_read ns found agent entry now b sh =
     (case port_resolve ns found agent b of
        Inl e \<Rightarrow> (Err e, b, sh)
      | Inr _ \<Rightarrow>
          (case mark_begin ns agent entry b of
             (None, b1) \<Rightarrow> (Ok (), b1, sh)
           | (Some (_, marker, f), b1) \<Rightarrow> (Ok (), b1, snd (hold marker f now sh))))"

definition attachment_id :: "uuid \<Rightarrow> nat \<Rightarrow> uuid" where
  "attachment_id mail position = mail XOR (of_nat position + 1)"

definition input_of :: "uuid \<Rightarrow> NewMail \<Rightarrow> NewMailInput" where
  "input_of agent m =
     \<lparr>new_mail_id = nm_id m, from_address = agent, new_author = nm_author m, new_source_conversation = nm_source m,
      new_subject = nm_subject m, new_body = nm_body m, new_to = nm_to m, new_cc = nm_cc m,
      new_attachments = map (\<lambda>(n, a). \<lparr>new_att_id = attachment_id (nm_id m) n, new_att_name = fst a,
        new_att_content_type = ''text/plain'', new_att_content = snd a\<rparr>) (enumerate 0 (nm_attachments m))\<rparr>"

definition send_begin :: "uuid \<Rightarrow> NewMail \<Rightarrow> Book \<Rightarrow> NewMailInput option \<times> Book" where
  "send_begin agent m b =
     (let (first, i) = take_mail (nm_id m) (inbox b) in
      ((if first then Some (input_of agent m) else None), b\<lparr>inbox := i\<rparr>))"

definition inbox_send ::
  "InboxLib \<Rightarrow> NodeShared \<Rightarrow> (unit, PortError) result \<Rightarrow> uuid \<Rightarrow> NewMail \<Rightarrow> instant \<Rightarrow> Book \<Rightarrow> Shared \<Rightarrow>
   (unit, PortError) result \<times> Book \<times> Shared" where
  "inbox_send lib ns found agent m now b sh =
     (case il_refusal lib m of
        Some why \<Rightarrow> (Err (PeRefused why), b, sh)
      | None \<Rightarrow>
          (case port_resolve ns found agent b of
             Inl e \<Rightarrow> (Err e, b, sh)
           | Inr _ \<Rightarrow>
               (case send_begin agent m b of
                  (None, b1) \<Rightarrow> (Ok (), b1, sh)
                | (Some input, b1) \<Rightarrow> (Ok (), b1, snd (hand_over (WMail input) now sh)))))"

definition from_jobs :: "Error \<Rightarrow> PortError" where
  "from_jobs e =
     (case e of
        Refused r \<Rightarrow> if reason_eq (reason r) MailNotYours then PeRefused (message r) else PeFault (FaultJobs e)
      | _ \<Rightarrow> PeFault (FaultJobs e))"

text \<open>
  The read of a mail and what \<open>try_join_all\<close> gives for its attachments are inputs; \<open>others\<close> is what
  happened to the book until they answered. A document is its name and the bytes of its content.
\<close>

definition inbox_documents ::
  "NodeShared \<Rightarrow> (unit, PortError) result \<Rightarrow> uuid \<Rightarrow> uuid \<Rightarrow> (Mail, Error) result \<Rightarrow>
   (MailAttachment list \<Rightarrow> (ContentAttachment list, Error) result) \<Rightarrow> (Book \<Rightarrow> Book) \<Rightarrow> Book \<Rightarrow>
   ((string \<times> string) list, PortError) result \<times> Book" where
  "inbox_documents ns found agent m read fetch others b =
     (case port_resolve ns found agent b of
        Inl e \<Rightarrow> (Err e, b)
      | Inr _ \<Rightarrow>
          (let b1 = others b in
           case read of
             Inl e \<Rightarrow> (Err (from_jobs e), b1)
           | Inr mail \<Rightarrow>
               if agent \<notin> set (mail_to mail) then (Err (PeRefused ''the agent is not a recipient in to of this mail''), b1)
               else
                 (case fetch (mail_attachments mail) of
                    Inl e \<Rightarrow> (Err (from_jobs e), b1)
                  | Inr fetched \<Rightarrow>
                      (Ok (map (\<lambda>a. (att_name a, att_content a)) fetched),
                       b1\<lparr>inbox := keep_recipients m \<lparr>rec_to = mail_to mail, rec_cc = mail_cc mail\<rparr> (inbox b1)\<rparr>))))"

end
