(* ===== verification/Inbox_Wait.thy ===== *)
theory Inbox_Wait
  imports Inbox_Port
begin

text \<open>
  The wait of an agent for an item of its inbox (\<open>adapter/inbox_port/waiting.rs\<close>), as the steps between
  its awaits: it looks whether its registration is still queued, else it reads what is unread, and when
  there is nothing it parks until a wake comes on the channel it subscribed to, its registration ends or
  the book is gone; then it takes all wakes that are there and looks again.
\<close>

section \<open>The steps of a wait\<close>

record WaitSt =
  wt_channel :: nat
  wt_taken :: nat
  wt_registration :: "WriteEnd option"
  wt_open :: bool
  wt_first :: bool

datatype WaitPhase = WtLook | WtReading | WtParked | WtReturned "(unit, PortError) result"

definition wait_subscribe :: "(nat \<Rightarrow> WriteResult oneshot) \<Rightarrow> uuid \<Rightarrow> Book \<Rightarrow> WaitSt \<times> Book" where
  "wait_subscribe chan agent b =
     (let (c, i) = inbox_watch agent (inbox b);
          queued = (if registration_queued chan agent b then agents_registration agent (agents b) else None)
      in (\<lparr>wt_channel = c, wt_taken = 0, wt_registration = queued, wt_open = (queued \<noteq> None), wt_first = True\<rparr>,
          b\<lparr>inbox := i\<rparr>))"

definition wait_begin ::
  "NodeShared \<Rightarrow> (unit, PortError) result \<Rightarrow> (nat \<Rightarrow> WriteResult oneshot) \<Rightarrow> uuid \<Rightarrow> Book \<Rightarrow> (WaitSt, PortError) result \<times> Book" where
  "wait_begin ns found chan agent b =
     (case port_resolve ns found agent b of
        Inl e \<Rightarrow> (Err e, b)
      | Inr _ \<Rightarrow> map_prod Ok id (wait_subscribe chan agent b))"

lemma wait_begin_booked: "wait_begin ns found chan agent b = (Ok st, b') \<Longrightarrow>
    agents_key_of agent (agents b) \<noteq> None \<and> wait_subscribe chan agent b = (st, b')"
  by (auto simp: wait_begin_def port_resolve_def holds_inbox_of_def map_prod_def split: sum.splits if_splits option.splits prod.splits)

text \<open>No item was found: the first time, an end of the feed that is kept is an error.\<close>

definition wait_nothing :: "Book \<Rightarrow> WaitSt \<Rightarrow> WaitPhase \<times> WaitSt" where
  "wait_nothing b st =
     ((case (wt_first st, arrival_state b) of
         (True, Some e) \<Rightarrow> WtReturned (Err (PeFault (FaultJobs e)))
       | _ \<Rightarrow> WtParked),
      st\<lparr>wt_first := False\<rparr>)"

text \<open>
  The registration is looked at twice, by the loop and by \<open>holds_an_item\<close>: \<open>chan\<close> and \<open>chan'\<close> are what
  the channels of the queue hold then. \<open>there\<close> is whether the wait still gets the book.
\<close>

definition wait_look ::
  "(nat \<Rightarrow> WriteResult oneshot) \<Rightarrow> (nat \<Rightarrow> WriteResult oneshot) \<Rightarrow> uuid \<Rightarrow> bool \<Rightarrow> Book \<Rightarrow> WaitSt \<Rightarrow> WaitPhase \<times> WaitSt" where
  "wait_look chan chan' agent there b st =
     (if \<not> there then (WtReturned (Err (PeFault (FaultJobs BookDropped))), st)
      else
        (let st1 = (if wt_open st \<and> \<not> registration_queued chan agent b then st\<lparr>wt_open := False\<rparr> else st) in
         if registration_queued chan' agent b then wait_nothing b st1 else (WtReading, st1)))"

definition wait_read :: "uuid \<Rightarrow> (UnreadItem list, Error) result \<Rightarrow> Book \<Rightarrow> WaitSt \<Rightarrow> WaitPhase \<times> WaitSt" where
  "wait_read agent answer b st =
     (case answer of
        Inl e \<Rightarrow> (WtReturned (Err (PeFault (FaultJobs e))), st)
      | Inr items \<Rightarrow>
          if leave_out_marked agent (inbox b) items \<noteq> [] then (WtReturned (Ok ()), st) else wait_nothing b st)"

fun wake_ended :: "Wake \<Rightarrow> PortError option" where
  "wake_ended (WakeItem _) = None"
| "wake_ended (WakeFeedEnded e) = Some (PeFault (FaultJobs e))"
| "wake_ended WakeBookDropped = Some (PeFault (FaultJobs BookDropped))"

fun first_ended :: "Wake list \<Rightarrow> PortError option" where
  "first_ended [] = None"
| "first_ended (w # ws) = (case wake_ended w of Some e \<Rightarrow> Some e | None \<Rightarrow> first_ended ws)"

definition new_wakes :: "Book \<Rightarrow> WaitSt \<Rightarrow> Wake list" where
  "new_wakes b st = drop (wt_taken st) (sent (inbox b) (wt_channel st))"

text \<open>Which branches of the select are ready; \<open>alive\<close> is whether someone else holds the book.\<close>

definition wake_is_there :: "bool \<Rightarrow> Book \<Rightarrow> WaitSt \<Rightarrow> bool" where
  "wake_is_there alive b st \<longleftrightarrow> new_wakes b st \<noteq> [] \<or> \<not> alive"

definition registration_ended :: "(nat \<Rightarrow> WriteResult oneshot) \<Rightarrow> WaitSt \<Rightarrow> bool" where
  "registration_ended chan st \<longleftrightarrow>
     wt_open st \<and> (case wt_registration st of Some r \<Rightarrow> write_end_poll chan r \<noteq> None | None \<Rightarrow> False)"

text \<open>A branch was taken (\<open>by_end\<close>: that of the registration), and then all wakes that are there.\<close>

definition wait_woken :: "bool \<Rightarrow> bool \<Rightarrow> Book \<Rightarrow> WaitSt \<Rightarrow> WaitPhase \<times> WaitSt" where
  "wait_woken by_end alive b st =
     (let st1 = (if by_end then st\<lparr>wt_open := False\<rparr> else st) in
      (case first_ended (new_wakes b st @ (if alive then [] else [WakeBookDropped])) of
         Some e \<Rightarrow> WtReturned (Err e)
       | None \<Rightarrow> WtLook,
       st1\<lparr>wt_taken := wt_taken st + length (new_wakes b st)\<rparr>))"

section \<open>The system of a wait and the others\<close>

text \<open>
  \<open>ww_events\<close> are the events of the book since the subscription, \<open>ww_seen\<close> how many of them there were
  when the last look began, and \<open>ww_asked\<close> is whether that look asked jobs; only statements read them.
\<close>

record WaitSys =
  ww_book :: Book
  ww_chan :: "nat \<Rightarrow> WriteResult oneshot"
  ww_alive :: bool
  ww_st :: WaitSt
  ww_phase :: WaitPhase
  ww_events :: "BookEvent list"
  ww_seen :: nat
  ww_asked :: bool

definition chan_grows :: "(nat \<Rightarrow> WriteResult oneshot) \<Rightarrow> (nat \<Rightarrow> WriteResult oneshot) \<Rightarrow> bool" where
  "chan_grows chan chan' \<longleftrightarrow> (\<forall>n. chan n \<noteq> Open \<longrightarrow> chan' n = chan n)"

datatype WaitEvent = WeBook BookEvent | WeQueue | WeDropped | WeLook | WeRead "(UnreadItem list, Error) result" | WeWake bool

inductive wait_step :: "uuid \<Rightarrow> WaitSys \<Rightarrow> WaitEvent \<Rightarrow> WaitSys \<Rightarrow> bool" for agent where
  w_book: "ww_alive s \<Longrightarrow> book_step (ww_book s, sh) e (b', sh') \<Longrightarrow> e \<noteq> BDropWatch (wt_channel (ww_st s)) \<Longrightarrow>
    wait_step agent s (WeBook e) (s\<lparr>ww_book := b', ww_events := ww_events s @ [e]\<rparr>)"
| w_queue: "chan_grows (ww_chan s) chan' \<Longrightarrow> wait_step agent s WeQueue (s\<lparr>ww_chan := chan'\<rparr>)"
| w_dropped: "wait_step agent s WeDropped (s\<lparr>ww_alive := False\<rparr>)"
| w_look: "ww_phase s = WtLook \<Longrightarrow> chan_grows (ww_chan s) chan' \<Longrightarrow>
    wait_look (ww_chan s) chan' agent (wt_first (ww_st s) \<or> ww_alive s) (ww_book s) (ww_st s) = (p, st) \<Longrightarrow>
    wait_step agent s WeLook (s\<lparr>ww_chan := chan', ww_phase := p, ww_st := st, ww_seen := length (ww_events s), ww_asked := (p = WtReading)\<rparr>)"
| w_read: "ww_phase s = WtReading \<Longrightarrow> wait_read agent answer (ww_book s) (ww_st s) = (p, st) \<Longrightarrow>
    wait_step agent s (WeRead answer) (s\<lparr>ww_phase := p, ww_st := st\<rparr>)"
| w_wake: "ww_phase s = WtParked \<Longrightarrow>
    (if by_end then registration_ended (ww_chan s) (ww_st s) else wake_is_there (ww_alive s) (ww_book s) (ww_st s)) \<Longrightarrow>
    wait_woken by_end (ww_alive s) (ww_book s) (ww_st s) = (p, st) \<Longrightarrow>
    wait_step agent s (WeWake by_end) (s\<lparr>ww_phase := p, ww_st := st\<rparr>)"

text \<open>
  A wait starts on a book whose channels are as it made them, for an agent that the book has; that is
  what the resolving of the call found.
\<close>

definition wait_start :: "uuid \<Rightarrow> WaitSys \<Rightarrow> bool" where
  "wait_start agent s \<longleftrightarrow>
     (\<exists>b chan. agents_ok (agents b) \<and> end_reach (book_ends b) \<and> inbox_ok (inbox b) \<and>
        sent (inbox b) (next_channel (inbox b)) = [] \<and> next_channel (inbox b) \<notin> closed (inbox b) \<and>
        agents_key_of agent (agents b) \<noteq> None \<and>
        s = \<lparr>ww_book = snd (wait_subscribe chan agent b), ww_chan = chan, ww_alive = True, ww_st = fst (wait_subscribe chan agent b),
             ww_phase = WtLook, ww_events = [], ww_seen = 0, ww_asked = False\<rparr>)"

definition wakes_of :: "uuid \<Rightarrow> BookEvent list \<Rightarrow> Wake list" where
  "wakes_of agent es = concat (map (wakes_for agent) es)"

definition wait_inv :: "uuid \<Rightarrow> WaitSys \<Rightarrow> bool" where
  "wait_inv agent s \<longleftrightarrow>
     book_inv (ww_book s, shared_new) \<and> by_id (agents (ww_book s)) agent \<noteq> None \<and>
     inbox_ok (inbox (ww_book s)) \<and> (agent, wt_channel (ww_st s)) \<in> set (watchers (inbox (ww_book s))) \<and>
     wt_channel (ww_st s) \<notin> closed (inbox (ww_book s)) \<and>
     sent (inbox (ww_book s)) (wt_channel (ww_st s)) = wakes_of agent (ww_events s) \<and>
     ww_seen s \<le> length (ww_events s) \<and>
     wt_taken (ww_st s) \<le> length (wakes_of agent (ww_events s)) \<and>
     (ww_phase s \<noteq> WtLook \<longrightarrow> (\<forall>r. ww_phase s \<noteq> WtReturned r) \<longrightarrow>
        wt_taken (ww_st s) \<le> length (wakes_of agent (take (ww_seen s) (ww_events s)))) \<and>
     (registration_queued (ww_chan s) agent (ww_book s) \<longrightarrow>
        wt_open (ww_st s) \<and> wt_registration (ww_st s) = agents_registration agent (agents (ww_book s))) \<and>
     (ww_phase s = WtParked \<and> \<not> ww_asked s \<longrightarrow>
        wt_open (ww_st s) \<and> wt_registration (ww_st s) = agents_registration agent (agents (ww_book s)) \<and>
        \<not> is_restored agent (agents (ww_book s)) \<and> agents_registration agent (agents (ww_book s)) \<noteq> None)"

lemma agent_for_keeps:
  assumes "agents_ok (agents b)" and "by_id (agents b) fresh = None" and "by_id (agents b) agent \<noteq> None"
    and "agent_for key i fresh now b sh = (ref, b', sh')"
  shows "by_id (agents b') agent \<noteq> None \<and> agents_registration agent (agents b') = agents_registration agent (agents b) \<and>
    is_restored agent (agents b') = is_restored agent (agents b)"
proof (cases "by_key (agents b) key")
  case None
  then have "\<exists>e. agents b' = snd (agents_add key fresh i e (agents b))"
    using assms(4) by (auto simp: agent_for_def agents_find_def book_register_def agents_add_def Let_def split: prod.splits)
  then obtain e where e: "agents b' = snd (agents_add key fresh i e (agents b))" by blast
  obtain k where k: "by_id (agents b) agent = Some k" using assms(3) by blast
  then have "by_key (agents b) k \<noteq> None" using assms(1) unfolding agents_ok_def by auto
  then have "k \<noteq> key" using None by auto
  moreover have "agent \<noteq> fresh" using assms(2,3) by auto
  ultimately show ?thesis using k
    by (simp add: e agents_add_def agents_registration_def slot_of_def is_restored_def Let_def)
qed (use assms in \<open>auto simp: agent_for_def agents_find_def\<close>)

lemma book_step_keeps:
  assumes "book_step s e t" and "book_inv s" and "by_id (agents (fst s)) agent \<noteq> None"
  shows "by_id (agents (fst t)) agent \<noteq> None \<and>
    agents_registration agent (agents (fst t)) = agents_registration agent (agents (fst s)) \<and>
    is_restored agent (agents (fst t)) = is_restored agent (agents (fst s))"
  using assms
proof (induction rule: book_step.induct)
  case (b_agent_for b fresh key i now sh ref b' sh')
  then show ?case using agent_for_keeps [of b fresh agent key i now sh ref b' sh'] by (simp add: book_inv_def)
next
  case (b_arrival b sh a)
  then show ?case by (cases a) (auto simp: book_arrival_def split: option.split)
qed (simp_all add: arrival_ended_def arrival_open_again_def Let_def)

lemma chan_grows_poll: "chan_grows chan chan' \<Longrightarrow> write_end_poll chan r \<noteq> None \<Longrightarrow> write_end_poll chan' r \<noteq> None"
  by (cases r) (auto simp: chan_grows_def split: oneshot.splits)

lemma chan_grows_queued: "chan_grows chan chan' \<Longrightarrow> registration_queued chan' agent b \<Longrightarrow> registration_queued chan agent b"
  using chan_grows_poll [of chan chan'] by (fastforce simp: registration_queued_def split: if_splits option.splits)

lemma wait_nothing_st: "wait_nothing b st = (p, st') \<Longrightarrow> st' = st\<lparr>wt_first := False\<rparr> \<and> p \<noteq> WtLook \<and> p \<noteq> WtReading"
  by (auto simp: wait_nothing_def split: prod.splits bool.splits option.splits)

section \<open>No wake-up is lost\<close>

lemma wakes_of_take: "length (wakes_of agent (take n es)) \<le> length (wakes_of agent es)"
proof -
  have "wakes_of agent es = wakes_of agent (take n es) @ wakes_of agent (drop n es)"
    unfolding wakes_of_def by (metis append_take_drop_id concat_append map_append)
  then show ?thesis by simp
qed

lemma inv_start:
  assumes "wait_start agent s"
  shows "wait_inv agent s"
proof -
  obtain b chan where b: "agents_ok (agents b)" "end_reach (book_ends b)" "inbox_ok (inbox b)"
      "sent (inbox b) (next_channel (inbox b)) = []" "next_channel (inbox b) \<notin> closed (inbox b)" "by_id (agents b) agent \<noteq> None"
    and s: "s = \<lparr>ww_book = snd (wait_subscribe chan agent b), ww_chan = chan, ww_alive = True, ww_st = fst (wait_subscribe chan agent b),
       ww_phase = WtLook, ww_events = [], ww_seen = 0, ww_asked = False\<rparr>"
    using assms by (auto simp: wait_start_def agents_key_of_def)
  have "inbox_ok (snd (inbox_watch agent (inbox b)))" using inbox_event_ok [OF b(3), of "BWatch agent"] by simp
  moreover have "registration_queued chan agent b \<Longrightarrow> agents_registration agent (agents b) \<noteq> None"
    by (auto simp: registration_queued_def split: if_splits option.splits)
  ultimately show ?thesis using b
    by (simp add: wait_inv_def s wait_subscribe_def inbox_watch_def book_inv_def wakes_of_def registration_queued_def)
qed

lemma inv_book:
  assumes inv: "wait_inv agent s" and st: "book_step (ww_book s, sh) e (b', sh')" and e: "e \<noteq> BDropWatch (wt_channel (ww_st s))"
  shows "wait_inv agent (s\<lparr>ww_book := b', ww_events := ww_events s @ [e]\<rparr>)"
proof -
  have bi: "book_inv (ww_book s, sh)" and id: "by_id (agents (ww_book s)) agent \<noteq> None"
    and w: "inbox_ok (inbox (ww_book s))" "(agent, wt_channel (ww_st s)) \<in> set (watchers (inbox (ww_book s)))"
      "wt_channel (ww_st s) \<notin> closed (inbox (ww_book s))"
    using inv by (simp_all add: wait_inv_def book_inv_def)
  have i: "inbox b' = inbox_event e (inbox (ww_book s))" using book_step_inbox [OF st bi] by simp
  note k = book_step_keeps [OF st bi, of agent, simplified, OF id [simplified]]
  have q: "registration_queued chan agent b' = registration_queued chan agent (ww_book s)" for chan
    using k by (simp add: registration_queued_def)
  have bi': "book_inv (b', shared_new)" using book_step_inv [OF st bi] by (simp add: book_inv_def)
  show ?thesis
    using inv inbox_event_watch [OF w e] inbox_event_ok [OF w(1), of e] k q bi'
    by (simp add: wait_inv_def i wakes_of_def)
qed

lemma inv_queue:
  assumes "wait_inv agent s" and "chan_grows (ww_chan s) chan'"
  shows "wait_inv agent (s\<lparr>ww_chan := chan'\<rparr>)"
  using assms chan_grows_queued [OF assms(2), of agent "ww_book s"] by (simp add: wait_inv_def)

lemma inv_look:
  assumes inv: "wait_inv agent s" and ph: "ww_phase s = WtLook" and g: "chan_grows (ww_chan s) chan'"
    and l: "wait_look (ww_chan s) chan' agent there (ww_book s) (ww_st s) = (p, st)"
  shows "wait_inv agent (s\<lparr>ww_chan := chan', ww_phase := p, ww_st := st, ww_seen := length (ww_events s), ww_asked := (p = WtReading)\<rparr>)"
proof -
  let ?q = "registration_queued (ww_chan s) agent (ww_book s)" and ?q' = "registration_queued chan' agent (ww_book s)"
  have qq: "?q' \<Longrightarrow> ?q" by (rule chan_grows_queued [OF g])
  have o: "?q \<Longrightarrow> wt_open (ww_st s) \<and> wt_registration (ww_st s) = agents_registration agent (agents (ww_book s))"
    using inv by (simp add: wait_inv_def)
  have st: "wt_channel st = wt_channel (ww_st s) \<and> wt_taken st = wt_taken (ww_st s) \<and> wt_registration st = wt_registration (ww_st s) \<and>
      (?q \<longrightarrow> wt_open st = wt_open (ww_st s)) \<and> (p = WtParked \<longrightarrow> ?q')"
    using l by (auto simp: wait_look_def Let_def split: if_splits dest!: wait_nothing_st)
  have r: "?q' \<Longrightarrow> \<not> is_restored agent (agents (ww_book s)) \<and> agents_registration agent (agents (ww_book s)) \<noteq> None"
    by (auto simp: registration_queued_def split: if_splits option.splits)
  show ?thesis using inv st o qq r by (simp add: wait_inv_def)
qed

lemma inv_read:
  assumes inv: "wait_inv agent s" and ph: "ww_phase s = WtReading" and a: "ww_asked s"
    and l: "wait_read agent answer (ww_book s) (ww_st s) = (p, st)"
  shows "wait_inv agent (s\<lparr>ww_phase := p, ww_st := st\<rparr>)"
proof -
  have st: "wt_channel st = wt_channel (ww_st s) \<and> wt_taken st = wt_taken (ww_st s) \<and> wt_registration st = wt_registration (ww_st s) \<and>
      wt_open st = wt_open (ww_st s) \<and> p \<noteq> WtLook"
    using l by (auto simp: wait_read_def split: sum.splits if_splits dest!: wait_nothing_st)
  then show ?thesis using inv ph a by (simp add: wait_inv_def)
qed

lemma inv_wake:
  assumes inv: "wait_inv agent s" and ph: "ww_phase s = WtParked"
    and g: "by_end \<Longrightarrow> registration_ended (ww_chan s) (ww_st s)"
    and l: "wait_woken by_end alive (ww_book s) (ww_st s) = (p, st)"
  shows "wait_inv agent (s\<lparr>ww_phase := p, ww_st := st\<rparr>)"
proof -
  have nq: "by_end \<Longrightarrow> \<not> registration_queued (ww_chan s) agent (ww_book s)"
    using g inv by (auto simp: wait_inv_def registration_ended_def registration_queued_def split: option.splits if_splits)
  have st: "wt_channel st = wt_channel (ww_st s)" "wt_registration st = wt_registration (ww_st s)"
      "wt_open st = (wt_open (ww_st s) \<and> \<not> by_end)"
      "wt_taken st = wt_taken (ww_st s) + length (new_wakes (ww_book s) (ww_st s))" "p = WtLook \<or> (\<exists>r. p = WtReturned r)"
    using l by (auto simp: wait_woken_def Let_def split: if_splits option.splits)
  have "wt_taken st \<le> length (wakes_of agent (ww_events s))"
    using inv by (simp add: st(4) new_wakes_def wait_inv_def)
  then show ?thesis using inv st nq by (auto simp: wait_inv_def)
qed

definition wait_sys_inv :: "uuid \<Rightarrow> WaitSys \<Rightarrow> bool" where
  "wait_sys_inv agent s \<longleftrightarrow> wait_inv agent s \<and> (ww_phase s = WtReading \<longrightarrow> ww_asked s)"

interpretation inbox_wait: invariant_system "wait_start agent" "wait_step agent" "wait_sys_inv agent" for agent
proof
  show "wait_sys_inv agent s" if "wait_start agent s" for s
    using inv_start [OF that] that by (auto simp: wait_sys_inv_def wait_start_def)
  show "wait_sys_inv agent t" if "wait_step agent s e t" and inv: "wait_sys_inv agent s" for s e t
  proof -
    have i: "wait_inv agent s" and a: "ww_phase s = WtReading \<Longrightarrow> ww_asked s" using inv by (simp_all add: wait_sys_inv_def)
    from that(1) show ?thesis
    proof cases
      case w_book
      then show ?thesis using inv_book [OF i w_book(4,5)] a by (simp add: wait_sys_inv_def)
    next
      case w_queue
      then show ?thesis using inv_queue [OF i w_queue(3)] a by (simp add: wait_sys_inv_def)
    next
      case w_dropped
      then show ?thesis using i a by (simp add: wait_sys_inv_def wait_inv_def)
    next
      case w_look
      then show ?thesis using inv_look [OF i w_look(3-5)] by (simp add: wait_sys_inv_def)
    next
      case w_read
      then show ?thesis using inv_read [OF i w_read(3) a w_read(4)] a by (simp add: wait_sys_inv_def)
    next
      case (w_wake by_end p st)
      then have "by_end \<Longrightarrow> registration_ended (ww_chan s) (ww_st s)" by simp
      moreover have "p \<noteq> WtReading" using w_wake(5) by (auto simp: wait_woken_def Let_def split: option.splits)
      ultimately show ?thesis using inv_wake [OF i w_wake(3) _ w_wake(5)] w_wake(2) by (simp add: wait_sys_inv_def)
    qed
  qed
qed

text \<open>
  C14: a wait for an item of an inbox loses no wake-up. Whatever happens to the book, to the queue and to the
  other holders of the book, when the wait is parked and no branch of its select is ready, then someone
  else still holds the book, nothing came for the agent since the last look of the wait began, neither an
  item nor an end of the feed, and that look either read what jobs had or the registration of the agent is
  still queued.
\<close>
theorem inbox_wait_no_lost_wakeup:
  assumes "reach (wait_start agent) (wait_step agent) s" and "ww_phase s = WtParked"
    and "\<not> wake_is_there (ww_alive s) (ww_book s) (ww_st s)" and "\<not> registration_ended (ww_chan s) (ww_st s)"
  shows "ww_alive s \<and> concat (map (wakes_for agent) (drop (ww_seen s) (ww_events s))) = [] \<and>
    (ww_asked s \<or> registration_queued (ww_chan s) agent (ww_book s))"
proof -
  have i: "wait_inv agent s" using inbox_wait.inv_reach [OF assms(1)] by (simp add: wait_sys_inv_def)
  let ?es = "ww_events s" and ?n = "ww_seen s"
  have w: "wakes_of agent ?es = wakes_of agent (take ?n ?es) @ wakes_of agent (drop ?n ?es)"
    unfolding wakes_of_def by (metis append_take_drop_id concat_append map_append)
  have "new_wakes (ww_book s) (ww_st s) = []" and alive: "ww_alive s" using assms(3) by (simp_all add: wake_is_there_def)
  then have "length (wakes_of agent ?es) \<le> wt_taken (ww_st s)" using i by (simp add: new_wakes_def wait_inv_def)
  moreover have "wt_taken (ww_st s) \<le> length (wakes_of agent (take ?n ?es))" using i assms(2) by (simp add: wait_inv_def)
  ultimately have "length (wakes_of agent (drop ?n ?es)) = 0" using arg_cong [OF w, of length] unfolding length_append by linarith
  then have "wakes_of agent (drop ?n ?es) = []" by simp
  moreover have "ww_asked s \<or> registration_queued (ww_chan s) agent (ww_book s)"
    using i assms(2,4) by (auto simp: wait_inv_def registration_queued_def registration_ended_def)
  ultimately show ?thesis using alive by (simp add: wakes_of_def)
qed

text \<open>A wait that asks jobs, finds nothing and parks.\<close>

definition wait_book :: Book where
  "wait_book = (book_new 1 True)\<lparr>agents := snd (agents_add demo_key 7 True (EndedWith (Ok ())) agents_default)\<rparr>"

definition wait_parked :: WaitSys where
  "wait_parked = \<lparr>ww_book = snd (wait_subscribe (\<lambda>_. Open) 7 wait_book), ww_chan = (\<lambda>_. Open), ww_alive = True,
     ww_st = \<lparr>wt_channel = 0, wt_taken = 0, wt_registration = None, wt_open = False, wt_first = False\<rparr>,
     ww_phase = WtParked, ww_events = [], ww_seen = 0, ww_asked = True\<rparr>"

lemmas wait_demo_defs = wait_subscribe_def wait_book_def book_new_def agents_add_def agents_default_def registration_queued_def
  is_restored_def agents_registration_def slot_of_def inbox_watch_def inbox_default_def

lemma wait_parked_reach: "reach (wait_start 7) (wait_step 7) wait_parked"
proof -
  let ?b = "snd (wait_subscribe (\<lambda>_. Open) 7 wait_book)" and ?st = "fst (wait_subscribe (\<lambda>_. Open) 7 wait_book)"
  let ?s0 = "\<lparr>ww_book = ?b, ww_chan = (\<lambda>_. Open), ww_alive = True, ww_st = ?st, ww_phase = WtLook, ww_events = [], ww_seen = 0,
    ww_asked = False\<rparr>"
  have ok: "agents_ok (agents wait_book)" unfolding wait_book_def
    using agents_ok_add [OF agents_ok_default, of demo_key 7 True "EndedWith (Ok ())"] by (simp add: agents_default_def)
  have "end_reach (book_ends wait_book)"
    by (simp add: wait_book_def book_new_def reach_init)
  with ok have "wait_start 7 ?s0"
    unfolding wait_start_def
    by (intro exI [of _ wait_book] exI [of _ "\<lambda>_. Open"])
      (simp add: inbox_ok_def agents_key_of_def, simp add: wait_book_def book_new_def inbox_default_def agents_add_def Let_def)
  then have r0: "reach (wait_start 7) (wait_step 7) ?s0" by (rule reach_init)
  have "wait_step 7 ?s0 WeLook (?s0\<lparr>ww_phase := WtReading, ww_asked := True\<rparr>)"
    using w_look [of ?s0 "\<lambda>_. Open" 7 WtReading ?st]
    by (simp add: chan_grows_def wait_look_def wait_demo_defs Let_def)
  with r0 have r1: "reach (wait_start 7) (wait_step 7) (?s0\<lparr>ww_phase := WtReading, ww_asked := True\<rparr>)" by (rule reach_step)
  have "wait_step 7 (?s0\<lparr>ww_phase := WtReading, ww_asked := True\<rparr>) (WeRead (Ok [])) wait_parked"
    using w_read [of "?s0\<lparr>ww_phase := WtReading, ww_asked := True\<rparr>" 7 "Ok []" WtParked "?st\<lparr>wt_first := False\<rparr>"]
    by (simp add: wait_parked_def wait_read_def leave_out_marked_def wait_nothing_def arrival_state_def ends_kept_def
        wait_demo_defs end_sys_new_def end_store_new_def Let_def)
  with r1 show ?thesis by (rule reach_step)
qed

theorem inbox_wait_no_lost_wakeup_witness:
  "ww_phase wait_parked = WtParked \<and> ww_alive wait_parked \<and> ww_asked wait_parked \<and>
   \<not> wake_is_there (ww_alive wait_parked) (ww_book wait_parked) (ww_st wait_parked)"
proof -
  have n: "\<not> wake_is_there (ww_alive wait_parked) (ww_book wait_parked) (ww_st wait_parked)"
    "\<not> registration_ended (ww_chan wait_parked) (ww_st wait_parked)" "ww_phase wait_parked = WtParked"
    by (simp_all add: wait_parked_def wake_is_there_def new_wakes_def registration_ended_def wait_demo_defs Let_def)
  from inbox_wait_no_lost_wakeup [OF wait_parked_reach n(3,1,2)] n show ?thesis by (simp add: wait_parked_def)
qed

end
