(* ===== verification/Inbox_Correct.thy ===== *)
theory Inbox_Correct
  imports Inbox_Port
begin

text \<open>
  What the inbox port promises to the agent: a listing that is walked by its cursors gives every item
  once, and the marks, the mails and the ids of attachments are unique.
\<close>

section \<open>One page\<close>

text \<open>What others may do to the book while an agent walks its listing: anything but list it too.\<close>

definition steady_to :: "uuid \<Rightarrow> Book \<Rightarrow> Book \<Rightarrow> bool" where
  "steady_to agent b b' \<longleftrightarrow>
     inbox_snapshot agent (inbox b') = inbox_snapshot agent (inbox b) \<and>
     marked_items agent (inbox b) \<subseteq> marked_items agent (inbox b') \<and>
     is_restored agent (agents b') = is_restored agent (agents b) \<and>
     agents_registration agent (agents b') = agents_registration agent (agents b)"

definition steady :: "uuid \<Rightarrow> (Book \<Rightarrow> Book) \<Rightarrow> bool" where
  "steady agent f \<longleftrightarrow> (\<forall>b. steady_to agent b (f b))"

definition world_steady :: "uuid \<Rightarrow> ItemsWorld \<Rightarrow> bool" where
  "world_steady agent w \<longleftrightarrow> steady agent (iw_others w) \<and> (\<forall>p \<in> set (iw_polls w). steady agent (snd (snd p)))"

lemma steady_to_refl [simp]: "steady_to agent b b"
  by (simp add: steady_to_def)

lemma steady_to_trans: "steady_to agent a b \<Longrightarrow> steady_to agent b c \<Longrightarrow> steady_to agent a c"
  by (auto simp: steady_to_def)

lemma steady_queued: "steady_to agent b b' \<Longrightarrow> registration_queued chan agent b' = registration_queued chan agent b"
  by (simp add: steady_to_def registration_queued_def)

lemma queued_inbox: "registration_queued chan agent (b\<lparr>inbox := i\<rparr>) = registration_queued chan agent b"
  by (simp add: registration_queued_def)

lemma steady_kept: "steady_to agent b (b\<lparr>inbox := keep_recipients m r (inbox b)\<rparr>)"
  by (simp add: steady_to_def keep_recipients_def inbox_snapshot_def marked_items_def)

definition shown_as :: "InboxLib \<Rightarrow> uuid \<Rightarrow> UnreadItem \<Rightarrow> InboxItem \<Rightarrow> bool" where
  "shown_as lib agent u item \<longleftrightarrow> (\<exists>r c. convert_with lib agent r u = Ok c \<and> cv_item c = item)"

definition done_as :: "InboxLib \<Rightarrow> uuid \<Rightarrow> UnreadItem \<Rightarrow> ConvertState \<Rightarrow> bool" where
  "done_as lib agent u st \<longleftrightarrow> (\<forall>c. st = CvDone (Ok c) \<longrightarrow> (\<exists>r. convert_with lib agent r u = Ok c))"

lemma convert_poll_done:
  assumes "convert_poll lib agent u answer st i = (st', i')" and "done_as lib agent u st"
  shows "done_as lib agent u st' \<and> (i' = i \<or> (\<exists>m r. i' = keep_recipients m r i))"
  using assms
  by (auto simp: convert_poll_def convert_read_def done_as_def Let_def split: ConvertState.splits option.splits sum.splits)

lemma convert_polls_steady:
  assumes "\<forall>p \<in> set ps. steady agent (snd (snd p))" and "list_all2 (done_as lib agent) us sts"
    and "convert_polls lib agent us ps sts b = (sts', b')"
  shows "list_all2 (done_as lib agent) us sts' \<and> steady_to agent b b'"
  using assms
proof (induction lib agent us ps sts b rule: convert_polls.induct)
  case (2 lib agent us n answer others ps sts b)
  let ?b1 = "others b"
  have s: "steady_to agent b ?b1" using "2.prems"(1) by (simp add: steady_def)
  show ?case
  proof (cases "n < length us \<and> n < length sts")
    case True
    obtain st i where p: "convert_poll lib agent (us ! n) answer (sts ! n) (inbox ?b1) = (st, i)"
      by (cases "convert_poll lib agent (us ! n) answer (sts ! n) (inbox ?b1)")
    let ?b2 = "?b1\<lparr>inbox := i\<rparr>"
    have d: "done_as lib agent (us ! n) (sts ! n)" using "2.prems"(2) True by (simp add: list_all2_conv_all_nth)
    note q = convert_poll_done [OF p d]
    have "list_all2 (done_as lib agent) (us[n := us ! n]) (sts[n := st])"
      using "2.prems"(2) q by (intro list_all2_update_cong) simp_all
    then have l: "list_all2 (done_as lib agent) us (sts[n := st])" by simp
    have "steady_to agent ?b1 ?b2"
    proof -
      from q consider "i = inbox ?b1" | m r where "i = keep_recipients m r (inbox ?b1)" by blast
      then show ?thesis by cases (simp_all add: steady_kept)
    qed
    with s have s2: "steady_to agent b ?b2" by (rule steady_to_trans)
    show ?thesis
    proof (cases "convert_failed st")
      case True
      with "2.prems"(3) p l s2 \<open>n < length us \<and> n < length sts\<close> show ?thesis by (auto simp: Let_def)
    next
      case False
      then have "convert_polls lib agent us ps (sts[n := st]) ?b2 = (sts', b')"
        using "2.prems"(3) p True by (simp add: Let_def)
      from "2.IH"(1) [OF refl True refl p [symmetric] refl refl False _ l this] "2.prems"(1)
      show ?thesis using steady_to_trans [OF s2] by auto
    qed
  next
    case False
    then have "convert_polls lib agent us ps sts ?b1 = (sts', b')" using "2.prems"(3) by (auto simp: Let_def)
    from "2.IH"(2) [OF refl False _ "2.prems"(2) this] "2.prems"(1) show ?thesis using steady_to_trans [OF s] by auto
  qed
qed auto

lemma convert_joined_ok: "convert_joined sts = Some (Ok cs) \<longleftrightarrow> sts = map (\<lambda>c. CvDone (Ok c)) cs"
proof (induction sts arbitrary: cs rule: convert_joined.induct)
  case (3 c sts)
  show ?case
  proof
    assume "convert_joined (CvDone (Inr c) # sts) = Some (Ok cs)"
    then obtain r where r: "convert_joined sts = Some r" "map_sum id ((#) c) r = Ok cs" by auto
    then obtain ds where "r = Ok ds" "cs = c # ds" by (auto simp: map_sum_Cons_ok)
    with r 3 show "CvDone (Inr c) # sts = map (\<lambda>c. CvDone (Ok c)) cs" by simp
  next
    assume a: "CvDone (Inr c) # sts = map (\<lambda>c. CvDone (Ok c)) cs"
    then obtain ds where "cs = c # ds" "sts = map (\<lambda>c. CvDone (Ok c)) ds" by (cases cs) auto
    with 3 [of ds] show "convert_joined (CvDone (Inr c) # sts) = Some (Ok cs)" by (auto intro: exI [of _ "Ok ds"])
  qed
qed (auto simp: Cons_eq_map_conv split: option.splits sum.splits)

lemma record_page_keeps: "inbox_snapshot a (record_page lib agent cs i) = inbox_snapshot a i \<and>
    marked_items a (record_page lib agent cs i) = marked_items a i"
  unfolding record_page_def
  by (induction cs arbitrary: i) (simp_all add: record_listed_def inbox_snapshot_def marked_items_def)

lemma settle_snapshot_eq:
  "inbox_snapshot agent (settle_snapshot agent g fresh i) =
     (if g then (case fresh of Some read \<Rightarrow> Some read | None \<Rightarrow> inbox_snapshot agent i) else None)"
  "marked_items agent (settle_snapshot agent g fresh i) = marked_items agent i"
  by (cases g; cases fresh; simp add: settle_snapshot_def keep_snapshot_def drop_snapshot_def inbox_snapshot_def marked_items_def)+

lemma items_page_ok:
  assumes p: "items_page lib agent limit rest fresh polls b = (Some (Ok batch), b')"
    and st: "\<forall>p \<in> set polls. steady agent (snd (snd p))"
  defines "left \<equiv> leave_out_marked agent (inbox b) rest"
  shows "list_all2 (shown_as lib agent) (take limit left) (batch_items batch)"
    and "batch_next batch = (if limit < length left \<and> take limit left \<noteq> [] then Some (il_show lib (item_id (last (take limit left)))) else None)"
    and "inbox_snapshot agent (inbox b') =
      (if batch_next batch = None then None else case fresh of Some read \<Rightarrow> Some read | None \<Rightarrow> inbox_snapshot agent (inbox b))"
    and "marked_items agent (inbox b) \<subseteq> marked_items agent (inbox b')"
    and "registration_queued chan agent b' = registration_queued chan agent b"
proof -
  obtain sts b1 where c: "convert_polls lib agent (take limit left) polls (replicate (length (take limit left)) CvNew) b = (sts, b1)"
    by (metis prod.exhaust)
  have "list_all2 (done_as lib agent) (take limit left) (replicate (length (take limit left)) CvNew)"
    by (simp add: list_all2_conv_all_nth done_as_def)
  note k = convert_polls_steady [OF st this c]
  obtain cs where cs: "convert_joined sts = Some (Ok cs)"
    and b: "batch_items batch = map cv_item cs"
    and n: "batch_next batch = (if limit < length left \<and> take limit left \<noteq> [] then Some (il_show lib (item_id (last (take limit left)))) else None)"
    and b': "b' = b1\<lparr>inbox := record_page lib agent cs (settle_snapshot agent (batch_next batch \<noteq> None) fresh (inbox b1))\<rparr>"
    using p c unfolding items_page_def Let_def left_def [symmetric] by (auto split: option.splits sum.splits)
  from cs have "sts = map (\<lambda>c. CvDone (Ok c)) cs" by (simp add: convert_joined_ok)
  with k have "list_all2 (\<lambda>u c. \<exists>r. convert_with lib agent r u = Ok c) (take limit left) cs"
    by (auto simp: list_all2_map2 done_as_def elim: list_all2_mono)
  then show "list_all2 (shown_as lib agent) (take limit left) (batch_items batch)"
    unfolding b list_all2_map2 shown_as_def by (rule list_all2_mono) blast
  show "batch_next batch = (if limit < length left \<and> take limit left \<noteq> [] then Some (il_show lib (item_id (last (take limit left)))) else None)"
    by (rule n)
  show "inbox_snapshot agent (inbox b') =
      (if batch_next batch = None then None else case fresh of Some read \<Rightarrow> Some read | None \<Rightarrow> inbox_snapshot agent (inbox b))"
    using k by (simp add: b' record_page_keeps settle_snapshot_eq steady_to_def split: option.split)
  show "marked_items agent (inbox b) \<subseteq> marked_items agent (inbox b')"
    using k by (simp add: b' record_page_keeps settle_snapshot_eq steady_to_def)
  show "registration_queued chan agent b' = registration_queued chan agent b"
    using k steady_queued [of agent b b1 chan] by (simp add: b' queued_inbox)
qed

section \<open>The walk of a listing\<close>

lemma distinct_subseq: "subseq xs ys \<Longrightarrow> distinct ys \<Longrightarrow> distinct xs"
  by (auto simp: subseq_conv_nths)

text \<open>
  A cursor that no snapshot knows is positioned in a fresh read, by the item it names or, when that
  item is gone, by its id: both give the later items when jobs lists in the order of the ids.
\<close>

lemma fresh_read_positions:
  assumes "sorted_wrt (<) (map item_id read)"
  shows "rest_of_read (Some a) read = later_than read a"
proof -
  have "after_item read a = Some rest \<Longrightarrow> rest = later_than read a" for rest
    using assms
  proof (induction read)
    case (Cons u us)
    then show ?case
    proof (cases "item_id u = a")
      case True
      then have "filter (\<lambda>u. a < item_id u) us = us" using Cons.prems(2) by (auto simp: filter_id_conv)
      with True Cons.prems(1) show ?thesis by (simp add: later_than_def)
    next
      case False
      then have r: "after_item us a = Some rest" using Cons.prems(1) by simp
      then have "\<exists>v \<in> set us. item_id v = a" by (induction us) (auto split: if_splits)
      then have "item_id u < a" using Cons.prems(2) by auto
      with Cons r show ?thesis by (simp add: later_than_def)
    qed
  qed simp
  then show ?thesis by (simp add: rest_of_read_def split: option.split)
qed

lemma after_item_suffix:
  assumes "distinct (map item_id (pre @ u # suf))"
  shows "after_item (pre @ u # suf) (item_id u) = Some suf"
  using assms by (induction pre) auto

lemma page_split:
  assumes "0 < limit" and "limit < length (filter U rest)"
  shows "\<exists>pre u suf. rest = pre @ u # suf \<and> U u \<and> take limit (filter U rest) = filter U pre @ [u]"
  using assms
proof (induction rest arbitrary: limit)
  case (Cons x rest)
  show ?case
  proof (cases "U x \<and> limit = 1")
    case True
    then show ?thesis by (intro exI [of _ "[]"] exI [of _ x] exI [of _ rest]) simp
  next
    case False
    define l where "l = (if U x then limit - 1 else limit)"
    have l: "0 < l" "l < length (filter U rest)" using False Cons.prems by (auto simp: l_def)
    from Cons.IH [OF l] obtain pre u suf
      where "rest = pre @ u # suf" "U u" "take l (filter U rest) = filter U pre @ [u]" by blast
    moreover have "take limit (filter U (x # rest)) = (if U x then [x] else []) @ take l (filter U rest)"
      using Cons.prems(1) by (cases limit) (auto simp: l_def)
    ultimately show ?thesis by (intro exI [of _ "x # pre"] exI [of _ u] exI [of _ suf]) simp
  qed
qed simp

text \<open>An item of a listing that the agent had not marked.\<close>

abbreviation unmarked :: "uuid \<Rightarrow> Book \<Rightarrow> UnreadItem \<Rightarrow> bool" where
  "unmarked agent b u \<equiv> item_id u \<notin> marked_items agent (inbox b)"

text \<open>What one call gives when \<open>rest\<close> is what is left of the listing \<open>read\<close>.\<close>

lemma items_call:
  assumes call: "inbox_items lib ns agent after limit w chan b = (Some (Ok batch), b')"
    and a: "parse_after lib after = Ok a" and q: "\<not> registration_queued chan agent b"
    and rest: "rest_of_listing agent a (iw_read w) (iw_others w) b = (Some (Ok (rest, fresh)), b1)"
    and fresh: "fresh = Some read \<or> fresh = None \<and> inbox_snapshot agent (inbox b1) = Some read"
    and s1: "steady_to agent b b1" and st: "world_steady agent w" and limit: "0 < limit"
  shows "\<exists>page. list_all2 (shown_as lib agent) page (batch_items batch) \<and>
    (\<forall>u \<in> set page. unmarked agent b u) \<and> marked_items agent (inbox b) \<subseteq> marked_items agent (inbox b') \<and>
    \<not> registration_queued chan agent b' \<and>
    (batch_next batch = None \<and> length page \<le> limit \<and> subseq page rest \<and> (\<forall>u \<in> set rest. unmarked agent b' u \<longrightarrow> u \<in> set page) \<or>
     inbox_snapshot agent (inbox b') = Some read \<and> length page = limit \<and> limit < length rest \<and>
     (\<exists>pre u suf. rest = pre @ u # suf \<and> subseq page (pre @ [u]) \<and> batch_next batch = Some (il_show lib (item_id u)) \<and>
        (\<forall>x \<in> set (pre @ [u]). unmarked agent b' x \<longrightarrow> x \<in> set page)))"
proof -
  define left where "left = leave_out_marked agent (inbox b1) rest"
  have left: "left = filter (unmarked agent b1) rest" by (simp add: left_def leave_out_marked_def)
  obtain y where "port_resolve ns (iw_found w) agent b = Ok y"
    using call by (cases "port_resolve ns (iw_found w) agent b") (auto simp: inbox_items_def)
  then have "items_page lib agent limit rest fresh (iw_polls w) b1 = (Some (Ok batch), b')"
    using call a q rest by (simp add: inbox_items_def)
  note p = items_page_ok [OF this, folded left_def] and pst = st [unfolded world_steady_def, THEN conjunct2]
  have m: "marked_items agent (inbox b) \<subseteq> marked_items agent (inbox b1)" using s1 by (simp add: steady_to_def)
  have q1: "\<not> registration_queued chan agent b'"
    using p(5) [OF pst, of chan] steady_queued [OF s1, of chan] q by simp
  have un: "\<forall>u \<in> set (take limit left). unmarked agent b u"
    using m by (auto simp: left dest!: in_set_takeD)
  have mono: "marked_items agent (inbox b) \<subseteq> marked_items agent (inbox b')" using m p(4) [OF pst] by blast
  show ?thesis
  proof (cases "limit < length left")
    case False
    then have "batch_next batch = None" "take limit left = left" using p(2) [OF pst] by simp_all
    moreover have "\<forall>u \<in> set rest. unmarked agent b' u \<longrightarrow> u \<in> set left" using p(4) [OF pst] by (auto simp: left)
    moreover have "subseq left rest" by (simp add: left)
    ultimately show ?thesis using p(1) [OF pst] un q1 mono False by (intro exI [of _ left]) simp
  next
    case True
    with page_split [OF limit, of "unmarked agent b1" rest] obtain pre u suf where r: "rest = pre @ u # suf"
      and pg: "take limit left = filter (unmarked agent b1) pre @ [u]" and "unmarked agent b1 u" unfolding left by blast
    have n: "batch_next batch = Some (il_show lib (item_id u))" using p(2) [OF pst] True pg by simp
    have "length (take limit left) = limit" using True by simp
    moreover have "limit < length rest" using True length_filter_le [of "unmarked agent b1" rest] unfolding left by linarith
    moreover have "inbox_snapshot agent (inbox b') = Some read" using p(3) [OF pst] n fresh by auto
    moreover have "subseq (take limit left) (pre @ [u])" unfolding pg by (intro list_emb_append_mono) simp_all
    moreover have "\<forall>x \<in> set (pre @ [u]). unmarked agent b' x \<longrightarrow> x \<in> set (take limit left)"
      using p(4) [OF pst] by (auto simp: pg)
    ultimately show ?thesis using p(1) [OF pst] un q1 mono r n
      by (intro exI [of _ "take limit left"] conjI disjI2 exI [of _ pre] exI [of _ u] exI [of _ suf])
  qed
qed

text \<open>
  An agent that walks its listing: the first call has no cursor, each further one has the cursor that
  the call before gave, until there is none or a call fails. Each call comes with what others did to
  the book since the one before.
\<close>

fun inbox_walk ::
  "InboxLib \<Rightarrow> NodeShared \<Rightarrow> uuid \<Rightarrow> nat \<Rightarrow> (nat \<Rightarrow> WriteResult oneshot) \<Rightarrow> ((Book \<Rightarrow> Book) \<times> ItemsWorld) list \<Rightarrow>
   string option \<Rightarrow> Book \<Rightarrow> InboxBatch list \<times> Book" where
  "inbox_walk lib ns agent limit chan [] after b = ([], b)"
| "inbox_walk lib ns agent limit chan ((f, w) # ws) after b =
     (case inbox_items lib ns agent after limit w chan (f b) of
        (Some (Inr batch), b1) \<Rightarrow>
          (case batch_next batch of
             None \<Rightarrow> ([batch], b1)
           | Some c \<Rightarrow> (let (bs, b2) = inbox_walk lib ns agent limit chan ws (Some c) b1 in (batch # bs, b2)))
      | (_, b1) \<Rightarrow> ([], b1))"

text \<open>The pages of a walk over what is left of a listing, and the book at its end.\<close>

definition walked :: "InboxLib \<Rightarrow> uuid \<Rightarrow> nat \<Rightarrow> Book \<Rightarrow> UnreadItem list \<Rightarrow> InboxBatch list \<Rightarrow> UnreadItem list list \<Rightarrow> Book \<Rightarrow> bool" where
  "walked lib agent limit b rest batches pages b' \<longleftrightarrow>
     list_all2 (\<lambda>page batch. list_all2 (shown_as lib agent) page (batch_items batch)) pages batches \<and>
     list_all (\<lambda>page. length page \<le> limit) pages \<and> list_all (\<lambda>page. length page = limit) (butlast pages) \<and>
     subseq (concat pages) rest \<and> list_all (unmarked agent b) (concat pages) \<and>
     (batches \<noteq> [] \<and> batch_next (last batches) = None \<longrightarrow> list_all (\<lambda>u. unmarked agent b' u \<longrightarrow> u \<in> set (concat pages)) rest \<and>
        marked_items agent (inbox b) \<subseteq> marked_items agent (inbox b')) \<and>
     (batches \<noteq> [] \<and> batch_next (last batches) \<noteq> None \<longrightarrow> length batches * limit < length rest)"

lemma walked_last:
  assumes "list_all2 (shown_as lib agent) page (batch_items batch)" and "\<forall>u \<in> set page. unmarked agent b u"
    and "marked_items agent (inbox b) \<subseteq> marked_items agent (inbox b')" and "batch_next batch = None"
    and "length page \<le> limit" and "subseq page rest" and "\<forall>u \<in> set rest. unmarked agent b' u \<longrightarrow> u \<in> set page"
  shows "walked lib agent limit b rest [batch] [page] b'"
  using assms by (simp add: walked_def list_all_iff)

lemma walked_Nil: "walked lib agent limit b rest [] [] b'"
  by (simp add: walked_def)

lemma walked_Cons:
  assumes w: "walked lib agent limit b1 suf batches pages b'"
    and sh: "list_all2 (shown_as lib agent) page (batch_items batch)" and un: "\<forall>u \<in> set page. unmarked agent b u"
    and m: "marked_items agent (inbox b) \<subseteq> marked_items agent (inbox b1)" and n: "batch_next batch \<noteq> None"
    and l: "length page = limit" and sub: "subseq page (pre @ [u])" and r: "rest = pre @ u # suf"
    and all: "\<forall>x \<in> set (pre @ [u]). unmarked agent b1 x \<longrightarrow> x \<in> set page" and less: "limit < length rest"
  shows "walked lib agent limit b rest (batch # batches) (page # pages) b'"
proof -
  have len: "length pages = length batches" using w by (auto simp: walked_def dest: list_all2_lengthD)
  have "subseq (page @ concat pages) ((pre @ [u]) @ suf)"
    using w sub by (intro list_emb_append_mono) (simp_all add: walked_def)
  then have s: "subseq (concat (page # pages)) rest" by (simp add: r)
  have u: "list_all (unmarked agent b) (concat (page # pages))" using w un m by (auto simp: walked_def list_all_iff)
  have pl: "limit \<le> length (pre @ [u])" using list_emb_length [OF sub] l by simp
  have c: "list_all (\<lambda>x. unmarked agent b' x \<longrightarrow> x \<in> set (concat (page # pages))) rest"
    if "batch_next (last (batch # batches)) = None"
    using that w all n by (cases "batches = []") (auto simp: walked_def list_all_iff r)
  have mono: "marked_items agent (inbox b) \<subseteq> marked_items agent (inbox b')"
    if "batch_next (last (batch # batches)) = None"
    using that w m n by (cases "batches = []") (auto simp: walked_def)
  have t: "length (batch # batches) * limit < length rest" if "batch_next (last (batch # batches)) \<noteq> None"
  proof (cases "batches = []")
    case True
    with less show ?thesis by simp
  next
    case False
    then have "length batches * limit < length suf" using that w by (simp add: walked_def)
    with pl show ?thesis by (simp add: r)
  qed
  show ?thesis
    using w sh s u c t l len mono by (cases pages) (auto simp: walked_def)
qed

lemma walk_call:
  assumes limit: "0 < limit" and st: "world_steady agent w" and s0: "steady_to agent b (f b)"
    and a: "parse_after lib after = Ok a" and q: "\<not> registration_queued chan agent b"
    and rest: "rest_of_listing agent a (iw_read w) (iw_others w) (f b) = (Some (Ok (rest, fresh)), b1)"
    and fresh: "fresh = Some read \<or> fresh = None \<and> inbox_snapshot agent (inbox b1) = Some read"
    and s1: "steady_to agent (f b) b1" and read: "read = before @ rest"
    and go_on: "\<And>b pre u suf batches b'. \<not> registration_queued chan agent b \<Longrightarrow> inbox_snapshot agent (inbox b) = Some read \<Longrightarrow>
      read = pre @ u # suf \<Longrightarrow> inbox_walk lib ns agent limit chan ws (Some (il_show lib (item_id u))) b = (batches, b') \<Longrightarrow>
      \<exists>pages. walked lib agent limit b suf batches pages b'"
    and walk: "inbox_walk lib ns agent limit chan ((f, w) # ws) after b = (batches, b')"
  shows "\<exists>pages. walked lib agent limit b rest batches pages b'"
proof -
  obtain r b2 where c: "inbox_items lib ns agent after limit w chan (f b) = (r, b2)" by (metis prod.exhaust)
  have m: "marked_items agent (inbox b) \<subseteq> marked_items agent (inbox (f b))" using s0 by (simp add: steady_to_def)
  show ?thesis
  proof (cases "\<exists>batch. r = Some (Ok batch)")
    case False
    then have "batches = []" using walk c by (auto split: option.splits sum.splits)
    then show ?thesis using walked_Nil by blast
  next
    case True
    then obtain batch where r: "r = Some (Ok batch)" by blast
    have "\<not> registration_queued chan agent (f b)" using q steady_queued [OF s0] by simp
    from items_call [OF c [unfolded r] a this rest fresh s1 st limit] obtain page
      where sh: "list_all2 (shown_as lib agent) page (batch_items batch)"
        and un: "\<forall>u \<in> set page. unmarked agent (f b) u" and m2: "marked_items agent (inbox (f b)) \<subseteq> marked_items agent (inbox b2)"
        and q2: "\<not> registration_queued chan agent b2"
        and e: "batch_next batch = None \<and> length page \<le> limit \<and> subseq page rest \<and> (\<forall>u \<in> set rest. unmarked agent b2 u \<longrightarrow> u \<in> set page) \<or>
           inbox_snapshot agent (inbox b2) = Some read \<and> length page = limit \<and> limit < length rest \<and>
           (\<exists>pre u suf. rest = pre @ u # suf \<and> subseq page (pre @ [u]) \<and> batch_next batch = Some (il_show lib (item_id u)) \<and>
             (\<forall>x \<in> set (pre @ [u]). unmarked agent b2 x \<longrightarrow> x \<in> set page))" by blast
    have un: "\<forall>u \<in> set page. unmarked agent b u" and m2: "marked_items agent (inbox b) \<subseteq> marked_items agent (inbox b2)"
      using un m m2 by auto
    from e show ?thesis
    proof (elim disjE conjE exE)
      assume l: "batch_next batch = None" "length page \<le> limit" "subseq page rest" "\<forall>u \<in> set rest. unmarked agent b2 u \<longrightarrow> u \<in> set page"
      then have "batches = [batch]" "b' = b2" using walk c r by simp_all
      with walked_last [OF sh un m2 l] show ?thesis by blast
    next
      fix pre u suf
      assume snap: "inbox_snapshot agent (inbox b2) = Some read" and len: "length page = limit" "limit < length rest"
        and rs: "rest = pre @ u # suf" and sub: "subseq page (pre @ [u])" and n: "batch_next batch = Some (il_show lib (item_id u))"
        and al: "\<forall>x \<in> set (pre @ [u]). unmarked agent b2 x \<longrightarrow> x \<in> set page"
      obtain bs b3 where wk: "inbox_walk lib ns agent limit chan ws (Some (il_show lib (item_id u))) b2 = (bs, b3)"
        by (metis prod.exhaust)
      have bb: "batches = batch # bs" "b' = b3" using walk c r n wk by simp_all
      have "read = (before @ pre) @ u # suf" by (simp add: read rs)
      from go_on [OF q2 snap this wk] obtain pages where "walked lib agent limit b2 suf bs pages b3" by blast
      from walked_Cons [OF this sh un m2 _ len(1) sub rs al len(2)] n bb show ?thesis by auto
    qed
  qed
qed

lemma walk_from_cursor:
  assumes "\<forall>u. il_parse lib (il_show lib u) = Some u" and "0 < limit" and "distinct (map item_id read)"
    and "\<forall>(f, w) \<in> set ws. steady agent f \<and> world_steady agent w"
    and "\<not> registration_queued chan agent b" and "inbox_snapshot agent (inbox b) = Some read"
    and "read = pre @ u # suf" and "inbox_walk lib ns agent limit chan ws (Some (il_show lib (item_id u))) b = (batches, b')"
  shows "\<exists>pages. walked lib agent limit b suf batches pages b'"
  using assms(4-8)
proof (induction ws arbitrary: b pre u suf batches b')
  case Nil
  then show ?case by (auto intro: exI [of _ "[]"] walked_Nil)
next
  case (Cons x ws)
  obtain f w where x: "x = (f, w)" by (cases x)
  have s: "steady_to agent b (f b)" and st: "world_steady agent w"
    using Cons.prems(1) by (simp_all add: x steady_def)
  have snap: "inbox_snapshot agent (inbox (f b)) = Some read" using Cons.prems(3) s by (simp add: steady_to_def)
  have a: "parse_after lib (Some (il_show lib (item_id u))) = Ok (Some (item_id u))"
    using assms(1) by (simp add: parse_after_def parse_cursor_def)
  have "after_item read (item_id u) = Some suf" using after_item_suffix assms(3) Cons.prems(4) by simp
  then have rest: "rest_of_listing agent (Some (item_id u)) (iw_read w) (iw_others w) (f b) = (Some (Ok (suf, None)), f b)"
    using snap by (simp add: rest_of_listing_def kept_rest_def)
  have rd: "read = (pre @ [u]) @ suf" using Cons.prems(4) by simp
  have ih: "\<And>b pre u suf batches b'. \<not> registration_queued chan agent b \<Longrightarrow> inbox_snapshot agent (inbox b) = Some read \<Longrightarrow>
      read = pre @ u # suf \<Longrightarrow> inbox_walk lib ns agent limit chan ws (Some (il_show lib (item_id u))) b = (batches, b') \<Longrightarrow>
      \<exists>pages. walked lib agent limit b suf batches pages b'"
    using Cons.IH Cons.prems(1) by simp
  show ?case
    by (rule walk_call [OF assms(2) st s a Cons.prems(2) rest disjI2 [OF conjI [OF refl snap]] steady_to_refl rd ih Cons.prems(5) [unfolded x]])
qed

text \<open>
  C8: an agent walks its listing by the cursors it is given, in pages of at most \<open>limit\<close> items, while others
  may do anything to its book but list for that agent, and mark items meanwhile. The first call reads the
  listing from jobs. Then the pages show items of that read in its order, none twice (the ids of the read
  are distinct) and none that was marked before; every page that has a next one is full; a walk that came
  to its end has shown every item that is not marked at its end; and one that did not has shown fewer items
  than were read, so the walk comes to its end after at most \<open>length read div limit + 1\<close> calls that succeed.
\<close>
theorem inbox_walk_lists_once:
  assumes "\<forall>u. il_parse lib (il_show lib u) = Some u" and "0 < limit" and "distinct (map item_id read)"
    and "\<forall>(f, w) \<in> set ((f, w) # ws). steady agent f \<and> world_steady agent w"
    and "iw_read w = Some (Ok read)" and "\<not> registration_queued chan agent b"
    and "inbox_walk lib ns agent limit chan ((f, w) # ws) None b = (batches, b')"
  shows "\<exists>pages. list_all2 (\<lambda>page batch. list_all2 (shown_as lib agent) page (batch_items batch)) pages batches \<and>
    list_all (\<lambda>page. length page \<le> limit) pages \<and> list_all (\<lambda>page. length page = limit) (butlast pages) \<and>
    subseq (concat pages) read \<and> distinct (concat pages) \<and> list_all (unmarked agent b) (concat pages) \<and>
    (batches \<noteq> [] \<and> batch_next (last batches) = None \<longrightarrow> (\<forall>u \<in> set read. unmarked agent b' u \<longrightarrow> u \<in> set (concat pages))) \<and>
    (batches \<noteq> [] \<and> batch_next (last batches) \<noteq> None \<longrightarrow> length batches * limit < length read)"
proof -
  have st: "steady_to agent b (f b)" "world_steady agent w" "\<forall>(f, w) \<in> set ws. steady agent f \<and> world_steady agent w"
    using assms(4) by (simp_all add: steady_def)
  have s1: "steady_to agent (f b) (iw_others w (f b))" using st(2) by (simp add: world_steady_def steady_def)
  have a: "parse_after lib None = Ok None" by (simp add: parse_after_def)
  have rest: "rest_of_listing agent None (iw_read w) (iw_others w) (f b) = (Some (Ok (read, Some read)), iw_others w (f b))"
    by (simp add: rest_of_listing_def kept_rest_def rest_of_read_def assms(5))
  have rd: "read = [] @ read" by simp
  have "\<exists>pages. walked lib agent limit b read batches pages b'"
    by (rule walk_call [OF assms(2) st(2,1) a assms(6) rest disjI1 [OF refl] s1 rd _ assms(7)])
      (rule walk_from_cursor [OF assms(1-3) st(3)])
  then obtain pages where w: "walked lib agent limit b read batches pages b'" by blast
  have "distinct (concat pages)"
    using w assms(3) by (auto simp: walked_def distinct_map intro: distinct_subseq)
  with w show ?thesis by (intro exI [of _ pages]) (simp add: walked_def list_all_iff)
qed

section \<open>Marks and mails\<close>

text \<open>
  The calls that give writes to the queue, with a history of them: each marker with the entry that was
  marked and the write that follows it, and each mail. Everything else that happens to the book and to
  the queue is another step.
\<close>

record InboxSys =
  is_book :: Book
  is_queue :: Shared
  is_held :: "(MailEntry \<times> Write \<times> Write option) list"
  is_mails :: "NewMailInput list"

datatype InboxEvent = IeMark uuid uuid | IeSend uuid NewMail | IeOther BookEvent

inductive inbox_step :: "InboxLib \<Rightarrow> InboxSys \<Rightarrow> InboxEvent \<Rightarrow> InboxSys \<Rightarrow> bool" for lib where
  ib_mark: "inbox_mark_read ns found agent entry now (is_book s) (is_queue s) = (r, b', sh') \<Longrightarrow>
    held = (case port_resolve ns found agent (is_book s) of
              Inr _ \<Rightarrow> (case fst (mark_begin ns agent entry (is_book s)) of Some x \<Rightarrow> [x] | None \<Rightarrow> []) | Inl _ \<Rightarrow> []) \<Longrightarrow>
    inbox_step lib s (IeMark agent entry) (s\<lparr>is_book := b', is_queue := sh', is_held := is_held s @ held\<rparr>)"
| ib_send: "inbox_send lib ns found agent m now (is_book s) (is_queue s) = (r, b', sh') \<Longrightarrow>
    mails = (if il_refusal lib m = None \<and> port_resolve ns found agent (is_book s) = Ok ()
             then (case fst (send_begin agent m (is_book s)) of Some x \<Rightarrow> [x] | None \<Rightarrow> []) else []) \<Longrightarrow>
    inbox_step lib s (IeSend agent m) (s\<lparr>is_book := b', is_queue := sh', is_mails := is_mails s @ mails\<rparr>)"
| ib_other: "book_step (is_book s, sh) e (b', sh') \<Longrightarrow> (\<forall>m. e \<noteq> BTakeMail m) \<Longrightarrow>
    (\<forall>agent item. e \<noteq> BMark agent item) \<Longrightarrow> inbox_step lib s (IeOther e) (s\<lparr>is_book := b', is_queue := sh''\<rparr>)"

definition inbox_start :: "InboxSys \<Rightarrow> bool" where
  "inbox_start s \<longleftrightarrow> book_init (is_book s, is_queue s) \<and> is_held s = [] \<and> is_mails s = []"

fun marker_of :: "Write \<Rightarrow> (uuid \<times> uuid) option" where
  "marker_of (WMarker run item agent entry) = Some (agent, item)"
| "marker_of _ = None"

definition held_ok :: "Book \<Rightarrow> MailEntry \<times> Write \<times> Write option \<Rightarrow> bool" where
  "held_ok b h \<longleftrightarrow>
     (case h of (listed, w, f) \<Rightarrow>
        \<exists>agent entry. w = WMarker (book_run_id b) (entry_item_id listed) agent entry \<and>
          entry_item_id listed \<in> marked_items agent (inbox b) \<and>
          (\<forall>x. f = Some x \<longleftrightarrow> (\<exists>job. entry_child_job_id listed = Some job \<and> entry_kind listed = EkCallNotice RunCompleted \<and>
             x = WFinish (book_run_id b) job (entry_item_id listed))))"

definition inbox_inv :: "InboxSys \<Rightarrow> bool" where
  "inbox_inv s \<longleftrightarrow>
     book_inv (is_book s, is_queue s) \<and>
     list_all (held_ok (is_book s)) (is_held s) \<and> distinct (map (\<lambda>(_, w, _). marker_of w) (is_held s)) \<and>
     distinct (map new_mail_id (is_mails s)) \<and> new_mail_id ` set (is_mails s) \<subseteq> taken (inbox (is_book s))"

lemma book_step_run: "book_step s e t \<Longrightarrow> book_run_id (fst t) = book_run_id (fst s)"
proof (induction rule: book_step.induct)
  case (b_agent_for b fresh key i now sh ref b' sh')
  then show ?case
    by (auto simp: agent_for_def agents_find_def book_register_def Let_def split: option.splits prod.splits)
next
  case (b_arrival b sh a)
  then show ?case by (cases a) (auto simp: book_arrival_def split: option.split)
qed (simp_all add: arrival_ended_def arrival_open_again_def Let_def)

lemma mark_begin_cases:
  assumes "mark_begin ns agent entry b = (r, b')"
  obtains "r = None" "b' = b"
  | i where "r = None" "b' = b\<lparr>inbox := snd (mark agent i (inbox b))\<rparr>"
  | listed where "r = Some (listed, WMarker (book_run_id b) (entry_item_id listed) agent entry, finish_of (book_run_id b) listed)"
      "entry_item_id listed \<notin> marked_items agent (inbox b)" "b' = b\<lparr>inbox := snd (mark agent (entry_item_id listed) (inbox b))\<rparr>"
proof (cases "inbox_listed agent entry (inbox b)")
  case None
  then show thesis using assms that(1) by (simp add: mark_begin_def)
next
  case (Some listed)
  let ?b = "b\<lparr>inbox := snd (mark agent (entry_item_id listed) (inbox b))\<rparr>"
  have m: "mark_begin ns agent entry b =
      (if entry_item_id listed \<in> marked_items agent (inbox b) \<or> ns_inbox ns = None then (None, ?b)
       else (Some (listed, WMarker (book_run_id b) (entry_item_id listed) agent entry, finish_of (book_run_id b) listed), ?b))"
    by (simp add: mark_begin_def Some mark_def Let_def)
  show thesis
  proof (cases "entry_item_id listed \<in> marked_items agent (inbox b) \<or> ns_inbox ns = None")
    case True
    then have "r = None" "b' = ?b" using assms m by simp_all
    then show thesis by (rule that(2))
  next
    case False
    then have "r = Some (listed, WMarker (book_run_id b) (entry_item_id listed) agent entry, finish_of (book_run_id b) listed)"
      "entry_item_id listed \<notin> marked_items agent (inbox b)" "b' = ?b" using assms m by auto
    then show thesis by (rule that(3))
  qed
qed

lemma marked_mark: "marked_items a (snd (mark agent item i)) = (if a = agent then insert item (marked_items a i) else marked_items a i)"
  by (simp add: mark_def marked_items_def)

lemma finish_of_iff:
  "finish_of run listed = Some x \<longleftrightarrow>
     (\<exists>job. entry_child_job_id listed = Some job \<and> entry_kind listed = EkCallNotice RunCompleted \<and> x = WFinish run job (entry_item_id listed))"
  by (auto simp: finish_of_def split: EntryKind.split CallNoticeKind.split option.split)

lemma held_ok_mono:
  "held_ok b h \<Longrightarrow> book_run_id b' = book_run_id b \<Longrightarrow> (\<And>a. marked_items a (inbox b) \<subseteq> marked_items a (inbox b')) \<Longrightarrow> held_ok b' h"
proof -
  assume h: "held_ok b h" and run: "book_run_id b' = book_run_id b"
    and sub: "\<And>a. marked_items a (inbox b) \<subseteq> marked_items a (inbox b')"
  obtain listed w f where p: "h = (listed, w, f)" by (cases h)
  from h obtain agent entry where w: "w = WMarker (book_run_id b) (entry_item_id listed) agent entry"
    and m: "entry_item_id listed \<in> marked_items agent (inbox b)"
    and f: "\<forall>x. f = Some x \<longleftrightarrow> (\<exists>job. entry_child_job_id listed = Some job \<and> entry_kind listed = EkCallNotice RunCompleted \<and>
             x = WFinish (book_run_id b) job (entry_item_id listed))"
    unfolding held_ok_def p by auto
  have "entry_item_id listed \<in> marked_items agent (inbox b')" using m sub by blast
  with w f run show "held_ok b' h" unfolding held_ok_def p by simp
qed

lemma all_held_mono:
  assumes "inbox_inv s" and "book_run_id b' = book_run_id (is_book s)"
    and "\<And>a. marked_items a (inbox (is_book s)) \<subseteq> marked_items a (inbox b')"
  shows "list_all (held_ok b') (is_held s)"
proof -
  have "list_all (held_ok (is_book s)) (is_held s)" using assms(1) by (simp add: inbox_inv_def)
  then show ?thesis by (rule list.pred_mono_strong) (rule held_ok_mono [OF _ assms(2,3)])
qed

lemma held_marked: "held_ok b (listed, w, f) \<Longrightarrow> marker_of w = Some (agent, item) \<Longrightarrow> item \<in> marked_items agent (inbox b)"
  by (auto simp: held_ok_def)

lemma inbox_inv_mark:
  assumes inv: "inbox_inv s" and m: "inbox_mark_read ns found agent entry now (is_book s) (is_queue s) = (r, b', sh')"
    and h: "held = (case port_resolve ns found agent (is_book s) of
       Inr _ \<Rightarrow> (case fst (mark_begin ns agent entry (is_book s)) of Some x \<Rightarrow> [x] | None \<Rightarrow> []) | Inl _ \<Rightarrow> [])"
  shows "inbox_inv (s\<lparr>is_book := b', is_queue := sh', is_held := is_held s @ held\<rparr>)"
proof (cases "port_resolve ns found agent (is_book s)")
  case (Inl e)
  have "held = []" unfolding h by (simp add: Inl)
  moreover have "b' = is_book s" using m by (simp add: inbox_mark_read_def Inl)
  moreover note inv
  ultimately show ?thesis by (simp add: inbox_inv_def book_inv_def)
next
  case (Inr y)
  obtain x b1 where b: "mark_begin ns agent entry (is_book s) = (x, b1)" by (metis prod.exhaust)
  have b': "b' = b1" and held: "held = (case x of Some x \<Rightarrow> [x] | None \<Rightarrow> [])"
    using m h Inr b by (auto simp: inbox_mark_read_def split: option.splits)
  have old: "list_all (held_ok b1) (is_held s)" if "b1 = (is_book s)\<lparr>inbox := snd (mark agent i (inbox (is_book s)))\<rparr>" for i
    by (rule all_held_mono [OF inv]) (auto simp: that marked_mark)
  from b show ?thesis
  proof (cases rule: mark_begin_cases)
    case 1
    then show ?thesis using inv by (simp add: inbox_inv_def book_inv_def b' held)
  next
    case (2 i)
    then show ?thesis using inv old [OF 2(2)] by (simp add: inbox_inv_def book_inv_def b' held mark_def)
  next
    case (3 listed)
    have "held_ok b1 (the x)"
      by (simp add: 3 held_ok_def finish_of_iff) (auto simp: 3(3) marked_mark)
    moreover have "Some (agent, entry_item_id listed) \<notin> set (map (\<lambda>(_, w, _). marker_of w) (is_held s))"
      using inv 3(2) held_marked [of "is_book s"] by (fastforce simp: inbox_inv_def list_all_iff)
    ultimately show ?thesis using inv old [OF 3(3)]
      by (simp add: inbox_inv_def book_inv_def b' held 3(1)) (simp add: 3(3) mark_def)
  qed
qed

lemma inbox_inv_send:
  assumes inv: "inbox_inv s" and m: "inbox_send lib ns found agent mail now (is_book s) (is_queue s) = (r, b', sh')"
    and h: "mails = (if il_refusal lib mail = None \<and> port_resolve ns found agent (is_book s) = Ok ()
             then (case fst (send_begin agent mail (is_book s)) of Some x \<Rightarrow> [x] | None \<Rightarrow> []) else [])"
  shows "inbox_inv (s\<lparr>is_book := b', is_queue := sh', is_mails := is_mails s @ mails\<rparr>)"
proof (cases "il_refusal lib mail = None \<and> port_resolve ns found agent (is_book s) = Ok ()")
  case False
  then have "b' = is_book s" using m
    by (cases "port_resolve ns found agent (is_book s)") (auto simp: inbox_send_def split: option.splits)
  moreover have "mails = []" unfolding h using False by (simp only: if_False)
  moreover note inv
  ultimately show ?thesis by (simp add: inbox_inv_def book_inv_def)
next
  case True
  obtain x b1 where b: "send_begin agent mail (is_book s) = (x, b1)" by (metis prod.exhaust)
  have b': "b' = b1" using m True b by (auto simp: inbox_send_def split: option.splits)
  have b1: "b1 = (is_book s)\<lparr>inbox := snd (take_mail (nm_id mail) (inbox (is_book s)))\<rparr>"
    and x: "x = (if nm_id mail \<notin> taken (inbox (is_book s)) then Some (input_of agent mail) else None)"
    using b by (auto simp: send_begin_def take_mail_def)
  have "list_all (held_ok b1) (is_held s)"
    by (rule all_held_mono [OF inv]) (simp_all add: b1 take_mail_def marked_items_def)
  then show ?thesis using inv True h
    by (auto simp: inbox_inv_def book_inv_def b' b x) (auto simp: b1 take_mail_def input_of_def)
qed

lemma inbox_inv_other:
  assumes inv: "inbox_inv s" and st: "book_step (is_book s, sh) e (b', sh')"
    and e: "\<forall>m. e \<noteq> BTakeMail m" "\<forall>agent item. e \<noteq> BMark agent item"
  shows "inbox_inv (s\<lparr>is_book := b', is_queue := sh''\<rparr>)"
proof -
  have bi: "book_inv (is_book s, sh)" using inv by (simp add: inbox_inv_def book_inv_def)
  have i: "inbox b' = inbox_event e (inbox (is_book s))" using book_step_inbox [OF st bi] by simp
  have m: "marked_items a (inbox b') = marked_items a (inbox (is_book s))" for a
    using e(2) by (simp add: i inbox_event_once split: BookEvent.split)
  have t: "taken (inbox b') = taken (inbox (is_book s))"
    using e(1) by (simp add: i inbox_event_once split: BookEvent.split)
  have "list_all (held_ok b') (is_held s)"
    by (rule all_held_mono [OF inv]) (use book_step_run [OF st] in \<open>simp_all add: m\<close>)
  moreover have "book_inv (b', sh'')" using book_step_inv [OF st bi] by (simp add: book_inv_def)
  ultimately show ?thesis using inv by (simp add: inbox_inv_def t)
qed

interpretation inbox_sys: invariant_system inbox_start "inbox_step lib" inbox_inv for lib
proof
  show "inbox_inv s" if "inbox_start s" for s
    using that book.inv_init [of "(is_book s, is_queue s)"] by (simp add: inbox_start_def inbox_inv_def)
  show "inbox_inv t" if "inbox_step lib s e t" and "inbox_inv s" for s e t
    using that
  proof cases
    case ib_mark
    then show ?thesis using inbox_inv_mark [OF that(2) ib_mark(3) ib_mark(4)] by simp
  next
    case ib_send
    then show ?thesis using inbox_inv_send [OF that(2) ib_send(3) ib_send(4)] by simp
  next
    case ib_other
    then show ?thesis using inbox_inv_other [OF that(2) ib_other(3-5)] by simp
  qed
qed


section \<open>The ids of attachments\<close>

lemma xor_cancel: "(a XOR b = a XOR c) = (b = (c :: 'a::len word))"
  by (metis xor.assoc xor.left_neutral xor_self_eq)

lemma drop_bit_small:
  assumes "k < 2 ^ n" and "n \<le> 128"
  shows "drop_bit n (of_nat k :: uuid) = 0"
proof -
  have "(2 :: nat) ^ n \<le> 2 ^ 128" using assms(2) by (rule power_increasing) simp
  with assms(1) have "k < 2 ^ 128" by linarith
  then have "unat (of_nat k :: uuid) = k" by (simp add: unsigned_of_nat take_bit_nat_eq_self)
  then have "unat (drop_bit n (of_nat k :: uuid)) = drop_bit n k" by (simp only: unat_drop_bit_eq)
  also have "\<dots> = 0" using assms(1) by (simp add: drop_bit_eq_div)
  finally show ?thesis by (simp only: unat_eq_zero)
qed

lemma attachment_id_eq: "attachment_id m n = m XOR of_nat (Suc n)"
  by (simp add: attachment_id_def add.commute)

lemma of_nat_uuid_eq: "a < 2 ^ 62 \<Longrightarrow> b < 2 ^ 62 \<Longrightarrow> (of_nat a :: uuid) = of_nat b \<longleftrightarrow> a = b"
  by (simp add: word_unat_eq_iff unsigned_of_nat take_bit_nat_eq_self)

text \<open>
  The ids that are made for the attachments of a mail are as many as its attachments, pairwise
  different and different from the id of the mail, and they differ from it in the lowest 62 bits only: the
  bits that hold the time, the version and the variant of the id stay. This is so for fewer than
  \<open>2 ^ 62\<close> attachments.
\<close>
theorem attachment_ids_unique:
  assumes "length (nm_attachments m) < 2 ^ 62"
  shows "length (new_attachments (input_of agent m)) = length (nm_attachments m) \<and>
    distinct (nm_id m # map new_att_id (new_attachments (input_of agent m))) \<and>
    list_all (\<lambda>a. drop_bit 62 (new_att_id a) = drop_bit 62 (nm_id m)) (new_attachments (input_of agent m))"
proof -
  let ?n = "length (nm_attachments m)"
  have ids: "map new_att_id (new_attachments (input_of agent m)) = map (\<lambda>n. nm_id m XOR of_nat (Suc n)) [0..<?n]"
    by (rule nth_equalityI) (simp_all add: input_of_def nth_enumerate_eq attachment_id_eq)
  have inj: "inj_on (\<lambda>n. nm_id m XOR of_nat (Suc n)) (set [0..<?n])"
    using assms of_nat_uuid_eq by (intro inj_onI) (fastforce simp: xor_cancel simp del: of_nat_Suc)
  have self: "nm_id m XOR of_nat (Suc n) \<noteq> nm_id m" if "n < ?n" for n
  proof -
    have "(of_nat (Suc n) :: uuid) \<noteq> of_nat 0" using that assms by (subst of_nat_uuid_eq) simp_all
    then show ?thesis using xor_cancel [of "nm_id m" "of_nat (Suc n)" 0] by simp
  qed
  have high: "drop_bit 62 (nm_id m XOR of_nat (Suc n)) = drop_bit 62 (nm_id m)" if "n < ?n" for n
    using drop_bit_small [of "Suc n" 62] that assms by (simp add: drop_bit_xor del: of_nat_Suc)
  have "list_all (\<lambda>i. drop_bit 62 i = drop_bit 62 (nm_id m)) (map new_att_id (new_attachments (input_of agent m)))"
    unfolding ids list.pred_map using high by (simp add: list_all_iff comp_def del: of_nat_Suc drop_bit_xor)
  moreover have "distinct (nm_id m # map new_att_id (new_attachments (input_of agent m)))"
  proof -
    have "nm_id m \<notin> (\<lambda>n. nm_id m XOR of_nat (Suc n)) ` set [0..<?n]"
    proof
      assume "nm_id m \<in> (\<lambda>n. nm_id m XOR of_nat (Suc n)) ` set [0..<?n]"
      then obtain n where "n \<in> set [0..<?n]" "nm_id m = nm_id m XOR of_nat (Suc n)" by (rule imageE)
      with self [of n] show False by (simp del: of_nat_Suc)
    qed
    with inj show ?thesis unfolding ids by (simp only: distinct.simps set_map distinct_map distinct_upt simp_thms)
  qed
  moreover have "length (new_attachments (input_of agent m)) = ?n" using arg_cong [OF ids, of length] by simp
  ultimately show ?thesis by (simp add: list.pred_map comp_def)
qed

definition demo_new_mail :: NewMail where
  "demo_new_mail = \<lparr>nm_id = 5, nm_author = ''a'', nm_source = 6, nm_subject = ''s'', nm_body = ''b'', nm_to = [7], nm_cc = [],
     nm_attachments = [(''x'', ''1''), (''y'', ''2'')]\<rparr>"

theorem attachment_ids_unique_witness:
  "map new_att_id (new_attachments (input_of 3 demo_new_mail)) = [4, 7] \<and>
   distinct (nm_id demo_new_mail # map new_att_id (new_attachments (input_of 3 demo_new_mail)))"
proof -
  have "length (nm_attachments demo_new_mail) < 2 ^ 62" by (simp add: demo_new_mail_def)
  from attachment_ids_unique [OF this, of 3]
  have "distinct (nm_id demo_new_mail # map new_att_id (new_attachments (input_of 3 demo_new_mail)))" by (elim conjE)
  moreover have "map new_att_id (new_attachments (input_of 3 demo_new_mail)) = [4, 7]"
    by (simp add: demo_new_mail_def input_of_def attachment_id_def)
  ultimately show ?thesis by (intro conjI)
qed

section \<open>An inbox with three items\<close>

definition demo_inbox_lib :: InboxLib where
  "demo_inbox_lib = \<lparr>il_v7 = (\<lambda>_. True), il_author_ok = (\<lambda>_. True), il_notice_ok = (\<lambda>_. True), il_entry_ok = (\<lambda>_ _. True),
     il_item_id = (\<lambda>item. case item of InboxEntryItem i _ \<Rightarrow> i | InboxMailItem (MailItemTo t) \<Rightarrow> to_id t | InboxMailItem (MailItemCc i _) \<Rightarrow> i),
     il_show = (\<lambda>u. replicate (unat u) CHR ''x''), il_parse = (\<lambda>s. Some (of_nat (length s))), il_refusal = (\<lambda>_. None)\<rparr>"

definition demo_slot :: Slot where
  "demo_slot = \<lparr>slot_agent_id = 7, slot_has_inbox = True, slot_registration = EndedWith (Ok ())\<rparr>"

definition demo_inbox_book :: Book where
  "demo_inbox_book = (book_new 1 True)\<lparr>agents := \<lparr>agent_order = [demo_key], by_key = [demo_key \<mapsto> demo_slot],
     by_id = [7 \<mapsto> demo_key], restored_ids = {}\<rparr>\<rparr>"

definition demo_node_shared :: NodeShared where
  "demo_node_shared = \<lparr>ns_node = ''n'', ns_inbox = Some ''l''\<rparr>"

definition demo_read :: "UnreadItem list" where
  "demo_read = [UCcNotice 1 (Some 7) 11 ''s'', UMailNotice 2 (Some 7) None ''t'', UUnknown 3 (Some 7) ''K'' None]"

definition demo_items_world :: "(UnreadItem list, Error) result option \<Rightarrow> nat \<Rightarrow> ItemsWorld" where
  "demo_items_world read n = \<lparr>iw_found = Ok (), iw_read = read, iw_others = (\<lambda>b. b),
     iw_polls = map (\<lambda>i. (i, None, \<lambda>b. b)) [0..<n]\<rparr>"

definition demo_walk :: "InboxBatch list \<times> Book" where
  "demo_walk = inbox_walk demo_inbox_lib demo_node_shared 7 2 (\<lambda>_. Open)
     ((\<lambda>b. b, demo_items_world (Some (Ok demo_read)) 2) # [(\<lambda>b. b, demo_items_world None 1)]) None demo_inbox_book"

lemmas demo_walk_defs = demo_items_world_def inbox_items_def port_resolve_def holds_inbox_of_def inbox_key_def demo_node_shared_def
  demo_inbox_book_def agents_key_of_def demo_key_def agents_holds_inbox_def slot_of_def demo_slot_def parse_after_def parse_cursor_def
  registration_queued_def is_restored_def agents_registration_def rest_of_listing_def kept_rest_def rest_of_read_def
  items_page_def leave_out_marked_def marked_items_def book_new_def inbox_default_def convert_poll_def
  demo_read_def demo_inbox_lib_def with_entry_def checked_mail_id_def checked_entry_id_def notice_entry_def entry_plain_def unknown_item_def
  record_page_def settle_snapshot_def keep_snapshot_def drop_snapshot_def record_listed_def inbox_snapshot_def

lemma demo_walk_eq:
  "map batch_items (fst demo_walk) = [[InboxMailItem (MailItemCc 11 ''s''), InboxEntryItem 2 ''t''],
     [InboxEntryItem 3 ''An item of the kind K arrived.'']]"
  "batch_next (last (fst demo_walk)) = None" "marked_items 7 (inbox (snd demo_walk)) = {}"
  by (simp_all add: demo_walk_def demo_walk_defs upt_rec Let_def)

theorem inbox_walk_lists_once_witness:
  "\<exists>pages. list_all2 (\<lambda>page batch. list_all2 (shown_as demo_inbox_lib 7) page (batch_items batch)) pages (fst demo_walk) \<and>
     distinct (concat pages) \<and> set (concat pages) = set demo_read"
proof -
  have lib: "\<forall>u. il_parse demo_inbox_lib (il_show demo_inbox_lib u) = Some u" by (simp add: demo_inbox_lib_def)
  have d: "distinct (map item_id demo_read)" by (simp add: demo_read_def)
  have st: "\<forall>(f, w) \<in> set ((\<lambda>b. b, demo_items_world (Some (Ok demo_read)) 2) # [(\<lambda>b. b, demo_items_world None 1)]).
      steady 7 f \<and> world_steady 7 w"
    by (simp add: steady_def world_steady_def demo_items_world_def)
  have rd: "iw_read (demo_items_world (Some (Ok demo_read)) 2) = Some (Ok demo_read)" by (simp add: demo_items_world_def)
  have q: "\<not> registration_queued (\<lambda>_. Open) 7 demo_inbox_book" by (simp add: demo_walk_defs)
  have w: "inbox_walk demo_inbox_lib demo_node_shared 7 2 (\<lambda>_. Open)
     ((\<lambda>b. b, demo_items_world (Some (Ok demo_read)) 2) # [(\<lambda>b. b, demo_items_world None 1)]) None demo_inbox_book =
     (fst demo_walk, snd demo_walk)" by (simp add: demo_walk_def)
  obtain pages where p: "list_all2 (\<lambda>page batch. list_all2 (shown_as demo_inbox_lib 7) page (batch_items batch)) pages (fst demo_walk)"
      "subseq (concat pages) demo_read" "distinct (concat pages)"
    and c: "fst demo_walk \<noteq> [] \<and> batch_next (last (fst demo_walk)) = None \<longrightarrow>
      (\<forall>u \<in> set demo_read. unmarked 7 (snd demo_walk) u \<longrightarrow> u \<in> set (concat pages))"
    using inbox_walk_lists_once [OF lib _ d st rd q w] by auto
  have "fst demo_walk \<noteq> []" using demo_walk_eq(1) by auto
  with c have "set demo_read \<subseteq> set (concat pages)" by (auto simp: demo_walk_eq)
  moreover have "set (concat pages) \<subseteq> set demo_read" using p(2) by (metis notin_set_nthsI subseq_conv_nths subsetI)
  ultimately show ?thesis using p by blast
qed

definition demo_entry :: MailEntry where
  "demo_entry = \<lparr>entry_item_id = 4, entry_child_job_id = Some 9, entry_kind = EkCallNotice RunCompleted\<rparr>"

lemma demo_make_holds:
  "\<exists>b made sh'. book_make (\<lambda>i. i = 7) 1 False [demo_restored] False 5 shared_new = (Ok b, made, sh') \<and>
     holds_inbox_of demo_node_shared 7 b \<and> book_run_id b = 1 \<and> inbox b = inbox_default"
  by (auto simp: book_make_def check_restored_def demo_restored_def claim_once_def book_new_def book_register_def
      agents_add_def agents_default_def mark_restored_def Let_def holds_inbox_of_def inbox_key_def demo_node_shared_def
      demo_key_def agents_key_of_def agents_holds_inbox_def slot_of_def split: prod.split)


end
