(* ===== verification/Graphql.thy ===== *)
theory Graphql
  imports Work_Caller Arrival_Feed Text_Ops
begin

text \<open>
  The calls over GraphQL of \<open>br-runner-jobs\<close> (\<open>graphql\<close>): how the variables of each call are made, how
  the reply is judged (\<open>lift.rs\<close>) and how its values are read (\<open>decode.rs\<close>, \<open>items.rs\<close>). A reply is the
  value that serde made of it; the reading and the text of an id, the reading of a number as \<open>i64\<close> and
  the names of the roots, which the contract crate holds, are \<open>WireLib\<close>. The text of the documents is
  not modelled.
\<close>

section \<open>Reading values\<close>

datatype GqlRoot =
    PayloadRoot | UploadPayloadRoot | UploadResultRoot | ReadResultRoot | AttachmentRoot | UnreadRoot | MailRoot
  | SendMailRoot | UploadAttachmentRoot | SaveStateRoot | SavedStateRoot

record WireLib =
  wl_uuid :: "string \<Rightarrow> uuid option"
  wl_uuid_text :: "uuid \<Rightarrow> string"
  wl_i64 :: "string \<Rightarrow> int option"
  wl_root :: "GqlRoot \<Rightarrow> string"

definition gq_unreadable :: "string \<Rightarrow> Error" where
  "gq_unreadable what = Unreadable (''the reply of jobs cannot be read: '' @ what)"

definition or_unreadable :: "string \<Rightarrow> 'a option \<Rightarrow> ('a, Error) result" where
  "or_unreadable what r = (case r of Some x \<Rightarrow> Ok x | None \<Rightarrow> Err (gq_unreadable what))"

fun is_object :: "json \<Rightarrow> bool" where
  "is_object (JObject _) = True"
| "is_object _ = False"

fun json_list :: "json \<Rightarrow> json list option" where
  "json_list (JArray vs) = Some vs"
| "json_list _ = None"

fun json_bool :: "json \<Rightarrow> bool option" where
  "json_bool (JBool b) = Some b"
| "json_bool _ = None"

definition gq_present :: "json \<Rightarrow> string \<Rightarrow> json option" where
  "gq_present v key = (case json_get v key of Some JNull \<Rightarrow> None | r \<Rightarrow> r)"

definition gq_uuid_of :: "WireLib \<Rightarrow> json \<Rightarrow> string \<Rightarrow> (uuid, Error) result" where
  "gq_uuid_of lib v what = or_unreadable what (Option.bind (json_str v) (wl_uuid lib))"

definition gq_object :: "json \<Rightarrow> string \<Rightarrow> (json, Error) result" where
  "gq_object v key = (case gq_present v key of
     Some x \<Rightarrow> if is_object x then Ok x else Err (gq_unreadable key) | None \<Rightarrow> Err (gq_unreadable key))"

definition gq_uuid :: "WireLib \<Rightarrow> json \<Rightarrow> string \<Rightarrow> (uuid, Error) result" where
  "gq_uuid lib v key = (case gq_present v key of Some x \<Rightarrow> gq_uuid_of lib x key | None \<Rightarrow> Err (gq_unreadable key))"

text \<open>An absent or null member is \<open>None\<close>, one that cannot be read an error.\<close>

definition gq_optional :: "(json \<Rightarrow> ('a, Error) result) \<Rightarrow> json \<Rightarrow> string \<Rightarrow> ('a option, Error) result" where
  "gq_optional rd v key = (case gq_present v key of None \<Rightarrow> Ok None | Some x \<Rightarrow> map_sum id Some (rd x))"

definition gq_opt_uuid :: "WireLib \<Rightarrow> json \<Rightarrow> string \<Rightarrow> (uuid option, Error) result" where
  "gq_opt_uuid lib v key = gq_optional (\<lambda>x. gq_uuid_of lib x key) v key"

definition gq_string :: "json \<Rightarrow> string \<Rightarrow> (string, Error) result" where
  "gq_string v key = or_unreadable key (Option.bind (gq_present v key) json_str)"

definition gq_opt_string :: "json \<Rightarrow> string \<Rightarrow> (string option, Error) result" where
  "gq_opt_string v key = gq_optional (\<lambda>x. or_unreadable key (json_str x)) v key"

fun json_i64 :: "WireLib \<Rightarrow> json \<Rightarrow> int option" where
  "json_i64 lib (JNumber n) = wl_i64 lib n"
| "json_i64 lib _ = None"

definition gq_opt_integer :: "WireLib \<Rightarrow> json \<Rightarrow> string \<Rightarrow> (int option, Error) result" where
  "gq_opt_integer lib v key = gq_optional (\<lambda>x. or_unreadable key (json_i64 lib x)) v key"

definition gq_list :: "json \<Rightarrow> string \<Rightarrow> (json list, Error) result" where
  "gq_list v key = or_unreadable key (Option.bind (gq_present v key) json_list)"

definition gq_uuids :: "WireLib \<Rightarrow> json \<Rightarrow> string \<Rightarrow> (uuid list, Error) result" where
  "gq_uuids lib v key = and_then (gq_list v key) (\<lambda>vs. collect_results (map (\<lambda>x. gq_uuid_of lib x key) vs))"

definition gq_attachment :: "string \<Rightarrow> json \<Rightarrow> (ContentAttachment, Error) result" where
  "gq_attachment type_key v =
     and_then (gq_string v ''name'') (\<lambda>name.
     and_then (gq_string v type_key) (\<lambda>ctype.
     and_then (gq_string v ''content'') (\<lambda>content.
       Ok \<lparr>att_name = name, att_content_type = ctype, att_content = content\<rparr>)))"

definition gq_content_with :: "string \<Rightarrow> json \<Rightarrow> (Content, Error) result" where
  "gq_content_with type_key v =
     and_then (gq_string v ''message'') (\<lambda>msg.
     and_then (gq_list v ''attachments'') (\<lambda>vs.
     and_then (collect_results (map (gq_attachment type_key) vs)) (\<lambda>atts.
       Ok \<lparr>content_message = msg, content_attachments = atts\<rparr>)))"

definition gq_content :: "json \<Rightarrow> (Content, Error) result" where
  "gq_content v = gq_content_with ''contentType'' v"

definition gq_answer :: "json \<Rightarrow> (Content, Error) result" where
  "gq_answer v = (if is_object v then gq_content_with ''content_type'' v else Err (gq_unreadable ''answer''))"

definition gq_size :: "WireLib \<Rightarrow> json \<Rightarrow> (u64 option, Error) result" where
  "gq_size lib v =
     and_then (gq_opt_integer lib v ''size'') (\<lambda>size.
       case size of
         None \<Rightarrow> Ok None
       | Some n \<Rightarrow> if 0 \<le> n then Ok (Some (of_int n)) else Err (gq_unreadable ''size''))"

definition gq_mail_attachment :: "WireLib \<Rightarrow> json \<Rightarrow> (MailAttachment, Error) result" where
  "gq_mail_attachment lib v =
     and_then (gq_uuid lib v ''attachmentId'') (\<lambda>i.
     and_then (gq_string v ''name'') (\<lambda>name.
     and_then (gq_opt_string v ''contentType'') (\<lambda>ctype.
     and_then (gq_size lib v) (\<lambda>size.
       Ok \<lparr>mail_att_id = i, mail_att_name = name, mail_att_content_type = ctype, mail_att_size = size\<rparr>))))"

definition gq_mail_attachments :: "WireLib \<Rightarrow> json \<Rightarrow> string \<Rightarrow> (MailAttachment list, Error) result" where
  "gq_mail_attachments lib v key = and_then (gq_list v key) (\<lambda>vs. collect_results (map (gq_mail_attachment lib) vs))"

section \<open>Unread items\<close>

definition gq_author :: "json \<Rightarrow> (string, Error) result" where
  "gq_author v =
     and_then (gq_string v ''author'') (\<lambda>author.
       if str_trim author = [] then Err (gq_unreadable ''author'') else Ok author)"

definition gq_direct_mail :: "WireLib \<Rightarrow> json \<Rightarrow> (Mail, Error) result" where
  "gq_direct_mail lib v =
     and_then (gq_uuid lib v ''mailId'') (\<lambda>i.
     and_then (gq_uuid lib v ''from'') (\<lambda>sender.
     and_then (gq_author v) (\<lambda>author.
     and_then (gq_opt_uuid lib v ''sourceConversationId'') (\<lambda>source.
     and_then (gq_string v ''subject'') (\<lambda>subject.
     and_then (gq_string v ''body'') (\<lambda>body.
     and_then (gq_mail_attachments lib v ''attachments'') (\<lambda>atts.
       Ok \<lparr>mail_id = i, mail_from = sender, mail_author = author, mail_source_conversation = source,
           mail_subject = subject, mail_body = body, mail_to = [], mail_cc = [], mail_attachments = atts\<rparr>)))))))"

definition notice_words :: "(string \<times> CallNoticeKind) list" where
  "notice_words = [(''ACCEPTED'', Accepted), (''QUEUE_POSITION'', QueuePosition), (''STARTED'', RunStarted),
     (''RUN_COMPLETED'', RunCompleted), (''JOB_FAILED'', JobFailed), (''JOB_CANCELLED'', JobCancelled), (''REFUSED'', NoticeRefused)]"

definition kind_of_word :: "string \<Rightarrow> CallNoticeKind" where
  "kind_of_word w = (case map_of notice_words w of Some k \<Rightarrow> k | None \<Rightarrow> UnknownNotice)"

definition gq_report_kind :: "json \<Rightarrow> (FailureKind option, Error) result" where
  "gq_report_kind v =
     and_then (gq_opt_string v ''kind'') (\<lambda>word.
       case word of
         None \<Rightarrow> Ok None
       | Some w \<Rightarrow>
           if w = ''TRANSIENT'' then Ok (Some Transient)
           else if w = ''PERMANENT'' then Ok (Some Permanent)
           else Err (gq_unreadable ''failureReport''))"

definition gq_report :: "json \<Rightarrow> (FailureReportView, Error) result" where
  "gq_report v =
     (if \<not> is_object v then Err (gq_unreadable ''failureReport'')
      else
        and_then (gq_report_kind v) (\<lambda>kind.
        and_then (gq_string v ''reason_code'') (\<lambda>code.
          Ok \<lparr>report_kind = kind, report_reason_code = code,
              report_params = (case json_get v ''params'' of Some x \<Rightarrow> x | None \<Rightarrow> JNull),
              report_diagnostic = (case json_get v ''diagnostic'' of Some x \<Rightarrow> x | None \<Rightarrow> JNull)\<rparr>)))"

definition gq_notice :: "WireLib \<Rightarrow> json \<Rightarrow> uuid \<Rightarrow> uuid option \<Rightarrow> (CallNotice, Error) result" where
  "gq_notice lib v i address =
     and_then (gq_string v ''noticeType'') (\<lambda>word.
     let kind = kind_of_word word; known = (kind \<noteq> UnknownNotice) in
     and_then (if known \<and> kind \<noteq> NoticeRefused then map_sum id Some (gq_uuid lib v ''jobId'') else gq_opt_uuid lib v ''jobId'') (\<lambda>job.
     and_then (gq_opt_integer lib v ''position'') (\<lambda>pos.
     and_then (gq_opt_string v ''message'') (\<lambda>msg.
     and_then (gq_optional gq_report v ''failureReport'') (\<lambda>report.
     and_then (gq_optional gq_answer v ''answer'') (\<lambda>inline.
     and_then (gq_opt_uuid lib v ''resultId'') (\<lambda>result.
       Ok \<lparr>notice_item_id = i, notice_address = address, notice_kind = kind,
           notice_type = (if known then None else Some word), notice_child_job_id = job, notice_position = pos,
           notice_message = msg, notice_report = report, notice_inline = inline,
           notice_result_ref = map_option ResultRef result\<rparr>)))))))"

definition gq_item :: "WireLib \<Rightarrow> json \<Rightarrow> (UnreadItem, Error) result" where
  "gq_item lib v =
     and_then (gq_uuid lib v ''itemId'') (\<lambda>i.
     and_then (gq_opt_uuid lib v ''address'') (\<lambda>address.
     and_then (gq_string v ''itemKind'') (\<lambda>kind.
       if kind = ''MAIL'' then map_sum id (UDirectMail i address) (gq_direct_mail lib v)
       else if kind = ''CC_NOTICE'' then
         and_then (gq_uuid lib v ''mailId'') (\<lambda>m.
         and_then (gq_string v ''subject'') (\<lambda>subject. Ok (UCcNotice i address m subject)))
       else if kind = ''NOTICE'' then map_sum id UCallNotice (gq_notice lib v i address)
       else if kind = ''MAIL_NOTICE'' then
         and_then (gq_opt_uuid lib v ''mailId'') (\<lambda>m.
         and_then (gq_string v ''message'') (\<lambda>words. Ok (UMailNotice i address m words)))
       else map_sum id (UUnknown i address kind) (gq_opt_string v ''message''))))"

definition result_ok :: "('a, 'e) result \<Rightarrow> 'a option" where
  "result_ok r = (case r of Inr x \<Rightarrow> Some x | Inl _ \<Rightarrow> None)"

definition gq_read :: "WireLib \<Rightarrow> json \<Rightarrow> Read" where
  "gq_read lib v =
     (case gq_item lib v of
        Inr found \<Rightarrow> ReadItem found
      | Inl e \<Rightarrow> ReadBad \<lparr>bad_item_id = result_ok (gq_uuid lib v ''itemId''),
          bad_child_job_id = (if Option.bind (json_get v ''itemKind'') json_str = Some ''NOTICE''
                              then result_ok (gq_uuid lib v ''jobId'') else None),
          bad_error = e\<rparr>)"

section \<open>Calls\<close>

definition retag :: "Error \<Rightarrow> Operation \<Rightarrow> Error" where
  "retag e op = (case e of Refused r \<Rightarrow> Refused (r\<lparr>operation := op\<rparr>) | _ \<Rightarrow> e)"

definition root_text :: "json \<Rightarrow> string \<Rightarrow> (string, Error) result" where
  "root_text root key =
     (case Option.bind (json_get root key) json_str of
        Some t \<Rightarrow> Ok t
      | None \<Rightarrow> Err (gq_unreadable ''a refusal without its reason or its text''))"

definition field_text :: "json \<Rightarrow> string \<Rightarrow> string option" where
  "field_text entry key = Option.bind (json_get entry key) json_str"

definition bad_address_line :: "json \<Rightarrow> string option" where
  "bad_address_line entry =
     (case (field_text entry ''address'', field_text entry ''message'', field_text entry ''reason'') of
        (Some a, Some m, Some r) \<Rightarrow> Some (a @ '': '' @ m @ '' ('' @ r @ '')'')
      | _ \<Rightarrow> None)"

fun add_bad_addresses :: "string \<Rightarrow> json list \<Rightarrow> (string, Error) result" where
  "add_bad_addresses msg [] = Ok msg"
| "add_bad_addresses msg (entry # es) =
     (case bad_address_line entry of
        None \<Rightarrow> Err (gq_unreadable ''a bad address'')
      | Some line \<Rightarrow> add_bad_addresses (msg @ CHR 0x0A # line) es)"

definition refusal_message :: "json \<Rightarrow> (string, Error) result" where
  "refusal_message root =
     and_then (root_text root ''message'') (\<lambda>msg.
       add_bad_addresses msg (case Option.bind (json_get root ''badAddresses'') json_list of Some es \<Rightarrow> es | None \<Rightarrow> []))"

text \<open>The answer of the backend to a document, as the operation \<open>op\<close> judges it.\<close>

definition gq_call :: "WireLib \<Rightarrow> Operation \<Rightarrow> GqlRoot \<Rightarrow> (json, Error) result \<Rightarrow> (json, Error) result" where
  "gq_call lib op root_name answer =
     (case answer of
        Inl e \<Rightarrow> Err (retag e op)
      | Inr data \<Rightarrow>
          (case json_get data (wl_root lib root_name) of
             None \<Rightarrow> Err (gq_unreadable (''no '' @ wl_root lib root_name @ '' in the reply''))
           | Some root \<Rightarrow>
               if \<not> is_object root then Err (gq_unreadable (''no '' @ wl_root lib root_name @ '' in the reply''))
               else
                 (case Option.bind (json_get root ''success'') json_bool of
                    Some True \<Rightarrow> Ok root
                  | Some False \<Rightarrow>
                      and_then (root_text root ''reason'') (\<lambda>why.
                      and_then (refusal_message root) (\<lambda>msg. Err (error_refused op (from_word why) msg)))
                  | None \<Rightarrow> Err (gq_unreadable ''no success flag in the reply''))))"

section \<open>The requests and their answers\<close>

record GqlRequest =
  rq_root :: GqlRoot
  rq_variables :: json

definition json_id :: "WireLib \<Rightarrow> uuid \<Rightarrow> json" where
  "json_id lib u = JString (wl_uuid_text lib u)"

definition json_opt_id :: "WireLib \<Rightarrow> uuid option \<Rightarrow> json" where
  "json_opt_id lib u = (case u of Some x \<Rightarrow> json_id lib x | None \<Rightarrow> JNull)"

definition work_json :: "WireLib \<Rightarrow> WorkIds \<Rightarrow> json" where
  "work_json lib ids = JObject [(''jobId'', json_id lib (ids_job_id ids)), (''runId'', json_id lib (ids_run_id ids)),
     (''instanceKey'', JString (ids_instance_key ids))]"

definition attachment_json :: "ContentAttachment \<Rightarrow> json" where
  "attachment_json a = JObject [(''name'', JString (att_name a)), (''contentType'', JString (att_content_type a)),
     (''content'', JString (att_content a))]"

definition content_json :: "Content \<Rightarrow> json" where
  "content_json c = JObject [(''message'', JString (content_message c)),
     (''attachments'', JArray (map attachment_json (content_attachments c)))]"

definition input_request :: "GqlRoot \<Rightarrow> (string \<times> json) list \<Rightarrow> GqlRequest" where
  "input_request root fs = \<lparr>rq_root = root, rq_variables = JObject [(''input'', JObject fs)]\<rparr>"

definition payload_request :: "WireLib \<Rightarrow> WorkIds \<Rightarrow> GqlRequest" where
  "payload_request lib ids = \<lparr>rq_root = PayloadRoot, rq_variables = JObject [(''work'', work_json lib ids)]\<rparr>"

definition gq_payload :: "WireLib \<Rightarrow> (json, Error) result \<Rightarrow> (Content, Error) result" where
  "gq_payload lib answer =
     and_then (gq_call lib PayloadOp PayloadRoot answer) (\<lambda>root. and_then (gq_object root ''content'') gq_content)"

definition upload_payload_request :: "WireLib \<Rightarrow> WorkIds \<Rightarrow> uuid \<Rightarrow> Content \<Rightarrow> GqlRequest" where
  "upload_payload_request lib ids job c = input_request UploadPayloadRoot
     [(''forJobId'', json_id lib job), (''content'', content_json c), (''work'', work_json lib ids)]"

definition gq_done :: "WireLib \<Rightarrow> Operation \<Rightarrow> GqlRoot \<Rightarrow> (json, Error) result \<Rightarrow> (unit, Error) result" where
  "gq_done lib op root answer = map_sum id (\<lambda>_. ()) (gq_call lib op root answer)"

definition gq_upload_payload :: "WireLib \<Rightarrow> (json, Error) result \<Rightarrow> (unit, Error) result" where
  "gq_upload_payload lib answer = gq_done lib UploadOp UploadPayloadRoot answer"

definition upload_result_request :: "WireLib \<Rightarrow> WorkIds \<Rightarrow> Content \<Rightarrow> GqlRequest" where
  "upload_result_request lib ids c = input_request UploadResultRoot [(''work'', work_json lib ids), (''answer'', content_json c)]"

definition gq_upload_result :: "WireLib \<Rightarrow> (json, Error) result \<Rightarrow> (unit, Error) result" where
  "gq_upload_result lib answer = gq_done lib ResultOp UploadResultRoot answer"

definition read_result_request :: "WireLib \<Rightarrow> WorkIds \<Rightarrow> ResultRef \<Rightarrow> bool \<Rightarrow> GqlRequest" where
  "read_result_request lib ids result keep = input_request ReadResultRoot
     [(''work'', work_json lib ids), (''resultId'', (case result of ResultRef u \<Rightarrow> json_id lib u)), (''keep'', JBool keep)]"

definition gq_read_result :: "WireLib \<Rightarrow> (json, Error) result \<Rightarrow> (Content, Error) result" where
  "gq_read_result lib answer =
     and_then (gq_call lib ResultOp ReadResultRoot answer) (\<lambda>root. and_then (gq_object root ''content'') gq_content)"

definition attachment_request :: "WireLib \<Rightarrow> WorkIds \<Rightarrow> uuid \<Rightarrow> uuid \<Rightarrow> GqlRequest" where
  "attachment_request lib ids mail attachment = \<lparr>rq_root = AttachmentRoot, rq_variables =
     JObject [(''work'', work_json lib ids), (''mailId'', json_id lib mail), (''attachmentId'', json_id lib attachment)]\<rparr>"

definition gq_read_attachment :: "WireLib \<Rightarrow> (json, Error) result \<Rightarrow> (ContentAttachment, Error) result" where
  "gq_read_attachment lib answer =
     and_then (gq_call lib AttachmentOp AttachmentRoot answer) (\<lambda>root.
       and_then (gq_object root ''attachment'') (gq_attachment ''contentType''))"

definition unread_request :: "WireLib \<Rightarrow> WorkIds \<Rightarrow> uuid option \<Rightarrow> GqlRequest" where
  "unread_request lib ids address = \<lparr>rq_root = UnreadRoot, rq_variables =
     JObject [(''work'', work_json lib ids), (''address'', json_opt_id lib address)]\<rparr>"

definition gq_unread_each :: "WireLib \<Rightarrow> (json, Error) result \<Rightarrow> (Read list, Error) result" where
  "gq_unread_each lib answer =
     and_then (gq_call lib ReadOp UnreadRoot answer) (\<lambda>root.
       map_sum id (map (gq_read lib)) (gq_list root ''items''))"

fun read_item :: "Read \<Rightarrow> (UnreadItem, Error) result" where
  "read_item (ReadItem u) = Ok u"
| "read_item (ReadBad b) = Err (bad_error b)"

definition gq_unread :: "WireLib \<Rightarrow> (json, Error) result \<Rightarrow> (UnreadItem list, Error) result" where
  "gq_unread lib answer = and_then (gq_unread_each lib answer) (\<lambda>rs. collect_results (map read_item rs))"

definition read_mail_request :: "WireLib \<Rightarrow> WorkIds \<Rightarrow> uuid \<Rightarrow> uuid \<Rightarrow> GqlRequest" where
  "read_mail_request lib ids mail address = \<lparr>rq_root = MailRoot, rq_variables =
     JObject [(''work'', work_json lib ids), (''mailId'', json_id lib mail), (''address'', json_id lib address)]\<rparr>"

definition gq_mail :: "WireLib \<Rightarrow> json \<Rightarrow> (Mail, Error) result" where
  "gq_mail lib v =
     and_then (gq_uuid lib v ''mailId'') (\<lambda>i.
     and_then (gq_uuid lib v ''from'') (\<lambda>sender.
     and_then (gq_author v) (\<lambda>author.
     and_then (gq_opt_uuid lib v ''sourceConversationId'') (\<lambda>source.
     and_then (gq_string v ''subject'') (\<lambda>subject.
     and_then (gq_string v ''body'') (\<lambda>body.
     and_then (gq_uuids lib v ''to'') (\<lambda>ts.
     and_then (gq_uuids lib v ''cc'') (\<lambda>cs.
     and_then (gq_mail_attachments lib v ''attachments'') (\<lambda>atts.
       Ok \<lparr>mail_id = i, mail_from = sender, mail_author = author, mail_source_conversation = source,
           mail_subject = subject, mail_body = body, mail_to = ts, mail_cc = cs, mail_attachments = atts\<rparr>)))))))))"

definition gq_read_mail :: "WireLib \<Rightarrow> (json, Error) result \<Rightarrow> (Mail, Error) result" where
  "gq_read_mail lib answer =
     and_then (gq_call lib ReadOp MailRoot answer) (\<lambda>root. and_then (gq_object root ''mail'') (gq_mail lib))"

definition upload_attachment_request :: "WireLib \<Rightarrow> WorkIds \<Rightarrow> NewMailInput \<Rightarrow> NewMailAttachment \<Rightarrow> GqlRequest" where
  "upload_attachment_request lib ids mail a = input_request UploadAttachmentRoot
     [(''work'', work_json lib ids), (''mailId'', json_id lib (new_mail_id mail)), (''attachmentId'', json_id lib (new_att_id a)),
      (''fromAddress'', json_id lib (from_address mail)), (''name'', JString (new_att_name a)),
      (''contentType'', JString (new_att_content_type a)), (''content'', JString (new_att_content a))]"

definition send_mail_request :: "WireLib \<Rightarrow> WorkIds \<Rightarrow> NewMailInput \<Rightarrow> GqlRequest" where
  "send_mail_request lib ids mail = input_request SendMailRoot
     [(''work'', work_json lib ids), (''mailId'', json_id lib (new_mail_id mail)), (''fromAddress'', json_id lib (from_address mail)),
      (''author'', JString (new_author mail)), (''sourceConversationId'', json_id lib (new_source_conversation mail)),
      (''subject'', JString (new_subject mail)), (''body'', JString (new_body mail)),
      (''to'', JArray (map (json_id lib) (new_to mail))), (''cc'', JArray (map (json_id lib) (new_cc mail))),
      (''attachments'', JArray (map (\<lambda>a. JObject [(''attachmentId'', json_id lib (new_att_id a)), (''name'', JString (new_att_name a))])
         (new_attachments mail)))]"

text \<open>
  \<open>send_mail\<close> against a backend whose answer may depend on the request and on how many came before; the
  requests that were made are part of the result.
\<close>

fun send_attachments ::
  "WireLib \<Rightarrow> WorkIds \<Rightarrow> NewMailInput \<Rightarrow> (nat \<Rightarrow> GqlRequest \<Rightarrow> (json, Error) result) \<Rightarrow> nat \<Rightarrow> NewMailAttachment list \<Rightarrow>
   (unit, Error) result \<times> GqlRequest list" where
  "send_attachments lib ids mail backend n [] =
     (let r = send_mail_request lib ids mail in (gq_done lib MailOp SendMailRoot (backend n r), [r]))"
| "send_attachments lib ids mail backend n (a # as) =
     (let r = upload_attachment_request lib ids mail a in
      case gq_call lib MailOp UploadAttachmentRoot (backend n r) of
        Inl e \<Rightarrow> (Err e, [r])
      | Inr _ \<Rightarrow> (let (res, rs) = send_attachments lib ids mail backend (n + 1) as in (res, r # rs)))"

definition send_mail ::
  "WireLib \<Rightarrow> WorkIds \<Rightarrow> NewMailInput \<Rightarrow> (nat \<Rightarrow> GqlRequest \<Rightarrow> (json, Error) result) \<Rightarrow> (unit, Error) result \<times> GqlRequest list" where
  "send_mail lib ids mail backend = send_attachments lib ids mail backend 0 (new_attachments mail)"

definition save_state_request :: "WireLib \<Rightarrow> WorkIds \<Rightarrow> json \<Rightarrow> GqlRequest" where
  "save_state_request lib ids state = input_request SaveStateRoot [(''work'', work_json lib ids), (''state'', state)]"

definition gq_save_state :: "WireLib \<Rightarrow> (json, Error) result \<Rightarrow> (unit, Error) result" where
  "gq_save_state lib answer = gq_done lib SavedStateOp SaveStateRoot answer"

definition saved_state_request :: "WireLib \<Rightarrow> WorkIds \<Rightarrow> GqlRequest" where
  "saved_state_request lib ids = \<lparr>rq_root = SavedStateRoot, rq_variables = JObject [(''work'', work_json lib ids)]\<rparr>"

definition gq_saved_state :: "WireLib \<Rightarrow> (json, Error) result \<Rightarrow> (SavedState, Error) result" where
  "gq_saved_state lib answer =
     and_then (gq_call lib SavedStateOp SavedStateRoot answer) (\<lambda>root.
     and_then (or_unreadable ''state'' (json_get root ''state'')) (\<lambda>state.
     and_then (gq_uuids lib root ''agentIds'') (\<lambda>agent_ids.
     and_then (gq_uuids lib root ''mailAddresses'') (\<lambda>addresses.
       Ok \<lparr>saved_state = state, saved_agent_ids = agent_ids, saved_mail_addresses = addresses\<rparr>))))"

section \<open>What the readers give\<close>

lemma gq_present_Cons: "gq_present (JObject ((k, v) # ms)) key = (if k = key then (if v = JNull then None else Some v) else gq_present (JObject ms) key)"
  by (cases v) (simp_all add: gq_present_def json_get_def)

lemma attachment_reads: "gq_attachment ''contentType'' (attachment_json a) = Ok a"
  by (simp add: gq_attachment_def attachment_json_def gq_string_def gq_present_Cons json_str_def or_unreadable_def)

text \<open>What is uploaded is what a payload or a result is read from: a content survives the wire.\<close>

lemma content_reads: "gq_content (content_json c) = Ok c"
proof -
  have "collect_results (map (gq_attachment ''contentType'') (map attachment_json (content_attachments c))) = Ok (content_attachments c)"
    unfolding collect_results_ok by (simp add: comp_def attachment_reads)
  then show ?thesis
    by (simp add: gq_content_def gq_content_with_def content_json_def gq_string_def gq_list_def gq_present_Cons json_str_def or_unreadable_def)
qed

lemma payload_reads:
  "gq_payload lib (Ok (JObject [(wl_root lib PayloadRoot, JObject [(''success'', JBool True), (''content'', content_json c)])])) = Ok c"
proof -
  have "content_json c \<noteq> JNull" "is_object (content_json c)" by (simp_all add: content_json_def)
  then show ?thesis
    by (simp add: gq_payload_def gq_call_def json_get_def gq_object_def gq_present_Cons content_reads)
qed

definition ids_only_unreadable :: "('a, Error) result \<Rightarrow> bool" where
  "ids_only_unreadable r \<longleftrightarrow> (\<forall>e. r = Err e \<longrightarrow> (\<exists>t. e = gq_unreadable t))"

named_theorems reader_errors \<open>a reader fails only as unreadable\<close>

lemma errors_values [reader_errors]: "ids_only_unreadable (Ok x)" "ids_only_unreadable (Err (gq_unreadable t))" "ids_only_unreadable (or_unreadable t y)"
  by (auto simp: ids_only_unreadable_def or_unreadable_def split: option.splits)

lemma errors_and_then: "ids_only_unreadable r \<Longrightarrow> (\<And>x. ids_only_unreadable (f x)) \<Longrightarrow> ids_only_unreadable (and_then r f)"
  by (cases r) (auto simp: ids_only_unreadable_def)

lemma errors_map: "ids_only_unreadable r \<Longrightarrow> ids_only_unreadable (map_sum id f r)"
  by (cases r) (auto simp: ids_only_unreadable_def)

lemma errors_optional: "(\<And>x. ids_only_unreadable (rd x)) \<Longrightarrow> ids_only_unreadable (gq_optional rd v key)"
  by (auto simp: gq_optional_def intro: reader_errors errors_map split: option.split)

lemma errors_collect: "(\<And>x. ids_only_unreadable (rd x)) \<Longrightarrow> ids_only_unreadable (collect_results (map rd vs))"
proof (induction vs)
  case (Cons v vs)
  have l: "ids_only_unreadable (collect_results (map rd vs))" by (rule Cons.IH) (rule Cons.prems)
  show ?case
  proof (cases "rd v")
    case (Inl e)
    then show ?thesis using Cons.prems [of v] by (simp add: ids_only_unreadable_def)
  next
    case (Inr x)
    then show ?thesis using errors_map [OF l] by simp
  qed
qed (simp add: reader_errors)

lemma errors_if: "(c \<Longrightarrow> ids_only_unreadable a) \<Longrightarrow> (\<not> c \<Longrightarrow> ids_only_unreadable b) \<Longrightarrow> ids_only_unreadable (if c then a else b)"
  by simp

lemmas errors_lift = errors_and_then errors_map errors_optional errors_collect errors_if

lemma errors_basic [reader_errors]:
  "ids_only_unreadable (gq_uuid_of lib v key)" "ids_only_unreadable (gq_uuid lib v key)" "ids_only_unreadable (gq_object v key)"
  "ids_only_unreadable (gq_opt_uuid lib v key)" "ids_only_unreadable (gq_string v key)" "ids_only_unreadable (gq_opt_string v key)"
  "ids_only_unreadable (gq_opt_integer lib v key)" "ids_only_unreadable (gq_list v key)"
proof -
  show u: "ids_only_unreadable (gq_uuid_of lib v key)" for v by (simp add: gq_uuid_of_def reader_errors)
  show "ids_only_unreadable (gq_uuid lib v key)" by (auto simp: gq_uuid_def reader_errors u split: option.split)
  show "ids_only_unreadable (gq_object v key)" by (auto simp: gq_object_def reader_errors split: option.split)
qed (auto simp: gq_opt_uuid_def gq_uuid_of_def gq_string_def gq_opt_string_def gq_opt_integer_def gq_list_def
       intro!: errors_lift reader_errors)

lemma errors_size [reader_errors]: "ids_only_unreadable (gq_size lib v)"
  unfolding gq_size_def by (intro errors_and_then reader_errors) (auto simp: reader_errors split: option.split)

lemma errors_attachments [reader_errors]: "ids_only_unreadable (gq_mail_attachments lib v key)"
  unfolding gq_mail_attachments_def gq_mail_attachment_def by (intro errors_lift reader_errors)

lemma errors_author [reader_errors]: "ids_only_unreadable (gq_author v)"
  unfolding gq_author_def by (intro errors_and_then reader_errors) (simp add: reader_errors)

lemma errors_content [reader_errors]: "ids_only_unreadable (gq_content_with key v)" "ids_only_unreadable (gq_answer v)"
proof -
  show c: "ids_only_unreadable (gq_content_with key v)" for key
    unfolding gq_content_with_def gq_attachment_def by (intro errors_lift reader_errors)
  show "ids_only_unreadable (gq_answer v)" by (simp add: gq_answer_def c reader_errors)
qed

lemma errors_report [reader_errors]: "ids_only_unreadable (gq_report v)"
proof -
  have "ids_only_unreadable (gq_report_kind v)"
    unfolding gq_report_kind_def by (intro errors_and_then reader_errors) (auto simp: reader_errors split: option.split)
  then show ?thesis unfolding gq_report_def by (auto intro!: errors_and_then reader_errors)
qed

lemma errors_notice [reader_errors]: "ids_only_unreadable (gq_notice lib v i address)"
  unfolding gq_notice_def Let_def by (intro errors_lift reader_errors)

lemma errors_item: "ids_only_unreadable (gq_item lib v)"
  unfolding gq_item_def gq_direct_mail_def by (intro errors_lift reader_errors)

text \<open>\<open>unread\<close> gives the items when all can be read, and else the error of the first that cannot be.\<close>

lemma unread_collects:
  "collect_results (map read_item (map ReadItem us)) = Ok us"
  "collect_results (map read_item (map ReadItem us @ ReadBad b # rs)) = Err (bad_error b)"
  by (induction us) simp_all

section \<open>How calls are judged\<close>

lemma json_str_iff: "json_str x = Some y \<longleftrightarrow> x = JString y"
  by (cases x) (auto simp: json_str_def)

lemma json_bool_iff: "json_bool x = Some y \<longleftrightarrow> x = JBool y"
  by (cases x) auto

lemma root_text_ok: "root_text root key = Ok t \<longleftrightarrow> json_get root key = Some (JString t)"
proof -
  have "Option.bind (json_get root key) json_str = Some t \<longleftrightarrow> json_get root key = Some (JString t)"
    by (simp add: bind_eq_Some_conv json_str_iff)
  then show ?thesis by (auto simp: root_text_def split: option.splits)
qed

lemma add_bad_addresses_prefix: "add_bad_addresses msg es = Ok m \<Longrightarrow> \<exists>lines. m = msg @ lines"
proof (induction msg es rule: add_bad_addresses.induct)
  case (2 msg entry es)
  then obtain line where "bad_address_line entry = Some line" "add_bad_addresses (msg @ CHR 0x0A # line) es = Ok m"
    by (auto split: option.splits)
  with "2.IH" obtain l where "m = (msg @ CHR 0x0A # line) @ l" by blast
  then show ?case by auto
qed simp

lemma errors_text [reader_errors]:
  "ids_only_unreadable (root_text root key)" "ids_only_unreadable (add_bad_addresses msg es)" "ids_only_unreadable (refusal_message root)"
proof -
  show t: "ids_only_unreadable (root_text root key)" for key
    by (auto simp: root_text_def ids_only_unreadable_def split: option.splits)
  show a: "ids_only_unreadable (add_bad_addresses msg es)" for msg es
    by (induction msg es rule: add_bad_addresses.induct) (auto simp: ids_only_unreadable_def split: option.splits)
  show "ids_only_unreadable (refusal_message root)"
    unfolding refusal_message_def by (intro errors_and_then t a)
qed

lemma refusal_message_ok:
  "refusal_message root = Ok m \<Longrightarrow> \<exists>msg lines. json_get root ''message'' = Some (JString msg) \<and> m = msg @ lines"
  using add_bad_addresses_prefix by (auto simp: refusal_message_def and_then_ok root_text_ok)

text \<open>Every result of a call, case by case.\<close>

lemma gq_call_cases:
  obtains (backend) e where "answer = Err e" "gq_call lib op root_name answer = Err (retag e op)"
  | (unreadable) t where "gq_call lib op root_name answer = Err (gq_unreadable t)"
      "\<not> (\<exists>data v. answer = Ok data \<and> json_get data (wl_root lib root_name) = Some v \<and> is_object v \<and> json_get v ''success'' = Some (JBool True))"
  | (success) data v where "answer = Ok data" "json_get data (wl_root lib root_name) = Some v" "is_object v"
      "json_get v ''success'' = Some (JBool True)" "gq_call lib op root_name answer = Ok v"
  | (refused) data root why msg where "answer = Ok data" "json_get data (wl_root lib root_name) = Some root"
      "json_get root ''success'' = Some (JBool False)" "json_get root ''reason'' = Some (JString why)" "refusal_message root = Ok msg"
      "gq_call lib op root_name answer = Err (error_refused op (from_word why) msg)"
proof (cases answer)
  case (Inl e)
  then show thesis using that(1) by (simp add: gq_call_def)
next
  case (Inr data)
  show thesis
  proof (cases "\<exists>root b. json_get data (wl_root lib root_name) = Some root \<and> is_object root \<and> json_get root ''success'' = Some (JBool b)")
    case False
    then have "\<exists>t. gq_call lib op root_name answer = Err (gq_unreadable t)"
      by (auto simp: gq_call_def Inr bind_eq_Some_conv json_bool_iff split: option.splits bool.splits)
    then show thesis using False that(2) Inr by auto
  next
    case True
    then obtain root b where r: "json_get data (wl_root lib root_name) = Some root" "is_object root" "json_get root ''success'' = Some (JBool b)"
      by blast
    show thesis
    proof (cases b)
      case True
      then show thesis using that(3) [OF Inr r(1,2)] r by (simp add: gq_call_def Inr)
    next
      case False
      then have c: "gq_call lib op root_name answer =
          and_then (root_text root ''reason'') (\<lambda>why. and_then (refusal_message root) (\<lambda>msg. Err (error_refused op (from_word why) msg)))"
        using r by (simp add: gq_call_def Inr)
      have nt: "\<not> (\<exists>data v. answer = Ok data \<and> json_get data (wl_root lib root_name) = Some v \<and> is_object v \<and> json_get v ''success'' = Some (JBool True))"
        using Inr r False by simp
      show thesis
      proof (cases "root_text root ''reason''")
        case (Inl e)
        then obtain t where "e = gq_unreadable t" using errors_text(1) by (metis ids_only_unreadable_def)
        with c Inl nt that(2) show thesis by simp
      next
        case why: (Inr why)
        show thesis
        proof (cases "refusal_message root")
          case (Inl e)
          then obtain t where "e = gq_unreadable t" using errors_text(3) by (metis ids_only_unreadable_def)
          with c Inl why nt that(2) show thesis by simp
        next
          case msg: (Inr msg)
          with c why r False that(4) [OF Inr r(1)] show thesis by (simp add: root_text_ok)
        qed
      qed
    qed
  qed
qed

text \<open>
  The answers of jobs are judged call by call. A call gives its root exactly when the reply holds
  that root as an object whose success flag is true. Every refusal it gives names its own operation, also
  one that the connection made, and one that jobs itself states has the reason and, in front, the text
  that jobs gave. An error that is no refusal is either the one of the connection, unchanged, or says that
  the reply cannot be read.
\<close>
theorem graphql_call_judged:
  "case gq_call lib op root_name answer of
     Inr v \<Rightarrow> \<exists>data. answer = Ok data \<and> json_get data (wl_root lib root_name) = Some v \<and> is_object v \<and>
       json_get v ''success'' = Some (JBool True)
   | Inl (Refused r) \<Rightarrow> operation r = op \<and>
       ((\<exists>r0. answer = Err (Refused r0) \<and> r = r0\<lparr>operation := op\<rparr>) \<or>
        (\<exists>data root why msg lines. answer = Ok data \<and> json_get data (wl_root lib root_name) = Some root \<and>
           json_get root ''success'' = Some (JBool False) \<and> json_get root ''reason'' = Some (JString why) \<and>
           json_get root ''message'' = Some (JString msg) \<and> reason r = from_word why \<and> message r = msg @ lines))
   | Inl e \<Rightarrow> answer = Err e \<or>
       (\<exists>t. e = gq_unreadable t) \<and>
       (\<nexists>data v. answer = Ok data \<and> json_get data (wl_root lib root_name) = Some v \<and> is_object v \<and> json_get v ''success'' = Some (JBool True))"
proof (cases rule: gq_call_cases [of answer lib op root_name])
  case (backend e)
  then show ?thesis by (cases e) (simp_all add: retag_def)
next
  case (unreadable t)
  then show ?thesis by (simp add: gq_unreadable_def)
next
  case (success data v)
  then show ?thesis by simp
next
  case (refused data root why msg)
  from refusal_message_ok [OF refused(5)] obtain m lines where "json_get root ''message'' = Some (JString m)" "msg = m @ lines" by blast
  with refused show ?thesis by (simp add: error_refused_def refusal_new_def)
qed

section \<open>Items and mails\<close>

text \<open>What the reading of an item guarantees of it.\<close>

definition notice_ok :: "CallNotice \<Rightarrow> bool" where
  "notice_ok n \<longleftrightarrow>
     (case notice_type n of
        None \<Rightarrow> notice_kind n \<in> set (map snd notice_words) \<and> (notice_kind n = NoticeRefused \<or> notice_child_job_id n \<noteq> None)
      | Some word \<Rightarrow> notice_kind n = UnknownNotice \<and> word \<notin> set (map fst notice_words))"

definition mail_ok :: "Mail \<Rightarrow> bool" where
  "mail_ok m \<longleftrightarrow> \<not> list_all is_whitespace (mail_author m) \<and> mail_to m = [] \<and> mail_cc m = []"

definition item_words :: "string list" where
  "item_words = [''MAIL'', ''CC_NOTICE'', ''NOTICE'', ''MAIL_NOTICE'']"

definition item_ok :: "UnreadItem \<Rightarrow> bool" where
  "item_ok u \<longleftrightarrow>
     (case u of
        UDirectMail _ _ m \<Rightarrow> mail_ok m
      | UCallNotice n \<Rightarrow> notice_ok n
      | UUnknown _ _ kind _ \<Rightarrow> kind \<notin> set item_words
      | _ \<Rightarrow> True)"

lemma map_sum_ok: "map_sum id f r = Ok y \<longleftrightarrow> (\<exists>x. r = Ok x \<and> y = f x)"
  by (cases r) auto

lemma kind_of_word_iff: "kind_of_word w = UnknownNotice \<longleftrightarrow> w \<notin> set (map fst notice_words)"
  by (simp add: kind_of_word_def notice_words_def)

lemma kind_of_word_known: "kind_of_word w \<noteq> UnknownNotice \<Longrightarrow> kind_of_word w \<in> set (map snd notice_words)"
  by (simp add: kind_of_word_def notice_words_def split: if_splits)

lemma gq_notice_ok:
  assumes "gq_notice lib v i address = Ok n"
  shows "notice_item_id n = i \<and> notice_address n = address \<and> notice_ok n"
proof -
  from assms obtain word job pos msg report inline result
    where j: "(if kind_of_word word \<noteq> UnknownNotice \<and> kind_of_word word \<noteq> NoticeRefused then map_sum id Some (gq_uuid lib v ''jobId'')
        else gq_opt_uuid lib v ''jobId'') = Ok job"
      and n: "n = \<lparr>notice_item_id = i, notice_address = address, notice_kind = kind_of_word word,
        notice_type = (if kind_of_word word \<noteq> UnknownNotice then None else Some word), notice_child_job_id = job, notice_position = pos,
        notice_message = msg, notice_report = report, notice_inline = inline, notice_result_ref = map_option ResultRef result\<rparr>"
    unfolding gq_notice_def Let_def by (auto simp only: and_then_ok sum.inject)
  have "kind_of_word word \<noteq> UnknownNotice \<Longrightarrow> kind_of_word word \<noteq> NoticeRefused \<Longrightarrow> job \<noteq> None"
    using j by (auto simp: map_sum_ok)
  then show ?thesis using kind_of_word_known [of word] kind_of_word_iff [of word] by (auto simp: n notice_ok_def)
qed

lemma gq_direct_mail_ok: "gq_direct_mail lib v = Ok m \<Longrightarrow> mail_ok m"
  by (auto simp: gq_direct_mail_def and_then_ok gq_author_def mail_ok_def str_trim_empty_iff split: if_splits)


definition demo_wire :: WireLib where
  "demo_wire = \<lparr>wl_uuid = (\<lambda>s. Some (of_nat (length s))), wl_uuid_text = (\<lambda>u. replicate (unat u) CHR ''x''), wl_i64 = (\<lambda>_. None),
     wl_root = (\<lambda>r. case r of SendMailRoot \<Rightarrow> ''sendMail'' | UploadAttachmentRoot \<Rightarrow> ''upload'' | _ \<Rightarrow> ''root'')\<rparr>"

definition demo_notice_entry :: json where
  "demo_notice_entry = JObject [(''itemId'', JString ''xxxx''), (''itemKind'', JString ''NOTICE''),
     (''noticeType'', JString ''RUN_COMPLETED''), (''jobId'', JString ''xx'')]"

lemmas gq_defs = gq_item_def gq_notice_def gq_uuid_def gq_opt_uuid_def gq_optional_def gq_string_def gq_opt_string_def
  gq_opt_integer_def gq_present_def gq_uuid_of_def or_unreadable_def json_get_def json_str_def Let_def kind_of_word_def notice_words_def


text \<open>The requests of a mail: its attachments in their order, then the mail.\<close>

definition mail_requests :: "WireLib \<Rightarrow> WorkIds \<Rightarrow> NewMailInput \<Rightarrow> GqlRequest list" where
  "mail_requests lib ids mail = map (upload_attachment_request lib ids mail) (new_attachments mail) @ [send_mail_request lib ids mail]"

definition mail_answer :: "WireLib \<Rightarrow> (nat \<Rightarrow> GqlRequest \<Rightarrow> (json, Error) result) \<Rightarrow> nat \<Rightarrow> GqlRequest \<Rightarrow> (json, Error) result" where
  "mail_answer lib backend n r = gq_call lib MailOp (rq_root r) (backend n r)"

lemma request_roots [simp]: "rq_root (upload_attachment_request lib ids mail a) = UploadAttachmentRoot"
  "rq_root (send_mail_request lib ids mail) = SendMailRoot"
  by (simp_all add: upload_attachment_request_def send_mail_request_def input_request_def)

lemma send_attachments_ok:
  assumes "send_attachments lib ids mail backend n as = (res, rs)"
  defines "all \<equiv> map (upload_attachment_request lib ids mail) as @ [send_mail_request lib ids mail]"
  shows "\<exists>k. k < length all \<and> rs = take (Suc k) all \<and> (\<forall>i < k. \<exists>v. mail_answer lib backend (n + i) (all ! i) = Ok v) \<and>
    (case res of Inr _ \<Rightarrow> k = length as \<and> (\<exists>v. mail_answer lib backend (n + k) (all ! k) = Ok v)
     | Inl e \<Rightarrow> mail_answer lib backend (n + k) (all ! k) = Err e)"
  using assms(1) unfolding all_def
proof (induction as arbitrary: n res rs)
  case Nil
  then show ?case
    by (cases "gq_call lib MailOp SendMailRoot (backend n (send_mail_request lib ids mail))")
      (auto simp: gq_done_def mail_answer_def Let_def)
next
  case (Cons a as)
  let ?r = "upload_attachment_request lib ids mail a"
  let ?all = "map (upload_attachment_request lib ids mail) as @ [send_mail_request lib ids mail]"
  show ?case
  proof (cases "gq_call lib MailOp UploadAttachmentRoot (backend n ?r)")
    case (Inl e)
    then show ?thesis using Cons.prems by (intro exI [of _ 0]) (auto simp: mail_answer_def Let_def)
  next
    case (Inr v)
    obtain rs1 where s: "send_attachments lib ids mail backend (n + 1) as = (res, rs1)" and rs: "rs = ?r # rs1"
      using Cons.prems Inr by (auto simp: Let_def split: prod.splits)
    from Cons.IH [OF s] obtain k where k: "k < length ?all" "rs1 = take (Suc k) ?all"
      "\<forall>i < k. \<exists>v. mail_answer lib backend (n + 1 + i) (?all ! i) = Ok v"
      "case res of Inr _ \<Rightarrow> k = length as \<and> (\<exists>v. mail_answer lib backend (n + 1 + k) (?all ! k) = Ok v)
       | Inl e \<Rightarrow> mail_answer lib backend (n + 1 + k) (?all ! k) = Err e" by blast
    have "\<forall>i < Suc k. \<exists>v. mail_answer lib backend (n + i) ((?r # ?all) ! i) = Ok v"
    proof (intro allI impI)
      fix i assume "i < Suc k"
      with k(3) Inr show "\<exists>v. mail_answer lib backend (n + i) ((?r # ?all) ! i) = Ok v"
        by (cases i) (auto simp: mail_answer_def)
    qed
    then show ?thesis using k rs by (intro exI [of _ "Suc k"]) (auto split: sum.splits)
  qed
qed

text \<open>
  A mail is sent after its attachments. The requests that were made are an initial part of the uploads
  in the order of the attachments and then the mail, with the ids of the mail in each; each but the last was
  answered with success; the call succeeds exactly when all of them were made and the last one succeeded
  too, and else gives the error of the last one and makes no further request.
\<close>
theorem send_mail_in_order:
  assumes "send_mail lib ids mail backend = (res, rs)"
  shows "prefix rs (mail_requests lib ids mail) \<and> rs \<noteq> [] \<and>
    (\<forall>i < length rs - 1. \<exists>v. mail_answer lib backend i (rs ! i) = Ok v) \<and>
    (res = Ok () \<longleftrightarrow> rs = mail_requests lib ids mail \<and> (\<exists>v. mail_answer lib backend (length rs - 1) (last rs) = Ok v)) \<and>
    (\<forall>e. res = Err e \<longrightarrow> mail_answer lib backend (length rs - 1) (last rs) = Err e)"
proof -
  let ?all = "mail_requests lib ids mail"
  from send_attachments_ok [OF assms [unfolded send_mail_def], folded mail_requests_def] obtain k where k: "k < length ?all" "rs = take (Suc k) ?all"
    "\<forall>i < k. \<exists>v. mail_answer lib backend i (?all ! i) = Ok v"
    "case res of Inr _ \<Rightarrow> k = length (new_attachments mail) \<and> (\<exists>v. mail_answer lib backend k (?all ! k) = Ok v)
     | Inl e \<Rightarrow> mail_answer lib backend k (?all ! k) = Err e" unfolding add_0 by blast
  have len: "length rs = Suc k" using k by simp
  have last: "last rs = ?all ! k" using k by (simp add: take_Suc_conv_app_nth)
  have all: "length ?all = Suc (length (new_attachments mail))" by (simp add: mail_requests_def)
  have full: "rs = ?all \<longleftrightarrow> k = length (new_attachments mail)" using k(2) len all by (metis Suc_inject take_all_iff order_refl)
  have "prefix rs ?all" by (simp add: k(2) take_is_prefix)
  moreover have "rs \<noteq> []" using len by auto
  moreover have "\<forall>i < length rs - 1. \<exists>v. mail_answer lib backend i (rs ! i) = Ok v" using k(3) by (simp add: len) (simp add: k(2))
  moreover have "res = Ok () \<longleftrightarrow> rs = ?all \<and> (\<exists>v. mail_answer lib backend (length rs - 1) (last rs) = Ok v)"
    using k(4) by (cases res) (auto simp: len last full)
  moreover have "\<forall>e. res = Err e \<longrightarrow> mail_answer lib backend (length rs - 1) (last rs) = Err e" using k(4) by (auto simp: len last)
  ultimately show ?thesis by blast
qed

definition demo_mail_input :: NewMailInput where
  "demo_mail_input = \<lparr>new_mail_id = 5, from_address = 7, new_author = ''a'', new_source_conversation = 6, new_subject = ''s'',
     new_body = ''b'', new_to = [8], new_cc = [], new_attachments = [\<lparr>new_att_id = 4, new_att_name = ''x'',
       new_att_content_type = ''text/plain'', new_att_content = ''1''\<rparr>]\<rparr>"

definition demo_backend :: "nat \<Rightarrow> GqlRequest \<Rightarrow> (json, Error) result" where
  "demo_backend n r =
     (if n = 0 then Ok (JObject [(''upload'', JObject [(''success'', JBool True)])])
      else Ok (JObject [(''sendMail'', JObject [(''success'', JBool False), (''reason'', JString ''busy''), (''message'', JString ''later'')])]))"

definition demo_ids :: WorkIds where
  "demo_ids = \<lparr>ids_job_id = 1, ids_run_id = 2, ids_instance_key = ''i''\<rparr>"

text \<open>The upload is taken and the mail is refused.\<close>

theorem send_mail_in_order_witness:
  "snd (send_mail demo_wire demo_ids demo_mail_input demo_backend) = mail_requests demo_wire demo_ids demo_mail_input \<and>
   fst (send_mail demo_wire demo_ids demo_mail_input demo_backend) = Err (error_refused MailOp (from_word ''busy'') ''later'')"
proof -
  let ?r = "send_mail demo_wire demo_ids demo_mail_input demo_backend"
  have s: "length (snd ?r) = 2" and e: "fst ?r = Err (error_refused MailOp (from_word ''busy'') ''later'')"
    by (simp_all add: send_mail_def demo_mail_input_def gq_call_def gq_done_def demo_backend_def demo_wire_def json_get_def
        root_text_def json_str_def refusal_message_def Let_def)
  have "?r = (fst ?r, snd ?r)" by simp
  from send_mail_in_order [OF this] have "prefix (snd ?r) (mail_requests demo_wire demo_ids demo_mail_input)" by (elim conjE)
  moreover have "length (mail_requests demo_wire demo_ids demo_mail_input) = 2" by (simp add: mail_requests_def demo_mail_input_def)
  ultimately show ?thesis using s e by (auto elim!: prefixE)
qed

end
