(* ===== verification/Transport_Commands.thy ===== *)
theory Transport_Commands
  imports Jobs_Model Jobs_Error
begin

text \<open>
  The commands that a Run gives over the bus (\<open>runner_transport/outcomes.rs\<close>, \<open>commands.rs\<close>), the
  sending of its facts (\<open>publish.rs\<close>), and how errors of the bus are sorted (\<open>fail.rs\<close>). What the bus
  answers is an input. An error chain is the list of its links, each with what the code asks of it.
\<close>

section \<open>Sorting the errors of the bus\<close>

datatype ErrorLink =
    LinkPublish bool bool        \<comment> \<open>a publish error: the stream was not found, it timed out\<close>
  | LinkMissingStream            \<comment> \<open>an error of JetStream that says the stream was not found\<close>
  | LinkTimedOut                 \<comment> \<open>a request or an input/output error that timed out\<close>
  | LinkOther

datatype ErrorClass = ClsMissing | ClsTimeout | ClsOther

fun single_class :: "ErrorLink \<Rightarrow> ErrorClass" where
  "single_class (LinkPublish not_found timed_out) = (if not_found then ClsMissing else if timed_out then ClsTimeout else ClsOther)"
| "single_class LinkMissingStream = ClsMissing"
| "single_class LinkTimedOut = ClsTimeout"
| "single_class LinkOther = ClsOther"

type_synonym ErrorChain = "(ErrorLink \<times> string) list"

fun classify :: "ErrorChain \<Rightarrow> ErrorClass" where
  "classify [] = ClsOther"
| "classify ((l, _) # ls) = (case single_class l of ClsOther \<Rightarrow> classify ls | found \<Rightarrow> found)"

fun chain_text :: "ErrorChain \<Rightarrow> string" where
  "chain_text [] = ''''"
| "chain_text [(_, t)] = t"
| "chain_text ((_, t) # ls) = t @ '': '' @ chain_text ls"

definition fail_missing :: "string \<Rightarrow> Error" where
  "fail_missing object = InfraMissing (object @ '' is missing'')"

definition fail_unsent :: "string \<Rightarrow> ErrorChain \<Rightarrow> Error" where
  "fail_unsent object e =
     (case classify e of
        ClsMissing \<Rightarrow> fail_missing object
      | ClsTimeout \<Rightarrow> Unavailable (failure_wait (object @ '': '' @ chain_text e))
      | ClsOther \<Rightarrow> error_unavailable (object @ '': '' @ chain_text e))"

definition fail_sent :: "string \<Rightarrow> ErrorChain \<Rightarrow> Error" where
  "fail_sent object e =
     (case classify e of
        ClsMissing \<Rightarrow> fail_missing object
      | ClsTimeout \<Rightarrow> error_wait_fired (object @ '': '' @ chain_text e)
      | ClsOther \<Rightarrow> error_lost (object @ '': '' @ chain_text e))"

text \<open>The errors of the fabric, as far as the code tells them apart; the last string is how it is shown.\<close>

datatype FabricError =
    FbConsume bool string
  | FbPublishNoStream string
  | FbPublishTimeout string string
  | FbSubjectNotCovered string
  | FbKv bool string
  | FbDecode string string
  | FbOther string

fun fail_fabric :: "string \<Rightarrow> FabricError \<Rightarrow> Error" where
  "fail_fabric object (FbConsume no_stream shown) = (if no_stream then fail_missing object else error_lost (object @ '': '' @ shown))"
| "fail_fabric object (FbPublishNoStream _) = fail_missing object"
| "fail_fabric object (FbPublishTimeout detail _) = error_wait_fired (object @ '': '' @ detail)"
| "fail_fabric object (FbSubjectNotCovered _) = fail_missing object"
| "fail_fabric object (FbKv not_found shown) = (if not_found then fail_missing object else error_lost (object @ '': '' @ shown))"
| "fail_fabric object (FbDecode subject _) = Unreadable (subject @ '': the payload cannot be decoded'')"
| "fail_fabric object (FbOther shown) = error_lost (object @ '': '' @ shown)"

definition fail_fabric_unsent :: "string \<Rightarrow> FabricError \<Rightarrow> Error" where
  "fail_fabric_unsent object e = (case fail_fabric object e of Lost f \<Rightarrow> Unavailable f | other \<Rightarrow> other)"

section \<open>A command and its outcome\<close>

text \<open>
  An outcome event for the command: on the subject of success, on that of the rejection (with what was
  decoded of it), or on another.
\<close>

datatype CmdOutcome = OcSuccess | OcRejected "(string \<times> string, Error) result" | OcStray string

definition outcome_of :: "Operation \<Rightarrow> CmdOutcome \<Rightarrow> (unit, Error) result" where
  "outcome_of op found =
     (case found of
        OcSuccess \<Rightarrow> Ok ()
      | OcStray subject \<Rightarrow> Err (Unreadable (''an outcome event on an unexpected subject: '' @ subject))
      | OcRejected (Inl e) \<Rightarrow> Err e
      | OcRejected (Inr (why, msg)) \<Rightarrow> Err (error_refused op (from_word why) msg))"

text \<open>
  A session keeps its awaiter between the attempts: the position in the outcome events of its command
  from which it hears, \<open>None\<close> when it has none. The events of the bus for the command are \<open>es\<close>.
\<close>

record CmdSession =
  cs_awaiter :: "nat option"
  cs_published :: bool

definition session_new :: CmdSession where
  "session_new = \<lparr>cs_awaiter = None, cs_published = False\<rparr>"

datatype CmdHeard = HeardSilence | HeardOutcome CmdOutcome | HeardFailed FabricError

text \<open>A hearing in which the events \<open>more\<close> come; it may fail instead, and then the awaiter is gone.\<close>

definition session_hear :: "CmdSession \<Rightarrow> CmdOutcome list \<Rightarrow> FabricError option \<Rightarrow> CmdHeard \<times> CmdSession" where
  "session_hear s es fails =
     (case cs_awaiter s of
        None \<Rightarrow> (HeardSilence, s)
      | Some p \<Rightarrow>
          (case fails of
             Some e \<Rightarrow> (HeardFailed e, s\<lparr>cs_awaiter := None\<rparr>)
           | None \<Rightarrow>
               if p < length es then (HeardOutcome (es ! p), s\<lparr>cs_awaiter := Some (p + 1)\<rparr>) else (HeardSilence, s)))"

text \<open>
  The names of the two integration streams are constants of the fabric crate (\<open>BusNames\<close>). What the bus
  does in one attempt: the answer to the subscription (\<open>None\<close> when the deadline came first),
  the events that come while the session looks before it sends again, the answer to the publication, the
  events that come then, and whether a hearing fails.
\<close>

record BusNames =
  bn_events :: string
  bn_commands :: string

record AttemptIn =
  ai_subscribe :: "(unit, FabricError) result option"
  ai_look :: "CmdOutcome list"
  ai_look_fails :: "FabricError option"
  ai_publish :: "(unit, FabricError) result option"
  ai_hear :: "CmdOutcome list"
  ai_hear_fails :: "FabricError option"

text \<open>How an attempt ended: with an outcome that was heard, or with an error of the bus.\<close>

datatype AttemptEnd = AeOutcome CmdOutcome | AeError Error

record AttemptLog =
  al_end :: AttemptEnd
  al_published :: bool

definition session_subscribe :: "BusNames \<Rightarrow> AttemptIn \<Rightarrow> CmdOutcome list \<Rightarrow> CmdSession \<Rightarrow> (CmdSession, Error) result" where
  "session_subscribe bn i es s =
     (if cs_awaiter s \<noteq> None then Ok s
      else
        (case ai_subscribe i of
           None \<Rightarrow> Err (error_wait_fired ''the outcome events could not be awaited in time'')
         | Some (Inl e) \<Rightarrow> Err (fail_fabric_unsent (''the stream '' @ bn_events bn) e)
         | Some (Inr _) \<Rightarrow> Ok (s\<lparr>cs_awaiter := Some (length es)\<rparr>)))"

definition session_publish :: "BusNames \<Rightarrow> AttemptIn \<Rightarrow> CmdOutcome list \<Rightarrow> CmdSession \<Rightarrow> AttemptLog \<times> CmdSession \<times> CmdOutcome list" where
  "session_publish bn i es s =
     (let s1 = s\<lparr>cs_published := True\<rparr>; gave = (\<lambda>e. \<lparr>al_end = e, al_published = True\<rparr>) in
      case ai_publish i of
        None \<Rightarrow> (gave (AeError (error_wait_fired ''the command was not confirmed by the bus'')), s1, es)
      | Some (Inl e) \<Rightarrow> (gave (AeError (fail_fabric (''the stream '' @ bn_commands bn) e)), s1, es)
      | Some (Inr _) \<Rightarrow>
          (let es1 = es @ ai_hear i in
           case session_hear s1 es1 (ai_hear_fails i) of
             (HeardOutcome f, s2) \<Rightarrow> (gave (AeOutcome f), s2, es1)
           | (HeardFailed e, s2) \<Rightarrow> (gave (AeError (fail_fabric ''the outcome events'' e)), s2, es1)
           | (HeardSilence, s2) \<Rightarrow> (gave (AeError (error_wait_fired ''no outcome event came within the wait'')), s2, es1)))"

definition session_run :: "BusNames \<Rightarrow> AttemptIn \<Rightarrow> CmdOutcome list \<Rightarrow> CmdSession \<Rightarrow> AttemptLog \<times> CmdSession \<times> CmdOutcome list" where
  "session_run bn i es s =
     (case session_subscribe bn i es s of
        Inl e \<Rightarrow> (\<lparr>al_end = AeError e, al_published = False\<rparr>, s, es)
      | Inr s1 \<Rightarrow>
          if cs_published s1 then
            (let es1 = es @ ai_look i in
             case session_hear s1 es1 (ai_look_fails i) of
               (HeardOutcome f, s2) \<Rightarrow> (\<lparr>al_end = AeOutcome f, al_published = False\<rparr>, s2, es1)
             | (HeardFailed e, s2) \<Rightarrow> (\<lparr>al_end = AeError (fail_fabric ''the outcome events'' e), al_published = False\<rparr>, s2, es1)
             | (HeardSilence, s2) \<Rightarrow> session_publish bn i es1 s2)
          else session_publish bn i es s1)"

definition attempt_result :: "Operation \<Rightarrow> AttemptEnd \<Rightarrow> (unit, Error) result" where
  "attempt_result op e = (case e of AeOutcome f \<Rightarrow> outcome_of op f | AeError x \<Rightarrow> Err x)"

text \<open>\<open>LOOK_BEFORE_RESEND\<close>: twenty milliseconds, but at most a quarter of what is left of the wait.\<close>

definition look_before_resend :: "duration \<Rightarrow> duration" where
  "look_before_resend left = min (20 * 10 ^ 6) (left div 4)"

text \<open>The attempts of a session one after the other, each with the events that came since the one before.\<close>

fun attempts :: "BusNames \<Rightarrow> (CmdOutcome list \<times> AttemptIn) list \<Rightarrow> CmdOutcome list \<Rightarrow> CmdSession \<Rightarrow> AttemptLog list \<times> CmdSession \<times> CmdOutcome list" where
  "attempts bn [] es s = ([], s, es)"
| "attempts bn ((since, i) # is) es s =
     (let (l, s1, es1) = session_run bn i (es @ since) s; (ls, s2, es2) = attempts bn is es1 s1 in (l # ls, s2, es2))"

section \<open>No outcome is lost\<close>

definition position :: "CmdSession \<Rightarrow> nat" where
  "position s = (case cs_awaiter s of Some p \<Rightarrow> p | None \<Rightarrow> 0)"

text \<open>The hearings of an attempt did not fail.\<close>

definition hears :: "AttemptIn \<Rightarrow> bool" where
  "hears i \<longleftrightarrow> ai_look_fails i = None \<and> ai_hear_fails i = None"

text \<open>Outcomes come only after the command was published.\<close>

fun caused :: "BusNames \<Rightarrow> (CmdOutcome list \<times> AttemptIn) list \<Rightarrow> CmdOutcome list \<Rightarrow> CmdSession \<Rightarrow> bool" where
  "caused bn [] es s = True"
| "caused bn ((since, i) # is) es s =
     ((since = [] \<or> cs_published s) \<and> (let (_, s1, es1) = session_run bn i (es @ since) s in caused bn is es1 s1))"

definition heard :: "AttemptLog list \<Rightarrow> CmdOutcome list" where
  "heard log = List.map_filter (\<lambda>l. case al_end l of AeOutcome f \<Rightarrow> Some f | AeError _ \<Rightarrow> None) log"

definition session_ok :: "CmdSession \<Rightarrow> CmdOutcome list \<Rightarrow> bool" where
  "session_ok s es \<longleftrightarrow>
     (case cs_awaiter s of None \<Rightarrow> es = [] \<and> \<not> cs_published s | Some p \<Rightarrow> p \<le> length es \<and> (es = [] \<or> cs_published s))"

definition log_ok :: "AttemptLog \<Rightarrow> bool" where
  "log_ok l \<longleftrightarrow> al_published l \<longrightarrow> (\<forall>f. al_end l \<noteq> AeError (Unavailable f))"

text \<open>What one attempt of a session does that is in order.\<close>

definition attempt_ok :: "CmdSession \<Rightarrow> CmdOutcome list \<Rightarrow> AttemptLog \<Rightarrow> CmdSession \<Rightarrow> CmdOutcome list \<Rightarrow> bool" where
  "attempt_ok s es l s1 es1 \<longleftrightarrow>
     session_ok s1 es1 \<and> prefix es es1 \<and> log_ok l \<and> (cs_published s \<longrightarrow> cs_published s1) \<and>
     (case al_end l of
        AeOutcome f \<Rightarrow> position s < length es1 \<and> f = es1 ! position s \<and> position s1 = Suc (position s)
      | AeError _ \<Rightarrow> position s1 = position s)"

lemma fail_fabric_sent: "fail_fabric object e \<noteq> Unavailable f"
  by (cases e) (simp_all add: fail_missing_def error_lost_def error_wait_fired_def)

lemma session_publish_ok:
  assumes "cs_awaiter s = Some p" and "p \<le> length es" and "ai_hear_fails i = None"
    and "session_publish bn i es s = (l, s1, es1)"
  shows "attempt_ok s es l s1 es1"
proof (cases "ai_publish i = Some (Ok ()) \<and> p < length (es @ ai_hear i)")
  case True
  then have "l = \<lparr>al_end = AeOutcome ((es @ ai_hear i) ! p), al_published = True\<rparr>"
      "s1 = s\<lparr>cs_published := True, cs_awaiter := Some (p + 1)\<rparr>" "es1 = es @ ai_hear i"
    using assms by (auto simp: session_publish_def session_hear_def Let_def)
  with True assms(1) show ?thesis by (simp add: attempt_ok_def session_ok_def log_ok_def position_def)
next
  case False
  have "\<exists>e. l = \<lparr>al_end = AeError e, al_published = True\<rparr> \<and> (\<forall>f. e \<noteq> Unavailable f)"
    and s1: "s1 = s\<lparr>cs_published := True\<rparr>" and es1: "es1 = es \<or> es1 = es @ ai_hear i"
  proof -
    consider "ai_publish i = None" | e where "ai_publish i = Some (Inl e)" | "ai_publish i = Some (Ok ())"
      by (cases "ai_publish i") (metis sumE old.unit.exhaust)+
    then have "(\<exists>e. l = \<lparr>al_end = AeError e, al_published = True\<rparr> \<and> (\<forall>f. e \<noteq> Unavailable f)) \<and>
        s1 = s\<lparr>cs_published := True\<rparr> \<and> (es1 = es \<or> es1 = es @ ai_hear i)"
      using assms False by cases (auto simp: session_publish_def session_hear_def error_wait_fired_def fail_fabric_sent)
    then show "\<exists>e. l = \<lparr>al_end = AeError e, al_published = True\<rparr> \<and> (\<forall>f. e \<noteq> Unavailable f)"
      and "s1 = s\<lparr>cs_published := True\<rparr>" and "es1 = es \<or> es1 = es @ ai_hear i" by auto
  qed
  then show ?thesis using assms(1,2) by (auto simp: attempt_ok_def session_ok_def log_ok_def position_def)
qed

lemma session_run_ok:
  assumes ok: "session_ok s es" and h: "hears i" and r: "session_run bn i es s = (l, s1, es1)"
  shows "attempt_ok s es l s1 es1"
proof (cases "cs_awaiter s")
  case None
  then have e: "es = []" "\<not> cs_published s" using ok by (simp_all add: session_ok_def)
  show ?thesis
  proof (cases "ai_subscribe i = Some (Ok ())")
    case False
    then have "s1 = s" "es1 = es" "\<not> al_published l" "\<exists>x. al_end l = AeError x"
      using r None by (auto simp: session_run_def session_subscribe_def split: option.splits sum.splits)
    then show ?thesis using ok by (auto simp: attempt_ok_def log_ok_def)
  next
    case True
    then have p: "session_publish bn i [] (s\<lparr>cs_awaiter := Some 0\<rparr>) = (l, s1, es1)"
      using r None e by (simp add: session_run_def session_subscribe_def)
    have "attempt_ok (s\<lparr>cs_awaiter := Some 0\<rparr>) [] l s1 es1"
      by (rule session_publish_ok [OF _ _ _ p]) (use h in \<open>simp_all add: hears_def\<close>)
    moreover have "position (s\<lparr>cs_awaiter := Some 0\<rparr>) = position s" by (simp add: position_def None)
    ultimately show ?thesis using e by (cases "al_end l") (simp_all add: attempt_ok_def)
  qed
next
  case (Some p)
  then have sub: "session_subscribe bn i es s = Ok s" by (simp add: session_subscribe_def)
  have p: "p \<le> length es" using ok Some by (simp add: session_ok_def)
  show ?thesis
  proof (cases "cs_published s \<and> p < length (es @ ai_look i)")
    case True
    then have "l = \<lparr>al_end = AeOutcome ((es @ ai_look i) ! p), al_published = False\<rparr>" "s1 = s\<lparr>cs_awaiter := Some (p + 1)\<rparr>"
        "es1 = es @ ai_look i"
      using r sub h Some by (auto simp: session_run_def session_hear_def hears_def Let_def)
    then show ?thesis using True Some p by (simp add: attempt_ok_def session_ok_def log_ok_def position_def)
  next
    case False
    define es0 where "es0 = (if cs_published s then es @ ai_look i else es)"
    have pub: "session_publish bn i es0 s = (l, s1, es1)"
      using r sub h Some False by (auto simp: session_run_def session_hear_def hears_def es0_def)
    have "attempt_ok s es0 l s1 es1"
      by (rule session_publish_ok [OF Some _ _ pub]) (use h p in \<open>auto simp: hears_def es0_def\<close>)
    then show ?thesis by (auto simp: attempt_ok_def es0_def split: if_splits dest: append_prefixD)
  qed
qed

lemma attempts_ok:
  assumes "session_ok s es" and "list_all (\<lambda>(_, i). hears i) is" and "caused bn is es s"
    and "attempts bn is es s = (log, s', es')"
  shows "session_ok s' es' \<and> prefix es es' \<and> list_all log_ok log \<and> position s \<le> position s' \<and>
    heard log = drop (position s) (take (position s') es') \<and> position s' \<le> length es'"
  using assms
proof (induction "is" arbitrary: s es log)
  case Nil
  then show ?case by (auto simp: heard_def session_ok_def position_def split: option.splits)
next
  case (Cons x "is")
  obtain since i where x: "x = (since, i)" by (cases x)
  obtain l s1 es1 where r: "session_run bn i (es @ since) s = (l, s1, es1)" by (metis prod.exhaust)
  obtain ls where a: "attempts bn is es1 s1 = (ls, s', es')" and log: "log = l # ls"
    using Cons.prems(4) r by (auto simp: x Let_def split: prod.splits)
  have c: "since = [] \<or> cs_published s" "caused bn is es1 s1" and h: "hears i" "list_all (\<lambda>(_, i). hears i) is"
    using Cons.prems(2,3) r by (simp_all add: x)
  have "session_ok s (es @ since)" using Cons.prems(1) c(1) by (auto simp: session_ok_def split: option.splits)
  from session_run_ok [OF this h(1) r] have ok: "attempt_ok s (es @ since) l s1 es1" .
  then have s1: "session_ok s1 es1" and px: "prefix es es1" and lo: "log_ok l" by (auto simp: attempt_ok_def dest: append_prefixD)
  note ih = Cons.IH [OF s1 h(2) c(2) a]
  have px': "prefix es es'" using px ih by (auto dest: prefix_order.trans)
  show ?case
  proof (cases "al_end l")
    case (AeError e)
    then have "position s1 = position s" "heard log = heard ls" using ok by (simp_all add: attempt_ok_def heard_def log List.map_filter_def)
    with ih px' lo show ?thesis by (simp add: log)
  next
    case (AeOutcome f)
    then have p: "position s < length es1" "f = es1 ! position s" "position s1 = Suc (position s)"
      and hl: "heard log = f # heard ls" using ok by (simp_all add: attempt_ok_def heard_def log List.map_filter_def)
    from ih obtain zs where es': "es' = es1 @ zs" by (auto elim: prefixE)
    have "drop (position s) (take (position s') es') = es' ! position s # drop (Suc (position s)) (take (position s') es')"
      using ih p by (subst Cons_nth_drop_Suc [symmetric]) auto
    moreover have "es' ! position s = f" using p by (simp add: es' nth_append)
    ultimately show ?thesis using ih px' lo p hl by (simp add: log)
  qed
qed

text \<open>
  C38: no outcome of a command is lost. In a session whose hearings did not fail, and when outcomes come only
  after the command was published, the attempts give the outcomes in the order in which they came, each
  once and without a gap, up to some position. As long as an outcome is waiting behind that position, the
  next attempt ends with it and does not publish the command again, whether it came between the attempts or
  while the session looks. And an attempt that published never ends with an error that says jobs was not
  reached.
\<close>
theorem command_outcomes_kept:
  assumes "list_all (\<lambda>(_, i). hears i) is" and "caused bn is [] session_new"
    and "attempts bn is [] session_new = (log, s, es)"
  shows "heard log = take (position s) es \<and> position s \<le> length es \<and> list_all log_ok log \<and>
    (\<forall>since i. hears i \<and> (since = [] \<or> cs_published s) \<and> position s < length (es @ since @ ai_look i) \<and>
       (ai_look i = [] \<or> cs_published s) \<longrightarrow>
       session_run bn i (es @ since) s =
         (\<lparr>al_end = AeOutcome ((es @ since @ ai_look i) ! position s), al_published = False\<rparr>,
          s\<lparr>cs_awaiter := Some (Suc (position s))\<rparr>, es @ since @ ai_look i))"
proof -
  have "session_ok session_new []" by (simp add: session_ok_def session_new_def)
  note k = attempts_ok [OF this assms]
  have "session_run bn i (es @ since) s =
         (\<lparr>al_end = AeOutcome ((es @ since @ ai_look i) ! position s), al_published = False\<rparr>,
          s\<lparr>cs_awaiter := Some (Suc (position s))\<rparr>, es @ since @ ai_look i)"
    if h: "hears i" and c: "since = [] \<or> cs_published s" and p: "position s < length (es @ since @ ai_look i)"
      and l: "ai_look i = [] \<or> cs_published s" for since i
  proof -
    have "cs_published s" using k c p l by (cases "es = []") (auto simp: session_ok_def position_def split: option.splits)
    moreover from this obtain q where "cs_awaiter s = Some q" "position s = q"
      using k by (auto simp: session_ok_def position_def split: option.splits)
    ultimately show ?thesis using h p by (simp add: session_run_def session_subscribe_def session_hear_def hears_def Let_def)
  qed
  with k show ?thesis by (simp add: position_def session_new_def)
qed

text \<open>The first attempt publishes and times out; the outcome comes later; the second one hears it.\<close>

definition demo_attempt :: AttemptIn where
  "demo_attempt = \<lparr>ai_subscribe = Some (Ok ()), ai_look = [], ai_look_fails = None, ai_publish = Some (Ok ()), ai_hear = [], ai_hear_fails = None\<rparr>"

definition demo_names :: BusNames where
  "demo_names = \<lparr>bn_events = ''evt'', bn_commands = ''cmd''\<rparr>"

theorem command_outcomes_kept_witness:
  "\<exists>s. attempts demo_names [([], demo_attempt)] [] session_new =
      ([\<lparr>al_end = AeError (error_wait_fired ''no outcome event came within the wait''), al_published = True\<rparr>], s, []) \<and>
    fst (session_run demo_names demo_attempt [OcSuccess] s) = \<lparr>al_end = AeOutcome OcSuccess, al_published = False\<rparr>"
proof -
  let ?s = "\<lparr>cs_awaiter = Some 0, cs_published = True\<rparr>"
  let ?log = "[\<lparr>al_end = AeError (error_wait_fired ''no outcome event came within the wait''), al_published = True\<rparr>]"
  have a: "attempts demo_names [([], demo_attempt)] [] session_new = (?log, ?s, [])"
    by (simp add: session_run_def session_subscribe_def session_publish_def session_hear_def session_new_def demo_attempt_def)
  have h: "hears demo_attempt" by (simp add: hears_def demo_attempt_def)
  then have "list_all (\<lambda>(_, i). hears i) [([], demo_attempt)]" by simp
  moreover have "caused demo_names [([], demo_attempt)] [] session_new"
    by (simp add: session_run_def session_subscribe_def session_publish_def session_hear_def session_new_def demo_attempt_def)
  ultimately have "session_run demo_names demo_attempt ([] @ [OcSuccess]) ?s =
      (\<lparr>al_end = AeOutcome (([] @ [OcSuccess] @ ai_look demo_attempt) ! position ?s), al_published = False\<rparr>,
       ?s\<lparr>cs_awaiter := Some (Suc (position ?s))\<rparr>, [] @ [OcSuccess] @ ai_look demo_attempt)"
    using command_outcomes_kept [OF _ _ a] h by (simp add: position_def demo_attempt_def)
  then show ?thesis using a by (intro exI [of _ ?s]) (simp add: position_def)
qed

end
