(* ===== verification/Connection_Endpoint.thy ===== *)
theory Connection_Endpoint
  imports Threads_Model Jobs_Model Text_Ops
begin

text \<open>
  The errors of \<open>br-runner-connection\<close> (\<open>error.rs\<close>, \<open>credential.rs\<close>) with their images in the two crates
  that call it (\<open>from_connection.rs\<close>), the reading of an endpoint (\<open>endpoint.rs\<close>) and of a subject of the
  bus (\<open>bus/subject.rs\<close>). Texts have code points below 256.
\<close>

section \<open>Errors\<close>

datatype ConnCause = CcWaitFired | CcTransport | CcNoListener

record ConnFailure =
  cf_cause :: ConnCause
  cf_text :: string

definition conn_wait :: "string \<Rightarrow> ConnFailure" where
  "conn_wait t = \<lparr>cf_cause = CcWaitFired, cf_text = t\<rparr>"

definition conn_no_listener :: "string \<Rightarrow> ConnFailure" where
  "conn_no_listener t = \<lparr>cf_cause = CcNoListener, cf_text = t\<rparr>"

definition conn_transport :: "string \<Rightarrow> ConnFailure" where
  "conn_transport t = \<lparr>cf_cause = CcTransport, cf_text = t\<rparr>"

datatype CodeOrigin = OriginService | OriginConnection

record ConnRefusal =
  cr_code :: string
  cr_reason :: "string option"
  cr_params :: "(string \<times> json) list"
  cr_message :: string
  cr_origin :: CodeOrigin

datatype ConnCredentialKind = CkNoUsable | CkFetchFailed

record ConnCredential =
  ccr_kind :: ConnCredentialKind
  ccr_text :: string

definition conn_no_usable :: "string \<Rightarrow> ConnCredential" where
  "conn_no_usable t = \<lparr>ccr_kind = CkNoUsable, ccr_text = t\<rparr>"

datatype ConnError =
    ConnInvalidInput string
  | ConnCredentialError ConnCredential
  | ConnUnavailable ConnFailure
  | ConnLost ConnFailure
  | ConnUnauthenticated
  | ConnRefused ConnRefusal
  | ConnUnreadable string

text \<open>The error of the jobs crate, and that of the threads crate.\<close>

fun jobs_cause :: "ConnCause \<Rightarrow> Cause" where
  "jobs_cause CcWaitFired = WaitFired"
| "jobs_cause CcNoListener = NoListener"
| "jobs_cause CcTransport = Transport"

definition jobs_failure :: "ConnFailure \<Rightarrow> Failure" where
  "jobs_failure f = \<lparr>failure_cause = jobs_cause (cf_cause f), failure_text = cf_text f\<rparr>"

definition jobs_credential :: "ConnCredential \<Rightarrow> CredentialFailure" where
  "jobs_credential c =
     \<lparr>credential_kind = (case ccr_kind c of CkNoUsable \<Rightarrow> NoUsable | CkFetchFailed \<Rightarrow> FetchFailed), credential_text = ccr_text c\<rparr>"

fun jobs_error :: "Operation \<Rightarrow> ConnError \<Rightarrow> Error" where
  "jobs_error op (ConnInvalidInput t) = InvalidInput t"
| "jobs_error op (ConnCredentialError c) = Credential (jobs_credential c)"
| "jobs_error op (ConnUnavailable f) = Unavailable (jobs_failure f)"
| "jobs_error op (ConnLost f) = Lost (jobs_failure f)"
| "jobs_error op ConnUnauthenticated = Unauthenticated"
| "jobs_error op (ConnRefused r) =
     Refused (refusal_new op (from_word (case cr_reason r of Some w \<Rightarrow> w | None \<Rightarrow> cr_code r)) (cr_message r))"
| "jobs_error op (ConnUnreadable t) = Unreadable t"

fun threads_cause :: "ConnCause \<Rightarrow> TCause" where
  "threads_cause CcWaitFired = TWaitFired"
| "threads_cause CcNoListener = TNoListener"
| "threads_cause CcTransport = TTransport"

definition threads_failure :: "ConnFailure \<Rightarrow> TFailure" where
  "threads_failure f = \<lparr>t_cause = threads_cause (cf_cause f), t_text = cf_text f\<rparr>"

definition threads_credential :: "ConnCredential \<Rightarrow> TCredentialFailure" where
  "threads_credential c =
     \<lparr>t_cred_kind = (case ccr_kind c of CkNoUsable \<Rightarrow> TNoUsable | CkFetchFailed \<Rightarrow> TFetchFailed), t_cred_text = ccr_text c\<rparr>"

text \<open>The threads crate keeps the text of the parameters; \<open>shown\<close> is the text of a value.\<close>

fun threads_error :: "(json \<Rightarrow> string) \<Rightarrow> ConnError \<Rightarrow> TError" where
  "threads_error shown (ConnInvalidInput t) = TInvalidInput t"
| "threads_error shown (ConnCredentialError c) = TCredential (threads_credential c)"
| "threads_error shown (ConnUnavailable f) = TUnavailable (threads_failure f)"
| "threads_error shown (ConnLost f) = TLost (threads_failure f)"
| "threads_error shown ConnUnauthenticated = TUnauthenticated"
| "threads_error shown (ConnRefused r) =
     TRefused \<lparr>t_code = cr_code r, t_reason = cr_reason r, t_params = map (apsnd shown) (cr_params r),
               t_message = cr_message r, t_command_id = None\<rparr>"
| "threads_error shown (ConnUnreadable t) = TUnreadable t"

section \<open>The endpoint\<close>

text \<open>
  What the code asks of the crates \<open>http\<close> and \<open>rustls_pki_types\<close> and of \<open>Ipv6Addr\<close>: a text read as a URI
  (its scheme, authority, and path with query), whether a text is an IPv6 address, the name of a TLS
  server, the value of a header, and whether a text can be a path with its query.
\<close>

record Uri =
  uri_scheme :: "string option"
  uri_authority :: "string option"
  uri_path_and_query :: "string option"

record UriLib =
  ul_uri :: "string \<Rightarrow> Uri option"
  ul_ipv6 :: "string \<Rightarrow> bool"
  ul_server_name :: "string \<Rightarrow> bool"
  ul_header_value :: "string \<Rightarrow> bool"
  ul_target :: "string \<Rightarrow> bool"

record Endpoint =
  ep_secure :: bool
  ep_host :: string
  ep_port :: "16 word"
  ep_host_header :: string
  ep_target :: string
  ep_server_name :: string

definition endpoint_invalid :: "string \<Rightarrow> ConnError" where
  "endpoint_invalid why = ConnInvalidInput (''the endpoint '' @ why)"

definition authority_split :: "(string \<Rightarrow> bool) \<Rightarrow> string \<Rightarrow> (string \<times> string option, ConnError) result" where
  "authority_split ipv6 authority =
     (case strip_char (CHR ''['') authority of
        Some inside \<Rightarrow>
          (case split_once (CHR '']'') inside of
             None \<Rightarrow> Err (endpoint_invalid ''has a host with an opening bracket and no closing one'')
           | Some (address, rest) \<Rightarrow>
               if \<not> ipv6 address then Err (endpoint_invalid ''has a bracketed host that is not an IPv6 address'')
               else if rest = [] then Ok (address, None)
               else (case strip_char (CHR '':'') rest of
                       Some digits \<Rightarrow> Ok (address, Some digits)
                     | None \<Rightarrow> Err (endpoint_invalid ''has text after the bracketed host that is not a port'')))
      | None \<Rightarrow>
          (case rsplit_once (CHR '':'') authority of
             Some (host, digits) \<Rightarrow>
               if CHR '':'' \<in> set host then Err (endpoint_invalid ''has a host with a colon outside brackets'')
               else Ok (host, Some digits)
           | None \<Rightarrow> Ok (authority, None)))"

definition is_digit :: "char \<Rightarrow> bool" where
  "is_digit c \<longleftrightarrow> 48 \<le> (of_char c :: nat) \<and> (of_char c :: nat) \<le> 57"

definition digits_value :: "string \<Rightarrow> nat" where
  "digits_value ds = fold (\<lambda>c n. 10 * n + (of_char c - 48)) ds 0"

text \<open>\<open>str::parse::<u16>\<close> on a text of digits.\<close>

definition parse_u16 :: "string \<Rightarrow> 16 word option" where
  "parse_u16 ds = (if digits_value ds < 2 ^ 16 then Some (of_nat (digits_value ds)) else None)"

definition port_of :: "string \<Rightarrow> (16 word, ConnError) result" where
  "port_of digits =
     (let bad = Err (endpoint_invalid ''has a port that is not a number from 1 to 65535'') in
      if digits \<noteq> [] \<and> list_all is_digit digits then
        (case parse_u16 digits of Some p \<Rightarrow> if p \<noteq> 0 then Ok p else bad | None \<Rightarrow> bad)
      else bad)"

definition target_of :: "UriLib \<Rightarrow> Uri \<Rightarrow> (string, ConnError) result" where
  "target_of ul u =
     (let target = (case uri_path_and_query u of
                      None \<Rightarrow> ''/''
                    | Some t \<Rightarrow> if t = [] then ''/'' else if hd t = CHR ''?'' then CHR ''/'' # t else t) in
      if ul_target ul target then Ok target else Err (endpoint_invalid ''has a path or query that cannot be sent''))"

definition endpoint_authority :: "UriLib \<Rightarrow> Uri \<Rightarrow> bool \<Rightarrow> string \<Rightarrow> (Endpoint, ConnError) result" where
  "endpoint_authority ul u secure authority =
     (if CHR ''@'' \<in> set authority then Err (endpoint_invalid ''holds user information'')
      else and_then (authority_split (ul_ipv6 ul) authority) (\<lambda>(host, port_text).
        if host = [] then Err (endpoint_invalid ''has no host'')
        else if \<not> ul_server_name ul host then Err (endpoint_invalid ''has a host that is neither a name nor an address'')
        else and_then (case port_text of Some digits \<Rightarrow> port_of digits | None \<Rightarrow> Ok (if secure then 443 else 80)) (\<lambda>port.
          if \<not> ul_header_value ul authority then Err (endpoint_invalid ''has a host that is not a header value'')
          else and_then (target_of ul u) (\<lambda>target.
            Ok \<lparr>ep_secure = secure, ep_host = host, ep_port = port, ep_host_header = authority,
                ep_target = target, ep_server_name = host\<rparr>))))"

definition endpoint_parse :: "UriLib \<Rightarrow> string \<Rightarrow> (Endpoint, ConnError) result" where
  "endpoint_parse ul t =
     (if CHR ''#'' \<in> set t then Err (endpoint_invalid ''holds a fragment'')
      else case ul_uri ul t of
        None \<Rightarrow> Err (endpoint_invalid ''cannot be read as a URL'')
      | Some u \<Rightarrow>
          (let go = (\<lambda>secure. case uri_authority u of
                       None \<Rightarrow> Err (endpoint_invalid ''has no host'')
                     | Some authority \<Rightarrow> endpoint_authority ul u secure authority) in
           if uri_scheme u = Some ''https'' then go True
           else if uri_scheme u = Some ''http'' then go False
           else Err (endpoint_invalid ''is not an absolute http or https URL'')))"

section \<open>Subjects of the bus\<close>

definition subject_refuse :: "string \<Rightarrow> ConnError" where
  "subject_refuse why = ConnInvalidInput (''the bus subject '' @ why)"

fun tokens_check :: "string list \<Rightarrow> (unit, ConnError) result" where
  "tokens_check [] = Ok ()"
| "tokens_check (t # ts) =
     (if t = [] then Err (subject_refuse ''holds an empty token'')
      else if t = ''*'' \<or> t = ''>'' then Err (subject_refuse ''holds a wildcard'')
      else tokens_check ts)"

definition subject_check :: "string \<Rightarrow> (unit, ConnError) result" where
  "subject_check subject =
     (if subject = [] then Err (subject_refuse ''is empty'')
      else if list_ex is_whitespace subject then Err (subject_refuse ''holds a whitespace'')
      else tokens_check (str_split (CHR ''.'') subject))"

section \<open>What an endpoint that was accepted is\<close>

lemma authority_split_ok:
  "authority_split ipv6 authority = Ok (host, port) \<longleftrightarrow>
     (\<exists>shown. authority = shown @ (case port of None \<Rightarrow> [] | Some digits \<Rightarrow> CHR '':'' # digits) \<and>
        (shown = CHR ''['' # host @ '']'' \<and> ipv6 host \<and> CHR '']'' \<notin> set host \<or>
         shown = host \<and> (\<forall>r. authority \<noteq> CHR ''['' # r) \<and> CHR '':'' \<notin> set host \<and> CHR '':'' \<notin> set (case port of None \<Rightarrow> [] | Some d \<Rightarrow> d)))"
proof (cases "strip_char (CHR ''['') authority")
  case (Some inside)
  then have a: "authority = CHR ''['' # inside" by (simp add: strip_char_Some)
  show ?thesis
  proof (cases "split_once (CHR '']'') inside")
    case None
    then have "CHR '']'' \<notin> set inside" by (simp add: split_once_None)
    then show ?thesis using Some None a by (auto simp: authority_split_def)
  next
    case s: (Some p)
    obtain x rest where p: "p = (x, rest)" by (cases p)
    with s have i: "inside = x @ CHR '']'' # rest" "CHR '']'' \<notin> set x" by (simp_all add: split_once_Some)
    have u: "x @ CHR '']'' # rest = host @ CHR '']'' # q \<and> CHR '']'' \<notin> set host \<longleftrightarrow> host = x \<and> q = rest" for q
      using i(2) split_once_Some [of "CHR '']''" "x @ CHR '']'' # rest" host q] s p i(1) by auto
    show ?thesis using Some s p a i u
      by (cases rest; cases port) (auto simp: authority_split_def strip_char_Some split: if_splits option.splits)
  qed
next
  case None
  then have a: "authority \<noteq> CHR ''['' # r" for r by (simp add: strip_char_None)
  show ?thesis
  proof (cases "rsplit_once (CHR '':'') authority")
    case n: None
    then have "CHR '':'' \<notin> set authority" by (simp add: rsplit_once_None)
    then show ?thesis using None n a by (cases port) (auto simp: authority_split_def)
  next
    case (Some p)
    obtain h d where p: "p = (h, d)" by (cases p)
    with Some have i: "authority = h @ CHR '':'' # d" "CHR '':'' \<notin> set d" by (simp_all add: rsplit_once_Some)
    have u: "h @ CHR '':'' # d = host @ CHR '':'' # q \<and> CHR '':'' \<notin> set q \<longleftrightarrow> host = h \<and> q = d" for q
      using i Some p rsplit_once_Some [of "CHR '':''" authority host q] by auto
    show ?thesis using None Some p a i u
      by (cases port) (auto simp: authority_split_def)
  qed
qed

lemma port_of_ok:
  "port_of digits = Ok p \<longleftrightarrow> digits \<noteq> [] \<and> list_all is_digit digits \<and> 0 < digits_value digits \<and> digits_value digits = unat p"
proof -
  have "(of_nat n :: 16 word) = 0 \<longleftrightarrow> n = 0" "(of_nat n :: 16 word) = p \<longleftrightarrow> n = unat p" if "n < 2 ^ 16" for n
    using that by (auto simp: unsigned_of_nat word_unat_eq_iff take_bit_nat_eq_self)
  moreover have "unat p < 2 ^ 16" by (rule order_less_le_trans [OF unsigned_less]) simp
  ultimately show ?thesis by (auto simp: port_of_def parse_u16_def Let_def split: if_splits)
qed

definition host_shown :: "(string \<Rightarrow> bool) \<Rightarrow> string \<Rightarrow> string \<Rightarrow> string \<Rightarrow> bool" where
  "host_shown ipv6 host shown port \<longleftrightarrow>
     shown = CHR ''['' # host @ '']'' \<and> ipv6 host \<and> CHR '']'' \<notin> set host \<or>
     shown = host \<and> (\<forall>r. host @ port \<noteq> CHR ''['' # r) \<and> CHR '':'' \<notin> set host"

definition target_shown :: "Uri \<Rightarrow> string" where
  "target_shown u =
     (case uri_path_and_query u of Some (c # t) \<Rightarrow> if c = CHR ''?'' then CHR ''/'' # c # t else c # t | _ \<Rightarrow> ''/'')"

text \<open>What the rules of the README ask of an endpoint: its authority is the host as shown and, when it has one, the port.\<close>

definition endpoint_ok :: "UriLib \<Rightarrow> string \<Rightarrow> Endpoint \<Rightarrow> bool" where
  "endpoint_ok ul t e \<longleftrightarrow>
     CHR ''#'' \<notin> set t \<and>
     (\<exists>u shown port.
        ul_uri ul t = Some u \<and> uri_scheme u = Some (if ep_secure e then ''https'' else ''http'') \<and>
        uri_authority u = Some (shown @ port) \<and> CHR ''@'' \<notin> set (shown @ port) \<and>
        host_shown (ul_ipv6 ul) (ep_host e) shown port \<and> ep_host e \<noteq> [] \<and> ul_server_name ul (ep_host e) \<and>
        (port = [] \<and> ep_port e = (if ep_secure e then 443 else 80) \<or>
         (\<exists>digits. port = CHR '':'' # digits \<and> digits \<noteq> [] \<and> list_all is_digit digits \<and>
            0 < digits_value digits \<and> digits_value digits = unat (ep_port e))) \<and>
        ul_header_value ul (shown @ port) \<and> ul_target ul (target_shown u) \<and>
        ep_host_header e = shown @ port \<and> ep_target e = target_shown u \<and> ep_server_name e = ep_host e)"

definition endpoint_refusals :: "string list" where
  "endpoint_refusals =
     [''holds a fragment'', ''cannot be read as a URL'', ''is not an absolute http or https URL'', ''has no host'', ''holds user information'',
      ''has a host with an opening bracket and no closing one'', ''has a bracketed host that is not an IPv6 address'',
      ''has text after the bracketed host that is not a port'', ''has a host with a colon outside brackets'',
      ''has a host that is neither a name nor an address'', ''has a port that is not a number from 1 to 65535'',
      ''has a host that is not a header value'', ''has a path or query that cannot be sent'']"

lemma target_of_ok: "target_of ul u = Ok t \<longleftrightarrow> ul_target ul (target_shown u) \<and> t = target_shown u"
  by (auto simp: target_of_def target_shown_def Let_def split: option.splits list.splits if_splits)

lemma digits_no_colon: "list_all is_digit ds \<Longrightarrow> CHR '':'' \<notin> set ds"
  by (auto simp: list_all_iff is_digit_def)

lemma authority_port_ok:
  "(\<exists>host port_text. authority_split ipv6 authority = Ok (host, port_text) \<and> P host \<and>
      (case port_text of Some digits \<Rightarrow> port_of digits | None \<Rightarrow> Ok dflt) = Ok p) \<longleftrightarrow>
   (\<exists>host shown port. authority = shown @ port \<and> host_shown ipv6 host shown port \<and> P host \<and>
      (port = [] \<and> p = dflt \<or>
       (\<exists>digits. port = CHR '':'' # digits \<and> digits \<noteq> [] \<and> list_all is_digit digits \<and> 0 < digits_value digits \<and>
          digits_value digits = unat p)))" (is "?L \<longleftrightarrow> ?R")
proof
  assume ?L
  then obtain host pt where s: "authority_split ipv6 authority = Ok (host, pt)" "P host"
      "(case pt of Some digits \<Rightarrow> port_of digits | None \<Rightarrow> Ok dflt) = Ok p" by blast
  let ?port = "case pt of None \<Rightarrow> [] | Some digits \<Rightarrow> CHR '':'' # digits"
  from s(1) obtain shown where a: "authority = shown @ ?port" "host_shown ipv6 host shown ?port"
    unfolding authority_split_ok host_shown_def by blast
  have "?port = [] \<and> p = dflt \<or> (\<exists>digits. ?port = CHR '':'' # digits \<and> digits \<noteq> [] \<and> list_all is_digit digits \<and>
      0 < digits_value digits \<and> digits_value digits = unat p)"
    using s(3) by (cases pt) (simp_all add: port_of_ok)
  with a s(2) show ?R by blast
next
  assume ?R
  then obtain host shown port where r: "authority = shown @ port" "host_shown ipv6 host shown port" "P host"
      "port = [] \<and> p = dflt \<or> (\<exists>digits. port = CHR '':'' # digits \<and> digits \<noteq> [] \<and> list_all is_digit digits \<and> 0 < digits_value digits \<and>
          digits_value digits = unat p)" by blast
  from r(4) show ?L
  proof (elim disjE exE conjE)
    assume "port = []" "p = dflt"
    with r(1-3) show ?thesis by (intro exI [of _ host] exI [of _ None]) (auto simp: authority_split_ok host_shown_def)
  next
    fix digits assume d: "port = CHR '':'' # digits" "digits \<noteq> []" "list_all is_digit digits" "0 < digits_value digits" "digits_value digits = unat p"
    with r(1-3) digits_no_colon [OF d(3)] show ?thesis
      by (intro exI [of _ host] exI [of _ "Some digits"]) (auto simp: authority_split_ok host_shown_def port_of_ok)
  qed
qed

lemma if_Err_Ok: "(if b then Err x else r) = Ok y \<longleftrightarrow> \<not> b \<and> r = Ok y"
  by simp

lemma endpoint_authority_ok:
  "endpoint_authority ul u secure authority = Ok e \<longleftrightarrow>
     CHR ''@'' \<notin> set authority \<and>
     (\<exists>host port_text. authority_split (ul_ipv6 ul) authority = Ok (host, port_text) \<and>
        (host \<noteq> [] \<and> ul_server_name ul host \<and> host = ep_host e) \<and>
        (case port_text of Some digits \<Rightarrow> port_of digits | None \<Rightarrow> Ok (if secure then 443 else 80)) = Ok (ep_port e)) \<and>
     ul_header_value ul authority \<and> ul_target ul (target_shown u) \<and>
     ep_secure e = secure \<and> ep_host_header e = authority \<and> ep_target e = target_shown u \<and> ep_server_name e = ep_host e"
proof -
  have "Ok \<lparr>ep_secure = secure, ep_host = host, ep_port = p, ep_host_header = authority, ep_target = tg, ep_server_name = host\<rparr> = Ok e \<longleftrightarrow>
      ep_secure e = secure \<and> host = ep_host e \<and> p = ep_port e \<and> ep_host_header e = authority \<and> tg = ep_target e \<and>
      ep_server_name e = ep_host e" for host p tg
    by (cases e) auto
  note e = this
  show ?thesis
    unfolding endpoint_authority_def and_then_ok if_Err_Ok target_of_ok split_paired_Ex prod.case e by auto
qed

definition refuses_fixed :: "('a, ConnError) result \<Rightarrow> bool" where
  "refuses_fixed r \<longleftrightarrow> (\<forall>x. r = Err x \<longrightarrow> (\<exists>why \<in> set endpoint_refusals. x = endpoint_invalid why))"

lemma refuses_fixed_basic: "refuses_fixed (Ok y)" "why \<in> set endpoint_refusals \<Longrightarrow> refuses_fixed (Err (endpoint_invalid why))"
  by (auto simp: refuses_fixed_def)

lemma refuses_fixed_then: "refuses_fixed r \<Longrightarrow> (\<And>y. refuses_fixed (f y)) \<Longrightarrow> refuses_fixed (and_then r f)"
  by (cases r) (simp_all add: refuses_fixed_def)

lemma refuses_fixed_parts:
  "refuses_fixed (authority_split ipv6 authority)" "refuses_fixed (port_of digits)" "refuses_fixed (target_of ul u)"
  by (auto simp: authority_split_def port_of_def target_of_def endpoint_refusals_def Let_def
        intro!: refuses_fixed_basic split: option.split)

lemma refuses_fixed_authority: "refuses_fixed (endpoint_authority ul u secure authority)"
  unfolding endpoint_authority_def
  by (auto intro!: refuses_fixed_then refuses_fixed_basic refuses_fixed_parts simp: endpoint_refusals_def split: option.split prod.split)

lemma refuses_fixed_parse: "refuses_fixed (endpoint_parse ul t)"
  by (auto simp: endpoint_parse_def endpoint_refusals_def Let_def intro!: refuses_fixed_basic refuses_fixed_authority split: option.split)

text \<open>
  C39: an endpoint is accepted exactly as the README says, and what was made of it is what the text says. The
  text has no fragment and no user information, its scheme is http or https, which decides whether TLS is
  used; the authority is the host as shown (an IPv6 address in brackets, or a name without a colon) and
  nothing but the port behind it; a port that is given is the number of its digits, from 1 to 65535, and a
  missing one is 443 or 80 and never the fallback of a bad one. Every refusal is an invalid input whose text
  is one of thirteen and thus holds nothing of the URL.
\<close>
theorem endpoint_accepted:
  "(endpoint_parse ul t = Ok e \<longleftrightarrow> endpoint_ok ul t e) \<and>
   (\<forall>x. endpoint_parse ul t = Err x \<longrightarrow> (\<exists>why \<in> set endpoint_refusals. x = ConnInvalidInput (''the endpoint '' @ why)))"
proof (intro conjI allI impI)
  have "endpoint_parse ul t = Ok e \<longleftrightarrow> CHR ''#'' \<notin> set t \<and>
      (\<exists>u authority. ul_uri ul t = Some u \<and> uri_scheme u = Some (if ep_secure e then ''https'' else ''http'') \<and>
         uri_authority u = Some authority \<and> endpoint_authority ul u (ep_secure e) authority = Ok e)"
    by (auto simp: endpoint_parse_def Let_def endpoint_authority_ok split: option.splits if_splits)
  also have "\<dots> \<longleftrightarrow> endpoint_ok ul t e"
    unfolding endpoint_ok_def endpoint_authority_ok authority_port_ok by (auto 0 4)
  finally show "endpoint_parse ul t = Ok e \<longleftrightarrow> endpoint_ok ul t e" .
next
  fix x assume "endpoint_parse ul t = Err x"
  then show "\<exists>why \<in> set endpoint_refusals. x = ConnInvalidInput (''the endpoint '' @ why)"
    using refuses_fixed_parse [of ul t] by (auto simp: refuses_fixed_def endpoint_invalid_def)
qed

definition demo_uris :: UriLib where
  "demo_uris = \<lparr>ul_uri = (\<lambda>t. if t = ''http://a:080?q'' then Some \<lparr>uri_scheme = Some ''http'', uri_authority = Some ''a:080'', uri_path_and_query = Some ''?q''\<rparr> else None),
     ul_ipv6 = (\<lambda>_. False), ul_server_name = (\<lambda>_. True), ul_header_value = (\<lambda>_. True), ul_target = (\<lambda>_. True)\<rparr>"

definition demo_endpoint :: Endpoint where
  "demo_endpoint = \<lparr>ep_secure = False, ep_host = ''a'', ep_port = 80, ep_host_header = ''a:080'', ep_target = ''/?q'', ep_server_name = ''a''\<rparr>"

theorem endpoint_accepted_witness:
  "endpoint_ok demo_uris ''http://a:080?q'' demo_endpoint \<and>
   (\<exists>why \<in> set endpoint_refusals. ConnInvalidInput ''the endpoint holds a fragment'' = ConnInvalidInput (''the endpoint '' @ why))"
proof -
  have "port_of ''080'' = Ok 80" by (simp add: port_of_ok is_digit_def digits_value_def)
  then have p: "endpoint_parse demo_uris ''http://a:080?q'' = Ok demo_endpoint"
    by (simp add: endpoint_parse_def endpoint_authority_def authority_split_def rsplit_once_def target_of_def Let_def
        demo_uris_def demo_endpoint_def apfst_def map_prod_def)
  have f: "endpoint_parse demo_uris ''http://a#b'' = Err (ConnInvalidInput ''the endpoint holds a fragment'')"
    by (simp add: endpoint_parse_def endpoint_invalid_def)
  show ?thesis
    using endpoint_accepted [of demo_uris "''http://a:080?q''" demo_endpoint] p
      endpoint_accepted [of demo_uris "''http://a#b''" demo_endpoint] f by blast
qed

end
