(* ===== verification/Connection_Call.thy ===== *)
theory Connection_Call
  imports Connection_Endpoint Work_Caller
begin

text \<open>
  The calls of \<open>br-runner-connection\<close>: the GraphQL call (\<open>connection.rs\<close>, \<open>http/mod.rs\<close>, \<open>http/open.rs\<close>,
  \<open>reply.rs\<close>) and the request on the bus (\<open>bus/request.rs\<close>). What the sockets, the TLS library, the HTTP
  library and the bus answer are inputs; a call is recorded with what it did: whether it asked for a token
  and what it sent.
\<close>

section \<open>The answer of the gateway\<close>

text \<open>A reply has its status and its body as serde reads it, \<open>None\<close> when it is not JSON.\<close>

record ConnReply =
  rp_status :: "16 word"
  rp_body :: "json option"

definition ext_optional :: "(string \<times> json) list \<Rightarrow> string \<Rightarrow> json option" where
  "ext_optional extensions key = (case map_of extensions key of Some JNull \<Rightarrow> None | r \<Rightarrow> r)"

fun json_members :: "json \<Rightarrow> (string \<times> json) list option" where
  "json_members (JObject ms) = Some ms"
| "json_members _ = None"

definition coded :: "json \<Rightarrow> ConnRefusal option" where
  "coded e =
     Option.bind (Option.bind (json_get e ''extensions'') json_members) (\<lambda>ext.
     Option.bind (Option.bind (map_of ext ''code'') json_str) (\<lambda>code.
     Option.bind (case ext_optional ext ''reason'' of None \<Rightarrow> Some None | Some v \<Rightarrow> map_option Some (json_str v)) (\<lambda>why.
     Option.bind (case ext_optional ext ''params'' of None \<Rightarrow> Some [] | Some v \<Rightarrow> json_members v) (\<lambda>params.
       Some \<lparr>cr_code = code, cr_reason = why, cr_params = params,
             cr_message = (case Option.bind (json_get e ''message'') json_str of Some m \<Rightarrow> m | None \<Rightarrow> ''''),
             cr_origin = OriginService\<rparr>))))"

definition unauthenticated :: "json \<Rightarrow> bool" where
  "unauthenticated e = (case coded e of Some r \<Rightarrow> cr_code r = ''UNAUTHENTICATED'' | None \<Rightarrow> False)"

text \<open>\<open>None\<close> when the errors are not a list.\<close>

definition error_list :: "json option \<Rightarrow> json list option" where
  "error_list body =
     (case Option.bind body (\<lambda>b. json_get b ''errors'') of
        None \<Rightarrow> Some []
      | Some JNull \<Rightarrow> Some []
      | Some (JArray items) \<Rightarrow> Some items
      | Some _ \<Rightarrow> None)"

definition data_of :: "json \<Rightarrow> (json, ConnError) result" where
  "data_of body =
     (case json_get body ''data'' of
        None \<Rightarrow> Err (ConnUnreadable ''the response holds no data'')
      | Some JNull \<Rightarrow> Err (ConnUnreadable ''the response holds no data'')
      | Some (JObject ms) \<Rightarrow> Ok (JObject ms)
      | Some _ \<Rightarrow> Err (ConnUnreadable ''the data is not an object''))"

definition conn_success :: "16 word \<Rightarrow> bool" where
  "conn_success status \<longleftrightarrow> 200 \<le> status \<and> status < 300"

definition forbidden :: ConnRefusal where
  "forbidden = \<lparr>cr_code = ''FORBIDDEN'', cr_reason = None, cr_params = [], cr_message = '''', cr_origin = OriginConnection\<rparr>"

definition conn_judge :: "ConnReply \<Rightarrow> (json, ConnError) result" where
  "conn_judge reply =
     (let listed = error_list (rp_body reply);
          items = (case listed of Some items \<Rightarrow> items | None \<Rightarrow> []) in
      if rp_status reply = 401 then Err ConnUnauthenticated
      else if list_ex unauthenticated items then Err ConnUnauthenticated
      else case List.map_filter coded items of
        first # _ \<Rightarrow> Err (ConnRefused first)
      | [] \<Rightarrow>
          if \<not> conn_success (rp_status reply) then
            Err (if rp_status reply = 403 then ConnRefused forbidden
                 else ConnLost (conn_transport (''status '' @ nat_text (unat (rp_status reply)) @ '' without a readable code'')))
          else case rp_body reply of
            None \<Rightarrow> Err (ConnUnreadable ''the response is not JSON'')
          | Some body \<Rightarrow>
              (case listed of
                 None \<Rightarrow> Err (ConnUnreadable ''the errors are not a list'')
               | Some (_ # _) \<Rightarrow> Err (ConnUnreadable ''an error without a code'')
               | Some [] \<Rightarrow> data_of body))"

section \<open>The exchange over HTTP\<close>

text \<open>\<open>chain\<close>: the text of an error is the texts of its causes, joined by colons.\<close>

fun conn_chain :: "string list \<Rightarrow> string" where
  "conn_chain [] = ''''"
| "conn_chain [t] = t"
| "conn_chain (t # ts) = t @ '': '' @ conn_chain ts"

type_synonym ErrChain = "string list"

definition http_lost :: "ErrChain \<Rightarrow> ConnError" where
  "http_lost e = ConnLost (conn_transport (conn_chain e))"

definition http_unavailable :: "ErrChain \<Rightarrow> ConnError" where
  "http_unavailable e = ConnUnavailable (conn_transport (conn_chain e))"

text \<open>The opening of the connection: TCP, TLS when the endpoint is secure, the handshake of HTTP.\<close>

record OpenIn =
  oi_tcp :: "(unit, ErrChain) result"
  oi_tls :: "(unit, ErrChain) result"
  oi_handshake :: "(unit, ErrChain) result"

definition http_open :: "Endpoint \<Rightarrow> OpenIn \<Rightarrow> (unit, ConnError) result" where
  "http_open e i =
     and_then (map_sum http_unavailable id (oi_tcp i)) (\<lambda>_.
     and_then (if ep_secure e then map_sum http_unavailable id (oi_tls i) else Ok ()) (\<lambda>_.
     map_sum http_unavailable id (oi_handshake i)))"

text \<open>The answer: the status or a failure, and then the body or a failure of reading it.\<close>

definition http_roundtrip :: "(16 word, ErrChain) result \<Rightarrow> (json option, ErrChain) result \<Rightarrow> (ConnReply, ConnError) result" where
  "http_roundtrip response body =
     (case response of
        Inl e \<Rightarrow> Err (http_lost e)
      | Inr status \<Rightarrow>
          if status = 401 then Ok \<lparr>rp_status = status, rp_body = None\<rparr>
          else case body of
            Inr b \<Rightarrow> Ok \<lparr>rp_status = status, rp_body = b\<rparr>
          | Inl e \<Rightarrow> if status = 403 then Ok \<lparr>rp_status = status, rp_body = None\<rparr> else Err (http_lost e))"

text \<open>The driver of the connection may end before the answer is there.\<close>

datatype Race = AnswerFirst | DriverFirst "(unit, ErrChain) result"

definition http_exchange :: "Race \<Rightarrow> (ConnReply, ConnError) result \<Rightarrow> (ConnReply, ConnError) result" where
  "http_exchange race result =
     (case race of
        AnswerFirst \<Rightarrow> result
      | DriverFirst ended \<Rightarrow>
          (case (result, ended) of
             (Inr reply, _) \<Rightarrow> Ok reply
           | (Inl _, Inl e) \<Rightarrow> Err (http_lost e)
           | (Inl e, Inr _) \<Rightarrow> Err e))"

record HttpRequest =
  hr_target :: string
  hr_host :: string
  hr_authorization :: string
  hr_body :: json

text \<open>
  What a call does, in order: it asks the credential for a token, opens a connection, hands the request to it.
\<close>

datatype ConnEffect = AskToken | OpenConnection | SendRequest HttpRequest

text \<open>
  What the world does in one call: whether the HTTP library refuses to build the request, whether the clock
  can hold the deadline, whether the wait fires while the connection opens and while the answer comes, and
  what the steps give.
\<close>

record PostIn =
  po_build_refused :: "string option"
  po_deadline :: bool
  po_open :: OpenIn
  po_open_fires :: bool
  po_race :: Race
  po_response :: "(16 word, ErrChain) result"
  po_body :: "(json option, ErrChain) result"
  po_answer_fires :: bool

text \<open>\<open>before\<close>: without a deadline the wait never fires.\<close>

definition before :: "bool \<Rightarrow> bool \<Rightarrow> 'a \<Rightarrow> 'a option" where
  "before deadline fires result = (if deadline \<and> fires then None else Some result)"

definition gateway_request :: "Endpoint \<Rightarrow> string \<Rightarrow> json \<Rightarrow> PostIn \<Rightarrow> (HttpRequest, ConnError) result" where
  "gateway_request e authorization body i =
     (case po_build_refused i of
        Some t \<Rightarrow> Err (ConnInvalidInput t)
      | None \<Rightarrow> Ok \<lparr>hr_target = ep_target e, hr_host = ep_host_header e, hr_authorization = authorization, hr_body = body\<rparr>)"

definition gateway_post :: "Endpoint \<Rightarrow> string \<Rightarrow> json \<Rightarrow> PostIn \<Rightarrow> (ConnReply, ConnError) result \<times> ConnEffect list" where
  "gateway_post e authorization body i =
     (case gateway_request e authorization body i of
        Inl x \<Rightarrow> (Err x, [])
      | Inr request \<Rightarrow>
          (case before (po_deadline i) (po_open_fires i) (http_open e (po_open i)) of
             None \<Rightarrow> (Err (ConnUnavailable (conn_wait ''the wait fired before the connection was ready'')), [OpenConnection])
           | Some (Inl x) \<Rightarrow> (Err x, [OpenConnection])
           | Some (Inr _) \<Rightarrow>
               (case before (po_deadline i) (po_answer_fires i)
                       (http_exchange (po_race i) (http_roundtrip (po_response i) (po_body i))) of
                  None \<Rightarrow> (Err (ConnLost (conn_wait ''the wait fired before the answer'')), [OpenConnection, SendRequest request])
                | Some r \<Rightarrow> (r, [OpenConnection, SendRequest request]))))"

definition graphql_body :: "string \<Rightarrow> json \<Rightarrow> (json, ConnError) result" where
  "graphql_body document variables =
     (let body = (\<lambda>v. Ok (JObject [(''query'', JString document), (''variables'', v)])) in
      if document = [] then Err (ConnInvalidInput ''the document is empty'')
      else case variables of
        JNull \<Rightarrow> body (JObject [])
      | JObject ms \<Rightarrow> body (JObject ms)
      | _ \<Rightarrow> Err (ConnInvalidInput ''the variables are not a JSON object''))"

definition bearer :: "UriLib \<Rightarrow> string \<Rightarrow> (string, ConnCredential) result" where
  "bearer ul secret =
     (if secret = [] then Err (conn_no_usable ''the credential gave an empty token'')
      else if ul_header_value ul (''Bearer '' @ secret) then Ok (''Bearer '' @ secret)
      else Err (conn_no_usable ''the credential gave a token that is not a header value''))"

definition conn_graphql ::
    "UriLib \<Rightarrow> Endpoint \<Rightarrow> string \<Rightarrow> json \<Rightarrow> (string, ConnCredential) result \<Rightarrow> PostIn \<Rightarrow>
     (json, ConnError) result \<times> ConnEffect list" where
  "conn_graphql ul e document variables token i =
     (case graphql_body document variables of
        Inl x \<Rightarrow> (Err x, [])
      | Inr body \<Rightarrow>
          (case map_sum ConnCredentialError id token of
             Inl x \<Rightarrow> (Err x, [AskToken])
           | Inr secret \<Rightarrow>
               (case bearer ul secret of
                  Inl c \<Rightarrow> (Err (ConnCredentialError c), [AskToken])
                | Inr authorization \<Rightarrow>
                    (let (reply, effects) = gateway_post e authorization body i in
                     (and_then reply conn_judge, AskToken # effects)))))"

section \<open>The connection and its requests on the bus\<close>

definition connection_new :: "UriLib \<Rightarrow> string \<Rightarrow> duration \<Rightarrow> (Endpoint, ConnError) result" where
  "connection_new ul endpoint reply_wait =
     (if reply_wait = 0 then Err (ConnInvalidInput ''the reply wait is zero'') else endpoint_parse ul endpoint)"

text \<open>
  What the bus does with a request. At a timeout the code asks whether the connection stands and how often
  it was made.
\<close>

datatype BusAnswer =
    BusReply string
  | BusInvalidSubject string
  | BusNoResponders
  | BusTimedOut bool nat
  | BusOther string

record BusIn =
  bi_connected :: bool
  bi_max_payload :: nat
  bi_connects :: nat
  bi_answer :: BusAnswer

definition bus_request :: "string \<Rightarrow> string \<Rightarrow> duration \<Rightarrow> BusIn \<Rightarrow> (string, ConnError) result \<times> (string \<times> string) list" where
  "bus_request subject body wait i =
     (if wait = 0 then (Err (ConnInvalidInput ''the bus wait is zero''), [])
      else case subject_check subject of
        Inl x \<Rightarrow> (Err x, [])
      | Inr _ \<Rightarrow>
          if \<not> bi_connected i then (Err (ConnUnavailable (conn_transport ''the bus connection is not connected'')), [])
          else if bi_max_payload i < length body then
            (Err (ConnInvalidInput (''the bus body of '' @ nat_text (length body) @ '' bytes is over the limit of ''
               @ nat_text (bi_max_payload i) @ '' bytes of the bus'')), [])
          else
            (case bi_answer i of
               BusReply payload \<Rightarrow> Ok payload
             | BusInvalidSubject t \<Rightarrow> Err (ConnInvalidInput t)
             | BusNoResponders \<Rightarrow> Err (ConnUnavailable (conn_no_listener ''no service listens to the subject''))
             | BusTimedOut connected connects \<Rightarrow>
                 Err (ConnLost (if \<not> connected \<or> connects \<noteq> bi_connects i
                                then conn_transport ''the bus session was cut before the reply''
                                else conn_wait ''no reply within the wait''))
             | BusOther t \<Rightarrow> Err (ConnLost (conn_transport t)), [(subject, body)]))"

section \<open>What a GraphQL call did\<close>

fun sends :: "ConnEffect list \<Rightarrow> HttpRequest list" where
  "sends [] = []"
| "sends (SendRequest r # es) = r # sends es"
| "sends (_ # es) = sends es"

text \<open>The errors that say that nothing was sent.\<close>

fun unsent_error :: "ConnError \<Rightarrow> bool" where
  "unsent_error (ConnInvalidInput _) = True"
| "unsent_error (ConnCredentialError _) = True"
| "unsent_error (ConnUnavailable _) = True"
| "unsent_error _ = False"

definition answered :: "('a, ConnError) result \<Rightarrow> bool" where
  "answered r \<longleftrightarrow> (\<forall>x. r = Err x \<longrightarrow> \<not> unsent_error x)"

lemma answered_simps [simp]: "answered (Ok y)" "answered (Err x) \<longleftrightarrow> \<not> unsent_error x"
  by (simp_all add: answered_def)

lemma data_of_answered: "answered (data_of body)"
  by (auto simp: data_of_def split: option.split json.split)

lemma conn_judge_answered: "answered (conn_judge reply)"
  by (auto simp: conn_judge_def Let_def data_of_answered split: option.split list.split)

lemma http_exchange_answered: "answered (http_exchange race (http_roundtrip response body))"
  by (auto simp: http_exchange_def http_roundtrip_def http_lost_def split: Race.split sum.split)

lemma and_then_answered: "answered r \<Longrightarrow> (\<And>y. answered (f y)) \<Longrightarrow> answered (and_then r f)"
  by (cases r) simp_all

lemma http_open_unsent: "http_open e i = Err x \<Longrightarrow> unsent_error x"
  by (cases "oi_tcp i"; cases "oi_tls i"; cases "oi_handshake i")
    (auto simp: http_open_def http_unavailable_def split: if_splits)

lemma graphql_body_unsent: "graphql_body document variables = Err x \<Longrightarrow> unsent_error x"
  by (auto simp: graphql_body_def Let_def split: if_splits json.splits)

text \<open>How one post ends, over what was sent.\<close>

lemma gateway_post_cases:
  assumes "gateway_post e authorization body i = (r, effects)"
  shows "(\<exists>x. r = Err x \<and> unsent_error x) \<and> (effects = [] \<or> effects = [OpenConnection]) \<or>
    answered r \<and> effects = [OpenConnection, SendRequest \<lparr>hr_target = ep_target e, hr_host = ep_host_header e,
                              hr_authorization = authorization, hr_body = body\<rparr>]"
proof (cases "gateway_request e authorization body i")
  case (Inl x)
  then show ?thesis using assms by (auto simp: gateway_post_def gateway_request_def split: option.splits)
next
  case (Inr q)
  then have q: "q = \<lparr>hr_target = ep_target e, hr_host = ep_host_header e, hr_authorization = authorization, hr_body = body\<rparr>"
    by (auto simp: gateway_request_def split: option.splits)
  show ?thesis
  proof (cases "before (po_deadline i) (po_open_fires i) (http_open e (po_open i))")
    case None
    with Inr assms show ?thesis by (auto simp: gateway_post_def)
  next
    case (Some opened)
    then have o: "opened = http_open e (po_open i)" by (simp add: before_def split: if_splits)
    show ?thesis
    proof (cases opened)
      case (Inl x)
      then have "http_open e (po_open i) = Err x" using o by simp
      from http_open_unsent [OF this] show ?thesis using Inr Some Inl assms by (auto simp: gateway_post_def)
    next
      case c: (Inr c)
      have "answered r"
        using Inr Some c assms
        by (auto simp: gateway_post_def before_def http_exchange_answered split: if_splits)
      moreover have "effects = [OpenConnection, SendRequest q]"
        using Inr Some c assms by (auto simp: gateway_post_def split: option.splits)
      ultimately show ?thesis by (simp add: q)
    qed
  qed
qed

lemma graphql_call_ends:
  assumes "conn_graphql ul e document variables token i = (r, effects)"
  shows "if answered r then
      (\<exists>secret body. token = Ok secret \<and> graphql_body document variables = Ok body \<and> bearer ul secret = Ok (''Bearer '' @ secret) \<and>
         effects = [AskToken, OpenConnection, SendRequest \<lparr>hr_target = ep_target e, hr_host = ep_host_header e,
                      hr_authorization = ''Bearer '' @ secret, hr_body = body\<rparr>])
    else sends effects = [] \<and> (AskToken \<in> set effects \<longleftrightarrow> (\<exists>body. graphql_body document variables = Ok body))"
proof (cases "graphql_body document variables")
  case (Inl x)
  then have "r = Err x" "effects = []" using assms by (simp_all add: conn_graphql_def)
  with graphql_body_unsent [OF Inl] Inl show ?thesis by simp
next
  case b: (Inr body)
  show ?thesis
  proof (cases "\<exists>secret. token = Ok secret \<and> bearer ul secret = Ok (''Bearer '' @ secret)")
    case False
    then have "(\<exists>c. r = Err (ConnCredentialError c)) \<and> effects = [AskToken]"
      using assms b by (cases token) (auto simp: conn_graphql_def bearer_def split: if_splits)
    with b show ?thesis by auto
  next
    case True
    then obtain secret where t: "token = Ok secret" "bearer ul secret = Ok (''Bearer '' @ secret)" by blast
    obtain reply es where p: "gateway_post e (''Bearer '' @ secret) body i = (reply, es)" by (cases "gateway_post e (''Bearer '' @ secret) body i")
    have re: "r = and_then reply conn_judge" "effects = AskToken # es"
      using assms b t p by (simp_all add: conn_graphql_def)
    from gateway_post_cases [OF p] consider
        x where "reply = Err x" "unsent_error x" "es = [] \<or> es = [OpenConnection]"
      | "answered reply" "es = [OpenConnection, SendRequest \<lparr>hr_target = ep_target e, hr_host = ep_host_header e,
           hr_authorization = ''Bearer '' @ secret, hr_body = body\<rparr>]" by blast
    then show ?thesis
    proof cases
      case 1
      with re b show ?thesis by auto
    next
      case 2
      with re b t show ?thesis by (auto simp: and_then_answered conn_judge_answered)
    qed
  qed
qed


definition demo_conn :: UriLib where
  "demo_conn = \<lparr>ul_uri = (\<lambda>_. None), ul_ipv6 = (\<lambda>_. False), ul_server_name = (\<lambda>_. True), ul_header_value = (\<lambda>_. True), ul_target = (\<lambda>_. True)\<rparr>"

definition demo_post :: "PostIn" where
  "demo_post = \<lparr>po_build_refused = None, po_deadline = True, po_open = \<lparr>oi_tcp = Ok (), oi_tls = Ok (), oi_handshake = Ok ()\<rparr>,
     po_open_fires = False, po_race = AnswerFirst, po_response = Ok 200, po_body = Ok (Some (JObject [(''data'', JObject [])])), po_answer_fires = True\<rparr>"


section \<open>How an answer is judged\<close>

definition listed_errors :: "ConnReply \<Rightarrow> json list" where
  "listed_errors reply = (case error_list (rp_body reply) of Some items \<Rightarrow> items | None \<Rightarrow> [])"

text \<open>The first error of a list that has a readable code.\<close>

definition first_coded :: "json list \<Rightarrow> ConnRefusal \<Rightarrow> bool" where
  "first_coded items r \<longleftrightarrow> (\<exists>before x behind. items = before @ x # behind \<and> coded x = Some r \<and> (\<forall>y \<in> set before. coded y = None))"

definition no_errors :: "json \<Rightarrow> bool" where
  "no_errors body \<longleftrightarrow> json_get body ''errors'' \<in> {None, Some JNull, Some (JArray [])}"

definition answer_data :: "ConnReply \<Rightarrow> json option" where
  "answer_data reply =
     (case rp_body reply of
        Some body \<Rightarrow> if no_errors body then (case json_get body ''data'' of Some (JObject ms) \<Rightarrow> Some (JObject ms) | _ \<Rightarrow> None) else None
      | None \<Rightarrow> None)"

lemma map_filter_first:
  "List.map_filter f xs = y # ys \<Longrightarrow> \<exists>before x behind. xs = before @ x # behind \<and> f x = Some y \<and> (\<forall>z \<in> set before. f z = None)"
proof (induction xs)
  case (Cons a xs)
  show ?case
  proof (cases "f a")
    case None
    with Cons obtain before x behind where "xs = before @ x # behind" "f x = Some y" "\<forall>z \<in> set before. f z = None"
      by (auto simp: List.map_filter_def)
    with None show ?thesis by (intro exI [of _ "a # before"] exI [of _ x] exI [of _ behind]) simp
  next
    case (Some b)
    with Cons show ?thesis by (intro exI [of _ "[]"] exI [of _ a] exI [of _ xs]) (simp add: List.map_filter_def)
  qed
qed (simp add: List.map_filter_def)

lemma map_filter_none: "List.map_filter f xs = [] \<longleftrightarrow> (\<forall>x \<in> set xs. f x = None)"
  by (induction xs) (auto simp: List.map_filter_def)

lemma no_errors_list: "error_list (Some body) = Some [] \<longleftrightarrow> no_errors body"
  by (auto simp: error_list_def no_errors_def split: option.split json.splits list.splits)

lemma data_of_ok: "data_of body = Ok d \<longleftrightarrow> (case json_get body ''data'' of Some (JObject ms) \<Rightarrow> Some (JObject ms) | _ \<Rightarrow> None) = Some d"
  by (auto simp: data_of_def split: option.splits json.splits)

lemma data_of_unreadable: "data_of body = Err x \<Longrightarrow> \<exists>t. x = ConnUnreadable t"
  by (auto simp: data_of_def split: option.splits json.splits)

text \<open>The judgement, in the order of its rules.\<close>

lemma conn_judge_cases:
  obtains "rp_status reply = 401 \<or> (\<exists>x \<in> set (listed_errors reply). unauthenticated x)" "conn_judge reply = Err ConnUnauthenticated"
  | r where "rp_status reply \<noteq> 401" "\<forall>x \<in> set (listed_errors reply). \<not> unauthenticated x" "first_coded (listed_errors reply) r"
      "conn_judge reply = Err (ConnRefused r)"
  | "rp_status reply = 403" "\<forall>x \<in> set (listed_errors reply). coded x = None" "conn_judge reply = Err (ConnRefused forbidden)"
  | f where "rp_status reply \<notin> {401, 403}" "\<not> conn_success (rp_status reply)" "\<forall>x \<in> set (listed_errors reply). coded x = None"
      "conn_judge reply = Err (ConnLost f)"
  | d where "conn_success (rp_status reply)" "answer_data reply = Some d" "conn_judge reply = Ok d"
  | t where "conn_success (rp_status reply)" "\<forall>x \<in> set (listed_errors reply). coded x = None" "answer_data reply = None"
      "conn_judge reply = Err (ConnUnreadable t)"
proof -
  consider "rp_status reply = 401 \<or> (\<exists>x \<in> set (listed_errors reply). unauthenticated x)"
    | r rs where "rp_status reply \<noteq> 401" "\<forall>x \<in> set (listed_errors reply). \<not> unauthenticated x" "List.map_filter coded (listed_errors reply) = r # rs"
    | "rp_status reply \<noteq> 401" "\<forall>x \<in> set (listed_errors reply). coded x = None" "\<forall>x \<in> set (listed_errors reply). \<not> unauthenticated x"
        "List.map_filter coded (listed_errors reply) = []"
    by (cases "List.map_filter coded (listed_errors reply)") (auto simp: map_filter_none unauthenticated_def)
  then show ?thesis
  proof cases
    case 1
    then have "conn_judge reply = Err ConnUnauthenticated" by (auto simp: conn_judge_def Let_def listed_errors_def list_ex_iff)
    with 1 that(1) show ?thesis by blast
  next
    case 2
    then have "conn_judge reply = Err (ConnRefused r)" by (auto simp: conn_judge_def Let_def listed_errors_def list_ex_iff)
    moreover have "first_coded (listed_errors reply) r" using map_filter_first [OF 2(3)] by (simp add: first_coded_def)
    ultimately show ?thesis using 2 that(2) by blast
  next
    case 3
    have j: "conn_judge reply = (if \<not> conn_success (rp_status reply) then
            Err (if rp_status reply = 403 then ConnRefused forbidden
                 else ConnLost (conn_transport (''status '' @ nat_text (unat (rp_status reply)) @ '' without a readable code'')))
          else case rp_body reply of
            None \<Rightarrow> Err (ConnUnreadable ''the response is not JSON'')
          | Some body \<Rightarrow>
              (case error_list (rp_body reply) of
                 None \<Rightarrow> Err (ConnUnreadable ''the errors are not a list'')
               | Some (_ # _) \<Rightarrow> Err (ConnUnreadable ''an error without a code'')
               | Some [] \<Rightarrow> data_of body))"
      using 3 by (auto simp: conn_judge_def Let_def listed_errors_def list_ex_iff)
    show ?thesis
    proof (cases "conn_success (rp_status reply)")
      case False
      then show ?thesis using j 3 that(3,4) by (cases "rp_status reply = 403") auto
    next
      case s: True
      have 403: "answer_data reply = None \<Longrightarrow> \<exists>t. conn_judge reply = Err (ConnUnreadable t)"
        and ok: "answer_data reply = Some d \<Longrightarrow> conn_judge reply = Ok d" for d
        using j s data_of_unreadable
        by (auto simp: answer_data_def data_of_def no_errors_list [symmetric] split: option.splits list.splits json.splits if_splits)
      show ?thesis using s 3 403 ok that(5,6) by (cases "answer_data reply") auto
    qed
  qed
qed

lemma answer_no_errors: "answer_data reply = Some d \<Longrightarrow> listed_errors reply = []"
  by (auto simp: answer_data_def listed_errors_def no_errors_list [symmetric] split: option.splits if_splits)

lemma unauthenticated_coded: "unauthenticated x \<Longrightarrow> \<exists>r. coded x = Some r"
  by (auto simp: unauthenticated_def split: option.splits)

lemma first_coded_some: "first_coded items r \<Longrightarrow> \<exists>x \<in> set items. \<exists>s. coded x = Some s"
  by (auto simp: first_coded_def)

lemma conn_success_not: "conn_success status \<Longrightarrow> status \<noteq> 401 \<and> status \<noteq> 403"
  by (auto simp: conn_success_def)

text \<open>
  An answer is judged by its status and its error codes and never by a text. It is unauthenticated
  exactly when the status is 401 or an error anywhere in the list has the code of that; otherwise it is
  refused with the first error that has a readable code, or, when none has and the status is 403, as
  forbidden; it is lost when another status is not one of success, and the call gives data exactly when the
  status is one of success, the errors are absent, null or empty, and the data is an object. Everything
  else is unreadable.
\<close>
theorem graphql_answer_judged:
  "(conn_judge reply = Err ConnUnauthenticated \<longleftrightarrow>
      rp_status reply = 401 \<or> (\<exists>x \<in> set (listed_errors reply). unauthenticated x)) \<and>
   (\<forall>r. conn_judge reply = Err (ConnRefused r) \<longrightarrow> \<not> (\<exists>x \<in> set (listed_errors reply). unauthenticated x) \<and>
      (first_coded (listed_errors reply) r \<or>
       (\<forall>x \<in> set (listed_errors reply). coded x = None) \<and> rp_status reply = 403 \<and> r = forbidden)) \<and>
   ((\<exists>f. conn_judge reply = Err (ConnLost f)) \<longleftrightarrow>
      rp_status reply \<notin> {401, 403} \<and> \<not> conn_success (rp_status reply) \<and> (\<forall>x \<in> set (listed_errors reply). coded x = None)) \<and>
   (\<forall>d. conn_judge reply = Ok d \<longleftrightarrow> conn_success (rp_status reply) \<and> answer_data reply = Some d)"
proof -
  have n: "answer_data reply = None \<or> listed_errors reply = []"
    using answer_no_errors [of reply] by (cases "answer_data reply") auto
  show ?thesis
  proof (cases reply rule: conn_judge_cases)
    case 1
    then have "rp_status reply = 401 \<or> (\<exists>x \<in> set (listed_errors reply). coded x \<noteq> None)"
      using unauthenticated_coded by fastforce
    moreover from this have "\<not> conn_success (rp_status reply) \<or> answer_data reply = None"
      using answer_no_errors [of reply] conn_success_not [of "rp_status reply"] by (cases "answer_data reply") auto
    ultimately show ?thesis using 1 by auto
  next
    case (2 r)
    then show ?thesis using n by (auto dest: first_coded_some conn_success_not unauthenticated_coded)
  next
    case 3
    then show ?thesis using n by (auto dest: first_coded_some conn_success_not unauthenticated_coded)
  next
    case (4 f)
    then show ?thesis using n by (auto dest: first_coded_some conn_success_not unauthenticated_coded)
  next
    case (5 d)
    then show ?thesis using n by (auto dest: first_coded_some conn_success_not unauthenticated_coded)
  next
    case (6 t)
    then show ?thesis using n by (auto dest: first_coded_some conn_success_not unauthenticated_coded)
  qed
qed

definition demo_errors :: json where
  "demo_errors = JObject [(''errors'', JArray [JObject [(''message'', JString ''no'')],
     JObject [(''extensions'', JObject [(''code'', JString ''CONFLICT'')])]]), (''data'', JObject [])]"

theorem graphql_answer_judged_witness:
  "\<exists>r. conn_judge \<lparr>rp_status = 200, rp_body = Some demo_errors\<rparr> = Err (ConnRefused r) \<and> cr_code r = ''CONFLICT'' \<and>
     first_coded (listed_errors \<lparr>rp_status = 200, rp_body = Some demo_errors\<rparr>) r"
proof -
  let ?reply = "\<lparr>rp_status = 200, rp_body = Some demo_errors\<rparr>"
  obtain r where r: "conn_judge ?reply = Err (ConnRefused r)" "cr_code r = ''CONFLICT''"
    by (simp add: conn_judge_def error_list_def demo_errors_def json_get_def json_str_def unauthenticated_def coded_def
        ext_optional_def List.map_filter_def Let_def)
  have "rp_status ?reply \<noteq> 403" by simp
  with r graphql_answer_judged [of ?reply] have "first_coded (listed_errors ?reply) r" by blast
  with r show ?thesis by blast
qed

section \<open>What a request on the bus did\<close>

lemma tokens_check_ok: "tokens_check ts = Ok () \<longleftrightarrow> (\<forall>t \<in> set ts. t \<notin> {[], ''*'', ''>''})"
  by (induction ts) auto

lemma tokens_check_refuses: "tokens_check ts = Err x \<Longrightarrow> unsent_error x"
  by (induction ts) (auto simp: subject_refuse_def split: if_splits)

lemma subject_check_refuses: "subject_check subject = Err x \<Longrightarrow> unsent_error x"
  by (auto simp: subject_check_def subject_refuse_def dest: tokens_check_refuses split: if_splits)

text \<open>A literal subject: not empty, without white space, and no token of it empty or a wildcard.\<close>

definition subject_literal :: "string \<Rightarrow> bool" where
  "subject_literal subject \<longleftrightarrow> subject \<noteq> [] \<and> (\<forall>c \<in> set subject. \<not> is_whitespace c) \<and>
     (\<exists>ts. str_join (CHR ''.'') ts = subject \<and> ts \<noteq> [] \<and> (\<forall>t \<in> set ts. CHR ''.'' \<notin> set t \<and> t \<notin> {[], ''*'', ''>''}))"

lemma subject_check_ok: "subject_check subject = Ok () \<longleftrightarrow> subject_literal subject"
proof -
  have "(\<forall>t \<in> set (str_split (CHR ''.'') subject). t \<notin> {[], ''*'', ''>''}) \<longleftrightarrow>
      (\<exists>ts. str_join (CHR ''.'') ts = subject \<and> ts \<noteq> [] \<and> (\<forall>t \<in> set ts. CHR ''.'' \<notin> set t \<and> t \<notin> {[], ''*'', ''>''}))" (is "?L \<longleftrightarrow> ?R")
  proof
    assume ?L
    with str_join_split [of "CHR ''.''" subject] show ?R by (intro exI [of _ "str_split (CHR ''.'') subject"]) simp
  next
    assume ?R
    then obtain ts where "str_join (CHR ''.'') ts = subject" "ts \<noteq> []" "\<forall>t \<in> set ts. CHR ''.'' \<notin> set t \<and> t \<notin> {[], ''*'', ''>''}" by blast
    with str_split_join [of ts "CHR ''.''"] show ?L by auto
  qed
  then show ?thesis by (simp add: subject_check_def subject_literal_def tokens_check_ok list_ex_iff)
qed

text \<open>
  A request on the bus is handed over once or not at all. It is handed over exactly when the wait is not
  zero, the connection stands, the body is within the limit of the bus, and the subject is literal: not
  empty, without white space, no token of it empty or a wildcard, where the tokens joined by dots are the
  subject. A request that was not handed over ends as an invalid input or as unavailable; one that the bus
  took ends with the reply or as lost, and it is unavailable only when nobody listens.
\<close>
theorem bus_request_handed_once:
  "let (r, handed) = bus_request subject body wait i;
       sendable = (wait \<noteq> 0 \<and> bi_connected i \<and> length body \<le> bi_max_payload i \<and> subject_literal subject) in
     handed = (if sendable then [(subject, body)] else []) \<and>
     (\<not> sendable \<longrightarrow> \<not> answered r) \<and>
     (sendable \<and> \<not> answered r \<longrightarrow> bi_answer i = BusNoResponders \<or> (\<exists>t. bi_answer i = BusInvalidSubject t))"
proof (cases "subject_check subject")
  case (Inl x)
  then have "\<not> subject_literal subject" by (simp add: subject_check_ok [symmetric])
  with Inl subject_check_refuses [OF Inl] show ?thesis by (simp add: bus_request_def)
next
  case (Inr u)
  then have "subject_literal subject" by (simp add: subject_check_ok [symmetric])
  then show ?thesis using Inr by (cases "bi_answer i") (simp_all add: bus_request_def)
qed

theorem bus_request_handed_once_witness:
  "snd (bus_request ''a.b'' ''x'' 1 \<lparr>bi_connected = True, bi_max_payload = 8, bi_connects = 1, bi_answer = BusTimedOut True 2\<rparr>) = [(''a.b'', ''x'')] \<and>
   snd (bus_request ''a.>'' ''x'' 1 \<lparr>bi_connected = True, bi_max_payload = 8, bi_connects = 1, bi_answer = BusTimedOut True 2\<rparr>) = []"
proof -
  let ?i = "\<lparr>bi_connected = True, bi_max_payload = 8, bi_connects = 1, bi_answer = BusTimedOut True 2\<rparr>"
  have l: "subject_literal ''a.b''" "\<not> subject_literal ''a.>''"
    by (simp_all add: subject_check_ok [symmetric] subject_check_def is_whitespace_def)
  show ?thesis
    using bus_request_handed_once [of "''a.b''" "''x''" 1 ?i] bus_request_handed_once [of "''a.>''" "''x''" 1 ?i] l
    by (simp add: case_prod_beta Let_def)
qed

end
