(* ===== verification/Transport_Wire.thy ===== *)
theory Transport_Wire
  imports Transport_Commands Connection_Call
begin

text \<open>
  What the runner transport of \<open>br-runner-jobs\<close> puts on the wire (\<open>runner_transport\<close>): the commands that end
  or make child Jobs (\<open>commands.rs\<close>), the facts of a Run and its log lines (\<open>publish.rs\<close>), the requests to
  the surface of jobs and their replies (\<open>surface.rs\<close>), the presence entry (\<open>presence.rs\<close>), and the checks
  of a new connection (\<open>connect.rs\<close>). The wire types of the contract crate are records with the fields that
  the source fills; subjects, streams and the bytes of a value are the functions of \<open>WireNames\<close>.
\<close>

section \<open>Commands\<close>

definition payload_of :: "PayloadForm \<Rightarrow> WirePayload" where
  "payload_of form =
     (case form of
        Inline content \<Rightarrow> WireInline (content_message content) (content_attachments content)
      | Kept \<Rightarrow> WireKept
      | Reference service document_id \<Rightarrow> WireReference service document_id)"

record CreateJobV3 =
  cj_job_id :: uuid
  cj_runner_type :: string
  cj_producer :: string
  cj_config :: "json option"
  cj_payload :: "WirePayload option"
  cj_passport :: "json option"
  cj_triggered_by :: "uuid option"
  cj_parent_job_id :: "uuid option"
  cj_initial_job_id :: "uuid option"
  cj_mode :: "WireMode option"
  cj_caller_address :: "uuid option"
  cj_acting_run_id :: "uuid option"
  cj_acting_instance_key :: "string option"
  cj_source_bc :: "string option"
  cj_source_entity_id :: "string option"
  cj_max_attempts :: "int option"
  cj_priority :: "string option"

text \<open>A finish and a cancel have the same fields: the Job, the Run that acts and the key of its instance.\<close>

record EndJobV3 =
  ej_job_id :: uuid
  ej_acting_run_id :: "uuid option"
  ej_acting_instance_key :: "string option"

datatype CommandPayload = PayloadCreate CreateJobV3 | PayloadFinish EndJobV3 | PayloadCancel EndJobV3

datatype CommandType = TypeCreate | TypeFinish | TypeCancel

record Envelope =
  env_command_id :: uuid
  env_command_type :: CommandType
  env_issued_at :: datetime
  env_actor :: uuid
  env_correlation :: uuid
  env_payload :: CommandPayload

text \<open>
  The coordinates of commands and events, which the contract crate makes or fails to make with a text; the
  rejection of a create has a type of its own.
\<close>

record Coords =
  co_command :: "CommandType \<Rightarrow> (string, string) result"
  co_success :: "CommandType \<Rightarrow> (string, string) result"
  co_rejection :: "CommandType \<Rightarrow> (string, string) result"

record Outcomes =
  oc_success :: string
  oc_rejection :: string
  oc_operation :: Operation

text \<open>The parts of a \<open>Live\<close> transport that a command reads.\<close>

record LiveParts =
  lv_runner_type :: RunnerType
  lv_instance_key :: string
  lv_service_account :: uuid

datatype WireSession = LiveSession string Envelope Outcomes | FailingSession Error

definition envelope :: "LiveParts \<Rightarrow> datetime \<Rightarrow> uuid \<Rightarrow> CommandType \<Rightarrow> CommandPayload \<Rightarrow> Envelope" where
  "envelope lv now cid ct payload =
     \<lparr>env_command_id = cid, env_command_type = ct, env_issued_at = now, env_actor = lv_service_account lv,
      env_correlation = cid, env_payload = payload\<rparr>"

definition coords :: "(string, string) result \<Rightarrow> (string, Error) result" where
  "coords made = map_sum InvalidInput id made"

definition outcome_coords :: "Coords \<Rightarrow> CommandType \<Rightarrow> Operation \<Rightarrow> (Outcomes, Error) result" where
  "outcome_coords co ct op =
     and_then (coords (co_success co ct)) (\<lambda>success.
     and_then (coords (co_rejection co ct)) (\<lambda>rejection.
       Ok \<lparr>oc_success = success, oc_rejection = rejection, oc_operation = op\<rparr>))"

definition live_session :: "Coords \<Rightarrow> CommandType \<Rightarrow> Operation \<Rightarrow> Envelope \<Rightarrow> WireSession" where
  "live_session co ct op env =
     (case and_then (coords (co_command co ct)) (\<lambda>c. map_sum id (Pair c) (outcome_coords co ct op)) of
        Inr (command, outcomes) \<Rightarrow> LiveSession command env outcomes
      | Inl e \<Rightarrow> FailingSession e)"

fun runner_type_text :: "RunnerType \<Rightarrow> string" where
  "runner_type_text (RunnerType t) = t"

definition create_job :: "LiveParts \<Rightarrow> CreateChild \<Rightarrow> CreateJobV3" where
  "create_job lv c =
     (let (mode, caller) = (case create_mode c of Sync \<Rightarrow> (WireSync, None) | Background address \<Rightarrow> (WireBackground, Some address)) in
      \<lparr>cj_job_id = create_job_id c, cj_runner_type = runner_type_text (create_runner_type c),
       cj_producer = runner_type_text (lv_runner_type lv), cj_config = create_config c,
       cj_payload = Some (payload_of (create_payload c)), cj_passport = Some (create_passport c), cj_triggered_by = None,
       cj_parent_job_id = Some (create_parent_job_id c), cj_initial_job_id = Some (create_initial_job_id c),
       cj_mode = Some mode, cj_caller_address = caller, cj_acting_run_id = Some (create_run_id c),
       cj_acting_instance_key = Some (lv_instance_key lv), cj_source_bc = None, cj_source_entity_id = None,
       cj_max_attempts = create_max_attempts c, cj_priority = None\<rparr>)"

definition create_child :: "Coords \<Rightarrow> LiveParts \<Rightarrow> datetime \<Rightarrow> CreateChild \<Rightarrow> WireSession" where
  "create_child co lv now c =
     live_session co TypeCreate CreateOp (envelope lv now (create_command_id c) TypeCreate (PayloadCreate (create_job lv c)))"

definition child :: "Coords \<Rightarrow> LiveParts \<Rightarrow> datetime \<Rightarrow> ChildCommand \<Rightarrow> WireSession" where
  "child co lv now command =
     (let ends = (\<lambda>job run. \<lparr>ej_job_id = job, ej_acting_run_id = Some run, ej_acting_instance_key = Some (lv_instance_key lv)\<rparr>) in
      case command of
        CmdCreate c \<Rightarrow> create_child co lv now c
      | CmdFinish cid job run \<Rightarrow>
          live_session co TypeFinish FinishOp (envelope lv now cid TypeFinish (PayloadFinish (ends job run)))
      | CmdCancel cid job run \<Rightarrow>
          live_session co TypeCancel CancelOp (envelope lv now cid TypeCancel (PayloadCancel (ends job run))))"

text \<open>
  The first half of \<open>outcome_of\<close>: an event by its subject. The event is decoded as the rejection of a create
  or as that of another command; a decoding that fails is an unreadable outcome.
\<close>

record FoundEvent =
  fo_subject :: string
  fo_creation :: "(string \<times> string, string) result"
  fo_command :: "(string \<times> string, string) result"

definition outcome_found :: "Outcomes \<Rightarrow> FoundEvent \<Rightarrow> CmdOutcome" where
  "outcome_found oc found =
     (if fo_subject found = oc_success oc then OcSuccess
      else if fo_subject found \<noteq> oc_rejection oc then OcStray (fo_subject found)
      else OcRejected (map_sum Unreadable id
             (if oc_operation oc = CreateOp then fo_creation found else fo_command found)))"

section \<open>What a command says\<close>

text \<open>The other end: what a reader of the wire, the trigger of the child among them, makes of a create.\<close>

definition wire_call_mode :: "CreateJobV3 \<Rightarrow> CallMode option" where
  "wire_call_mode w =
     (case (cj_mode w, cj_caller_address w) of
        (Some WireSync, None) \<Rightarrow> Some Sync
      | (Some WireBackground, Some caller) \<Rightarrow> Some (Background caller)
      | _ \<Rightarrow> None)"

definition read_create :: "uuid \<Rightarrow> CreateJobV3 \<Rightarrow> CreateChild option" where
  "read_create cid w =
     (case (wire_call_mode w, cj_payload w, cj_passport w, cj_parent_job_id w, cj_initial_job_id w, cj_acting_run_id w) of
        (Some mode, Some payload, Some passport, Some parent, Some initial, Some run) \<Rightarrow>
          Some \<lparr>create_command_id = cid, create_job_id = cj_job_id w, create_runner_type = RunnerType (cj_runner_type w),
                create_mode = mode, create_config = cj_config w, create_payload = payload_form payload,
                create_passport = passport, create_parent_job_id = parent, create_initial_job_id = initial,
                create_run_id = run, create_max_attempts = cj_max_attempts w\<rparr>
      | _ \<Rightarrow> None)"

definition read_command :: "Envelope \<Rightarrow> ChildCommand option" where
  "read_command env =
     (case env_payload env of
        PayloadCreate w \<Rightarrow> map_option CmdCreate (read_create (env_command_id env) w)
      | PayloadFinish w \<Rightarrow> map_option (CmdFinish (env_command_id env) (ej_job_id w)) (ej_acting_run_id w)
      | PayloadCancel w \<Rightarrow> map_option (CmdCancel (env_command_id env) (ej_job_id w)) (ej_acting_run_id w))"

lemma payload_form_of: "payload_form (payload_of form) = form"
  by (cases form) (simp_all add: payload_of_def payload_form_def)

lemma read_create_job: "read_create (create_command_id c) (create_job lv c) = Some c"
  by (cases "create_mode c"; cases "create_runner_type c")
    (simp_all add: read_create_def create_job_def wire_call_mode_def payload_form_of)

definition operation_of :: "ChildCommand \<Rightarrow> Operation" where
  "operation_of c = (case c of CmdCreate _ \<Rightarrow> CreateOp | CmdFinish _ _ _ \<Rightarrow> FinishOp | CmdCancel _ _ _ \<Rightarrow> CancelOp)"

definition type_of :: "ChildCommand \<Rightarrow> CommandType" where
  "type_of c = (case c of CmdCreate _ \<Rightarrow> TypeCreate | CmdFinish _ _ _ \<Rightarrow> TypeFinish | CmdCancel _ _ _ \<Rightarrow> TypeCancel)"

lemma live_session_cases:
  "live_session co ct op env = LiveSession command e oc \<longleftrightarrow>
     co_command co ct = Ok command \<and> e = env \<and> co_success co ct = Ok (oc_success oc) \<and> co_rejection co ct = Ok (oc_rejection oc) \<and>
     oc_operation oc = op"
proof (cases oc)
  case (fields s r p)
  then show ?thesis
    by (cases "co_command co ct"; cases "co_success co ct"; cases "co_rejection co ct")
      (auto simp: live_session_def coords_def outcome_coords_def)
qed

definition demo_coords :: Coords where
  "demo_coords = \<lparr>co_command = (\<lambda>_. Ok ''c''), co_success = (\<lambda>_. Ok ''s''), co_rejection = (\<lambda>_. Ok ''r'')\<rparr>"

definition demo_live :: LiveParts where
  "demo_live = \<lparr>lv_runner_type = RunnerType ''analyst'', lv_instance_key = ''k'', lv_service_account = 7\<rparr>"

definition demo_event :: FoundEvent where
  "demo_event = \<lparr>fo_subject = ''r'', fo_creation = Err '''', fo_command = Ok (''job_terminal'', ''done'')\<rparr>"


section \<open>Facts and log lines\<close>

datatype FactSubject = StPlanDeclared | StStepStarted | StCompleted | StFailed

datatype WireKind = WkTransient | WkPermanent

fun wire_kind :: "FailureKind \<Rightarrow> WireKind" where
  "wire_kind Transient = WkTransient"
| "wire_kind Permanent = WkPermanent"

record FactReport =
  fr_kind :: "WireKind option"
  fr_reason_code :: string
  fr_params :: json
  fr_diagnostic :: json

datatype FactBody =
    PlanDeclared uuid "string list" "uuid option"
  | StepStarted uuid u32 string datetime
  | RunCompleted uuid
  | RunFailed uuid FactReport "int option"

record WireLogLine =
  ll_id :: "uuid option"
  ll_run_id :: uuid
  ll_step_index :: "u32 option"
  ll_level :: string
  ll_message :: string
  ll_logged_at :: datetime

text \<open>The subject of a fact, and the bytes serde makes of a value of the wire, or its error.\<close>

record 'b WireNames =
  wn_status :: "FactSubject \<Rightarrow> string"
  wn_fact :: "FactBody \<Rightarrow> ('b, string) result"
  wn_log :: "WireLogLine \<Rightarrow> ('b, string) result"

definition fact_body :: "Fact \<Rightarrow> FactSubject \<times> FactBody" where
  "fact_body f =
     (case f of
        FPlan run steps declaration \<Rightarrow> (StPlanDeclared, PlanDeclared run steps declaration)
      | FStep run index label started_at \<Rightarrow> (StStepStarted, StepStarted run index label started_at)
      | FCompleted run \<Rightarrow> (StCompleted, RunCompleted run)
      | FFailed run failed \<Rightarrow>
          (StFailed, RunFailed run
             \<lparr>fr_kind = Some (wire_kind (failed_kind failed)), fr_reason_code = failed_reason_code failed,
              fr_params = failed_params failed, fr_diagnostic = failed_diagnostic failed\<rparr>
             (failed_retry_after_seconds failed)))"

definition wire_bytes :: "('b, string) result \<Rightarrow> ('b, Error) result" where
  "wire_bytes r = map_sum InvalidInput id r"

definition encode_fact :: "'b WireNames \<Rightarrow> Fact \<Rightarrow> (string \<times> 'b, Error) result" where
  "encode_fact wn f = (let (st, w) = fact_body f in map_sum id (Pair (wn_status wn st)) (wire_bytes (wn_fact wn w)))"

text \<open>
  What the bus does with a fact: the answer to the sending and the confirmation, \<open>None\<close> when the deadline
  comes first. A fact that was sent is recorded with its subject, its bytes and its message id.
\<close>

record FactIn =
  fi_send :: "(unit, ErrorChain) result option"
  fi_confirm :: "(unit, ErrorChain) result option"

definition send_fact :: "'b WireNames \<Rightarrow> Fact \<Rightarrow> string \<Rightarrow> FactIn \<Rightarrow> (unit, Error) result \<times> (string \<times> 'b \<times> string) list" where
  "send_fact wn f message_id i =
     (case encode_fact wn f of
        Inl e \<Rightarrow> (Err e, [])
      | Inr (subject, bytes) \<Rightarrow>
          (case fi_send i of
             None \<Rightarrow> (Err (Unavailable (failure_wait ''the fact was not handed to the bus'')), [])
           | Some (Inl e) \<Rightarrow> (Err (fail_unsent ''the status stream'' e), [])
           | Some (Inr _) \<Rightarrow>
               (case fi_confirm i of
                  None \<Rightarrow> Err (error_wait_fired ''the status stream did not confirm the fact'')
                | Some r \<Rightarrow> map_sum (fail_sent ''the status stream'') id r, [(subject, bytes, message_id)])))"

definition log_line :: "LogRecord \<Rightarrow> WireLogLine" where
  "log_line l =
     \<lparr>ll_id = log_id l, ll_run_id = log_run_id l, ll_step_index = log_step_index l, ll_level = log_level_as_str (log_level l),
      ll_message = log_message l, ll_logged_at = logged_at l\<rparr>"

definition send_log :: "'b WireNames \<Rightarrow> LogRecord \<Rightarrow> (unit, ErrorChain) result \<Rightarrow> (unit, Error) result" where
  "send_log wn l published =
     and_then (wire_bytes (wn_log wn (log_line l))) (\<lambda>_. map_sum (fail_unsent ''the log line'') id published)"

lemma fail_unsent_cases: "\<exists>f. fail_unsent object e = Unavailable f \<or> fail_unsent object e = fail_missing object"
  by (auto simp: fail_unsent_def error_unavailable_def split: ErrorClass.split)

lemma fail_sent_cases: "(\<exists>f. fail_sent object e = Lost f) \<or> fail_sent object e = fail_missing object"
  by (auto simp: fail_sent_def error_lost_def error_wait_fired_def split: ErrorClass.split)

lemma timed_answer:
  fixes x :: "(unit, 'e) result option"
  obtains "x = None" | e where "x = Some (Inl e)" | "x = Some (Ok ())"
proof (cases x)
  case (Some r)
  then show ?thesis using that by (cases r) auto
qed (use that in blast)

text \<open>A failed encoding, a failed sending and a failed confirmation, each with its kind of error.\<close>

lemma encode_fact_err: "encode_fact wn f = Err e \<Longrightarrow> \<exists>t. e = InvalidInput t"
  by (cases "wn_fact wn (snd (fact_body f))") (auto simp: encode_fact_def wire_bytes_def case_prod_beta)

lemma fact_body_inj: "fact_body f = fact_body g \<Longrightarrow> f = g"
proof -
  have k: "wire_kind k = wire_kind l \<longleftrightarrow> k = l" for k l by (cases k; cases l) simp_all
  show "fact_body f = fact_body g \<Longrightarrow> f = g"
    by (cases f; cases g) (auto simp: fact_body_def k intro: Failed.equality)
qed

text \<open>
  C20: the error of a fact says whether it may have been taken. A fact that the bus confirmed was sent, once,
  under its message id; lost means that it was sent and may be in the stream, unavailable and invalid that
  nothing was sent, and no other error comes but that the stream is missing. And the facts of a Run do not
  mix: two facts with the same subject and body are the same fact.
\<close>
theorem fact_error_tells_sent:
  assumes "send_fact wn f message_id i = (r, sent)"
  shows "(let once = (\<exists>subject bytes. encode_fact wn f = Ok (subject, bytes) \<and> sent = [(subject, bytes, message_id)]) in
      case r of
        Inr _ \<Rightarrow> once
      | Inl (Lost _) \<Rightarrow> once
      | Inl (Unavailable _) \<Rightarrow> sent = []
      | Inl (InvalidInput _) \<Rightarrow> sent = []
      | Inl e \<Rightarrow> e = fail_missing ''the status stream'' \<and> (once \<or> sent = [])) \<and>
    (\<forall>g. fact_body g = fact_body f \<longrightarrow> g = f)"
proof -
  have m: "fail_missing t = InfraMissing (t @ '' is missing'')" for t by (simp add: fail_missing_def)
  have "let once = (\<exists>subject bytes. encode_fact wn f = Ok (subject, bytes) \<and> sent = [(subject, bytes, message_id)]) in
      case r of
        Inr _ \<Rightarrow> once
      | Inl (Lost _) \<Rightarrow> once
      | Inl (Unavailable _) \<Rightarrow> sent = []
      | Inl (InvalidInput _) \<Rightarrow> sent = []
      | Inl e \<Rightarrow> e = fail_missing ''the status stream'' \<and> (once \<or> sent = [])"
  proof (cases "encode_fact wn f")
    case (Inl e)
    with encode_fact_err [OF Inl] assms show ?thesis by (auto simp: send_fact_def)
  next
    case (Inr sb)
    obtain subject bytes where sb: "sb = (subject, bytes)" by (cases sb)
    consider "fi_send i = None" | e where "fi_send i = Some (Inl e)" | "fi_send i = Some (Ok ())" "fi_confirm i = None"
      | e where "fi_send i = Some (Ok ())" "fi_confirm i = Some (Inl e)" | "fi_send i = Some (Ok ())" "fi_confirm i = Some (Ok ())"
      by (cases rule: timed_answer [of "fi_send i"]; cases rule: timed_answer [of "fi_confirm i"]) blast+
    then show ?thesis
    proof cases
      case (2 e)
      then have "r = Err (fail_unsent ''the status stream'' e)" "sent = []" using Inr sb assms by (simp_all add: send_fact_def)
      with fail_unsent_cases [of "''the status stream''" e] show ?thesis by (auto simp: m)
    next
      case (4 e)
      then have "r = Err (fail_sent ''the status stream'' e)" "sent = [(subject, bytes, message_id)]" using Inr sb assms by (simp_all add: send_fact_def)
      with fail_sent_cases [of "''the status stream''" e] Inr sb show ?thesis by (auto simp: m)
    qed (use Inr sb assms in \<open>auto simp: send_fact_def error_wait_fired_def\<close>)
  qed
  then show ?thesis using fact_body_inj by blast
qed

definition demo_names_of :: "string WireNames" where
  "demo_names_of = \<lparr>wn_status = (\<lambda>_. ''status''), wn_fact = (\<lambda>_. Ok ''body''), wn_log = (\<lambda>_. Ok ''line'')\<rparr>"

theorem fact_error_tells_sent_witness:
  "\<exists>r sent. send_fact demo_names_of (FCompleted 3) ''m'' \<lparr>fi_send = Some (Ok ()), fi_confirm = None\<rparr> = (r, sent) \<and>
     r = Err (error_wait_fired ''the status stream did not confirm the fact'') \<and> sent = [(''status'', ''body'', ''m'')]"
proof -
  let ?i = "\<lparr>fi_send = Some (Ok ()), fi_confirm = None\<rparr>"
  obtain r sent where c: "send_fact demo_names_of (FCompleted 3) ''m'' ?i = (r, sent)" by fastforce
  have e: "encode_fact demo_names_of (FCompleted 3) = Ok (''status'', ''body'')"
    by (simp add: encode_fact_def fact_body_def wire_bytes_def demo_names_of_def)
  have "r = Err (error_wait_fired ''the status stream did not confirm the fact'')" using c e by (simp add: send_fact_def)
  with fact_error_tells_sent [OF c] e c show ?thesis by (auto simp: error_wait_fired_def)
qed

end
