(* ===== verification/Transport_Surface.thy ===== *)
theory Transport_Surface
  imports Transport_Wire Slot_Loop
begin

text \<open>
  The requests to the surface of jobs (\<open>runner_transport/surface.rs\<close>), the claim of the client
  (\<open>client.rs\<close>), the presence entry (\<open>presence.rs\<close>) and the checks of a new connection (\<open>connect.rs\<close>). A request
  goes over \<open>bus_request\<close> of the connection. Serde's reading of a reply is a parameter (\<open>SurfaceLib\<close>), as are
  the bytes and the subject of a request.
\<close>

section \<open>Requests and replies\<close>

datatype JsonCategory = CatIo | CatSyntax | CatData | CatEof

record JsonFault =
  jf_category :: JsonCategory
  jf_line :: nat
  jf_column :: nat

definition unreadable_json :: "string \<Rightarrow> JsonFault \<Rightarrow> Error" where
  "unreadable_json what fault =
     Unreadable (what @ '': '' @
       (case jf_category fault of
          CatIo \<Rightarrow> ''a read failure''
        | CatSyntax \<Rightarrow> ''a syntax error''
        | CatData \<Rightarrow> ''a value of the wrong shape''
        | CatEof \<Rightarrow> ''an unexpected end'') @
       '' at line '' @ nat_text (jf_line fault) @ '' column '' @ nat_text (jf_column fault))"

definition unreadable_payload :: "string \<Rightarrow> Error" where
  "unreadable_payload subject = Unreadable (subject @ '': the payload cannot be decoded'')"

text \<open>\<open>Duration::as_millis\<close> as a \<open>u64\<close>, or the largest one.\<close>

definition millis :: "duration \<Rightarrow> u64" where
  "millis wait = (if wait div 10 ^ 6 < 2 ^ 64 then of_nat (wait div 10 ^ 6) else - 1)"

record AgentWire =
  aw_agent_id :: uuid
  aw_has_inbox :: bool
  aw_declares_restart :: bool

datatype SurfaceRequest =
    ReqClaim string uuid u64
  | ReqStarted uuid string uuid
  | ReqRegister uuid string "AgentWire list"
  | ReqMarkRead uuid string "uuid list"
  | ReqListAgents uuid string

datatype SurfaceSubject = SubClaim | SubStarted | SubRegister | SubMarkRead | SubListAgents

text \<open>A reason that the contract knows, with the word serde writes for it when it writes text, or another word.\<close>

datatype WireReason = ReasonKnown "string option" | ReasonOther string

record SurfaceReply =
  sr_accepted :: bool
  sr_reason :: "WireReason option"
  sr_message :: "string option"

record AgentEntry =
  ae_agent_id :: uuid
  ae_run_id :: uuid
  ae_runner_type :: string
  ae_running :: bool
  ae_has_inbox :: bool
  ae_mail_address :: "uuid option"
  ae_restartable_now :: "bool option"

record AgentsReply = SurfaceReply +
  ar_agents :: "AgentEntry list option"

text \<open>The reply to a claim, without the Run that may be beside it; a known reason is given by its word.\<close>

datatype ClaimWord = ClaimKnown string | ClaimUnknown string

record ClaimReply =
  cl_reason :: "ClaimWord option"
  cl_retry_after_ms :: "u64 option"

record SurfaceLib =
  sf_subject :: "SurfaceSubject \<Rightarrow> string"
  sf_bytes :: "SurfaceRequest \<Rightarrow> (string, string) result"
  sf_reply :: "string \<Rightarrow> (SurfaceReply, JsonFault) result"
  sf_agents :: "string \<Rightarrow> (AgentsReply, JsonFault) result"
  sf_json :: "string \<Rightarrow> (json, JsonFault) result"
  sf_claim :: "json \<Rightarrow> (ClaimReply, JsonFault) result"
  sf_segment :: "string \<Rightarrow> bool"

definition surface_word :: "WireReason option \<Rightarrow> RefusalReason" where
  "surface_word r =
     (case r of
        Some (ReasonOther w) \<Rightarrow> from_word w
      | Some (ReasonKnown (Some w)) \<Rightarrow> from_word w
      | Some (ReasonKnown None) \<Rightarrow> from_word ''unspecified''
      | None \<Rightarrow> from_word ''unspecified'')"

text \<open>One request: its result, and what was handed to the bus.\<close>

definition surface_request ::
    "SurfaceLib \<Rightarrow> SurfaceSubject \<Rightarrow> SurfaceRequest \<Rightarrow> duration \<Rightarrow> Operation \<Rightarrow> BusIn \<Rightarrow>
     (string, Error) result \<times> (string \<times> string) list" where
  "surface_request lib sub req wait op i =
     (case wire_bytes (sf_bytes lib req) of
        Inl e \<Rightarrow> (Err e, [])
      | Inr body \<Rightarrow> (case bus_request (sf_subject lib sub) body wait i of (r, handed) \<Rightarrow> (map_sum (jobs_error op) id r, handed)))"

definition accepted :: "SurfaceLib \<Rightarrow> string \<Rightarrow> Operation \<Rightarrow> (unit, Error) result" where
  "accepted lib reply op =
     (case sf_reply lib reply of
        Inl fault \<Rightarrow> Err (unreadable_json (''the '' @ operation_as_str op @ '' reply'') fault)
      | Inr r \<Rightarrow>
          if sr_accepted r then Ok ()
          else Err (error_refused op (surface_word (sr_reason r)) (case sr_message r of Some m \<Rightarrow> m | None \<Rightarrow> '''')))"

definition surface_done ::
    "SurfaceLib \<Rightarrow> SurfaceSubject \<Rightarrow> SurfaceRequest \<Rightarrow> duration \<Rightarrow> Operation \<Rightarrow> BusIn \<Rightarrow>
     (unit, Error) result \<times> (string \<times> string) list" where
  "surface_done lib sub req wait op i =
     (case surface_request lib sub req wait op i of (r, handed) \<Rightarrow> (and_then r (\<lambda>reply. accepted lib reply op), handed))"

definition started_request :: "SurfaceLib \<Rightarrow> string \<Rightarrow> uuid \<Rightarrow> uuid \<Rightarrow> duration \<Rightarrow> BusIn \<Rightarrow> (unit, Error) result \<times> (string \<times> string) list" where
  "started_request lib key run start wait i = surface_done lib SubStarted (ReqStarted run key start) wait StartedFact i"

definition wire_agent :: "AgentDeclaration \<Rightarrow> AgentWire" where
  "wire_agent a = \<lparr>aw_agent_id = decl_agent_id a, aw_has_inbox = decl_has_inbox a, aw_declares_restart = decl_can_restart a\<rparr>"

definition register_request :: "SurfaceLib \<Rightarrow> string \<Rightarrow> uuid \<Rightarrow> AgentDeclaration list \<Rightarrow> duration \<Rightarrow> BusIn \<Rightarrow> (unit, Error) result \<times> (string \<times> string) list" where
  "register_request lib key run decls wait i =
     surface_done lib SubRegister (ReqRegister run key (map wire_agent decls)) wait RegistrationOp i"

definition mark_request :: "SurfaceLib \<Rightarrow> string \<Rightarrow> uuid \<Rightarrow> uuid list \<Rightarrow> duration \<Rightarrow> BusIn \<Rightarrow> (unit, Error) result \<times> (string \<times> string) list" where
  "mark_request lib key run items wait i = surface_done lib SubMarkRead (ReqMarkRead run key items) wait ReadMarkerOp i"

definition listed_agent :: "SurfaceLib \<Rightarrow> AgentEntry \<Rightarrow> (ListedAgent, Error) result" where
  "listed_agent lib a =
     (if sf_segment lib (ae_runner_type a) then
        Ok \<lparr>listed_agent_id = ae_agent_id a, listed_run_id = ae_run_id a, listed_runner_type = RunnerType (ae_runner_type a),
            listed_running = ae_running a, listed_has_inbox = ae_has_inbox a, listed_mail_address = ae_mail_address a,
            listed_restartable_now = ae_restartable_now a\<rparr>
      else Err (Unreadable ''the agent list holds a runner type the wire refuses''))"

definition agents_of :: "SurfaceLib \<Rightarrow> string \<Rightarrow> (ListedAgent list, Error) result" where
  "agents_of lib reply =
     (case sf_agents lib reply of
        Inl fault \<Rightarrow> Err (unreadable_json ''the agent list reply'' fault)
      | Inr r \<Rightarrow>
          if \<not> sr_accepted r then
            Err (error_refused AgentList (surface_word (sr_reason r)) (case sr_message r of Some m \<Rightarrow> m | None \<Rightarrow> ''''))
          else case ar_agents r of
            None \<Rightarrow> Err (Unreadable ''the agent list reply holds no agents'')
          | Some entries \<Rightarrow> collect_results (map (listed_agent lib) entries))"

definition list_request :: "SurfaceLib \<Rightarrow> string \<Rightarrow> uuid \<Rightarrow> duration \<Rightarrow> BusIn \<Rightarrow> (ListedAgent list, Error) result \<times> (string \<times> string) list" where
  "list_request lib key run wait i =
     (case surface_request lib SubListAgents (ReqListAgents run key) wait AgentList i of
        (r, handed) \<Rightarrow> (and_then r (agents_of lib), handed))"

section \<open>The claim of a client\<close>

definition duration_saturating_add :: "duration \<Rightarrow> duration \<Rightarrow> duration" where
  "duration_saturating_add a b = min (a + b) duration_max"

definition claim_request :: "SurfaceLib \<Rightarrow> string \<Rightarrow> duration \<Rightarrow> uuid \<Rightarrow> duration \<Rightarrow> BusIn \<Rightarrow> (string, Error) result \<times> (string \<times> string) list" where
  "claim_request lib key reply_wait claim_id wait i =
     surface_request lib SubClaim (ReqClaim key claim_id (millis wait)) (duration_saturating_add wait reply_wait) Claim i"

text \<open>The Run of a reply, and the reply without it.\<close>

definition reply_run :: "json \<Rightarrow> json option" where
  "reply_run v = (case json_get v ''run'' of Some JNull \<Rightarrow> None | r \<Rightarrow> r)"

definition reply_shell :: "json \<Rightarrow> json" where
  "reply_shell v =
     (case v of JObject ms \<Rightarrow> if reply_run v = None then v else JObject (filter (\<lambda>(k, _). k \<noteq> ''run'') ms) | _ \<Rightarrow> v)"

definition claim_refusal :: "ClaimWord \<Rightarrow> u64 option \<Rightarrow> Refusal" where
  "claim_refusal why retry =
     (let refusal = refusal_new Claim (from_word (case why of ClaimKnown w \<Rightarrow> w | ClaimUnknown w \<Rightarrow> w)) '''' in
      if reason_eq (reason refusal) Busy then refusal\<lparr>retry_after_ms := retry\<rparr> else refusal)"

definition claim_reply_of :: "SurfaceLib \<Rightarrow> 'p TriggerSerde \<Rightarrow> string \<Rightarrow> ('p Parsed option, Error) result" where
  "claim_reply_of lib serde raw =
     (case sf_json lib raw of
        Inl fault \<Rightarrow> Err (unreadable_json ''the claim reply'' fault)
      | Inr v \<Rightarrow>
          (case v of
             JObject _ \<Rightarrow>
               (case sf_claim lib (reply_shell v) of
                  Inl fault \<Rightarrow> Err (unreadable_json ''the claim reply'' fault)
                | Inr r \<Rightarrow>
                    (case cl_reason r of
                       Some why \<Rightarrow> Err (Refused (claim_refusal why (cl_retry_after_ms r)))
                     | None \<Rightarrow>
                         (case reply_run v of
                            None \<Rightarrow> Ok None
                          | Some run \<Rightarrow> map_sum unreadable_error Some (parse_trigger serde run))))
           | _ \<Rightarrow> Err (Unreadable ''the claim reply is not an object'')))"

definition client_claim ::
    "SurfaceLib \<Rightarrow> 'p TriggerSerde \<Rightarrow> string \<Rightarrow> duration \<Rightarrow> uuid \<Rightarrow> duration \<Rightarrow> BusIn \<Rightarrow>
     ('p Parsed option, Error) result \<times> (string \<times> string) list" where
  "client_claim lib serde key reply_wait claim_id wait i =
     (if wait = 0 then (Err (InvalidInput ''the claim wait is zero''), [])
      else if claim_id = 0 then (Err (InvalidInput ''the claim id is nil''), [])
      else case claim_request lib key reply_wait claim_id wait i of
        (r, handed) \<Rightarrow> (and_then r (claim_reply_of lib serde), handed))"

section \<open>The presence entry\<close>

record PresenceWire =
  pw_runner_type :: string
  pw_instance_key :: string
  pw_runner_version :: string
  pw_status :: PresenceStatus
  pw_capacity :: u32

text \<open>
  The contract's \<open>Capacity::try_from\<close> and serde are parameters. An answer of the bucket is \<open>None\<close> when the
  wait fired first. What was put is given beside the result.
\<close>

definition put_presence ::
    "(u32 \<Rightarrow> (u32, string) result) \<Rightarrow> (PresenceWire \<Rightarrow> ('b, string) result) \<Rightarrow> LiveParts \<Rightarrow> string \<Rightarrow> PresenceStatus \<Rightarrow> u32 \<Rightarrow>
     (unit, ErrorChain) result option \<Rightarrow> (unit, Error) result \<times> 'b list" where
  "put_presence wire_capacity bytes lv version st cap answer =
     (case and_then (map_sum InvalidInput id (wire_capacity cap)) (\<lambda>c.
             wire_bytes (bytes \<lparr>pw_runner_type = runner_type_text (lv_runner_type lv), pw_instance_key = lv_instance_key lv,
                                pw_runner_version = version, pw_status = st, pw_capacity = c\<rparr>)) of
        Inl e \<Rightarrow> (Err e, [])
      | Inr b \<Rightarrow>
          (case answer of
             None \<Rightarrow> Err (error_wait_fired ''the presence bucket did not accept the presence'')
           | Some r \<Rightarrow> map_sum (fail_sent ''the presence bucket'') id r, [b]))"

definition delete_presence :: "(unit, ErrorChain) result option \<Rightarrow> (unit, Error) result" where
  "delete_presence answer =
     (case answer of
        None \<Rightarrow> Err (error_wait_fired ''the presence bucket did not accept the delete'')
      | Some r \<Rightarrow> map_sum (fail_sent ''the presence bucket'') id r)"

definition time_to_live :: "(duration, ErrorChain) result option \<Rightarrow> (duration, Error) result" where
  "time_to_live answer =
     (case answer of
        None \<Rightarrow> Err (Unavailable (failure_wait ''the presence bucket did not answer''))
      | Some r \<Rightarrow> and_then (map_sum (fail_unsent ''the presence bucket'') id r) (\<lambda>ttl.
          if ttl = 0 then Err (InfraMissing ''the presence bucket has no time to live'') else Ok ttl))"

section \<open>The checks of a new connection\<close>

definition within :: "string \<Rightarrow> ('a, Error) result option \<Rightarrow> ('a, Error) result" where
  "within what answer =
     (case answer of
        None \<Rightarrow> Err (Unavailable (failure_wait (''the check of '' @ what @ '' did not answer'')))
      | Some r \<Rightarrow> r)"

text \<open>
  The names of streams and buckets are constants of the contract and fabric crates. An answer is \<open>None\<close> when
  the wait fired.
\<close>

record InfraNames =
  in_trigger_stream :: string
  in_status_stream :: string
  in_log_stream :: string
  in_presence_bucket :: string
  in_cancel_bucket :: string
  in_language_bucket :: string
  in_events :: string
  in_commands :: string

record ConnectIn =
  ci_segment :: "(unit, Error) result"
  ci_reachable :: bool
  ci_stream :: "string \<Rightarrow> (unit, ErrorChain) result option"
  ci_bucket :: "string \<Rightarrow> (duration, ErrorChain) result option"
  ci_language :: "(unit, FabricError) result option"
  ci_arrived_coords :: "(unit, string) result"
  ci_events :: "(unit, FabricError) result option"
  ci_create_coords :: "(unit, string) result"
  ci_commands :: "(unit, FabricError) result option"

fun check_streams :: "(string \<Rightarrow> (unit, ErrorChain) result option) \<Rightarrow> string list \<Rightarrow> (unit, Error) result" where
  "check_streams answers [] = Ok ()"
| "check_streams answers (s # ss) =
     (let object = ''the stream '' @ s in
      and_then (within object (map_option (map_sum (fail_unsent object) id) (answers s))) (\<lambda>_. check_streams answers ss))"

definition check_bucket :: "string \<Rightarrow> (duration, ErrorChain) result option \<Rightarrow> (duration, Error) result" where
  "check_bucket name answer =
     (let object = ''the bucket '' @ name in within object (map_option (map_sum (fail_unsent object) id) answer))"

definition check_fabric :: "InfraNames \<Rightarrow> ConnectIn \<Rightarrow> (unit, Error) result" where
  "check_fabric names i =
     (let language = ''the bucket '' @ in_language_bucket names; events = ''the stream '' @ in_events names;
          cmds = ''the stream '' @ in_commands names in
      and_then (within language (map_option (map_sum (\<lambda>_. fail_missing language) id) (ci_language i))) (\<lambda>_.
      and_then (map_sum InvalidInput id (ci_arrived_coords i)) (\<lambda>_.
      and_then (within events (map_option (map_sum (fail_fabric_unsent events) id) (ci_events i))) (\<lambda>_.
      and_then (map_sum InvalidInput id (ci_create_coords i)) (\<lambda>_.
      within cmds (map_option (map_sum (fail_fabric_unsent cmds) id) (ci_commands i)))))))"

definition live_connect :: "InfraNames \<Rightarrow> duration \<Rightarrow> ConnectIn \<Rightarrow> (unit, Error) result" where
  "live_connect names reply_wait i =
     and_then (ci_segment i) (\<lambda>_.
     if reply_wait = 0 then Err (InvalidInput ''the reply wait is zero'')
     else if \<not> ci_reachable i then Err (error_unavailable ''the bus connection is not connected'')
     else and_then (check_streams (ci_stream i) [in_trigger_stream names, in_status_stream names, in_log_stream names]) (\<lambda>_.
       and_then (check_bucket (in_presence_bucket names) (ci_bucket i (in_presence_bucket names))) (\<lambda>max_age.
       and_then (check_bucket (in_cancel_bucket names) (ci_bucket i (in_cancel_bucket names))) (\<lambda>_.
       if max_age = 0 then Err (InfraMissing (''the bucket '' @ in_presence_bucket names @ '' has no time to live''))
       else check_fabric names i))))"

text \<open>A check that fails for a reason that can pass is unavailable and never lost: nothing was changed.\<close>

lemma fabric_unsent_not_lost: "fail_fabric_unsent object e \<noteq> Lost f"
  by (cases e) (simp_all add: fail_fabric_unsent_def fail_missing_def error_lost_def error_wait_fired_def)

definition never_lost :: "('a, Error) result \<Rightarrow> bool" where
  "never_lost r \<longleftrightarrow> (\<forall>f. r \<noteq> Err (Lost f))"

lemma never_lost_then: "never_lost r \<Longrightarrow> (\<And>x. never_lost (g x)) \<Longrightarrow> never_lost (and_then r g)"
  by (cases r) (simp_all add: never_lost_def)

lemma never_lost_map: "(\<And>e f. g e \<noteq> Lost f) \<Longrightarrow> never_lost (map_sum g id r)"
  by (cases r) (simp_all add: never_lost_def)

lemma never_lost_asked: "(\<And>e f. g e \<noteq> Lost f) \<Longrightarrow> never_lost (within what (map_option (map_sum g id) answer))"
  by (cases answer) (simp_all add: within_def never_lost_map, simp add: never_lost_def)

lemma unsent_not_lost: "fail_unsent object e \<noteq> Lost f"
  using fail_unsent_cases [of object e] by (auto simp: fail_missing_def)

text \<open>Every check of \<open>connect\<close> fails without a change that could be lost.\<close>

lemma connect_never_lost:
  assumes "never_lost (ci_segment i)"
  shows "never_lost (live_connect names reply_wait i)"
proof -
  have "never_lost (check_streams answers ss)" for answers ss
    by (induction ss) (auto simp: Let_def unsent_not_lost never_lost_def [of "Ok ()"] intro!: never_lost_then never_lost_asked)
  moreover have "never_lost (check_bucket name answer)" for name answer
    unfolding check_bucket_def Let_def by (rule never_lost_asked) (simp add: unsent_not_lost)
  moreover have "never_lost (check_fabric names i)"
    unfolding check_fabric_def Let_def
    by (intro never_lost_then never_lost_asked never_lost_map) (simp_all add: fail_missing_def fabric_unsent_not_lost)
  moreover have "never_lost (Err (InvalidInput t))" "never_lost (Err (InfraMissing t))" "never_lost (Err (error_unavailable t))" for t
    by (simp_all add: never_lost_def error_unavailable_def)
  ultimately show ?thesis
    unfolding live_connect_def using assms by (auto intro!: never_lost_then simp del: check_streams.simps)
qed

section \<open>When the id of a claim is given up\<close>

lemma tokens_check_invalid: "tokens_check ts = Err x \<Longrightarrow> \<exists>t. x = ConnInvalidInput t"
  by (induction ts) (auto simp: subject_refuse_def split: if_splits)

lemma bus_request_handed: "bus_request subject body wait i = (r, handed) \<Longrightarrow> handed = [] \<or> handed = [(subject, body)]"
  by (auto simp: bus_request_def split: if_splits sum.splits)

lemma bus_request_cases:
  assumes "bus_request subject body wait i = (r, handed)"
  obtains payload where "r = Ok payload" "handed = [(subject, body)]" "bi_answer i = BusReply payload"
  | t where "r = Err (ConnInvalidInput t)" "handed = [] \<or> handed = [(subject, body)] \<and> bi_answer i = BusInvalidSubject t"
  | f where "r = Err (ConnUnavailable f)"
  | f where "r = Err (ConnLost f)" "handed = [(subject, body)]"
proof (cases "subject_check subject")
  case (Inl x)
  then obtain t where "x = ConnInvalidInput t"
    using tokens_check_invalid by (auto simp: subject_check_def subject_refuse_def split: if_splits)
  with Inl show ?thesis using assms that(2) by (auto simp: bus_request_def split: if_splits)
next
  case (Inr u)
  with assms show ?thesis using that by (auto simp: bus_request_def split: if_splits BusAnswer.splits)
qed

text \<open>The claim loop of a slot keeps the id of a claim, or gives it up, by the reply that it got.\<close>

lemma claim_reply_gives_up:
  "fst (claim_reply c epoch reply s) = None \<Longrightarrow>
     (\<exists>w. reply = Ok w) \<or> (\<exists>t. reply = Err (InvalidInput t)) \<or>
     (\<exists>r. reply = Err (Refused r) \<and> reason r \<noteq> Busy \<and> reason r \<noteq> InstanceUnknown)"
  by (auto simp: claim_reply_def split: sum.splits option.splits Error.splits RefusalReason.splits)


definition demo_surface :: SurfaceLib where
  "demo_surface = \<lparr>sf_subject = (\<lambda>_. ''jobs''), sf_bytes = (\<lambda>_. Ok ''b''), sf_reply = (\<lambda>_. Ok \<lparr>sr_accepted = True, sr_reason = None, sr_message = None\<rparr>),
     sf_agents = (\<lambda>_. Err \<lparr>jf_category = CatEof, jf_line = 1, jf_column = 0\<rparr>), sf_json = (\<lambda>_. Ok (JObject [])),
     sf_claim = (\<lambda>_. Ok \<lparr>cl_reason = Some (ClaimKnown ''claim_spent''), cl_retry_after_ms = None\<rparr>), sf_segment = (\<lambda>_. True)\<rparr>"

definition demo_serde :: "unit TriggerSerde" where
  "demo_serde = \<lparr>ts_uuid = (\<lambda>_. None), ts_wire = (\<lambda>_. Err BookDropped), ts_passport = (\<lambda>_. None)\<rparr>"

definition demo_bus :: BusIn where
  "demo_bus = \<lparr>bi_connected = True, bi_max_payload = 8, bi_connects = 1, bi_answer = BusReply ''r''\<rparr>"


end
