(* ===== verification/Transport_Feeds.thy ===== *)
theory Transport_Feeds
  imports Transport_Surface Arrival_Feed
begin

text \<open>
  The feeds that the runner transport opens: the triggers (\<open>runner_transport/triggers.rs\<close> and the
  \<open>TriggerFeed\<close> of \<open>client.rs\<close>), the doorbell of a Run's arrivals (\<open>arrivals.rs\<close>) and the dispatch mode
  (\<open>mode.rs\<close>, \<open>mode_sink.rs\<close>). What the consumers and watches of the bus give is a list that the state of
  the feed reads from; a feed that has read all of it waits, and its next result is \<open>None\<close>.
\<close>

section \<open>The contract of a feed that ends\<close>

text \<open>The first \<open>k\<close> results of a feed, fewer when it waits.\<close>

fun reads :: "('s \<Rightarrow> 'r option \<times> 's) \<Rightarrow> nat \<Rightarrow> 's \<Rightarrow> 'r list" where
  "reads nxt 0 s = []"
| "reads nxt (Suc k) s = (case nxt s of (None, _) \<Rightarrow> [] | (Some r, s') \<Rightarrow> r # reads nxt k s')"

text \<open>
  What a feed promises: it gives its results in order and then, when it ended, its last error for ever.
\<close>

locale ending_feed =
  fixes nxt :: "'s \<Rightarrow> 'r option \<times> 's"
    and gives :: "'s \<Rightarrow> 'r list"
    and ending :: "'s \<Rightarrow> 'r option"
  assumes next_gives: "gives s = r # rs \<Longrightarrow> \<exists>s'. nxt s = (Some r, s') \<and> gives s' = rs \<and> ending s' = ending s"
    and next_ended: "gives s = [] \<Longrightarrow> ending s = Some r \<Longrightarrow> \<exists>s'. nxt s = (Some r, s') \<and> gives s' = [] \<and> ending s' = Some r"
    and next_waits: "gives s = [] \<Longrightarrow> ending s = None \<Longrightarrow> fst (nxt s) = None"
begin

lemma reads_ended: "gives s = [] \<Longrightarrow> ending s = Some r \<Longrightarrow> reads nxt k s = replicate k r"
proof (induction k arbitrary: s)
  case (Suc k)
  from next_ended [OF Suc.prems] obtain s' where "nxt s = (Some r, s')" "gives s' = []" "ending s' = Some r" by blast
  with Suc.IH show ?case by simp
qed simp

lemma reads_waits: "gives s = [] \<Longrightarrow> ending s = None \<Longrightarrow> reads nxt k s = []"
  using next_waits [of s] by (cases k; cases "nxt s") auto

lemma reads_given: "reads nxt k s = take k (gives s @ (case ending s of Some r \<Rightarrow> replicate k r | None \<Rightarrow> []))"
proof (induction k arbitrary: s)
  case (Suc k)
  show ?case
  proof (cases "gives s")
    case Nil
    then show ?thesis by (cases "ending s") (simp_all add: reads_ended reads_waits del: reads.simps)
  next
    case (Cons r rs)
    from next_gives [OF this] obtain s' where s': "nxt s = (Some r, s')" "gives s' = rs" "ending s' = ending s" by blast
    have t: "take k (rs @ replicate (Suc k) x) = take k (rs @ replicate k x)" for x :: 'r
      by (simp add: take_replicate min_def del: replicate_Suc)
    show ?thesis using Suc.IH [of s'] s' Cons by (cases "ending s") (simp_all add: t del: replicate.simps)
  qed
qed simp

lemma sticky: "reads nxt k s = xs @ ys \<Longrightarrow> length (gives s) \<le> length xs \<Longrightarrow> set ys \<subseteq> set_option (ending s)"
proof -
  let ?z = "case ending s of Some r \<Rightarrow> replicate k r | None \<Rightarrow> []"
  assume r: "reads nxt k s = xs @ ys" and l: "length (gives s) \<le> length xs"
  have "ys = drop (length xs) (xs @ ys)" by simp
  also have "\<dots> = drop (length xs) (take k (gives s @ ?z))" using r by (simp only: reads_given)
  also have "\<dots> = take (k - length xs) (drop (length xs - length (gives s)) ?z)" using l by (simp add: drop_take del: take_append)
  finally have "set ys \<subseteq> set ?z" using set_take_subset set_drop_subset by (metis order_trans)
  then show ?thesis by (cases "ending s") auto
qed

end

section \<open>Triggers\<close>

text \<open>What the pull consumer gives, and whether its stream is there when it fails.\<close>

datatype MessagesKind = MkMissingHeartbeat | MkOther

datatype TriggerPull =
    TriggerMessage string nat
  | TriggerFailed MessagesKind string bool
  | TriggerEnded

definition trigger_failure :: "string \<Rightarrow> MessagesKind \<Rightarrow> string \<Rightarrow> bool \<Rightarrow> Error" where
  "trigger_failure stream kind shown there =
     (if \<not> there then InfraMissing (''the stream '' @ stream @ '' is missing'')
      else case kind of
        MkMissingHeartbeat \<Rightarrow> error_lost (''the trigger consumer missed its heartbeat: '' @ shown)
      | MkOther \<Rightarrow> error_lost (''the trigger consumer failed: '' @ shown))"

text \<open>A message has its bytes and the number of its delivery.\<close>

definition trigger_source_next :: "string \<Rightarrow> TriggerPull \<Rightarrow> (string \<times> nat, Error) result" where
  "trigger_source_next stream p =
     (case p of
        TriggerMessage raw d \<Rightarrow> Ok (raw, d)
      | TriggerFailed kind shown there \<Rightarrow> Err (trigger_failure stream kind shown there)
      | TriggerEnded \<Rightarrow> Err (error_lost ''the trigger consumer ended''))"

text \<open>\<open>settle\<close>: an acknowledgement, a giving back or a termination, confirmed by the server or not.\<close>

datatype SettleKind = AckDone | AckGiveBack | AckTerminate

definition trigger_settle :: "SettleKind \<Rightarrow> (unit, ErrorChain) result \<Rightarrow> (unit, Error) result" where
  "trigger_settle kind answer = map_sum (fail_sent ''the trigger stream'') id answer"

text \<open>
  The feed of the client: a work keeps its delivery, a trigger that cannot be read is terminated. The list
  of what was settled is kept for the statements.
\<close>

record TriggerFeed =
  tf_source :: "TriggerPull list"
  tf_ended :: "Error option"
  tf_settled :: "(nat \<times> SettleKind) list"

definition lone_error :: "Error \<Rightarrow> UnreadableTrigger" where
  "lone_error e = \<lparr>unreadable_error = e, unreadable_job_id = None, unreadable_run_id = None\<rparr>"

definition read_trigger :: "SurfaceLib \<Rightarrow> 'p TriggerSerde \<Rightarrow> string \<Rightarrow> ('p Parsed, UnreadableTrigger) result" where
  "read_trigger lib serde raw =
     (case sf_json lib raw of
        Inl fault \<Rightarrow> Err (lone_error (unreadable_json ''the trigger is not JSON'' fault))
      | Inr v \<Rightarrow> parse_trigger serde v)"

definition trigger_feed_read ::
    "SurfaceLib \<Rightarrow> 'p TriggerSerde \<Rightarrow> string \<Rightarrow> TriggerFeed \<Rightarrow>
     ('p Parsed \<times> nat, UnreadableTrigger) result option \<times> TriggerFeed" where
  "trigger_feed_read lib serde stream f =
     (case tf_ended f of
        Some e \<Rightarrow> (Some (Err (lone_error e)), f)
      | None \<Rightarrow>
          (case tf_source f of
             [] \<Rightarrow> (None, f)
           | p # ps \<Rightarrow>
               (let f1 = f\<lparr>tf_source := ps\<rparr> in
                case trigger_source_next stream p of
                  Inl e \<Rightarrow> (Some (Err (lone_error e)), f1\<lparr>tf_ended := Some e\<rparr>)
                | Inr (raw, d) \<Rightarrow>
                    (case read_trigger lib serde raw of
                       Inl u \<Rightarrow> (Some (Err u), f1\<lparr>tf_settled := tf_settled f1 @ [(d, AckTerminate)]\<rparr>)
                     | Inr w \<Rightarrow> (Some (Ok (w, d)), f1)))))"

text \<open>What a list of pulls gives, and the failure that ends it.\<close>

fun triggers_given ::
    "SurfaceLib \<Rightarrow> 'p TriggerSerde \<Rightarrow> TriggerPull list \<Rightarrow> ('p Parsed \<times> nat, UnreadableTrigger) result list" where
  "triggers_given lib serde (TriggerMessage raw d # ps) =
     map_sum id (\<lambda>w. (w, d)) (read_trigger lib serde raw) # triggers_given lib serde ps"
| "triggers_given lib serde _ = []"

fun triggers_end :: "string \<Rightarrow> TriggerPull list \<Rightarrow> Error option" where
  "triggers_end stream [] = None"
| "triggers_end stream (TriggerMessage _ _ # ps) = triggers_end stream ps"
| "triggers_end stream (TriggerFailed kind shown there # ps) = Some (trigger_failure stream kind shown there)"
| "triggers_end stream (TriggerEnded # ps) = Some (error_lost ''the trigger consumer ended'')"

text \<open>The failure that ends a feed is given first as its failure and then again, so both count as its end.\<close>

definition feed_gives :: "SurfaceLib \<Rightarrow> 'p TriggerSerde \<Rightarrow> TriggerFeed \<Rightarrow> ('p Parsed \<times> nat, UnreadableTrigger) result list" where
  "feed_gives lib serde f = (if tf_ended f = None then triggers_given lib serde (tf_source f) else [])"

definition feed_ending :: "string \<Rightarrow> TriggerFeed \<Rightarrow> ('w, UnreadableTrigger) result option" where
  "feed_ending stream f =
     map_option (\<lambda>e. Err (lone_error e)) (case tf_ended f of Some e \<Rightarrow> Some e | None \<Rightarrow> triggers_end stream (tf_source f))"

interpretation trigger_feed: ending_feed "trigger_feed_read lib (serde :: 'a TriggerSerde) stream" "feed_gives lib serde" "feed_ending stream"
proof
  fix s :: TriggerFeed and r :: "('a Parsed \<times> nat, UnreadableTrigger) result" and rs
  assume "feed_gives lib serde s = r # rs"
  then obtain raw d ps where s: "tf_ended s = None" "tf_source s = TriggerMessage raw d # ps"
      "r = map_sum id (\<lambda>w. (w, d)) (read_trigger lib serde raw)" "rs = triggers_given lib serde ps"
    by (auto simp: feed_gives_def split: if_splits elim: triggers_given.elims)
  then show "\<exists>s'. trigger_feed_read lib serde stream s = (Some r, s') \<and> feed_gives lib serde s' = rs \<and>
      feed_ending stream s' = (feed_ending stream s :: ('a Parsed \<times> nat, UnreadableTrigger) result option)"
    by (cases "read_trigger lib serde raw") (auto simp: trigger_feed_read_def trigger_source_next_def feed_gives_def feed_ending_def)
next
  fix s :: TriggerFeed and r :: "('a Parsed \<times> nat, UnreadableTrigger) result"
  assume g: "feed_gives lib serde s = []" and e: "feed_ending stream s = Some r"
  show "\<exists>s'. trigger_feed_read lib serde stream s = (Some r, s') \<and> feed_gives lib serde s' = [] \<and> feed_ending stream s' = Some r"
  proof (cases "tf_ended s")
    case None
    with g e obtain p ps where "tf_source s = p # ps" "\<forall>raw d. p \<noteq> TriggerMessage raw d"
      by (auto simp: feed_gives_def feed_ending_def elim: triggers_end.elims)
    with None e show ?thesis
      by (cases p) (auto simp: trigger_feed_read_def trigger_source_next_def feed_gives_def feed_ending_def)
  qed (use e in \<open>auto simp: trigger_feed_read_def feed_gives_def feed_ending_def\<close>)
next
  fix s :: TriggerFeed
  assume "feed_gives lib serde s = []" and "feed_ending stream s = (None :: ('a Parsed \<times> nat, UnreadableTrigger) result option)"
  then have "tf_ended s = None" "tf_source s = []"
    by (auto simp: feed_gives_def feed_ending_def split: option.splits elim: triggers_end.elims)
  then show "fst (trigger_feed_read lib serde stream s) = None" by (simp add: trigger_feed_read_def)
qed
text \<open>
  What the feed settled: every trigger that was read and could not become a work was terminated, once, and no
  trigger of a work was settled by the feed, which leaves it to the slot that takes the work.
\<close>

definition unreadable_of :: "SurfaceLib \<Rightarrow> 'p TriggerSerde \<Rightarrow> TriggerPull \<Rightarrow> nat option" where
  "unreadable_of lib serde p =
     (case p of TriggerMessage raw d \<Rightarrow> (case read_trigger lib serde raw of Inl _ \<Rightarrow> Some d | Inr _ \<Rightarrow> None) | _ \<Rightarrow> None)"

definition work_of :: "SurfaceLib \<Rightarrow> 'p TriggerSerde \<Rightarrow> TriggerPull \<Rightarrow> nat option" where
  "work_of lib serde p =
     (case p of TriggerMessage raw d \<Rightarrow> (case read_trigger lib serde raw of Inl _ \<Rightarrow> None | Inr _ \<Rightarrow> Some d) | _ \<Rightarrow> None)"

fun trigger_reads ::
    "SurfaceLib \<Rightarrow> 'p TriggerSerde \<Rightarrow> string \<Rightarrow> nat \<Rightarrow> TriggerFeed \<Rightarrow> ('p Parsed \<times> nat, UnreadableTrigger) result list \<times> TriggerFeed" where
  "trigger_reads lib serde stream 0 f = ([], f)"
| "trigger_reads lib serde stream (Suc k) f =
     (case trigger_feed_read lib serde stream f of
        (None, f1) \<Rightarrow> ([], f1)
      | (Some r, f1) \<Rightarrow> (let (rs, f2) = trigger_reads lib serde stream k f1 in (r # rs, f2)))"

definition works :: "('p Parsed \<times> nat, UnreadableTrigger) result list \<Rightarrow> nat list" where
  "works rs = List.map_filter (\<lambda>r. case r of Inr (_, d) \<Rightarrow> Some d | Inl _ \<Rightarrow> None) rs"

lemma map_filter_append: "List.map_filter g (xs @ ys) = List.map_filter g xs @ List.map_filter g ys"
  by (simp add: List.map_filter_def)

lemma works_Cons: "works (r # rs) = works [r] @ works rs"
  by (simp add: works_def List.map_filter_def)

lemma trigger_read_settles:
  assumes "trigger_feed_read lib serde stream f = (Some r, f1)"
  shows "\<exists>ps. tf_source f = ps @ tf_source f1 \<and> works [r] = List.map_filter (work_of lib serde) ps \<and>
    tf_settled f1 = tf_settled f @ map (\<lambda>d. (d, AckTerminate)) (List.map_filter (unreadable_of lib serde) ps)"
proof (cases "tf_ended f")
  case (Some e)
  with assms show ?thesis by (intro exI [of _ "[]"]) (auto simp: trigger_feed_read_def works_def List.map_filter_def)
next
  case None
  with assms obtain p ps where s: "tf_source f = p # ps" by (cases "tf_source f") (auto simp: trigger_feed_read_def)
  show ?thesis
  proof (cases p)
    case (TriggerMessage raw d)
    with None s assms show ?thesis
      by (intro exI [of _ "[p]"], cases "read_trigger lib serde raw")
        (auto simp: trigger_feed_read_def trigger_source_next_def works_def List.map_filter_def work_of_def unreadable_of_def)
  qed (use None s assms in \<open>auto simp: trigger_feed_read_def trigger_source_next_def works_def List.map_filter_def work_of_def
      unreadable_of_def intro!: exI [of _ "[p]"]\<close>)
qed

lemma trigger_reads_settle:
  assumes "trigger_reads lib serde stream k f = (rs, f')"
  shows "\<exists>taken. tf_source f = taken @ tf_source f' \<and> works rs = List.map_filter (work_of lib serde) taken \<and>
    tf_settled f' = tf_settled f @ map (\<lambda>d. (d, AckTerminate)) (List.map_filter (unreadable_of lib serde) taken)"
  using assms
proof (induction k arbitrary: f rs)
  case 0
  then show ?case by (intro exI [of _ "[]"]) (simp add: works_def List.map_filter_def)
next
  case (Suc k)
  show ?case
  proof (cases "trigger_feed_read lib serde stream f")
    case (Pair o1 f1)
    show ?thesis
    proof (cases o1)
      case None
      with Pair Suc.prems show ?thesis
        by (intro exI [of _ "[]"])
          (auto simp: works_def List.map_filter_def trigger_feed_read_def Let_def split: option.splits list.splits sum.splits)
    next
      case (Some r)
      with Pair Suc.prems obtain qs where q: "trigger_reads lib serde stream k f1 = (qs, f')" "rs = r # qs"
        by (auto split: prod.splits)
      from Suc.IH [OF q(1)] obtain taken where t: "tf_source f1 = taken @ tf_source f'" "works qs = List.map_filter (work_of lib serde) taken"
          "tf_settled f' = tf_settled f1 @ map (\<lambda>d. (d, AckTerminate)) (List.map_filter (unreadable_of lib serde) taken)" by blast
      have "\<exists>ps. tf_source f = ps @ tf_source f1 \<and> works [r] = List.map_filter (work_of lib serde) ps \<and>
          tf_settled f1 = tf_settled f @ map (\<lambda>d. (d, AckTerminate)) (List.map_filter (unreadable_of lib serde) ps)"
        using trigger_read_settles Pair Some by blast
      then obtain ps where "tf_source f = ps @ tf_source f1" "works [r] = List.map_filter (work_of lib serde) ps"
          "tf_settled f1 = tf_settled f @ map (\<lambda>d. (d, AckTerminate)) (List.map_filter (unreadable_of lib serde) ps)" by blast
      then show ?thesis using t q(2)
        by (intro exI [of _ "ps @ taken"]) (simp add: map_filter_append works_Cons [of r qs])
    qed
  qed
qed

lemma trigger_reads_fst: "fst (trigger_reads lib serde stream k f) = reads (trigger_feed_read lib serde stream) k f"
proof (induction k arbitrary: f)
  case (Suc k)
  obtain r f1 where "trigger_feed_read lib serde stream f = (r, f1)" by fastforce
  with Suc.IH [of f1] show ?case by (cases r; cases "trigger_reads lib serde stream k f1") auto
qed simp

definition trigger_feed_new :: "TriggerPull list \<Rightarrow> TriggerFeed" where
  "trigger_feed_new source = \<lparr>tf_source = source, tf_ended = None, tf_settled = []\<rparr>"

text \<open>\<open>JobsClient::triggers\<close>, with the answers to the look at the stream, the making of the consumer and its opening.\<close>

definition open_triggers ::
    "string \<Rightarrow> duration \<Rightarrow> (unit, ErrorChain) result \<Rightarrow> (unit, ErrorChain) result \<Rightarrow> (unit, ErrorChain) result \<Rightarrow> TriggerPull list \<Rightarrow>
     (TriggerFeed, Error) result" where
  "open_triggers stream wait there consumer opened source =
     (if wait = 0 then Err (InvalidInput ''the acknowledgement wait is zero'')
      else and_then (map_sum (fail_unsent (''the stream '' @ stream)) id there) (\<lambda>_.
        and_then (map_sum (fail_unsent ''the trigger consumer'') id consumer) (\<lambda>_.
        and_then (map_sum (fail_unsent ''the trigger consumer'') id opened) (\<lambda>_.
          Ok (trigger_feed_new source)))))"

text \<open>
  C21: every trigger comes to exactly one end in the feed. The results are, in the order of the messages, the
  works with their deliveries and the errors of the triggers that cannot be read, and after the failure of
  the consumer that failure for ever. Every message that was read is either the work of exactly one result,
  whose delivery the feed does not settle, or it was terminated exactly once; and nothing else is settled.
\<close>
theorem triggers_one_end:
  assumes "open_triggers stream wait there consumer opened source = Ok f"
    and "trigger_reads lib serde stream k f = (rs, f')"
  shows "rs = take k (triggers_given lib serde source @
      (case triggers_end stream source of Some e \<Rightarrow> replicate k (Err (lone_error e)) | None \<Rightarrow> [])) \<and>
    (\<exists>taken. source = taken @ tf_source f' \<and> works rs = List.map_filter (work_of lib serde) taken \<and>
      tf_settled f' = map (\<lambda>d. (d, AckTerminate)) (List.map_filter (unreadable_of lib serde) taken))"
proof -
  from assms(1) have f: "f = trigger_feed_new source"
    by (auto simp: open_triggers_def and_then_ok split: if_splits)
  have "rs = reads (trigger_feed_read lib serde stream) k f" using assms(2) trigger_reads_fst [of lib serde stream k f] by simp
  also have "\<dots> = take k (triggers_given lib serde source @
      (case triggers_end stream source of Some e \<Rightarrow> replicate k (Err (lone_error e)) | None \<Rightarrow> []))"
    by (simp add: trigger_feed.reads_given f trigger_feed_new_def feed_gives_def feed_ending_def split: option.split)
  finally show ?thesis using trigger_reads_settle [OF assms(2)] by (simp add: f trigger_feed_new_def)
qed

theorem triggers_one_end_witness:
  "\<exists>f rs f'. open_triggers ''T'' 5 (Ok ()) (Ok ()) (Ok ()) [TriggerMessage ''{}'' 4, TriggerEnded] = Ok f \<and>
     trigger_reads demo_surface demo_serde ''T'' 3 f = (rs, f') \<and> works rs = [] \<and> tf_settled f' = [(4, AckTerminate)]"
proof -
  let ?src = "[TriggerMessage ''{}'' 4, TriggerEnded]"
  let ?f = "trigger_feed_new ?src"
  have o: "open_triggers ''T'' 5 (Ok ()) (Ok ()) (Ok ()) ?src = Ok ?f" by (simp add: open_triggers_def)
  obtain rs f' where r: "trigger_reads demo_surface demo_serde ''T'' 3 ?f = (rs, f')" by fastforce
  obtain u where u: "read_trigger demo_surface demo_serde ''{}'' = Err u"
    by (simp add: read_trigger_def demo_surface_def demo_serde_def parse_trigger_def Let_def)
  have "tf_source f' = []"
    using r u by (auto simp: numeral_3_eq_3 trigger_feed_read_def trigger_feed_new_def trigger_source_next_def Let_def)
  then show ?thesis
    using triggers_one_end [OF o r] o r u
    by (intro exI [of _ ?f] exI [of _ rs] exI [of _ f']) (auto simp: work_of_def unreadable_of_def List.map_filter_def)
qed

section \<open>The doorbell of a Run\<close>

datatype WireItemKind = WkMail | WkCcNotice | WkNotice | WkMailNotice

fun kind_of :: "WireItemKind \<Rightarrow> ItemKind" where
  "kind_of WkMail = DirectMailItem"
| "kind_of WkCcNotice = CcNoticeItem"
| "kind_of WkNotice = CallNoticeItem"
| "kind_of WkMailNotice = MailNoticeItem"

record ArrivalWire =
  av_run_id :: uuid
  av_address :: "uuid option"
  av_item_id :: uuid
  av_kind :: WireItemKind

text \<open>
  What the consumer gives: a message with its subject and the event serde reads of it, or a failure with its
  text; and what the check of the consumer finds, which only some of them ask for.
\<close>

datatype DoorbellPull =
    BellMessage string "ArrivalWire option"
  | BellMissedHeartbeat
  | BellFailed string
  | BellEnded

record BellCheck =
  bc_stream :: "(unit, ErrorChain) result"
  bc_consumer :: "(unit, string) result"

record Doorbell =
  db_run_id :: uuid
  db_source :: "(DoorbellPull \<times> BellCheck) list"
  db_ended :: "Error option"

definition bell_check :: "string \<Rightarrow> BellCheck \<Rightarrow> (unit, Error) result" where
  "bell_check stream c =
     (case bc_stream c of
        Inl e \<Rightarrow>
          (case fail_unsent (''the stream '' @ stream) e of
             InfraMissing t \<Rightarrow> Err (InfraMissing t)
           | other \<Rightarrow> Err (error_lost (''the arrival consumer cannot be checked: '' @ error_display other)))
      | Inr _ \<Rightarrow> map_sum (\<lambda>t. error_lost (''the arrival consumer is gone: '' @ t)) id (bc_consumer c))"

definition bell_pull_failed :: "string \<Rightarrow> string \<Rightarrow> BellCheck \<Rightarrow> Error" where
  "bell_pull_failed stream t c =
     (case bell_check stream c of Inl gone \<Rightarrow> gone | Inr _ \<Rightarrow> error_lost (''the arrival consumer failed: '' @ t))"

definition bell_arrived :: "uuid \<Rightarrow> string \<Rightarrow> ArrivalWire option \<Rightarrow> (ItemArrived, Error) result option" where
  "bell_arrived run subject event =
     (case event of
        None \<Rightarrow> Some (Err (unreadable_payload subject))
      | Some a \<Rightarrow>
          if av_run_id a = run then
            Some (Ok \<lparr>arrived_address = av_address a, arrived_item_id = av_item_id a, arrived_kind = kind_of (av_kind a)\<rparr>)
          else None)"

text \<open>One pull: it is passed over, it gives a result, or it ends the feed.\<close>

datatype BellStep = BellSkip | BellGives "(ItemArrived, Error) result" | BellEnds Error

definition bell_step :: "string \<Rightarrow> uuid \<Rightarrow> DoorbellPull \<times> BellCheck \<Rightarrow> BellStep" where
  "bell_step stream run p =
     (case p of
        (BellMessage subject event, _) \<Rightarrow> (case bell_arrived run subject event of Some found \<Rightarrow> BellGives found | None \<Rightarrow> BellSkip)
      | (BellMissedHeartbeat, c) \<Rightarrow> (case bell_check stream c of Inr _ \<Rightarrow> BellSkip | Inl gone \<Rightarrow> BellEnds gone)
      | (BellFailed t, c) \<Rightarrow> BellEnds (bell_pull_failed stream t c)
      | (BellEnded, c) \<Rightarrow>
          BellEnds (case bell_check stream c of Inl gone \<Rightarrow> gone | Inr _ \<Rightarrow> error_lost ''the arrival consumer ended''))"

fun next_arrival :: "string \<Rightarrow> uuid \<Rightarrow> (DoorbellPull \<times> BellCheck) list \<Rightarrow> (ItemArrived, Error) result option \<times> Doorbell" where
  "next_arrival stream run [] = (None, \<lparr>db_run_id = run, db_source = [], db_ended = None\<rparr>)"
| "next_arrival stream run (p # ps) =
     (case bell_step stream run p of
        BellSkip \<Rightarrow> next_arrival stream run ps
      | BellGives found \<Rightarrow> (Some found, \<lparr>db_run_id = run, db_source = ps, db_ended = None\<rparr>)
      | BellEnds e \<Rightarrow> (Some (Err e), \<lparr>db_run_id = run, db_source = ps, db_ended = Some e\<rparr>))"

definition doorbell_next :: "string \<Rightarrow> Doorbell \<Rightarrow> (ItemArrived, Error) result option \<times> Doorbell" where
  "doorbell_next stream d =
     (case db_ended d of Some e \<Rightarrow> (Some (Err e), d) | None \<Rightarrow> next_arrival stream (db_run_id d) (db_source d))"

definition doorbell_new :: "uuid \<Rightarrow> (DoorbellPull \<times> BellCheck) list \<Rightarrow> Doorbell" where
  "doorbell_new run source = \<lparr>db_run_id = run, db_source = source, db_ended = None\<rparr>"

text \<open>\<open>open_arrival_feed\<close>: the settings are checked first, then the stream, the consumer and its messages.\<close>

definition open_doorbell ::
    "string \<Rightarrow> ArrivalSettings \<Rightarrow> (unit, string) result \<Rightarrow> (unit, ErrorChain) result \<Rightarrow> (unit, ErrorChain) result \<Rightarrow>
     (unit, ErrorChain) result \<Rightarrow> uuid \<Rightarrow> (DoorbellPull \<times> BellCheck) list \<Rightarrow> (Doorbell, Error) result" where
  "open_doorbell stream settings made there consumer opened run source =
     and_then (arrival_settings_check settings) (\<lambda>_.
     and_then (map_sum InvalidInput id made) (\<lambda>_.
     and_then (map_sum (fail_unsent (''the stream '' @ stream)) id there) (\<lambda>_.
     and_then (map_sum (fail_unsent ''the arrival consumer'') id consumer) (\<lambda>_.
     and_then (map_sum (fail_unsent ''the arrival consumer'') id opened) (\<lambda>_.
       Ok (doorbell_new run source))))))"

text \<open>The pulls before the one that ends the feed, and that end.\<close>

fun bell_gives :: "string \<Rightarrow> uuid \<Rightarrow> (DoorbellPull \<times> BellCheck) list \<Rightarrow> (ItemArrived, Error) result list" where
  "bell_gives stream run [] = []"
| "bell_gives stream run (p # ps) =
     (case bell_step stream run p of
        BellSkip \<Rightarrow> bell_gives stream run ps | BellGives found \<Rightarrow> found # bell_gives stream run ps | BellEnds _ \<Rightarrow> [])"

fun bell_end :: "string \<Rightarrow> uuid \<Rightarrow> (DoorbellPull \<times> BellCheck) list \<Rightarrow> Error option" where
  "bell_end stream run [] = None"
| "bell_end stream run (p # ps) = (case bell_step stream run p of BellEnds e \<Rightarrow> Some e | _ \<Rightarrow> bell_end stream run ps)"

definition doorbell_gives :: "string \<Rightarrow> Doorbell \<Rightarrow> (ItemArrived, Error) result list" where
  "doorbell_gives stream d = (if db_ended d = None then bell_gives stream (db_run_id d) (db_source d) else [])"

definition doorbell_ending :: "string \<Rightarrow> Doorbell \<Rightarrow> (ItemArrived, Error) result option" where
  "doorbell_ending stream d =
     map_option Err (case db_ended d of Some e \<Rightarrow> Some e | None \<Rightarrow> bell_end stream (db_run_id d) (db_source d))"

lemma next_arrival_gives:
  "bell_gives stream run ps = r # rs \<Longrightarrow>
     \<exists>qs. next_arrival stream run ps = (Some r, doorbell_new run qs) \<and> bell_gives stream run qs = rs \<and> bell_end stream run qs = bell_end stream run ps"
  by (induction ps) (auto simp: doorbell_new_def split: BellStep.splits)

lemma next_arrival_ends:
  "bell_gives stream run ps = [] \<Longrightarrow> bell_end stream run ps = Some e \<Longrightarrow>
     \<exists>d. next_arrival stream run ps = (Some (Err e), d) \<and> db_ended d = Some e"
  by (induction ps) (auto split: BellStep.splits)

lemma next_arrival_waits: "bell_gives stream run ps = [] \<Longrightarrow> bell_end stream run ps = None \<Longrightarrow> fst (next_arrival stream run ps) = None"
  by (induction ps) (auto split: BellStep.splits)

interpretation doorbell: ending_feed "doorbell_next stream" "doorbell_gives stream" "doorbell_ending stream"
proof
  fix s r rs
  assume g: "doorbell_gives stream s = r # rs"
  then have n: "db_ended s = None" "bell_gives stream (db_run_id s) (db_source s) = r # rs"
    by (auto simp: doorbell_gives_def split: if_splits)
  from next_arrival_gives [OF n(2)] n(1)
  show "\<exists>s'. doorbell_next stream s = (Some r, s') \<and> doorbell_gives stream s' = rs \<and> doorbell_ending stream s' = doorbell_ending stream s"
    by (auto simp: doorbell_next_def doorbell_gives_def doorbell_ending_def doorbell_new_def)
next
  fix s r
  assume g: "doorbell_gives stream s = []" "doorbell_ending stream s = Some r"
  show "\<exists>s'. doorbell_next stream s = (Some r, s') \<and> doorbell_gives stream s' = [] \<and> doorbell_ending stream s' = Some r"
  proof (cases "db_ended s")
    case None
    with g obtain e where "bell_gives stream (db_run_id s) (db_source s) = []" "bell_end stream (db_run_id s) (db_source s) = Some e" "r = Err e"
      by (auto simp: doorbell_gives_def doorbell_ending_def)
    with next_arrival_ends [of stream "db_run_id s" "db_source s" e] None show ?thesis
      by (auto simp: doorbell_next_def doorbell_gives_def doorbell_ending_def)
  qed (use g in \<open>auto simp: doorbell_next_def doorbell_gives_def doorbell_ending_def\<close>)
next
  fix s
  assume "doorbell_gives stream s = []" "doorbell_ending stream s = None"
  then show "fst (doorbell_next stream s) = None"
    by (auto simp: doorbell_next_def doorbell_gives_def doorbell_ending_def next_arrival_waits split: option.splits if_splits)
qed

text \<open>
  The results of a doorbell are the arrivals of its own Run, and the errors of events that cannot be read, in
  their order; a missed heartbeat of a consumer that still stands is passed over.
\<close>

lemma doorbell_reads:
  "reads (doorbell_next stream) k (doorbell_new run source) =
     take k (bell_gives stream run source @ (case bell_end stream run source of Some e \<Rightarrow> replicate k (Err e) | None \<Rightarrow> []))"
  by (simp add: doorbell.reads_given doorbell_new_def doorbell_gives_def doorbell_ending_def split: option.split)

definition bell_fails :: "DoorbellPull \<times> BellCheck \<Rightarrow> bool" where
  "bell_fails p =
     (case fst p of BellMessage _ _ \<Rightarrow> False | BellMissedHeartbeat \<Rightarrow> bc_stream (snd p) \<noteq> Ok () \<or> bc_consumer (snd p) \<noteq> Ok () | _ \<Rightarrow> True)"

definition own_arrivals :: "uuid \<Rightarrow> (DoorbellPull \<times> BellCheck) list \<Rightarrow> (ItemArrived, Error) result list" where
  "own_arrivals run ps =
     List.map_filter (\<lambda>p. case fst p of
         BellMessage subject None \<Rightarrow> Some (Err (unreadable_payload subject))
       | BellMessage subject (Some a) \<Rightarrow>
           if av_run_id a \<noteq> run then None
           else Some (Ok \<lparr>arrived_address = av_address a, arrived_item_id = av_item_id a, arrived_kind = kind_of (av_kind a)\<rparr>)
       | _ \<Rightarrow> None) ps"

text \<open>The end of a feed: the stream is missing, or the feed is lost.\<close>

definition feed_over :: "Error \<Rightarrow> bool" where
  "feed_over e \<longleftrightarrow> (\<exists>t. e = InfraMissing t) \<or> (\<exists>f. e = Lost f)"

lemma bell_check_over: "bell_check stream c = Err e \<Longrightarrow> feed_over e"
proof (cases "bc_stream c")
  case (Inl x)
  then show "bell_check stream c = Err e \<Longrightarrow> feed_over e"
    by (cases "fail_unsent (''the stream '' @ stream) x") (auto simp: bell_check_def feed_over_def error_lost_def)
next
  case (Inr u)
  then show "bell_check stream c = Err e \<Longrightarrow> feed_over e"
    by (cases "bc_consumer c") (auto simp: bell_check_def feed_over_def error_lost_def)
qed

lemma bell_check_ok: "bell_check stream c = Ok () \<longleftrightarrow> bc_stream c = Ok () \<and> bc_consumer c = Ok ()"
  by (cases "bc_stream c"; cases "bc_consumer c") (auto simp: bell_check_def split: Error.split)

lemma bell_step_cases:
  "if bell_fails p then \<exists>e. bell_step stream run p = BellEnds e \<and> feed_over e
   else bell_step stream run p = (case fst p of
     BellMessage subject event \<Rightarrow> (case bell_arrived run subject event of Some found \<Rightarrow> BellGives found | None \<Rightarrow> BellSkip) | _ \<Rightarrow> BellSkip)"
proof (cases p)
  case (Pair q c)
  then show ?thesis
    using bell_check_ok [of stream c]
    by (cases q; cases "bell_check stream c")
      (auto simp: bell_fails_def bell_step_def bell_pull_failed_def error_lost_def feed_over_def dest: bell_check_over)
qed

lemma bell_gives_own: "bell_gives stream run ps = own_arrivals run (takeWhile (\<lambda>p. \<not> bell_fails p) ps)"
proof (induction ps)
  case (Cons p ps)
  then show ?case using bell_step_cases [of p stream run]
    by (auto simp: own_arrivals_def List.map_filter_def bell_arrived_def split: DoorbellPull.splits option.splits if_splits)
qed (simp add: own_arrivals_def List.map_filter_def)

lemma bell_end_iff: "bell_end stream run ps = None \<longleftrightarrow> (\<forall>p \<in> set ps. \<not> bell_fails p)"
proof (induction ps)
  case (Cons p ps)
  then show ?case using bell_step_cases [of p stream run]
    by (auto split: DoorbellPull.splits option.splits if_splits)
qed simp

lemma bell_end_over: "bell_end stream run ps = Some e \<Longrightarrow> feed_over e"
proof (induction ps)
  case (Cons p ps)
  then show ?case using bell_step_cases [of p stream run]
    by (auto split: DoorbellPull.splits option.splits if_splits)
qed simp

text \<open>
  C18: the doorbell rings for its own Run and for nothing else. What the feed gives is, in order, every event
  of its Run and an error for every event that cannot be read, up to the first failure of the consumer; the
  events of other Runs and the missed heartbeats of a consumer that still stands change nothing. After that
  failure it gives one and the same error for ever, which says that the stream is missing or that the feed
  is lost, so that whoever waits learns that it must read the items again.
\<close>
theorem doorbell_rings_for_its_run:
  assumes "open_doorbell stream settings made there consumer opened run source = Ok d"
  shows "\<exists>over. reads (doorbell_next stream) k d =
      take k (own_arrivals run (takeWhile (\<lambda>p. \<not> bell_fails p) source) @ over) \<and>
    (if \<exists>p \<in> set source. bell_fails p then \<exists>e. over = replicate k (Err e) \<and> feed_over e else over = [])"
proof -
  have d: "d = doorbell_new run source" using assms by (auto simp: open_doorbell_def and_then_ok)
  let ?over = "case bell_end stream run source of Some e \<Rightarrow> replicate k (Err e) | None \<Rightarrow> []"
  have "reads (doorbell_next stream) k d = take k (own_arrivals run (takeWhile (\<lambda>p. \<not> bell_fails p) source) @ ?over)"
    by (simp add: d doorbell_reads bell_gives_own)
  moreover have "if \<exists>p \<in> set source. bell_fails p then \<exists>e. ?over = replicate k (Err e) \<and> feed_over e else ?over = []"
    using bell_end_iff [of stream run source] bell_end_over [of stream run source]
    by (cases "bell_end stream run source") auto
  ultimately show ?thesis by blast
qed

definition demo_bell :: "(DoorbellPull \<times> BellCheck) list" where
  "demo_bell =
     (let ok = \<lparr>bc_stream = Ok (), bc_consumer = Ok ()\<rparr>;
          event = (\<lambda>run. BellMessage ''s'' (Some \<lparr>av_run_id = run, av_address = None, av_item_id = 9, av_kind = WkMail\<rparr>)) in
      [(event 2, ok), (BellMissedHeartbeat, ok), (event 1, ok), (BellEnded, ok), (event 1, ok)])"

theorem doorbell_rings_for_its_run_witness:
  "\<exists>d e. open_doorbell ''E'' \<lparr>ack_wait = 1, inactivity_limit = 1\<rparr> (Ok ()) (Ok ()) (Ok ()) (Ok ()) 1 demo_bell = Ok d \<and> feed_over e \<and>
     reads (doorbell_next ''E'') 3 d =
       [Ok \<lparr>arrived_address = None, arrived_item_id = 9, arrived_kind = DirectMailItem\<rparr>, Err e, Err e]"
proof -
  have o: "open_doorbell ''E'' \<lparr>ack_wait = 1, inactivity_limit = 1\<rparr> (Ok ()) (Ok ()) (Ok ()) (Ok ()) 1 demo_bell = Ok (doorbell_new 1 demo_bell)"
    by (simp add: open_doorbell_def arrival_settings_check_def)
  have f: "\<exists>p \<in> set demo_bell. bell_fails p" by (simp add: demo_bell_def bell_fails_def Let_def)
  have g: "own_arrivals 1 (takeWhile (\<lambda>p. \<not> bell_fails p) demo_bell) =
      [Ok \<lparr>arrived_address = None, arrived_item_id = 9, arrived_kind = DirectMailItem\<rparr>]"
    by (simp add: demo_bell_def bell_fails_def own_arrivals_def List.map_filter_def bell_arrived_def bell_check_def Let_def)
  from doorbell_rings_for_its_run [OF o, of 3] f obtain e where "feed_over e"
      "reads (doorbell_next ''E'') 3 (doorbell_new 1 demo_bell) =
        take 3 ([Ok \<lparr>arrived_address = None, arrived_item_id = 9, arrived_kind = DirectMailItem\<rparr>] @ replicate 3 (Err e))"
    unfolding g by auto
  with o show ?thesis by (intro exI [of _ "doorbell_new 1 demo_bell"] exI [of _ e]) (simp add: numeral_3_eq_3)
qed

end
