(* ===== verification/Mode_Feed.thy ===== *)
theory Mode_Feed
  imports Transport_Feeds
begin

text \<open>
  The feed of the dispatch mode (\<open>runner_transport/mode.rs\<close>, \<open>mode_sink.rs\<close>): a watch of the entries of the
  published language that sends what it sees of one key, a first reading of that key, and the feed that
  joins the two and leaves out what it said already. What the watch does in each of its polls and how the
  reading ends are inputs; the feed that waits for the watch has the result \<open>None\<close>.
\<close>

section \<open>What the watch sends\<close>

type_synonym ModeItem = "(ModeEvent, Error) result"

text \<open>An entry as serde reads it.\<close>

definition mode_read :: "(DispatchMode, JsonFault) result \<Rightarrow> ModeItem" where
  "mode_read v = map_sum (unreadable_json ''the dispatch mode entry'') ModeEntry v"

datatype LanguageChange = LcProject string "(DispatchMode, JsonFault) result" | LcRetract string

definition sink_item :: "string \<Rightarrow> LanguageChange \<Rightarrow> ModeItem option" where
  "sink_item key c =
     (case c of
        LcProject k v \<Rightarrow> if k = key then Some (mode_read v) else None
      | LcRetract k \<Rightarrow> if k = key then Some (Ok NoModeEntry) else None)"

definition sink_items :: "string \<Rightarrow> LanguageChange list \<Rightarrow> ModeItem list" where
  "sink_items key cs = List.map_filter (sink_item key) cs"

text \<open>
  How the watch ends: it returned, it failed (and then the bucket is opened again to see whether it is
  there), or its sink was closed. In a poll it sends what changed and stays, drops its sender, or ends.
\<close>

datatype WatchEnd = WatchReturned | WatchFailed FabricError "(unit, FabricError) result" | WatchSinkClosed

datatype WatchPoll = WatchSends "LanguageChange list" | WatchDropsSender "LanguageChange list" | WatchEnds "LanguageChange list" WatchEnd

section \<open>The feed\<close>

record ModeFeed =
  mf_key :: string
  mf_initial :: "((DispatchMode, JsonFault) result option, FabricError) result"
  mf_watch :: "WatchPoll list"
  mf_receiver :: "ModeItem list"
  mf_closed :: bool
  mf_pending :: "ModeItem list"
  mf_last :: "ModeEvent option"
  mf_started :: bool
  mf_ended :: "Error option"

definition mode_bucket_error :: "string \<Rightarrow> FabricError \<Rightarrow> Error" where
  "mode_bucket_error bucket e = fail_fabric (''the bucket '' @ bucket) e"

definition mode_push :: "ModeItem \<Rightarrow> ModeFeed \<Rightarrow> ModeFeed" where
  "mode_push item s =
     (case item of
        Inr event \<Rightarrow>
          if mf_last s = Some event then s
          else s\<lparr>mf_last := Some event, mf_pending := mf_pending s @ [Ok event]\<rparr>
      | Inl e \<Rightarrow> s\<lparr>mf_last := None, mf_pending := mf_pending s @ [Err e]\<rparr>)"

definition mode_drain :: "ModeFeed \<Rightarrow> ModeFeed" where
  "mode_drain s = fold mode_push (mf_receiver s) (s\<lparr>mf_receiver := []\<rparr>)"

text \<open>What the end of the watch leaves: an item in front of the end, perhaps, and the error.\<close>

definition watch_left :: "string \<Rightarrow> WatchEnd \<Rightarrow> ModeItem list \<times> Error" where
  "watch_left bucket how =
     (case how of
        WatchReturned \<Rightarrow> ([], error_lost ''the dispatch mode watch ended'')
      | WatchFailed (FbDecode subject _) _ \<Rightarrow>
          ([Err (unreadable_payload subject)], error_lost ''the dispatch mode watch ended on an entry that is not JSON'')
      | WatchFailed e again \<Rightarrow>
          ([], (case again of Inl missing \<Rightarrow> mode_bucket_error bucket missing | Inr _ \<Rightarrow> mode_bucket_error bucket e))
      | WatchSinkClosed \<Rightarrow> ([], error_lost ''the mode feed was dropped''))"

definition mode_watch_ended :: "string \<Rightarrow> WatchEnd \<Rightarrow> ModeFeed \<Rightarrow> ModeFeed" where
  "mode_watch_ended bucket how s =
     (let s1 = mode_drain s; (left, e) = watch_left bucket how in
      s1\<lparr>mf_pending := mf_pending s1 @ left, mf_ended := Some e\<rparr>)"

text \<open>One poll of the watch: what it sends reaches the receiver before its end is seen.\<close>

definition mode_poll :: "ModeFeed \<Rightarrow> WatchEnd option \<times> ModeFeed" where
  "mode_poll s =
     (let sent = (\<lambda>cs ps. s\<lparr>mf_watch := ps, mf_receiver := mf_receiver s @ sink_items (mf_key s) cs\<rparr>) in
      case mf_watch s of
        [] \<Rightarrow> (None, s)
      | WatchSends cs # ps \<Rightarrow> (None, sent cs ps)
      | WatchDropsSender cs # ps \<Rightarrow> (None, (sent cs ps)\<lparr>mf_closed := True\<rparr>)
      | WatchEnds cs how # ps \<Rightarrow> (Some how, sent cs ps))"

definition mode_start :: "string \<Rightarrow> ModeFeed \<Rightarrow> ModeFeed" where
  "mode_start bucket s =
     (case mode_poll s of
        (Some how, s1) \<Rightarrow> mode_watch_ended bucket how s1
      | (None, s1) \<Rightarrow>
          (case mf_initial s1 of
             Inr (Some v) \<Rightarrow> mode_push (mode_read v) (s1\<lparr>mf_started := True\<rparr>)
           | Inr None \<Rightarrow> mode_push (Ok NoModeEntry) (s1\<lparr>mf_started := True\<rparr>)
           | Inl (FbDecode subject _) \<Rightarrow> mode_push (Err (unreadable_payload subject)) (s1\<lparr>mf_started := True\<rparr>)
           | Inl e \<Rightarrow> s1\<lparr>mf_ended := Some (mode_bucket_error bucket e)\<rparr>))"

text \<open>\<open>next\<close> is a loop; each turn takes one item, one poll or the start, so it ends.\<close>

definition poll_size :: "WatchPoll \<Rightarrow> nat" where
  "poll_size p = Suc (length (case p of WatchSends cs \<Rightarrow> cs | WatchDropsSender cs \<Rightarrow> cs | WatchEnds cs _ \<Rightarrow> cs))"

definition mode_rank :: "ModeFeed \<Rightarrow> nat" where
  "mode_rank s =
     (if mf_ended s \<noteq> None then 0
      else 1 + (if mf_started s then 0 else 1) + length (mf_receiver s) + sum_list (map poll_size (mf_watch s)))"

lemma sink_items_length: "length (sink_items key cs) \<le> length cs"
  by (simp add: sink_items_def List.map_filter_def)

lemma mode_push_frame [frame_simps]:
  "mf_receiver (mode_push i s) = mf_receiver s" "mf_watch (mode_push i s) = mf_watch s" "mf_closed (mode_push i s) = mf_closed s"
  "mf_started (mode_push i s) = mf_started s" "mf_ended (mode_push i s) = mf_ended s" "mf_key (mode_push i s) = mf_key s"
  "mf_initial (mode_push i s) = mf_initial s"
  by (auto simp: mode_push_def split: sum.split)

lemma mode_poll_rank:
  assumes "mode_poll s = (r, s1)"
  shows "length (mf_receiver s1) + sum_list (map poll_size (mf_watch s1)) + (if mf_watch s = [] then 0 else 1)
      \<le> length (mf_receiver s) + sum_list (map poll_size (mf_watch s)) \<and>
    mf_ended s1 = mf_ended s \<and> mf_started s1 = mf_started s \<and> mf_key s1 = mf_key s \<and> mf_initial s1 = mf_initial s \<and>
    mf_pending s1 = mf_pending s \<and> mf_last s1 = mf_last s"
proof (cases "mf_watch s")
  case (Cons p ps)
  then show ?thesis using assms sink_items_length
    by (cases p) (auto simp: mode_poll_def poll_size_def)
qed (use assms in \<open>auto simp: mode_poll_def\<close>)

lemma mode_start_rank: "mf_ended s = None \<Longrightarrow> \<not> mf_started s \<Longrightarrow> mode_rank (mode_start bucket s) < mode_rank s"
proof -
  assume s: "mf_ended s = None" "\<not> mf_started s"
  obtain r s1 where p: "mode_poll s = (r, s1)" by fastforce
  note k = mode_poll_rank [OF p]
  show ?thesis
  proof (cases r)
    case None
    with p k s show ?thesis
      by (auto simp: mode_start_def mode_rank_def frame_simps split: sum.split option.split FabricError.split)
  next
    case (Some how)
    with p s show ?thesis by (simp add: mode_start_def mode_watch_ended_def mode_rank_def case_prod_beta Let_def)
  qed
qed

function mode_next :: "string \<Rightarrow> ModeFeed \<Rightarrow> ModeItem option \<times> ModeFeed" where
  "mode_next bucket s =
     (case mf_pending s of
        item # rest \<Rightarrow> (Some item, s\<lparr>mf_pending := rest\<rparr>)
      | [] \<Rightarrow>
          (case mf_ended s of
             Some e \<Rightarrow> (Some (Err e), s)
           | None \<Rightarrow>
               if \<not> mf_started s then mode_next bucket (mode_start bucket s)
               else (case mf_receiver s of
                       item # rest \<Rightarrow> mode_next bucket (mode_push item (s\<lparr>mf_receiver := rest\<rparr>))
                     | [] \<Rightarrow>
                         if mf_closed s then mode_next bucket (s\<lparr>mf_ended := Some (error_lost ''the dispatch mode watch ended'')\<rparr>)
                         else if mf_watch s = [] then (None, s)
                         else (case mode_poll s of
                                 (None, s1) \<Rightarrow> mode_next bucket s1
                               | (Some how, s1) \<Rightarrow> mode_next bucket (mode_watch_ended bucket how s1)))))"
  by pat_completeness auto

termination
proof (relation "measure (\<lambda>(_, s). mode_rank s)", goal_cases)
  case (2 bucket s)
  then show ?case using mode_start_rank by simp
next
  case (4 bucket s x s1)
  then show ?case using mode_poll_rank [of s None s1] by (simp add: mode_rank_def)
next
  case (5 bucket s x s1 how)
  then show ?case by (simp add: mode_rank_def mode_watch_ended_def case_prod_beta Let_def)
next
  case (6 bucket s item rest)
  then show ?case by (simp add: mode_rank_def frame_simps)
qed (simp_all add: mode_rank_def)

declare mode_next.simps [simp del]

definition mode_feed_new :: "string \<Rightarrow> ((DispatchMode, JsonFault) result option, FabricError) result \<Rightarrow> WatchPoll list \<Rightarrow> ModeFeed" where
  "mode_feed_new key initial watch =
     \<lparr>mf_key = key, mf_initial = initial, mf_watch = watch, mf_receiver = [], mf_closed = False, mf_pending = [],
      mf_last = None, mf_started = False, mf_ended = None\<rparr>"

text \<open>\<open>open_mode_feed\<close>: the key and its prefix, the reader and the consumer are made first.\<close>

definition open_mode_feed ::
    "string \<Rightarrow> (unit, string) result \<Rightarrow> (unit, string) result \<Rightarrow> (unit, FabricError) result \<Rightarrow> (unit, FabricError) result \<Rightarrow>
     string \<Rightarrow> ((DispatchMode, JsonFault) result option, FabricError) result \<Rightarrow> WatchPoll list \<Rightarrow> (ModeFeed, Error) result" where
  "open_mode_feed bucket key_made prefix_made reader consumer key initial watch =
     and_then (map_sum InvalidInput id key_made) (\<lambda>_.
     and_then (map_sum InvalidInput id prefix_made) (\<lambda>_.
     and_then (map_sum (mode_bucket_error bucket) id reader) (\<lambda>_.
     and_then (map_sum (mode_bucket_error bucket) id consumer) (\<lambda>_.
       Ok (mode_feed_new key initial watch)))))"

section \<open>What the feed gives\<close>

text \<open>What is left of a list of items when an event that was just said is left out.\<close>

fun unrepeated :: "ModeEvent option \<Rightarrow> ModeItem list \<Rightarrow> ModeItem list" where
  "unrepeated said [] = []"
| "unrepeated said (Inl e # xs) = Err e # unrepeated None xs"
| "unrepeated said (Inr event # xs) = (if said = Some event then unrepeated said xs else Ok event # unrepeated (Some event) xs)"

fun said_after :: "ModeEvent option \<Rightarrow> ModeItem list \<Rightarrow> ModeEvent option" where
  "said_after said [] = said"
| "said_after said (Inl e # xs) = said_after None xs"
| "said_after said (Inr event # xs) = said_after (Some event) xs"

text \<open>What the watch still sends, and how it ends.\<close>

fun watch_items :: "string \<Rightarrow> WatchPoll list \<Rightarrow> ModeItem list" where
  "watch_items key [] = []"
| "watch_items key (WatchSends cs # ps) = sink_items key cs @ watch_items key ps"
| "watch_items key (WatchDropsSender cs # ps) = sink_items key cs"
| "watch_items key (WatchEnds cs how # ps) = sink_items key cs"

fun watch_over :: "string \<Rightarrow> WatchPoll list \<Rightarrow> (ModeItem list \<times> Error) option" where
  "watch_over bucket [] = None"
| "watch_over bucket (WatchSends cs # ps) = watch_over bucket ps"
| "watch_over bucket (WatchDropsSender cs # ps) = Some ([], error_lost ''the dispatch mode watch ended'')"
| "watch_over bucket (WatchEnds cs how # ps) = Some (watch_left bucket how)"

text \<open>What the started feed still gives, and its end.\<close>

definition mode_coming :: "string \<Rightarrow> ModeFeed \<Rightarrow> ModeItem list" where
  "mode_coming bucket s =
     (if mf_closed s then unrepeated (mf_last s) (mf_receiver s)
      else unrepeated (mf_last s) (mf_receiver s @ watch_items (mf_key s) (mf_watch s)) @
           (case watch_over bucket (mf_watch s) of Some (left, _) \<Rightarrow> left | None \<Rightarrow> []))"

definition mode_over :: "string \<Rightarrow> ModeFeed \<Rightarrow> Error option" where
  "mode_over bucket s =
     (if mf_closed s then Some (error_lost ''the dispatch mode watch ended'')
      else map_option snd (watch_over bucket (mf_watch s)))"

definition mode_gives :: "string \<Rightarrow> ModeFeed \<Rightarrow> ModeItem list" where
  "mode_gives bucket s =
     mf_pending s @
     (if mf_ended s \<noteq> None then []
      else if mf_started s then mode_coming bucket s
      else let s1 = mode_start bucket (s\<lparr>mf_pending := []\<rparr>) in mf_pending s1 @ (if mf_ended s1 \<noteq> None then [] else mode_coming bucket s1))"

definition mode_ending :: "string \<Rightarrow> ModeFeed \<Rightarrow> ModeItem option" where
  "mode_ending bucket s =
     map_option Err
       (case mf_ended s of
          Some e \<Rightarrow> Some e
        | None \<Rightarrow>
            if mf_started s then mode_over bucket s
            else let s1 = mode_start bucket (s\<lparr>mf_pending := []\<rparr>) in (case mf_ended s1 of Some e \<Rightarrow> Some e | None \<Rightarrow> mode_over bucket s1))"

lemma unrepeated_append: "unrepeated said (xs @ ys) = unrepeated said xs @ unrepeated (said_after said xs) ys"
  by (induction said xs rule: unrepeated.induct) auto

lemma mode_push_pending:
  "mf_pending (mode_push i s) = mf_pending s @ unrepeated (mf_last s) [i] \<and> mf_last (mode_push i s) = said_after (mf_last s) [i]"
  by (cases i) (auto simp: mode_push_def)

lemma fold_mode_push:
  "mf_pending (fold mode_push xs s) = mf_pending s @ unrepeated (mf_last s) xs \<and> mf_last (fold mode_push xs s) = said_after (mf_last s) xs"
proof (induction xs arbitrary: s)
  case (Cons x xs)
  have "unrepeated said (x # xs) = unrepeated said [x] @ unrepeated (said_after said [x]) xs"
    "said_after said (x # xs) = said_after (said_after said [x]) xs" for said by (cases x; simp)+
  with Cons [of "mode_push x s"] mode_push_pending [of x s] show ?case by simp
qed simp

lemma mode_watch_ended_gives:
  "mf_pending (mode_watch_ended bucket how s) = mf_pending s @ unrepeated (mf_last s) (mf_receiver s) @ fst (watch_left bucket how)"
  "mf_ended (mode_watch_ended bucket how s) = Some (snd (watch_left bucket how))"
  using fold_mode_push [of "mf_receiver s" "s\<lparr>mf_receiver := []\<rparr>"]
  by (simp_all add: mode_watch_ended_def mode_drain_def case_prod_beta Let_def)

lemma mode_push_coming:
  assumes "mf_receiver s = i # rest" and "mf_pending s = []"
  shows "mf_pending (mode_push i (s\<lparr>mf_receiver := rest\<rparr>)) @ mode_coming bucket (mode_push i (s\<lparr>mf_receiver := rest\<rparr>)) = mode_coming bucket s"
    and "mode_over bucket (mode_push i (s\<lparr>mf_receiver := rest\<rparr>)) = mode_over bucket s"
proof -
  have u: "unrepeated (mf_last s) (i # ys) = unrepeated (mf_last s) [i] @ unrepeated (said_after (mf_last s) [i]) ys" for ys
    by (cases i) simp_all
  show "mf_pending (mode_push i (s\<lparr>mf_receiver := rest\<rparr>)) @ mode_coming bucket (mode_push i (s\<lparr>mf_receiver := rest\<rparr>)) = mode_coming bucket s"
    using assms mode_push_pending [of i "s\<lparr>mf_receiver := rest\<rparr>"] u [of rest] u [of "rest @ watch_items (mf_key s) (mf_watch s)"]
    by (simp add: mode_coming_def frame_simps)
  show "mode_over bucket (mode_push i (s\<lparr>mf_receiver := rest\<rparr>)) = mode_over bucket s"
    by (simp add: mode_over_def frame_simps)
qed

lemma mode_poll_coming:
  assumes "mode_poll s = (None, s1)" and "\<not> mf_closed s"
  shows "mode_coming bucket s1 = mode_coming bucket s" "mode_over bucket s1 = mode_over bucket s"
  using assms by (auto simp: mode_poll_def mode_coming_def mode_over_def Let_def split: list.splits WatchPoll.splits)

lemma mode_poll_ends:
  assumes "mode_poll s = (Some how, s1)" and "\<not> mf_closed s"
  shows "mode_coming bucket s = unrepeated (mf_last s1) (mf_receiver s1) @ fst (watch_left bucket how)"
    "mode_over bucket s = Some (snd (watch_left bucket how))" "mf_pending s1 = mf_pending s"
  using assms by (cases "watch_left bucket how"; auto simp: mode_poll_def mode_coming_def mode_over_def Let_def split: list.splits WatchPoll.splits)+

lemma mode_start_settles: "mf_started (mode_start bucket s) \<or> mf_ended (mode_start bucket s) \<noteq> None"
  by (cases "mode_poll s")
    (auto simp: mode_start_def mode_watch_ended_gives frame_simps split: option.split sum.split FabricError.split)

text \<open>A turn of the loop changes neither what the feed gives nor its end.\<close>

lemma start_keeps:
  assumes "mf_pending s = []" and "mf_ended s = None" and "\<not> mf_started s"
  shows "mode_gives bucket (mode_start bucket s) = mode_gives bucket s \<and> mode_ending bucket (mode_start bucket s) = mode_ending bucket s"
proof -
  have s: "s\<lparr>mf_pending := []\<rparr> = s" using assms(1) by (cases s) simp
  show ?thesis
    using assms mode_start_settles [of bucket s]
    by (auto simp: mode_gives_def mode_ending_def s Let_def split: option.split)
qed

lemma running_keeps:
  assumes "mf_pending s = []" and "mf_ended s = None" and "mf_started s"
  shows "mf_receiver s = i # rest \<Longrightarrow> mode_gives bucket (mode_push i (s\<lparr>mf_receiver := rest\<rparr>)) = mode_gives bucket s \<and>
      mode_ending bucket (mode_push i (s\<lparr>mf_receiver := rest\<rparr>)) = mode_ending bucket s"
    and "mf_receiver s = [] \<Longrightarrow> mf_closed s \<Longrightarrow> mode_gives bucket (s\<lparr>mf_ended := Some (error_lost ''the dispatch mode watch ended'')\<rparr>) = mode_gives bucket s \<and>
      mode_ending bucket (s\<lparr>mf_ended := Some (error_lost ''the dispatch mode watch ended'')\<rparr>) = mode_ending bucket s"
    and "\<not> mf_closed s \<Longrightarrow> mode_poll s = (None, s1) \<Longrightarrow> mode_gives bucket s1 = mode_gives bucket s \<and> mode_ending bucket s1 = mode_ending bucket s"
    and "\<not> mf_closed s \<Longrightarrow> mode_poll s = (Some how, s1) \<Longrightarrow> mode_gives bucket (mode_watch_ended bucket how s1) = mode_gives bucket s \<and>
      mode_ending bucket (mode_watch_ended bucket how s1) = mode_ending bucket s"
proof -
  show "mode_gives bucket (mode_push i (s\<lparr>mf_receiver := rest\<rparr>)) = mode_gives bucket s \<and>
      mode_ending bucket (mode_push i (s\<lparr>mf_receiver := rest\<rparr>)) = mode_ending bucket s" if "mf_receiver s = i # rest"
    using assms mode_push_coming [OF that assms(1), of bucket] by (simp add: mode_gives_def mode_ending_def frame_simps)
  show "mode_gives bucket (s\<lparr>mf_ended := Some (error_lost ''the dispatch mode watch ended'')\<rparr>) = mode_gives bucket s \<and>
      mode_ending bucket (s\<lparr>mf_ended := Some (error_lost ''the dispatch mode watch ended'')\<rparr>) = mode_ending bucket s"
    if "mf_receiver s = []" "mf_closed s"
    using assms that by (simp add: mode_gives_def mode_ending_def mode_coming_def mode_over_def)
  show "mode_gives bucket s1 = mode_gives bucket s \<and> mode_ending bucket s1 = mode_ending bucket s"
    if "\<not> mf_closed s" "mode_poll s = (None, s1)"
    using assms mode_poll_coming [OF that(2,1), of bucket] mode_poll_rank [OF that(2)] by (simp add: mode_gives_def mode_ending_def)
  show "mode_gives bucket (mode_watch_ended bucket how s1) = mode_gives bucket s \<and>
      mode_ending bucket (mode_watch_ended bucket how s1) = mode_ending bucket s"
    if "\<not> mf_closed s" "mode_poll s = (Some how, s1)"
    using assms mode_poll_ends(1,2) [OF that(2,1), of bucket] mode_poll_ends(3) [OF that(2,1)] mode_poll_rank [OF that(2)] by (simp add: mode_gives_def mode_ending_def mode_watch_ended_gives)
qed

definition mode_result_ok :: "string \<Rightarrow> ModeFeed \<Rightarrow> ModeItem option \<Rightarrow> ModeFeed \<Rightarrow> bool" where
  "mode_result_ok bucket s r s' \<longleftrightarrow>
     (case mode_gives bucket s of
        x # xs \<Rightarrow> r = Some x \<and> mode_gives bucket s' = xs \<and> mode_ending bucket s' = mode_ending bucket s
      | [] \<Rightarrow> r = mode_ending bucket s \<and> (r \<noteq> None \<longrightarrow> mode_gives bucket s' = [] \<and> mode_ending bucket s' = r))"

lemma mode_result_ok_cong:
  "mode_result_ok bucket t r s' \<Longrightarrow> mode_gives bucket t = mode_gives bucket s \<and> mode_ending bucket t = mode_ending bucket s \<Longrightarrow>
     mode_result_ok bucket s r s'"
  by (cases "mode_gives bucket s") (auto simp: mode_result_ok_def)

lemma mode_next_ok: "mode_next bucket s = (r, s') \<Longrightarrow> mode_result_ok bucket s r s'"
proof (induction bucket s arbitrary: r s' rule: mode_next.induct)
  case (1 bucket s)
  note nxt = "1.prems" [unfolded mode_next.simps [of bucket s]]
  show ?case
  proof (cases "mf_pending s")
    case (Cons item rest)
    then show ?thesis using nxt by (auto simp: mode_result_ok_def mode_gives_def mode_ending_def mode_coming_def mode_over_def)
  next
    case p: Nil
    show ?thesis
    proof (cases "mf_ended s")
      case (Some e)
      then show ?thesis using nxt p by (auto simp: mode_result_ok_def mode_gives_def mode_ending_def)
    next
      case e: None
      show ?thesis
      proof (cases "mf_started s")
        case False
        then have "mode_result_ok bucket (mode_start bucket s) r s'" using "1.IH"(1) nxt p e by simp
        then show ?thesis by (rule mode_result_ok_cong) (use start_keeps [OF p e False, of bucket] in \<open>simp\<close>)
      next
        case s: True
        note keeps = running_keeps [OF p e s]
        show ?thesis
        proof (cases "mf_receiver s")
          case (Cons i rest)
          then have "mode_result_ok bucket (mode_push i (s\<lparr>mf_receiver := rest\<rparr>)) r s'" using "1.IH"(5) nxt p e s by simp
          then show ?thesis by (rule mode_result_ok_cong) (use keeps(1) [OF Cons, of bucket] in \<open>simp\<close>)
        next
          case q: Nil
          show ?thesis
          proof (cases "mf_closed s")
            case True
            then have "mode_result_ok bucket (s\<lparr>mf_ended := Some (error_lost ''the dispatch mode watch ended'')\<rparr>) r s'"
              using "1.IH"(2) nxt p e s q by simp
            then show ?thesis by (rule mode_result_ok_cong) (use keeps(2) [OF q True, of bucket] in \<open>simp\<close>)
          next
            case c: False
            show ?thesis
            proof (cases "mf_watch s = []")
              case True
              then show ?thesis using nxt p e s q c
                by (auto simp: mode_result_ok_def mode_gives_def mode_ending_def mode_coming_def mode_over_def)
            next
              case w: False
              obtain o1 s1 where poll: "mode_poll s = (o1, s1)" by fastforce
              show ?thesis
              proof (cases o1)
                case None
                then have "mode_result_ok bucket s1 r s'" using "1.IH"(3) [OF p e _ q c w poll [symmetric] None] nxt p e s q c w poll by simp
                then show ?thesis by (rule mode_result_ok_cong) (use keeps(3) [OF c, of s1 bucket] poll None in \<open>simp\<close>)
              next
                case (Some how)
                then have "mode_result_ok bucket (mode_watch_ended bucket how s1) r s'" using "1.IH"(4) [OF p e _ q c w poll [symmetric] Some] nxt p e s q c w poll by simp
                then show ?thesis by (rule mode_result_ok_cong) (use keeps(4) [OF c, of how s1 bucket] poll Some in \<open>simp\<close>)
              qed
            qed
          qed
        qed
      qed
    qed
  qed
qed

interpretation mode_feed: ending_feed "mode_next bucket" "mode_gives bucket" "mode_ending bucket"
proof
  fix s r rs
  assume g: "mode_gives bucket s = r # rs"
  obtain r' s' where "mode_next bucket s = (r', s')" by fastforce
  with mode_next_ok [OF this] g
  show "\<exists>s'. mode_next bucket s = (Some r, s') \<and> mode_gives bucket s' = rs \<and> mode_ending bucket s' = mode_ending bucket s"
    by (simp add: mode_result_ok_def)
next
  fix s r
  assume g: "mode_gives bucket s = []" "mode_ending bucket s = Some r"
  obtain r' s' where "mode_next bucket s = (r', s')" by fastforce
  with mode_next_ok [OF this] g
  show "\<exists>s'. mode_next bucket s = (Some r, s') \<and> mode_gives bucket s' = [] \<and> mode_ending bucket s' = Some r"
    by (simp add: mode_result_ok_def)
next
  fix s
  assume g: "mode_gives bucket s = []" "mode_ending bucket s = None"
  obtain r' s' where "mode_next bucket s = (r', s')" by fastforce
  with mode_next_ok [OF this] g show "fst (mode_next bucket s) = None" by (simp add: mode_result_ok_def)
qed

section \<open>The feed says what changes\<close>

text \<open>The first item of the reading, unless the bucket failed.\<close>

definition first_item :: "((DispatchMode, JsonFault) result option, FabricError) result \<Rightarrow> ModeItem option" where
  "first_item initial =
     (case initial of
        Inr (Some v) \<Rightarrow> Some (mode_read v)
      | Inr None \<Rightarrow> Some (Ok NoModeEntry)
      | Inl (FbDecode subject _) \<Rightarrow> Some (Err (unreadable_payload subject))
      | Inl _ \<Rightarrow> None)"

fun ends_at_once :: "WatchPoll list \<Rightarrow> bool" where
  "ends_at_once (WatchEnds cs how # ps) = True"
| "ends_at_once ps = False"

lemma mode_push_first: "first_item initial = Some i \<Longrightarrow> \<not> ends_at_once (mf_watch s) \<Longrightarrow> mf_initial s = initial \<Longrightarrow>
    mode_start bucket s = mode_push i ((snd (mode_poll s))\<lparr>mf_started := True\<rparr>)"
  by (cases "mf_watch s" rule: ends_at_once.cases)
    (auto simp: mode_start_def mode_poll_def first_item_def split: sum.splits option.splits FabricError.splits)

lemma mode_new_gives:
  assumes "first_item initial = Some i" and "\<not> ends_at_once watch"
  shows "mode_gives bucket (mode_feed_new key initial watch) =
      unrepeated None (i # watch_items key watch) @ (case watch_over bucket watch of Some (left, _) \<Rightarrow> left | None \<Rightarrow> [])"
    and "mode_ending bucket (mode_feed_new key initial watch) = map_option (\<lambda>o1. Err (snd o1)) (watch_over bucket watch)"
proof -
  let ?s = "mode_feed_new key initial watch"
  let ?p = "(snd (mode_poll ?s))\<lparr>mf_started := True\<rparr>"
  have s: "mode_start bucket ?s = mode_push i ?p"
    by (rule mode_push_first [OF assms(1)]) (use assms(2) in \<open>simp_all add: mode_feed_new_def\<close>)
  have u: "unrepeated None (i # xs) = unrepeated None [i] @ unrepeated (said_after None [i]) xs" for xs by (cases i) simp_all
  have c: "mf_last ?p = None" "mf_pending ?p = []" "mf_ended ?p = None"
    using mode_poll_rank [of ?s "fst (mode_poll ?s)" "snd (mode_poll ?s)"] by (simp_all add: mode_feed_new_def)
  have g: "mode_coming bucket (mode_push i ?p) = unrepeated (said_after None [i]) (watch_items key watch) @
      (case watch_over bucket watch of Some (left, _) \<Rightarrow> left | None \<Rightarrow> [])"
    "mode_over bucket (mode_push i ?p) = map_option snd (watch_over bucket watch)"
    using assms(2) c mode_push_pending [of i ?p]
    by (cases watch rule: ends_at_once.cases; simp add: mode_coming_def mode_over_def frame_simps mode_poll_def mode_feed_new_def)+
  have e: "mf_pending ?s = []" "mf_ended ?s = None" "\<not> mf_started ?s" "?s\<lparr>mf_pending := []\<rparr> = ?s" by (simp_all add: mode_feed_new_def)
  show "mode_gives bucket ?s = unrepeated None (i # watch_items key watch) @ (case watch_over bucket watch of Some (left, _) \<Rightarrow> left | None \<Rightarrow> [])"
    using e c g(1) mode_push_pending [of i ?p] u [of "watch_items key watch"] by (simp add: mode_gives_def e(4) s Let_def frame_simps)
  show "mode_ending bucket ?s = map_option (\<lambda>o1. Err (snd o1)) (watch_over bucket watch)"
    using e c g(2) by (simp add: mode_ending_def e(4) s Let_def frame_simps option.map_comp comp_def)
qed

text \<open>Leaving out repetitions is \<open>remdups_adj\<close> where nothing failed, and in general tells the same items.\<close>

lemma unrepeated_remdups: "unrepeated None (map Ok es) = map Ok (remdups_adj es)"
proof -
  have "unrepeated (Some e) (map Ok es) = map Ok (tl (remdups_adj (e # es)))" for e and es :: "ModeEvent list"
  proof (induction es arbitrary: e)
    case (Cons x es)
    then show ?case by (cases "x = e") (auto simp: remdups_adj_Cons split: list.splits)
  qed simp
  then show ?thesis by (cases es) (simp_all add: remdups_adj_Cons split: list.splits)
qed

lemma unrepeated_set: "set (unrepeated said xs) \<union> Ok ` set_option said = set xs \<union> Ok ` set_option said"
proof (induction said xs rule: unrepeated.induct)
  case (2 said e xs)
  then show ?case by auto
next
  case (3 said event xs)
  then show ?case by (cases "said = Some event") auto
qed simp

lemma unrepeated_successively:
  "successively (\<lambda>x y. x \<noteq> y \<or> (\<exists>e. y = Err e)) (unrepeated said xs) \<and>
    (\<forall>event. said = Some event \<longrightarrow> unrepeated said xs = [] \<or> hd (unrepeated said xs) \<noteq> Ok event)"
  by (induction said xs rule: unrepeated.induct) (auto simp: successively_Cons split: if_splits dest: sym)

text \<open>
  C16: the feed of the dispatch mode says what changes, and only that. A feed that could be opened, whose watch
  does not end at once and whose first reading gave something, is told that reading and then, in order, what
  the watch sends for its key. It says what it was told without an event that it just said: all that it was told is
  said, nothing else is, and no event follows itself. After the last of it comes what the end of the
  watch left and then the error of that end, for ever; while the watch has not ended a read waits.
\<close>
theorem mode_feed_says_changes:
  assumes "open_mode_feed bucket key_made prefix_made reader consumer key initial watch = Ok s"
    and "first_item initial = Some i" and "\<not> ends_at_once watch"
  shows "\<exists>said. set said = set (i # watch_items key watch) \<and> successively (\<lambda>x y. x \<noteq> y \<or> (\<exists>e. y = Err e)) said \<and>
    (\<forall>es. i # watch_items key watch = map Ok es \<longrightarrow> said = map Ok (remdups_adj es)) \<and>
    reads (mode_next bucket) k s =
      take k (case watch_over bucket watch of None \<Rightarrow> said | Some (left, e) \<Rightarrow> said @ left @ replicate k (Err e))"
proof -
  have s: "s = mode_feed_new key initial watch" using assms(1) by (auto simp: open_mode_feed_def and_then_ok)
  let ?said = "unrepeated None (i # watch_items key watch)"
  have "reads (mode_next bucket) k s =
      take k (case watch_over bucket watch of None \<Rightarrow> ?said | Some (left, e) \<Rightarrow> ?said @ left @ replicate k (Err e))"
    unfolding mode_feed.reads_given s mode_new_gives [OF assms(2,3)] by (simp split: option.split)
  moreover have "?said = map Ok (remdups_adj es)" if "i # watch_items key watch = map Ok es" for es
    using unrepeated_remdups [of es] that by simp
  ultimately show ?thesis using unrepeated_set [of None "i # watch_items key watch"] unrepeated_successively [of None "i # watch_items key watch"] by (intro exI [of _ ?said]) simp
qed

text \<open>
  A feed whose watch says the reading again, then a change and its repetition, then the entry of another key,
  and fails on an entry that is not JSON.
\<close>

definition demo_watch :: "WatchPoll list" where
  "demo_watch =
     [WatchSends [LcProject ''mode'' (Ok ClaimMode), LcProject ''mode'' (Ok PushMode)],
      WatchSends [LcProject ''other'' (Ok ClaimMode), LcProject ''mode'' (Ok PushMode)],
      WatchEnds [] (WatchFailed (FbDecode ''s'' ''x'') (Ok ()))]"

theorem mode_feed_says_changes_witness:
  "\<exists>s e. open_mode_feed ''B'' (Ok ()) (Ok ()) (Ok ()) (Ok ()) ''mode'' (Ok (Some (Ok ClaimMode))) demo_watch = Ok s \<and>
     reads (mode_next ''B'') 5 s = [Ok (ModeEntry ClaimMode), Ok (ModeEntry PushMode), Err (unreadable_payload ''s''), Err e, Err e]"
proof -
  let ?s = "mode_feed_new ''mode'' (Ok (Some (Ok ClaimMode))) demo_watch"
  have o: "open_mode_feed ''B'' (Ok ()) (Ok ()) (Ok ()) (Ok ()) ''mode'' (Ok (Some (Ok ClaimMode))) demo_watch = Ok ?s"
    by (simp add: open_mode_feed_def)
  have i: "first_item (Ok (Some (Ok ClaimMode))) = Some (Ok (ModeEntry ClaimMode))" by (simp add: first_item_def mode_read_def)
  have w: "\<not> ends_at_once demo_watch" by (simp add: demo_watch_def)
  have t: "Ok (ModeEntry ClaimMode) # watch_items ''mode'' demo_watch = map Ok [ModeEntry ClaimMode, ModeEntry ClaimMode, ModeEntry PushMode, ModeEntry PushMode]"
    by (simp add: demo_watch_def sink_items_def sink_item_def mode_read_def List.map_filter_def)
  obtain e where v: "watch_over ''B'' demo_watch = Some ([Err (unreadable_payload ''s'')], e)"
    by (simp add: demo_watch_def watch_left_def)
  from mode_feed_says_changes [OF o i w, of 5] obtain said where
      said: "\<forall>es. Ok (ModeEntry ClaimMode) # watch_items ''mode'' demo_watch = map Ok es \<longrightarrow> said = map Ok (remdups_adj es)"
      and r: "reads (mode_next ''B'') 5 ?s = take 5 (case watch_over ''B'' demo_watch of None \<Rightarrow> said | Some (left, e) \<Rightarrow> said @ left @ replicate 5 (Err e))"
    by (elim exE conjE)
  note said = said [rule_format, OF t]
  have "reads (mode_next ''B'') 5 ?s =
      [Ok (ModeEntry ClaimMode), Ok (ModeEntry PushMode), Err (unreadable_payload ''s''), Err e, Err e]"
    unfolding r v said by (simp add: numeral_eq_Suc)
  with o show ?thesis by blast
qed

end
