(* ===== verification/Runner_Tasks.thy ===== *)
theory Runner_Tasks
  imports Instance_Lookup Slot_Loop Queue_Write Text_Ops
begin

text \<open>
  The life of a runner (\<open>runner.rs\<close>, \<open>spawn.rs\<close>, \<open>supervise.rs\<close>, \<open>presence.rs\<close>, \<open>signals.rs\<close> of the
  toolkit): the settings, the tasks that are started and started again when they panic, the publication of
  the presence with its beats, the shutdown, the drain and the end. The tap, the calls and the observer
  (\<open>tap.rs\<close>, \<open>calls.rs\<close>, \<open>observer.rs\<close>) are what a runner tells to whoever watches it. The bodies of the
  tasks are in \<open>Run_Registry\<close> and \<open>Slot_Loop\<close>; here only their ends matter. The ticks of the timer are
  inputs.
\<close>

section \<open>Errors and settings\<close>

datatype ToolkitCode = TkSettingMissing | TkSettingInvalid | TkJobsFailed | TkNotStarted | TkInstanceEnded | TkSignalsNotListened | TkTaskEnded

record ToolkitError =
  tk_code :: ToolkitCode
  tk_reason :: string

definition toolkit_error :: "ToolkitCode \<Rightarrow> string \<Rightarrow> ToolkitError" where
  "toolkit_error code text = \<lparr>tk_code = code, tk_reason = text\<rparr>"

definition toolkit_jobs :: "Error \<Rightarrow> ToolkitError" where
  "toolkit_jobs e = toolkit_error TkJobsFailed (error_display e)"

record Settings =
  se_runner_version :: string
  se_max_concurrent_runs :: u32
  se_ack_wait :: duration
  se_drain_timeout :: duration
  se_cancel_grace :: duration
  se_claim_wait :: duration
  se_outcome_wait :: duration
  se_retry_wait :: duration

record SettingsBuilder =
  sb_runner_version :: "string option"
  sb_max_concurrent_runs :: "u32 option"
  sb_ack_wait :: "duration option"
  sb_drain_timeout :: "duration option"
  sb_cancel_grace :: "duration option"
  sb_claim_wait :: "duration option"
  sb_outcome_wait :: "duration option"
  sb_retry_wait :: "duration option"

definition settings_builder :: SettingsBuilder where
  "settings_builder =
     \<lparr>sb_runner_version = None, sb_max_concurrent_runs = None, sb_ack_wait = None, sb_drain_timeout = None,
      sb_cancel_grace = None, sb_claim_wait = None, sb_outcome_wait = None, sb_retry_wait = None\<rparr>"

definition set_runner_version :: "string \<Rightarrow> SettingsBuilder \<Rightarrow> SettingsBuilder" where
  "set_runner_version version b = b\<lparr>sb_runner_version := Some version\<rparr>"

definition set_max_concurrent_runs :: "u32 \<Rightarrow> SettingsBuilder \<Rightarrow> SettingsBuilder" where
  "set_max_concurrent_runs n b = b\<lparr>sb_max_concurrent_runs := Some n\<rparr>"

definition set_ack_wait :: "duration \<Rightarrow> SettingsBuilder \<Rightarrow> SettingsBuilder" where
  "set_ack_wait wait b = b\<lparr>sb_ack_wait := Some wait\<rparr>"

definition set_drain_timeout :: "duration \<Rightarrow> SettingsBuilder \<Rightarrow> SettingsBuilder" where
  "set_drain_timeout timeout b = b\<lparr>sb_drain_timeout := Some timeout\<rparr>"

definition set_cancel_grace :: "duration \<Rightarrow> SettingsBuilder \<Rightarrow> SettingsBuilder" where
  "set_cancel_grace grace b = b\<lparr>sb_cancel_grace := Some grace\<rparr>"

definition set_claim_wait :: "duration \<Rightarrow> SettingsBuilder \<Rightarrow> SettingsBuilder" where
  "set_claim_wait wait b = b\<lparr>sb_claim_wait := Some wait\<rparr>"

definition set_outcome_wait :: "duration \<Rightarrow> SettingsBuilder \<Rightarrow> SettingsBuilder" where
  "set_outcome_wait wait b = b\<lparr>sb_outcome_wait := Some wait\<rparr>"

definition set_retry_wait :: "duration \<Rightarrow> SettingsBuilder \<Rightarrow> SettingsBuilder" where
  "set_retry_wait wait b = b\<lparr>sb_retry_wait := Some wait\<rparr>"

definition setting_missing :: "string \<Rightarrow> ToolkitError" where
  "setting_missing name = toolkit_error TkSettingMissing (''the setting '' @ name @ '' is missing'')"

definition setting_invalid :: "string \<Rightarrow> string \<Rightarrow> ToolkitError" where
  "setting_invalid name rule = toolkit_error TkSettingInvalid (''the setting '' @ name @ '' '' @ rule)"

definition required :: "string \<Rightarrow> 'a option \<Rightarrow> ('a, ToolkitError) result" where
  "required name v = (case v of Some x \<Rightarrow> Ok x | None \<Rightarrow> Err (setting_missing name))"

definition nonzero :: "string \<Rightarrow> duration option \<Rightarrow> (duration, ToolkitError) result" where
  "nonzero name v = and_then (required name v) (\<lambda>x. if x = 0 then Err (setting_invalid name ''is zero'') else Ok x)"

definition settings_build :: "SettingsBuilder \<Rightarrow> (Settings, ToolkitError) result" where
  "settings_build b =
     and_then (required ''runner_version'' (sb_runner_version b)) (\<lambda>version.
     and_then (required ''max_concurrent_runs'' (sb_max_concurrent_runs b)) (\<lambda>n.
     if n < 1 then Err (setting_invalid ''max_concurrent_runs'' ''is below 1'') else
     and_then (nonzero ''ack_wait'' (sb_ack_wait b)) (\<lambda>ack.
     and_then (required ''drain_timeout'' (sb_drain_timeout b)) (\<lambda>drain.
     and_then (required ''cancel_grace'' (sb_cancel_grace b)) (\<lambda>grace.
     and_then (nonzero ''claim_wait'' (sb_claim_wait b)) (\<lambda>claim.
     and_then (nonzero ''outcome_wait'' (sb_outcome_wait b)) (\<lambda>outcome.
     and_then (nonzero ''retry_wait'' (sb_retry_wait b)) (\<lambda>retry.
       Ok \<lparr>se_runner_version = version, se_max_concurrent_runs = n, se_ack_wait = ack, se_drain_timeout = drain,
           se_cancel_grace = grace, se_claim_wait = claim, se_outcome_wait = outcome, se_retry_wait = retry\<rparr>))))))))"

text \<open>A builder that says each of the settings of \<open>s\<close>, last.\<close>

definition builder_of :: "Settings \<Rightarrow> SettingsBuilder" where
  "builder_of s =
     set_retry_wait (se_retry_wait s) (set_outcome_wait (se_outcome_wait s) (set_claim_wait (se_claim_wait s)
       (set_cancel_grace (se_cancel_grace s) (set_drain_timeout (se_drain_timeout s) (set_ack_wait (se_ack_wait s)
         (set_max_concurrent_runs (se_max_concurrent_runs s) (set_runner_version (se_runner_version s) settings_builder)))))))"

definition settings_ok :: "Settings \<Rightarrow> bool" where
  "settings_ok s \<longleftrightarrow> se_max_concurrent_runs s \<noteq> 0 \<and> se_ack_wait s \<noteq> 0 \<and> se_claim_wait s \<noteq> 0 \<and> se_outcome_wait s \<noteq> 0 \<and> se_retry_wait s \<noteq> 0"

lemma required_ok: "required name v = Ok x \<longleftrightarrow> v = Some x"
  by (cases v) (simp_all add: required_def)

lemma nonzero_ok: "nonzero name v = Ok x \<longleftrightarrow> v = Some x \<and> x \<noteq> 0"
  by (auto simp: nonzero_def and_then_ok required_ok)

lemma u32_below_1: "(n :: u32) < 1 \<longleftrightarrow> n = 0"
  by (simp add: word_less_1)

lemmas set_defs = set_retry_wait_def set_outcome_wait_def set_claim_wait_def set_cancel_grace_def set_drain_timeout_def set_ack_wait_def
  set_max_concurrent_runs_def set_runner_version_def settings_builder_def

text \<open>Settings are built exactly from a builder that says them all, and then they satisfy the rules.\<close>

lemma settings_build_iff: "settings_build b = Ok s \<longleftrightarrow> b = builder_of s \<and> settings_ok s"
proof
  assume "settings_build b = Ok s"
  then show "b = builder_of s \<and> settings_ok s"
    by (cases b) (auto simp: settings_build_def and_then_ok required_ok nonzero_ok u32_below_1 builder_of_def set_defs settings_ok_def split: if_splits)
next
  assume "b = builder_of s \<and> settings_ok s"
  then show "settings_build b = Ok s"
    by (cases s) (simp add: settings_build_def required_def nonzero_def builder_of_def set_defs settings_ok_def u32_below_1)
qed

section \<open>What is told to who watches\<close>

datatype HostEvent =
    HeQueue QueueReport
  | HeTriggerAcknowledged
  | HeTriggerGivenBack
  | HeClaim uuid
  | HePresencePublished string PresenceStatus u32
  | HePresenceDeleted
  | HeRunLog LogLevel string

definition tap_record :: "HostEvent \<Rightarrow> HostEvent list \<Rightarrow> HostEvent list" where
  "tap_record e events = events @ [e]"

definition tell :: "HostEvent list option \<Rightarrow> HostEvent \<Rightarrow> HostEvent list option" where
  "tell tap e = map_option (tap_record e) tap"

text \<open>The calls of a runner: each tells its event and passes on to the client.\<close>

datatype RunnerCall =
    CallClaim uuid duration
  | CallTriggers duration
  | CallAcknowledge
  | CallGiveBack
  | CallPublishPresence string PresenceStatus Capacity
  | CallDeletePresence
  | CallRunLog LogLevel string "u32 option"

fun call_event :: "RunnerCall \<Rightarrow> HostEvent option" where
  "call_event (CallClaim claim_id _) = Some (HeClaim claim_id)"
| "call_event (CallTriggers _) = None"
| "call_event CallAcknowledge = Some HeTriggerAcknowledged"
| "call_event CallGiveBack = Some HeTriggerGivenBack"
| "call_event (CallPublishPresence version st c) = Some (HePresencePublished version st (capacity_get c))"
| "call_event CallDeletePresence = Some HePresenceDeleted"
| "call_event (CallRunLog level text _) = Some (HeRunLog level text)"

definition call_tap :: "RunnerCall \<Rightarrow> HostEvent list option \<Rightarrow> HostEvent list option" where
  "call_tap c tap = (case call_event c of Some e \<Rightarrow> tell tap e | None \<Rightarrow> tap)"

text \<open>
  The observer of a Run: its reports of ends go to the tap, and all of them to the author's observer, whose
  panic (the value \<open>False\<close>) is caught. The result is the tap and whether the author's observer took it.
\<close>

definition observer_report ::
    "(QueueReport \<Rightarrow> bool) option \<Rightarrow> QueueReport \<Rightarrow> HostEvent list option \<Rightarrow> HostEvent list option \<times> bool option" where
  "observer_report author rep tap =
     ((case rep of Retrying _ _ \<Rightarrow> tap | _ \<Rightarrow> tell tap (HeQueue rep)), map_option (\<lambda>f. f rep) author)"

datatype PanicPayload = PanicStr string | PanicString string | PanicOther

fun panic_text_of :: "PanicPayload \<Rightarrow> string" where
  "panic_text_of (PanicStr t) = t"
| "panic_text_of (PanicString t) = t"
| "panic_text_of PanicOther = ''a panic with no text''"

section \<open>Supervised tasks\<close>

datatype Restarts = AtOnce | AfterBeat

text \<open>
  A task serves (its body runs), or its body panicked and it yields once or waits for a beat after the one it
  saw, or its body returned, or it was aborted.
\<close>

datatype TaskState = TaskServes | TaskYields | TaskWaits nat | TaskReturned | TaskAborted

record SupervisedTask =
  task_name :: string
  task_restart :: Restarts
  task_state :: TaskState

definition supervised :: "string \<Rightarrow> Restarts \<Rightarrow> SupervisedTask" where
  "supervised name restart = \<lparr>task_name = name, task_restart = restart, task_state = TaskServes\<rparr>"

definition task_panicked :: "Runner \<Rightarrow> SupervisedTask \<Rightarrow> SupervisedTask" where
  "task_panicked r t =
     (if task_state t \<noteq> TaskServes then t
      else t\<lparr>task_state := (case task_restart t of AtOnce \<Rightarrow> TaskYields | AfterBeat \<Rightarrow> TaskWaits (beat r))\<rparr>)"

definition task_looks :: "Runner \<Rightarrow> SupervisedTask \<Rightarrow> SupervisedTask" where
  "task_looks r t =
     (case task_state t of
        TaskYields \<Rightarrow> t\<lparr>task_state := TaskServes\<rparr>
      | TaskWaits seen \<Rightarrow> if beat r \<noteq> seen \<or> draining r then t\<lparr>task_state := TaskServes\<rparr> else t
      | _ \<Rightarrow> t)"

definition task_returned :: "SupervisedTask \<Rightarrow> SupervisedTask" where
  "task_returned t = (if task_state t = TaskServes then t\<lparr>task_state := TaskReturned\<rparr> else t)"

definition task_abort :: "SupervisedTask \<Rightarrow> SupervisedTask" where
  "task_abort t = (if task_state t = TaskReturned then t else t\<lparr>task_state := TaskAborted\<rparr>)"

record LoopTasks =
  lt_presence :: SupervisedTask
  lt_mode :: SupervisedTask
  lt_orders :: SupervisedTask
  lt_slots :: "SupervisedTask list"

definition spawn_loop :: "u32 \<Rightarrow> LoopTasks" where
  "spawn_loop slots =
     \<lparr>lt_presence = supervised ''presence'' AtOnce, lt_mode = supervised ''dispatch mode'' AfterBeat,
      lt_orders = supervised ''cancel orders'' AfterBeat, lt_slots = replicate (unat slots) (supervised ''slot'' AfterBeat)\<rparr>"

section \<open>The presence\<close>

definition beat_period :: "duration \<Rightarrow> duration" where
  "beat_period ttl = max (ttl div 3) (10 ^ 6)"

text \<open>
  The loop of the beats. At the top it takes the status it is to publish; the publication begins and ends, or
  the next tick drops it; after its end the loop waits for a tick or for a change of the status.
\<close>

datatype PresencePhase = PlTop | PlPublishing | PlWaiting

record PresenceLoop =
  pl_status :: PresenceStatus
  pl_phase :: PresencePhase

definition presence_top :: "Runner \<Rightarrow> PresenceLoop" where
  "presence_top r = \<lparr>pl_status = status r, pl_phase = PlTop\<rparr>"

text \<open>A turn is over: the beat, and the next turn.\<close>

definition turn_over :: "Runner \<Rightarrow> Runner \<times> PresenceLoop" where
  "turn_over r = (beat_now r, presence_top (beat_now r))"

section \<open>The life of a runner\<close>

datatype LifePhase = LfServing | LfDraining | LfLeaving | LfJoined | LfGone

record Life =
  lf_version :: string
  lf_capacity :: Capacity
  lf_period :: duration
  lf_runner :: Runner
  lf_tasks :: LoopTasks
  lf_presence :: "PresenceLoop option"
  lf_phase :: LifePhase
  lf_told :: "HostEvent list"

text \<open>
  The start: the signals (when they are asked for), the capacity and the time to live of the bucket. Only then
  the lookup is marked as started and the tasks are spawned.
\<close>

definition signals_install :: "bool \<Rightarrow> (unit, string) result \<Rightarrow> (unit, ToolkitError) result" where
  "signals_install asked installed =
     (if asked then map_sum (\<lambda>t. toolkit_error TkSignalsNotListened (''the process signals cannot be listened to: '' @ t)) id installed
      else Ok ())"

definition runner_start ::
    "bool \<Rightarrow> (unit, string) result \<Rightarrow> Settings \<Rightarrow> (duration, Error) result \<Rightarrow> InstanceMap \<Rightarrow> (Life, ToolkitError) result \<times> InstanceMap" where
  "runner_start asked installed settings ttl m =
     (case and_then (signals_install asked installed) (\<lambda>_.
           and_then (map_sum (\<lambda>e. toolkit_error TkSettingInvalid (error_display e)) id (capacity_new (se_max_concurrent_runs settings))) (\<lambda>c.
           and_then (map_sum toolkit_jobs id ttl) (\<lambda>t. Ok (c, t)))) of
        Inl e \<Rightarrow> (Err e, m)
      | Inr (c, t) \<Rightarrow>
          (Ok \<lparr>lf_version = se_runner_version settings, lf_capacity = c, lf_period = beat_period t, lf_runner = runner_new,
               lf_tasks = spawn_loop (se_max_concurrent_runs settings), lf_presence = Some (presence_top runner_new),
               lf_phase = LfServing, lf_told = []\<rparr>, mark_started m))"

definition publish_begins :: "PresenceLoop \<Rightarrow> Life \<Rightarrow> Life" where
  "publish_begins p s =
     s\<lparr>lf_presence := Some (p\<lparr>pl_phase := PlPublishing\<rparr>),
       lf_told := lf_told s @ [HePresencePublished (lf_version s) (pl_status p) (capacity_get (lf_capacity s))]\<rparr>"

definition presence_turned :: "Life \<Rightarrow> Life" where
  "presence_turned s = (let (r, p) = turn_over (lf_runner s) in s\<lparr>lf_runner := r, lf_presence := Some p\<rparr>)"

definition presence_panics :: "Life \<Rightarrow> Life" where
  "presence_panics s =
     s\<lparr>lf_presence := None, lf_tasks := (lf_tasks s)\<lparr>lt_presence := task_panicked (lf_runner s) (lt_presence (lf_tasks s))\<rparr>\<rparr>"

definition presence_restarts :: "Life \<Rightarrow> Life" where
  "presence_restarts s =
     s\<lparr>lf_presence := Some (presence_top (lf_runner s)),
       lf_tasks := (lf_tasks s)\<lparr>lt_presence := task_looks (lf_runner s) (lt_presence (lf_tasks s))\<rparr>\<rparr>"

definition on_feeds :: "(SupervisedTask \<Rightarrow> SupervisedTask) \<Rightarrow> Life \<Rightarrow> Life" where
  "on_feeds f s = s\<lparr>lf_tasks := (lf_tasks s)\<lparr>lt_mode := f (lt_mode (lf_tasks s)), lt_orders := f (lt_orders (lf_tasks s))\<rparr>\<rparr>"

definition on_feed :: "bool \<Rightarrow> (SupervisedTask \<Rightarrow> SupervisedTask) \<Rightarrow> Life \<Rightarrow> Life" where
  "on_feed mode_feed f s =
     s\<lparr>lf_tasks := (if mode_feed then (lf_tasks s)\<lparr>lt_mode := f (lt_mode (lf_tasks s))\<rparr> else (lf_tasks s)\<lparr>lt_orders := f (lt_orders (lf_tasks s))\<rparr>)\<rparr>"

definition on_slot :: "nat \<Rightarrow> (SupervisedTask \<Rightarrow> SupervisedTask) \<Rightarrow> Life \<Rightarrow> Life" where
  "on_slot i f s = s\<lparr>lf_tasks := (lf_tasks s)\<lparr>lt_slots := (lt_slots (lf_tasks s))[i := f (lt_slots (lf_tasks s) ! i)]\<rparr>\<rparr>"

definition slots_abort :: "Life \<Rightarrow> Life" where
  "slots_abort s = s\<lparr>lf_tasks := (lf_tasks s)\<lparr>lt_slots := map task_abort (lt_slots (lf_tasks s))\<rparr>\<rparr>"

definition presence_joined :: "Life \<Rightarrow> Life" where
  "presence_joined s =
     s\<lparr>lf_presence := None, lf_tasks := (lf_tasks s)\<lparr>lt_presence := task_abort (lt_presence (lf_tasks s))\<rparr>, lf_phase := LfJoined\<rparr>"

definition presence_deleted :: "Life \<Rightarrow> Life" where
  "presence_deleted s = s\<lparr>lf_phase := LfGone, lf_told := lf_told s @ [HePresenceDeleted]\<rparr>"

text \<open>
  The steps, one for each look of a task or of \<open>start\<close>. Other tasks write the registry by the steps of
  \<open>runner_step\<close>, except the beat and the drain, which are made here. The body of a slot returns only while the
  runner drains (\<open>slot_turn\<close>), those of the feeds and of the presence never. An abort takes effect at a
  later await, so a task that is aborted may go on until it is joined or has seen it.
\<close>

datatype LifeEvent =
    LePublishBegins | LePublishEnds | LeTick | LeStatusSeen | LePresencePanics | LePresenceRestarts
  | LeFeedPanics bool | LeFeedLooks bool | LeFeedAborted
  | LeSlotPanics nat | LeSlotLooks nat | LeSlotReturns nat
  | LeRegistry RunnerEvent | LeShutdown | LeDrained | LeDrainTimedOut | LeJoined | LeDeleted

inductive life_step :: "Life \<Rightarrow> LifeEvent \<Rightarrow> Life \<Rightarrow> bool" where
  lf_publish_begins: "lf_presence s = Some p \<Longrightarrow> pl_phase p = PlTop \<Longrightarrow> life_step s LePublishBegins (publish_begins p s)"
| lf_publish_ends: "lf_presence s = Some p \<Longrightarrow> pl_phase p = PlPublishing \<Longrightarrow>
    life_step s LePublishEnds (s\<lparr>lf_presence := Some (p\<lparr>pl_phase := PlWaiting\<rparr>)\<rparr>)"
| lf_tick: "lf_presence s = Some p \<Longrightarrow> life_step s LeTick (presence_turned s)"
| lf_status_seen: "lf_presence s = Some p \<Longrightarrow> pl_phase p = PlWaiting \<Longrightarrow> pl_status p \<noteq> status (lf_runner s) \<Longrightarrow>
    life_step s LeStatusSeen (presence_turned s)"
| lf_presence_panics: "lf_presence s = Some p \<Longrightarrow> life_step s LePresencePanics (presence_panics s)"
| lf_presence_restarts: "task_state (lt_presence (lf_tasks s)) = TaskYields \<Longrightarrow> life_step s LePresenceRestarts (presence_restarts s)"
| lf_feed_panics: "life_step s (LeFeedPanics m) (on_feed m (task_panicked (lf_runner s)) s)"
| lf_feed_looks: "life_step s (LeFeedLooks m) (on_feed m (task_looks (lf_runner s)) s)"
| lf_feed_aborted: "lf_phase s = LfJoined \<or> lf_phase s = LfGone \<Longrightarrow> life_step s LeFeedAborted (on_feeds task_abort s)"
| lf_slot_panics: "i < length (lt_slots (lf_tasks s)) \<Longrightarrow> life_step s (LeSlotPanics i) (on_slot i (task_panicked (lf_runner s)) s)"
| lf_slot_looks: "i < length (lt_slots (lf_tasks s)) \<Longrightarrow> life_step s (LeSlotLooks i) (on_slot i (task_looks (lf_runner s)) s)"
| lf_slot_returns: "i < length (lt_slots (lf_tasks s)) \<Longrightarrow> draining (lf_runner s) \<Longrightarrow> life_step s (LeSlotReturns i) (on_slot i task_returned s)"
| lf_registry: "runner_step (lf_runner s) e r \<Longrightarrow> e \<noteq> EBeat \<Longrightarrow> e \<noteq> EDrain \<Longrightarrow> life_step s (LeRegistry e) (s\<lparr>lf_runner := r\<rparr>)"
| lf_shutdown: "lf_phase s = LfServing \<Longrightarrow> life_step s LeShutdown (s\<lparr>lf_runner := begin_drain (lf_runner s), lf_phase := LfDraining\<rparr>)"
| lf_drained: "lf_phase s = LfDraining \<Longrightarrow> (\<And>t. t \<in> set (lt_slots (lf_tasks s)) \<Longrightarrow> task_state t = TaskReturned) \<Longrightarrow>
    life_step s LeDrained (s\<lparr>lf_phase := LfLeaving\<rparr>)"
| lf_timed_out: "lf_phase s = LfDraining \<Longrightarrow> life_step s LeDrainTimedOut ((slots_abort s)\<lparr>lf_phase := LfLeaving\<rparr>)"
| lf_joined: "lf_phase s = LfLeaving \<Longrightarrow> life_step s LeJoined (presence_joined s)"
| lf_deleted: "lf_phase s = LfJoined \<Longrightarrow> life_step s LeDeleted (presence_deleted s)"

definition life_init :: "Life \<Rightarrow> bool" where
  "life_init s \<longleftrightarrow> (\<exists>asked installed settings ttl m. fst (runner_start asked installed settings ttl m) = Ok s)"

abbreviation life_reach :: "Life \<Rightarrow> bool" where
  "life_reach \<equiv> reach life_init life_step"

section \<open>What holds through the life of a runner\<close>

definition said :: "Life \<Rightarrow> PresenceStatus \<Rightarrow> HostEvent" where
  "said s st = HePresencePublished (lf_version s) st (capacity_get (lf_capacity s))"

text \<open>What was told of the presence: ready, then draining, then its end, and nothing after that.\<close>

definition told_in_order :: "Life \<Rightarrow> bool" where
  "told_in_order s \<longleftrightarrow> (\<exists>n m. lf_told s = replicate n (said s StatusReady) @ replicate m (said s StatusDraining) @
       (if lf_phase s = LfGone then [HePresenceDeleted] else []) \<and>
     (m \<noteq> 0 \<longrightarrow> draining (lf_runner s) \<and> (\<forall>p. lf_presence s = Some p \<longrightarrow> pl_status p = StatusDraining)))"

definition presence_inv :: "Life \<Rightarrow> bool" where
  "presence_inv s \<longleftrightarrow>
     status (lf_runner s) = (if draining (lf_runner s) then StatusDraining else StatusReady) \<and>
     (draining (lf_runner s) \<longleftrightarrow> lf_phase s \<noteq> LfServing) \<and>
     (case lf_presence s of
        Some p \<Rightarrow> lf_phase s \<noteq> LfJoined \<and> lf_phase s \<noteq> LfGone \<and> task_state (lt_presence (lf_tasks s)) = TaskServes \<and>
          (pl_status p = StatusReady \<or> pl_status p = StatusDraining \<and> draining (lf_runner s)) \<and>
          (pl_phase p \<noteq> PlTop \<longrightarrow> lf_told s \<noteq> [] \<and> last (lf_told s) = said s (pl_status p))
      | None \<Rightarrow> if lf_phase s = LfJoined \<or> lf_phase s = LfGone then task_state (lt_presence (lf_tasks s)) = TaskAborted
          else task_state (lt_presence (lf_tasks s)) = TaskYields) \<and>
     task_restart (lt_presence (lf_tasks s)) = AtOnce"

definition beat_task_ok :: "Life \<Rightarrow> SupervisedTask \<Rightarrow> bool" where
  "beat_task_ok s t \<longleftrightarrow>
     task_restart t = AfterBeat \<and> task_state t \<noteq> TaskYields \<and> (task_state t = TaskReturned \<longrightarrow> draining (lf_runner s)) \<and>
     (\<forall>seen. task_state t = TaskWaits seen \<longrightarrow> seen \<le> beat (lf_runner s)) \<and>
     (task_state t = TaskAborted \<longrightarrow> lf_phase s \<noteq> LfServing \<and> lf_phase s \<noteq> LfDraining)"

definition tasks_inv :: "Life \<Rightarrow> bool" where
  "tasks_inv s \<longleftrightarrow> length (lt_slots (lf_tasks s)) = unat (capacity_get (lf_capacity s)) \<and> capacity_get (lf_capacity s) \<noteq> 0 \<and>
     (\<forall>t \<in> set (lt_slots (lf_tasks s)) \<union> {lt_mode (lf_tasks s), lt_orders (lf_tasks s)}. beat_task_ok s t)"

definition life_inv :: "Life \<Rightarrow> bool" where
  "life_inv s \<longleftrightarrow> runner_reach (lf_runner s) \<and> presence_inv s \<and> told_in_order s \<and> tasks_inv s"

lemma registry_keeps:
  "runner_step r e r' \<Longrightarrow> e \<noteq> EBeat \<Longrightarrow> e \<noteq> EDrain \<Longrightarrow> status r' = status r \<and> draining r' = draining r \<and> beat r' = beat r"
  by (induction rule: runner_step.induct)
    (auto simp: runner_defs register_run_def on_cancel_event_def Let_def split: option.splits CancelEvent.splits)

lemmas life_ops = publish_begins_def presence_turned_def turn_over_def presence_top_def presence_panics_def presence_restarts_def
  on_feeds_def on_feed_def on_slot_def slots_abort_def presence_joined_def presence_deleted_def

lemma life_step_runner: "life_step s e t \<Longrightarrow> runner_reach (lf_runner s) \<Longrightarrow> runner_reach (lf_runner t)"
proof (induction rule: life_step.induct)
  case (lf_tick s p)
  then show ?case by (auto simp: life_ops Let_def intro: reach_step r_beat)
next
  case (lf_status_seen s p)
  then show ?case by (auto simp: life_ops Let_def intro: reach_step r_beat)
next
  case (lf_registry s e r)
  then show ?case by (auto intro: reach_step)
next
  case (lf_shutdown s)
  then show ?case by (auto intro: reach_step r_drain)
qed (simp_all add: life_ops)

lemma life_step_presence: "life_step s e t \<Longrightarrow> presence_inv s \<Longrightarrow> presence_inv t"
proof (induction rule: life_step.induct)
  case (lf_registry s e r)
  then show ?case using registry_keeps [of "lf_runner s" e r] by (auto simp: presence_inv_def said_def split: option.splits)
next
  case (lf_shutdown s)
  then show ?case by (auto simp: presence_inv_def said_def begin_drain_def split: option.splits)
qed (auto simp: presence_inv_def said_def life_ops Let_def beat_now_def task_panicked_def task_looks_def task_abort_def split: option.splits if_splits)

lemma told_keep:
  assumes "told_in_order s" and "lf_told t = lf_told s" and "said t = said s" and "lf_phase t = LfGone \<longleftrightarrow> lf_phase s = LfGone"
    and "draining (lf_runner s) \<Longrightarrow> draining (lf_runner t)"
    and "\<And>p. lf_presence t = Some p \<Longrightarrow>
      pl_status p = StatusDraining \<or> \<not> draining (lf_runner s) \<or> (\<exists>q. lf_presence s = Some q \<and> pl_status q = pl_status p)"
  shows "told_in_order t"
proof -
  from assms(1) obtain n m where t: "lf_told s = replicate n (said s StatusReady) @ replicate m (said s StatusDraining) @
       (if lf_phase s = LfGone then [HePresenceDeleted] else [])"
    and m: "m \<noteq> 0 \<longrightarrow> draining (lf_runner s) \<and> (\<forall>p. lf_presence s = Some p \<longrightarrow> pl_status p = StatusDraining)"
    unfolding told_in_order_def by blast
  have "m \<noteq> 0 \<longrightarrow> draining (lf_runner t) \<and> (\<forall>p. lf_presence t = Some p \<longrightarrow> pl_status p = StatusDraining)"
    using m assms(5,6) by metis
  with t assms(2,3,4) show ?thesis unfolding told_in_order_def by (intro exI [of _ n] exI [of _ m]) simp
qed

lemma said_eq: "lf_version t = lf_version s \<Longrightarrow> lf_capacity t = lf_capacity s \<Longrightarrow> said t = said s"
  by (simp add: said_def fun_eq_iff)

lemma told_tasks: "told_in_order (s\<lparr>lf_tasks := x\<rparr>) = told_in_order s"
  by (simp add: told_in_order_def said_def)

lemma life_step_told: "life_step s e t \<Longrightarrow> presence_inv s \<Longrightarrow> told_in_order s \<Longrightarrow> told_in_order t"
proof (induction rule: life_step.induct)
  case (lf_publish_begins s p)
  then obtain n m where t: "lf_told s = replicate n (said s StatusReady) @ replicate m (said s StatusDraining)"
      "m \<noteq> 0 \<longrightarrow> draining (lf_runner s) \<and> pl_status p = StatusDraining" and g: "lf_phase s \<noteq> LfGone"
    by (auto simp: told_in_order_def presence_inv_def)
  show ?case
  proof (cases "pl_status p")
    case StatusReady
    with t have "lf_told (publish_begins p s) = replicate (Suc n) (said s StatusReady) @ replicate 0 (said s StatusDraining)"
      by (simp add: publish_begins_def said_def replicate_app_Cons_same)
    with g show ?thesis unfolding told_in_order_def
      by (intro exI [of _ "Suc n"] exI [of _ "0::nat"]) (simp add: publish_begins_def said_def)
  next
    case StatusDraining
    with t have "lf_told (publish_begins p s) = replicate n (said s StatusReady) @ replicate (Suc m) (said s StatusDraining)"
      by (simp add: publish_begins_def said_def replicate_app_Cons_same)
    with g StatusDraining lf_publish_begins show ?thesis unfolding told_in_order_def
      by (intro exI [of _ n] exI [of _ "Suc m"]) (auto simp: publish_begins_def said_def presence_inv_def)
  qed
next
  case (lf_deleted s)
  then have "lf_presence s = None" "draining (lf_runner s)" by (auto simp: presence_inv_def split: option.splits)
  moreover from lf_deleted obtain n m where "lf_told s = replicate n (said s StatusReady) @ replicate m (said s StatusDraining)"
    by (auto simp: told_in_order_def)
  ultimately show ?case unfolding told_in_order_def
    by (intro exI [of _ n] exI [of _ m]) (simp add: presence_deleted_def said_def)
next
  case (lf_registry s e r)
  show ?case by (rule told_keep [of s]) (use lf_registry registry_keeps [of "lf_runner s" e r] in \<open>auto intro: said_eq\<close>)
next
  case (lf_tick s p)
  show ?case by (rule told_keep [of s]) (use lf_tick in \<open>auto simp: presence_inv_def life_ops Let_def beat_now_def intro: said_eq split: option.splits\<close>)
next
  case (lf_status_seen s p)
  show ?case by (rule told_keep [of s]) (use lf_status_seen in \<open>auto simp: presence_inv_def life_ops Let_def beat_now_def intro: said_eq split: option.splits\<close>)
next
  case (lf_publish_ends s p)
  show ?case by (rule told_keep [of s]) (use lf_publish_ends in \<open>auto intro: said_eq\<close>)
next
  case (lf_presence_panics s p)
  show ?case by (rule told_keep [of s]) (use lf_presence_panics in \<open>auto simp: life_ops intro: said_eq\<close>)
next
  case (lf_presence_restarts s)
  show ?case by (rule told_keep [of s]) (use lf_presence_restarts in \<open>auto simp: presence_inv_def life_ops intro: said_eq split: option.splits\<close>)
next
  case (lf_shutdown s)
  show ?case by (rule told_keep [of s]) (use lf_shutdown in \<open>auto simp: begin_drain_def intro: said_eq\<close>)
next
  case (lf_drained s)
  show ?case by (rule told_keep [of s]) (use lf_drained in \<open>auto intro: said_eq\<close>)
next
  case (lf_timed_out s)
  show ?case by (rule told_keep [of s]) (use lf_timed_out in \<open>auto simp: life_ops intro: said_eq\<close>)
next
  case (lf_joined s)
  show ?case by (rule told_keep [of s]) (use lf_joined in \<open>auto simp: life_ops intro: said_eq\<close>)
qed (simp_all add: told_tasks life_ops)

lemma beat_task_keep:
  assumes "beat_task_ok s t" and "draining (lf_runner s) \<Longrightarrow> draining (lf_runner s')" and "beat (lf_runner s) \<le> beat (lf_runner s')"
    and "lf_phase s' = LfServing \<or> lf_phase s' = LfDraining \<Longrightarrow> lf_phase s = LfServing \<or> lf_phase s = LfDraining"
  shows "beat_task_ok s' t"
  using assms by (fastforce simp: beat_task_ok_def)

lemma beat_task_ops:
  "beat_task_ok s t \<Longrightarrow> beat_task_ok s (task_panicked (lf_runner s) t)"
  "beat_task_ok s t \<Longrightarrow> beat_task_ok s (task_looks (lf_runner s) t)"
  "beat_task_ok s t \<Longrightarrow> draining (lf_runner s) \<Longrightarrow> beat_task_ok s (task_returned t)"
  "beat_task_ok s t \<Longrightarrow> lf_phase s \<noteq> LfServing \<Longrightarrow> lf_phase s \<noteq> LfDraining \<Longrightarrow> beat_task_ok s (task_abort t)"
  by (auto simp: beat_task_ok_def task_panicked_def task_looks_def task_returned_def task_abort_def split: TaskState.split)

lemma tasks_inv_keep:
  assumes "tasks_inv s" and "lf_capacity s' = lf_capacity s"
    and "length (lt_slots (lf_tasks s')) = length (lt_slots (lf_tasks s))"
    and "\<And>t. t \<in> set (lt_slots (lf_tasks s')) \<union> {lt_mode (lf_tasks s'), lt_orders (lf_tasks s')} \<Longrightarrow> beat_task_ok s' t"
  shows "tasks_inv s'"
  using assms by (simp add: tasks_inv_def)

lemma beat_task_same: "beat_task_ok (s\<lparr>lf_tasks := x\<rparr>) t = beat_task_ok s t"
  by (simp add: beat_task_ok_def)

lemma tasks_same:
  assumes "tasks_inv s" and "lf_tasks s' = lf_tasks s" and "lf_capacity s' = lf_capacity s"
    and "draining (lf_runner s) \<Longrightarrow> draining (lf_runner s')" and "beat (lf_runner s) \<le> beat (lf_runner s')"
    and "lf_phase s' = LfServing \<or> lf_phase s' = LfDraining \<Longrightarrow> lf_phase s = LfServing \<or> lf_phase s = LfDraining"
  shows "tasks_inv s'"
  by (rule tasks_inv_keep [OF assms(1,3)]) (use assms in \<open>auto simp: tasks_inv_def intro: beat_task_keep [OF _ assms(4,5,6)]\<close>)

lemma on_slot_tasks:
  assumes "tasks_inv s" and "\<And>t. beat_task_ok s t \<Longrightarrow> beat_task_ok s (f t)" and "i < length (lt_slots (lf_tasks s))"
  shows "tasks_inv (on_slot i f s)"
  by (rule tasks_inv_keep [OF assms(1)])
    (use assms in \<open>auto simp: on_slot_def beat_task_same tasks_inv_def dest!: subsetD [OF set_update_subset_insert] intro!: assms(2)\<close>)

lemma on_feed_tasks: "tasks_inv s \<Longrightarrow> (\<And>t. beat_task_ok s t \<Longrightarrow> beat_task_ok s (f t)) \<Longrightarrow> tasks_inv (on_feed m f s)"
  by (auto simp: tasks_inv_def on_feed_def beat_task_same)

lemma life_step_tasks: "life_step s e t \<Longrightarrow> tasks_inv s \<Longrightarrow> tasks_inv t"
proof (induction rule: life_step.induct)
  case (lf_registry s e r)
  show ?case by (rule tasks_same [of s]) (use lf_registry registry_keeps [of "lf_runner s" e r] in simp_all)
next
  case (lf_timed_out s)
  then have k: "beat_task_ok (s\<lparr>lf_phase := LfLeaving\<rparr>) t"
    if "t \<in> set (lt_slots (lf_tasks s)) \<union> {lt_mode (lf_tasks s), lt_orders (lf_tasks s)}" for t
    using that by (auto simp: tasks_inv_def intro: beat_task_keep [of s])
  have "beat_task_ok (s\<lparr>lf_phase := LfLeaving\<rparr>) (task_abort t)" if "t \<in> set (lt_slots (lf_tasks s))" for t
    using that k by (intro beat_task_ops(4)) auto
  with lf_timed_out k show ?case by (auto simp: tasks_inv_def slots_abort_def beat_task_ok_def)
next
  case (lf_slot_panics i s)
  then show ?case by (intro on_slot_tasks beat_task_ops)
next
  case (lf_slot_looks i s)
  then show ?case by (intro on_slot_tasks beat_task_ops)
next
  case (lf_slot_returns i s)
  then show ?case by (intro on_slot_tasks beat_task_ops)
next
  case (lf_feed_panics s m)
  then show ?case by (intro on_feed_tasks beat_task_ops)
next
  case (lf_feed_looks s m)
  then show ?case by (intro on_feed_tasks beat_task_ops)
next
  case (lf_feed_aborted s)
  then have "beat_task_ok s (task_abort t)" if "beat_task_ok s t" for t using that by (intro beat_task_ops) auto
  with lf_feed_aborted show ?case by (auto simp: tasks_inv_def on_feeds_def beat_task_same)
next
  case (lf_presence_panics s p)
  then show ?case by (auto simp: tasks_inv_def presence_panics_def beat_task_ok_def)
next
  case (lf_presence_restarts s)
  then show ?case by (auto simp: tasks_inv_def presence_restarts_def beat_task_ok_def)
next
  case (lf_joined s)
  then show ?case by (auto simp: tasks_inv_def presence_joined_def beat_task_ok_def)
next
  case (lf_tick s p)
  show ?case by (rule tasks_same [of s]) (use lf_tick in \<open>auto simp: life_ops beat_now_def Let_def\<close>)
next
  case (lf_status_seen s p)
  show ?case by (rule tasks_same [of s]) (use lf_status_seen in \<open>auto simp: life_ops beat_now_def Let_def\<close>)
next
  case (lf_publish_begins s p)
  show ?case by (rule tasks_same [of s]) (use lf_publish_begins in \<open>auto simp: life_ops\<close>)
next
  case (lf_publish_ends s p)
  show ?case by (rule tasks_same [of s]) (use lf_publish_ends in \<open>auto\<close>)
next
  case (lf_shutdown s)
  show ?case by (rule tasks_same [of s]) (use lf_shutdown in \<open>auto simp: begin_drain_def\<close>)
next
  case (lf_drained s)
  show ?case by (rule tasks_same [of s]) (use lf_drained in \<open>auto\<close>)
next
  case (lf_deleted s)
  show ?case by (rule tasks_same [of s]) (use lf_deleted in \<open>auto simp: life_ops\<close>)
qed

lemma runner_start_ok:
  "fst (runner_start asked installed settings ttl m) = Ok s \<longleftrightarrow>
     (asked \<longrightarrow> installed = Ok ()) \<and> se_max_concurrent_runs settings \<noteq> 0 \<and> (\<exists>t. ttl = Ok t \<and>
       s = \<lparr>lf_version = se_runner_version settings, lf_capacity = Capacity (se_max_concurrent_runs settings), lf_period = beat_period t,
            lf_runner = runner_new, lf_tasks = spawn_loop (se_max_concurrent_runs settings), lf_presence = Some (presence_top runner_new),
            lf_phase = LfServing, lf_told = []\<rparr>)"
  by (cases installed; cases ttl; cases asked; cases "se_max_concurrent_runs settings = 0")
    (auto simp: runner_start_def signals_install_def capacity_new_def)

lemma life_init_inv: "life_init s \<Longrightarrow> life_inv s"
  by (auto simp: life_init_def runner_start_ok life_inv_def presence_inv_def told_in_order_def tasks_inv_def beat_task_ok_def spawn_loop_def
      supervised_def presence_top_def runner_new_def intro: reach_init)

interpretation life: invariant_system life_init life_step life_inv
proof
  show "life_inv s" if "life_init s" for s using that by (rule life_init_inv)
  show "life_inv t" if "life_step s e t" "life_inv s" for s e t
    using that life_step_runner life_step_presence life_step_told life_step_tasks unfolding life_inv_def by blast
qed

text \<open>
  C7: a runner that was started keeps what it has to keep, whatever panics and in whatever order its tasks go
  on. What it says of its presence is ready, then draining once the shutdown came, then its end, and nothing
  after that end. A publication that ended said the present status, or the loop sees the change and says
  it; a presence whose loop panicked is started again at once. There are as many slots as the capacity says,
  each of which serves or waits for a beat it has not seen, at which it serves again; it is gone only when the
  runner drains. And its registry is one that the registry's own steps reach.
\<close>
theorem runner_life_kept:
  assumes "life_reach s"
  shows "(\<exists>n m. lf_told s = replicate n (said s StatusReady) @ replicate m (said s StatusDraining) @
        (if lf_phase s = LfGone then [HePresenceDeleted] else []) \<and> (m \<noteq> 0 \<longrightarrow> draining (lf_runner s))) \<and>
    (\<forall>p. lf_presence s = Some p \<and> pl_phase p = PlWaiting \<longrightarrow>
       last (lf_told s) = said s (status (lf_runner s)) \<or> life_step s LeStatusSeen (presence_turned s)) \<and>
    (lf_presence s = None \<and> lf_phase s \<noteq> LfJoined \<and> lf_phase s \<noteq> LfGone \<longrightarrow> life_step s LePresenceRestarts (presence_restarts s)) \<and>
    length (lt_slots (lf_tasks s)) = unat (capacity_get (lf_capacity s)) \<and>
    (\<forall>t \<in> set (lt_slots (lf_tasks s)). draining (lf_runner s) \<or> task_state t = TaskServes \<or>
       (\<exists>seen. task_state t = TaskWaits seen \<and> seen \<le> beat (lf_runner s) \<and>
          (seen < beat (lf_runner s) \<longrightarrow> task_state (task_looks (lf_runner s) t) = TaskServes))) \<and>
    runner_reach (lf_runner s)"
proof -
  have inv: "runner_reach (lf_runner s)" "presence_inv s" "told_in_order s" "tasks_inv s"
    using life.inv_reach [OF assms] by (simp_all add: life_inv_def)
  have w: "last (lf_told s) = said s (status (lf_runner s)) \<or> life_step s LeStatusSeen (presence_turned s)"
    if "lf_presence s = Some p" "pl_phase p = PlWaiting" for p
    using that inv(2) lf_status_seen [of s p] by (cases "pl_status p = status (lf_runner s)") (auto simp: presence_inv_def)
  have r: "life_step s LePresenceRestarts (presence_restarts s)"
    if "lf_presence s = None" "lf_phase s \<noteq> LfJoined" "lf_phase s \<noteq> LfGone"
    using that inv(2) by (intro lf_presence_restarts) (simp add: presence_inv_def)
  have t: "draining (lf_runner s) \<or> task_state t = TaskServes \<or>
       (\<exists>seen. task_state t = TaskWaits seen \<and> seen \<le> beat (lf_runner s) \<and>
          (seen < beat (lf_runner s) \<longrightarrow> task_state (task_looks (lf_runner s) t) = TaskServes))"
    if "t \<in> set (lt_slots (lf_tasks s))" for t
    using that inv(2,4) by (cases "task_state t") (auto simp: tasks_inv_def beat_task_ok_def presence_inv_def task_looks_def)
  from inv(3) have told: "\<exists>n m. lf_told s = replicate n (said s StatusReady) @ replicate m (said s StatusDraining) @
        (if lf_phase s = LfGone then [HePresenceDeleted] else []) \<and> (m \<noteq> 0 \<longrightarrow> draining (lf_runner s))"
    unfolding told_in_order_def by blast
  show ?thesis using told w r t inv(1,4) unfolding tasks_inv_def by blast
qed

definition demo_runner_settings :: Settings where
  "demo_runner_settings = \<lparr>se_runner_version = ''1'', se_max_concurrent_runs = 2, se_ack_wait = 1, se_drain_timeout = 1, se_cancel_grace = 1,
     se_claim_wait = 1, se_outcome_wait = 1, se_retry_wait = 1\<rparr>"

definition demo_life :: Life where
  "demo_life = \<lparr>lf_version = ''1'', lf_capacity = Capacity 2, lf_period = beat_period 9, lf_runner = runner_new, lf_tasks = spawn_loop 2,
     lf_presence = Some (presence_top runner_new), lf_phase = LfServing, lf_told = []\<rparr>"

theorem runner_life_kept_witness:
  "\<exists>s. life_reach s \<and> lf_phase s = LfDraining \<and> task_state (lt_slots (lf_tasks s) ! 0) = TaskWaits 0 \<and>
     lf_told s = [HePresencePublished ''1'' StatusReady 2] \<and> length (lt_slots (lf_tasks s)) = 2 \<and> life_step s LeStatusSeen (presence_turned s)"
proof -
  let ?p = "presence_top runner_new"
  let ?s1 = "publish_begins ?p demo_life"
  let ?s2 = "?s1\<lparr>lf_presence := Some (?p\<lparr>pl_phase := PlPublishing, pl_phase := PlWaiting\<rparr>)\<rparr>"
  let ?s3 = "on_slot 0 (task_panicked (lf_runner ?s2)) ?s2"
  let ?s = "?s3\<lparr>lf_runner := begin_drain (lf_runner ?s3), lf_phase := LfDraining\<rparr>"
  have "life_init demo_life" unfolding life_init_def
    by (rule exI [of _ False], rule exI [of _ "Ok ()"], rule exI [of _ demo_runner_settings], rule exI [of _ "Ok 9"])
      (simp add: runner_start_ok demo_runner_settings_def demo_life_def)
  then have "life_reach demo_life" by (rule reach_init)
  moreover have "life_step demo_life LePublishBegins ?s1"
    by (rule lf_publish_begins) (simp_all add: demo_life_def presence_top_def)
  moreover have "life_step ?s1 LePublishEnds ?s2" by (rule lf_publish_ends) (simp_all add: publish_begins_def)
  moreover have "life_step ?s2 (LeSlotPanics 0) ?s3"
    by (rule lf_slot_panics) (simp add: publish_begins_def demo_life_def spawn_loop_def)
  moreover have "life_step ?s3 LeShutdown ?s" by (rule lf_shutdown) (simp add: on_slot_def publish_begins_def demo_life_def)
  ultimately have r: "life_reach ?s" by (blast intro: reach_step)
  have t: "lf_told ?s = [HePresencePublished ''1'' StatusReady 2]" "lf_phase ?s = LfDraining" "task_state (lt_slots (lf_tasks ?s) ! 0) = TaskWaits 0"
    "lf_presence ?s = Some (?p\<lparr>pl_phase := PlPublishing, pl_phase := PlWaiting\<rparr>)" "lf_version ?s = ''1''" "lf_capacity ?s = Capacity 2"
    "status (lf_runner ?s) = StatusDraining"
    by (simp_all add: on_slot_def publish_begins_def demo_life_def spawn_loop_def presence_top_def task_panicked_def supervised_def
        runner_new_def begin_drain_def)
  from runner_life_kept [OF r] t have "length (lt_slots (lf_tasks ?s)) = 2" "life_step ?s LeStatusSeen (presence_turned ?s)"
    by (auto simp: said_def)
  with r t show ?thesis by blast
qed

end
