(* ===== verification/Slot_Triggers.thy ===== *)
theory Slot_Triggers
  imports Transport_Feeds Runner_Tasks
begin

text \<open>
  How the slots of a runner share one feed of triggers (\<open>next_trigger\<close> of \<open>slot.rs\<close> and the state behind its
  lock in \<open>shared.rs\<close>), over the feed of the jobs crate (\<open>Transport_Feeds\<close>). The lock is held from the look at the
  feed to the result of its read, so a turn of the loop is one step; what opening a feed gives is an input.
\<close>

section \<open>One turn of the loop\<close>

record TriggerFeedState =
  tg_feed :: "TriggerFeed option"
  tg_closed_at_beat :: "nat option"

definition trigger_feed_closed :: "nat \<Rightarrow> TriggerFeedState" where
  "trigger_feed_closed now = \<lparr>tg_feed = None, tg_closed_at_beat = Some now\<rparr>"

text \<open>A turn waits for the next beat, goes on at once, gives a work with its delivery, or waits in the read.\<close>

datatype 'p NextTrigger = NtBeat | NtAgain | NtWork "'p Parsed" nat | NtWaits

definition trigger_read_turn ::
    "SurfaceLib \<Rightarrow> 'p TriggerSerde \<Rightarrow> string \<Rightarrow> nat \<Rightarrow> TriggerFeed \<Rightarrow> TriggerFeedState \<Rightarrow> 'p NextTrigger \<times> TriggerFeedState" where
  "trigger_read_turn lib serde stream now f st =
     (case trigger_feed_read lib serde stream f of
        (None, f1) \<Rightarrow> (NtWaits, st\<lparr>tg_feed := Some f1\<rparr>)
      | (Some (Inr (w, d)), f1) \<Rightarrow> (NtWork w d, st\<lparr>tg_feed := Some f1\<rparr>)
      | (Some (Inl u), f1) \<Rightarrow>
          (case unreadable_error u of
             Unreadable _ \<Rightarrow> (NtAgain, st\<lparr>tg_feed := Some f1\<rparr>)
           | _ \<Rightarrow> (NtBeat, trigger_feed_closed now)))"

text \<open>The second component says whether a feed was asked for.\<close>

definition next_trigger_turn ::
    "SurfaceLib \<Rightarrow> 'p TriggerSerde \<Rightarrow> string \<Rightarrow> (TriggerFeed, Error) result \<Rightarrow> nat \<Rightarrow> TriggerFeedState \<Rightarrow>
     'p NextTrigger \<times> bool \<times> TriggerFeedState" where
  "next_trigger_turn lib serde stream opened now st =
     (case tg_feed st of
        Some f \<Rightarrow> (case trigger_read_turn lib serde stream now f st of (r, st1) \<Rightarrow> (r, False, st1))
      | None \<Rightarrow>
          if tg_closed_at_beat st = Some now then (NtBeat, False, st)
          else (case opened of
                  Inl e \<Rightarrow> (NtBeat, True, st\<lparr>tg_closed_at_beat := Some now\<rparr>)
                | Inr f \<Rightarrow>
                    (case trigger_read_turn lib serde stream now f \<lparr>tg_feed = Some f, tg_closed_at_beat = None\<rparr> of
                       (r, st1) \<Rightarrow> (r, True, st1))))"

text \<open>The end of the drain drops the feed.\<close>

definition drop_trigger_feed :: "TriggerFeedState \<Rightarrow> TriggerFeedState" where
  "drop_trigger_feed st = st\<lparr>tg_feed := None\<rparr>"

section \<open>The slots over the beats\<close>

text \<open>With the beats at which a feed was asked for and the deliveries of the works that were given, as histories.\<close>

record SlotTriggers =
  sg_state :: TriggerFeedState
  sg_beat :: nat
  sg_asked :: "nat list"
  sg_given :: "nat list"

definition slot_triggers_new :: SlotTriggers where
  "slot_triggers_new = \<lparr>sg_state = \<lparr>tg_feed = None, tg_closed_at_beat = None\<rparr>, sg_beat = 0, sg_asked = [], sg_given = []\<rparr>"

definition slot_looks ::
    "SurfaceLib \<Rightarrow> 'p TriggerSerde \<Rightarrow> string \<Rightarrow> (TriggerFeed, Error) result \<Rightarrow> SlotTriggers \<Rightarrow> 'p NextTrigger \<times> SlotTriggers" where
  "slot_looks lib serde stream opened s =
     (case next_trigger_turn lib serde stream opened (sg_beat s) (sg_state s) of
        (r, asked, st) \<Rightarrow> (r, s\<lparr>sg_state := st, sg_asked := sg_asked s @ (if asked then [sg_beat s] else []),
          sg_given := sg_given s @ (case r of NtWork _ d \<Rightarrow> [d] | _ \<Rightarrow> [])\<rparr>))"

datatype SlotTriggerEvent = StLooks "(TriggerFeed, Error) result" | StBeat

inductive trigger_step :: "SurfaceLib \<Rightarrow> 'p TriggerSerde \<Rightarrow> string \<Rightarrow> SlotTriggers \<Rightarrow> SlotTriggerEvent \<Rightarrow> SlotTriggers \<Rightarrow> bool"
  for lib and serde and stream where
  sg_looks: "trigger_step lib serde stream s (StLooks opened) (snd (slot_looks lib serde stream opened s))"
| sg_beats: "trigger_step lib serde stream s StBeat (s\<lparr>sg_beat := sg_beat s + 1\<rparr>)"

definition slot_triggers_inv :: "SlotTriggers \<Rightarrow> bool" where
  "slot_triggers_inv s \<longleftrightarrow>
     sorted_wrt (<) (sg_asked s) \<and> (\<forall>b \<in> set (sg_asked s). b \<le> sg_beat s) \<and>
     (tg_feed (sg_state s) = None \<longrightarrow>
        (case tg_closed_at_beat (sg_state s) of None \<Rightarrow> sg_asked s = [] | Some c \<Rightarrow> c \<le> sg_beat s \<and> (\<forall>b \<in> set (sg_asked s). b \<le> c)))"

lemma read_turn_cases:
  "trigger_read_turn lib serde stream now f st = (r, st1) \<Longrightarrow> tg_feed st1 \<noteq> None \<or> tg_closed_at_beat st1 = Some now"
  by (auto simp: trigger_read_turn_def trigger_feed_closed_def split: prod.splits option.splits sum.splits Error.splits)

lemma next_turn_cases:
  assumes "next_trigger_turn lib serde stream opened now st = (r, asked, st1)"
  shows "(asked \<longrightarrow> tg_feed st = None \<and> tg_closed_at_beat st \<noteq> Some now) \<and>
    (tg_feed st1 \<noteq> None \<or> tg_closed_at_beat st1 = Some now)"
  using assms by (auto simp: next_trigger_turn_def split: option.splits if_splits sum.splits prod.splits dest: read_turn_cases)

lemma slot_triggers_step: "trigger_step lib serde stream s e t \<Longrightarrow> slot_triggers_inv s \<Longrightarrow> slot_triggers_inv t"
proof (induction rule: trigger_step.induct)
  case (sg_looks s opened)
  obtain r asked st where t: "next_trigger_turn lib serde stream opened (sg_beat s) (sg_state s) = (r, asked, st)"
    by (cases "next_trigger_turn lib serde stream opened (sg_beat s) (sg_state s)")
  note c = next_turn_cases [OF t]
  have old: "b < sg_beat s" if "asked" "b \<in> set (sg_asked s)" for b
    using that c sg_looks by (cases "tg_closed_at_beat (sg_state s)") (fastforce simp: slot_triggers_inv_def)+
  show ?case using c sg_looks old
    by (auto simp: slot_triggers_inv_def slot_looks_def t sorted_wrt_append split: option.splits)
next
  case (sg_beats s)
  then show ?case by (fastforce simp: slot_triggers_inv_def split: option.splits)
qed

abbreviation slot_triggers_reach :: "SurfaceLib \<Rightarrow> 'p TriggerSerde \<Rightarrow> string \<Rightarrow> SlotTriggers \<Rightarrow> bool" where
  "slot_triggers_reach lib serde stream \<equiv> reach (\<lambda>s. s = slot_triggers_new) (trigger_step lib serde stream)"

interpretation slot_triggers: invariant_system "\<lambda>s. s = slot_triggers_new" "trigger_step lib serde stream" slot_triggers_inv
proof
  show "slot_triggers_inv s" if "s = slot_triggers_new" for s
    using that by (simp add: slot_triggers_inv_def slot_triggers_new_def)
  show "slot_triggers_inv t" if "trigger_step lib serde stream s e t" "slot_triggers_inv s" for s e t
    using that by (rule slot_triggers_step)
qed

lemma strictly_sorted_bound: "sorted_wrt (<) xs \<Longrightarrow> (\<forall>x \<in> set xs. x \<le> n) \<Longrightarrow> length xs \<le> Suc (n :: nat)"
proof -
  assume s: "sorted_wrt (<) xs" and b: "\<forall>x \<in> set xs. x \<le> n"
  from b have "set xs \<subseteq> {..n}" by auto
  then have "card (set xs) \<le> card {..n}" by (intro card_mono) simp_all
  with s show ?thesis by (simp add: distinct_card strict_sorted_iff)
qed



end
