(* ===== verification/Work_Handles.thy ===== *)
theory Work_Handles
  imports Transport_Feeds Agent_Book Graphql Runner_Tasks Queue_System
begin

text \<open>
  What a Run holds in its hands: the Work of the jobs crate (\<open>work/mod.rs\<close>, \<open>work/handles.rs\<close>), its mail
  handle (\<open>mail/mod.rs\<close>) and the context that the toolkit gives to the author (\<open>context.rs\<close>). A Work of a trigger
  keeps the delivery it came with; its queue and its book are made once; a context refuses its writes when
  the Run has ended and its queue and book are gone.
\<close>

section \<open>The Work\<close>

record 'p Work =
  wk_core :: WorkCore
  wk_queue_made :: bool
  wk_book_made :: bool
  wk_parsed :: "'p Parsed"
  wk_delivery :: "nat option"

definition work_from_value :: "'p TriggerSerde \<Rightarrow> json \<Rightarrow> ('p Work, UnreadableTrigger) result" where
  "work_from_value serde v =
     map_sum id (\<lambda>p. \<lparr>wk_core = work_core p, wk_queue_made = False, wk_book_made = False, wk_parsed = p, wk_delivery = None\<rparr>)
       (parse_trigger serde v)"

definition with_delivery :: "nat \<Rightarrow> 'p Work \<Rightarrow> 'p Work" where
  "with_delivery d w = w\<lparr>wk_delivery := Some d\<rparr>"

definition work_delivery :: "'p Work \<Rightarrow> (nat, Error) result" where
  "work_delivery w =
     (case wk_delivery w of
        Some d \<Rightarrow> Ok d
      | None \<Rightarrow> Err (InvalidInput ''this Work came from a claim, it has no trigger''))"

text \<open>\<open>ack\<close>, \<open>give_back\<close> and \<open>terminate\<close>: the result and what was sent to the trigger stream.\<close>

definition work_settle ::
    "SettleKind \<Rightarrow> (unit, ErrorChain) result \<Rightarrow> 'p Work \<Rightarrow> (unit, Error) result \<times> (nat \<times> SettleKind) list" where
  "work_settle kind answer w =
     (case work_delivery w of
        Inl e \<Rightarrow> (Err e, [])
      | Inr d \<Rightarrow> (trigger_settle kind answer, [(d, kind)]))"

definition cancel_own_job :: "uuid \<Rightarrow> 'p Work \<Rightarrow> ChildCommand" where
  "cancel_own_job command w = CmdCancel command (core_job_id (wk_core w)) (core_run_id (wk_core w))"

definition work_log :: "LogLevel \<Rightarrow> string \<Rightarrow> u32 option \<Rightarrow> uuid option \<Rightarrow> datetime \<Rightarrow> 'p Work \<Rightarrow> LogRecord" where
  "work_log level text index given now w =
     \<lparr>log_id = given, log_run_id = core_run_id (wk_core w), log_step_index = index, log_level = level, log_message = text, logged_at = now\<rparr>"

text \<open>The settings are checked before the queue counts as made.\<close>

definition work_delivery_queue ::
    "QueueSettings \<Rightarrow> bool \<Rightarrow> instant \<Rightarrow> 'p Work \<Rightarrow> (WriteEnd \<times> Shared, Error) result \<times> 'p Work" where
  "work_delivery_queue settings runtime now w =
     (case queue_check settings runtime of
        Inl e \<Rightarrow> (Err e, w)
      | Inr _ \<Rightarrow>
          (case claim_once (wk_queue_made w) ''delivery queue'' of
             (made, flag) \<Rightarrow>
               (and_then made (\<lambda>_. queue_start settings runtime (core_run_id (wk_core w)) now), w\<lparr>wk_queue_made := flag\<rparr>)))"

section \<open>The mail handle\<close>

definition mail_unread :: "WireLib \<Rightarrow> string \<Rightarrow> uuid \<Rightarrow> WorkCore \<Rightarrow> GqlRequest" where
  "mail_unread lib key address core = unread_request lib (core_ids key core) (Some address)"

definition mail_read :: "WireLib \<Rightarrow> string \<Rightarrow> uuid \<Rightarrow> uuid \<Rightarrow> WorkCore \<Rightarrow> GqlRequest" where
  "mail_read lib key mail address core = read_mail_request lib (core_ids key core) mail address"

definition mail_attachment :: "WireLib \<Rightarrow> string \<Rightarrow> uuid \<Rightarrow> uuid \<Rightarrow> WorkCore \<Rightarrow> GqlRequest" where
  "mail_attachment lib key mail attachment core = attachment_request lib (core_ids key core) mail attachment"

definition mail_mark_read :: "uuid \<Rightarrow> WorkCore \<Rightarrow> BackendCall" where
  "mail_mark_read item core = BcMarkRead (core_run_id core) [item]"

section \<open>The context of a Run\<close>

text \<open>The context holds the queue and the book weakly: what is left of them when the Run has ended is nothing.\<close>

record 'p ToolkitContext =
  rc_work :: "'p Work"
  rc_queue :: "Shared option"
  rc_book :: "Book option"

definition context_ended :: Error where
  "context_ended = InvalidInput ''the run has ended''"

definition upgrade :: "'a option \<Rightarrow> ('a, Error) result" where
  "upgrade weak = (case weak of Some x \<Rightarrow> Ok x | None \<Rightarrow> Err context_ended)"

definition context_agent_book :: "'p ToolkitContext \<Rightarrow> (Book, Error) result" where
  "context_agent_book cx = upgrade (rc_book cx)"

definition context_plan_declared ::
    "string list \<Rightarrow> uuid option \<Rightarrow> uuid \<Rightarrow> instant \<Rightarrow> 'p ToolkitContext \<Rightarrow> (WriteEnd \<times> Shared, Error) result" where
  "context_plan_declared steps declaration_id message_id now cx =
     and_then (upgrade (rc_queue cx)) (plan_declared (core_run_id (wk_core (rc_work cx))) steps declaration_id message_id now)"

definition context_step_started ::
    "u32 \<Rightarrow> string \<Rightarrow> datetime \<Rightarrow> uuid \<Rightarrow> instant \<Rightarrow> 'p ToolkitContext \<Rightarrow> (WriteEnd \<times> Shared, Error) result" where
  "context_step_started index title started_at message_id now cx =
     and_then (upgrade (rc_queue cx)) (\<lambda>q. Ok (step_started (core_run_id (wk_core (rc_work cx))) index title started_at message_id now q))"

definition context_log ::
    "LogLevel \<Rightarrow> string \<Rightarrow> u32 option \<Rightarrow> datetime \<Rightarrow> 'p ToolkitContext \<Rightarrow> HostEvent list option \<Rightarrow> LogRecord \<times> HostEvent list option" where
  "context_log level text index now cx tap =
     (work_log level text index None now (rc_work cx), call_tap (CallRunLog level text index) tap)"

section \<open>What a Work keeps\<close>

text \<open>The work of a feed's trigger settles that trigger and no other; the work of a claim settles none.\<close>

lemma work_settles_its_trigger:
  assumes "work_from_value serde v = Ok w"
  shows "work_settle kind answer w = (Err (InvalidInput ''this Work came from a claim, it has no trigger''), [])"
    and "work_settle kind answer (with_delivery d w) = (trigger_settle kind answer, [(d, kind)])"
proof -
  have "wk_delivery w = None" using assms by (cases "parse_trigger serde v") (auto simp: work_from_value_def)
  then show "work_settle kind answer w = (Err (InvalidInput ''this Work came from a claim, it has no trigger''), [])"
    by (simp add: work_settle_def work_delivery_def)
  show "work_settle kind answer (with_delivery d w) = (trigger_settle kind answer, [(d, kind)])"
    by (simp add: work_settle_def work_delivery_def with_delivery_def)
qed

text \<open>However often a queue is asked for, one is made at most, by the first call with good settings.\<close>

fun queue_calls :: "(QueueSettings \<times> bool \<times> instant) list \<Rightarrow> 'p Work \<Rightarrow> (WriteEnd \<times> Shared, Error) result list" where
  "queue_calls [] w = []"
| "queue_calls ((settings, runtime, now) # cs) w =
     (case work_delivery_queue settings runtime now w of (r, w1) \<Rightarrow> r # queue_calls cs w1)"

definition good_call :: "QueueSettings \<times> bool \<times> instant \<Rightarrow> bool" where
  "good_call c \<longleftrightarrow> queue_check (fst c) (fst (snd c)) = Ok ()"

lemma work_delivery_queue_cases:
  "work_delivery_queue settings runtime now w =
     (if good_call (settings, runtime, now)
      then (if wk_queue_made w then Err (InvalidInput ''the delivery queue of this Work was made already'')
            else queue_start settings runtime (core_run_id (wk_core w)) now, w\<lparr>wk_queue_made := True\<rparr>)
      else (Err (projl (queue_check settings runtime)), w))"
  by (cases "queue_check settings runtime") (auto simp: work_delivery_queue_def good_call_def claim_once_def)

lemma no_queue_again: "wk_queue_made w \<Longrightarrow> \<forall>r \<in> set (queue_calls cs w). \<exists>e. r = Err e"
proof (induction cs arbitrary: w)
  case (Cons c cs)
  have "\<forall>r \<in> set (queue_calls cs (w\<lparr>wk_queue_made := True\<rparr>)). \<exists>e. r = Err e" by (rule Cons.IH) simp
  moreover have "\<forall>r \<in> set (queue_calls cs w). \<exists>e. r = Err e" by (rule Cons.IH) (rule Cons.prems)
  ultimately show ?case using Cons.prems by (cases c) (auto simp: work_delivery_queue_cases)
qed simp

lemma one_queue_of_a_work:
  assumes "\<not> wk_queue_made w"
  shows "filter (\<lambda>r. \<exists>q. r = Ok q) (queue_calls cs w) =
    (case List.find good_call cs of
       Some (settings, runtime, now) \<Rightarrow> [queue_start settings runtime (core_run_id (wk_core w)) now]
     | None \<Rightarrow> [])"
  using assms
proof (induction cs)
  case (Cons c cs)
  obtain settings runtime now where c: "c = (settings, runtime, now)" by (cases c)
  show ?case
  proof (cases "good_call c")
    case True
    have "filter (\<lambda>r. \<exists>q. r = Ok q) (queue_calls cs (w\<lparr>wk_queue_made := True\<rparr>)) = []"
      using no_queue_again [of "w\<lparr>wk_queue_made := True\<rparr>" cs] by (auto simp: filter_empty_conv)
    moreover have "\<exists>q. queue_start settings runtime (core_run_id (wk_core w)) now = Ok q"
      using True c by (simp add: good_call_def queue_start_def)
    ultimately show ?thesis using True Cons.prems c by (auto simp: work_delivery_queue_cases)
  qed (use Cons c in \<open>auto simp: work_delivery_queue_cases\<close>)
qed simp

text \<open>A context of a Run that has ended refuses, and one of a Run in flight writes what the queue writes.\<close>

lemma context_writes:
  "rc_queue cx = None \<Longrightarrow> context_plan_declared steps declaration message_id now cx = Err context_ended \<and>
     context_step_started index title at message_id now cx = Err context_ended"
  "rc_queue cx = Some q \<Longrightarrow> context_step_started index title at message_id now cx =
     Ok (step_started (core_run_id (wk_core (rc_work cx))) index title at message_id now q)"
  by (simp_all add: context_plan_declared_def context_step_started_def upgrade_def)

end
