(* ===== verification/Harness_Bind.thy ===== *)
theory Harness_Bind
  imports Harness_Loop Text_Ops
begin

text \<open>
  The start of the first harness and what it shows of itself (\<open>config.rs\<close>, \<open>transport.rs\<close>, \<open>transport/presence.rs\<close>,
  \<open>error.rs\<close> and the head of \<open>run_loop\<close>): its configuration, the streams and buckets it binds, and the entry of the
  presence bucket that the actions of its presence session write. What NATS answers is an input.
\<close>

section \<open>Configuration and errors\<close>

record RunnerConfig =
  cf_nats_url :: string
  cf_runner_type :: string
  cf_instance_key :: string
  cf_runner_version :: string
  cf_max_concurrent_runs :: u32
  cf_ack_wait :: duration
  cf_drain_timeout :: duration

definition config_new :: "string \<Rightarrow> string \<Rightarrow> string \<Rightarrow> string \<Rightarrow> RunnerConfig" where
  "config_new url runner_type instance version =
     \<lparr>cf_nats_url = url, cf_runner_type = runner_type, cf_instance_key = instance, cf_runner_version = version,
      cf_max_concurrent_runs = 1, cf_ack_wait = 30 * 10 ^ 9, cf_drain_timeout = 600 * 10 ^ 9\<rparr>"

text \<open>A capacity is refused below 1 by the contract; \<open>None\<close> is the panic of its \<open>expect\<close>.\<close>

definition config_capacity :: "RunnerConfig \<Rightarrow> u32 option" where
  "config_capacity c = (if cf_max_concurrent_runs c < 1 then None else Some (cf_max_concurrent_runs c))"

definition config_slot_count :: "RunnerConfig \<Rightarrow> nat option" where
  "config_slot_count c = (let n = unat (cf_max_concurrent_runs c) in if n = 0 then None else Some n)"

datatype HarnessError =
    HarnessConnect string string
  | HarnessInfra string string
  | PresenceBucketWithoutTtl
  | HarnessHeartbeat PresenceConfigError

definition harness_infra :: "string \<Rightarrow> string \<Rightarrow> HarnessError" where
  "harness_infra context e = HarnessInfra context e"

section \<open>Binding\<close>

text \<open>The names of the streams and buckets are the contract's.\<close>

record HarnessNames =
  hn_streams :: "string list"
  hn_cancel_bucket :: string
  hn_presence_bucket :: string

record BindIn =
  bd_connect :: "(unit, string) result"
  bd_stream :: "string \<Rightarrow> (unit, string) result"
  bd_bucket :: "string \<Rightarrow> (unit, string) result"
  bd_presence_max_age :: "(duration, string) result"
  bd_cancel_watch :: "(unit, string) result"
  bd_trigger_stream :: "(unit, string) result"
  bd_trigger_consumer :: "(unit, string) result"
  bd_trigger_pull :: "(unit, string) result"

fun bind_streams :: "BindIn \<Rightarrow> string list \<Rightarrow> (unit, HarnessError) result" where
  "bind_streams i [] = Ok ()"
| "bind_streams i (stream # rest) =
     and_then (map_sum (\<lambda>e. harness_infra ''binding a declared runner-transport stream'' (stream @ '': '' @ e)) id (bd_stream i stream))
       (\<lambda>_. bind_streams i rest)"

text \<open>The result is the time to live of the presence bucket.\<close>

definition transport_bind :: "HarnessNames \<Rightarrow> RunnerConfig \<Rightarrow> BindIn \<Rightarrow> (duration, HarnessError) result" where
  "transport_bind names c i =
     and_then (map_sum (HarnessConnect (cf_nats_url c)) id (bd_connect i)) (\<lambda>_.
     and_then (bind_streams i (hn_streams names)) (\<lambda>_.
     and_then (map_sum (harness_infra ''binding the declared cancel bucket'') id (bd_bucket i (hn_cancel_bucket names))) (\<lambda>_.
     and_then (map_sum (harness_infra ''binding the declared presence bucket'') id (bd_bucket i (hn_presence_bucket names))) (\<lambda>_.
     and_then (map_sum (harness_infra ''reading the presence bucket config'') id (bd_presence_max_age i)) (\<lambda>ttl.
       if ttl = 0 then Err PresenceBucketWithoutTtl else Ok ttl)))))"

text \<open>\<open>publish_acked\<close>: the bytes, the publication and the broker's acknowledgement; the second component says whether it was handed over.\<close>

definition publish_acked ::
    "('b, string) result \<Rightarrow> (unit, string) result \<Rightarrow> (unit, string) result \<Rightarrow> (unit, HarnessError) result \<times> 'b list" where
  "publish_acked bytes published acked =
     (case bytes of
        Inl e \<Rightarrow> (Err (harness_infra ''serializing a runner-transport payload'' e), [])
      | Inr b \<Rightarrow>
          (case published of
             Inl e \<Rightarrow> (Err (harness_infra ''publishing a runner-transport fact'' e), [])
           | Inr _ \<Rightarrow> (map_sum (harness_infra ''awaiting the broker ack of a fact'') id acked, [b])))"

definition cancel_feed_open :: "BindIn \<Rightarrow> (unit, HarnessError) result" where
  "cancel_feed_open i = map_sum (harness_infra ''opening the cancel watch'') id (bd_cancel_watch i)"

definition trigger_consumer :: "RunnerConfig \<Rightarrow> BindIn \<Rightarrow> (unit, HarnessError) result" where
  "trigger_consumer c i =
     and_then (map_sum (harness_infra ''binding the declared trigger stream'') id (bd_trigger_stream i)) (\<lambda>_.
       map_sum (\<lambda>e. harness_infra ''creating the shared trigger durable'' (''runner_'' @ cf_runner_type c @ '': '' @ e)) id (bd_trigger_consumer i))"

definition trigger_connect :: "RunnerConfig \<Rightarrow> BindIn \<Rightarrow> (unit, HarnessError) result" where
  "trigger_connect c i =
     and_then (trigger_consumer c i) (\<lambda>_. map_sum (harness_infra ''opening the trigger pull stream'') id (bd_trigger_pull i))"

text \<open>The head of \<open>run_loop\<close>, up to its loop; \<open>None\<close> is a panic.\<close>

definition harness_start :: "HarnessNames \<Rightarrow> RunnerConfig \<Rightarrow> BindIn \<Rightarrow> (Harness, HarnessError) result option" where
  "harness_start names c i =
     (case and_then (transport_bind names c i) (\<lambda>ttl. map_sum HarnessHeartbeat id (presence_new ttl (ttl div 3))) of
        Inl e \<Rightarrow> Some (Err e)
      | Inr presence \<Rightarrow>
          (case (config_capacity c, config_slot_count c) of
             (Some _, Some n) \<Rightarrow>
               Some (and_then (cancel_feed_open i) (\<lambda>_. and_then (trigger_connect c i) (\<lambda>_.
                 Ok \<lparr>hs_loop = loop_new presence n, hs_stopped = False, hs_acts = [], hs_panicked = {}\<rparr>)))
           | _ \<Rightarrow> None))"

section \<open>The entry of the presence\<close>

datatype EntryStatus = EntryReady | EntryDraining

record PresenceEntry =
  pe_runner_type :: string
  pe_instance_key :: string
  pe_runner_version :: string
  pe_status :: EntryStatus
  pe_capacity :: u32

definition presence_entry :: "RunnerConfig \<Rightarrow> EntryStatus \<Rightarrow> PresenceEntry" where
  "presence_entry c st =
     \<lparr>pe_runner_type = cf_runner_type c, pe_instance_key = cf_instance_key c, pe_runner_version = cf_runner_version c,
      pe_status = st, pe_capacity = cf_max_concurrent_runs c\<rparr>"

text \<open>
  An action on the bucket: the first argument says whether the bucket took it. A failure is only logged, so that the
  result of a write does not reach the session.
\<close>

definition presence_apply ::
    "RunnerConfig \<Rightarrow> string \<Rightarrow> bool \<Rightarrow> PresenceAction \<Rightarrow> (string \<rightharpoonup> PresenceEntry) \<Rightarrow> (string \<rightharpoonup> PresenceEntry)" where
  "presence_apply c key took a bucket =
     (if \<not> took then bucket
      else case a of
        PublishReady \<Rightarrow> bucket(key \<mapsto> presence_entry c EntryReady)
      | PublishDraining \<Rightarrow> bucket(key \<mapsto> presence_entry c EntryDraining)
      | DeletePresence \<Rightarrow> bucket(key := None))"

definition presence_written :: "RunnerConfig \<Rightarrow> string \<Rightarrow> (bool \<times> PresenceAction) list \<Rightarrow> (string \<rightharpoonup> PresenceEntry) \<Rightarrow> (string \<rightharpoonup> PresenceEntry)" where
  "presence_written c key acts bucket = fold (\<lambda>(took, a). presence_apply c key took a) acts bucket"

lemma presence_written_append:
  "presence_written c key (xs @ ys) bucket = presence_written c key ys (presence_written c key xs bucket)"
  by (simp add: presence_written_def)

lemma presence_written_other: "other \<noteq> key \<Longrightarrow> presence_written c key acts bucket other = bucket other"
  by (induction acts arbitrary: bucket)
    (auto simp: presence_written_def presence_apply_def split: PresenceAction.split)

text \<open>The entry after the actions: that of the last action that was taken, or the one before them.\<close>

fun entry_after :: "RunnerConfig \<Rightarrow> PresenceEntry option \<Rightarrow> PresenceAction \<Rightarrow> PresenceEntry option" where
  "entry_after c old PublishReady = Some (presence_entry c EntryReady)"
| "entry_after c old PublishDraining = Some (presence_entry c EntryDraining)"
| "entry_after c old DeletePresence = None"

lemma presence_written_last:
  "presence_written c key acts bucket key =
     (case rev (map snd (filter fst acts)) of [] \<Rightarrow> bucket key | a # _ \<Rightarrow> entry_after c (bucket key) a)"
proof (induction acts rule: rev_induct)
  case (snoc x acts)
  then show ?case
    by (cases x; cases "snd x") (auto simp: presence_written_append presence_written_def presence_apply_def)
qed (simp add: presence_written_def)

lemma map_error_ok: "map_sum f id r = Ok x \<longleftrightarrow> r = Ok x"
  by (cases r) auto

lemma harness_start_new:
  assumes "harness_start names c i = Some (Ok h)"
  shows "\<exists>ttl. transport_bind names c i = Ok ttl \<and> harness_new ttl (unat (cf_max_concurrent_runs c)) h"
  using assms
  by (auto simp: harness_start_def and_then_ok harness_new_def config_slot_count_def config_capacity_def Let_def unat_eq_zero map_error_ok unat_gt_0
      split: sum.splits option.splits if_splits)

lemma reach_from: "reach (\<lambda>h. h = h0) step h \<Longrightarrow> init h0 \<Longrightarrow> reach init step h"
  by (induction rule: reach.induct) (auto intro: reach.intros)


definition demo_bind :: BindIn where
  "demo_bind = \<lparr>bd_connect = Ok (), bd_stream = (\<lambda>_. Ok ()), bd_bucket = (\<lambda>_. Ok ()), bd_presence_max_age = Ok 9, bd_cancel_watch = Ok (),
     bd_trigger_stream = Ok (), bd_trigger_consumer = Ok (), bd_trigger_pull = Ok ()\<rparr>"

definition demo_names_bound :: HarnessNames where
  "demo_names_bound = \<lparr>hn_streams = [''t''], hn_cancel_bucket = ''c'', hn_presence_bucket = ''p''\<rparr>"


end
