(* ===== verification/Spec2Isabelle.thy ===== *)
theory Spec2Isabelle
  imports Backoff Slot_Pool Presence_Session Jobs_Model Queue_Correct Queue_Started Arrival_Feed Saved_State Drain
    Run_Settle Thread_Queue_Correct Thread_Port Thread_Client
    Harness_Correct Runner_As_Tool Inbox_Wait Inbox_Correct Graphql Mode_Feed
    Runner_Tasks Slot_Triggers Work_Handles Harness_Bind
begin

text \<open>
  A verification library of the jobs runner kit, a Rust workspace with which runners of svc-jobs
  are built. A runner asks jobs for Runs (or is pushed triggers for them), executes each as a
  graph, tells jobs what happened through an ordered queue of writes, and writes the conversation
  of its agents to svc-threads through a second, durable queue.

  \<^bold>\<open>The parts and the theories that model them.\<close> Paths are under \<^verbatim>\<open>src/crates\<close>.

  \<^item> \<^verbatim>\<open>br-jobs-runner-core/src\<close>: the pure state machines of the first harness. \<open>Backoff\<close> (\<^verbatim>\<open>backoff.rs\<close>:
    \<open>backoff_new\<close>, \<open>next_delay\<close>, \<open>backoff_reset\<close>), \<open>Cancel_Set\<close> (\<^verbatim>\<open>cancel.rs\<close>), \<open>Slot_Pool\<close> (\<^verbatim>\<open>slots.rs\<close>:
    \<open>try_claim\<close>, \<open>slot_release\<close>, \<open>slots_begin_drain\<close>), \<open>Presence_Session\<close> (\<^verbatim>\<open>presence.rs\<close>: \<open>poll\<close>,
    \<open>next_due\<close>, \<open>presence_close\<close>). The whole of each file.
  \<^item> \<^verbatim>\<open>br-runner-jobs/src/error.rs\<close>, \<^verbatim>\<open>reason.rs\<close>, \<^verbatim>\<open>model\<close>, \<^verbatim>\<open>backend.rs\<close>: \<open>Jobs_Error\<close> (the errors of a
    call, their texts, the refusal reasons and their words) and \<open>Jobs_Model\<close> (the data types).
  \<^item> \<^verbatim>\<open>br-runner-jobs/src/queue\<close>: the delivery queue of a Run, which takes in writes, sends them one
    at a time and in order, sends again what failed for a passing reason, drops what depends on a
    write that was removed, and tells each caller how its write ended. \<open>Queue_Write\<close> (\<^verbatim>\<open>write.rs\<close>,
    \<^verbatim>\<open>deps.rs\<close>, \<^verbatim>\<open>report.rs\<close>), \<open>Queue_Shared\<close> (\<^verbatim>\<open>shared.rs\<close>, the state under the lock and each of its
    operations), \<open>Queue_Task\<close> (\<^verbatim>\<open>task.rs\<close>, the loop that sends, the gates of held writes, its drop),
    \<open>Queue_System\<close> (\<^verbatim>\<open>mod.rs\<close> and the step relation \<open>qstep\<close> that interleaves callers and task, with
    the invariant of all of them), \<open>Queue_Exec\<close> (a run of the system as a computation),
    \<open>Queue_Correct\<close> and \<open>Queue_Started\<close> (what the queue promises).
  \<^item> \<^verbatim>\<open>br-runner-jobs/src/endwait\<close>: \<open>End_Store\<close>, the store of the ends of items and the waits on it.
  \<^item> \<^verbatim>\<open>br-runner-jobs/src/feed.rs\<close> and \<^verbatim>\<open>arrival\<close>: \<open>Arrival_Feed\<close>, a feed with a sticky end and the feed
    of what arrives for a Run.
  \<^item> \<^verbatim>\<open>br-runner-jobs/src/book\<close>: \<open>Agent_Book\<close>, the agents of a Run, their registration and their inbox.
  \<^item> \<^verbatim>\<open>br-runner-jobs/src/runner_transport/cancel.rs\<close>: \<open>Cancel_Feed\<close>, the events of the cancel orders read
    from a key-value watch.
  \<^item> \<^verbatim>\<open>br-runner-toolkit/src\<close>: the loop of a runner. \<open>Run_Record\<close> (\<^verbatim>\<open>record.rs\<close>, \<^verbatim>\<open>hooks.rs\<close>, \<^verbatim>\<open>hook.rs\<close>),
    \<open>Instance_Lookup\<close> (\<^verbatim>\<open>instances.rs\<close>), \<open>Run_Registry\<close> (\<^verbatim>\<open>shared.rs\<close>, \<^verbatim>\<open>feeds.rs\<close>), \<open>Slot_Loop\<close>
    (\<^verbatim>\<open>slot.rs\<close>, \<^verbatim>\<open>run/mod.rs\<close>, \<^verbatim>\<open>run/queue.rs\<close>), \<open>Run_Body\<close> (\<^verbatim>\<open>run/prelude.rs\<close>, \<^verbatim>\<open>run/body.rs\<close>,
    \<^verbatim>\<open>run/arrival.rs\<close>, the second half of \<^verbatim>\<open>run/mod.rs\<close>), \<open>Run_Settle\<close> (\<^verbatim>\<open>run/settle.rs\<close>,
    \<^verbatim>\<open>exec_observer.rs\<close>), \<open>Run_Finish\<close> (\<^verbatim>\<open>failure.rs\<close>, \<^verbatim>\<open>run/finish.rs\<close>, \<^verbatim>\<open>run/closing.rs\<close>,
    \<^verbatim>\<open>closings.rs\<close>), \<open>Saved_State\<close> (\<^verbatim>\<open>saved_state.rs\<close>), \<open>Drain\<close> (\<^verbatim>\<open>drain.rs\<close>), \<open>Runner_Tasks\<close> (\<^verbatim>\<open>runner.rs\<close>,
    \<^verbatim>\<open>spawn.rs\<close>, \<^verbatim>\<open>supervise.rs\<close>, \<^verbatim>\<open>presence.rs\<close>, \<^verbatim>\<open>settings.rs\<close>, \<^verbatim>\<open>error.rs\<close>, \<^verbatim>\<open>tap.rs\<close>, \<^verbatim>\<open>calls.rs\<close>, \<^verbatim>\<open>observer.rs\<close>:
    the life of a runner from \<open>runner_start\<close> to its end, as the steps of \<open>life_step\<close>), \<open>Slot_Triggers\<close> (\<open>next_trigger\<close> of
    \<^verbatim>\<open>slot.rs\<close>: the one feed of triggers that the slots share) and \<open>Work_Handles\<close> (\<^verbatim>\<open>context.rs\<close>, and of
    \<^verbatim>\<open>br-runner-jobs/src\<close> \<^verbatim>\<open>work/mod.rs\<close> and \<^verbatim>\<open>mail\<close>: what a Run holds in its hands).
  \<^item> \<^verbatim>\<open>br-runner-threads/src\<close>: the conversations. \<open>Threads_Model\<close> (\<^verbatim>\<open>error.rs\<close>, \<^verbatim>\<open>wire.rs\<close>, \<^verbatim>\<open>closing.rs\<close>,
    \<^verbatim>\<open>annotation.rs\<close>, \<^verbatim>\<open>message.rs\<close>, \<^verbatim>\<open>ids.rs\<close>: the data, the commands and the seal of a stream),
    \<open>Thread_Stream\<close> (\<^verbatim>\<open>stream/shared.rs\<close>, \<^verbatim>\<open>client/close.rs\<close>: one stream handle, its chunks and its
    closings), \<open>Thread_Client\<close> (\<^verbatim>\<open>client\<close>, \<^verbatim>\<open>live\<close>, \<^verbatim>\<open>chunk_lane\<close>, \<^verbatim>\<open>context.rs\<close>: the calls and the
    run of a command), \<open>Thread_Queue\<close> (\<^verbatim>\<open>queue\<close>, \<^verbatim>\<open>adapter/inner.rs\<close>, \<^verbatim>\<open>adapter/accept.rs\<close>,
    \<^verbatim>\<open>adapter/deliver.rs\<close>, \<^verbatim>\<open>adapter/mod.rs\<close>: the durable queue of each thread),
    \<open>Thread_Queue_System\<close> (the step relation \<open>tq_step\<close> of callers, workers, restarts and drops, with
    its invariant) and \<open>Thread_Queue_Correct\<close>, \<open>Thread_Response\<close> (\<^verbatim>\<open>response\<close>: a response that is
    streamed while a model makes it), \<open>Thread_Turns\<close> (\<^verbatim>\<open>adapter/ops\<close>: every operation of the port on
    the memory of a thread), \<open>Thread_Turns_Spec\<close> (the abstract machine of turns, which those
    operations refine) and \<open>Thread_Port\<close> (the port over the queue).

  \<^item> \<^verbatim>\<open>br-jobs-runner-kit/src\<close>: the first harness, which composes the machines of the core crate.
    \<open>Harness_Facts\<close> (\<^verbatim>\<open>facts.rs\<close>, \<^verbatim>\<open>context.rs\<close>, \<^verbatim>\<open>runner.rs\<close>, \<open>execute_run\<close> of \<^verbatim>\<open>run_loop.rs\<close>,
    \<^verbatim>\<open>transport/publish.rs\<close>: what a Run reports and how its facts are sent), \<open>Harness_Loop\<close>
    (\<^verbatim>\<open>run_loop.rs\<close>, \<^verbatim>\<open>transport/cancel.rs\<close>, \<^verbatim>\<open>transport/triggers.rs\<close>: one turn of the loop,
    \<open>harness_turn\<close>, every branch of its select, and the step relation \<open>harness_step\<close>), \<open>Harness_Bind\<close>
    (\<^verbatim>\<open>config.rs\<close>, \<^verbatim>\<open>transport.rs\<close>, \<^verbatim>\<open>transport/presence.rs\<close>: its start, \<open>harness_start\<close>, and the entry it shows of itself) and
    \<open>Harness_Correct\<close>.
  \<^item> \<^verbatim>\<open>br-runner-jobs/src/work\<close> and \<^verbatim>\<open>caller\<close>: \<open>Work_Caller\<close>, how a trigger becomes work (\<open>parse_trigger\<close>)
    and which call each write of a caller becomes (\<open>send_call\<close>).
  \<^item> \<^verbatim>\<open>br-runner-jobs/src/adapter\<close>: the port by which the nodes of a graph reach the inboxes of their
    agents. \<open>Inbox_Convert\<close> (\<^verbatim>\<open>inbox_port/convert.rs\<close>, \<^verbatim>\<open>notice_text.rs\<close>: what an unread item becomes),
    \<open>Inbox_Port\<close> (\<^verbatim>\<open>node_entry.rs\<close>, \<^verbatim>\<open>agent_port.rs\<close>, \<^verbatim>\<open>inbox_port/listing.rs\<close>, \<^verbatim>\<open>marking.rs\<close>,
    \<^verbatim>\<open>sending.rs\<close>, \<^verbatim>\<open>documents.rs\<close>: \<open>inbox_items\<close>, \<open>inbox_mark_read\<close>, \<open>inbox_send\<close>, \<open>inbox_documents\<close>),
    \<open>Inbox_Wait\<close> (\<^verbatim>\<open>waiting.rs\<close>, as the steps of \<open>wait_step\<close>) and \<open>Inbox_Correct\<close>.
  \<^item> \<^verbatim>\<open>br-runner-as-node/src\<close>, \<^verbatim>\<open>br-runner-as-tool/src\<close>: \<open>Runner_As_Node\<close> (\<open>node_run\<close>) and \<open>Runner_As_Tool\<close>
    (\<open>tool_run\<close>), a runner called as a node of a graph and as a tool of an agent. \<open>Text_Ops\<close> holds
    the operations of \<^verbatim>\<open>str\<close> they share with others.
  \<^item> \<^verbatim>\<open>br-runner-connection/src\<close>: the one connection of a runner. \<open>Connection_Endpoint\<close> (\<^verbatim>\<open>error.rs\<close>,
    \<^verbatim>\<open>credential.rs\<close>, \<^verbatim>\<open>endpoint.rs\<close>, \<^verbatim>\<open>bus/subject.rs\<close>, and the \<^verbatim>\<open>from_connection.rs\<close> of the crates that
    call it) and \<open>Connection_Call\<close> (\<^verbatim>\<open>connection.rs\<close>, \<^verbatim>\<open>reply.rs\<close>, \<^verbatim>\<open>http\<close>, \<^verbatim>\<open>bus/request.rs\<close>: \<open>conn_graphql\<close>
    and \<open>bus_request\<close>, each with what it did beside its result).
  \<^item> \<^verbatim>\<open>br-runner-jobs/src/graphql\<close>: \<open>Graphql\<close>, the variables of every call, the judgement of its reply
    (\<open>gq_call\<close>) and the reading of its values (\<open>gq_unread\<close>, \<open>send_mail\<close> and the others).
  \<^item> \<^verbatim>\<open>br-runner-jobs/src/runner_transport\<close>: \<open>Transport_Commands\<close> (\<^verbatim>\<open>fail.rs\<close>, \<^verbatim>\<open>outcomes.rs\<close>: the errors of
    the bus and the session of a command, \<open>session_run\<close>), \<open>Transport_Wire\<close> (\<^verbatim>\<open>commands.rs\<close>, \<^verbatim>\<open>publish.rs\<close>: what a command
    and a fact become on the wire, \<open>child\<close>, \<open>send_fact\<close>), \<open>Transport_Surface\<close> (\<^verbatim>\<open>surface.rs\<close>, \<^verbatim>\<open>presence.rs\<close>,
    \<^verbatim>\<open>connect.rs\<close> and \<^verbatim>\<open>client.rs\<close>: the requests to the runner surface, the claim of a client \<open>client_claim\<close>, the
    presence and the checks of \<open>live_connect\<close>), \<open>Transport_Feeds\<close> (\<^verbatim>\<open>triggers.rs\<close>, \<^verbatim>\<open>arrivals.rs\<close> and the trigger feed
    of \<^verbatim>\<open>client.rs\<close>: \<open>trigger_feed_read\<close>, \<open>doorbell_next\<close>) and \<open>Mode_Feed\<close> (\<^verbatim>\<open>mode.rs\<close>, \<^verbatim>\<open>mode_sink.rs\<close>: \<open>mode_next\<close>).

  How they interact: a runner starts its tasks (\<open>Runner_Tasks\<close>), starts those that panic again, and at its shutdown
  drains, ends them and deletes its presence. A slot (\<open>Slot_Loop\<close>) asks jobs when the registry (\<open>Run_Registry\<close>) allows it and
  registers the Run it got; the Run opens its delivery queue, whose first write is the started fact,
  makes its agent book on the queue (\<open>Run_Body\<close>), reads its arrivals into the book and its end store,
  runs the graph, settles the hooks of its instances (\<open>Run_Settle\<close>) and at its end hands its answer,
  its saved state and one terminal fact to the queue; the cancel feed writes the registry, which
  triggers the cancel handles of the Runs; the drain takes down what is left. Nodes of the graph
  write to threads through the port, whose operations append items to the queue of the thread, which
  a worker sends one by one through the client. A node or a tool that calls another runner hands the
  payload, the create and the finish or the cancel of a child Job to the delivery queue of its Run,
  and waits in the end store for the end of the child. An agent lists, marks and sends through the inbox
  port, which keeps its memory in the agent book and gives its writes to the delivery queue. The queue sends a
  write as a GraphQL call (\<open>Graphql\<close> over \<open>Connection_Call\<close>), a request on the bus (\<open>Transport_Surface\<close>), a fact or a
  command with a session (\<open>Transport_Wire\<close>, \<open>Transport_Commands\<close>), whose errors decide whether it is sent again. The slot
  keeps the id of its claim by the error that \<open>client_claim\<close> gives it; the feeds of \<open>Transport_Feeds\<close> and \<open>Mode_Feed\<close> are
  the sources of works, of the arrivals of a Run and of the mode that the registry keeps.

  \<^bold>\<open>How state and code correspond.\<close> A struct is a record with the fields of the source, an enum a
  datatype, a method a function from the old state (and its arguments) to its result and the new
  state. A \<open>Result\<close> is a sum with the error on the left, a panic that is caught is a value. What is done
  under one lock is one step; between locks, other steps may come, and the step relations (\<open>qstep\<close>,
  \<open>end_step\<close>, \<open>book_step\<close>, \<open>lookup_step\<close>, \<open>runner_step\<close>, \<open>settle_step\<close>, \<open>stream_step\<close>, \<open>tq_step\<close>,
  \<open>port_step\<close>, \<open>resp_step\<close>, \<open>harness_step\<close>, \<open>life_step\<close>, \<open>trigger_step\<close>, \<open>inbox_step\<close>, \<open>wait_step\<close>) let every other operation come there. The
  completion of a write takes the lock once and then reports and sends the result: \<open>complete\<close> is one
  step. A \<open>Uuid\<close> is a word of 128 bits, an epoch and the number of a chunk on the wire words of 64
  bits; counters that only order things (sequence numbers of writes, progress, generations, beats,
  numbers of items) and instants are natural numbers; JSON numbers are their literals. A \<open>HashMap\<close> is
  a map, or a list where its order reaches a result, and then the order is arbitrary. Histories that
  only the statements read (\<open>removed\<close> of \<open>Instance_Lookup\<close>, the history fields of the queue systems,
  \<open>dr_left\<close> and \<open>dr_hooks\<close> of \<open>Drain\<close>) are named as such where they are declared. The crates are
  modelled as they are built without their test features.

  \<^bold>\<open>What is a parameter.\<close> Code outside the workspace is an argument with the hypotheses the code
  relies on: whether an id is a UUIDv7 (\<open>v7\<close>), the sources a feed reads from, the decoding of a
  key-value entry, serde and the state of the graph contract (\<open>StateEnv\<close> with \<open>env_reads_back\<close>), the
  author's mapping of failures and answer (\<open>RunPlan\<close>), his start of a Run and the graph
  (\<open>BodyWorld\<close>), the results that jobs gives to a call, the documents and hashes of the thread
  contract (\<open>ThreadLib\<close>, \<open>SealHash\<close>), the encoding of a stored item (\<open>Codec\<close> with \<open>codec_ok\<close>), a
  queue store that the user gives (\<open>QueueStore\<close> with the locale \<open>queue_store\<close>), the draft of a
  response (\<open>DraftLib\<close> with \<open>draft_ok\<close>), the reading of a context (\<open>ContextLib\<close>), the author of a harness
  (\<open>Author\<close>), the checks and texts of the inbox contract (\<open>InboxLib\<close>), serde's reading of a trigger (\<open>TriggerSerde\<close>), and what the author's functions and the
  contract of tools answer to a node or a tool and what it hears (\<open>NodeWorld\<close>, \<open>ToolWorld\<close>, \<open>ToolLib\<close>),
  the reading of URIs, names and header values (\<open>UriLib\<close>), of ids and numbers in replies (\<open>WireLib\<close>), the names
  of the streams (\<open>BusNames\<close>), the coordinates of the commands and events (\<open>Coords\<close>), the subjects and bytes of facts and
  requests (\<open>WireNames\<close>, \<open>SurfaceLib\<close>, \<open>InfraNames\<close>), and what the sockets, the bus, the streams, the buckets and their watches answer
  (\<open>PostIn\<close>, \<open>BusIn\<close>, \<open>AttemptIn\<close>, \<open>FactIn\<close>, \<open>ConnectIn\<close>, \<open>BindIn\<close>, \<open>TriggerPull\<close>, \<open>DoorbellPull\<close>, \<open>WatchPoll\<close>).

  \<^bold>\<open>What the lemmas show.\<close>
  \<^item> The core machines: as lemmas the delays of a backoff, the capacity of a slot pool,
    the order of presence actions, the meaning of a cancel set, the times of the heartbeat and the words
    of the refusal reasons.
  \<^item> The first harness: slots, tokens and tasks agree (C6), each trigger has its one
    answer (C30), a drain ends (C27), what it shows of itself is true
    (C19); as lemmas, the cancel
    set follows the bucket over reconnections and facts are published in order with bounded retries.
  \<^item> Calls of other runners: the writes that a node (C5) and a tool
    (C12) hand over for the child they call.
  \<^item> The connection: an endpoint is accepted exactly as its rules say (C39), a call sends its
    request at most once and its error says whether it did (C40 and, as a lemma, the bus); as a lemma, an
    answer is judged by status and codes.
  \<^item> The calls to jobs: unread items are well formed (C37), no outcome of a command is lost between its attempts
    (C38), a command reads back from the wire with all that was asked (C15), the error of a
    fact says whether it was sent (C20), a claim is asked under one id until jobs answered it
    (C31); as lemmas, the attachments of a mail are up before
    the mail, a client that cannot connect lost nothing, how every reply is judged and that contents read back.
  \<^item> The delivery queue: each write has exactly one result (C1) and loses none when the
    task is dropped (C23), writes end in order (C32), the started fact goes first
    (C33); as lemmas, a drain waits for every write before it, a follow ends before the write it
    goes in front of, what blocks a write and when a write is sent again.
  \<^item> Waits and feeds: no wake-up is lost (C24) and, as a lemma, a wait
    gives what was recorded; arrivals come once each and in order (C34), the doorbell rings for its own Run
    (C18), every trigger has one end in the feed (C21), the mode feed says what changes and
    only that (C16); as a lemma, what ends a synchronous call.
  \<^item> The book: keys, ids and listing agree (C35); as lemmas, a restored book is the saved one and watches see every item.
  \<^item> The inbox port: an agent that walks its listing by the cursors sees every item once
    (C8), markers and mails are handed over once (C28), and a wait for an item loses no wake-up
    (C14).
  \<^item> The life of a runner: its presence is told in order and truthfully and its slots go on serving
    (C7), a stream that fails is asked at most once per beat (C17); as
    lemmas, what settings are, a Work makes one queue and settles its own trigger.
  \<^item> Runs: hooks are called once, all of them before the terminal fact
    (C10), a removed Run is never found (C25), the
    registry refines the cancel set of the core crate (C9, a simulation), the body of a Run never ends silently
    (C11), one
    terminal fact (C29), saved states restore
    (C36), and the drain leaves no Run behind (C26). Lemmas show how a trigger is settled, when
    a slot asks and how, that a claim keeps its id, when claims stay stopped, which orders are known
    and that the arrival task tells the book of every cut.
  \<^item> Threads: the seal of a closing covers exactly the chunks that were published
    (C4), the queue of a
    thread sends in order and ends each item once (C2), a restart finds what was not
    ended (C22), the
    items of every message form one well-formed stream and the tips a chain
    (C3, a refinement), and a streamed response is the whole response
    (C13).

  \<^bold>\<open>Interfaces.\<close> The locales \<open>ordered_map\<close>, \<open>invariant_system\<close> and \<open>simulation\<close> of \<open>Prelude\<close>,
  \<open>replay_feed\<close> of \<open>Cancel_Feed\<close>, \<open>queue_store\<close> of \<open>Thread_Queue_System\<close> (what the queue relies on in a
  store), \<open>ending_feed\<close> of \<open>Transport_Feeds\<close> (a feed that gives what it has and then one error for ever, or waits: the triggers, the
  doorbell and the mode feed), \<open>delta_lane\<close> of \<open>Thread_Response\<close> (what a response relies on in the lane it sends to) and
  \<open>turn_env\<close> of \<open>Thread_Turns_Spec\<close> (what the turns rely on in the queue) carry the shared arguments;
  each is interpreted on the model's own definitions.

  \<^bold>\<open>Loops.\<close> No fuel is used: \<open>arrival_next\<close> ends by a measure over the stored items and the buffered
  arrivals, \<open>attempts_loop\<close> runs over the answers that a sender gives, \<open>keep_turns\<close> over the feeds that
  were opened, \<open>cancel_feed_next\<close>, \<open>trigger_feed_next\<close> and \<open>cancel_feed_events\<close> over what the
  watches give, \<open>next_arrival\<close> over what the consumer gives, \<open>mode_next\<close> by the measure \<open>mode_rank\<close> (the start, the polls that are left
  and the items they may send), \<open>publish_attempts\<close> over the eight attempts, and waits are single looks that the step relations repeat.

  \<^bold>\<open>Not modelled.\<close> What moves bytes: the text of the GraphQL documents, the bytes that serde, NATS, HTTP and
  TLS make of the data (they are parameters where a property speaks of them). The test doubles and the test host of
  the crates, which are no part of a runner. The builders, which only set fields (of a runner's start, of the
  declarations of nodes and tools), and the handles that pass each call on.
\<close>

end
